(* ===== verification/Prelude.thy ===== *)
theory Prelude
imports
  Main
  "HOL-Library.Word"
  "HOL-Library.List_Lexorder"
  "HOL-Library.Char_ord"
begin

text \<open>
  Shared notions of the development: the ways a C++ call can fail, computations over an
  explicit state that may stop with a failure, the erasure of one position of a vector,
  and the collections of rewrite rules the component theories extend.
\<close>

section \<open>Rule collections\<close>

named_theorems net_simps \<open>frame and effect rules of the operations of the network engine\<close>
named_theorems db_simps \<open>effect rules of the data base layer\<close>
named_theorems str_simps \<open>rules on strings and input streams\<close>

section \<open>Failures\<close>

text \<open>
  A failing \<open>assert\<close> aborts the process, a \<open>throw\<close> unwinds to the nearest handler, and an
  operation the C++ standard gives no meaning to (a null dereference, an index past the end
  of an array, an iterator used after it was invalidated) is \<open>Undefined\<close>. The string says
  where the failure comes from.
\<close>

datatype fault = Abort string | Throw string | Undefined string

type_synonym 'a res = "fault + 'a"

definition run_then :: "'a res \<Rightarrow> ('a \<Rightarrow> 'b res) \<Rightarrow> 'b res" where
  "run_then m k = (case m of Inl f \<Rightarrow> Inl f | Inr a \<Rightarrow> k a)"

lemma run_then_simps [simp]:
  "run_then (Inl f) k = Inl f"
  "run_then (Inr a) k = k a"
  by (simp_all add: run_then_def)

lemma run_then_Inr_iff:
  "run_then m k = Inr b \<longleftrightarrow> (\<exists>a. m = Inr a \<and> k a = Inr b)"
  by (cases m) simp_all

lemma run_then_Inl_iff:
  "run_then m k = Inl f \<longleftrightarrow> m = Inl f \<or> (\<exists>a. m = Inr a \<and> k a = Inl f)"
  by (cases m) simp_all

text \<open>
  A procedure: it returns the new state, with a failure when it did not run to its end. The
  state is the one at the moment of the failure.
\<close>

type_synonym 's act = "'s \<Rightarrow> fault option \<times> 's"

definition done_with :: "'s act" where
  "done_with s = (None, s)"

definition fail_with :: "fault \<Rightarrow> 's act" where
  "fail_with f s = (Some f, s)"

definition effect :: "('s \<Rightarrow> 's) \<Rightarrow> 's act" where
  "effect g s = (None, g s)"

definition and_then :: "'s act \<Rightarrow> 's act \<Rightarrow> 's act" where
  "and_then m k s = (case m s of (None, s') \<Rightarrow> k s' | (Some f, s') \<Rightarrow> (Some f, s'))"

definition with_res :: "'a res \<Rightarrow> ('a \<Rightarrow> 's act) \<Rightarrow> 's act" where
  "with_res r k s = (case r of Inl f \<Rightarrow> (Some f, s) | Inr a \<Rightarrow> k a s)"

lemma act_simps [simp]:
  "done_with s = (None, s)"
  "fail_with f s = (Some f, s)"
  "effect g s = (None, g s)"
  "with_res (Inl f) k s = (Some f, s)"
  "with_res (Inr a) k s = k a s"
  by (simp_all add: done_with_def fail_with_def effect_def with_res_def)

lemma and_then_None [simp]: "m s = (None, s') \<Longrightarrow> and_then m k s = k s'"
  by (simp add: and_then_def)

lemma and_then_Some [simp]: "m s = (Some f, s') \<Longrightarrow> and_then m k s = (Some f, s')"
  by (simp add: and_then_def)

lemma snd_and_then_invariant:
  assumes "I s" and "\<And>s. I s \<Longrightarrow> I (snd (m s))" and "\<And>s. I s \<Longrightarrow> I (snd (k s))"
  shows "I (snd (and_then m k s))"
  using assms by (auto simp: and_then_def split: prod.split option.split) (metis snd_conv)+

text \<open>A function with a result and an effect, and a procedure that goes on with its result.\<close>

type_synonym ('s, 'a) op = "'s \<Rightarrow> 'a res \<times> 's"

definition op_then :: "('s, 'a) op \<Rightarrow> ('a \<Rightarrow> 's act) \<Rightarrow> 's act" where
  "op_then m k s = (case m s of (Inl f, s') \<Rightarrow> (Some f, s') | (Inr a, s') \<Rightarrow> k a s')"

lemma op_then_simps [simp]:
  "m s = (Inl f, s') \<Longrightarrow> op_then m k s = (Some f, s')"
  "m s = (Inr a, s') \<Longrightarrow> op_then m k s = k a s'"
  by (simp_all add: op_then_def)

lemma snd_op_then_invariant:
  assumes "I s" and "\<And>s. I s \<Longrightarrow> I (snd (m s))" and "\<And>a s. I s \<Longrightarrow> I (snd (k a s))"
  shows "I (snd (op_then m k s))"
  using assms by (auto simp: op_then_def split: prod.split sum.split) (metis snd_conv)+

text \<open>\<open>assert(b)\<close>: the process aborts when the condition is false.\<close>

definition assert_that :: "bool \<Rightarrow> string \<Rightarrow> unit res" where
  "assert_that b what = (if b then Inr () else Inl (Abort what))"

lemma assert_that_simps [simp]:
  "assert_that True w = Inr ()"
  "assert_that False w = Inl (Abort w)"
  by (simp_all add: assert_that_def)

section \<open>Vectors\<close>

text \<open>\<open>v.erase(v.begin() + i)\<close> for an index inside the vector.\<close>

definition erase_at :: "nat \<Rightarrow> 'a list \<Rightarrow> 'a list" where
  "erase_at i xs = take i xs @ drop (Suc i) xs"

lemma erase_at_0 [simp]: "erase_at 0 (x # xs) = xs"
  by (simp add: erase_at_def)

lemma erase_at_Suc [simp]: "erase_at (Suc i) (x # xs) = x # erase_at i xs"
  by (simp add: erase_at_def)

lemma length_erase_at: "i < length xs \<Longrightarrow> length (erase_at i xs) = length xs - 1"
  by (simp add: erase_at_def)

lemma set_erase_at_subset: "set (erase_at i xs) \<subseteq> set xs"
  by (auto simp: erase_at_def dest: in_set_takeD in_set_dropD)

lemma distinct_erase_at: "distinct xs \<Longrightarrow> distinct (erase_at i xs)"
  by (auto simp: erase_at_def dest: set_take_disj_set_drop_if_distinct[of xs i "Suc i"])

lemma erase_at_eq_remove1:
  "distinct xs \<Longrightarrow> i < length xs \<Longrightarrow> erase_at i xs = remove1 (xs ! i) xs"
  by (induction xs arbitrary: i) (auto simp: nth_Cons' erase_at_def gr0_conv_Suc)

text \<open>The first position at which a predicate holds: the shape of the lookup loops.\<close>

lemma find_Some_in_set: "List.find P xs = Some x \<Longrightarrow> x \<in> set xs \<and> P x"
  by (auto simp: find_Some_iff)

end
