(* ===== verification/StdString.thy ===== *)
theory StdString
imports Prelude
begin

text \<open>
  What the program uses of the C++ string and stream library: substring search, the
  character classes, decimal output and extraction of integers, and \<open>std::getline\<close> over an
  input stream with its end-of-file and failure bits.
\<close>

section \<open>Searching\<close>

primrec starts_with :: "string \<Rightarrow> string \<Rightarrow> bool" where
  "starts_with s [] = True"
| "starts_with s (p # ps) = (case s of [] \<Rightarrow> False | c # cs \<Rightarrow> c = p \<and> starts_with cs ps)"

text \<open>\<open>s.find(pat)\<close>, with \<open>None\<close> for \<open>npos\<close>.\<close>

primrec str_find :: "string \<Rightarrow> string \<Rightarrow> nat option" where
  "str_find [] pat = (if pat = [] then Some 0 else None)"
| "str_find (c # cs) pat =
     (if starts_with (c # cs) pat then Some 0 else map_option Suc (str_find cs pat))"

definition contains :: "string \<Rightarrow> string \<Rightarrow> bool" where
  "contains s pat \<longleftrightarrow> str_find s pat \<noteq> None"

lemma starts_with_take: "starts_with s p \<longleftrightarrow> take (length p) s = p"
  by (induction p arbitrary: s) (auto split: list.splits)

lemma starts_with_single [simp]: "starts_with s [c] \<longleftrightarrow> s \<noteq> [] \<and> hd s = c"
  by (cases s) auto

lemma str_find_Some_le: "str_find s pat = Some i \<Longrightarrow> i \<le> length s"
  by (induction s arbitrary: i) (auto split: if_splits)

lemma str_find_starts: "str_find s pat = Some i \<Longrightarrow> starts_with (drop i s) pat"
  by (induction s arbitrary: i) (auto split: if_splits)

lemma str_find_first: "str_find s pat = Some i \<Longrightarrow> j < i \<Longrightarrow> \<not> starts_with (drop j s) pat"
proof (induction s arbitrary: i j)
  case (Cons c cs)
  then show ?case by (cases j) (auto split: if_splits)
qed (auto split: if_splits)

lemma str_find_single:
  "str_find s [c] = (if c \<in> set s then Some (length (takeWhile (\<lambda>x. x \<noteq> c) s)) else None)"
  by (induction s) auto

lemma contains_single [simp]: "contains s [c] \<longleftrightarrow> c \<in> set s"
  by (simp add: contains_def str_find_single)

text \<open>\<open>s.substr(0, s.find(pat))\<close>: everything before the first occurrence, or all of \<open>s\<close>.\<close>

definition before :: "string \<Rightarrow> string \<Rightarrow> string" where
  "before s pat = (case str_find s pat of None \<Rightarrow> s | Some i \<Rightarrow> take i s)"

lemma before_absent: "\<not> contains s pat \<Longrightarrow> before s pat = s"
  by (auto simp: before_def contains_def)

lemma before_single: "before s [c] = takeWhile (\<lambda>x. x \<noteq> c) s"
proof (cases "c \<in> set s")
  case True
  have "take (length (takeWhile (\<lambda>x. x \<noteq> c) s)) s = takeWhile (\<lambda>x. x \<noteq> c) s"
    by (rule takeWhile_eq_take [symmetric])
  with True show ?thesis by (simp add: before_def str_find_single)
next
  case False
  then have "takeWhile (\<lambda>x. x \<noteq> c) s = s" by (subst takeWhile_eq_all_conv) auto
  with False show ?thesis by (simp only: before_def str_find_single if_False option.case)
qed

lemma length_before: "length (before s pat) \<le> length s"
  by (auto simp: before_def split: option.splits)

section \<open>Character classes\<close>

definition newline :: char where
  "newline = CHR 0x0A"

text \<open>The set \<open>" \n\t\v\r\f"\<close>, which is also what \<open>isspace\<close> accepts.\<close>

definition whitespace :: string where
  "whitespace = [CHR 0x20, CHR 0x0A, CHR 0x09, CHR 0x0B, CHR 0x0D, CHR 0x0C]"

definition is_space :: "char \<Rightarrow> bool" where
  "is_space c \<longleftrightarrow> c \<in> set whitespace"

lemma is_space_newline [simp]: "is_space newline"
  by (simp add: is_space_def whitespace_def newline_def)

lemma is_space_blank [simp]: "is_space (CHR '' '')"
  by (simp add: is_space_def whitespace_def)

definition is_digit :: "char \<Rightarrow> bool" where
  "is_digit c \<longleftrightarrow> CHR ''0'' \<le> c \<and> c \<le> CHR ''9''"

definition digit_char :: "nat \<Rightarrow> char" where
  "digit_char n = char_of (48 + n)"

definition digit_val :: "char \<Rightarrow> nat" where
  "digit_val c = of_char c - 48"

lemma is_digit_iff: "is_digit c \<longleftrightarrow> 48 \<le> (of_char c :: nat) \<and> (of_char c :: nat) \<le> 57"
  by (simp add: is_digit_def less_eq_char_def)

lemma digit_char_val [simp]: "n < 10 \<Longrightarrow> digit_val (digit_char n) = n"
  by (simp add: digit_val_def digit_char_def of_char_of)

lemma is_digit_digit_char [simp]: "n < 10 \<Longrightarrow> is_digit (digit_char n)"
  by (simp add: is_digit_iff digit_char_def of_char_of)

lemma digit_not_space: "is_digit c \<Longrightarrow> \<not> is_space c"
  by (auto simp: is_digit_iff is_space_def whitespace_def)

lemma digit_not_sign: "is_digit c \<Longrightarrow> c \<noteq> CHR ''-'' \<and> c \<noteq> CHR ''+''"
  by (auto simp: is_digit_iff)

text \<open>\<open>toupper\<close> in the C locale.\<close>

definition to_upper :: "char \<Rightarrow> char" where
  "to_upper c = (if CHR ''a'' \<le> c \<and> c \<le> CHR ''z'' then char_of (of_char c - 32 :: nat) else c)"

section \<open>Decimal integers\<close>

fun show_nat :: "nat \<Rightarrow> string" where
  "show_nat n = (if n < 10 then [digit_char n] else show_nat (n div 10) @ [digit_char (n mod 10)])"

declare show_nat.simps [simp del]

definition show_int :: "int \<Rightarrow> string" where
  "show_int n = (if n < 0 then CHR ''-'' # show_nat (nat (- n)) else show_nat (nat n))"

definition digits_val :: "string \<Rightarrow> nat" where
  "digits_val ds = foldl (\<lambda>n c. 10 * n + digit_val c) 0 ds"

text \<open>
  Extraction of a signed decimal integer from a string stream: leading white space is
  skipped, then an optional sign and digits are read. \<open>None\<close> is the failure bit: no digit,
  or a value the type cannot hold. The rest is what the stream still holds.
\<close>

definition read_int :: "int \<Rightarrow> int \<Rightarrow> string \<Rightarrow> (int \<times> string) option" where
  "read_int lo hi s =
     (let t = dropWhile is_space s;
          neg = (t \<noteq> [] \<and> hd t = CHR ''-'');
          signed = (t \<noteq> [] \<and> (hd t = CHR ''-'' \<or> hd t = CHR ''+''));
          u = (if signed then tl t else t);
          ds = takeWhile is_digit u;
          v = (if neg then - int (digits_val ds) else int (digits_val ds))
      in if ds = [] \<or> v < lo \<or> hi < v then None else Some (v, dropWhile is_digit u))"

definition INT_MIN :: int where "INT_MIN = - 2147483648"
definition INT_MAX :: int where "INT_MAX = 2147483647"

lemma digits_val_append: "digits_val (xs @ [c]) = 10 * digits_val xs + digit_val c"
  by (simp add: digits_val_def)

lemma show_nat_digits: "\<forall>c \<in> set (show_nat n). is_digit c"
proof (induction n rule: show_nat.induct)
  case (1 n)
  then show ?case by (subst show_nat.simps) auto
qed

lemma show_nat_nonempty: "show_nat n \<noteq> []"
  by (subst show_nat.simps) auto

lemma digits_val_show_nat: "digits_val (show_nat n) = n"
proof (induction n rule: show_nat.induct)
  case (1 n)
  show ?case
  proof (cases "n < 10")
    case True
    then show ?thesis by (subst show_nat.simps) (simp add: digits_val_def)
  next
    case False
    then show ?thesis
      by (subst show_nat.simps) (simp add: digits_val_append 1)
  qed
qed

lemma takeWhile_digits:
  assumes "\<forall>c \<in> set ds. is_digit c" and "rest = [] \<or> \<not> is_digit (hd rest)"
  shows "takeWhile is_digit (ds @ rest) = ds" and "dropWhile is_digit (ds @ rest) = rest"
  using assms by (induction ds) (cases rest; auto)+

text \<open>What is written in decimal is read back, up to the first character after it.\<close>

lemma read_show_int:
  assumes "lo \<le> n" "n \<le> hi" and "rest = [] \<or> \<not> is_digit (hd rest)"
  shows "read_int lo hi (show_int n @ rest) = Some (n, rest)"
proof -
  let ?ds = "show_nat (nat \<bar>n\<bar>)"
  have ds: "\<forall>c \<in> set ?ds. is_digit c" by (rule show_nat_digits)
  obtain c cs where cons: "?ds = c # cs" using show_nat_nonempty by (cases ?ds) auto
  then have c: "is_digit c" "\<not> is_space c" "c \<noteq> CHR ''-''" "c \<noteq> CHR ''+''"
    using ds digit_not_space digit_not_sign by auto
  have minus: "\<not> is_space (CHR ''-'')" by (simp add: is_space_def whitespace_def)
  show ?thesis
  proof (cases "n < 0")
    case True
    then have "show_int n = CHR ''-'' # ?ds" by (simp add: show_int_def)
    then show ?thesis
      using assms True minus takeWhile_digits[OF ds assms(3)] show_nat_nonempty
      by (simp add: read_int_def digits_val_show_nat)
  next
    case False
    then have "show_int n = ?ds" by (simp add: show_int_def)
    then show ?thesis
      using assms False c cons takeWhile_digits[OF ds assms(3)] show_nat_nonempty
        digits_val_show_nat[of "nat \<bar>n\<bar>"]
      by (simp add: read_int_def)
  qed
qed

lemma read_int_range: "read_int lo hi s = Some (n, rest) \<Longrightarrow> lo \<le> n \<and> n \<le> hi"
  by (auto simp: read_int_def Let_def split: if_splits)

lemma show_int_ends:
  obtains c cs where "show_int n = c # cs" and "\<not> is_space c" and "\<not> is_space (last (show_int n))"
proof -
  have ds: "\<forall>c \<in> set (show_nat m). is_digit c" "show_nat m \<noteq> []" for m
    by (rule show_nat_digits) (rule show_nat_nonempty)
  have la: "is_digit (last (show_int n))"
    using ds by (simp add: show_int_def) (metis last_in_set)
  have "show_int n \<noteq> []" using ds by (simp add: show_int_def)
  then obtain c cs where cs: "show_int n = c # cs" by (cases "show_int n") auto
  have "\<not> is_space c"
    using cs ds[of "nat n"] by (auto simp: show_int_def is_space_def whitespace_def is_digit_iff split: if_splits)
  with cs la that show thesis using digit_not_space by blast
qed

section \<open>Trimming\<close>

definition find_first_not_of :: "string \<Rightarrow> string \<Rightarrow> nat option" where
  "find_first_not_of s cs =
     (let n = length (takeWhile (\<lambda>c. c \<in> set cs) s) in if n < length s then Some n else None)"

definition find_last_not_of :: "string \<Rightarrow> string \<Rightarrow> nat option" where
  "find_last_not_of s cs =
     (case length (dropWhile (\<lambda>c. c \<in> set cs) (rev s)) of 0 \<Rightarrow> None | Suc n \<Rightarrow> Some n)"

definition strip :: "string \<Rightarrow> string" where
  "strip s = rev (dropWhile is_space (rev (dropWhile is_space s)))"

lemma strip_Nil [simp]: "strip [] = []"
  by (simp add: strip_def)

definition stripped :: "string \<Rightarrow> bool" where
  "stripped s \<longleftrightarrow> s = [] \<or> (\<not> is_space (hd s) \<and> \<not> is_space (last s))"

lemma dropWhile_hd: "xs \<noteq> [] \<Longrightarrow> \<not> P (hd xs) \<Longrightarrow> dropWhile P xs = xs"
  by (cases xs) auto

lemma strip_stripped [simp]: "stripped s \<Longrightarrow> strip s = s"
  by (cases "s = []") (auto simp: strip_def stripped_def dropWhile_hd hd_rev)

lemma stripped_strip: "stripped (strip s)"
proof -
  let ?t = "dropWhile is_space s"
  let ?u = "dropWhile is_space (rev ?t)"
  show ?thesis
  proof (cases "?u = []")
    case True
    then show ?thesis by (simp only: strip_def stripped_def rev.simps simp_thms)
  next
    case False
    then have "?t \<noteq> []" by (metis dropWhile.simps(1) rev.simps(1))
    then have "\<not> is_space (hd ?t)" by (rule hd_dropWhile)
    moreover have "last ?u = hd ?t"
      using False by (metis last_appendR last_rev takeWhile_dropWhile_id)
    moreover have "\<not> is_space (hd ?u)" using False by (rule hd_dropWhile)
    ultimately show ?thesis using False
      by (simp only: stripped_def strip_def hd_rev last_rev simp_thms)
  qed
qed

lemma strip_idem [simp]: "strip (strip s) = strip s"
  by (simp add: stripped_strip)

lemma strip_all_space: "\<forall>c \<in> set s. is_space c \<Longrightarrow> strip s = []"
proof -
  assume "\<forall>c \<in> set s. is_space c"
  then have "dropWhile is_space s = []" by (simp only: dropWhile_eq_Nil_conv)
  then show ?thesis by (simp only: strip_def) simp
qed

lemma strip_eq_Nil_iff: "strip s = [] \<longleftrightarrow> (\<forall>c \<in> set s. is_space c)"
proof
  assume "strip s = []"
  then have "\<forall>c \<in> set (dropWhile is_space s). is_space c" by (simp add: strip_def)
  then have "dropWhile is_space s = []" by (metis hd_dropWhile hd_in_set)
  then show "\<forall>c \<in> set s. is_space c" by simp
qed (rule strip_all_space)

lemma strip_pad_left: "is_space c \<Longrightarrow> strip (c # s) = strip s"
  by (simp add: strip_def)

lemma strip_pad_right: "is_space c \<Longrightarrow> strip (s @ [c]) = strip s"
proof (cases "\<forall>x \<in> set s. is_space x")
  case True
  moreover assume "is_space c"
  ultimately have "\<forall>x \<in> set (s @ [c]). is_space x" by auto
  with True show ?thesis by (simp add: strip_all_space)
next
  case False
  then have "dropWhile is_space (s @ [c]) = dropWhile is_space s @ [c]" by auto
  moreover assume "is_space c"
  ultimately show ?thesis by (simp add: strip_def)
qed

section \<open>Input streams\<close>

record istream =
  is_rest :: string
  is_eof :: bool
  is_fail :: bool

definition stream_of :: "string \<Rightarrow> istream" where
  "stream_of s = \<lparr>is_rest = s, is_eof = False, is_fail = False\<rparr>"

definition is_good :: "istream \<Rightarrow> bool" where
  "is_good i \<longleftrightarrow> \<not> is_eof i \<and> \<not> is_fail i"

text \<open>
  \<open>std::getline(is, str)\<close>. On a stream that is not good the sentry sets the failure bit and
  leaves \<open>str\<close> as it was; otherwise \<open>str\<close> is what stands before the next newline, which is
  removed. Reaching the end sets the end-of-file bit, and reading nothing the failure bit.
\<close>

definition getline :: "istream \<Rightarrow> string \<Rightarrow> istream \<times> string" where
  "getline i str =
     (if \<not> is_good i then (i\<lparr>is_fail := True\<rparr>, str)
      else let l = takeWhile (\<lambda>c. c \<noteq> newline) (is_rest i);
               r = dropWhile (\<lambda>c. c \<noteq> newline) (is_rest i)
           in if r = [] then (i\<lparr>is_rest := [], is_eof := True, is_fail := (is_rest i = [])\<rparr>, l)
              else (i\<lparr>is_rest := tl r\<rparr>, l))"

text \<open>What is left to read: it shrinks at every \<open>getline\<close> on a stream that has not failed.\<close>

definition is_left :: "istream \<Rightarrow> nat" where
  "is_left i = (if is_fail i then 0 else if is_eof i then 1 else length (is_rest i) + 2)"

lemma getline_shrinks: "\<not> is_fail i \<Longrightarrow> is_left (fst (getline i str)) < is_left i"
proof (cases "is_good i")
  case True
  let ?r = "dropWhile (\<lambda>c. c \<noteq> newline) (is_rest i)"
  have "length ?r \<le> length (is_rest i)" by (rule length_dropWhile_le)
  then show ?thesis using True
    by (cases ?r) (auto simp: getline_def is_left_def is_good_def Let_def)
qed (auto simp: getline_def is_left_def is_good_def)

lemma getline_line:
  assumes "newline \<notin> set l"
  shows "getline (stream_of (l @ newline # r)) str = (stream_of r, l)"
proof -
  have "takeWhile (\<lambda>c. c \<noteq> newline) (l @ newline # r) = l"
       "dropWhile (\<lambda>c. c \<noteq> newline) (l @ newline # r) = newline # r"
    using assms by (induction l) auto
  then show ?thesis by (simp add: getline_def stream_of_def is_good_def)
qed

lemma getline_end [simp]:
  "getline (stream_of []) str = (\<lparr>is_rest = [], is_eof = True, is_fail = True\<rparr>, [])"
  by (simp add: getline_def stream_of_def is_good_def)

end
