(* ===== verification/SConvert.thy ===== *)
theory SConvert
imports StdString
begin

text \<open>
  \<open>Engine/SConvert.h\<close>: conversions between values and their text. The templates take the
  stream operators of their type: insertion gives the text written (\<open>None\<close> when the stream
  refuses), extraction the value and the text left over (\<open>None\<close> for the failure bit).
\<close>

definition BadConversion :: "string \<Rightarrow> fault" where
  "BadConversion s = Throw (''BadConversion: '' @ s)"

definition stringify :: "('a \<Rightarrow> string option) \<Rightarrow> string \<Rightarrow> 'a \<Rightarrow> string res" where
  "stringify ins type_name x =
     (case ins x of
        None \<Rightarrow> Inl (BadConversion (''stringify('' @ type_name @ '')''))
      | Some o' \<Rightarrow> Inr o')"

definition convert :: "(string \<Rightarrow> ('a \<times> string) option) \<Rightarrow> string \<Rightarrow> bool \<Rightarrow> 'a res" where
  "convert ext s failIfLeftoverChars =
     (case ext s of
        None \<Rightarrow> Inl (BadConversion s)
      | Some (x, left) \<Rightarrow>
          if failIfLeftoverChars \<and> left \<noteq> [] then Inl (BadConversion s) else Inr x)"

definition convertTo :: "(string \<Rightarrow> ('a \<times> string) option) \<Rightarrow> string \<Rightarrow> bool \<Rightarrow> 'a res" where
  "convertTo ext s failIfLeftoverChars =
     run_then (convert ext s failIfLeftoverChars) (\<lambda>x. Inr x)"

text \<open>The instances for \<open>int\<close>: the inserter never fails, the extractor is \<open>read_int\<close>.\<close>

definition stringify_int :: "int \<Rightarrow> string res" where
  "stringify_int = stringify (\<lambda>n. Some (show_int n)) ''i''"

definition convertTo_int :: "string \<Rightarrow> bool \<Rightarrow> int res" where
  "convertTo_int = convertTo (read_int INT_MIN INT_MAX)"

lemma stringify_int_eq [simp]: "stringify_int n = Inr (show_int n)"
  by (simp add: stringify_int_def stringify_def)

lemma convertTo_int_show:
  assumes "INT_MIN \<le> n" "n \<le> INT_MAX" and "rest = [] \<or> \<not> is_digit (hd rest)"
  shows "convertTo_int (show_int n @ rest) strict =
     (if strict \<and> rest \<noteq> [] then Inl (BadConversion (show_int n @ rest)) else Inr n)"
  by (simp add: convertTo_int_def convertTo_def convert_def read_show_int[OF assms])

lemma convertTo_int_range:
  "convertTo_int s strict = Inr n \<Longrightarrow> INT_MIN \<le> n \<and> n \<le> INT_MAX"
  by (auto simp: convertTo_int_def convertTo_def convert_def run_then_Inr_iff
      split: option.splits prod.splits if_splits dest: read_int_range)

end
