(* ===== verification/StdMap.thy ===== *)
theory StdMap
imports Prelude
begin

text \<open>
  The associative containers of the C++ library, as the list of their entries in the order
  an iterator meets them: strictly increasing keys. Lookups, \<open>operator[]\<close> assignment,
  \<open>insert\<close> (which keeps an entry that is there) and \<open>erase\<close>. The locale
  \<open>dictionary\<close> states the laws the clients use; the list implementation interprets it.
\<close>

section \<open>The interface\<close>

locale dictionary =
  fixes look :: "'m \<Rightarrow> 'k \<Rightarrow> 'v option"
    and put :: "'k \<Rightarrow> 'v \<Rightarrow> 'm \<Rightarrow> 'm"
    and add_new :: "'k \<Rightarrow> 'v \<Rightarrow> 'm \<Rightarrow> 'm"
    and del :: "'k \<Rightarrow> 'm \<Rightarrow> 'm"
    and empty_dict :: "'m"
    and wf_dict :: "'m \<Rightarrow> bool"
  assumes look_empty: "look empty_dict k = None"
    and look_put: "look (put k v m) k' = (if k' = k then Some v else look m k')"
    and look_add_new:
      "look (add_new k v m) k' = (if k' = k \<and> look m k = None then Some v else look m k')"
    and look_del: "wf_dict m \<Longrightarrow> look (del k m) k' = (if k' = k then None else look m k')"
    and wf_empty: "wf_dict empty_dict"
    and wf_put: "wf_dict m \<Longrightarrow> wf_dict (put k v m)"
    and wf_add_new: "wf_dict m \<Longrightarrow> wf_dict (add_new k v m)"
    and wf_del: "wf_dict m \<Longrightarrow> wf_dict (del k m)"
    and dict_ext: "wf_dict m \<Longrightarrow> wf_dict m' \<Longrightarrow> (\<And>k. look m k = look m' k) \<Longrightarrow> m = m'"
begin

definition put_all :: "('k \<times> 'v) list \<Rightarrow> 'm \<Rightarrow> 'm" where
  "put_all kvs m = fold (\<lambda>(k, v). put k v) kvs m"

lemma put_all_simps [simp]:
  "put_all [] m = m"
  "put_all ((k, v) # kvs) m = put_all kvs (put k v m)"
  by (simp_all add: put_all_def)

lemma wf_put_all: "wf_dict m \<Longrightarrow> wf_dict (put_all kvs m)"
  by (induction kvs arbitrary: m) (auto simp: wf_put)

text \<open>The last entry written under a key is the one that is read back.\<close>

lemma look_put_all:
  "look (put_all kvs m) k = (case map_of (rev kvs) k of Some v \<Rightarrow> Some v | None \<Rightarrow> look m k)"
  by (induction kvs arbitrary: m)
    (auto simp: look_put map_add_def split: option.splits)

lemma put_same: "wf_dict m \<Longrightarrow> look m k = Some v \<Longrightarrow> put k v m = m"
  by (rule dict_ext) (auto simp: wf_put look_put)

lemma put_put: "wf_dict m \<Longrightarrow> put k v (put k w m) = put k v m"
  by (rule dict_ext) (auto simp: wf_put look_put)

lemma put_commute: "wf_dict m \<Longrightarrow> k \<noteq> k' \<Longrightarrow> put k v (put k' v' m) = put k' v' (put k v m)"
  by (rule dict_ext) (auto simp: wf_put look_put)

lemma add_new_present: "wf_dict m \<Longrightarrow> look m k = Some w \<Longrightarrow> add_new k v m = m"
  by (rule dict_ext) (auto simp: wf_add_new look_add_new)

lemma add_new_absent: "wf_dict m \<Longrightarrow> look m k = None \<Longrightarrow> add_new k v m = put k v m"
  by (rule dict_ext) (auto simp: wf_add_new wf_put look_add_new look_put)

lemma del_put: "wf_dict m \<Longrightarrow> look m k = None \<Longrightarrow> del k (put k v m) = m"
  by (rule dict_ext) (auto simp: wf_del wf_put look_del look_put)

end

section \<open>Ordered association lists\<close>

type_synonym ('k, 'v) stdmap = "('k \<times> 'v) list"

definition map_find :: "('k, 'v) stdmap \<Rightarrow> 'k \<Rightarrow> 'v option" where
  "map_find m k = map_of m k"

fun map_put :: "'k::linorder \<Rightarrow> 'v \<Rightarrow> ('k, 'v) stdmap \<Rightarrow> ('k, 'v) stdmap" where
  "map_put k v [] = [(k, v)]"
| "map_put k v (e # m) =
     (if k = fst e then (k, v) # m
      else if k < fst e then (k, v) # e # m
      else e # map_put k v m)"

definition map_insert :: "'k::linorder \<Rightarrow> 'v \<Rightarrow> ('k, 'v) stdmap \<Rightarrow> ('k, 'v) stdmap" where
  "map_insert k v m = (if map_find m k = None then map_put k v m else m)"

definition map_erase :: "'k \<Rightarrow> ('k, 'v) stdmap \<Rightarrow> ('k, 'v) stdmap" where
  "map_erase k m = filter (\<lambda>e. fst e \<noteq> k) m"

definition map_wf :: "('k::linorder, 'v) stdmap \<Rightarrow> bool" where
  "map_wf m \<longleftrightarrow> sorted_wrt (<) (map fst m)"

lemma map_find_Nil [simp]: "map_find [] k = None"
  by (simp add: map_find_def)

lemma map_find_Cons [simp]:
  "map_find ((a, b) # m) k = (if k = a then Some b else map_find m k)"
  by (simp add: map_find_def)

lemma map_find_put [simp]:
  "map_find (map_put k v m) k' = (if k' = k then Some v else map_find m k')"
  by (induction m) (auto simp: map_find_def)

lemma map_find_erase: "map_find (map_erase k m) k' = (if k' = k then None else map_find m k')"
  by (induction m) (auto simp: map_erase_def map_find_def)

lemma keys_put: "fst ` set (map_put k v m) = insert k (fst ` set m)"
  by (induction m) auto

lemma map_wf_Nil [simp]: "map_wf []"
  by (simp add: map_wf_def)

lemma map_wf_Cons: "map_wf (e # m) \<longleftrightarrow> (\<forall>k \<in> fst ` set m. fst e < k) \<and> map_wf m"
  by (auto simp: map_wf_def)

lemma map_wf_put [simp]: "map_wf m \<Longrightarrow> map_wf (map_put k v m)"
proof (induction m)
  case Nil
  then show ?case by (simp add: map_wf_def)
next
  case (Cons e m)
  then show ?case
    by (cases "k < fst e") (auto simp: map_wf_Cons keys_put)
qed

lemma map_wf_erase [simp]: "map_wf m \<Longrightarrow> map_wf (map_erase k m)"
  by (induction m) (auto simp: map_wf_Cons map_erase_def)

lemma map_find_in_keys: "map_find m k = Some v \<Longrightarrow> k \<in> fst ` set m"
  by (auto simp: map_find_def dest: map_of_SomeD intro: rev_image_eqI)

lemma map_find_None_iff: "map_find m k = None \<longleftrightarrow> k \<notin> fst ` set m"
  by (simp add: map_find_def map_of_eq_None_iff)

lemma map_wf_ext:
  "map_wf m \<Longrightarrow> map_wf m' \<Longrightarrow> (\<And>k. map_find m k = map_find m' k) \<Longrightarrow> m = m'"
proof (induction m arbitrary: m')
  case Nil
  show ?case
  proof (cases m')
    case (Cons e t)
    with Nil.prems(3)[of "fst e"] show ?thesis by (cases e) simp
  qed simp
next
  case (Cons e m)
  obtain a b where e: "e = (a, b)" by (cases e)
  have here: "map_find m' a = Some b" using Cons.prems(3)[of a] e by simp
  then obtain a' b' t where m': "m' = (a', b') # t" by (cases m') auto
  have lo: "a' \<le> a" using map_find_in_keys[OF here] Cons.prems(2) m'
    by (auto simp: map_wf_Cons intro: less_imp_le)
  have "map_find (e # m) a' = Some b'" using Cons.prems(3)[of a'] m' by simp
  then have "a \<le> a'" using map_find_in_keys Cons.prems(1) e
    by (fastforce simp: map_wf_Cons intro: less_imp_le)
  with lo have keq: "a' = a" by simp
  have veq: "b' = b" using here m' keq by simp
  have "m = t"
  proof (rule Cons.IH)
    show "map_wf m" "map_wf t" using Cons.prems m' by (auto simp: map_wf_Cons)
    fix k
    show "map_find m k = map_find t k"
    proof (cases "k = a")
      case True
      have "a \<notin> fst ` set m" "a \<notin> fst ` set t"
        using Cons.prems(1,2) e m' keq by (auto simp: map_wf_Cons)
      then show ?thesis using True by (metis map_find_None_iff)
    next
      case False
      then show ?thesis using Cons.prems(3)[of k] e m' keq by simp
    qed
  qed
  then show ?case using e m' keq veq by simp
qed

interpretation std: dictionary map_find map_put map_insert map_erase "[]" map_wf
proof unfold_locales
  fix m m' :: "('a::linorder, 'b) stdmap"
  assume "map_wf m" "map_wf m'" "\<And>k. map_find m k = map_find m' k"
  then show "m = m'" by (rule map_wf_ext)
qed (auto simp: map_find_erase map_insert_def)

lemma map_insert_find [simp]:
  "map_find (map_insert k v m) k' =
     (if k' = k \<and> map_find m k = None then Some v else map_find m k')"
  by (rule std.look_add_new)

lemma map_wf_insert [simp]: "map_wf m \<Longrightarrow> map_wf (map_insert k v m)"
  by (rule std.wf_add_new)

lemma map_of_rev_distinct: "distinct (map fst m) \<Longrightarrow> map_of (rev m) k = map_of m k"
proof (induction m)
  case (Cons e m)
  then have "map_of (rev m) (fst e) = None"
    by (simp add: map_of_eq_None_iff)
  with Cons show ?case
    by (cases e) (auto simp: map_add_def split: option.splits)
qed simp

text \<open>Rebuilding a well-formed map by writing its entries one by one gives it back.\<close>

lemma put_all_self:
  assumes "map_wf m"
  shows "std.put_all m [] = m"
proof (rule map_wf_ext)
  show "map_wf (std.put_all m [])" by (rule std.wf_put_all) simp
  show "map_wf m" by (rule assms)
  fix k
  have "distinct (map fst m)"
    using assms by (auto simp: map_wf_def strict_sorted_iff)
  then have "map_of (rev m) k = map_of m k"
    by (rule map_of_rev_distinct)
  then show "map_find (std.put_all m []) k = map_find m k"
    unfolding std.look_put_all by (simp add: map_find_def split: option.splits)
qed

end
