(* ===== verification/SConfigFileParser.thy ===== *)
theory SConfigFileParser
imports StdMap StdString
begin

text \<open>
  \<open>Engine/SConfigFileParser.{h,cpp}\<close>: a configuration is a map from keys to values with the
  three strings of its syntax. The reader works on an input stream and looks one line ahead
  to see whether a value continues; both of its loops are recursive functions over the
  stream and the line read ahead.
\<close>

section \<open>The data\<close>

record ConfigFileParser =
  myDelimiter :: string
  myComment :: string
  mySentry :: string
  myContents :: "(string, string) stdmap"

definition ConfigFileParser_default :: ConfigFileParser where
  "ConfigFileParser_default =
     \<lparr>myDelimiter = ''='', myComment = ''#'', mySentry = [], myContents = []\<rparr>"

definition keyExists :: "ConfigFileParser \<Rightarrow> string \<Rightarrow> bool" where
  "keyExists cf key \<longleftrightarrow> map_find (myContents cf) key \<noteq> None"

text \<open>\<open>erase(find(key))\<close>: erasing the end iterator has no meaning.\<close>

definition ConfigFileParser_remove :: "ConfigFileParser \<Rightarrow> string \<Rightarrow> ConfigFileParser res" where
  "ConfigFileParser_remove cf key =
     (case map_find (myContents cf) key of
        None \<Rightarrow> Inl (Undefined ''erase of the end iterator'')
      | Some _ \<Rightarrow> Inr (cf\<lparr>myContents := map_erase key (myContents cf)\<rparr>))"

definition setDelimiter :: "ConfigFileParser \<Rightarrow> string \<Rightarrow> ConfigFileParser \<times> string" where
  "setDelimiter cf s = (cf\<lparr>myDelimiter := s\<rparr>, myDelimiter cf)"

definition setComment :: "ConfigFileParser \<Rightarrow> string \<Rightarrow> ConfigFileParser \<times> string" where
  "setComment cf s = (cf\<lparr>myComment := s\<rparr>, myComment cf)"

definition trim :: "string \<Rightarrow> string" where
  "trim s =
     (let s1 = (case find_first_not_of s whitespace of None \<Rightarrow> [] | Some n \<Rightarrow> drop n s)
      in case find_last_not_of s1 whitespace of None \<Rightarrow> [] | Some n \<Rightarrow> take (Suc n) s1)"

lemma trim_eq_strip [simp]: "trim s = strip s"
proof -
  have sp: "(\<lambda>c. c \<in> set whitespace) = is_space" by (rule ext) (simp add: is_space_def)
  have first: "(case find_first_not_of s whitespace of None \<Rightarrow> [] | Some n \<Rightarrow> drop n s)
      = dropWhile is_space s" for s
    unfolding find_first_not_of_def sp Let_def
    by (auto simp: dropWhile_eq_drop dest: sym)
  have last: "(case find_last_not_of u whitespace of None \<Rightarrow> [] | Some n \<Rightarrow> take (Suc n) u)
      = rev (dropWhile is_space (rev u))" for u
  proof -
    let ?d = "dropWhile is_space (rev u)"
    have "rev u = takeWhile is_space (rev u) @ ?d" by simp
    then have "u = rev ?d @ rev (takeWhile is_space (rev u))"
      by (metis rev_append rev_rev_ident)
    then have "take (length ?d) u = rev ?d" by (metis append_eq_conv_conj length_rev)
    then show ?thesis unfolding find_last_not_of_def sp by (auto split: nat.split)
  qed
  show ?thesis unfolding trim_def Let_def first last strip_def ..
qed

section \<open>Typed access\<close>

text \<open>
  \<open>string_as_T\<close> extracts from a string stream into a variable that was not initialised:
  when the extraction fails the variable keeps the value it happened to have, here \<open>junk\<close>.
\<close>

definition string_as_int :: "int \<Rightarrow> string \<Rightarrow> int" where
  "string_as_int junk s =
     (case read_int INT_MIN INT_MAX s of None \<Rightarrow> junk | Some (t, _) \<Rightarrow> t)"

definition string_as_string :: "string \<Rightarrow> string" where
  "string_as_string s = s"

definition string_as_bool :: "string \<Rightarrow> bool" where
  "string_as_bool s =
     (let sup = map to_upper s
      in \<not> (sup = ''FALSE'' \<or> sup = ''F'' \<or> sup = ''NO'' \<or> sup = ''N'' \<or>
             sup = ''0'' \<or> sup = ''NONE''))"

text \<open>\<open>T_as_string\<close> for \<open>int\<close>, \<open>std::string\<close> and \<open>bool\<close>.\<close>

definition int_as_string :: "int \<Rightarrow> string" where
  "int_as_string = show_int"

definition bool_as_string :: "bool \<Rightarrow> string" where
  "bool_as_string b = (if b then ''1'' else ''0'')"

definition key_not_found :: "string \<Rightarrow> fault" where
  "key_not_found key = Throw (''key_not_found: '' @ key)"

definition file_not_found :: "string \<Rightarrow> fault" where
  "file_not_found name = Throw (''file_not_found: '' @ name)"

text \<open>The access templates take the \<open>string_as_T\<close> or \<open>T_as_string\<close> of their type.\<close>

definition read_key :: "(string \<Rightarrow> 'a) \<Rightarrow> ConfigFileParser \<Rightarrow> string \<Rightarrow> 'a res" where
  "read_key as_T cf key =
     (case map_find (myContents cf) key of
        None \<Rightarrow> Inl (key_not_found key)
      | Some v \<Rightarrow> Inr (as_T v))"

definition read_default :: "(string \<Rightarrow> 'a) \<Rightarrow> ConfigFileParser \<Rightarrow> string \<Rightarrow> 'a \<Rightarrow> 'a" where
  "read_default as_T cf key value =
     (case map_find (myContents cf) key of None \<Rightarrow> value | Some v \<Rightarrow> as_T v)"

definition readInto :: "(string \<Rightarrow> 'a) \<Rightarrow> ConfigFileParser \<Rightarrow> 'a \<Rightarrow> string \<Rightarrow> 'a \<times> bool" where
  "readInto as_T cf var key =
     (case map_find (myContents cf) key of None \<Rightarrow> (var, False) | Some v \<Rightarrow> (as_T v, True))"

definition readInto_default ::
  "(string \<Rightarrow> 'a) \<Rightarrow> ConfigFileParser \<Rightarrow> 'a \<Rightarrow> string \<Rightarrow> 'a \<Rightarrow> 'a \<times> bool" where
  "readInto_default as_T cf var key value =
     (case map_find (myContents cf) key of None \<Rightarrow> (value, False) | Some v \<Rightarrow> (as_T v, True))"

definition ConfigFileParser_add ::
  "('a \<Rightarrow> string) \<Rightarrow> ConfigFileParser \<Rightarrow> string \<Rightarrow> 'a \<Rightarrow> ConfigFileParser" where
  "ConfigFileParser_add of_T cf key value =
     cf\<lparr>myContents := map_put (trim key) (trim (of_T value)) (myContents cf)\<rparr>"

section \<open>Writing and reading a configuration\<close>

definition config_line :: "ConfigFileParser \<Rightarrow> string \<times> string \<Rightarrow> string" where
  "config_line cf p = fst p @ '' '' @ myDelimiter cf @ '' '' @ snd p @ [newline]"

definition print_config :: "ConfigFileParser \<Rightarrow> string" where
  "print_config cf = concat (map (config_line cf) (myContents cf))"

text \<open>
  The inner loop of the reader: lines are appended to the value until a blank line, a line
  with a delimiter, a line with the sentry or the end of the stream. It returns the stream,
  the line read ahead and the value.
\<close>

function read_value ::
  "ConfigFileParser \<Rightarrow> istream \<Rightarrow> string \<Rightarrow> string \<Rightarrow> istream \<times> string \<times> string" where
  "read_value cf i nextline line =
     (if is_fail i then (i, nextline, line)
      else let i' = fst (getline i nextline); ahead = snd (getline i nextline)
      in if trim ahead = [] then (i', ahead, line)
         else let kept = before ahead (myComment cf)
         in if contains kept (myDelimiter cf) then (i', kept, line)
            else if mySentry cf \<noteq> [] \<and> contains kept (mySentry cf) then (i', kept, line)
            else read_value cf i' kept ((if trim kept \<noteq> [] then line @ [newline] else line) @ kept))"
  by pat_completeness auto
termination
  by (relation "measure (\<lambda>(cf, i, nextline, line). is_left i)") (auto simp: getline_shrinks)

declare read_value.simps [simp del]

lemma read_value_step:
  assumes "\<not> is_fail i" and "getline i nl = (i', ahead)"
    and "kept = before ahead (myComment cf)"
  shows "read_value cf i nl line =
     (if strip ahead = [] then (i', ahead, line)
      else if contains kept (myDelimiter cf) \<or> (mySentry cf \<noteq> [] \<and> contains kept (mySentry cf))
        then (i', kept, line)
      else read_value cf i' kept ((if strip kept \<noteq> [] then line @ [newline] else line) @ kept))"
  by (subst read_value.simps) (simp add: assms Let_def)

lemma read_value_left: "is_left (fst (read_value cf i nl line)) \<le> is_left i"
proof (induction "is_left i" arbitrary: i nl line rule: less_induct)
  case less
  show ?case
  proof (cases "is_fail i")
    case True
    then show ?thesis by (subst read_value.simps) simp
  next
    case False
    obtain i' ahead where g: "getline i nl = (i', ahead)" by (cases "getline i nl")
    have "is_left i' < is_left i" using getline_shrinks[OF False, of nl] g by simp
    with less[of i'] have "is_left (fst (read_value cf i' nl' l')) \<le> is_left i" for nl' l'
      by (meson less_imp_le order_trans)
    with \<open>is_left i' < is_left i\<close> show ?thesis
      by (subst read_value_step[OF False g refl]) auto
  qed
qed

lemma read_value_shrinks:
  assumes "\<not> is_fail i"
  shows "is_left (fst (read_value cf i nl line)) < is_left i"
proof -
  have "is_left (fst (getline i nl)) < is_left i" using assms by (rule getline_shrinks)
  then show ?thesis using assms
    by (subst read_value.simps)
      (auto simp: Let_def intro: le_less_trans[OF read_value_left])
qed

lemma read_value_failed: "is_fail i \<Longrightarrow> read_value cf i nl line = (i, nl, line)"
  by (subst read_value.simps) simp

text \<open>
  The outer loop. A line read ahead is used before the stream is asked for another; the
  sentry ends the reading, and a line without a delimiter is skipped.
\<close>

function read_config :: "ConfigFileParser \<Rightarrow> istream \<Rightarrow> string \<Rightarrow> istream \<times> ConfigFileParser" where
  "read_config cf i nextline =
     (if is_fail i \<and> nextline = [] then (i, cf)
      else let i1 = (if nextline \<noteq> [] then i else fst (getline i []));
               line = before (if nextline \<noteq> [] then nextline else snd (getline i [])) (myComment cf)
      in if mySentry cf \<noteq> [] \<and> contains line (mySentry cf) then (i1, cf)
         else case str_find line (myDelimiter cf) of
           None \<Rightarrow> read_config cf i1 []
         | Some delimPos \<Rightarrow>
             let key = take delimPos line;
                 r = read_value cf i1 [] (drop (delimPos + length (myDelimiter cf)) line)
             in read_config
                  (cf\<lparr>myContents := map_put (trim key) (trim (snd (snd r))) (myContents cf)\<rparr>)
                  (fst r) (fst (snd r)))"
  by pat_completeness auto
termination
proof (relation "measures [\<lambda>(cf, i, nl). is_left i, \<lambda>(cf, i, nl). length nl]")
  fix cf :: ConfigFileParser and i i1 :: istream and nl line :: string and p
  assume c: "\<not> (is_fail i \<and> nl = [])"
    and i1: "i1 = (if nl \<noteq> [] then i else fst (getline i []))"
  have less: "nl = [] \<Longrightarrow> is_left i1 < is_left i" using c i1 getline_shrinks by auto
  show "((cf, i1, []), cf, i, nl)
      \<in> measures [\<lambda>(cf, i, nl). is_left i, \<lambda>(cf, i, nl). length nl]"
    using less i1 by (cases "nl = []") auto
  fix key and r :: "istream \<times> string \<times> string"
  assume r: "r = read_value cf i1 [] (drop (p + length (myDelimiter cf)) line)"
  show "((cf\<lparr>myContents := map_put (trim key) (trim (snd (snd r))) (myContents cf)\<rparr>,
          fst r, fst (snd r)), cf, i, nl)
      \<in> measures [\<lambda>(cf, i, nl). is_left i, \<lambda>(cf, i, nl). length nl]"
  proof (cases "nl = []")
    case True
    then show ?thesis using less r read_value_left[of cf i1 "[]"] by (auto intro: le_less_trans)
  next
    case False
    then show ?thesis using r i1 read_value_shrinks[of i cf "[]"] read_value_failed[of i cf "[]"]
      by (cases "is_fail i") auto
  qed
qed simp

declare read_config.simps [simp del]

text \<open>\<open>is >> cf\<close>, and the constructor that opens a file.\<close>

definition parse_config :: "string \<Rightarrow> ConfigFileParser \<Rightarrow> ConfigFileParser" where
  "parse_config text cf = snd (read_config cf (stream_of text) [])"

text \<open>The file system is not part of the program: it gives the text of a file that opens.\<close>

definition ConfigFileParser_open ::
  "(string \<Rightarrow> string option) \<Rightarrow> string \<Rightarrow> string \<Rightarrow> string \<Rightarrow> string \<Rightarrow> ConfigFileParser res" where
  "ConfigFileParser_open files filename delimiter comment sentry =
     (case files filename of
        None \<Rightarrow> Inl (file_not_found filename)
      | Some text \<Rightarrow> Inr (parse_config text
          \<lparr>myDelimiter = delimiter, myComment = comment, mySentry = sentry, myContents = []\<rparr>))"

section \<open>Reading back what was written\<close>

fun split_lines :: "string \<Rightarrow> string list" where
  "split_lines [] = [[]]"
| "split_lines (c # cs) =
     (if c = newline then [] # split_lines cs
      else (c # hd (split_lines cs)) # tl (split_lines cs))"

lemma split_lines_nonempty [simp]: "split_lines v \<noteq> []"
  by (cases v) auto

lemma split_lines_newline: "l \<in> set (split_lines v) \<Longrightarrow> newline \<notin> set l"
proof (induction v arbitrary: l)
  case (Cons c v)
  then show ?case
    by (cases "split_lines v") (auto split: if_splits)
qed simp

lemma split_lines_hd_newline [simp]: "newline \<notin> set (hd (split_lines v))"
  by (rule split_lines_newline[of _ v]) simp

lemma split_lines_subset: "l \<in> set (split_lines v) \<Longrightarrow> set l \<subseteq> set v"
proof (induction v arbitrary: l)
  case (Cons c v)
  show ?case
    using Cons.prems Cons.IH[of l] Cons.IH[of "hd (split_lines v)"]
    by (cases "split_lines v") (auto split: if_splits)
qed simp

lemma split_lines_join:
  "hd (split_lines v) @ concat (map (\<lambda>l. newline # l) (tl (split_lines v))) = v"
proof (induction v)
  case (Cons c v)
  then show ?case by (cases "split_lines v") auto
qed simp

lemma concat_newlines:
  "concat (map (\<lambda>l. newline # l) ls) @ [newline] = newline # concat (map (\<lambda>l. l @ [newline]) ls)"
  by (induction ls) auto

definition sentry_free :: "ConfigFileParser \<Rightarrow> string \<Rightarrow> bool" where
  "sentry_free cf l \<longleftrightarrow> mySentry cf = [] \<or> \<not> contains l (mySentry cf)"

definition first_line :: "char \<Rightarrow> string \<times> string \<Rightarrow> string" where
  "first_line d e = fst e @ CHR '' '' # d # CHR '' '' # hd (split_lines (snd e))"

definition printable_entry :: "ConfigFileParser \<Rightarrow> char \<Rightarrow> char \<Rightarrow> string \<times> string \<Rightarrow> bool" where
  "printable_entry cf d c e \<longleftrightarrow>
     stripped (fst e) \<and> stripped (snd e) \<and> newline \<notin> set (fst e) \<and>
     d \<notin> set (fst e) \<and> c \<notin> set (fst e) \<and> c \<notin> set (snd e) \<and>
     (\<forall>l \<in> set (tl (split_lines (snd e))). strip l \<noteq> [] \<and> d \<notin> set l \<and> sentry_free cf l) \<and>
     sentry_free cf (first_line d e)"

text \<open>
  Configurations with a delimiter and a comment of one character, neither of them white
  space, whose keys and values the syntax can carry: a value may span lines, as long as
  every further line is not blank and holds no delimiter.
\<close>

definition printable :: "ConfigFileParser \<Rightarrow> bool" where
  "printable cf \<longleftrightarrow>
     (case (myDelimiter cf, myComment cf) of
        ([d], [c]) \<Rightarrow> d \<noteq> c \<and> \<not> is_space d \<and> \<not> is_space c \<and> map_wf (myContents cf) \<and>
          (\<forall>e \<in> set (myContents cf). printable_entry cf d c e)
      | _ \<Rightarrow> False)"

lemma getline_stream_of: "getline (stream_of r) nl = getline (stream_of r) []"
  by (simp add: getline_def stream_of_def is_good_def)

lemma before_id: "c \<notin> set s \<Longrightarrow> before s [c] = s"
  by (simp add: before_absent)

lemma read_value_lines:
  assumes syn: "myDelimiter cf = [d]" "myComment cf = [c]"
    and ls: "\<forall>l \<in> set ls. newline \<notin> set l \<and> strip l \<noteq> [] \<and> d \<notin> set l \<and> c \<notin> set l \<and> sentry_free cf l"
    and stop: "strip (snd (getline (stream_of r) [])) = [] \<or>
      c \<notin> set (snd (getline (stream_of r) [])) \<and> d \<in> set (snd (getline (stream_of r) []))"
  shows "read_value cf (stream_of (concat (map (\<lambda>l. l @ [newline]) ls) @ r)) nl line =
     (fst (getline (stream_of r) []), snd (getline (stream_of r) []),
      line @ concat (map (\<lambda>l. newline # l) ls))"
  using ls
proof (induction ls arbitrary: nl line)
  case Nil
  have nf: "\<not> is_fail (stream_of r)" by (simp add: stream_of_def)
  obtain i' a where g: "getline (stream_of r) nl = (i', a)" by (cases "getline (stream_of r) nl")
  then have g0: "getline (stream_of r) [] = (i', a)" using getline_stream_of[of r nl] by simp
  have "read_value cf (stream_of r) nl line = (i', a, line)"
    using stop unfolding g0 read_value_step[OF nf g refl] syn
    by (auto simp: before_id)
  then show ?case using g0 by simp
next
  case (Cons l ls)
  let ?rest = "concat (map (\<lambda>l. l @ [newline]) ls) @ r"
  have nf: "\<not> is_fail (stream_of (l @ newline # ?rest))" by (simp add: stream_of_def)
  have g: "getline (stream_of (l @ newline # ?rest)) nl = (stream_of ?rest, l)"
    using Cons.prems by (intro getline_line) simp
  have "read_value cf (stream_of (l @ newline # ?rest)) nl line
      = read_value cf (stream_of ?rest) l (line @ newline # l)"
    using Cons.prems unfolding read_value_step[OF nf g refl]
    by (auto simp: syn before_id sentry_free_def)
  also have "\<dots> = (fst (getline (stream_of r) []), snd (getline (stream_of r) []),
      (line @ newline # l) @ concat (map (\<lambda>l. newline # l) ls))"
    using Cons.prems by (intro Cons.IH) simp
  finally show ?case by simp
qed

lemma printable_lines:
  assumes "printable_entry cf d c e"
  shows "\<forall>l \<in> set (tl (split_lines (snd e))).
    newline \<notin> set l \<and> strip l \<noteq> [] \<and> d \<notin> set l \<and> c \<notin> set l \<and> sentry_free cf l"
proof
  fix l assume l: "l \<in> set (tl (split_lines (snd e)))"
  then have "l \<in> set (split_lines (snd e))" by (rule list.set_sel(2)[OF split_lines_nonempty])
  then have "newline \<notin> set l" "set l \<subseteq> set (snd e)"
    by (rule split_lines_newline, rule split_lines_subset)
  with l assms show "newline \<notin> set l \<and> strip l \<noteq> [] \<and> d \<notin> set l \<and> c \<notin> set l \<and> sentry_free cf l"
    by (auto simp: printable_entry_def)
qed

lemma first_line_no_comment:
  assumes "printable_entry cf d c e" "d \<noteq> c" "\<not> is_space c"
  shows "c \<notin> set (first_line d e)"
  using assms split_lines_subset[of "hd (split_lines (snd e))" "snd e"]
  by (auto simp: first_line_def printable_entry_def)

lemma first_line_delimiter:
  assumes "printable_entry cf d c e" "\<not> is_space d"
  shows "str_find (first_line d e) [d] = Some (Suc (length (fst e)))"
proof -
  have "takeWhile (\<lambda>x. x \<noteq> d) (first_line d e) = fst e @ [CHR '' '']"
    using assms unfolding first_line_def
    by (subst takeWhile_append2) (auto simp: printable_entry_def)
  then show ?thesis by (simp add: str_find_single) (simp add: first_line_def)
qed

lemma config_line_eq:
  assumes "myDelimiter cf = [d]"
  shows "config_line cf e = first_line d e @ newline #
           concat (map (\<lambda>l. l @ [newline]) (tl (split_lines (snd e))))"
proof -
  have "snd e @ [newline] = hd (split_lines (snd e)) @ newline #
      concat (map (\<lambda>l. l @ [newline]) (tl (split_lines (snd e))))"
    by (subst split_lines_join[symmetric]) (simp only: append_assoc concat_newlines)
  then show ?thesis by (simp add: config_line_def first_line_def assms)
qed

lemma getline_config:
  assumes "myDelimiter cf = [d]" "\<not> is_space d" "printable_entry cf d c e"
  shows "getline (stream_of (config_line cf e @ text)) nl =
     (stream_of (concat (map (\<lambda>l. l @ [newline]) (tl (split_lines (snd e)))) @ text), first_line d e)"
proof -
  have "d \<noteq> newline" using assms(2) by auto
  moreover have "CHR '' '' \<noteq> newline" by (simp add: newline_def)
  ultimately have "newline \<notin> set (first_line d e)"
    using assms(3) by (auto simp: first_line_def printable_entry_def)
  then show ?thesis by (simp add: config_line_eq[OF assms(1)] getline_line)
qed

lemma read_config_text:
  assumes syn: "myDelimiter cf = [d]" "myComment cf = [c]" "d \<noteq> c" "\<not> is_space d" "\<not> is_space c"
    and ok: "\<forall>e \<in> set es. printable_entry cf d c e"
  defines "g \<equiv> getline (stream_of (concat (map (config_line cf) es))) []"
  shows "snd (read_config cf (fst g) (snd g))
     = cf\<lparr>myContents := std.put_all es (myContents cf)\<rparr>"
  using assms(1-6) unfolding g_def
proof (induction es arbitrary: cf)
  case Nil
  then show ?case by (simp add: read_config.simps)
next
  case (Cons e es)
  let ?cf = "cf\<lparr>myContents := map_put (fst e) (snd e) (myContents cf)\<rparr>"
  let ?ls = "tl (split_lines (snd e))"
  let ?text = "concat (map (config_line cf) es)"
  let ?i = "stream_of (concat (map (\<lambda>l. l @ [newline]) ?ls) @ ?text)"
  let ?g = "getline (stream_of ?text) []"
  have e: "printable_entry cf d c e" and es: "\<forall>e \<in> set es. printable_entry cf d c e"
    using Cons.prems(6) by auto
  have g: "getline (stream_of (concat (map (config_line cf) (e # es)))) [] = (?i, first_line d e)"
    using getline_config[OF Cons.prems(1,4) e, of ?text "[]"] by simp
  have stop: "strip (snd ?g) = [] \<or> c \<notin> set (snd ?g) \<and> d \<in> set (snd ?g)"
  proof (cases es)
    case (Cons e' es')
    then have e': "printable_entry cf d c e'" using es by simp
    have "snd ?g = first_line d e'"
      using getline_config[OF Cons.prems(1,4) e'] Cons by simp
    moreover have "d \<in> set (first_line d e')" by (simp add: first_line_def)
    ultimately show ?thesis using first_line_no_comment[OF e' Cons.prems(3,5)] by simp
  qed simp
  have val: "read_value cf ?i [] (CHR '' '' # hd (split_lines (snd e)))
      = (fst ?g, snd ?g, CHR '' '' # snd e)"
    using read_value_lines[OF Cons.prems(1,2) printable_lines[OF e] stop] split_lines_join[of "snd e"]
    by simp
  have line: "drop (Suc (length (fst e)) + 1) (first_line d e) = CHR '' '' # hd (split_lines (snd e))"
    "take (Suc (length (fst e))) (first_line d e) = fst e @ [CHR '' '']"
    by (simp_all add: first_line_def)
  have trims: "trim (fst e @ [CHR '' '']) = fst e" "trim (CHR '' '' # snd e) = snd e"
    using e by (simp_all add: printable_entry_def strip_pad_right strip_pad_left)
  have nonempty: "first_line d e \<noteq> []" by (simp add: first_line_def)
  have free: "\<not> (mySentry cf \<noteq> [] \<and> contains (first_line d e) (mySentry cf))"
    using e by (simp add: printable_entry_def sentry_free_def)
  have "read_config cf ?i (first_line d e) = read_config ?cf (fst ?g) (snd ?g)"
    using nonempty first_line_no_comment[OF e Cons.prems(3,5)] free val line trims
    by (subst read_config.simps)
      (auto simp: Let_def before_id first_line_delimiter[OF e Cons.prems(4)] Cons.prems(1,2)
        simp del: trim_eq_strip)
  also have "snd (read_config ?cf (fst ?g) (snd ?g))
      = ?cf\<lparr>myContents := std.put_all es (myContents ?cf)\<rparr>"
  proof -
    have lines: "config_line ?cf = config_line cf" by (rule ext) (simp add: config_line_def)
    have "\<forall>e \<in> set es. printable_entry ?cf d c e"
      using es by (simp add: printable_entry_def sentry_free_def)
    then show ?thesis using Cons.IH[of ?cf] Cons.prems by (simp add: lines)
  qed
  finally show ?case using g by (cases e) simp
qed

lemma read_config_start:
  assumes "snd (getline (stream_of text) []) \<noteq> []"
  shows "read_config cf (stream_of text) [] =
     read_config cf (fst (getline (stream_of text) [])) (snd (getline (stream_of text) []))"
proof -
  let ?g = "getline (stream_of text) []"
  have "\<not> is_fail (stream_of text)" by (simp add: stream_of_def)
  then show ?thesis
    using assms
    by (subst read_config.simps[of cf "stream_of text" "[]"],
        subst read_config.simps[of cf "fst ?g" "snd ?g"]) simp
qed

lemma read_config_empty:
  "myDelimiter cf = [d] \<Longrightarrow> snd (read_config cf (stream_of []) []) = cf"
  by (subst read_config.simps)
    (auto simp: stream_of_def getline_def is_good_def before_def contains_def Let_def
      read_config.simps split: option.splits)

text \<open>C11. A configuration that the syntax can carry is read back as it was: parsing the text
  \<open>operator<<\<close> writes, into a configuration of the same syntax with no entries, gives
  every key with its value, values of several lines included.\<close>

theorem parse_print_config:
  assumes "printable cf"
  shows "parse_config (print_config cf) (cf\<lparr>myContents := []\<rparr>) = cf"
proof -
  let ?cf = "cf\<lparr>myContents := []\<rparr>"
  let ?es = "myContents cf"
  obtain d c where syn: "myDelimiter cf = [d]" "myComment cf = [c]" "d \<noteq> c"
      "\<not> is_space d" "\<not> is_space c" and wf: "map_wf ?es"
    and es: "\<forall>e \<in> set ?es. printable_entry cf d c e"
    using assms by (auto simp: printable_def split: list.splits)
  have same: "config_line ?cf = config_line cf" by (rule ext) (simp add: config_line_def)
  have es': "\<forall>e \<in> set ?es. printable_entry ?cf d c e"
    using es by (simp add: printable_entry_def sentry_free_def)
  show ?thesis
  proof (cases ?es)
    case Nil
    then show ?thesis
      using read_config_empty[of ?cf d] syn by (simp add: parse_config_def print_config_def)
  next
    case (Cons e rest)
    then have "snd (getline (stream_of (print_config cf)) []) = first_line d e"
      using getline_config[OF syn(1,4), of c e] es by (simp add: print_config_def)
    then have "snd (getline (stream_of (print_config cf)) []) \<noteq> []"
      by (simp add: first_line_def)
    then show ?thesis
      using read_config_text[of ?cf d c ?es] syn es' put_all_self[OF wf]
      by (simp add: parse_config_def print_config_def same read_config_start)
  qed
qed

text \<open>The configuration of a server with a two-line value, under the syntax of the files.\<close>

theorem parse_print_config_witness:
  "let cf = \<lparr>myDelimiter = ''='', myComment = ''#'', mySentry = ''EndConfigFile'',
              myContents = [(''motd'', ''hello'' @ newline # ''world''), (''port'', ''8001'')]\<rparr>
   in parse_config (print_config cf) (cf\<lparr>myContents := []\<rparr>) = cf"
  unfolding Let_def
  by (rule parse_print_config) code_simp

section \<open>Typed values\<close>

lemma stripped_show_int: "stripped (show_int n)"
  using show_int_ends[of n] by (metis list.sel(1) stripped_def)

lemma strip_show_int [simp]: "strip (show_int n) = show_int n"
  by (simp add: stripped_show_int)

lemma string_as_int_show:
  "INT_MIN \<le> n \<Longrightarrow> n \<le> INT_MAX \<Longrightarrow> string_as_int junk (show_int n) = n"
  using read_show_int[of INT_MIN n INT_MAX "[]"] by (simp add: string_as_int_def)

text \<open>A number stored with \<open>add\<close> is read back under the trimmed key, whatever the variable it
  is read into held before, and every other key reads as it did.\<close>

theorem read_after_add_int:
  assumes "INT_MIN \<le> n" "n \<le> INT_MAX"
  shows "read_key (string_as_int junk) (ConfigFileParser_add int_as_string cf key n) key' =
     (if key' = trim key then Inr n else read_key (string_as_int junk) cf key')"
  using assms
  by (simp add: read_key_def ConfigFileParser_add_def int_as_string_def string_as_int_show)

theorem read_after_add_int_witness:
  "read_key (string_as_int 77) (ConfigFileParser_add int_as_string ConfigFileParser_default
      '' port '' (-8001)) ''port'' = Inr (-8001)"
  by (subst read_after_add_int) (auto simp: INT_MIN_def INT_MAX_def strip_def is_space_def whitespace_def)

section \<open>A value that continues on an unterminated last line\<close>

text \<open>
  At the end of the input the sentry of \<open>getline\<close> fails and leaves the line read ahead as it
  was, so the inner loop meets the last line a second time.
\<close>

lemma getline_unterminated:
  assumes "newline \<notin> set l" "l \<noteq> []"
  shows "getline (stream_of l) nl = (\<lparr>is_rest = [], is_eof = True, is_fail = False\<rparr>, l)"
proof -
  have "takeWhile (\<lambda>c. c \<noteq> newline) l = l" "dropWhile (\<lambda>c. c \<noteq> newline) l = []"
    using assms(1) by (auto simp: takeWhile_eq_all_conv)
  then show ?thesis using assms(2) by (simp add: getline_def stream_of_def is_good_def)
qed

lemma read_value_unterminated:
  assumes syn: "myDelimiter cf = [d]" "myComment cf = [c]"
    and l: "newline \<notin> set l" "strip l \<noteq> []" "d \<notin> set l" "c \<notin> set l" "sentry_free cf l"
  shows "read_value cf (stream_of l) [] line =
     (\<lparr>is_rest = [], is_eof = True, is_fail = True\<rparr>, l, line @ newline # l @ newline # l)"
proof -
  let ?i = "\<lparr>is_rest = [], is_eof = True, is_fail = False\<rparr>"
  let ?j = "\<lparr>is_rest = [], is_eof = True, is_fail = True\<rparr>"
  have ne: "l \<noteq> []" using l(2) by auto
  have 1: "\<not> is_fail (stream_of l)" by (simp add: stream_of_def)
  have 2: "\<not> is_fail ?i" by simp
  have g: "getline ?i l = (?j, l)" by (simp add: getline_def is_good_def)
  have "read_value cf (stream_of l) [] line = read_value cf ?i l (line @ newline # l)"
    using l unfolding read_value_step[OF 1 getline_unterminated[OF l(1) ne] refl]
    by (auto simp: syn before_id sentry_free_def)
  also have "\<dots> = read_value cf ?j l (line @ newline # l @ newline # l)"
    using l unfolding read_value_step[OF 2 g refl]
    by (auto simp: syn before_id sentry_free_def)
  also have "\<dots> = (?j, l, line @ newline # l @ newline # l)"
    by (rule read_value_failed) simp
  finally show ?thesis .
qed

lemma read_config_left_over:
  assumes "myDelimiter cf = [d]" "myComment cf = [c]" "c \<notin> set l" "d \<notin> set l" "is_fail i"
  shows "snd (read_config cf i l) = cf"
proof -
  have l: "before l [c] = l" "\<not> contains l [d]" using assms by (auto simp: before_id)
  have stop: "snd (read_config cf i []) = cf" using assms by (subst read_config.simps) simp
  show ?thesis
    using assms l stop
    by (subst read_config.simps) (auto simp: Let_def contains_def split: option.splits)
qed

text \<open>When the last line of a file continues a value and has no newline at its end, the
  reader stores that line twice: the value of \<open>k = v\<close> followed by the unterminated line \<open>l\<close> is
  \<open>v\<close>, \<open>l\<close> and \<open>l\<close> again.\<close>

theorem unterminated_continuation_doubled:
  assumes syn: "myDelimiter cf = [d]" "myComment cf = [c]" "d \<noteq> c" "\<not> is_space d" "\<not> is_space c"
    and e: "printable_entry cf d c (k, v)" "newline \<notin> set v" "v \<noteq> []"
    and l: "newline \<notin> set l" "stripped l" "l \<noteq> []" "d \<notin> set l" "c \<notin> set l" "sentry_free cf l"
  shows "map_find (myContents (parse_config (config_line cf (k, v) @ l) cf)) k
     = Some (v @ newline # l @ newline # l)"
proof -
  let ?fl = "first_line d (k, v)"
  let ?val = "v @ newline # l @ newline # l"
  have lines: "split_lines v = [v]"
    using e(2) by (induction v) auto
  have g: "getline (stream_of (config_line cf (k, v) @ l)) [] = (stream_of l, ?fl)"
    using getline_config[OF syn(1,4) e(1), of l "[]"] lines by simp
  have fl: "?fl \<noteq> []" by (simp add: first_line_def)
  have sl: "strip l \<noteq> []" using l(2,3) by simp
  have val: "read_value cf (stream_of l) [] (CHR '' '' # v)
      = (\<lparr>is_rest = [], is_eof = True, is_fail = True\<rparr>, l, CHR '' '' # ?val)"
    using read_value_unterminated[OF syn(1,2) l(1) sl l(4,5,6)] by simp
  have line: "drop (Suc (length k) + 1) ?fl = CHR '' '' # v"
    "take (Suc (length k)) ?fl = k @ [CHR '' '']"
    using lines by (simp_all add: first_line_def)
  have "stripped k" "stripped v" using e(1) by (simp_all add: printable_entry_def)
  moreover have "stripped ?val" using \<open>stripped v\<close> e(3) l(2,3) by (simp add: stripped_def)
  ultimately have trims: "trim (k @ [CHR '' '']) = k" "trim (CHR '' '' # ?val) = ?val"
    by (simp_all add: strip_pad_right strip_pad_left)
  have free: "\<not> (mySentry cf \<noteq> [] \<and> contains ?fl (mySentry cf))"
    using e(1) by (simp add: printable_entry_def sentry_free_def)
  let ?cf = "cf\<lparr>myContents := map_put k ?val (myContents cf)\<rparr>"
  have "read_config cf (stream_of l) ?fl
      = read_config ?cf \<lparr>is_rest = [], is_eof = True, is_fail = True\<rparr> l"
    using fl first_line_no_comment[OF e(1) syn(3,5)] free val line trims
    by (subst read_config.simps)
      (auto simp: Let_def before_id first_line_delimiter[OF e(1) syn(4)] syn(1,2)
        simp del: trim_eq_strip)
  then have "snd (read_config cf (stream_of l) ?fl) = ?cf"
    using read_config_left_over[of ?cf d c l] syn l by simp
  then show ?thesis
    using g fl by (simp add: parse_config_def read_config_start)
qed

theorem unterminated_continuation_doubled_witness:
  "map_find (myContents (parse_config
      (config_line ConfigFileParser_default (''motd'', ''hello'') @ ''world'')
      ConfigFileParser_default)) ''motd''
    = Some (''hello'' @ newline # ''world'' @ newline # ''world'')"
  by (rule unterminated_continuation_doubled[where d = "CHR ''=''" and c = "CHR ''#''"]) code_simp+

end
