(* ===== verification/CFloat.thy ===== *)
theory CFloat
imports Prelude
begin

text \<open>
  The machine's \<open>float\<close> and \<open>double\<close> as their IEEE 754 bit patterns: equality, the conversions
  between the two (to the nearest, ties to even) and the truncation to a \<open>long\<close>.
  Positions are floats in the program and doubles in the data base.
\<close>

type_synonym float32 = "32 word"
type_synonym float64 = "64 word"

definition f_sign :: "float32 \<Rightarrow> nat" where "f_sign w = unat w div 2 ^ 31"
definition f_exp :: "float32 \<Rightarrow> nat" where "f_exp w = unat w div 2 ^ 23 mod 2 ^ 8"
definition f_man :: "float32 \<Rightarrow> nat" where "f_man w = unat w mod 2 ^ 23"

definition f_isnan :: "float32 \<Rightarrow> bool" where
  "f_isnan w \<longleftrightarrow> f_exp w = 255 \<and> f_man w \<noteq> 0"

text \<open>\<open>==\<close> on floats: a NaN differs from everything, the two zeros are equal.\<close>

definition float_eq :: "float32 \<Rightarrow> float32 \<Rightarrow> bool" where
  "float_eq x y \<longleftrightarrow> \<not> f_isnan x \<and> \<not> f_isnan y \<and>
     (x = y \<or> f_exp x = 0 \<and> f_man x = 0 \<and> f_exp y = 0 \<and> f_man y = 0)"

lemma float_eq_refl_iff: "float_eq x x \<longleftrightarrow> \<not> f_isnan x"
  by (auto simp: float_eq_def)

section \<open>Conversions\<close>

fun top_bit :: "nat \<Rightarrow> nat" where
  "top_bit n = (if n < 2 then 0 else Suc (top_bit (n div 2)))"

declare top_bit.simps [simp del]

lemma top_bit_bounds: "0 < n \<Longrightarrow> 2 ^ top_bit n \<le> n \<and> n < 2 ^ Suc (top_bit n)"
proof (induction n rule: top_bit.induct)
  case (1 n)
  show ?case
  proof (cases "n < 2")
    case True
    then show ?thesis using 1 by (simp add: top_bit.simps)
  next
    case False
    then have "2 ^ top_bit (n div 2) \<le> n div 2" "n div 2 < 2 ^ Suc (top_bit (n div 2))"
      using 1 by auto
    then show ?thesis using False by (subst (1 2) top_bit.simps) auto
  qed
qed

definition pack64 :: "nat \<Rightarrow> nat \<Rightarrow> nat \<Rightarrow> float64" where
  "pack64 s e m = word_of_nat (s * 2 ^ 63 + e * 2 ^ 52 + m)"

definition float_to_double :: "float32 \<Rightarrow> float64" where
  "float_to_double w =
     (let s = f_sign w; e = f_exp w; m = f_man w
      in if e = 255 then
           pack64 s 2047 (if m = 0 then 0 else m mod 2 ^ 22 * 2 ^ 29 + 2 ^ 51)
         else if e = 0 then
           (if m = 0 then pack64 s 0 0
            else pack64 s (top_bit m + 874) ((m - 2 ^ top_bit m) * 2 ^ (52 - top_bit m)))
         else pack64 s (e + 896) (m * 2 ^ 29))"

definition round_even :: "nat \<Rightarrow> nat \<Rightarrow> nat" where
  "round_even n k =
     (let q = n div 2 ^ k; r = n mod 2 ^ k
      in if 2 ^ k < 2 * r \<or> (2 * r = 2 ^ k \<and> odd q) then q + 1 else q)"

definition double_to_float :: "float64 \<Rightarrow> float32" where
  "double_to_float w =
     (let s = unat w div 2 ^ 63; e = unat w div 2 ^ 52 mod 2 ^ 11; m = unat w mod 2 ^ 52
      in word_of_nat (s * 2 ^ 31 +
         (if e = 2047 then
            (if m = 0 then 255 * 2 ^ 23 else 255 * 2 ^ 23 + 2 ^ 22 + m div 2 ^ 29 mod 2 ^ 22)
          else if e = 0 then 0
          else let k = max 29 (926 - e) in
            min (255 * 2 ^ 23) ((k + e - 926) * 2 ^ 23 + round_even (m + 2 ^ 52) k))))"

text \<open>The \<open>long\<close> of a float: truncated toward zero, and without meaning out of its range.\<close>

definition float_to_long :: "float32 \<Rightarrow> int res" where
  "float_to_long w =
     (let n = (if f_exp w < 127 then 0
               else (f_man w + 2 ^ 23) * 2 ^ (f_exp w - 127) div 2 ^ 23);
          v = (if f_sign w = 0 then int n else - int n)
      in if f_exp w < 159 \<and> - (2 ^ 31) \<le> v \<and> v < 2 ^ 31 then Inr v
         else Inl (Undefined ''float out of the range of long''))"

text \<open>The \<open>int\<close> of a double.\<close>

definition double_to_int :: "float64 \<Rightarrow> int res" where
  "double_to_int w =
     (let s = unat w div 2 ^ 63; e = unat w div 2 ^ 52 mod 2 ^ 11; m = unat w mod 2 ^ 52;
          n = (if e < 1023 then 0 else (m + 2 ^ 52) * 2 ^ (e - 1023) div 2 ^ 52);
          v = (if s = 0 then int n else - int n)
      in if e < 1055 \<and> - (2 ^ 31) \<le> v \<and> v < 2 ^ 31 then Inr v
         else Inl (Undefined ''double out of the range of int''))"

lemma conversions_not_thrown: "float_to_long w \<noteq> Inl (Throw x)" "double_to_int d \<noteq> Inl (Throw x)"
  by (simp_all add: float_to_long_def double_to_int_def Let_def)

section \<open>Doubles in their order\<close>

text \<open>The place of a double among the others, by its sign and what follows it; the two zeros have the same.\<close>

definition d_isnan :: "float64 \<Rightarrow> bool" where
  "d_isnan w \<longleftrightarrow> unat w div 2 ^ 52 mod 2 ^ 11 = 2047 \<and> unat w mod 2 ^ 52 \<noteq> 0"

definition d_place :: "float64 \<Rightarrow> int" where
  "d_place w = (let m = int (unat w mod 2 ^ 63) in if unat w < 2 ^ 63 then m else - m)"

definition double_less :: "float64 \<Rightarrow> float64 \<Rightarrow> bool" where
  "double_less x y \<longleftrightarrow> \<not> d_isnan x \<and> \<not> d_isnan y \<and> d_place x < d_place y"

definition double_eq :: "float64 \<Rightarrow> float64 \<Rightarrow> bool" where
  "double_eq x y \<longleftrightarrow> \<not> d_isnan x \<and> \<not> d_isnan y \<and> d_place x = d_place y"

section \<open>Narrowing undoes widening\<close>

lemma unat_pack64:
  assumes "s < 2" "e < 2 ^ 11" "m < 2 ^ 52"
  shows "unat (pack64 s e m) = s * 2 ^ 63 + e * 2 ^ 52 + m"
proof -
  have "s \<le> 1" "e \<le> 2 ^ 11 - 1" using assms by auto
  then have "s * 2 ^ 63 + e * 2 ^ 52 + m < 1 * 2 ^ 63 + (2 ^ 11 - 1) * 2 ^ 52 + 2 ^ 52"
    using assms(3) by (intro add_le_less_mono add_mono mult_right_mono) auto
  then have "s * 2 ^ 63 + e * 2 ^ 52 + m < 2 ^ 64" by simp
  then show ?thesis unfolding pack64_def by (subst unat_of_nat) (simp del: of_nat_add of_nat_mult)
qed

lemma fields_pack64:
  assumes "s < 2" "e < 2 ^ 11" "m < 2 ^ 52"
  shows "unat (pack64 s e m) div 2 ^ 63 = s"
    "unat (pack64 s e m) div 2 ^ 52 mod 2 ^ 11 = e"
    "unat (pack64 s e m) mod 2 ^ 52 = m"
proof -
  have 1: "s * 2 ^ 63 + e * 2 ^ 52 + m = (s * 2 ^ 11 + e) * 2 ^ 52 + m" by simp
  have d: "unat (pack64 s e m) div 2 ^ 52 = s * 2 ^ 11 + e"
    unfolding unat_pack64[OF assms] 1 using assms(3) by (subst div_mult_self3) simp_all
  show "unat (pack64 s e m) div 2 ^ 52 mod 2 ^ 11 = e"
    unfolding d using assms(2) by (subst mod_mult_self3) simp
  show "unat (pack64 s e m) mod 2 ^ 52 = m"
    unfolding unat_pack64[OF assms] 1 using assms(3) by (subst mod_mult_self3) simp
  have "unat (pack64 s e m) div 2 ^ 63 = unat (pack64 s e m) div 2 ^ 52 div 2 ^ 11"
    by (simp add: div_mult2_eq[symmetric])
  then show "unat (pack64 s e m) div 2 ^ 63 = s"
    unfolding d using assms(2) by (simp only:) (subst div_mult_self3, simp_all)
qed

lemma f_fields:
  "f_sign w < 2" "f_exp w < 256" "f_man w < 2 ^ 23"
  "unat w = f_sign w * 2 ^ 31 + f_exp w * 2 ^ 23 + f_man w"
proof -
  have "unat w < 2 ^ 32" using unsigned_less[of w, where 'a = nat] by simp
  then show "f_sign w < 2" unfolding f_sign_def by (subst div_less_iff_less_mult) auto
  show "f_exp w < 256" "f_man w < 2 ^ 23" by (simp_all add: f_exp_def f_man_def)
  have "unat w div 2 ^ 23 div 2 ^ 8 = unat w div 2 ^ 31" by (simp add: div_mult2_eq[symmetric])
  then have "unat w div 2 ^ 23 = f_sign w * 2 ^ 8 + f_exp w"
    unfolding f_sign_def f_exp_def using div_mult_mod_eq[of "unat w div 2 ^ 23" "2 ^ 8"] by simp
  then have "unat w = (f_sign w * 2 ^ 8 + f_exp w) * 2 ^ 23 + f_man w"
    unfolding f_man_def using div_mult_mod_eq[of "unat w" "2 ^ 23"] by simp
  then show "unat w = f_sign w * 2 ^ 31 + f_exp w * 2 ^ 23 + f_man w" by simp
qed

lemma round_even_exact: "round_even (n * 2 ^ k) k = n"
  by (simp add: round_even_def)

lemma double_to_float_pack64:
  assumes "s < 2" "0 < e" "e < 2047" "m < 2 ^ 52"
    and "m + 2 ^ 52 = n * 2 ^ max 29 (926 - e)"
    and "(max 29 (926 - e) + e - 926) * 2 ^ 23 + n = b" "b \<le> 255 * 2 ^ 23"
  shows "double_to_float (pack64 s e m) = word_of_nat (s * 2 ^ 31 + b)"
proof -
  have "e < 2 ^ 11" using assms(3) by simp
  note f = fields_pack64[OF assms(1) this assms(4)]
  show ?thesis
    unfolding double_to_float_def f Let_def assms(5) round_even_exact assms(6)
    using assms(2,3,7) by simp
qed

lemma narrow_widen:
  assumes "\<not> f_isnan w"
  shows "double_to_float (float_to_double w) = w"
proof -
  let ?s = "f_sign w" and ?e = "f_exp w" and ?m = "f_man w"
  note f = f_fields[of w]
  have w: "word_of_nat (?s * 2 ^ 31 + (?e * 2 ^ 23 + ?m)) = w"
    using f(4) by (metis add.assoc of_nat_unat ucast_id)
  consider (inf) "?e = 255" "?m = 0" | (zero) "?e = 0" "?m = 0"
    | (sub) "?e = 0" "?m \<noteq> 0" | (norm) "0 < ?e" "?e < 255"
    using assms f(2) unfolding f_isnan_def by (cases "?m = 0"; cases "?e = 0"; cases "?e = 255"; fastforce)
  then show ?thesis
  proof cases
    case inf
    have "double_to_float (pack64 ?s 2047 0) = word_of_nat (?s * 2 ^ 31 + 255 * 2 ^ 23)"
      using fields_pack64[OF f(1), of 2047 0] by (simp add: double_to_float_def)
    then show ?thesis using inf w by (simp add: float_to_double_def)
  next
    case zero
    have "double_to_float (pack64 ?s 0 0) = word_of_nat (?s * 2 ^ 31)"
      using fields_pack64[OF f(1), of 0 0] by (simp add: double_to_float_def)
    then show ?thesis using zero w by (simp add: float_to_double_def)
  next
    case sub
    let ?k = "top_bit ?m"
    have b: "2 ^ ?k \<le> ?m" "?m < 2 ^ Suc ?k" using top_bit_bounds[of ?m] sub by auto
    have "(2::nat) ^ ?k < 2 ^ 23" using b(1) f(3) by (rule le_less_trans)
    then have k: "?k \<le> 22" by (subst (asm) power_strict_increasing_iff) auto
    have p: "(2::nat) ^ ?k * 2 ^ (52 - ?k) = 2 ^ 52"
      using k by (simp add: power_add[symmetric])
    have M: "(?m - 2 ^ ?k) * 2 ^ (52 - ?k) + 2 ^ 52 = ?m * 2 ^ (52 - ?k)"
      using b(1) p by (simp add: diff_mult_distrib) (metis mult_le_mono1 p le_add_diff_inverse2)
    have "?m * 2 ^ (52 - ?k) < 2 ^ Suc ?k * 2 ^ (52 - ?k)" using b(2) by simp
    also have "\<dots> = 2 ^ 52 + 2 ^ 52" using p by simp
    finally have lt: "(?m - 2 ^ ?k) * 2 ^ (52 - ?k) < 2 ^ 52" using M by simp
    have sh: "max 29 (926 - (?k + 874)) = 52 - ?k" using k by simp
    have "double_to_float (pack64 ?s (?k + 874) ((?m - 2 ^ ?k) * 2 ^ (52 - ?k)))
        = word_of_nat (?s * 2 ^ 31 + ?m)"
      using k f(3) by (intro double_to_float_pack64[where n = ?m] f(1) lt)
        (unfold sh, simp_all only: M, simp_all)
    then show ?thesis using sub w by (simp add: float_to_double_def Let_def)
  next
    case norm
    have sh: "max 29 (926 - (?e + 896)) = 29" using norm by simp
    have "double_to_float (pack64 ?s (?e + 896) (?m * 2 ^ 29))
        = word_of_nat (?s * 2 ^ 31 + (?e * 2 ^ 23 + ?m))"
    proof (rule double_to_float_pack64[where n = "?m + 2 ^ 23"])
      show "?m * 2 ^ 29 < 2 ^ 52" using f(3) by simp
      have "?e * 2 ^ 23 + ?m \<le> 254 * 2 ^ 23 + 2 ^ 23"
        using norm f(3) by (intro add_mono mult_right_mono) auto
      then show "?e * 2 ^ 23 + ?m \<le> 255 * 2 ^ 23" by simp
    qed (use norm f in \<open>simp_all only: sh, auto simp: algebra_simps\<close>)
    then show ?thesis using norm w by (simp add: float_to_double_def)
  qed
qed

end
