(* ===== verification/SEngineEvent.thy ===== *)
theory SEngineEvent
imports StdMap SConvert CFloat
begin

text \<open>
  \<open>Engine/SEngineEvent.h\<close>: the message the engines, the machines and the clients exchange. An
  event has a type and three maps, of strings, integers and floats. The type of a received
  event is whatever number the archive held, so the enumeration has one more constructor for
  the values that name none of its constants.
\<close>

section \<open>The data\<close>

datatype EEType =
    MSG_NICK | CHARACTERS_LIST | GAME_PROP | WELCOME | REFUSED | NEW_PLAYER | RUN_MULTI |
    SEND_GAME_PROP | DEL_PLAYER | LOAD | ADD_NODE | REM_NODE | MOVE_NODE | REMOVE_MACHINE |
    REMOVE_CONSOLE | PLAYER_POS | NPC_POS | CREATE_CHARACTER | DELETE_CHARACTER | ITEM_PROP |
    CHAT_EVENT | PING | TARGET_CHANGED | PLAYER_PROP | NPC_PROP | CONSOLE_COMMAND |
    ENVIRONMENT_INFO | PLAY_SOUND | AUTH
  | OtherType int

fun EEType_value :: "EEType \<Rightarrow> int" where
  "EEType_value MSG_NICK = 0"
| "EEType_value CHARACTERS_LIST = 1"
| "EEType_value GAME_PROP = 2"
| "EEType_value WELCOME = 3"
| "EEType_value REFUSED = 4"
| "EEType_value NEW_PLAYER = 5"
| "EEType_value RUN_MULTI = 6"
| "EEType_value SEND_GAME_PROP = 7"
| "EEType_value DEL_PLAYER = 8"
| "EEType_value LOAD = 9"
| "EEType_value ADD_NODE = 10"
| "EEType_value REM_NODE = 11"
| "EEType_value MOVE_NODE = 12"
| "EEType_value REMOVE_MACHINE = 13"
| "EEType_value REMOVE_CONSOLE = 14"
| "EEType_value PLAYER_POS = 15"
| "EEType_value NPC_POS = 16"
| "EEType_value CREATE_CHARACTER = 17"
| "EEType_value DELETE_CHARACTER = 18"
| "EEType_value ITEM_PROP = 19"
| "EEType_value CHAT_EVENT = 20"
| "EEType_value PING = 21"
| "EEType_value TARGET_CHANGED = 22"
| "EEType_value PLAYER_PROP = 23"
| "EEType_value NPC_PROP = 24"
| "EEType_value CONSOLE_COMMAND = 25"
| "EEType_value ENVIRONMENT_INFO = 26"
| "EEType_value PLAY_SOUND = 27"
| "EEType_value AUTH = 28"
| "EEType_value (OtherType n) = n"

definition EETypes :: "EEType list" where
  "EETypes =
     [MSG_NICK, CHARACTERS_LIST, GAME_PROP, WELCOME, REFUSED, NEW_PLAYER, RUN_MULTI,
      SEND_GAME_PROP, DEL_PLAYER, LOAD, ADD_NODE, REM_NODE, MOVE_NODE, REMOVE_MACHINE,
      REMOVE_CONSOLE, PLAYER_POS, NPC_POS, CREATE_CHARACTER, DELETE_CHARACTER, ITEM_PROP,
      CHAT_EVENT, PING, TARGET_CHANGED, PLAYER_PROP, NPC_PROP, CONSOLE_COMMAND,
      ENVIRONMENT_INFO, PLAY_SOUND, AUTH]"

definition EEType_of :: "int \<Rightarrow> EEType" where
  "EEType_of n = (if 0 \<le> n \<and> n < 29 then EETypes ! nat n else OtherType n)"

record EngineEvent =
  mType :: EEType
  msData :: "(string, string) stdmap"
  miData :: "(string, int) stdmap"
  mfData :: "(string, float32) stdmap"

text \<open>A fresh event of a type, the assignments \<open>e.msData[k] = v\<close> and the lookups \<open>find(k)\<close>.\<close>

definition event_of :: "EEType \<Rightarrow> EngineEvent" where
  "event_of t = \<lparr>mType = t, msData = [], miData = [], mfData = []\<rparr>"

definition put_s :: "string \<Rightarrow> string \<Rightarrow> EngineEvent \<Rightarrow> EngineEvent" where
  "put_s k v e = e\<lparr>msData := map_put k v (msData e)\<rparr>"

definition put_i :: "string \<Rightarrow> int \<Rightarrow> EngineEvent \<Rightarrow> EngineEvent" where
  "put_i k v e = e\<lparr>miData := map_put k v (miData e)\<rparr>"

definition put_f :: "string \<Rightarrow> float32 \<Rightarrow> EngineEvent \<Rightarrow> EngineEvent" where
  "put_f k v e = e\<lparr>mfData := map_put k v (mfData e)\<rparr>"

definition find_s :: "EngineEvent \<Rightarrow> string \<Rightarrow> string option" where
  "find_s e k = map_find (msData e) k"

definition find_i :: "EngineEvent \<Rightarrow> string \<Rightarrow> int option" where
  "find_i e k = map_find (miData e) k"

definition find_f :: "EngineEvent \<Rightarrow> string \<Rightarrow> float32 option" where
  "find_f e k = map_find (mfData e) k"

text \<open>\<open>e.msData[k]\<close> in an expression: a missing entry is the empty string.\<close>

definition at_s :: "EngineEvent \<Rightarrow> string \<Rightarrow> string" where
  "at_s e k = (case find_s e k of None \<Rightarrow> [] | Some v \<Rightarrow> v)"

text \<open>\<open>assert(it != end)\<close> on a lookup, then its value.\<close>

definition need :: "string \<Rightarrow> 'a option \<Rightarrow> 'a res" where
  "need k v = (case v of None \<Rightarrow> Inl (Abort (''assert: '' @ k)) | Some x \<Rightarrow> Inr x)"

lemma need_simps [simp]:
  "need k None = Inl (Abort (''assert: '' @ k))"
  "need k (Some x) = Inr x"
  by (simp_all add: need_def)

lemma mType_puts [simp]:
  "mType (event_of t) = t" "mType (put_s k s e) = mType e"
  "mType (put_i k i e) = mType e" "mType (put_f k f e) = mType e"
  by (simp_all add: event_of_def put_s_def put_i_def put_f_def)

lemma finds_event_of [simp]:
  "find_s (event_of t) k = None" "find_i (event_of t) k = None" "find_f (event_of t) k = None"
  by (simp_all add: event_of_def find_s_def find_i_def find_f_def)

lemma finds_puts [simp]:
  "find_s (put_s k s e) k' = (if k' = k then Some s else find_s e k')"
  "find_s (put_i k i e) k' = find_s e k'"
  "find_s (put_f k f e) k' = find_s e k'"
  "find_i (put_s k s e) k' = find_i e k'"
  "find_i (put_i k i e) k' = (if k' = k then Some i else find_i e k')"
  "find_i (put_f k f e) k' = find_i e k'"
  "find_f (put_s k s e) k' = find_f e k'"
  "find_f (put_i k i e) k' = find_f e k'"
  "find_f (put_f k f e) k' = (if k' = k then Some f else find_f e k')"
  by (simp_all add: put_s_def put_i_def put_f_def find_s_def find_i_def find_f_def)

definition event_wf :: "EngineEvent \<Rightarrow> bool" where
  "event_wf e \<longleftrightarrow> map_wf (msData e) \<and> map_wf (miData e) \<and> map_wf (mfData e)"

lemma event_wf_simps [simp]:
  "event_wf (event_of t)"
  "event_wf e \<Longrightarrow> event_wf (put_s k s e)"
  "event_wf e \<Longrightarrow> event_wf (put_i k i e)"
  "event_wf e \<Longrightarrow> event_wf (put_f k f e)"
  by (simp_all add: event_wf_def event_of_def put_s_def put_i_def put_f_def)

text \<open>Two well-formed events with the same type and the same lookups are the same event.\<close>

lemma event_ext:
  assumes "event_wf e" "event_wf e'" "mType e = mType e'"
    and "\<And>k. find_s e k = find_s e' k" "\<And>k. find_i e k = find_i e' k"
    and "\<And>k. find_f e k = find_f e' k"
  shows "e = e'"
proof -
  have "msData e = msData e'" "miData e = miData e'" "mfData e = mfData e'"
    using assms by (auto simp: event_wf_def find_s_def find_i_def find_f_def intro!: map_wf_ext)
  then show ?thesis using assms(3) by simp
qed

section \<open>The enumeration and its numbers\<close>

definition EEType_known :: "EEType \<Rightarrow> bool" where
  "EEType_known t \<longleftrightarrow> t \<in> set EETypes"

lemma length_EETypes [simp]: "length EETypes = 29"
  by (simp add: EETypes_def)

lemma EETypes_value: "i < 29 \<Longrightarrow> EEType_value (EETypes ! i) = int i"
proof -
  have "map EEType_value EETypes = map int [0..<29]" by (simp add: EETypes_def upt_conv_Cons)
  then show "i < 29 \<Longrightarrow> ?thesis" by (metis length_EETypes diff_zero length_upt map_nth nth_map
      nth_upt plus_nat.add_0)
qed

lemma EEType_known_iff: "EEType_known t \<longleftrightarrow> (\<forall>n. t \<noteq> OtherType n)"
  by (cases t) (simp_all add: EEType_known_def EETypes_def)

lemma EEType_value_range: "EEType_known t \<Longrightarrow> 0 \<le> EEType_value t \<and> EEType_value t < 29"
  by (cases t) (simp_all add: EEType_known_iff)

lemma EEType_value_known: "EEType_known t \<Longrightarrow> EETypes ! nat (EEType_value t) = t"
  by (cases t) (simp_all add: EEType_known_iff EETypes_def nth_Cons')

lemma EEType_of_value: "EEType_known t \<or> EEType_value t \<notin> {0..<29} \<Longrightarrow> EEType_of (EEType_value t) = t"
  using EEType_value_range[of t] EEType_value_known[of t]
  by (cases t) (auto simp: EEType_of_def EEType_known_iff)

section \<open>Comparison and display\<close>

text \<open>\<open>==\<close> of two maps: the same keys in the same order with values that are \<open>==\<close>.\<close>

definition EngineEvent_eq :: "EngineEvent \<Rightarrow> EngineEvent \<Rightarrow> bool" where
  "EngineEvent_eq e e' \<longleftrightarrow>
     mType e = mType e' \<and> msData e = msData e' \<and> miData e = miData e' \<and>
     list_all2 (\<lambda>p q. fst p = fst q \<and> float_eq (snd p) (snd q)) (mfData e) (mfData e')"

lemma EngineEvent_eq_refl_iff:
  "EngineEvent_eq e e \<longleftrightarrow> (\<forall>p \<in> set (mfData e). \<not> f_isnan (snd p))"
  by (auto simp: EngineEvent_eq_def list_all2_same float_eq_refl_iff)

fun type_text :: "EEType \<Rightarrow> string" where
  "type_text MSG_NICK = ''MSG_NICK''"
| "type_text CHARACTERS_LIST = ''CHARACTERS_LIST''"
| "type_text GAME_PROP = ''GAME_PROP''"
| "type_text WELCOME = ''WELCOME''"
| "type_text REFUSED = ''REFUSED''"
| "type_text NEW_PLAYER = ''NEW_PLAYER''"
| "type_text RUN_MULTI = ''RUN_MULTI''"
| "type_text SEND_GAME_PROP = ''SEND_GAME_PROP''"
| "type_text DEL_PLAYER = ''DEL_PLAYER''"
| "type_text LOAD = ''LOAD''"
| "type_text ADD_NODE = ''ADD_NODE''"
| "type_text REM_NODE = ''REM_NODE''"
| "type_text MOVE_NODE = ''MOVE_NODE''"
| "type_text REMOVE_MACHINE = ''REMOVE_MACHINE''"
| "type_text REMOVE_CONSOLE = ''REMOVE_CONSOLE''"
| "type_text PLAYER_POS = ''PLAYER_POS''"
| "type_text NPC_POS = ''NPC_POS''"
| "type_text CREATE_CHARACTER = ''CREATE_CHARACTER''"
| "type_text DELETE_CHARACTER = ''DELETE_CHARACTER''"
| "type_text ITEM_PROP = ''ITEM_PROP''"
| "type_text CHAT_EVENT = ''CHAT_EVENT''"
| "type_text PING = ''PING''"
| "type_text TARGET_CHANGED = ''TARGET_CHANGED''"
| "type_text PLAYER_PROP = ''PLAYER_PROP''"
| "type_text CONSOLE_COMMAND = ''CONSOLE_COMMAND''"
| "type_text ENVIRONMENT_INFO = ''ENVIRONMENT_INFO''"
| "type_text PLAY_SOUND = ''PLAY_SOUND''"
| "type_text _ = ''UNKNOWN''"

text \<open>
  The lines \<open>DisplayOnLog\<close> writes at debug level. The inserter of floats is an argument; the
  ones of strings and integers cannot fail.
\<close>

fun stringify_all :: "('a \<Rightarrow> string res) \<Rightarrow> (string \<times> 'a) list \<Rightarrow> string list res" where
  "stringify_all f [] = Inr []"
| "stringify_all f (p # ps) =
     run_then (f (snd p)) (\<lambda>v. run_then (stringify_all f ps)
       (\<lambda>ls. Inr ((fst p @ '' : '' @ v) # ls)))"

definition DisplayOnLog :: "(float32 \<Rightarrow> string option) \<Rightarrow> EngineEvent \<Rightarrow> string list res" where
  "DisplayOnLog put_float e =
     run_then (stringify_all (stringify put_float ''f'') (mfData e)) (\<lambda>fs.
       Inr ((''Type : '' @ type_text (mType e)) #
         map (\<lambda>p. fst p @ '' : '' @ snd p) (msData e) @
         map (\<lambda>p. fst p @ '' : '' @ show_int (snd p)) (miData e) @ fs))"

definition Display :: "(float32 \<Rightarrow> string) \<Rightarrow> EngineEvent \<Rightarrow> string" where
  "Display put_float e =
     ''Type : '' @ type_text (mType e) @ [newline] @
     concat (map (\<lambda>p. fst p @ '' : '' @ snd p @ [newline]) (msData e)) @
     concat (map (\<lambda>p. fst p @ '' : '' @ show_int (snd p) @ [newline]) (miData e)) @
     concat (map (\<lambda>p. fst p @ '' : '' @ put_float (snd p) @ [newline]) (mfData e))"

lemma stringify_all_total:
  "(\<And>x. f x = Inr (g x)) \<Longrightarrow> stringify_all f ps = Inr (map (\<lambda>p. fst p @ '' : '' @ g (snd p)) ps)"
  by (induction ps) auto

text \<open>What is printed and what is logged are the same lines.\<close>

lemma Display_DisplayOnLog:
  assumes "\<And>x. ins x = Some (show_f x)"
  shows "map_sum id (\<lambda>ls. concat (map (\<lambda>l. l @ [newline]) ls)) (DisplayOnLog ins e) = Inr (Display show_f e)"
proof -
  have "stringify_all (stringify ins ''f'') (mfData e)
      = Inr (map (\<lambda>p. fst p @ '' : '' @ show_f (snd p)) (mfData e))"
    by (rule stringify_all_total) (simp add: stringify_def assms)
  then show ?thesis by (simp add: DisplayOnLog_def Display_def comp_def)
qed

lemma type_text_UNKNOWN_iff:
  "type_text t = ''UNKNOWN'' \<longleftrightarrow> t = AUTH \<or> t = NPC_PROP \<or> \<not> EEType_known t"
  by (cases t) (simp_all add: EEType_known_iff)

section \<open>The archive\<close>

text \<open>
  \<open>serialize\<close> is a template over the archive: the same members go through \<open>ar & x\<close> in order,
  whether they are written or read. The archives are boost's and a parameter here: an operation for each type
  of operand, which gives the operand back, as it is or as read, or throws and leaves it.
\<close>

record 'a archive =
  amp_int :: "int \<Rightarrow> ('a, int) op"
  amp_float :: "float32 \<Rightarrow> ('a, float32) op"
  amp_string :: "string \<Rightarrow> ('a, string) op"
  amp_strings :: "(string, string) stdmap \<Rightarrow> ('a, (string, string) stdmap) op"
  amp_ints :: "(string, int) stdmap \<Rightarrow> ('a, (string, int) stdmap) op"
  amp_floats :: "(string, float32) stdmap \<Rightarrow> ('a, (string, float32) stdmap) op"

text \<open>\<open>ar & x\<close> for a member \<open>x\<close> of the object: the state is the object and the archive.\<close>

definition member :: "('x \<Rightarrow> ('a, 'x) op) \<Rightarrow> ('s \<Rightarrow> 'x) \<Rightarrow> ('x \<Rightarrow> 's \<Rightarrow> 's) \<Rightarrow> ('s \<times> 'a) act" where
  "member amp get put s =
     (case amp (get (fst s)) (snd s) of
        (Inl f, ar) \<Rightarrow> (Some f, (fst s, ar))
      | (Inr x, ar) \<Rightarrow> (None, (put x (fst s), ar)))"

definition members :: "('s \<times> 'a) act list \<Rightarrow> ('s \<times> 'a) act" where
  "members fs = foldr and_then fs done_with"

definition EngineEvent_serialize :: "'a archive \<Rightarrow> (EngineEvent \<times> 'a) act" where
  "EngineEvent_serialize ar = members
     [member (amp_int ar) (\<lambda>e. EEType_value (mType e)) (\<lambda>t e. e\<lparr>mType := EEType_of t\<rparr>),
      member (amp_strings ar) msData (\<lambda>m e. e\<lparr>msData := m\<rparr>),
      member (amp_ints ar) miData (\<lambda>m e. e\<lparr>miData := m\<rparr>),
      member (amp_floats ar) mfData (\<lambda>m e. e\<lparr>mfData := m\<rparr>)]"

text \<open>
  What an output archive is given: the operands in their order. The text that boost makes of them is a parameter
  wherever it is used.
\<close>

datatype item =
    ItemInt int
  | ItemFloat float32
  | ItemString string
  | ItemStrings "(string, string) stdmap"
  | ItemInts "(string, int) stdmap"
  | ItemFloats "(string, float32) stdmap"

definition operands :: "item list archive" where
  "operands =
     \<lparr>amp_int = (\<lambda>x ar. (Inr x, ar @ [ItemInt x])), amp_float = (\<lambda>x ar. (Inr x, ar @ [ItemFloat x])),
      amp_string = (\<lambda>x ar. (Inr x, ar @ [ItemString x])), amp_strings = (\<lambda>x ar. (Inr x, ar @ [ItemStrings x])),
      amp_ints = (\<lambda>x ar. (Inr x, ar @ [ItemInts x])), amp_floats = (\<lambda>x ar. (Inr x, ar @ [ItemFloats x]))\<rparr>"

definition saved :: "(item list archive \<Rightarrow> ('s \<times> item list) act) \<Rightarrow> 's \<Rightarrow> item list" where
  "saved serialize x = snd (snd (serialize operands (x, [])))"

definition EngineEvent_save :: "EngineEvent \<Rightarrow> item list" where
  "EngineEvent_save = saved EngineEvent_serialize"

lemma EngineEvent_save_items:
  "EngineEvent_save e = [ItemInt (EEType_value (mType e)), ItemStrings (msData e), ItemInts (miData e), ItemFloats (mfData e)]"
  by (simp add: EngineEvent_save_def saved_def EngineEvent_serialize_def members_def member_def and_then_def operands_def)

end
