(* ===== verification/SCharacter.thy ===== *)
theory SCharacter
imports SEngineEvent
begin

text \<open>
  \<open>Game/SCharacter.{h,cpp}\<close>, \<open>SPlayer.{h,cpp}\<close>, \<open>SNPC.{h,cpp}\<close> and \<open>SItem.{h,cpp}\<close>: the
  characters of the game and what moves, places and archives them. Players and NPCs add no
  member to a character. A constructor leaves the numbers it does not assign at whatever the
  memory held, so it takes that memory as an argument.
\<close>

section \<open>Characters\<close>

record Character =
  mID :: int
  mModel :: string
  mNickName :: string
  mLevel :: int
  mMapID :: int
  mPosX :: float32
  mPosY :: float32
  mPosZ :: float32
  mOW :: float32
  mOX :: float32
  mOY :: float32
  mOZ :: float32
  mVX :: float32
  mVY :: float32
  mVZ :: float32
  mPV :: int
  mPVMax :: int

definition Character_new :: "Character \<Rightarrow> Character" where
  "Character_new memory = memory\<lparr>mModel := [], mNickName := []\<rparr>"

definition Character_of_ID :: "Character \<Rightarrow> int \<Rightarrow> Character" where
  "Character_of_ID memory ID = (Character_new memory)\<lparr>mID := ID\<rparr>"

definition SetModel :: "string \<Rightarrow> Character \<Rightarrow> Character" where
  "SetModel model c = c\<lparr>mModel := model\<rparr>"

definition SetNickName :: "string \<Rightarrow> Character \<Rightarrow> Character" where
  "SetNickName nickName c = c\<lparr>mNickName := nickName\<rparr>"

definition SetLevel :: "int \<Rightarrow> Character \<Rightarrow> Character" where
  "SetLevel level c = c\<lparr>mLevel := level\<rparr>"

definition SetMapID :: "int \<Rightarrow> Character \<Rightarrow> Character" where
  "SetMapID mapID c = c\<lparr>mMapID := mapID\<rparr>"

definition SetPV :: "int \<Rightarrow> Character \<Rightarrow> Character" where
  "SetPV pv c = c\<lparr>mPV := pv\<rparr>"

definition SetPVMax :: "int \<Rightarrow> Character \<Rightarrow> Character" where
  "SetPVMax pvMax c = c\<lparr>mPVMax := pvMax\<rparr>"

definition SetPosX :: "float32 \<Rightarrow> Character \<Rightarrow> Character" where
  "SetPosX posX c = c\<lparr>mPosX := posX\<rparr>"

definition SetPosY :: "float32 \<Rightarrow> Character \<Rightarrow> Character" where
  "SetPosY posY c = c\<lparr>mPosY := posY\<rparr>"

definition SetPosZ :: "float32 \<Rightarrow> Character \<Rightarrow> Character" where
  "SetPosZ posZ c = c\<lparr>mPosZ := posZ\<rparr>"

definition SetOW :: "float32 \<Rightarrow> Character \<Rightarrow> Character" where
  "SetOW ow c = c\<lparr>mOW := ow\<rparr>"

definition SetOX :: "float32 \<Rightarrow> Character \<Rightarrow> Character" where
  "SetOX ox c = c\<lparr>mOX := ox\<rparr>"

definition SetOY :: "float32 \<Rightarrow> Character \<Rightarrow> Character" where
  "SetOY oy c = c\<lparr>mOY := oy\<rparr>"

definition SetOZ :: "float32 \<Rightarrow> Character \<Rightarrow> Character" where
  "SetOZ oz c = c\<lparr>mOZ := oz\<rparr>"

text \<open>The move to given coordinates, and the one an event describes.\<close>

definition Move_to ::
  "float32 \<Rightarrow> float32 \<Rightarrow> float32 \<Rightarrow> float32 \<Rightarrow> float32 \<Rightarrow> float32 \<Rightarrow> float32 \<Rightarrow> Character \<Rightarrow> Character" where
  "Move_to posX posY posZ ow ox oy oz c =
     c\<lparr>mPosX := posX, mPosY := posY, mPosZ := posZ, mOW := ow, mOX := ox, mOY := oy, mOZ := oz\<rparr>"

definition Move :: "EngineEvent \<Rightarrow> Character \<Rightarrow> Character res" where
  "Move ent c =
     run_then (need ''POS_X'' (find_f ent ''POS_X'')) (\<lambda>posX.
     run_then (need ''POS_Y'' (find_f ent ''POS_Y'')) (\<lambda>posY.
     run_then (need ''POS_Z'' (find_f ent ''POS_Z'')) (\<lambda>posZ.
     run_then (need ''O_W'' (find_f ent ''O_W'')) (\<lambda>ow.
     run_then (need ''O_X'' (find_f ent ''O_X'')) (\<lambda>ox.
     run_then (need ''O_Y'' (find_f ent ''O_Y'')) (\<lambda>oy.
     run_then (need ''O_Z'' (find_f ent ''O_Z'')) (\<lambda>oz.
       Inr (c\<lparr>mPosX := posX, mPosY := posY, mPosZ := posZ,
               mOW := ow, mOX := ox, mOY := oy, mOZ := oz\<rparr>))))))))"

definition GetPos :: "Character \<Rightarrow> EngineEvent" where
  "GetPos c =
     put_f ''O_Z'' (mOZ c) (put_f ''O_Y'' (mOY c) (put_f ''O_X'' (mOX c) (put_f ''O_W'' (mOW c)
     (put_f ''POS_Z'' (mPosZ c) (put_f ''POS_Y'' (mPosY c) (put_f ''POS_X'' (mPosX c)
     (event_of NPC_POS)))))))"

lemma mType_GetPos [simp]: "mType (GetPos c) = NPC_POS"
  by (simp add: GetPos_def)

definition same_place :: "Character \<Rightarrow> Character \<Rightarrow> bool" where
  "same_place c d \<longleftrightarrow> mPosX c = mPosX d \<and> mPosY c = mPosY d \<and> mPosZ c = mPosZ d \<and>
     mOW c = mOW d \<and> mOX c = mOX d \<and> mOY c = mOY d \<and> mOZ c = mOZ d"

definition place_keys :: "string list" where
  "place_keys = [''POS_X'', ''POS_Y'', ''POS_Z'', ''O_W'', ''O_X'', ''O_Y'', ''O_Z'']"

lemma Move_defined_iff:
  "(\<exists>c'. Move ent c = Inr c') \<longleftrightarrow> (\<forall>k \<in> set place_keys. find_f ent k \<noteq> None)"
  by (auto simp: Move_def place_keys_def need_def split: option.splits)

lemma Move_aborts: "Move ent c = Inl f \<Longrightarrow> \<exists>w. f = Abort w"
  by (auto simp: Move_def need_def run_then_def split: option.splits sum.splits)

text \<open>Moving a character by the position event of another puts it where the other is, and
  changes nothing else: its identity, level, map and points are kept.\<close>

theorem Move_GetPos:
  "\<exists>c'. Move (GetPos d) c = Inr c' \<and> same_place c' d \<and>
     c' = Move_to (mPosX d) (mPosY d) (mPosZ d) (mOW d) (mOX d) (mOY d) (mOZ d) c \<and>
     mID c' = mID c \<and> mNickName c' = mNickName c \<and> mMapID c' = mMapID c \<and>
     mLevel c' = mLevel c \<and> mPV c' = mPV c \<and> mPVMax c' = mPVMax c"
  by (simp add: Move_def GetPos_def same_place_def Move_to_def)

section \<open>Players and NPCs\<close>

type_synonym Player = Character
type_synonym NPC = Character

definition Player_new :: "Character \<Rightarrow> Player" where
  "Player_new memory = (Character_new memory)\<lparr>mID := 0\<rparr>"

definition Player_of_ID :: "Character \<Rightarrow> int \<Rightarrow> Player" where
  "Player_of_ID memory ID = (Character_new memory)\<lparr>mID := ID\<rparr>"

definition Player_copy :: "Player \<Rightarrow> Player" where
  "Player_copy player = player"

definition NPC_new :: "Character \<Rightarrow> NPC" where
  "NPC_new memory = (Character_new memory)\<lparr>mID := 0\<rparr>"

definition NPC_of_ID :: "Character \<Rightarrow> int \<Rightarrow> NPC" where
  "NPC_of_ID memory ID = (Character_new memory)\<lparr>mID := ID\<rparr>"

definition NPC_copy :: "NPC \<Rightarrow> NPC" where
  "NPC_copy npc = npc"

text \<open>Both hand the same members to an archive in the same order; the velocity is not among them.\<close>

definition NPC_serialize :: "'a archive \<Rightarrow> (NPC \<times> 'a) act" where
  "NPC_serialize ar = members
     [member (amp_int ar) mLevel (\<lambda>x c. c\<lparr>mLevel := x\<rparr>),
      member (amp_int ar) mMapID (\<lambda>x c. c\<lparr>mMapID := x\<rparr>),
      member (amp_float ar) mPosX (\<lambda>x c. c\<lparr>mPosX := x\<rparr>),
      member (amp_float ar) mPosY (\<lambda>x c. c\<lparr>mPosY := x\<rparr>),
      member (amp_float ar) mPosZ (\<lambda>x c. c\<lparr>mPosZ := x\<rparr>),
      member (amp_float ar) mOW (\<lambda>x c. c\<lparr>mOW := x\<rparr>),
      member (amp_float ar) mOX (\<lambda>x c. c\<lparr>mOX := x\<rparr>),
      member (amp_float ar) mOY (\<lambda>x c. c\<lparr>mOY := x\<rparr>),
      member (amp_float ar) mOZ (\<lambda>x c. c\<lparr>mOZ := x\<rparr>),
      member (amp_int ar) mID (\<lambda>x c. c\<lparr>mID := x\<rparr>),
      member (amp_string ar) mModel (\<lambda>x c. c\<lparr>mModel := x\<rparr>),
      member (amp_string ar) mNickName (\<lambda>x c. c\<lparr>mNickName := x\<rparr>),
      member (amp_int ar) mPV (\<lambda>x c. c\<lparr>mPV := x\<rparr>),
      member (amp_int ar) mPVMax (\<lambda>x c. c\<lparr>mPVMax := x\<rparr>)]"

definition NPC_save :: "NPC \<Rightarrow> item list" where
  "NPC_save = saved NPC_serialize"

definition Player_serialize :: "'a archive \<Rightarrow> (Player \<times> 'a) act" where
  "Player_serialize ar = members
     [member (amp_int ar) mLevel (\<lambda>x c. c\<lparr>mLevel := x\<rparr>),
      member (amp_int ar) mMapID (\<lambda>x c. c\<lparr>mMapID := x\<rparr>),
      member (amp_float ar) mPosX (\<lambda>x c. c\<lparr>mPosX := x\<rparr>),
      member (amp_float ar) mPosY (\<lambda>x c. c\<lparr>mPosY := x\<rparr>),
      member (amp_float ar) mPosZ (\<lambda>x c. c\<lparr>mPosZ := x\<rparr>),
      member (amp_float ar) mOW (\<lambda>x c. c\<lparr>mOW := x\<rparr>),
      member (amp_float ar) mOX (\<lambda>x c. c\<lparr>mOX := x\<rparr>),
      member (amp_float ar) mOY (\<lambda>x c. c\<lparr>mOY := x\<rparr>),
      member (amp_float ar) mOZ (\<lambda>x c. c\<lparr>mOZ := x\<rparr>),
      member (amp_int ar) mID (\<lambda>x c. c\<lparr>mID := x\<rparr>),
      member (amp_string ar) mModel (\<lambda>x c. c\<lparr>mModel := x\<rparr>),
      member (amp_string ar) mNickName (\<lambda>x c. c\<lparr>mNickName := x\<rparr>),
      member (amp_int ar) mPV (\<lambda>x c. c\<lparr>mPV := x\<rparr>),
      member (amp_int ar) mPVMax (\<lambda>x c. c\<lparr>mPVMax := x\<rparr>)]"

definition Player_save :: "Player \<Rightarrow> item list" where
  "Player_save = saved Player_serialize"

lemma character_save_items:
  "Player_save c =
     [ItemInt (mLevel c), ItemInt (mMapID c), ItemFloat (mPosX c), ItemFloat (mPosY c),
      ItemFloat (mPosZ c), ItemFloat (mOW c), ItemFloat (mOX c), ItemFloat (mOY c),
      ItemFloat (mOZ c), ItemInt (mID c), ItemString (mModel c), ItemString (mNickName c),
      ItemInt (mPV c), ItemInt (mPVMax c)]"
  "NPC_save c = Player_save c"
  by (simp_all add: NPC_save_def Player_save_def saved_def NPC_serialize_def Player_serialize_def members_def
      member_def and_then_def operands_def)

section \<open>Items\<close>

record Item =
  item_mID :: int
  item_mName :: string
  item_mMesh :: string
  item_mICO :: string
  item_mType :: int

definition Item_new :: "Item \<Rightarrow> Item" where
  "Item_new memory = memory\<lparr>item_mID := 0, item_mName := [], item_mMesh := [], item_mICO := []\<rparr>"

definition Item_of_ID :: "Item \<Rightarrow> int \<Rightarrow> Item" where
  "Item_of_ID memory ID =
     memory\<lparr>item_mID := ID, item_mName := [], item_mMesh := [], item_mICO := []\<rparr>"

definition Item_SetID :: "int \<Rightarrow> Item \<Rightarrow> Item" where
  "Item_SetID ID i = i\<lparr>item_mID := ID\<rparr>"

definition Item_SetName :: "string \<Rightarrow> Item \<Rightarrow> Item" where
  "Item_SetName name i = i\<lparr>item_mName := name\<rparr>"

definition Item_SetMesh :: "string \<Rightarrow> Item \<Rightarrow> Item" where
  "Item_SetMesh mesh i = i\<lparr>item_mMesh := mesh\<rparr>"

definition Item_SetICO :: "string \<Rightarrow> Item \<Rightarrow> Item" where
  "Item_SetICO ico i = i\<lparr>item_mICO := ico\<rparr>"

definition Item_SetType :: "int \<Rightarrow> Item \<Rightarrow> Item" where
  "Item_SetType t i = i\<lparr>item_mType := t\<rparr>"

definition Item_serialize :: "'a archive \<Rightarrow> (Item \<times> 'a) act" where
  "Item_serialize ar = members
     [member (amp_int ar) item_mID (\<lambda>x i. i\<lparr>item_mID := x\<rparr>),
      member (amp_string ar) item_mName (\<lambda>x i. i\<lparr>item_mName := x\<rparr>),
      member (amp_string ar) item_mMesh (\<lambda>x i. i\<lparr>item_mMesh := x\<rparr>),
      member (amp_string ar) item_mICO (\<lambda>x i. i\<lparr>item_mICO := x\<rparr>),
      member (amp_int ar) item_mType (\<lambda>x i. i\<lparr>item_mType := x\<rparr>)]"

end
