(* ===== verification/Log4cpp.thy ===== *)
theory Log4cpp
imports StdMap StdString
begin

text \<open>
  The part of \<open>ThirdPartiesLibs/log4cpp-1.1\<close> the server logs through: the priorities, the
  hierarchy of categories (\<open>Category.cpp\<close>, \<open>HierarchyMaintainer.cpp\<close>) and the way an event
  climbs it (\<open>AppenderSkeleton.cpp\<close>, \<open>OstreamAppender.cpp\<close>, \<open>FileAppender.cpp\<close>). A category
  is named by its key in the maintainer's map: it is never freed while the server runs.
\<close>

section \<open>Priorities\<close>

datatype PriorityLevel = FATAL | ALERT | CRIT | ERROR | WARN | NOTICE | INFO | DEBUG | NOTSET

fun priority_value :: "PriorityLevel \<Rightarrow> int" where
  "priority_value FATAL = 0"
| "priority_value ALERT = 100"
| "priority_value CRIT = 200"
| "priority_value ERROR = 300"
| "priority_value WARN = 400"
| "priority_value NOTICE = 500"
| "priority_value INFO = 600"
| "priority_value DEBUG = 700"
| "priority_value NOTSET = 800"

text \<open>The constants of a C++ enumeration are ordered by their values.\<close>

instantiation PriorityLevel :: linorder
begin

definition less_eq_PriorityLevel :: "PriorityLevel \<Rightarrow> PriorityLevel \<Rightarrow> bool" where
  "less_eq_PriorityLevel p q \<longleftrightarrow> priority_value p \<le> priority_value q"

definition less_PriorityLevel :: "PriorityLevel \<Rightarrow> PriorityLevel \<Rightarrow> bool" where
  "less_PriorityLevel p q \<longleftrightarrow> priority_value p < priority_value q"

instance
proof
  fix p q :: PriorityLevel
  show "p \<le> q \<Longrightarrow> q \<le> p \<Longrightarrow> p = q"
    by (cases p; cases q) (simp_all add: less_eq_PriorityLevel_def)
qed (auto simp: less_eq_PriorityLevel_def less_PriorityLevel_def)

end

definition priority_names :: "string list" where
  "priority_names =
     [''FATAL'', ''ALERT'', ''CRIT'', ''ERROR'', ''WARN'', ''NOTICE'', ''INFO'', ''DEBUG'',
      ''NOTSET'', ''UNKNOWN'']"

text \<open>C++ division truncates toward zero.\<close>

definition getPriorityName :: "int \<Rightarrow> string" where
  "getPriorityName priority =
     (let p = priority + 1; q = (if p < 0 then - (- p div 100) else p div 100)
      in priority_names ! (if q < 0 \<or> 8 < q then 8 else nat q))"

lemma getPriorityName_value [simp]:
  "getPriorityName (priority_value p) = priority_names ! nat (priority_value p div 100)"
  by (cases p) (simp_all add: getPriorityName_def)

section \<open>Categories and appenders\<close>

datatype sink = SinkFile string | SinkCout | SinkCerr

text \<open>What \<open>LoggingEvent\<close> carries to a layout.\<close>

record LoggingEvent =
  categoryName :: string
  event_message :: string
  event_ndc :: string
  event_priority :: int

text \<open>
  An appender writes the text its layout makes of an event to its sink, when that opened. A
  layout may read the local time, whose text is its first argument.
\<close>

record Appender =
  app_sink :: sink
  app_opened :: bool
  app_layout :: "string \<Rightarrow> LoggingEvent \<Rightarrow> string"

record Category =
  cat_parent :: "string option"
  cat_priority :: int
  cat_additive :: bool
  cat_appenders :: "Appender list"

text \<open>
  The maintainer with its map; what has been written, oldest first; and the surroundings: the
  files that can be opened, the local time and the nested diagnostic context of the thread.
\<close>

record logging =
  categoryMap :: "(string, Category) stdmap"
  written :: "(sink \<times> string) list"
  openable :: "string \<Rightarrow> bool"
  local_time :: string
  thread_ndc :: string

definition category :: "logging \<Rightarrow> string \<Rightarrow> Category option" where
  "category L name = map_find (categoryMap L) name"

definition set_category :: "string \<Rightarrow> Category \<Rightarrow> logging \<Rightarrow> logging" where
  "set_category name c L = L\<lparr>categoryMap := map_put name c (categoryMap L)\<rparr>"

lemma category_set [simp]:
  "category (set_category n c L) m = (if m = n then Some c else category L m)"
  by (simp add: category_def set_category_def)

lemma category_written [simp]: "category (written_update f L) m = category L m"
  by (simp add: category_def)

text \<open>The name up to the last dot, or the root's.\<close>

definition parentName :: "string \<Rightarrow> string" where
  "parentName name =
     (let r = dropWhile (\<lambda>c. c \<noteq> CHR ''.'') (rev name)
      in if r = [] then [] else rev (tl r))"

lemma parentName_shorter: "name \<noteq> [] \<Longrightarrow> length (parentName name) < length name"
proof -
  assume "name \<noteq> []"
  moreover have "length (dropWhile (\<lambda>c. c \<noteq> CHR ''.'') (rev name)) \<le> length name"
    using length_dropWhile_le[of _ "rev name"] by simp
  ultimately show ?thesis by (simp add: parentName_def Let_def) (metis le_trans
      diff_le_self diff_less length_greater_0_conv less_le_trans nat_less_le zero_less_one
      le_eq_less_or_eq length_rev One_nat_def)
qed

function getInstance :: "string \<Rightarrow> logging \<Rightarrow> logging" where
  "getInstance name L =
     (if category L name \<noteq> None then L
      else if name = [] then
        set_category name \<lparr>cat_parent = None, cat_priority = priority_value INFO,
          cat_additive = True, cat_appenders = []\<rparr> L
      else
        set_category name \<lparr>cat_parent = Some (parentName name),
          cat_priority = priority_value NOTSET, cat_additive = True, cat_appenders = []\<rparr>
          (getInstance (parentName name) L))"
  by pat_completeness auto
termination
  by (relation "measure (\<lambda>(name, L). length name)") (auto simp: parentName_shorter)

declare getInstance.simps [simp del]

text \<open>\<open>Category::setPriority\<close>: the root category does not take \<open>NOTSET\<close>.\<close>

definition setPriority :: "string \<Rightarrow> int \<Rightarrow> logging act" where
  "setPriority name priority L =
     (case category L name of
        None \<Rightarrow> fail_with (Undefined ''category'') L
      | Some c \<Rightarrow>
          if priority < priority_value NOTSET \<or> cat_parent c \<noteq> None
          then done_with (set_category name (c\<lparr>cat_priority := priority\<rparr>) L)
          else fail_with (Throw ''invalid_argument'') L)"

text \<open>\<open>getChainedPriority\<close> climbs until a category has a priority of its own.\<close>

partial_function (option) getChainedPriority :: "logging \<Rightarrow> string \<Rightarrow> int option" where
  "getChainedPriority L name =
     Option.bind (category L name) (\<lambda>c.
       if cat_priority c < priority_value NOTSET then Some (cat_priority c)
       else Option.bind (cat_parent c) (getChainedPriority L))"

definition addAppender :: "string \<Rightarrow> Appender \<Rightarrow> logging \<Rightarrow> logging" where
  "addAppender name a L =
     (case category L name of
        None \<Rightarrow> L
      | Some c \<Rightarrow> set_category name (c\<lparr>cat_appenders := cat_appenders c @ [a]\<rparr>) L)"

definition removeAllAppenders :: "Category \<Rightarrow> Category" where
  "removeAllAppenders c = c\<lparr>cat_appenders := []\<rparr>"

text \<open>\<open>HierarchyMaintainer::shutdown\<close>: every category loses its appenders.\<close>

definition log_shutdown :: "logging \<Rightarrow> logging" where
  "log_shutdown L =
     L\<lparr>categoryMap := map (\<lambda>p. (fst p, removeAllAppenders (snd p))) (categoryMap L)\<rparr>"

definition doAppend :: "LoggingEvent \<Rightarrow> Appender \<Rightarrow> logging \<Rightarrow> logging" where
  "doAppend ev a L =
     (if app_opened a then L\<lparr>written := written L @ [(app_sink a, app_layout a (local_time L) ev)]\<rparr> else L)"

text \<open>\<open>callAppenders\<close>: the appenders of a category, then those of its parent.\<close>

partial_function (option) callAppenders ::
  "LoggingEvent \<Rightarrow> string \<Rightarrow> logging \<Rightarrow> logging option" where
  "callAppenders ev name L =
     Option.bind (category L name) (\<lambda>c.
       let L' = fold (doAppend ev) (cat_appenders c) L
       in if cat_additive c \<and> cat_parent c \<noteq> None
          then callAppenders ev (the (cat_parent c)) L' else Some L')"

text \<open>\<open>Category::debug\<close> to \<open>Category::fatal\<close>, by the priority they log at.\<close>

definition cat_log :: "PriorityLevel \<Rightarrow> string \<Rightarrow> string \<Rightarrow> logging \<Rightarrow> logging option" where
  "cat_log p name message L =
     Option.bind (getChainedPriority L name) (\<lambda>chained.
       if priority_value p \<le> chained
       then callAppenders \<lparr>categoryName = name, event_message = message,
              event_ndc = thread_ndc L, event_priority = priority_value p\<rparr> name L
       else Some L)"

section \<open>The hierarchy is well founded\<close>

text \<open>
  The root has a priority of its own and no parent, every other category has the parent its
  name gives it, and the parent is there.
\<close>

definition hierarchy :: "logging \<Rightarrow> bool" where
  "hierarchy L \<longleftrightarrow> (\<forall>name c. category L name = Some c \<longrightarrow>
     (name = [] \<longrightarrow> cat_parent c = None \<and> cat_priority c < 800) \<and>
     (name \<noteq> [] \<longrightarrow> cat_parent c = Some (parentName name) \<and> category L (parentName name) \<noteq> None))"

lemma hierarchyD:
  assumes "hierarchy L" "category L name = Some c"
  shows "name = [] \<Longrightarrow> cat_parent c = None \<and> cat_priority c < 800"
    and "name \<noteq> [] \<Longrightarrow> cat_parent c = Some (parentName name) \<and> category L (parentName name) \<noteq> None"
  using assms by (auto simp: hierarchy_def)

lemma getInstance_keeps: "category L m = Some c \<Longrightarrow> category (getInstance name L) m = Some c"
proof (induction name L rule: getInstance.induct)
  case (1 name L)
  then show ?case by (subst getInstance.simps) auto
qed

lemma getInstance_there: "category (getInstance name L) name \<noteq> None"
  by (subst getInstance.simps) simp

lemma getInstance_hierarchy: "hierarchy L \<Longrightarrow> hierarchy (getInstance name L)"
proof (induction name L rule: getInstance.induct)
  case (1 name L)
  show ?case
  proof (cases "category L name \<noteq> None \<or> name = []")
    case True
    then show ?thesis using 1(2)
      by (subst getInstance.simps) (auto simp: hierarchy_def)
  next
    case False
    then have "hierarchy (getInstance (parentName name) L)" using 1 by simp
    moreover have "parentName name \<noteq> name" using parentName_shorter[of name] False by auto
    ultimately show ?thesis using False getInstance_there[of "parentName name" L]
      by (subst getInstance.simps) (auto simp: hierarchy_def)
  qed
qed

lemma set_category_hierarchy:
  assumes "hierarchy L" "category L name = Some c" "cat_parent c' = cat_parent c"
    and "name = [] \<Longrightarrow> cat_priority c' < 800"
  shows "hierarchy (set_category name c' L)"
  using assms hierarchyD[OF assms(1,2)] hierarchyD[OF assms(1)]
  unfolding hierarchy_def by simp blast

lemma setPriority_hierarchy: "hierarchy L \<Longrightarrow> hierarchy (snd (setPriority name priority L))"
  using hierarchyD(1)[of L name]
  by (auto simp: setPriority_def split: option.split intro!: set_category_hierarchy)

lemma addAppender_hierarchy: "hierarchy L \<Longrightarrow> hierarchy (addAppender name a L)"
  using hierarchyD(1)[of L name]
  by (auto simp: addAppender_def split: option.split intro!: set_category_hierarchy)

lemma category_shutdown:
  "category (log_shutdown L) name = map_option removeAllAppenders (category L name)"
proof -
  have "map_of (map (\<lambda>p. (fst p, removeAllAppenders (snd p))) m) name
      = map_option removeAllAppenders (map_of m name)" for m
    by (induction m) auto
  then show ?thesis by (simp add: category_def log_shutdown_def map_find_def)
qed

lemma shutdown_hierarchy: "hierarchy L \<Longrightarrow> hierarchy (log_shutdown L)"
  by (auto simp: hierarchy_def category_shutdown removeAllAppenders_def)

section \<open>Where an event goes\<close>

lemma chained_priority_total:
  assumes "hierarchy L" "category L name \<noteq> None"
  shows "\<exists>p. getChainedPriority L name = Some p \<and> p < 800"
  using assms(2)
proof (induction "length name" arbitrary: name rule: less_induct)
  case less
  then obtain c where c: "category L name = Some c" by auto
  show ?case
  proof (cases "cat_priority c < 800")
    case True
    then show ?thesis using c by (simp add: getChainedPriority.simps)
  next
    case False
    then have "name \<noteq> []" using hierarchyD(1)[OF assms(1) c] by auto
    with less(1)[OF parentName_shorter] hierarchyD(2)[OF assms(1) c] False show ?thesis
      by (subst getChainedPriority.simps) (simp add: c)
  qed
qed

text \<open>The appenders an event of a category meets on its way to the root.\<close>

function appenders_above :: "logging \<Rightarrow> string \<Rightarrow> Appender list" where
  "appenders_above L name =
     (case category L name of
        None \<Rightarrow> []
      | Some c \<Rightarrow> cat_appenders c @
          (if cat_additive c \<and> name \<noteq> [] then appenders_above L (parentName name) else []))"
  by pat_completeness auto
termination
  by (relation "measure (\<lambda>(L, name). length name)") (auto simp: parentName_shorter)

declare appenders_above.simps [simp del]

definition append_all :: "LoggingEvent \<Rightarrow> Appender list \<Rightarrow> logging \<Rightarrow> logging" where
  "append_all ev as L =
     L\<lparr>written := written L @ map (\<lambda>a. (app_sink a, app_layout a (local_time L) ev)) (filter app_opened as)\<rparr>"

lemma fold_doAppend: "fold (doAppend ev) as L = append_all ev as L"
  by (induction as arbitrary: L) (simp_all add: append_all_def doAppend_def)

lemma append_all_simps [simp]:
  "category (append_all ev as L) m = category L m"
  "append_all ev bs (append_all ev as L) = append_all ev (as @ bs) L"
  by (simp_all add: append_all_def category_def)

lemma callAppenders_total:
  assumes "hierarchy L" "category L name \<noteq> None"
  shows "callAppenders ev name L = Some (append_all ev (appenders_above L name) L)"
proof -
  have "callAppenders ev name (append_all ev as L) = Some (append_all ev (as @ appenders_above L name) L)"
    if "category L name \<noteq> None" for as name
    using that
  proof (induction "length name" arbitrary: name as rule: less_induct)
    case less
    then obtain c where c: "category L name = Some c" by auto
    have P: "name \<noteq> [] \<Longrightarrow> cat_parent c = Some (parentName name)"
      "name = [] \<Longrightarrow> cat_parent c = None" "name \<noteq> [] \<Longrightarrow> category L (parentName name) \<noteq> None"
      using hierarchyD[OF assms(1) c] by auto
    show ?case
    proof (cases "cat_additive c \<and> name \<noteq> []")
      case True
      then have "callAppenders ev (parentName name) (append_all ev (as @ cat_appenders c) L)
          = Some (append_all ev ((as @ cat_appenders c) @ appenders_above L (parentName name)) L)"
        using less(1) parentName_shorter P(3) by blast
      then show ?thesis using True P
        by (subst callAppenders.simps, subst appenders_above.simps) (simp add: c fold_doAppend Let_def)
    next
      case False
      then show ?thesis using P
        by (subst callAppenders.simps, subst appenders_above.simps)
          (auto simp: c fold_doAppend Let_def)
    qed
  qed
  from this[OF assms(2), of "[]"] show ?thesis by (simp add: append_all_def)
qed

text \<open>
  Logging through a category that is there always comes back: the message is written by every
  appender above the category when the priority in force lets it pass, and nowhere otherwise.
\<close>

lemma cat_log_total:
  assumes "hierarchy L" "category L name \<noteq> None"
  obtains chained where "getChainedPriority L name = Some chained" "chained < 800"
    and "cat_log p name message L = Some
      (if priority_value p \<le> chained
       then append_all \<lparr>categoryName = name, event_message = message,
              event_ndc = thread_ndc L, event_priority = priority_value p\<rparr> (appenders_above L name) L
       else L)"
  using chained_priority_total[OF assms]
  by (auto simp: cat_log_def callAppenders_total[OF assms])

end
