(* ===== verification/SLog.thy ===== *)
theory SLog
imports Log4cpp
begin

unbundle bit_operations_syntax

text \<open>
  \<open>Log/SLog.{h,cpp}\<close> and \<open>Log/SLogLayout.{h,cpp}\<close>: the loggers the engines own and the lines
  they write. The build defines \<open>WIN32\<close>, so the parts for the system log are left out as the
  preprocessor leaves them out.
\<close>

section \<open>The layout\<close>

definition ESC :: char where
  "ESC = CHR 0x1B"

text \<open>The two loops that make the name of the category twelve characters wide.\<close>

function pad_to :: "nat \<Rightarrow> string \<Rightarrow> string" where
  "pad_to n s = (if length s < n then pad_to n (s @ '' '') else s)"
  by pat_completeness auto
termination
  by (relation "measure (\<lambda>(n, s). n - length s)") auto

declare pad_to.simps [simp del]

definition fit_name :: "string \<Rightarrow> string" where
  "fit_name name =
     (let catName = pad_to 12 name
      in if 12 < length catName then take 12 catName else catName)"

definition LogLayout_format :: "bool \<Rightarrow> string \<Rightarrow> LoggingEvent \<Rightarrow> string" where
  "LogLayout_format isConsole now ev =
     (let priorityName = getPriorityName (event_priority ev);
          catName = fit_name (categoryName ev);
          tail = priorityName @ '' '' @ event_ndc ev @ '': '' @ event_message ev
      in if isConsole then
           if priorityName = ''DEBUG'' then
             ESC # ''[44m'' @ ESC # ''[37m('' @ ESC # ''[33m'' @ catName @ ESC # ''[37m) '' @
             tail @ ESC # ''[0m'' @ [newline]
           else if priorityName = ''ERROR'' then
             ESC # ''[41m'' @ ESC # ''[37m('' @ ESC # ''[33m'' @ catName @ ESC # ''[37m) '' @
             tail @ ESC # ''[0m'' @ [newline]
           else
             ''('' @ ESC # ''[34m'' @ catName @ ESC # ''[0m) '' @ tail @ [newline]
         else now @ '' ('' @ categoryName ev @ '') '' @ tail @ [newline])"

lemma pad_to_eq: "pad_to n s = s @ replicate (n - length s) (CHR '' '')"
proof (induction n s rule: pad_to.induct)
  case (1 n s)
  show ?case
  proof (cases "length s < n")
    case True
    then have "n - length s = Suc (n - Suc (length s))" by simp
    then show ?thesis using 1 True by (subst pad_to.simps) simp
  qed (subst pad_to.simps, simp)
qed

lemma fit_name_eq: "fit_name name = take 12 (name @ replicate 12 (CHR '' ''))"
  by (auto simp: fit_name_def pad_to_eq Let_def)

text \<open>Whatever the name of the category, its column on the console is twelve characters
  wide: a short name is padded with blanks and a long one loses its end.\<close>

theorem fit_name_width:
  "length (fit_name name) = 12 \<and>
   take (min 12 (length name)) (fit_name name) = take 12 name \<and>
   set (drop (length name) (fit_name name)) \<subseteq> {CHR '' ''}"
proof (cases "12 \<le> length name")
  case True
  then show ?thesis by (simp add: fit_name_eq)
next
  case False
  then show ?thesis by (simp add: fit_name_eq)
qed

section \<open>The loggers\<close>

definition LOG_TO_FILE :: int where "LOG_TO_FILE = 0x8"
definition LOG_TO_CONSOLE :: int where "LOG_TO_CONSOLE = 0x4"
definition LOG_TO_ERROR_CONSOLE :: int where "LOG_TO_ERROR_CONSOLE = 0x2"
definition NO_LOG_TO_FILE :: int where "NO_LOG_TO_FILE = 0x7"
definition NO_LOG_TO_CONSOLE :: int where "NO_LOG_TO_CONSOLE = 0x11"
definition NO_LOG_TO_ERROR_CONSOLE :: int where "NO_LOG_TO_ERROR_CONSOLE = 0x13"
definition LOG_ALL :: int where "LOG_ALL = 0x15"
definition LOG_NOTHING :: int where "LOG_NOTHING = 0x0"

lemmas log_flags = LOG_TO_FILE_def LOG_TO_CONSOLE_def LOG_TO_ERROR_CONSOLE_def NO_LOG_TO_FILE_def
  NO_LOG_TO_CONSOLE_def NO_LOG_TO_ERROR_CONSOLE_def LOG_ALL_def LOG_NOTHING_def

record Log =
  mCategory :: string
  log_mPriority :: int
  log_mOutput :: int

definition log_at :: "PriorityLevel \<Rightarrow> Log \<Rightarrow> string \<Rightarrow> logging \<Rightarrow> logging" where
  "log_at p log message L = (case cat_log p (mCategory log) message L of None \<Rightarrow> L | Some L' \<Rightarrow> L')"

definition Log_Debug :: "Log \<Rightarrow> string \<Rightarrow> logging \<Rightarrow> logging" where
  "Log_Debug = log_at DEBUG"

definition Log_Info :: "Log \<Rightarrow> string \<Rightarrow> logging \<Rightarrow> logging" where
  "Log_Info = log_at INFO"

definition Log_Notice :: "Log \<Rightarrow> string \<Rightarrow> logging \<Rightarrow> logging" where
  "Log_Notice = log_at NOTICE"

definition Log_Warn :: "Log \<Rightarrow> string \<Rightarrow> logging \<Rightarrow> logging" where
  "Log_Warn = log_at WARN"

definition Log_Error :: "Log \<Rightarrow> string \<Rightarrow> logging \<Rightarrow> logging" where
  "Log_Error = log_at ERROR"

definition Log_Crit :: "Log \<Rightarrow> string \<Rightarrow> logging \<Rightarrow> logging" where
  "Log_Crit = log_at CRIT"

definition Log_Alert :: "Log \<Rightarrow> string \<Rightarrow> logging \<Rightarrow> logging" where
  "Log_Alert = log_at ALERT"

definition Log_Fatal :: "Log \<Rightarrow> string \<Rightarrow> logging \<Rightarrow> logging" where
  "Log_Fatal = log_at FATAL"

lemmas log_ops = Log_Debug_def Log_Info_def Log_Notice_def Log_Warn_def Log_Error_def Log_Crit_def
  Log_Alert_def Log_Fatal_def

definition log_filename :: "string \<Rightarrow> string \<Rightarrow> string" where
  "log_filename name file = ''./log/'' @ (if file = [] then name else file) @ ''.log''"

text \<open>The appenders the constructor adds, in its order.\<close>

definition Log_appenders :: "(string \<Rightarrow> bool) \<Rightarrow> string \<Rightarrow> int \<Rightarrow> string \<Rightarrow> Appender list" where
  "Log_appenders can_open name output file =
     (if output AND LOG_TO_FILE \<noteq> 0
      then [\<lparr>app_sink = SinkFile (log_filename name file),
             app_opened = can_open (log_filename name file),
             app_layout = LogLayout_format False\<rparr>] else []) @
     (if output AND LOG_TO_CONSOLE \<noteq> 0
      then [\<lparr>app_sink = SinkCout, app_opened = True, app_layout = LogLayout_format True\<rparr>] else []) @
     (if output AND LOG_TO_ERROR_CONSOLE \<noteq> 0
      then [\<lparr>app_sink = SinkCerr, app_opened = True, app_layout = LogLayout_format True\<rparr>] else [])"

definition Log_greetings :: "int \<Rightarrow> string list" where
  "Log_greetings output =
     (if output AND LOG_TO_FILE \<noteq> 0 then [''Logging to file''] else []) @
     (if output AND LOG_TO_CONSOLE \<noteq> 0 then [''Logging to cout''] else []) @
     (if output AND LOG_TO_ERROR_CONSOLE \<noteq> 0 then [''Logging to cerr''] else [])"

definition Log_of :: "string \<Rightarrow> int \<Rightarrow> int \<Rightarrow> Log" where
  "Log_of name priority output =
     \<lparr>mCategory = name, log_mPriority = priority, log_mOutput = output\<rparr>"

definition Log_new :: "string \<Rightarrow> int \<Rightarrow> int \<Rightarrow> string \<Rightarrow> logging act" where
  "Log_new name priority output file L =
     and_then (setPriority name priority)
       (\<lambda>L1. let L2 = fold (addAppender name) (Log_appenders (openable L1) name output file) L1
             in (None, fold (Log_Info (Log_of name priority output)) (Log_greetings output) L2))
       (getInstance name L)"

text \<open>The destructor shuts the whole of log4cpp down.\<close>

definition Log_delete :: "Log \<Rightarrow> logging \<Rightarrow> logging" where
  "Log_delete log L = log_shutdown L"

lemma hierarchy_append_all [simp]: "hierarchy (append_all ev as L) = hierarchy L"
  by (simp add: hierarchy_def)

lemma log_at_frame:
  "hierarchy L \<Longrightarrow> category (log_at p log m L) n = category L n \<and> hierarchy (log_at p log m L)"
proof (cases "category L (mCategory log)")
  case None
  assume "hierarchy L"
  have "getChainedPriority L (mCategory log) = None"
    by (subst getChainedPriority.simps) (simp add: None)
  then show ?thesis using \<open>hierarchy L\<close> by (simp add: log_at_def cat_log_def)
next
  case (Some c)
  assume h: "hierarchy L"
  have "category L (mCategory log) \<noteq> None" using Some by simp
  then obtain q ev as where "cat_log p (mCategory log) m L = Some (if q then append_all ev as L else L)"
    by (rule cat_log_total[OF h]) blast
  then show ?thesis using h by (simp add: log_at_def)
qed

lemma addAppenders_frame:
  "hierarchy L \<Longrightarrow> category L name = Some c \<Longrightarrow>
     hierarchy (fold (addAppender name) as L) \<and>
     category (fold (addAppender name) as L) name = Some (c\<lparr>cat_appenders := cat_appenders c @ as\<rparr>) \<and>
     (m \<noteq> name \<longrightarrow> category (fold (addAppender name) as L) m = category L m)"
proof (induction as arbitrary: L c)
  case (Cons a as)
  have "category (addAppender name a L) name = Some (c\<lparr>cat_appenders := cat_appenders c @ [a]\<rparr>)"
    "m \<noteq> name \<longrightarrow> category (addAppender name a L) m = category L m"
    using Cons.prems(2) by (simp_all add: addAppender_def)
  with Cons.IH[OF addAppender_hierarchy[OF Cons.prems(1)]] show ?case by simp
qed simp

lemma fold_info_frame:
  "hierarchy L \<Longrightarrow> hierarchy (fold (Log_Info log) ms L) \<and> category (fold (Log_Info log) ms L) n = category L n"
  by (induction ms arbitrary: L) (auto simp: log_at_frame Log_Info_def)

text \<open>What a constructor that returns has done to its category.\<close>

lemma Log_new_category:
  assumes "hierarchy L" "name \<noteq> []"
  defines "as \<equiv> (case category L name of None \<Rightarrow> [] | Some c \<Rightarrow> cat_appenders c)"
  shows "fst (Log_new name priority outs fname L) = None"
    and "hierarchy (snd (Log_new name priority outs fname L))"
    and "\<exists>c can_open. category (snd (Log_new name priority outs fname L)) name = Some c \<and>
       cat_priority c = priority \<and> cat_appenders c = as @ Log_appenders can_open name outs fname"
    and "category L m \<noteq> None \<Longrightarrow> category (snd (Log_new name priority outs fname L)) m \<noteq> None"
proof -
  let ?L = "getInstance name L"
  obtain c where c: "category ?L name = Some c" using getInstance_there[of name L] by auto
  have h: "hierarchy ?L" by (rule getInstance_hierarchy) fact
  have as: "cat_appenders c = as"
  proof (cases "category L name")
    case None
    then show ?thesis using c assms(2) unfolding as_def by (subst (asm) getInstance.simps) auto
  next
    case (Some c')
    then show ?thesis using c getInstance_keeps[of L name c' name] by (simp add: as_def)
  qed
  let ?c = "c\<lparr>cat_priority := priority\<rparr>" and ?L1 = "set_category name (c\<lparr>cat_priority := priority\<rparr>) ?L"
  have p: "cat_parent c \<noteq> None" using hierarchyD(2)[OF h c assms(2)] by simp
  then have sp: "setPriority name priority ?L = (None, ?L1)" by (simp add: setPriority_def c)
  have h1: "hierarchy ?L1" using setPriority_hierarchy[OF h, of name priority] sp by simp
  let ?as = "Log_appenders (openable ?L1) name outs fname"
  have c1: "category ?L1 name = Some ?c" by simp
  note f = addAppenders_frame[OF h1 c1, of ?as]
  have e: "Log_new name priority outs fname L = (None, fold (Log_Info (Log_of name priority outs))
      (Log_greetings outs) (fold (addAppender name) ?as ?L1))"
    by (simp add: Log_new_def sp Let_def)
  show "fst (Log_new name priority outs fname L) = None" by (simp add: e)
  show "hierarchy (snd (Log_new name priority outs fname L))"
    using f fold_info_frame by (simp add: e)
  show "\<exists>c can_open. category (snd (Log_new name priority outs fname L)) name = Some c \<and>
       cat_priority c = priority \<and> cat_appenders c = as @ Log_appenders can_open name outs fname"
    using f fold_info_frame[of _ _ _ name] as by (auto simp: e)
  show "category (snd (Log_new name priority outs fname L)) m \<noteq> None" if "category L m \<noteq> None"
  proof -
    have "category ?L1 m \<noteq> None" using that getInstance_keeps[of L m _ name] by auto
    then have "category (fold (addAppender name) ?as ?L1) m \<noteq> None" using f[of m] by (cases "m = name") auto
    then show ?thesis using f fold_info_frame[of _ _ _ m] by (auto simp: e)
  qed
qed

section \<open>What the loggers write\<close>

lemma chained_own: "category L name = Some c \<Longrightarrow> cat_priority c < 800 \<Longrightarrow>
    getChainedPriority L name = Some (cat_priority c)"
  by (subst getChainedPriority.simps) simp

lemma log_at_silent:
  assumes "category L (mCategory log) = Some c" "cat_priority c < priority_value p"
    "cat_priority c < 800"
  shows "log_at p log m L = L"
  using chained_own[OF assms(1,3)] assms(2) by (simp add: log_at_def cat_log_def)

text \<open>The default arguments of \<open>Game::GetInstance\<close> give the outputs as the priority and a
  priority as the outputs. A logger made with them writes no message below the fatal
  level, its own greeting included, wherever it is meant to go.\<close>

theorem default_arguments_silent:
  assumes "hierarchy L" "name \<noteq> []" "p \<noteq> FATAL"
    and "r = Log_new name (LOG_TO_FILE OR LOG_TO_CONSOLE) (priority_value INFO) file L"
  shows "fst r = None \<and>
    log_at p (Log_of name (LOG_TO_FILE OR LOG_TO_CONSOLE) (priority_value INFO)) message (snd r) = snd r"
proof -
  note new = Log_new_category[OF assms(1,2), where priority = "LOG_TO_FILE OR LOG_TO_CONSOLE"
      and outs = "priority_value INFO" and fname = "file"]
  obtain c where "category (snd r) name = Some c" "cat_priority c = 12"
    using new(3) by (auto simp: assms(4) log_flags)
  moreover have "12 < priority_value p" using assms(3) by (cases p) simp_all
  ultimately show ?thesis using new(1)
    by (auto simp: Log_of_def assms(4) intro!: log_at_silent)
qed

definition no_logging :: logging where
  "no_logging = \<lparr>categoryMap = [], written = [], openable = (\<lambda>_. True), local_time = ''now'', thread_ndc = []\<rparr>"

lemma hierarchy_no_logging [simp]: "hierarchy no_logging"
  by (simp add: hierarchy_def category_def no_logging_def)

theorem default_arguments_silent_witness:
  "let r = Log_new ''Server'' (LOG_TO_FILE OR LOG_TO_CONSOLE) (priority_value INFO) [] no_logging
   in fst r = None \<and>
      log_at ERROR (Log_of ''Server'' (LOG_TO_FILE OR LOG_TO_CONSOLE) (priority_value INFO))
        ''Cannot start network'' (snd r) = snd r"
  unfolding Let_def
  by (rule default_arguments_silent[OF _ _ _ refl]) simp_all

text \<open>Destroying one logger silences them all: after \<open>~Log\<close>, no logger of the server writes
  anything any more, at any level.\<close>

theorem Log_delete_silences_all:
  assumes "hierarchy L" "category L (mCategory other) \<noteq> None"
  shows "written (log_at p other message (Log_delete log L)) = written L"
proof -
  let ?L = "Log_delete log L"
  have h: "hierarchy ?L" using assms(1) by (simp add: Log_delete_def shutdown_hierarchy)
  have there: "category ?L (mCategory other) \<noteq> None"
    using assms(2) by (simp add: Log_delete_def category_shutdown)
  have none: "appenders_above ?L name = []" for name
  proof (induction "length name" arbitrary: name rule: less_induct)
    case less
    then show ?case using parentName_shorter
      by (subst appenders_above.simps)
        (auto simp: Log_delete_def category_shutdown removeAllAppenders_def split: option.split)
  qed
  have w: "written ?L = written L" by (simp add: Log_delete_def log_shutdown_def)
  obtain q ev where "cat_log p (mCategory other) message ?L
      = Some (if q then append_all ev (appenders_above ?L (mCategory other)) ?L else ?L)"
    by (rule cat_log_total[OF h there]) blast
  then have "log_at p other message ?L = (if q then append_all ev [] ?L else ?L)"
    by (simp add: log_at_def none)
  then show ?thesis using w by (simp add: append_all_def)
qed

theorem Log_delete_silences_all_witness:
  "let L = snd (Log_new ''Database'' 700 LOG_TO_CONSOLE [] (snd (Log_new ''Network'' 700 LOG_TO_CONSOLE [] no_logging)))
   in written (log_at FATAL (Log_of ''Network'' 700 LOG_TO_CONSOLE) ''down''
        (Log_delete (Log_of ''Database'' 700 LOG_TO_CONSOLE) L)) = written L"
proof -
  let ?L1 = "snd (Log_new ''Network'' 700 LOG_TO_CONSOLE [] no_logging)"
  let ?L = "snd (Log_new ''Database'' 700 LOG_TO_CONSOLE [] ?L1)"
  have 1: "hierarchy ?L1" by (rule Log_new_category) simp_all
  then have "hierarchy ?L" by (rule Log_new_category) simp
  moreover have "category ?L1 ''Network'' \<noteq> None"
    using Log_new_category(3)[of no_logging "''Network''" 700 LOG_TO_CONSOLE "[]"] by auto
  then have "category ?L ''Network'' \<noteq> None" using 1 by (rule Log_new_category(4)[rotated 2]) simp_all
  ultimately show ?thesis unfolding Let_def
    by (intro Log_delete_silences_all) (simp_all add: Log_of_def)
qed

end
