(* ===== verification/SEngine.thy ===== *)
theory SEngine
imports SEngineEvent
begin

text \<open>
  \<open>Engine/SEngine.{h,cpp}\<close>: what the network, data base and schedule engines share. Each has a
  queue of events and pointers to the others; events are pushed on a queue and taken from it
  by the loop of \<open>ProcessQueue\<close>, which calls the handler the table names.
\<close>

section \<open>Engines and their links\<close>

text \<open>
  A pointer to an engine is \<open>None\<close> when null. No engine for the environment exists: its pointer
  is never attached.
\<close>

datatype engine_ref = NetRef | DataBaseRef | ScheduleRef

record Engine =
  mEventsQueue :: "EngineEvent list"
  mNetEngine :: "engine_ref option"
  mDataBaseEngine :: "engine_ref option"
  mEnvironmentEngine :: "engine_ref option"
  mScheduleEngine :: "engine_ref option"

definition Engine_new :: Engine where
  "Engine_new = \<lparr>mEventsQueue = [], mNetEngine = None, mDataBaseEngine = None,
     mEnvironmentEngine = None, mScheduleEngine = None\<rparr>"

record bus =
  engines :: "engine_ref \<Rightarrow> Engine"

definition set_engine :: "engine_ref \<Rightarrow> Engine \<Rightarrow> 'a bus_scheme \<Rightarrow> 'a bus_scheme" where
  "set_engine r g s = s\<lparr>engines := (engines s)(r := g)\<rparr>"

definition AttachNetEngine :: "engine_ref \<Rightarrow> Engine \<Rightarrow> Engine" where
  "AttachNetEngine r g = g\<lparr>mNetEngine := Some r\<rparr>"

definition AttachDataBaseEngine :: "engine_ref \<Rightarrow> Engine \<Rightarrow> Engine" where
  "AttachDataBaseEngine r g = g\<lparr>mDataBaseEngine := Some r\<rparr>"

definition AttachEnvironmentEngine :: "engine_ref \<Rightarrow> Engine \<Rightarrow> Engine" where
  "AttachEnvironmentEngine r g = g\<lparr>mEnvironmentEngine := Some r\<rparr>"

definition AttachScheduleEngine :: "engine_ref \<Rightarrow> Engine \<Rightarrow> Engine" where
  "AttachScheduleEngine r g = g\<lparr>mScheduleEngine := Some r\<rparr>"

definition events :: "'a bus_scheme \<Rightarrow> engine_ref \<Rightarrow> EngineEvent list" where
  "events s r = mEventsQueue (engines s r)"

definition set_events :: "engine_ref \<Rightarrow> EngineEvent list \<Rightarrow> 'a bus_scheme \<Rightarrow> 'a bus_scheme" where
  "set_events r q s = set_engine r ((engines s r)\<lparr>mEventsQueue := q\<rparr>) s"

definition PushEvent :: "engine_ref \<Rightarrow> EngineEvent \<Rightarrow> 'a bus_scheme \<Rightarrow> 'a bus_scheme" where
  "PushEvent r ent s = set_events r (events s r @ [ent]) s"

definition push_to :: "engine_ref option \<Rightarrow> EngineEvent \<Rightarrow> 'a bus_scheme act" where
  "push_to r ent s =
     (case r of
        None \<Rightarrow> fail_with (Undefined ''null engine'') s
      | Some q \<Rightarrow> done_with (PushEvent q ent s))"

definition SendMessageToNetwork :: "engine_ref \<Rightarrow> EngineEvent \<Rightarrow> 'a bus_scheme act" where
  "SendMessageToNetwork this ent s = push_to (mNetEngine (engines s this)) ent s"

definition SendMessageToDataBase :: "engine_ref \<Rightarrow> EngineEvent \<Rightarrow> 'a bus_scheme act" where
  "SendMessageToDataBase this ent s = push_to (mDataBaseEngine (engines s this)) ent s"

definition SendMessageToEnvironment :: "engine_ref \<Rightarrow> EngineEvent \<Rightarrow> 'a bus_scheme act" where
  "SendMessageToEnvironment this ent s = push_to (mEnvironmentEngine (engines s this)) ent s"

definition SendMessageToSchedule :: "engine_ref \<Rightarrow> EngineEvent \<Rightarrow> 'a bus_scheme act" where
  "SendMessageToSchedule this ent s = push_to (mScheduleEngine (engines s this)) ent s"

text \<open>The links as \<open>Game::Game\<close> leaves them.\<close>

definition linked :: "'a bus_scheme \<Rightarrow> bool" where
  "linked s \<longleftrightarrow>
     mDataBaseEngine (engines s NetRef) = Some DataBaseRef \<and>
     mScheduleEngine (engines s NetRef) = Some ScheduleRef \<and>
     mNetEngine (engines s DataBaseRef) = Some NetRef \<and>
     mScheduleEngine (engines s DataBaseRef) = Some ScheduleRef \<and>
     mNetEngine (engines s ScheduleRef) = Some NetRef \<and>
     mDataBaseEngine (engines s ScheduleRef) = Some DataBaseRef"

text \<open>The attachments of \<open>Game::Game\<close>.\<close>

definition link_engines :: "'a bus_scheme \<Rightarrow> 'a bus_scheme" where
  "link_engines s = s\<lparr>engines := (\<lambda>r. case r of
       NetRef \<Rightarrow> AttachScheduleEngine ScheduleRef (AttachDataBaseEngine DataBaseRef (engines s NetRef))
     | DataBaseRef \<Rightarrow> AttachScheduleEngine ScheduleRef (AttachNetEngine NetRef (engines s DataBaseRef))
     | ScheduleRef \<Rightarrow> AttachDataBaseEngine DataBaseRef (AttachNetEngine NetRef (engines s ScheduleRef)))\<rparr>"

lemmas attach_defs = AttachNetEngine_def AttachDataBaseEngine_def AttachEnvironmentEngine_def
  AttachScheduleEngine_def

lemma linked_link_engines [simp]: "linked (link_engines s)"
  by (simp add: linked_def link_engines_def attach_defs)

lemma events_link_engines [simp]: "events (link_engines s) r = events s r"
  by (cases r) (simp_all add: events_def link_engines_def attach_defs)

lemma events_set_events [simp]:
  "events (set_events r q s) r' = (if r' = r then q else events s r')"
  by (simp add: events_def set_events_def set_engine_def)

lemma events_PushEvent [simp]:
  "events (PushEvent r ent s) r' = (if r' = r then events s r @ [ent] else events s r')"
  by (simp add: PushEvent_def)

lemma set_events_again [simp]: "set_events r q (set_events r q' s) = set_events r q s"
  by (cases s) (auto simp: set_events_def set_engine_def)

lemma set_events_same [simp]: "set_events r (events s r) s = s"
  by (simp add: set_events_def set_engine_def events_def)

lemma linked_simps [simp]:
  "linked (set_events r q s) = linked s"
  "linked (PushEvent r ent s) = linked s"
  by (auto simp: linked_def set_events_def set_engine_def PushEvent_def)

lemma send_linked [simp]:
  "linked s \<Longrightarrow> SendMessageToDataBase NetRef ent s = (None, PushEvent DataBaseRef ent s)"
  "linked s \<Longrightarrow> SendMessageToNetwork DataBaseRef ent s = (None, PushEvent NetRef ent s)"
  "linked s \<Longrightarrow> SendMessageToSchedule NetRef ent s = (None, PushEvent ScheduleRef ent s)"
  "linked s \<Longrightarrow> SendMessageToSchedule DataBaseRef ent s = (None, PushEvent ScheduleRef ent s)"
  by (simp_all add: SendMessageToDataBase_def SendMessageToNetwork_def SendMessageToSchedule_def
      push_to_def linked_def)

section \<open>The table of handlers\<close>

text \<open>The virtual methods a table can name, \<open>Process\<close> left out of their names.\<close>

datatype slot =
    vMsgNick | vCharactersList | vGameProp | vWelcome | vRefused | vNewPlayer | vRunMulti |
    vSendGameProp | vDelPlayer | vLoad | vAddNode | vRemNode | vMoveNode | vRemoveMachine |
    vRemoveConsole | vPlayerPos | vNpcPos | vCreateCharacter | vDeleteCharacter | vItemProp |
    vChatEvent | vPing | vTargetChanged | vPlayerProp | vNpcProp | vConsoleCommand |
    vEnvironmentInfo | vPlaySound | vAuth

definition ProcessEvent_tab :: "(EEType \<times> slot) list" where
  "ProcessEvent_tab =
     [(MSG_NICK, vMsgNick), (CHARACTERS_LIST, vCharactersList), (GAME_PROP, vGameProp),
      (WELCOME, vWelcome), (REFUSED, vRefused), (NEW_PLAYER, vNewPlayer), (RUN_MULTI, vRunMulti),
      (SEND_GAME_PROP, vSendGameProp), (DEL_PLAYER, vDelPlayer), (LOAD, vLoad),
      (ADD_NODE, vAddNode), (REM_NODE, vRemNode), (MOVE_NODE, vMoveNode),
      (REMOVE_MACHINE, vRemoveMachine), (REMOVE_CONSOLE, vRemoveConsole),
      (PLAYER_POS, vPlayerPos), (NPC_POS, vNpcPos), (CREATE_CHARACTER, vCreateCharacter),
      (DELETE_CHARACTER, vDeleteCharacter), (ITEM_PROP, vItemProp), (CHAT_EVENT, vChatEvent),
      (PING, vPing), (TARGET_CHANGED, vTargetChanged), (PLAYER_PROP, vPlayerProp),
      (NPC_PROP, vNpcProp), (CONSOLE_COMMAND, vConsoleCommand),
      (ENVIRONMENT_INFO, vEnvironmentInfo), (PLAY_SOUND, vPlaySound), (AUTH, vAuth)]"

text \<open>
  \<open>(this->*tab[ent.mType].f)(ent)\<close>: the table is indexed by the number of the type, whatever
  the types written in it; outside of the table there is no meaning.
\<close>

definition dispatch :: "(EEType \<times> 'h) list \<Rightarrow> ('h \<Rightarrow> EngineEvent \<Rightarrow> 's act) \<Rightarrow> EngineEvent \<Rightarrow> 's act" where
  "dispatch tab f ent s =
     (let n = EEType_value (mType ent)
      in if 0 \<le> n \<and> n < int (length tab) then f (snd (tab ! nat n)) ent s
         else fail_with (Undefined ''tab[ent.mType]'') s)"

definition ProcessEvent :: "(slot \<Rightarrow> EngineEvent \<Rightarrow> 's act) \<Rightarrow> EngineEvent \<Rightarrow> 's act" where
  "ProcessEvent = dispatch ProcessEvent_tab"

text \<open>The method each type is meant for.\<close>

fun slot_of :: "EEType \<Rightarrow> slot option" where
  "slot_of MSG_NICK = Some vMsgNick"
| "slot_of CHARACTERS_LIST = Some vCharactersList"
| "slot_of GAME_PROP = Some vGameProp"
| "slot_of WELCOME = Some vWelcome"
| "slot_of REFUSED = Some vRefused"
| "slot_of NEW_PLAYER = Some vNewPlayer"
| "slot_of RUN_MULTI = Some vRunMulti"
| "slot_of SEND_GAME_PROP = Some vSendGameProp"
| "slot_of DEL_PLAYER = Some vDelPlayer"
| "slot_of LOAD = Some vLoad"
| "slot_of ADD_NODE = Some vAddNode"
| "slot_of REM_NODE = Some vRemNode"
| "slot_of MOVE_NODE = Some vMoveNode"
| "slot_of REMOVE_MACHINE = Some vRemoveMachine"
| "slot_of REMOVE_CONSOLE = Some vRemoveConsole"
| "slot_of PLAYER_POS = Some vPlayerPos"
| "slot_of NPC_POS = Some vNpcPos"
| "slot_of CREATE_CHARACTER = Some vCreateCharacter"
| "slot_of DELETE_CHARACTER = Some vDeleteCharacter"
| "slot_of ITEM_PROP = Some vItemProp"
| "slot_of CHAT_EVENT = Some vChatEvent"
| "slot_of PING = Some vPing"
| "slot_of TARGET_CHANGED = Some vTargetChanged"
| "slot_of PLAYER_PROP = Some vPlayerProp"
| "slot_of NPC_PROP = Some vNpcProp"
| "slot_of CONSOLE_COMMAND = Some vConsoleCommand"
| "slot_of ENVIRONMENT_INFO = Some vEnvironmentInfo"
| "slot_of PLAY_SOUND = Some vPlaySound"
| "slot_of AUTH = Some vAuth"
| "slot_of (OtherType n) = None"

text \<open>The table of \<open>Engine::ProcessEvent\<close> is in the order of the enumeration: every type of
  an event that names one reaches the method of its own name, and any other number indexes
  the table out of bounds.\<close>

theorem ProcessEvent_dispatch:
  "ProcessEvent f ent s =
     (case slot_of (mType ent) of
        Some m \<Rightarrow> f m ent s
      | None \<Rightarrow>
          let n = EEType_value (mType ent)
          in if 0 \<le> n \<and> n < 29 then f (snd (ProcessEvent_tab ! nat n)) ent s
             else (Some (Undefined ''tab[ent.mType]''), s))"
  by (cases "mType ent")
    (simp_all add: ProcessEvent_def dispatch_def ProcessEvent_tab_def nth_Cons' Let_def)

lemma ProcessEvent_slot: "slot_of (mType ent) = Some m \<Longrightarrow> ProcessEvent f ent s = f m ent s"
  by (cases "mType ent")
    (simp_all add: ProcessEvent_def dispatch_def ProcessEvent_tab_def nth_Cons' Let_def)

lemma ProcessEvent_cases:
  obtains (handled) v where "ProcessEvent f ent = f v ent"
    | (outside) "ProcessEvent f ent = fail_with (Undefined ''tab[ent.mType]'')"
proof (cases "0 \<le> EEType_value (mType ent) \<and> EEType_value (mType ent) < int (length ProcessEvent_tab)")
  case True
  then have "ProcessEvent f ent = f (snd (ProcessEvent_tab ! nat (EEType_value (mType ent)))) ent"
    by (intro ext) (simp add: ProcessEvent_def dispatch_def Let_def)
  then show ?thesis by (rule handled)
next
  case False
  then have "ProcessEvent f ent = fail_with (Undefined ''tab[ent.mType]'')"
    by (intro ext) (auto simp: ProcessEvent_def dispatch_def Let_def)
  then show ?thesis by (rule outside)
qed

section \<open>The loop over a queue\<close>

partial_function (option) drain ::
  "('s \<Rightarrow> 'e list) \<Rightarrow> ('e list \<Rightarrow> 's \<Rightarrow> 's) \<Rightarrow> ('e \<Rightarrow> 's act) \<Rightarrow> 's \<Rightarrow> (fault option \<times> 's) option"
where
  "drain queue set_queue handle s =
     (case queue s of
        [] \<Rightarrow> Some (None, s)
      | ent # rest \<Rightarrow>
          (case handle ent (set_queue rest s) of
             (None, s') \<Rightarrow> drain queue set_queue handle s'
           | (Some f, s') \<Rightarrow> Some (Some f, s')))"

text \<open>\<open>Engine::ProcessQueue\<close> of the engine \<open>this\<close>, whose methods are \<open>f\<close>.\<close>

definition ProcessQueue ::
  "(slot \<Rightarrow> EngineEvent \<Rightarrow> 'a bus_scheme act) \<Rightarrow> engine_ref \<Rightarrow> 'a bus_scheme
     \<Rightarrow> (fault option \<times> 'a bus_scheme) option" where
  "ProcessQueue f this = drain (\<lambda>s. events s this) (set_events this) (ProcessEvent f)"

text \<open>
  The events of a list handled one after the other, each with the rest of the list as the
  queue, until one fails.
\<close>

fun run_events :: "('e list \<Rightarrow> 's \<Rightarrow> 's) \<Rightarrow> ('e \<Rightarrow> 's act) \<Rightarrow> 'e list \<Rightarrow> 's act" where
  "run_events set_queue handle [] s = (None, s)"
| "run_events set_queue handle (ent # rest) s =
     (case handle ent (set_queue rest s) of
        (None, s') \<Rightarrow> run_events set_queue handle rest s'
      | (Some f, s') \<Rightarrow> (Some f, s'))"

text \<open>
  The same loop while other threads work on the same state: \<open>arrive k\<close> is what they have done by the \<open>k\<close>-th look at the
  queue, such as events pushed while the mutex was free. The looks are counted through.
\<close>

partial_function (option) drain_shared ::
  "(nat \<Rightarrow> 's \<Rightarrow> 's) \<Rightarrow> ('s \<Rightarrow> 'e list) \<Rightarrow> ('e list \<Rightarrow> 's \<Rightarrow> 's) \<Rightarrow> ('e \<Rightarrow> 's act) \<Rightarrow> nat \<Rightarrow> 's
     \<Rightarrow> (fault option \<times> nat \<times> 's) option"
where
  "drain_shared arrive queue set_queue handle k s =
     (case queue (arrive k s) of
        [] \<Rightarrow> Some (None, k + 1, arrive k s)
      | ent # rest \<Rightarrow>
          (case handle ent (set_queue rest (arrive k s)) of
             (None, s') \<Rightarrow> drain_shared arrive queue set_queue handle (k + 1) s'
           | (Some f, s') \<Rightarrow> Some (Some f, k + 1, s')))"

text \<open>
  What a loop relies on: an invariant that the handler of the first event keeps, on a state from whose queue the
  event was taken, and a handler that pushes nothing on the queue it is run from. Then the loop comes back, every
  event was handled once and in order, and when it was not stopped the queue is empty. Other threads may push events
  meanwhile, as long as they stop some time.
\<close>

locale event_loop =
  fixes queue :: "'s \<Rightarrow> 'e list"
    and set_queue :: "'e list \<Rightarrow> 's \<Rightarrow> 's"
    and handle :: "'e \<Rightarrow> 's act"
    and inv :: "'s \<Rightarrow> bool"
  assumes inv_handle: "inv s \<Longrightarrow> queue s = e # q \<Longrightarrow> inv (snd (handle e (set_queue q s)))"
    and queue_handle: "inv s \<Longrightarrow> queue s = e # q \<Longrightarrow> queue (snd (handle e (set_queue q s))) = q"
begin

lemma drain_run: "inv s \<Longrightarrow> drain queue set_queue handle s = Some (run_events set_queue handle (queue s) s)"
proof (induction "queue s" arbitrary: s)
  case Nil
  then show ?case by (subst drain.simps) (simp add: Nil(1)[symmetric])
next
  case (Cons e q)
  obtain r s' where h: "handle e (set_queue q s) = (r, s')" by (cases "handle e (set_queue q s)")
  have "inv s'" "queue s' = q"
    using inv_handle[OF Cons.prems Cons.hyps(2)[symmetric]] queue_handle[OF Cons.prems Cons.hyps(2)[symmetric]] h by simp_all
  then show ?case
    using Cons.hyps(1)[of s'] by (subst drain.simps) (simp add: Cons.hyps(2)[symmetric] h split: option.split)
qed

lemma run_inv: "inv s \<Longrightarrow> queue s = q \<Longrightarrow> inv (snd (run_events set_queue handle q s))"
proof (induction q arbitrary: s)
  case (Cons e q)
  then show ?case using Cons.IH inv_handle[OF Cons.prems] queue_handle[OF Cons.prems]
    by (auto split: prod.split option.split)
qed simp

lemma run_empty:
  "inv s \<Longrightarrow> queue s = q \<Longrightarrow> fst (run_events set_queue handle q s) = None \<Longrightarrow>
     queue (snd (run_events set_queue handle q s)) = []"
proof (induction q arbitrary: s)
  case (Cons e q)
  then show ?case using Cons.IH inv_handle[OF Cons.prems(1,2)] queue_handle[OF Cons.prems(1,2)]
    by (auto split: prod.splits option.splits)
qed simp

text \<open>A queue that was cut by a failure still holds the events after the one that failed.\<close>

lemma run_rest:
  "inv s \<Longrightarrow> queue s = q \<Longrightarrow> fst (run_events set_queue handle q s) = Some f \<Longrightarrow>
     \<exists>pre e rest. q = pre @ e # rest \<and> queue (snd (run_events set_queue handle q s)) = rest"
proof (induction q arbitrary: s)
  case (Cons e q)
  obtain r s' where h: "handle e (set_queue q s) = (r, s')" by (cases "handle e (set_queue q s)")
  have i': "inv s'" "queue s' = q"
    using inv_handle[OF Cons.prems(1,2)] queue_handle[OF Cons.prems(1,2)] h by simp_all
  show ?case
  proof (cases r)
    case None
    then obtain pre e' rest where "q = pre @ e' # rest"
      "queue (snd (run_events set_queue handle q s')) = rest"
      using Cons.IH[OF i'] Cons.prems(3) h by auto
    then have "e # q = (e # pre) @ e' # rest \<and> queue (snd (run_events set_queue handle (e # q) s)) = rest"
      using None h by simp
    then show ?thesis by blast
  next
    case (Some f')
    then have "e # q = [] @ e # q \<and> queue (snd (run_events set_queue handle (e # q) s)) = q"
      using h i' by simp
    then show ?thesis by blast
  qed
qed simp

lemma loop_returns:
  assumes "inv s"
  shows "\<exists>r s'. drain queue set_queue handle s = Some (r, s') \<and> inv s' \<and>
     (case r of None \<Rightarrow> queue s' = []
      | Some f \<Rightarrow> \<exists>pre e. queue s = pre @ e # queue s')"
  using drain_run[OF assms] run_inv[OF assms refl] run_empty[OF assms refl] run_rest[OF assms refl]
  by (cases "run_events set_queue handle (queue s) s") (auto split: option.split)

text \<open>While others push until the \<open>n\<close>-th look, the loop goes on, and no longer than it takes to handle what came by then.\<close>

lemma shared_returns:
  assumes "inv s" and arrive: "\<And>k s. inv s \<Longrightarrow> inv (arrive k s)"
    and no_more: "\<And>k s. inv s \<Longrightarrow> n \<le> k \<Longrightarrow> queue (arrive k s) = queue s"
  shows "\<exists>r j s'. drain_shared arrive queue set_queue handle k s = Some (r, j, s') \<and> inv s' \<and> k < j \<and> (r = None \<longrightarrow> queue s' = [])"
  using assms(1)
proof (induction "(n - k, length (queue s))" arbitrary: k s rule: wf_induct_rule[OF wf_lex_prod[OF wf_less wf_less]])
  case (1 k s)
  let ?s = "arrive k s"
  have i: "inv ?s" by (rule arrive[OF 1(2)])
  show ?case
  proof (cases "queue ?s")
    case Nil
    then show ?thesis using i by (subst drain_shared.simps) simp
  next
    case (Cons e q)
    obtain r s' where h: "handle e (set_queue q ?s) = (r, s')" by (cases "handle e (set_queue q ?s)")
    have s': "inv s'" "queue s' = q" using inv_handle[OF i Cons] queue_handle[OF i Cons] h by simp_all
    show ?thesis
    proof (cases r)
      case None
      have "n - (k + 1) < n - k \<or> n - (k + 1) = n - k \<and> length (queue s') < length (queue s)"
      proof (cases "n \<le> k")
        case True
        then have "queue s = e # queue s'" using no_more[OF 1(2), of k] Cons s'(2) by simp
        then have "length (queue s') < length (queue s)" by simp
        then show ?thesis using True by simp
      next
        case False
        then have "n - (k + 1) < n - k" by arith
        then show ?thesis by blast
      qed
      then have "((n - (k + 1), length (queue s')), (n - k, length (queue s))) \<in> {(x, y). x < y} <*lex*> {(x, y). x < y}"
        by auto
      from 1(1)[OF this s'(1)] obtain r' j s'' where
        "drain_shared arrive queue set_queue handle (k + 1) s' = Some (r', j, s'')" "inv s''" "k + 1 < j" "r' = None \<longrightarrow> queue s'' = []"
        by blast
      then show ?thesis using None h Cons by (subst drain_shared.simps) auto
    next
      case (Some f)
      then show ?thesis using h Cons s'(1) by (subst drain_shared.simps) simp
    qed
  qed
qed

end

end
