(* ===== verification/NetState.thy ===== *)
theory NetState
imports SEngine SCharacter
begin

text \<open>
  The state of the network side, as the members of \<open>NetEngine\<close>, \<open>NetMachine\<close>, \<open>NetConsole\<close>,
  \<open>NetworkAuth\<close> and \<open>TcpSocket\<close> declare it (\<open>Engine/SNetEngine.h\<close>, \<open>SNetMachine.h\<close>,
  \<open>SNetConsole.h\<close>, \<open>STcpSocket.h\<close>, \<open>SNetDevice.h\<close>). Objects made with \<open>new\<close> live in stores
  indexed by their address, a number below the next free one; vectors of pointers are lists
  of addresses. The members of a socket that start with \<open>net_\<close> are the other end and the
  operating system: whether there is a peer, what a write takes, whether a receive can start.
\<close>

section \<open>Sockets and devices\<close>

datatype device = DevEngine | DevMachine nat | DevConsole nat

record TcpSocket =
  so_mParent :: device
  so_mSocket :: bool
  so_is_open :: bool
  so_receives :: nat
  so_sent :: "string list"
  net_peer :: "string option"
  net_takes :: "nat option"
  net_receive_throws :: bool

record NetMachine =
  nm_mTcpSocket :: "nat option"
  nm_mID :: int
  nm_mAcctID :: int
  nm_mAcctName :: string
  nm_mAddress :: string
  nm_mMoveCpt :: int
  nm_mDeleting :: bool
  nm_mPlayer :: "Player option"

record NetConsole =
  nc_mTcpSocket :: "nat option"
  nc_mID :: int
  nc_mAddress :: string

record NetworkAuth =
  auth_mAcctName :: string
  auth_mAcctId :: int
  auth_mSocket :: nat

text \<open>A pointer member: never assigned, null, or the address of an object.\<close>

datatype pointer = Unset | Null | At nat

section \<open>The engine\<close>

text \<open>
  \<open>auth_id\<close> is the static counter of \<open>ServerThreadTCPReceive\<close>; \<open>accepts\<close> and \<open>threads\<close> are the
  pending accepts and the threads started for accepted sockets, players first and consoles
  second; \<open>archive_text\<close> is boost's text archive, which turns items into characters.
\<close>

record NetEngine = bus +
  sockets :: "nat \<Rightarrow> TcpSocket"
  next_socket :: nat
  machines :: "nat \<Rightarrow> NetMachine"
  next_machine :: nat
  consoles :: "nat \<Rightarrow> NetConsole"
  next_console :: nat
  mMachines :: "nat list"
  mConsoles :: "nat list"
  mReceivedEvents :: "EngineEvent list"
  mNextMachineID :: int
  mNextConsoleID :: int
  mAuth :: "(32 word, NetworkAuth) stdmap"
  auth_id :: "32 word"
  mIsRunning :: bool
  mTcpSocket :: pointer
  mTcpSocketCons :: pointer
  mTcpAcceptor :: pointer
  mTcpAcceptorCons :: pointer
  mPortTcpServerConnection :: int
  mPortTcpServerCons :: int
  accepts :: "nat list"
  accepts_cons :: "nat list"
  threads :: "nat list"
  threads_cons :: "nat list"
  archive_text :: "item list \<Rightarrow> string"

definition set_socket :: "nat \<Rightarrow> TcpSocket \<Rightarrow> NetEngine \<Rightarrow> NetEngine" where
  "set_socket so k s = s\<lparr>sockets := (sockets s)(so := k)\<rparr>"

definition set_machine :: "nat \<Rightarrow> NetMachine \<Rightarrow> NetEngine \<Rightarrow> NetEngine" where
  "set_machine m k s = s\<lparr>machines := (machines s)(m := k)\<rparr>"

definition set_console :: "nat \<Rightarrow> NetConsole \<Rightarrow> NetEngine \<Rightarrow> NetEngine" where
  "set_console c k s = s\<lparr>consoles := (consoles s)(c := k)\<rparr>"

text \<open>
  An engine none of whose members points anywhere, with the archive of the library: what the
  constructor starts from.
\<close>

definition net_memory :: "(item list \<Rightarrow> string) \<Rightarrow> NetEngine" where
  "net_memory text =
     \<lparr>engines = (\<lambda>_. Engine_new),
      sockets = (\<lambda>_. \<lparr>so_mParent = DevEngine, so_mSocket = False, so_is_open = False, so_receives = 0,
                   so_sent = [], net_peer = None, net_takes = None, net_receive_throws = False\<rparr>),
      next_socket = 0,
      machines = (\<lambda>_. \<lparr>nm_mTcpSocket = None, nm_mID = 0, nm_mAcctID = 0, nm_mAcctName = [],
                    nm_mAddress = [], nm_mMoveCpt = 0, nm_mDeleting = False, nm_mPlayer = None\<rparr>),
      next_machine = 0,
      consoles = (\<lambda>_. \<lparr>nc_mTcpSocket = None, nc_mID = 0, nc_mAddress = []\<rparr>),
      next_console = 0,
      mMachines = [], mConsoles = [], mReceivedEvents = [], mNextMachineID = 0, mNextConsoleID = 0,
      mAuth = [], auth_id = 0, mIsRunning = True, mTcpSocket = Unset, mTcpSocketCons = Unset,
      mTcpAcceptor = Unset, mTcpAcceptorCons = Unset, mPortTcpServerConnection = 0,
      mPortTcpServerCons = 0, accepts = [], accepts_cons = [], threads = [], threads_cons = [],
      archive_text = text\<rparr>"

section \<open>Frame rules\<close>

lemma set_socket_frame [simp]:
  "engines (set_socket so k s) = engines s"
  "sockets (set_socket so k s) = (sockets s)(so := k)"
  "next_socket (set_socket so k s) = next_socket s"
  "machines (set_socket so k s) = machines s"
  "next_machine (set_socket so k s) = next_machine s"
  "consoles (set_socket so k s) = consoles s"
  "next_console (set_socket so k s) = next_console s"
  "mMachines (set_socket so k s) = mMachines s"
  "mConsoles (set_socket so k s) = mConsoles s"
  "mReceivedEvents (set_socket so k s) = mReceivedEvents s"
  "mNextMachineID (set_socket so k s) = mNextMachineID s"
  "mNextConsoleID (set_socket so k s) = mNextConsoleID s"
  "mAuth (set_socket so k s) = mAuth s"
  "auth_id (set_socket so k s) = auth_id s"
  "mIsRunning (set_socket so k s) = mIsRunning s"
  "accepts (set_socket so k s) = accepts s"
  "accepts_cons (set_socket so k s) = accepts_cons s"
  "threads (set_socket so k s) = threads s"
  "threads_cons (set_socket so k s) = threads_cons s"
  "archive_text (set_socket so k s) = archive_text s"
  by (simp_all add: set_socket_def)

lemma set_machine_frame [simp]:
  "engines (set_machine m n s) = engines s"
  "sockets (set_machine m n s) = sockets s"
  "next_socket (set_machine m n s) = next_socket s"
  "machines (set_machine m n s) = (machines s)(m := n)"
  "next_machine (set_machine m n s) = next_machine s"
  "consoles (set_machine m n s) = consoles s"
  "next_console (set_machine m n s) = next_console s"
  "mMachines (set_machine m n s) = mMachines s"
  "mConsoles (set_machine m n s) = mConsoles s"
  "mReceivedEvents (set_machine m n s) = mReceivedEvents s"
  "mNextMachineID (set_machine m n s) = mNextMachineID s"
  "mNextConsoleID (set_machine m n s) = mNextConsoleID s"
  "mAuth (set_machine m n s) = mAuth s"
  "auth_id (set_machine m n s) = auth_id s"
  "mIsRunning (set_machine m n s) = mIsRunning s"
  "accepts (set_machine m n s) = accepts s"
  "accepts_cons (set_machine m n s) = accepts_cons s"
  "threads (set_machine m n s) = threads s"
  "threads_cons (set_machine m n s) = threads_cons s"
  "archive_text (set_machine m n s) = archive_text s"
  by (simp_all add: set_machine_def)

lemma PushEvent_frame [simp]:
  "sockets (PushEvent r e s) = sockets s"
  "next_socket (PushEvent r e s) = next_socket s"
  "machines (PushEvent r e s) = machines s"
  "next_machine (PushEvent r e s) = next_machine s"
  "consoles (PushEvent r e s) = consoles s"
  "next_console (PushEvent r e s) = next_console s"
  "mMachines (PushEvent r e s) = mMachines s"
  "mConsoles (PushEvent r e s) = mConsoles s"
  "mReceivedEvents (PushEvent r e s) = mReceivedEvents s"
  "mNextMachineID (PushEvent r e s) = mNextMachineID s"
  "mNextConsoleID (PushEvent r e s) = mNextConsoleID s"
  "mAuth (PushEvent r e s) = mAuth s"
  "auth_id (PushEvent r e s) = auth_id s"
  "mIsRunning (PushEvent r e s) = mIsRunning s"
  "accepts (PushEvent r e s) = accepts s"
  "accepts_cons (PushEvent r e s) = accepts_cons s"
  "threads (PushEvent r e s) = threads s"
  "threads_cons (PushEvent r e s) = threads_cons s"
  "archive_text (PushEvent r e s) = archive_text s"
  by (simp_all add: PushEvent_def set_events_def set_engine_def)

lemma set_events_frame [simp]:
  "sockets (set_events r q s) = sockets s"
  "next_socket (set_events r q s) = next_socket s"
  "machines (set_events r q s) = machines s"
  "next_machine (set_events r q s) = next_machine s"
  "mMachines (set_events r q s) = mMachines s"
  "mConsoles (set_events r q s) = mConsoles s"
  "mReceivedEvents (set_events r q s) = mReceivedEvents s"
  "mNextMachineID (set_events r q s) = mNextMachineID s"
  "mAuth (set_events r q s) = mAuth s"
  "auth_id (set_events r q s) = auth_id s"
  "mIsRunning (set_events r q s) = mIsRunning s"
  "archive_text (set_events r q s) = archive_text s"
  by (simp_all add: set_events_def set_engine_def)

lemma bus_frame [simp]:
  "events (set_socket so k s) r = events s r"
  "events (set_machine m n s) r = events s r"
  "linked (set_socket so k s) = linked s"
  "linked (set_machine m n s) = linked s"
  "events (mMachines_update f s) r = events s r"
  "linked (mMachines_update f s) = linked s"
  "events (mReceivedEvents_update g s) r = events s r"
  "linked (mReceivedEvents_update g s) = linked s"
  by (simp_all add: events_def linked_def)

end
