(* ===== verification/STcpSocket.thy ===== *)
theory STcpSocket
imports NetState
begin

text \<open>
  \<open>Engine/STcpSocket.{h,cpp}\<close>: one TCP connection. Sending hands the text of an archived event
  to the other end; receiving is asynchronous, one pending receive at a time being the intent.
  What boost reads from an archive's text is the argument \<open>decode\<close>.
\<close>

definition TcpSocket_new :: "device \<Rightarrow> TcpSocket" where
  "TcpSocket_new parent =
     \<lparr>so_mParent = parent, so_mSocket = True, so_is_open = False, so_receives = 0, so_sent = [],
      net_peer = None, net_takes = None, net_receive_throws = False\<rparr>"

definition null_socket :: fault where
  "null_socket = Undefined ''null socket''"

definition SetParent :: "nat \<Rightarrow> device \<Rightarrow> NetEngine \<Rightarrow> NetEngine" where
  "SetParent so parent s = set_socket so ((sockets s so)\<lparr>so_mParent := parent\<rparr>) s"

definition Close :: "nat \<Rightarrow> NetEngine \<Rightarrow> NetEngine" where
  "Close so s =
     (if so_mSocket (sockets s so)
      then set_socket so ((sockets s so)\<lparr>so_is_open := False\<rparr>) s else s)"

text \<open>The destructor.\<close>

definition TcpSocket_delete :: "nat \<Rightarrow> NetEngine \<Rightarrow> NetEngine" where
  "TcpSocket_delete so s =
     (let s1 = Close so s in set_socket so ((sockets s1 so)\<lparr>so_mSocket := False\<rparr>) s1)"

text \<open>
  \<open>SendEvent\<close>. All parents say whether the server is running. \<open>write_some\<close> fails or takes what
  it can of the text; the count it returns is not looked at.
\<close>

definition SendEvent :: "nat \<Rightarrow> EngineEvent \<Rightarrow> (NetEngine, bool) op" where
  "SendEvent so ent s =
     (let k = sockets s so
      in if \<not> mIsRunning s then (Inr False, s)
         else if \<not> so_mSocket k then (Inl null_socket, s)
         else if \<not> so_is_open k then (Inr False, s)
         else let outboundData = archive_text s (EngineEvent_save ent)
              in case net_takes k of
                   None \<Rightarrow> (Inr False, s)
                 | Some n \<Rightarrow>
                     (Inr True, set_socket so (k\<lparr>so_sent := so_sent k @ [take n outboundData]\<rparr>) s))"

text \<open>\<open>SetBind\<close> starts a receive; an exception is caught and answered by \<open>false\<close>.\<close>

definition SetBind :: "nat \<Rightarrow> (NetEngine, bool) op" where
  "SetBind so s =
     (let k = sockets s so
      in if \<not> so_mSocket k then (Inl null_socket, s)
         else if net_receive_throws k then (Inr False, s)
         else (Inr True, set_socket so (k\<lparr>so_receives := so_receives k + 1\<rparr>) s))"

definition rebind :: "nat \<Rightarrow> NetEngine act" where
  "rebind so s =
     (if so_mSocket (sockets s so) \<and> so_is_open (sockets s so)
      then op_then (SetBind so) (\<lambda>_. done_with) s else done_with s)"

text \<open>
  \<open>AsyncRead\<close> is called when a receive completes, with an error code and the characters
  received. \<open>push dev\<close> is the virtual \<open>PushReceivedEvent\<close> of a device; \<open>decode\<close> gives no event
  where the archive throws.
\<close>

definition AsyncRead ::
  "(device \<Rightarrow> EngineEvent \<Rightarrow> NetEngine \<Rightarrow> NetEngine) \<Rightarrow> (string \<Rightarrow> EngineEvent option)
     \<Rightarrow> nat \<Rightarrow> int \<Rightarrow> string \<Rightarrow> NetEngine act" where
  "AsyncRead push decode so error strData s =
     (if error \<noteq> 0 then done_with s
      else if strData \<noteq> [] then
        (case decode strData of
           None \<Rightarrow> rebind so s
         | Some ne \<Rightarrow> rebind so (push (so_mParent (sockets s so)) ne s))
      else rebind so s)"

text \<open>\<open>Connect\<close>: the outcome of the connection is the error code it gets.\<close>

definition Connect :: "nat \<Rightarrow> int \<Rightarrow> (NetEngine, bool) op" where
  "Connect so er s =
     (let k = sockets s so
      in if \<not> so_mSocket k then (Inl null_socket, s)
         else if er \<noteq> 0 then
           (Inr False, set_socket so (k\<lparr>so_mSocket := False, so_is_open := False\<rparr>) s)
         else (Inr True, set_socket so (k\<lparr>so_is_open := True\<rparr>) s))"

text \<open>
  \<open>SyncReceive\<close>: the outcome of the receive is the content of the whole buffer afterwards, or
  nothing when it threw. The event starts with whatever its memory held, and is only
  assigned when the archive can be read.
\<close>

definition SyncReceive ::
  "(string \<Rightarrow> EngineEvent option) \<Rightarrow> EngineEvent \<Rightarrow> nat \<Rightarrow> string option \<Rightarrow> (NetEngine, EngineEvent) op"
where
  "SyncReceive decode memory so buffer s =
     (let ent = (case buffer of
                   None \<Rightarrow> memory
                 | Some strData \<Rightarrow> (case decode strData of None \<Rightarrow> memory | Some e \<Rightarrow> e))
      in case SetBind so s of
           (Inl f, s') \<Rightarrow> (Inl f, s')
         | (Inr _, s') \<Rightarrow> (Inr ent, s'))"

section \<open>What sending does\<close>

text \<open>A socket that is there, and one through which a write succeeds.\<close>

definition usable :: "NetEngine \<Rightarrow> nat \<Rightarrow> bool" where
  "usable s so \<longleftrightarrow> so < next_socket s \<and> so_mSocket (sockets s so)"

definition sends :: "NetEngine \<Rightarrow> nat \<Rightarrow> bool" where
  "sends s so \<longleftrightarrow> mIsRunning s \<and> so_is_open (sockets s so) \<and> net_takes (sockets s so) \<noteq> None"

definition deliver :: "nat \<Rightarrow> EngineEvent \<Rightarrow> NetEngine \<Rightarrow> NetEngine" where
  "deliver so ent s =
     (let k = sockets s so
      in set_socket so (k\<lparr>so_sent := so_sent k @
           [take (the (net_takes k)) (archive_text s (EngineEvent_save ent))]\<rparr>) s)"

lemma SendEvent_usable:
  "usable s so \<Longrightarrow> SendEvent so ent s =
     (if sends s so then (Inr True, deliver so ent s) else (Inr False, s))"
  by (auto simp: SendEvent_def usable_def sends_def deliver_def Let_def split: option.split)

lemma SendEvent_fail_frame: "SendEvent so ent s = (Inr False, s') \<Longrightarrow> s' = s"
  by (auto simp: SendEvent_def Let_def split: if_splits option.splits)

lemma deliver_frame [simp]:
  "engines (deliver so ent s) = engines s"
  "next_socket (deliver so ent s) = next_socket s"
  "machines (deliver so ent s) = machines s"
  "next_machine (deliver so ent s) = next_machine s"
  "consoles (deliver so ent s) = consoles s"
  "next_console (deliver so ent s) = next_console s"
  "mMachines (deliver so ent s) = mMachines s"
  "mConsoles (deliver so ent s) = mConsoles s"
  "mReceivedEvents (deliver so ent s) = mReceivedEvents s"
  "mNextMachineID (deliver so ent s) = mNextMachineID s"
  "mNextConsoleID (deliver so ent s) = mNextConsoleID s"
  "mAuth (deliver so ent s) = mAuth s"
  "auth_id (deliver so ent s) = auth_id s"
  "mIsRunning (deliver so ent s) = mIsRunning s"
  "archive_text (deliver so ent s) = archive_text s"
  "accepts (deliver so ent s) = accepts s"
  "accepts_cons (deliver so ent s) = accepts_cons s"
  "threads (deliver so ent s) = threads s"
  "threads_cons (deliver so ent s) = threads_cons s"
  "events (deliver so ent s) r = events s r"
  "linked (deliver so ent s) = linked s"
  by (simp_all add: deliver_def Let_def)

lemma deliver_socket [simp]:
  "so_mSocket (sockets (deliver so ent s) k) = so_mSocket (sockets s k)"
  "so_is_open (sockets (deliver so ent s) k) = so_is_open (sockets s k)"
  "so_mParent (sockets (deliver so ent s) k) = so_mParent (sockets s k)"
  "so_receives (sockets (deliver so ent s) k) = so_receives (sockets s k)"
  "net_takes (sockets (deliver so ent s) k) = net_takes (sockets s k)"
  "net_peer (sockets (deliver so ent s) k) = net_peer (sockets s k)"
  by (simp_all add: deliver_def Let_def)

lemma so_sent_deliver [simp]:
  "so_sent (sockets (deliver so ent s) k) =
     (if k = so then so_sent (sockets s so) @
        [take (the (net_takes (sockets s so))) (archive_text s (EngineEvent_save ent))]
      else so_sent (sockets s k))"
  by (simp add: deliver_def Let_def)

lemma usable_deliver [simp]: "usable (deliver so ent s) k = usable s k"
  "sends (deliver so ent s) k = sends s k"
  by (simp_all add: usable_def sends_def)

text \<open>\<open>SendEvent\<close> reports success as soon as the write took something: what the other end
  is handed is the beginning of the event's text, whole exactly when the write took all of
  it. On every other outcome nothing was sent and the state is untouched.\<close>

theorem SendEvent_outcome:
  assumes "so_mSocket (sockets s so)"
  shows "case SendEvent so ent s of
     (Inr True, s') \<Rightarrow>
        mIsRunning s \<and> so_is_open (sockets s so) \<and>
        (\<exists>n. net_takes (sockets s so) = Some n \<and>
           so_sent (sockets s' so) =
             so_sent (sockets s so) @ [take n (archive_text s (EngineEvent_save ent))] \<and>
           (last (so_sent (sockets s' so)) = archive_text s (EngineEvent_save ent)
              \<longleftrightarrow> length (archive_text s (EngineEvent_save ent)) \<le> n))
   | (Inr False, s') \<Rightarrow>
        s' = s \<and> (\<not> mIsRunning s \<or> \<not> so_is_open (sockets s so) \<or> net_takes (sockets s so) = None)
   | (Inl _, _) \<Rightarrow> False"
proof -
  have "take n xs = xs \<longleftrightarrow> length xs \<le> n" for n and xs :: string
    by (metis length_take min.absorb_iff1 min.commute take_all)
  then show ?thesis using assms
    by (auto simp: SendEvent_def Let_def split: option.split)
qed

text \<open>A client whose connection takes no more than ten characters of a message.\<close>

theorem SendEvent_outcome_witness:
  "let s = set_socket 0 ((TcpSocket_new DevEngine)\<lparr>so_is_open := True, net_takes := Some 10\<rparr>)
             (net_memory (\<lambda>_. ''22 serialization::archive''))
   in snd (SendEvent 0 (event_of PING) s) \<noteq> s \<and>
      so_sent (sockets (snd (SendEvent 0 (event_of PING) s)) 0) = [''22 seriali'']"
proof -
  let ?s = "set_socket 0 ((TcpSocket_new DevEngine)\<lparr>so_is_open := True, net_takes := Some 10\<rparr>)
             (net_memory (\<lambda>_. ''22 serialization::archive''))"
  have k: "so_mSocket (sockets ?s 0)" by (simp add: TcpSocket_new_def)
  obtain s' where s': "SendEvent 0 (event_of PING) ?s = (Inr True, s')"
    by (simp add: SendEvent_def Let_def TcpSocket_new_def net_memory_def)
  from SendEvent_outcome[OF k, of "event_of PING"] s'
  have "so_sent (sockets s' 0) = [''22 seriali'']"
    by (simp add: TcpSocket_new_def net_memory_def)
  moreover have "so_sent (sockets ?s 0) = []" by (simp add: TcpSocket_new_def)
  ultimately show ?thesis using s' by (auto simp: Let_def)
qed

section \<open>One event per receive\<close>

lemma rebind_frame:
  "mReceivedEvents (snd (rebind so s)) = mReceivedEvents s"
  "mMachines (snd (rebind so s)) = mMachines s"
  "machines (snd (rebind so s)) = machines s"
  "engines (snd (rebind so s)) = engines s"
  by (auto simp: rebind_def SetBind_def op_then_def Let_def)

text \<open>A receive that completes delivers one event at most, however many were sent: when two
  events arrive together, the parent of the socket is handed the first and the text of the
  second is lost.\<close>

lemma AsyncRead_coalesced:
  assumes "decode (archive_text s (EngineEvent_save e1) @ archive_text s (EngineEvent_save e2)) = Some e1"
    and "archive_text s (EngineEvent_save e1) \<noteq> []"
  shows "AsyncRead push decode so 0
       (archive_text s (EngineEvent_save e1) @ archive_text s (EngineEvent_save e2)) s
     = rebind so (push (so_mParent (sockets s so)) e1 s)"
  using assms by (simp add: AsyncRead_def)

end
