(* ===== verification/SNetMachine.thy ===== *)
theory SNetMachine
imports STcpSocket
begin

text \<open>
  \<open>Engine/SNetMachine.{h,cpp}\<close>: a connected player. A machine sends through its socket, keeps
  the player's position, hands on what it receives, and is removed from the
  engine when a send fails. \<open>NetEngine::RemoveMachine\<close> is here because a machine calls it.
\<close>

section \<open>Leaving the engine\<close>

definition SetDeleting :: "nat \<Rightarrow> NetEngine \<Rightarrow> NetEngine" where
  "SetDeleting m s = set_machine m ((machines s m)\<lparr>nm_mDeleting := True\<rparr>) s"

definition remove_machine_event :: "int \<Rightarrow> EngineEvent" where
  "remove_machine_event acctId = put_i ''ACCT_ID'' acctId (event_of REMOVE_MACHINE)"

definition RemoveMachine :: "nat \<Rightarrow> NetEngine act" where
  "RemoveMachine m s =
     (if nm_mDeleting (machines s m) then done_with s
      else if m \<in> set (mMachines s) then
        and_then (effect (SetDeleting m))
          (and_then (\<lambda>s. SendMessageToDataBase NetRef (remove_machine_event (nm_mAcctID (machines s m))) s)
            (effect (mMachines_update (remove1 m)))) s
      else done_with s)"

section \<open>The machine\<close>

definition null_pointer :: fault where
  "null_pointer = Undefined ''null pointer''"

text \<open>The player of a machine, when it has one.\<close>

definition GetPlayerID :: "nat \<Rightarrow> NetEngine \<Rightarrow> int" where
  "GetPlayerID m s = (case nm_mPlayer (machines s m) of Some p \<Rightarrow> mID p | None \<Rightarrow> 1)"

definition GetNickName :: "nat \<Rightarrow> NetEngine \<Rightarrow> string" where
  "GetNickName m s = (case nm_mPlayer (machines s m) of Some p \<Rightarrow> mNickName p | None \<Rightarrow> [])"

definition HasAcctName :: "nat \<Rightarrow> string \<Rightarrow> NetEngine \<Rightarrow> bool" where
  "HasAcctName m name s \<longleftrightarrow>
     (if nm_mDeleting (machines s m) then False else name = nm_mAcctName (machines s m))"

definition HasNick :: "nat \<Rightarrow> string \<Rightarrow> NetEngine \<Rightarrow> bool" where
  "HasNick m name s \<longleftrightarrow> name = GetNickName m s"

definition SetPlayer :: "nat \<Rightarrow> Player \<Rightarrow> NetEngine \<Rightarrow> NetEngine" where
  "SetPlayer m player s = set_machine m ((machines s m)\<lparr>nm_mPlayer := Some (Player_copy player)\<rparr>) s"

text \<open>\<open>TCPSend\<close>: a machine whose send fails is removed.\<close>

definition TCPSend :: "nat \<Rightarrow> EngineEvent \<Rightarrow> NetEngine act" where
  "TCPSend m ent s =
     (case nm_mTcpSocket (machines s m) of
        None \<Rightarrow> fail_with null_pointer s
      | Some so \<Rightarrow>
          op_then (SendEvent so ent) (\<lambda>ok. if ok then done_with else RemoveMachine m) s)"

definition SaveMove :: "nat \<Rightarrow> NetEngine act" where
  "SaveMove m s =
     and_then
       (case nm_mPlayer (machines s m) of
          None \<Rightarrow> done_with
        | Some p \<Rightarrow> SendMessageToDataBase NetRef (put_i ''PLAYER_ID'' (GetPlayerID m s) (GetPos p)))
       (effect (\<lambda>s. set_machine m ((machines s m)\<lparr>nm_mMoveCpt := 0\<rparr>) s)) s"

definition Disconnect :: "nat \<Rightarrow> EngineEvent \<Rightarrow> NetEngine act" where
  "Disconnect m ent s =
     and_then (if nm_mPlayer (machines s m) \<noteq> None then SaveMove m else done_with)
       (and_then (TCPSend m ent) (RemoveMachine m)) s"

text \<open>The counter of moves, and the position saved at every fiftieth.\<close>

definition count_move :: "nat \<Rightarrow> NetEngine act" where
  "count_move m s =
     (let k = machines s m;
          s1 = set_machine m (k\<lparr>nm_mMoveCpt := nm_mMoveCpt k + 1\<rparr>) s
      in if 50 \<le> nm_mMoveCpt (machines s1 m) then SaveMove m s1 else done_with s1)"

definition Machine_Move :: "nat \<Rightarrow> EngineEvent \<Rightarrow> NetEngine act" where
  "Machine_Move m ent s =
     (if mType ent \<noteq> PLAYER_POS \<and> mType ent \<noteq> PLAYER_PROP then done_with s
      else case nm_mPlayer (machines s m) of
             None \<Rightarrow> fail_with null_pointer s
           | Some p \<Rightarrow>
               with_res (Move ent p)
                 (\<lambda>p'. and_then (effect (\<lambda>s. set_machine m ((machines s m)\<lparr>nm_mPlayer := Some p'\<rparr>) s))
                   (count_move m)) s)"

definition Machine_Move_to ::
  "nat \<Rightarrow> float32 \<Rightarrow> float32 \<Rightarrow> float32 \<Rightarrow> float32 \<Rightarrow> float32 \<Rightarrow> float32 \<Rightarrow> float32 \<Rightarrow> NetEngine act" where
  "Machine_Move_to m pPosX pPosY pPosZ pOW pOX pOY pOZ s =
     (case nm_mPlayer (machines s m) of
        None \<Rightarrow> fail_with null_pointer s
      | Some p \<Rightarrow>
          and_then (effect (\<lambda>s. set_machine m
              ((machines s m)\<lparr>nm_mPlayer := Some (Move_to pPosX pPosY pPosZ pOW pOX pOY pOZ p)\<rparr>) s))
            (count_move m) s)"

text \<open>
  What a machine adds to an event its socket received, and where it goes. The members \<open>ID\<close> and \<open>ACCT_ID\<close> are assigned to
  the parameter \<open>ent\<close>, not to the copy \<open>e\<close> that is pushed: as the parameter is constant a compiler refuses this, and
  if it were not, the event that the caller looks at no more would be changed. In both readings \<open>e\<close> goes without them.
\<close>

definition received_copy :: "nat \<Rightarrow> NetEngine \<Rightarrow> EngineEvent \<Rightarrow> EngineEvent" where
  "received_copy m s ent =
     (let e = ent;
          e = (if nm_mPlayer (machines s m) \<noteq> None then put_i ''PLAYER_ID'' (GetPlayerID m s) e else e)
      in if mType e = CHAT_EVENT then put_s ''PLAYER_NICK'' (GetNickName m s) e else e)"

definition Engine_PushReceivedEvent :: "EngineEvent \<Rightarrow> NetEngine \<Rightarrow> NetEngine" where
  "Engine_PushReceivedEvent ent s = s\<lparr>mReceivedEvents := mReceivedEvents s @ [ent]\<rparr>"

definition Machine_PushReceivedEvent :: "nat \<Rightarrow> EngineEvent \<Rightarrow> NetEngine \<Rightarrow> NetEngine" where
  "Machine_PushReceivedEvent m ent s = Engine_PushReceivedEvent (received_copy m s ent) s"

text \<open>
  The constructors. The one with a socket takes it over: it becomes the parent, asks for the
  address of the other end, which throws when there is none, and starts a receive, which is
  one more when another is pending.
\<close>

definition NetMachine_default :: "NetMachine \<Rightarrow> NetMachine" where
  "NetMachine_default memory =
     memory\<lparr>nm_mTcpSocket := None, nm_mAddress := [], nm_mMoveCpt := 0, nm_mDeleting := False,
            nm_mAcctName := []\<rparr>"

definition NetMachine_detached :: "NetMachine \<Rightarrow> int \<Rightarrow> string \<Rightarrow> NetMachine" where
  "NetMachine_detached memory ID acctName =
     memory\<lparr>nm_mID := ID, nm_mMoveCpt := 0, nm_mAcctName := acctName, nm_mAddress := []\<rparr>"

definition NetMachine_new :: "nat \<Rightarrow> int \<Rightarrow> int \<Rightarrow> string \<Rightarrow> (NetEngine, nat) op" where
  "NetMachine_new sock ID acctId acctName s =
     (let m = next_machine s;
          k = \<lparr>nm_mTcpSocket = Some sock, nm_mID = ID, nm_mAcctID = acctId, nm_mAcctName = acctName,
               nm_mAddress = [], nm_mMoveCpt = 0, nm_mDeleting = False, nm_mPlayer = None\<rparr>;
          s1 = SetParent sock (DevMachine m) (set_machine m k (s\<lparr>next_machine := Suc m\<rparr>))
      in if \<not> so_mSocket (sockets s1 sock) then (Inl null_socket, s1)
         else case net_peer (sockets s1 sock) of
                None \<Rightarrow> (Inl (Throw ''remote_endpoint''), s1)
              | Some address \<Rightarrow>
                  let s2 = set_machine m (k\<lparr>nm_mAddress := address\<rparr>) s1
                  in (Inr m, snd (SetBind sock s2)))"

section \<open>Effects\<close>

lemma SetDeleting_frame [simp]:
  "sockets (SetDeleting m s) = sockets s" "mMachines (SetDeleting m s) = mMachines s"
  "events (SetDeleting m s) r = events s r" "linked (SetDeleting m s) = linked s"
  "machines (SetDeleting m s) = (machines s)(m := (machines s m)\<lparr>nm_mDeleting := True\<rparr>)"
  by (simp_all add: SetDeleting_def)

text \<open>The state after a machine of the engine was removed.\<close>

definition removed :: "nat \<Rightarrow> NetEngine \<Rightarrow> NetEngine" where
  "removed m s =
     mMachines_update (remove1 m)
       (PushEvent DataBaseRef (remove_machine_event (nm_mAcctID (machines s m))) (SetDeleting m s))"

lemma removed_frame [simp]:
  "sockets (removed m s) = sockets s"
  "mMachines (removed m s) = remove1 m (mMachines s)"
  "machines (removed m s) = (machines s)(m := (machines s m)\<lparr>nm_mDeleting := True\<rparr>)"
  "next_socket (removed m s) = next_socket s"
  "next_machine (removed m s) = next_machine s"
  "consoles (removed m s) = consoles s"
  "mConsoles (removed m s) = mConsoles s"
  "mReceivedEvents (removed m s) = mReceivedEvents s"
  "mNextMachineID (removed m s) = mNextMachineID s"
  "mAuth (removed m s) = mAuth s"
  "auth_id (removed m s) = auth_id s"
  "mIsRunning (removed m s) = mIsRunning s"
  "archive_text (removed m s) = archive_text s"
  "linked (removed m s) = linked s"
  "events (removed m s) r = (if r = DataBaseRef
     then events s r @ [remove_machine_event (nm_mAcctID (machines s m))] else events s r)"
  by (simp_all add: removed_def SetDeleting_def)

text \<open>A text archive cut down to its header, for examples.\<close>

definition header_text :: "item list \<Rightarrow> string" where
  "header_text items = ''22 serialization::archive''"

text \<open>\<open>RemoveMachine\<close> takes a machine off the list once: the first call tells the data base,
  once, that the account went offline, and every further call changes nothing.\<close>

theorem RemoveMachine_once:
  assumes "linked s" "m \<in> set (mMachines s)" "\<not> nm_mDeleting (machines s m)"
  shows "\<exists>s'. RemoveMachine m s = (None, s') \<and> RemoveMachine m s' = (None, s') \<and>
     mMachines s' = remove1 m (mMachines s) \<and> nm_mDeleting (machines s' m) \<and>
     events s' DataBaseRef =
       events s DataBaseRef @ [remove_machine_event (nm_mAcctID (machines s m))]"
proof -
  have "RemoveMachine m s = (None, removed m s)"
    using assms by (simp add: RemoveMachine_def and_then_def removed_def SetDeleting_def)
  moreover have "RemoveMachine m (removed m s) = (None, removed m s)"
    by (simp add: RemoveMachine_def)
  ultimately show ?thesis by auto
qed

theorem RemoveMachine_once_witness:
  "let s = mMachines_update (\<lambda>_. [4, 2]) (link_engines (net_memory header_text))
   in \<exists>s'. RemoveMachine 2 s = (None, s') \<and> RemoveMachine 2 s' = (None, s') \<and>
     mMachines s' = [4] \<and> nm_mDeleting (machines s' 2) \<and>
     events s' DataBaseRef = [remove_machine_event 0]"
proof -
  let ?s = "mMachines_update (\<lambda>_. [4, 2]) (link_engines (net_memory header_text))"
  have "linked ?s" "events ?s DataBaseRef = []"
    by (simp_all add: net_memory_def events_def link_engines_def attach_defs Engine_new_def linked_def)
  moreover have "machines ?s 2 = machines (net_memory header_text) 2"
    by (simp add: link_engines_def)
  ultimately show ?thesis
    using RemoveMachine_once[of ?s 2] by (simp add: Let_def net_memory_def)
qed

lemma RemoveMachine_listed:
  "linked s \<Longrightarrow> m \<in> set (mMachines s) \<Longrightarrow> \<not> nm_mDeleting (machines s m) \<Longrightarrow>
     RemoveMachine m s = (None, removed m s)"
  by (simp add: RemoveMachine_def and_then_def removed_def SetDeleting_def)

lemma RemoveMachine_gone:
  "nm_mDeleting (machines s m) \<or> m \<notin> set (mMachines s) \<Longrightarrow> RemoveMachine m s = (None, s)"
  by (auto simp: RemoveMachine_def)

text \<open>A machine of the list that the engine can work with.\<close>

definition machine_ok :: "NetEngine \<Rightarrow> nat \<Rightarrow> bool" where
  "machine_ok s m \<longleftrightarrow> m \<in> set (mMachines s) \<and> \<not> nm_mDeleting (machines s m) \<and>
     (\<exists>so. nm_mTcpSocket (machines s m) = Some so \<and> usable s so)"

definition machine_socket :: "NetEngine \<Rightarrow> nat \<Rightarrow> nat" where
  "machine_socket s m = the (nm_mTcpSocket (machines s m))"

definition machine_sends :: "NetEngine \<Rightarrow> nat \<Rightarrow> bool" where
  "machine_sends s m \<longleftrightarrow> sends s (machine_socket s m)"

text \<open>Sending to a machine: the text goes out, or the machine is removed.\<close>

definition told :: "nat \<Rightarrow> EngineEvent \<Rightarrow> NetEngine \<Rightarrow> NetEngine" where
  "told m ent s =
     (if machine_sends s m then deliver (machine_socket s m) ent s else removed m s)"

lemma TCPSend_ok: "linked s \<Longrightarrow> machine_ok s m \<Longrightarrow> TCPSend m ent s = (None, told m ent s)"
  by (auto simp: TCPSend_def machine_ok_def told_def machine_socket_def machine_sends_def
      SendEvent_usable RemoveMachine_listed op_then_def)

lemma mMachines_told: "mMachines (told m ent s) = (if machine_sends s m then mMachines s else remove1 m (mMachines s))"
  by (simp add: told_def)

lemma told_frame [simp]:
  "next_socket (told m ent s) = next_socket s"
  "next_machine (told m ent s) = next_machine s"
  "mConsoles (told m ent s) = mConsoles s"
  "mReceivedEvents (told m ent s) = mReceivedEvents s"
  "mNextMachineID (told m ent s) = mNextMachineID s"
  "mAuth (told m ent s) = mAuth s"
  "auth_id (told m ent s) = auth_id s"
  "mIsRunning (told m ent s) = mIsRunning s"
  "archive_text (told m ent s) = archive_text s"
  "linked (told m ent s) = linked s"
  "so_mSocket (sockets (told m ent s) k) = so_mSocket (sockets s k)"
  "so_mParent (sockets (told m ent s) k) = so_mParent (sockets s k)"
  by (simp_all add: told_def)

lemma TCPSend_mMachines: "mMachines (snd (TCPSend m ent s)) = mMachines s \<or>
    mMachines (snd (TCPSend m ent s)) = remove1 m (mMachines s)"
  by (auto simp: TCPSend_def op_then_def SendEvent_def RemoveMachine_def and_then_def
      SendMessageToDataBase_def push_to_def Let_def SetDeleting_def split: option.split)

lemma length_TCPSend: "length (mMachines (snd (TCPSend m ent s))) \<le> length (mMachines s)"
  using TCPSend_mMachines[of m ent s] by (auto simp: length_remove1)

end
