(* ===== verification/SNetConsole.thy ===== *)
theory SNetConsole
imports SNetMachine
begin

text \<open>
  \<open>Engine/SNetConsole.{h,cpp}\<close>: a connected administration console. It is told apart by its
  number; when a send fails it asks the engine to remove it by an event.
\<close>

definition remove_console_event :: "int \<Rightarrow> EngineEvent" where
  "remove_console_event ID = put_i ''CONSOLE_ID'' ID (event_of REMOVE_CONSOLE)"

definition NetConsole_default :: "NetConsole \<Rightarrow> NetConsole" where
  "NetConsole_default memory = memory\<lparr>nc_mTcpSocket := None, nc_mAddress := []\<rparr>"

definition NetConsole_new :: "nat \<Rightarrow> int \<Rightarrow> (NetEngine, nat) op" where
  "NetConsole_new sock ID s =
     (let c = next_console s;
          k = \<lparr>nc_mTcpSocket = Some sock, nc_mID = ID, nc_mAddress = []\<rparr>;
          s1 = SetParent sock (DevConsole c) (set_console c k (s\<lparr>next_console := Suc c\<rparr>))
      in if \<not> so_mSocket (sockets s1 sock) then (Inl null_socket, s1)
         else case net_peer (sockets s1 sock) of
                None \<Rightarrow> (Inl (Throw ''remote_endpoint''), s1)
              | Some address \<Rightarrow>
                  let s2 = set_console c (k\<lparr>nc_mAddress := address\<rparr>) s1
                  in (Inr c, snd (SetBind sock s2)))"

definition Console_TCPSend :: "nat \<Rightarrow> EngineEvent \<Rightarrow> NetEngine act" where
  "Console_TCPSend c ent s =
     (case nc_mTcpSocket (consoles s c) of
        None \<Rightarrow> fail_with null_pointer s
      | Some so \<Rightarrow>
          op_then (SendEvent so ent)
            (\<lambda>ok. if ok then done_with
                  else effect (\<lambda>s. PushEvent NetRef (remove_console_event (nc_mID (consoles s c))) s)) s)"

definition Console_Disconnect :: "nat \<Rightarrow> EngineEvent \<Rightarrow> NetEngine act" where
  "Console_Disconnect c ent s =
     and_then (Console_TCPSend c ent)
       (effect (\<lambda>s. PushEvent NetRef (remove_console_event (nc_mID (consoles s c))) s)) s"

definition Console_PushReceivedEvent :: "nat \<Rightarrow> EngineEvent \<Rightarrow> NetEngine \<Rightarrow> NetEngine" where
  "Console_PushReceivedEvent c ent s =
     Engine_PushReceivedEvent (put_i ''CONSOLE_ID'' (nc_mID (consoles s c)) ent) s"

text \<open>The destructor closes and frees the socket.\<close>

definition NetConsole_delete :: "nat \<Rightarrow> NetEngine \<Rightarrow> NetEngine" where
  "NetConsole_delete c s =
     (case nc_mTcpSocket (consoles s c) of
        None \<Rightarrow> s
      | Some so \<Rightarrow> TcpSocket_delete so (Close so s))"

lemma Console_TCPSend_frame:
  "mMachines (snd (Console_TCPSend c ent s)) = mMachines s"
  "machines (snd (Console_TCPSend c ent s)) = machines s"
  "mConsoles (snd (Console_TCPSend c ent s)) = mConsoles s"
  by (auto simp: Console_TCPSend_def op_then_def SendEvent_def Let_def split: option.split)

end
