(* ===== verification/SNetEngine.thy ===== *)
theory SNetEngine
imports SNetConsole SConfigFileParser
begin

text \<open>
  \<open>Engine/SNetEngine.{h,cpp}\<close>: the network engine. It accepts connections, lets clients log in
  through the data base engine, keeps the list of the connected machines, and answers two
  queues: the events the other engines push, and those the clients send.
\<close>

section \<open>Starting\<close>

text \<open>
  What opening an acceptor on a port comes to: an exception, an acceptor that is not open, or
  one that listens.
\<close>

datatype listening = ListenThrows | ListenClosed | ListenOpen

definition string_thrown :: "string \<Rightarrow> fault" where
  "string_thrown msg = Throw (''string: '' @ msg)"

definition is_string_thrown :: "fault \<Rightarrow> bool" where
  "is_string_thrown f = (case f of Throw t \<Rightarrow> starts_with t ''string: '' | _ \<Rightarrow> False)"

text \<open>\<open>new TcpSocket(this, mLog)\<close>: the address and the new state.\<close>

definition new_socket :: "NetEngine \<Rightarrow> nat \<times> NetEngine" where
  "new_socket s =
     (next_socket s,
      set_socket (next_socket s) (TcpSocket_new DevEngine) (s\<lparr>next_socket := Suc (next_socket s)\<rparr>))"

definition open_console_acceptor :: "(int \<Rightarrow> listening) \<Rightarrow> NetEngine act" where
  "open_console_acceptor listen s =
     (let so = fst (new_socket s); s1 = (snd (new_socket s))\<lparr>mTcpSocketCons := At so\<rparr>
      in case listen (mPortTcpServerCons s1) of
           ListenThrows \<Rightarrow> (Some (Throw ''system_error''), s1)
         | r \<Rightarrow>
             let s2 = s1\<lparr>mTcpAcceptorCons := At 0, accepts_cons := accepts_cons s1 @ [so]\<rparr>
             in if r = ListenClosed then (Some (string_thrown ''Cannot start network''), s2)
                else (None, s2))"

definition open_acceptor :: "(int \<Rightarrow> listening) \<Rightarrow> NetEngine act" where
  "open_acceptor listen s =
     (let so = fst (new_socket s); s1 = (snd (new_socket s))\<lparr>mTcpSocket := At so\<rparr>
      in case listen (mPortTcpServerConnection s1) of
           ListenThrows \<Rightarrow> (Some (Throw ''system_error''), s1)
         | r \<Rightarrow>
             let s2 = s1\<lparr>mTcpAcceptor := At 0, accepts := accepts s1 @ [so]\<rparr>
             in if r = ListenClosed then (Some (string_thrown ''Cannot start network''), s2)
                else (None, s2))"

definition GetConfigData ::
  "(string \<Rightarrow> string option) \<Rightarrow> int \<Rightarrow> (int \<Rightarrow> listening) \<Rightarrow> NetEngine act" where
  "GetConfigData files junk listen s =
     with_res (ConfigFileParser_open files ''./Config/network.conf'' ''='' ''#'' ''EndConfigFile'')
       (\<lambda>config.
          and_then (effect (\<lambda>s. s\<lparr>
              mPortTcpServerConnection := read_default (string_as_int junk) config ''port_tcp_server_connection'' 8001,
              mPortTcpServerCons := read_default (string_as_int junk) config ''port_tcp_server_console'' 8002\<rparr>))
            (and_then (open_console_acceptor listen) (open_acceptor listen))) s"

text \<open>
  The constructor. It starts from memory in which the two socket pointers were not assigned;
  the exceptions of \<open>GetConfigData\<close> are caught, and only a thrown string stops the engine.
\<close>

definition NetEngine_new ::
  "(item list \<Rightarrow> string) \<Rightarrow> (string \<Rightarrow> string option) \<Rightarrow> int \<Rightarrow> (int \<Rightarrow> listening) \<Rightarrow> NetEngine act" where
  "NetEngine_new text files junk listen s =
     (let s1 = (net_memory text)\<lparr>mTcpAcceptorCons := Null, mTcpAcceptor := Null, mIsRunning := True,
                 mNextConsoleID := 1, mNextMachineID := 1, engines := (engines s)(NetRef := Engine_new)\<rparr>
      in case GetConfigData files junk listen s1 of
           (None, s2) \<Rightarrow> (None, s2)
         | (Some (Throw t), s2) \<Rightarrow>
             (None, if is_string_thrown (Throw t) then s2\<lparr>mIsRunning := False\<rparr> else s2)
         | (Some f, s2) \<Rightarrow> (Some f, s2))"

section \<open>Accepting connections\<close>

text \<open>
  An accept completes. The handler was bound to the error code at the time of the binding, so
  \<open>error\<close> is what the binding holds. The keep-alive option needs an open socket.
\<close>

definition HandleAcceptTcpCons :: "int \<Rightarrow> nat \<Rightarrow> NetEngine act" where
  "HandleAcceptTcpCons error socket s =
     (if error \<noteq> 0 then done_with s
      else if \<not> so_is_open (sockets s socket) then fail_with (Throw ''set_option'') s
      else let s1 = s\<lparr>threads_cons := threads_cons s @ [socket]\<rparr>;
               so = fst (new_socket s1); s2 = (snd (new_socket s1))\<lparr>mTcpSocketCons := At so\<rparr>
           in done_with (s2\<lparr>accepts_cons := accepts_cons s2 @ [so]\<rparr>))"

definition HandleAcceptTcp :: "int \<Rightarrow> nat \<Rightarrow> NetEngine act" where
  "HandleAcceptTcp error socket s =
     (if error \<noteq> 0 then done_with s
      else if \<not> so_is_open (sockets s socket) then fail_with (Throw ''set_option'') s
      else let s1 = s\<lparr>threads := threads s @ [socket]\<rparr>;
               so = fst (new_socket s1); s2 = (snd (new_socket s1))\<lparr>mTcpSocket := At so\<rparr>
           in done_with (s2\<lparr>accepts := accepts s2 @ [so]\<rparr>))"

definition INT_LIMIT :: int where "INT_LIMIT = 2 ^ 31 - 1"

text \<open>\<open>return mNextMachineID++\<close>: incrementing the greatest integer has no meaning.\<close>

definition GetNextMachineID :: "(NetEngine, int) op" where
  "GetNextMachineID s =
     (if mNextMachineID s = INT_LIMIT then (Inl (Undefined ''integer overflow''), s)
      else (Inr (mNextMachineID s), s\<lparr>mNextMachineID := mNextMachineID s + 1\<rparr>))"

definition GetNextConsoleID :: "(NetEngine, int) op" where
  "GetNextConsoleID s =
     (if mNextConsoleID s = INT_LIMIT then (Inl (Undefined ''integer overflow''), s)
      else (Inr (mNextConsoleID s), s\<lparr>mNextConsoleID := mNextConsoleID s + 1\<rparr>))"

definition GetActualMachineID :: "NetEngine \<Rightarrow> int" where
  "GetActualMachineID s = mNextMachineID s"

definition GetActualConsoleID :: "NetEngine \<Rightarrow> int" where
  "GetActualConsoleID s = mNextConsoleID s"

text \<open>The thread of a console: a console is made and welcomed.\<close>

definition ServerThreadTcpReceiveCons :: "nat \<Rightarrow> NetEngine act" where
  "ServerThreadTcpReceiveCons socket =
     op_then GetNextConsoleID (\<lambda>ID.
     op_then (NetConsole_new socket ID) (\<lambda>n.
     and_then (effect (\<lambda>s. s\<lparr>mConsoles := mConsoles s @ [n]\<rparr>))
       (Console_TCPSend n (event_of WELCOME))))"

text \<open>A refusal on a socket that has no machine yet: the answer is sent and the socket closed.\<close>

definition refuse :: "nat \<Rightarrow> string \<Rightarrow> NetEngine act" where
  "refuse socket reason =
     op_then (SendEvent socket (put_s ''REASON'' reason (put_i ''ACCEPTED'' 0 (event_of MSG_NICK))))
       (\<lambda>_. effect (Close socket))"

text \<open>
  The thread of a player's connection: the first message has to be a nick; its name and
  password go to the data base engine under a fresh number, from a counter that wraps. The account number of the entry is not assigned.
\<close>

definition auth_request :: "32 word \<Rightarrow> string \<Rightarrow> string \<Rightarrow> EngineEvent" where
  "auth_request ID acctName pass =
     put_s ''PASS'' pass (put_s ''ACCT_NAME'' acctName (put_i ''ID'' (sint ID) (event_of AUTH)))"

definition ServerThreadTCPReceive ::
  "(string \<Rightarrow> EngineEvent option) \<Rightarrow> EngineEvent \<Rightarrow> int \<Rightarrow> nat \<Rightarrow> string option \<Rightarrow> NetEngine act" where
  "ServerThreadTCPReceive decode memory acct_memory socket buffer =
     op_then (SyncReceive decode memory socket buffer) (\<lambda>ne.
       if mType ne \<noteq> MSG_NICK then refuse socket ''You must give your nick before anything''
       else if at_s ne ''ACCT_NAME'' = [] then refuse socket ''Player's name cannot be empty''
       else
         and_then (effect (\<lambda>s. s\<lparr>auth_id := auth_id s + 1\<rparr>))
           (and_then (effect (\<lambda>s. s\<lparr>mAuth := map_insert (auth_id s)
               \<lparr>auth_mAcctName = at_s ne ''ACCT_NAME'', auth_mAcctId = acct_memory,
                auth_mSocket = socket\<rparr> (mAuth s)\<rparr>))
             (\<lambda>s. SendMessageToDataBase NetRef
                (auth_request (auth_id s) (at_s ne ''ACCT_NAME'') (at_s ne ''PASS'')) s)))"

section \<open>Looking machines up\<close>

text \<open>The loops over \<open>mMachines\<close> that return the first machine of a kind, or null.\<close>

definition GetMachineFromID :: "int \<Rightarrow> NetEngine \<Rightarrow> nat option" where
  "GetMachineFromID ID s = List.find (\<lambda>m. nm_mID (machines s m) = ID) (mMachines s)"

definition GetMachineFromPlayerName :: "string \<Rightarrow> NetEngine \<Rightarrow> nat option" where
  "GetMachineFromPlayerName name s = List.find (\<lambda>m. HasNick m name s) (mMachines s)"

definition GetMachineFromAddress :: "string \<Rightarrow> NetEngine \<Rightarrow> nat option" where
  "GetMachineFromAddress name s = List.find (\<lambda>m. nm_mAddress (machines s m) = name) (mMachines s)"

definition IsAddressRegistered :: "string \<Rightarrow> NetEngine \<Rightarrow> bool" where
  "IsAddressRegistered addre s \<longleftrightarrow> (\<exists>m \<in> set (mMachines s). nm_mAddress (machines s m) = addre)"

definition RemoveConsole :: "nat \<Rightarrow> NetEngine \<Rightarrow> NetEngine" where
  "RemoveConsole c s = s\<lparr>mConsoles := remove1 c (mConsoles s)\<rparr>"

section \<open>Authentication\<close>

definition accept_event :: EngineEvent where
  "accept_event = put_i ''ACCEPTED'' 1 (event_of MSG_NICK)"

definition AcceptAuth :: "NetworkAuth \<Rightarrow> NetEngine act" where
  "AcceptAuth auth =
     op_then GetNextMachineID (\<lambda>ID.
     op_then (NetMachine_new (auth_mSocket auth) ID (auth_mAcctId auth) (auth_mAcctName auth)) (\<lambda>n.
     and_then (SendMessageToDataBase NetRef (put_i ''ACCT_ID'' (auth_mAcctId auth) (event_of WELCOME)))
       (and_then (effect (\<lambda>s. s\<lparr>mMachines := mMachines s @ [n]\<rparr>))
         (TCPSend n accept_event))))"

definition RejectAuth :: "NetworkAuth \<Rightarrow> NetEngine act" where
  "RejectAuth auth = refuse (auth_mSocket auth) ''Wrong password''"

text \<open>The answer of the data base, or what looks like one.\<close>

definition ProcessAuth :: "EngineEvent \<Rightarrow> NetEngine act" where
  "ProcessAuth ent s =
     with_res (need ''ACCEPTED'' (find_i ent ''ACCEPTED'')) (\<lambda>accepted.
     with_res (need ''ID'' (find_i ent ''ID'')) (\<lambda>ID s.
       case map_find (mAuth s) (word_of_int ID) of
         None \<Rightarrow> done_with s
       | Some auth \<Rightarrow>
           if accepted = 0 then RejectAuth auth s
           else with_res (need ''ACCT_ID'' (find_i ent ''ACCT_ID''))
                  (\<lambda>acctId. AcceptAuth (auth\<lparr>auth_mAcctId := acctId\<rparr>)) s)) s"

text \<open>
  \<open>DisconnectAcct\<close>: while a machine has the nick, it is disconnected. The accumulator is the
  account of the last one.
\<close>

definition deco_event :: EngineEvent where
  "deco_event = put_s ''REASON'' ''Connected from another computer'' (event_of REMOVE_MACHINE)"

partial_function (option) disconnect_all ::
  "string \<Rightarrow> int \<Rightarrow> NetEngine \<Rightarrow> (int \<times> fault option \<times> NetEngine) option" where
  "disconnect_all acctName acctId s =
     (case GetMachineFromPlayerName acctName s of
        None \<Rightarrow> Some (acctId, None, s)
      | Some m \<Rightarrow>
          let acctId' = nm_mAcctID (machines s m)
          in (case Disconnect m deco_event s of
                (None, s') \<Rightarrow> disconnect_all acctName acctId' s'
              | (Some f, s') \<Rightarrow> Some (acctId', Some f, s')))"

definition DisconnectAcct :: "string \<Rightarrow> NetEngine \<Rightarrow> (fault option \<times> NetEngine) option" where
  "DisconnectAcct acctName s =
     map_option (\<lambda>(acctId, r, s'). if r \<noteq> None then (r, s')
        else if -1 < acctId then SendMessageToDataBase NetRef (remove_machine_event acctId) s'
        else (None, s')) (disconnect_all acctName (-1) s)"

section \<open>Events from the other engines\<close>

text \<open>Four handlers pass an event on to the machine it names.\<close>

definition forward_to_machine :: "EngineEvent \<Rightarrow> NetEngine act" where
  "forward_to_machine ent s =
     with_res (need ''ID'' (find_i ent ''ID'')) (\<lambda>ID s.
       case GetMachineFromID ID s of
         None \<Rightarrow> done_with s
       | Some m \<Rightarrow> TCPSend m ent s) s"

definition ProcessEnvironmentInfo :: "EngineEvent \<Rightarrow> NetEngine act" where
  "ProcessEnvironmentInfo = forward_to_machine"

definition ProcessNpcProp :: "EngineEvent \<Rightarrow> NetEngine act" where
  "ProcessNpcProp = forward_to_machine"

definition ProcessPlayerProp :: "EngineEvent \<Rightarrow> NetEngine act" where
  "ProcessPlayerProp = forward_to_machine"

definition ProcessCharactersList :: "EngineEvent \<Rightarrow> NetEngine act" where
  "ProcessCharactersList = forward_to_machine"

text \<open>The index of the first machine of a number.\<close>

fun index_of_ID :: "(nat \<Rightarrow> NetMachine) \<Rightarrow> int \<Rightarrow> nat list \<Rightarrow> nat option" where
  "index_of_ID M ID [] = None"
| "index_of_ID M ID (m # ms) =
     (if nm_mID (M m) = ID then Some 0 else map_option Suc (index_of_ID M ID ms))"

definition ProcessRemoveMachine :: "EngineEvent \<Rightarrow> NetEngine act" where
  "ProcessRemoveMachine ent s =
     with_res (need ''ID'' (find_i ent ''ID'')) (\<lambda>ID s.
       case index_of_ID (machines s) ID (mMachines s) of
         None \<Rightarrow> done_with s
       | Some i \<Rightarrow>
           and_then (SaveMove (mMachines s ! i))
             (and_then (\<lambda>s. SendMessageToDataBase NetRef
                          (remove_machine_event (nm_mAcctID (machines s (mMachines s ! i)))) s)
               (effect (mMachines_update (erase_at i)))) s) s"

text \<open>The virtual methods of the network engine; the others do nothing.\<close>

definition net_method :: "slot \<Rightarrow> EngineEvent \<Rightarrow> NetEngine act" where
  "net_method v ent =
     (case v of
        vCharactersList \<Rightarrow> ProcessCharactersList ent
      | vRemoveMachine \<Rightarrow> ProcessRemoveMachine ent
      | vPlayerProp \<Rightarrow> ProcessPlayerProp ent
      | vNpcProp \<Rightarrow> ProcessNpcProp ent
      | vEnvironmentInfo \<Rightarrow> ProcessEnvironmentInfo ent
      | vAuth \<Rightarrow> ProcessAuth ent
      | _ \<Rightarrow> done_with)"

section \<open>Events from the clients\<close>

text \<open>
  \<open>for (i = 0; i < mMachines.size(); i++) if (p(i)) mMachines.at(i)->TCPSend(ent)\<close>: a machine
  whose send fails leaves the vector, and the index goes on all the same.
\<close>

function broadcast :: "(nat \<Rightarrow> NetEngine \<Rightarrow> bool) \<Rightarrow> EngineEvent \<Rightarrow> nat \<Rightarrow> NetEngine act" where
  "broadcast p ent i s =
     (if i < length (mMachines s) then
        let m = mMachines s ! i
        in if p m s then
             (case TCPSend m ent s of
                (None, s') \<Rightarrow> broadcast p ent (i + 1) s'
              | (Some f, s') \<Rightarrow> (Some f, s'))
           else broadcast p ent (i + 1) s
      else (None, s))"
  by pat_completeness auto
termination
  by (relation "measure (\<lambda>(p, ent, i, s). length (mMachines s) - i)")
    (auto simp: prod_eq_iff intro!: le_less_trans[OF diff_le_mono[OF length_TCPSend]])

declare broadcast.simps [simp del]

definition ProcessReceivedCharactersList :: "EngineEvent \<Rightarrow> NetEngine act" where
  "ProcessReceivedCharactersList ent s =
     with_res (need ''REQUEST'' (find_i ent ''REQUEST''))
       (\<lambda>r. if r \<noteq> 1 then done_with else SendMessageToDataBase NetRef ent) s"

definition ProcessReceivedDelPlayer :: "EngineEvent \<Rightarrow> NetEngine act" where
  "ProcessReceivedDelPlayer ent s =
     with_res (need ''PLAYER_NICK'' (find_s ent ''PLAYER_NICK'')) (\<lambda>playerNick s.
       case GetMachineFromPlayerName playerNick s of
         None \<Rightarrow> done_with s
       | Some m \<Rightarrow>
           let eDelPlayer = put_i ''PLAYER_ID'' (GetPlayerID m s)
                 (put_s ''PLAYER_NICK'' playerNick (event_of DEL_PLAYER))
           in and_then (SendMessageToDataBase NetRef eDelPlayer)
                (broadcast (\<lambda>n s. \<not> HasNick n playerNick s) eDelPlayer 0) s) s"

definition ProcessReceivedLoad :: "EngineEvent \<Rightarrow> NetEngine act" where
  "ProcessReceivedLoad ent = done_with"

definition ProcessReceivedPlayerPos :: "EngineEvent \<Rightarrow> NetEngine act" where
  "ProcessReceivedPlayerPos ent s =
     with_res (need ''ID'' (find_i ent ''ID'')) (\<lambda>ID s.
       case GetMachineFromID ID s of
         None \<Rightarrow> done_with s
       | Some m \<Rightarrow>
           if nm_mPlayer (machines s m) = None then done_with s
           else and_then (Machine_Move m ent)
                  (\<lambda>s. broadcast (\<lambda>n s. nm_mID (machines s n) \<noteq> ID)
                         (put_i ''PLAYER_ID'' (GetPlayerID m s) ent) 0 s) s) s"

definition ProcessReceivedCreateCharacter :: "EngineEvent \<Rightarrow> NetEngine act" where
  "ProcessReceivedCreateCharacter ent = SendMessageToDataBase NetRef ent"

definition ProcessReceivedDeleteCharacter :: "EngineEvent \<Rightarrow> NetEngine act" where
  "ProcessReceivedDeleteCharacter ent = SendMessageToDataBase NetRef ent"

text \<open>
  \<open>ProcessReceivedCommand\<close> and \<open>ProcessReceivedConsoleCommand\<close> are declared and never defined
  in the repository: they are the arguments \<open>command\<close> and \<open>console_command\<close>.
\<close>

definition ProcessReceivedChatEvent :: "(EngineEvent \<Rightarrow> NetEngine act) \<Rightarrow> EngineEvent \<Rightarrow> NetEngine act" where
  "ProcessReceivedChatEvent command ent s =
     with_res (need ''MESSAGE'' (find_s ent ''MESSAGE'')) (\<lambda>message.
       case message of
         [] \<Rightarrow> fail_with (Throw ''out_of_range'')
       | c # _ \<Rightarrow> if c = CHR ''.'' then command ent else broadcast (\<lambda>n s. True) ent 0) s"

definition ProcessReceivedPing :: "EngineEvent \<Rightarrow> NetEngine act" where
  "ProcessReceivedPing ent s =
     with_res (need ''STATE'' (find_i ent ''STATE'')) (\<lambda>state.
     with_res (need ''ID'' (find_i ent ''ID'')) (\<lambda>ID s.
       if state = 0 then
         (case List.find (\<lambda>m. nm_mID (machines s m) = ID) (mMachines s) of
            None \<Rightarrow> done_with s
          | Some m \<Rightarrow> TCPSend m (put_i ''STATE'' 1 ent) s)
       else done_with s)) s"

definition ProcessReceivedPlayerProp :: "EngineEvent \<Rightarrow> NetEngine act" where
  "ProcessReceivedPlayerProp ent = SendMessageToDataBase NetRef ent"

definition ProcessReceivedNpcProp :: "EngineEvent \<Rightarrow> NetEngine act" where
  "ProcessReceivedNpcProp ent = SendMessageToDataBase NetRef ent"

text \<open>The methods the second table can name, and the table: its last line is not like the others.\<close>

datatype recv_slot =
    rMsgNick | rCharactersList | rGameProp | rWelcome | rRefused | rNewPlayer | rRunMulti |
    rSendGameProp | rDelPlayer | rLoad | rAddNode | rRemNode | rMoveNode | rRemoveMachine |
    rRemoveConsole | rPlayerPos | rNpcPos | rCreateCharacter | rDeleteCharacter | rItemProp |
    rChatEvent | rPing | rTargetChanged | rPlayerProp | rNpcProp | rConsoleCommand |
    rEnvironmentInfo | rPlaySound | rAuth | rProcessAuth


definition ProcessReceivedEvent_tab :: "(EEType \<times> recv_slot) list" where
  "ProcessReceivedEvent_tab =
     [(MSG_NICK, rMsgNick), (CHARACTERS_LIST, rCharactersList), (GAME_PROP, rGameProp),
      (WELCOME, rWelcome), (REFUSED, rRefused), (NEW_PLAYER, rNewPlayer), (RUN_MULTI, rRunMulti),
      (SEND_GAME_PROP, rSendGameProp), (DEL_PLAYER, rDelPlayer), (LOAD, rLoad),
      (ADD_NODE, rAddNode), (REM_NODE, rRemNode), (MOVE_NODE, rMoveNode),
      (REMOVE_MACHINE, rRemoveMachine), (REMOVE_CONSOLE, rRemoveConsole),
      (PLAYER_POS, rPlayerPos), (NPC_POS, rNpcPos), (CREATE_CHARACTER, rCreateCharacter),
      (DELETE_CHARACTER, rDeleteCharacter), (ITEM_PROP, rItemProp), (CHAT_EVENT, rChatEvent),
      (PING, rPing), (TARGET_CHANGED, rTargetChanged), (PLAYER_PROP, rPlayerProp),
      (NPC_PROP, rNpcProp), (CONSOLE_COMMAND, rConsoleCommand),
      (ENVIRONMENT_INFO, rEnvironmentInfo), (PLAY_SOUND, rPlaySound), (AUTH, rProcessAuth)]"

definition recv_method ::
  "(EngineEvent \<Rightarrow> NetEngine act) \<Rightarrow> (EngineEvent \<Rightarrow> NetEngine act) \<Rightarrow> recv_slot \<Rightarrow> EngineEvent \<Rightarrow> NetEngine act"
where
  "recv_method command console_command v ent =
     (case v of
        rCharactersList \<Rightarrow> ProcessReceivedCharactersList ent
      | rDelPlayer \<Rightarrow> ProcessReceivedDelPlayer ent
      | rLoad \<Rightarrow> ProcessReceivedLoad ent
      | rPlayerPos \<Rightarrow> ProcessReceivedPlayerPos ent
      | rCreateCharacter \<Rightarrow> ProcessReceivedCreateCharacter ent
      | rDeleteCharacter \<Rightarrow> ProcessReceivedDeleteCharacter ent
      | rChatEvent \<Rightarrow> ProcessReceivedChatEvent command ent
      | rPing \<Rightarrow> ProcessReceivedPing ent
      | rPlayerProp \<Rightarrow> ProcessReceivedPlayerProp ent
      | rNpcProp \<Rightarrow> ProcessReceivedNpcProp ent
      | rConsoleCommand \<Rightarrow> console_command ent
      | rProcessAuth \<Rightarrow> ProcessAuth ent
      | _ \<Rightarrow> done_with)"

definition ProcessReceivedEvent ::
  "(EngineEvent \<Rightarrow> NetEngine act) \<Rightarrow> (EngineEvent \<Rightarrow> NetEngine act) \<Rightarrow> EngineEvent \<Rightarrow> NetEngine act"
where
  "ProcessReceivedEvent command console_command =
     dispatch ProcessReceivedEvent_tab (recv_method command console_command)"

definition ProcessReceivedQueue ::
  "(EngineEvent \<Rightarrow> NetEngine act) \<Rightarrow> (EngineEvent \<Rightarrow> NetEngine act) \<Rightarrow> NetEngine
     \<Rightarrow> (fault option \<times> NetEngine) option" where
  "ProcessReceivedQueue command console_command =
     drain mReceivedEvents (\<lambda>q s. s\<lparr>mReceivedEvents := q\<rparr>) (ProcessReceivedEvent command console_command)"

text \<open>
  The events that reach one of the two methods without a definition: a command of a console, and a line of chat that starts
  with a dot. What holds of all other events holds whatever the two methods are.
\<close>

definition runs_command :: "EngineEvent \<Rightarrow> bool" where
  "runs_command ent \<longleftrightarrow>
     EEType_value (mType ent) = EEType_value CONSOLE_COMMAND \<or>
     EEType_value (mType ent) = EEType_value CHAT_EVENT \<and>
       (case find_s ent ''MESSAGE'' of Some (c # text) \<Rightarrow> c = CHR ''.'' | _ \<Rightarrow> False)"

lemma console_command_slot:
  "\<forall>k < 29. snd (ProcessReceivedEvent_tab ! k) = rConsoleCommand \<longrightarrow> int k = EEType_value CONSOLE_COMMAND"
  "\<forall>k < 29. snd (ProcessReceivedEvent_tab ! k) = rChatEvent \<longrightarrow> int k = EEType_value CHAT_EVENT"
  by (simp_all add: ProcessReceivedEvent_tab_def All_less_Suc numeral_eq_Suc)

lemma ProcessReceivedEvent_other:
  assumes "\<not> runs_command ent"
  shows "ProcessReceivedEvent command console_command ent = ProcessReceivedEvent command' console_command' ent"
proof -
  have chat: "ProcessReceivedChatEvent command ent = ProcessReceivedChatEvent command' ent"
    if "EEType_value (mType ent) = EEType_value CHAT_EVENT"
    using assms that by (intro ext, cases "find_s ent ''MESSAGE''")
      (auto simp: ProcessReceivedChatEvent_def runs_command_def split: list.splits)
  have "recv_method command console_command (snd (ProcessReceivedEvent_tab ! nat n)) ent =
      recv_method command' console_command' (snd (ProcessReceivedEvent_tab ! nat n)) ent"
    if n: "n = EEType_value (mType ent)" "0 \<le> n" "n < 29" for n
  proof (cases "snd (ProcessReceivedEvent_tab ! nat n)")
    case rChatEvent
    then have "n = EEType_value CHAT_EVENT" using console_command_slot(2)[rule_format, of "nat n"] n(2,3) by simp
    then show ?thesis using chat n(1) rChatEvent by (simp add: recv_method_def)
  next
    case rConsoleCommand
    then have "n = EEType_value CONSOLE_COMMAND" using console_command_slot(1)[rule_format, of "nat n"] n(2,3) by simp
    then show ?thesis using assms n(1) by (simp add: runs_command_def)
  qed (simp_all add: recv_method_def)
  moreover have "int (length ProcessReceivedEvent_tab) = 29" by (simp add: ProcessReceivedEvent_tab_def)
  ultimately show ?thesis by (intro ext) (simp add: ProcessReceivedEvent_def dispatch_def Let_def)
qed

text \<open>The frame of the network engine: first one queue, then the other.\<close>

definition Frame ::
  "(EngineEvent \<Rightarrow> NetEngine act) \<Rightarrow> (EngineEvent \<Rightarrow> NetEngine act) \<Rightarrow> NetEngine
     \<Rightarrow> (fault option \<times> NetEngine) option" where
  "Frame command console_command s =
     (case ProcessQueue net_method NetRef s of
        Some (None, s') \<Rightarrow> ProcessReceivedQueue command console_command s'
      | r \<Rightarrow> r)"

text \<open>The frame while other threads work on the engine.\<close>

definition Frame_shared ::
  "(nat \<Rightarrow> NetEngine \<Rightarrow> NetEngine) \<Rightarrow> (EngineEvent \<Rightarrow> NetEngine act) \<Rightarrow> (EngineEvent \<Rightarrow> NetEngine act) \<Rightarrow> NetEngine
     \<Rightarrow> (fault option \<times> NetEngine) option" where
  "Frame_shared arrive command console_command s =
     (case drain_shared arrive (\<lambda>s. events s NetRef) (set_events NetRef) (ProcessEvent net_method) 0 s of
        Some (None, k, s') \<Rightarrow>
          map_option (\<lambda>(r, j, t). (r, t))
            (drain_shared arrive mReceivedEvents (\<lambda>q s. s\<lparr>mReceivedEvents := q\<rparr>)
               (ProcessReceivedEvent command console_command) k s')
      | r \<Rightarrow> map_option (\<lambda>(r, j, t). (r, t)) r)"

text \<open>The virtual \<open>PushReceivedEvent\<close> of the three devices.\<close>

definition push_received :: "device \<Rightarrow> EngineEvent \<Rightarrow> NetEngine \<Rightarrow> NetEngine" where
  "push_received dev =
     (case dev of
        DevEngine \<Rightarrow> Engine_PushReceivedEvent
      | DevMachine m \<Rightarrow> Machine_PushReceivedEvent m
      | DevConsole c \<Rightarrow> Console_PushReceivedEvent c)"

section \<open>Stopping\<close>

text \<open>
  The destructor disconnects everyone while it walks through the vectors. A machine takes
  itself off \<open>mMachines\<close> when it is disconnected, and the iterator that pointed at it has no
  meaning from then on.
\<close>

fun delete_consoles :: "nat list \<Rightarrow> NetEngine act" where
  "delete_consoles [] s = (None, s)"
| "delete_consoles (c # cs) s =
     and_then (Console_Disconnect c (event_of REFUSED))
       (and_then (effect (NetConsole_delete c)) (delete_consoles cs)) s"

function delete_machines :: "nat \<Rightarrow> NetEngine act" where
  "delete_machines i s =
     (if i < length (mMachines s) then
        (case Disconnect (mMachines s ! i) (event_of REFUSED) s of
           (None, s') \<Rightarrow>
             if mMachines s' \<noteq> mMachines s then (Some (Undefined ''invalidated iterator''), s')
             else delete_machines (i + 1) s'
         | (Some f, s') \<Rightarrow> (Some f, s'))
      else (None, s))"
  by pat_completeness auto
termination
  by (relation "measure (\<lambda>(i, s). length (mMachines s) - i)") auto

declare delete_machines.simps [simp del]

definition delete_socket :: "pointer \<Rightarrow> NetEngine act" where
  "delete_socket p s =
     (case p of
        Unset \<Rightarrow> fail_with (Undefined ''pointer never assigned'') s
      | Null \<Rightarrow> done_with s
      | At so \<Rightarrow> done_with (TcpSocket_delete so (Close so s)))"

definition NetEngine_delete :: "NetEngine act" where
  "NetEngine_delete s =
     (case and_then (\<lambda>s. delete_consoles (mConsoles s) s)
             (and_then (delete_machines 0)
               (and_then (\<lambda>s. delete_socket (mTcpSocketCons s) s)
                 (\<lambda>s. delete_socket (mTcpSocket s) s))) s of
        (Some (Throw t), s') \<Rightarrow> (None, s')
      | r \<Rightarrow> r)"

end
