(* ===== verification/NetInvariant.thy ===== *)
theory NetInvariant
imports SNetEngine
begin

text \<open>
  The invariant of the network engine and its preservation by every operation: the list of
  machines has no duplicates, its machines are allocated, usable, not being deleted, and have
  distinct numbers below the next one; every socket the engine remembers is there.
\<close>

section \<open>The invariant\<close>

definition listed_ok :: "NetEngine \<Rightarrow> nat \<Rightarrow> bool" where
  "listed_ok s m \<longleftrightarrow>
     m < next_machine s \<and> \<not> nm_mDeleting (machines s m) \<and> nm_mMoveCpt (machines s m) < 50 \<and>
     1 \<le> nm_mID (machines s m) \<and> nm_mID (machines s m) < mNextMachineID s \<and>
     (\<exists>so. nm_mTcpSocket (machines s m) = Some so \<and> so < next_socket s)"

definition net_inv :: "NetEngine \<Rightarrow> bool" where
  "net_inv s \<longleftrightarrow>
     linked s \<and> distinct (mMachines s) \<and>
     inj_on (\<lambda>m. nm_mID (machines s m)) (set (mMachines s)) \<and>
     (\<forall>m \<in> set (mMachines s). listed_ok s m) \<and>
     (\<forall>so < next_socket s. so_mSocket (sockets s so)) \<and>
     (\<forall>e \<in> set (mAuth s). auth_mSocket (snd e) < next_socket s) \<and> map_wf (mAuth s) \<and>
     1 \<le> mNextMachineID s \<and>
     set (accepts s) \<union> set (accepts_cons s) \<union> set (threads s) \<union> set (threads_cons s) \<subseteq> {..<next_socket s}"

lemma net_invD:
  assumes "net_inv s"
  shows "linked s" "distinct (mMachines s)" "inj_on (\<lambda>m. nm_mID (machines s m)) (set (mMachines s))"
    and "m \<in> set (mMachines s) \<Longrightarrow> listed_ok s m"
    and "so < next_socket s \<Longrightarrow> so_mSocket (sockets s so)"
    and "map_find (mAuth s) i = Some a \<Longrightarrow> auth_mSocket a < next_socket s"
    and "map_wf (mAuth s)" "1 \<le> mNextMachineID s"
    and "so \<in> set (accepts s) \<union> set (accepts_cons s) \<union> set (threads s) \<union> set (threads_cons s) \<Longrightarrow> so < next_socket s"
  using assms by (auto simp: net_inv_def map_find_def dest!: map_of_SomeD)

lemma listed_machine_ok: "net_inv s \<Longrightarrow> m \<in> set (mMachines s) \<Longrightarrow> machine_ok s m"
  using net_invD(4)[of s m] net_invD(5)[of s] by (auto simp: listed_ok_def machine_ok_def usable_def)

lemma TCPSend_inv: "net_inv s \<Longrightarrow> m \<in> set (mMachines s) \<Longrightarrow> TCPSend m ent s = (None, told m ent s)"
  by (intro TCPSend_ok listed_machine_ok net_invD(1))

text \<open>What the invariant does not look at: the queues, and the characters sent.\<close>

lemma net_inv_PushEvent [simp]: "net_inv (PushEvent r e s) = net_inv s"
  by (simp add: net_inv_def listed_ok_def)

lemma net_inv_set_events [simp]: "net_inv (set_events r q s) = net_inv s"
proof -
  have "accepts (set_events r q s) = accepts s" "accepts_cons (set_events r q s) = accepts_cons s"
    "threads (set_events r q s) = threads s" "threads_cons (set_events r q s) = threads_cons s"
    by (simp_all add: set_events_def set_engine_def)
  then show ?thesis by (simp add: net_inv_def listed_ok_def)
qed

lemma net_inv_received [simp]: "net_inv (s\<lparr>mReceivedEvents := q\<rparr>) = net_inv s"
  by (simp add: net_inv_def listed_ok_def linked_def)

lemma net_inv_deliver [simp]: "net_inv (deliver so ent s) = net_inv s"
  by (simp add: net_inv_def listed_ok_def)

lemma net_inv_removed: "net_inv s \<Longrightarrow> net_inv (removed m s)"
proof -
  assume i: "net_inv s"
  have fr: "accepts (removed m s) = accepts s" "accepts_cons (removed m s) = accepts_cons s"
    "threads (removed m s) = threads s" "threads_cons (removed m s) = threads_cons s"
    by (simp_all add: removed_def SetDeleting_def)
  have sub: "set (remove1 m (mMachines s)) \<subseteq> set (mMachines s) - {m}"
    using net_invD(2)[OF i] by (simp add: set_remove1_eq)
  have "listed_ok (removed m s) n" if "n \<in> set (remove1 m (mMachines s))" for n
    using net_invD(4)[OF i, of n] sub that by (auto simp: listed_ok_def)
  moreover have "inj_on (\<lambda>n. nm_mID (machines (removed m s) n)) (set (remove1 m (mMachines s)))"
  proof -
    have "(\<lambda>n. nm_mID (machines (removed m s) n)) = (\<lambda>n. nm_mID (machines s n))"
      by (rule ext) simp
    then show ?thesis using inj_on_subset[OF net_invD(3)[OF i]] sub by auto
  qed
  moreover have "linked (removed m s)" "distinct (remove1 m (mMachines s))"
    using net_invD(1,2)[OF i] by simp_all
  moreover have "\<forall>e \<in> set (mAuth s). auth_mSocket (snd e) < next_socket s"
    "set (accepts s) \<union> set (accepts_cons s) \<union> set (threads s) \<union> set (threads_cons s) \<subseteq> {..<next_socket s}"
    "\<forall>so < next_socket s. so_mSocket (sockets s so)" "map_wf (mAuth s)" "1 \<le> mNextMachineID s"
    using i by (auto simp: net_inv_def)
  ultimately show ?thesis
    unfolding net_inv_def fr by (simp only: removed_frame simp_thms ball_simps) blast
qed

lemma net_inv_told: "net_inv s \<Longrightarrow> net_inv (told m ent s)"
  by (simp add: told_def net_inv_removed)

lemma events_told: "events (told m ent s) r =
    (if r = DataBaseRef \<and> \<not> machine_sends s m
     then events s r @ [remove_machine_event (nm_mAcctID (machines s m))] else events s r)"
  by (simp add: told_def)

lemma set_mMachines_told: "set (mMachines (told m ent s)) \<subseteq> set (mMachines s)"
  by (simp add: mMachines_told set_remove1_subset)

section \<open>Operations that keep it\<close>

text \<open>
  A handler is \<open>safe\<close> when it keeps the invariant, whether it fails or not, and pushes nothing
  on the queues of the network engine itself.
\<close>

definition safe :: "NetEngine act \<Rightarrow> bool" where
  "safe a \<longleftrightarrow> (\<forall>s. net_inv s \<longrightarrow> net_inv (snd (a s)) \<and> events (snd (a s)) NetRef = events s NetRef \<and>
     mReceivedEvents (snd (a s)) = mReceivedEvents s)"

lemma safeI:
  "(\<And>s. net_inv s \<Longrightarrow> net_inv (snd (a s)) \<and> events (snd (a s)) NetRef = events s NetRef \<and>
     mReceivedEvents (snd (a s)) = mReceivedEvents s) \<Longrightarrow> safe a"
  by (simp add: safe_def)

lemma safeD:
  assumes "safe a" "net_inv s"
  shows "net_inv (snd (a s))" "events (snd (a s)) NetRef = events s NetRef"
    "mReceivedEvents (snd (a s)) = mReceivedEvents s"
  using assms by (auto simp: safe_def)

named_theorems safe_intros \<open>operations that keep the invariant of the network engine\<close>

lemma safe_done [safe_intros]: "safe done_with" and safe_fail [safe_intros]: "safe (fail_with f)"
  by (auto intro!: safeI)

lemma safe_and_then [safe_intros]:
  assumes "safe a" "safe b"
  shows "safe (and_then a b)"
proof (rule safeI)
  fix s assume i: "net_inv s"
  obtain r s' where a: "a s = (r, s')" by (cases "a s")
  note s' = safeD[OF assms(1) i, unfolded a snd_conv]
  show "net_inv (snd (and_then a b s)) \<and> events (snd (and_then a b s)) NetRef = events s NetRef \<and>
     mReceivedEvents (snd (and_then a b s)) = mReceivedEvents s"
    using s' safeD[OF assms(2) s'(1)] by (cases r) (simp_all add: a)
qed

lemma safe_with_res [safe_intros]:
  assumes "\<And>x. r = Inr x \<Longrightarrow> safe (k x)"
  shows "safe (with_res r k)"
proof (rule safeI)
  fix s assume "net_inv s"
  then show "net_inv (snd (with_res r k s)) \<and> events (snd (with_res r k s)) NetRef = events s NetRef \<and>
     mReceivedEvents (snd (with_res r k s)) = mReceivedEvents s"
    using assms safeD by (cases r) simp_all
qed

lemma safe_send_db [safe_intros]: "safe (SendMessageToDataBase NetRef e)"
  by (rule safeI) (simp add: net_invD(1))

lemma safe_tell: "net_inv s \<Longrightarrow> m \<in> set (mMachines s) \<Longrightarrow>
    net_inv (snd (TCPSend m e s)) \<and> events (snd (TCPSend m e s)) NetRef = events s NetRef \<and>
    mReceivedEvents (snd (TCPSend m e s)) = mReceivedEvents s"
  by (simp add: TCPSend_inv net_inv_told events_told)

lemma machine_from_listed:
  "GetMachineFromID ID s = Some m \<Longrightarrow> m \<in> set (mMachines s) \<and> nm_mID (machines s m) = ID"
  "GetMachineFromPlayerName name s = Some m \<Longrightarrow> m \<in> set (mMachines s) \<and> HasNick m name s"
  "GetMachineFromAddress a s = Some m \<Longrightarrow> m \<in> set (mMachines s) \<and> nm_mAddress (machines s m) = a"
  by (auto simp: GetMachineFromID_def GetMachineFromPlayerName_def GetMachineFromAddress_def
      dest: find_Some_in_set)

lemma safe_forward [safe_intros]: "safe (forward_to_machine ent)"
  by (rule safeI)
    (auto simp: forward_to_machine_def with_res_def safe_tell machine_from_listed split: sum.split option.split)

text \<open>Changes to a listed machine that leave its number, its socket and its state of life.\<close>

lemma net_inv_set_machine:
  assumes "net_inv s" "nm_mID k = nm_mID (machines s m)" "nm_mTcpSocket k = nm_mTcpSocket (machines s m)"
    "nm_mDeleting k = nm_mDeleting (machines s m)" "nm_mMoveCpt k < 50"
  shows "net_inv (set_machine m k s)"
proof -
  have "(\<lambda>n. nm_mID (machines (set_machine m k s) n)) = (\<lambda>n. nm_mID (machines s n))"
    using assms(2) by auto
  then show ?thesis using assms by (auto simp: net_inv_def listed_ok_def)
qed

lemma safe_SaveMove [safe_intros]: "safe (SaveMove m)"
proof (rule safeI)
  fix s assume i: "net_inv s"
  have reset: "net_inv (set_machine m ((machines s m)\<lparr>nm_mMoveCpt := 0\<rparr>) s)" if "net_inv s" for s
    by (rule net_inv_set_machine[OF that]) simp_all
  show "net_inv (snd (SaveMove m s)) \<and> events (snd (SaveMove m s)) NetRef = events s NetRef \<and>
     mReceivedEvents (snd (SaveMove m s)) = mReceivedEvents s"
  proof (cases "nm_mPlayer (machines s m)")
    case None
    then show ?thesis using reset[OF i] by (simp add: SaveMove_def)
  next
    case (Some p)
    then show ?thesis using i reset[of "PushEvent DataBaseRef (put_i ''PLAYER_ID'' (GetPlayerID m s) (GetPos p)) s"]
      by (simp add: SaveMove_def net_invD(1))
  qed
qed

lemma SaveMove_frame:
  assumes "linked s"
  shows "fst (SaveMove m s) = None" "mMachines (snd (SaveMove m s)) = mMachines s"
    "nm_mID (machines (snd (SaveMove m s)) n) = nm_mID (machines s n)"
    "nm_mAcctID (machines (snd (SaveMove m s)) n) = nm_mAcctID (machines s n)"
    "linked (snd (SaveMove m s))"
  using assms by (cases "nm_mPlayer (machines s m)"; simp add: SaveMove_def)+

lemma index_of_ID_Some:
  "index_of_ID M ID ms = Some i \<Longrightarrow> i < length ms \<and> nm_mID (M (ms ! i)) = ID"
  by (induction ms arbitrary: i) (auto split: if_splits)

lemma net_inv_erase:
  assumes "net_inv s" "i < length (mMachines s)"
  shows "net_inv (mMachines_update (erase_at i) s)"
proof -
  have "set (erase_at i (mMachines s)) \<subseteq> set (mMachines s)" by (rule set_erase_at_subset)
  then show ?thesis using assms(1)
    by (auto simp: net_inv_def listed_ok_def linked_def distinct_erase_at intro: inj_on_subset)
qed

lemma safe_ProcessRemoveMachine [safe_intros]: "safe (ProcessRemoveMachine ent)"
proof (rule safeI)
  fix s assume i: "net_inv s"
  show "net_inv (snd (ProcessRemoveMachine ent s)) \<and>
     events (snd (ProcessRemoveMachine ent s)) NetRef = events s NetRef \<and>
     mReceivedEvents (snd (ProcessRemoveMachine ent s)) = mReceivedEvents s"
  proof (cases "find_i ent ''ID''")
    case (Some ID)
    show ?thesis
    proof (cases "index_of_ID (machines s) ID (mMachines s)")
      case (Some j)
      obtain t where sv: "SaveMove (mMachines s ! j) s = (None, t)"
        using SaveMove_frame(1)[OF net_invD(1)[OF i]] by (metis prod.collapse)
      note t = safeD[OF safe_SaveMove i, of "mMachines s ! j", unfolded sv snd_conv]
      have "j < length (mMachines t)"
        using index_of_ID_Some[OF Some] SaveMove_frame(2)[OF net_invD(1)[OF i], of "mMachines s ! j"] sv by simp
      then have "net_inv (mMachines_update (erase_at j) (PushEvent DataBaseRef e t))" for e
        using t(1) by (intro net_inv_erase) simp_all
      then show ?thesis
        using Some \<open>find_i ent ''ID'' = Some ID\<close> t
        by (simp add: ProcessRemoveMachine_def and_then_def sv net_invD(1))
    qed (use i Some in \<open>simp add: ProcessRemoveMachine_def\<close>)
  qed (use i in \<open>simp add: ProcessRemoveMachine_def\<close>)
qed

section \<open>Sockets and logins\<close>

lemma net_inv_set_socket:
  assumes "so_mSocket k = so_mSocket (sockets s so)"
  shows "net_inv (set_socket so k s) = net_inv s"
proof -
  have "so_mSocket (sockets (set_socket so k s) i) = so_mSocket (sockets s i)" for i
    using assms by simp
  then show ?thesis by (simp only: net_inv_def listed_ok_def set_socket_frame bus_frame)
qed

lemma Close_frame [simp]:
  "net_inv (Close so s) = net_inv s" "events (Close so s) r = events s r"
  "mReceivedEvents (Close so s) = mReceivedEvents s" "mMachines (Close so s) = mMachines s"
  "machines (Close so s) = machines s" "mAuth (Close so s) = mAuth s"
  by (simp_all add: Close_def net_inv_set_socket)

lemma SendEvent_snd: "snd (SendEvent so e s) = s \<or> snd (SendEvent so e s) = deliver so e s"
  by (auto simp: SendEvent_def deliver_def Let_def split: option.split)

lemma safe_refuse [safe_intros]: "safe (refuse so reason)"
proof (rule safeI)
  fix s assume i: "net_inv s"
  let ?e = "put_s ''REASON'' reason (put_i ''ACCEPTED'' 0 (event_of MSG_NICK))"
  obtain r s' where "SendEvent so ?e s = (r, s')" by (cases "SendEvent so ?e s")
  then show "net_inv (snd (refuse so reason s)) \<and>
     events (snd (refuse so reason s)) NetRef = events s NetRef \<and>
     mReceivedEvents (snd (refuse so reason s)) = mReceivedEvents s"
    using SendEvent_snd[of so ?e s] i by (cases r) (auto simp: refuse_def)
qed

lemma SetBind_frame [simp]:
  "engines (snd (SetBind so s)) = engines s"
  "next_socket (snd (SetBind so s)) = next_socket s"
  "machines (snd (SetBind so s)) = machines s"
  "next_machine (snd (SetBind so s)) = next_machine s"
  "mMachines (snd (SetBind so s)) = mMachines s"
  "mReceivedEvents (snd (SetBind so s)) = mReceivedEvents s"
  "mNextMachineID (snd (SetBind so s)) = mNextMachineID s"
  "mAuth (snd (SetBind so s)) = mAuth s"
  "auth_id (snd (SetBind so s)) = auth_id s"
  "mIsRunning (snd (SetBind so s)) = mIsRunning s"
  "archive_text (snd (SetBind so s)) = archive_text s"
  "accepts (snd (SetBind so s)) = accepts s" "accepts_cons (snd (SetBind so s)) = accepts_cons s"
  "threads (snd (SetBind so s)) = threads s" "threads_cons (snd (SetBind so s)) = threads_cons s"
  "so_mSocket (sockets (snd (SetBind so s)) k) = so_mSocket (sockets s k)"
  "so_is_open (sockets (snd (SetBind so s)) k) = so_is_open (sockets s k)"
  "so_mParent (sockets (snd (SetBind so s)) k) = so_mParent (sockets s k)"
  "so_sent (sockets (snd (SetBind so s)) k) = so_sent (sockets s k)"
  "net_takes (sockets (snd (SetBind so s)) k) = net_takes (sockets s k)"
  "net_peer (sockets (snd (SetBind so s)) k) = net_peer (sockets s k)"
  by (simp_all add: SetBind_def Let_def)

lemma SetBind_bus [simp]:
  "events (snd (SetBind so s)) r = events s r" "linked (snd (SetBind so s)) = linked s"
  by (simp_all add: events_def linked_def)

text \<open>The machine a login makes, and the engine once it is on the list.\<close>

definition login_machine :: "NetworkAuth \<Rightarrow> string \<Rightarrow> NetEngine \<Rightarrow> NetMachine" where
  "login_machine auth address s =
     \<lparr>nm_mTcpSocket = Some (auth_mSocket auth), nm_mID = mNextMachineID s,
      nm_mAcctID = auth_mAcctId auth, nm_mAcctName = auth_mAcctName auth, nm_mAddress = address,
      nm_mMoveCpt = 0, nm_mDeleting = False, nm_mPlayer = None\<rparr>"

definition new_machine_object :: "NetworkAuth \<Rightarrow> string \<Rightarrow> NetEngine \<Rightarrow> NetEngine" where
  "new_machine_object auth address s =
     set_machine (next_machine s) (login_machine auth address s)
       (SetParent (auth_mSocket auth) (DevMachine (next_machine s))
         (s\<lparr>mNextMachineID := mNextMachineID s + 1, next_machine := Suc (next_machine s)\<rparr>))"

definition enrolled :: "NetworkAuth \<Rightarrow> string \<Rightarrow> NetEngine \<Rightarrow> NetEngine" where
  "enrolled auth address s =
     (let t = PushEvent DataBaseRef (put_i ''ACCT_ID'' (auth_mAcctId auth) (event_of WELCOME))
                (snd (SetBind (auth_mSocket auth) (new_machine_object auth address s)))
      in t\<lparr>mMachines := mMachines t @ [next_machine s]\<rparr>)"

lemma enrolled_frame [simp]:
  "mMachines (enrolled auth address s) = mMachines s @ [next_machine s]"
  "machines (enrolled auth address s) = (machines s)(next_machine s := login_machine auth address s)"
  "next_machine (enrolled auth address s) = Suc (next_machine s)"
  "next_socket (enrolled auth address s) = next_socket s"
  "mNextMachineID (enrolled auth address s) = mNextMachineID s + 1"
  "mReceivedEvents (enrolled auth address s) = mReceivedEvents s"
  "mAuth (enrolled auth address s) = mAuth s"
  "mIsRunning (enrolled auth address s) = mIsRunning s"
  "archive_text (enrolled auth address s) = archive_text s"
  "accepts (enrolled auth address s) = accepts s"
  "accepts_cons (enrolled auth address s) = accepts_cons s"
  "threads (enrolled auth address s) = threads s"
  "threads_cons (enrolled auth address s) = threads_cons s"
  "so_mSocket (sockets (enrolled auth address s) k) = so_mSocket (sockets s k)"
  "so_is_open (sockets (enrolled auth address s) k) = so_is_open (sockets s k)"
  "so_sent (sockets (enrolled auth address s) k) = so_sent (sockets s k)"
  "net_takes (sockets (enrolled auth address s) k) = net_takes (sockets s k)"
  "so_mParent (sockets (enrolled auth address s) k) =
     (if k = auth_mSocket auth then DevMachine (next_machine s) else so_mParent (sockets s k))"
  by (simp_all add: enrolled_def Let_def new_machine_object_def SetParent_def)

lemma enrolled_bus [simp]:
  "linked (enrolled auth address s) = linked s"
  "events (enrolled auth address s) r =
     (if r = DataBaseRef
      then events s r @ [put_i ''ACCT_ID'' (auth_mAcctId auth) (event_of WELCOME)] else events s r)"
  by (simp_all add: enrolled_def Let_def new_machine_object_def SetParent_def) (simp_all add: events_def linked_def)

lemma net_inv_enrolled:
  assumes i: "net_inv s" and "auth_mSocket auth < next_socket s"
  shows "net_inv (enrolled auth address s)"
proof -
  have old: "m < next_machine s \<and> nm_mID (machines s m) < mNextMachineID s" if "m \<in> set (mMachines s)" for m
    using net_invD(4)[OF i that] by (simp add: listed_ok_def)
  then have fresh: "next_machine s \<notin> set (mMachines s)" by auto
  have le: "nm_mID (machines s m) \<le> mNextMachineID s" if "m \<in> set (mMachines s)" for m
    using old[OF that] by simp
  have ok: "\<forall>m \<in> set (mMachines (enrolled auth address s)). listed_ok (enrolled auth address s) m"
    using net_invD(4)[OF i] net_invD(8)[OF i] assms(2) fresh le
    by (auto simp: listed_ok_def login_machine_def less_Suc_eq)
  have inj: "inj_on (\<lambda>m. nm_mID (machines (enrolled auth address s) m)) (set (mMachines (enrolled auth address s)))"
  proof -
    let ?f = "\<lambda>m. nm_mID (machines (enrolled auth address s) m)"
    have same: "?f m = nm_mID (machines s m)" if "m \<in> set (mMachines s)" for m
      using fresh that by auto
    then have "inj_on ?f (set (mMachines s))"
      using net_invD(3)[OF i] by (subst inj_on_cong[where g = "\<lambda>m. nm_mID (machines s m)"]) auto
    moreover have "?f (next_machine s) \<notin> ?f ` set (mMachines s)"
    proof
      assume "?f (next_machine s) \<in> ?f ` set (mMachines s)"
      then obtain m where m: "m \<in> set (mMachines s)" "?f (next_machine s) = ?f m" by blast
      have "?f (next_machine s) = mNextMachineID s" by (simp add: login_machine_def)
      then show False using m same[OF m(1)] old[OF m(1)] by linarith
    qed
    ultimately show ?thesis using fresh by simp
  qed
  show ?thesis
    unfolding net_inv_def
    by (intro conjI inj ok) (use i fresh in \<open>auto simp: net_inv_def\<close>)
qed

lemma AcceptAuth_ok:
  assumes i: "net_inv s" and so: "auth_mSocket auth < next_socket s"
    and "mNextMachineID s \<noteq> INT_LIMIT" "net_peer (sockets s (auth_mSocket auth)) = Some address"
  shows "AcceptAuth auth s = (None, told (next_machine s) accept_event (enrolled auth address s))"
proof -
  let ?s = "s\<lparr>mNextMachineID := mNextMachineID s + 1\<rparr>"
  have ID: "GetNextMachineID s = (Inr (mNextMachineID s), ?s)" using assms(3) by (simp add: GetNextMachineID_def)
  have sock: "so_mSocket (sockets s (auth_mSocket auth))" using net_invD(5)[OF i so] .
  have m: "set_machine m k' (SetParent so d (set_machine m k t)) = set_machine m k' (SetParent so d t)" for m k' k so d t
    by (simp add: set_machine_def SetParent_def set_socket_def)
  have p: "so_mSocket (sockets (SetParent so d t) k) = so_mSocket (sockets t k)"
    "net_peer (sockets (SetParent so d t) k) = net_peer (sockets t k)" for so d t k
    by (simp_all add: SetParent_def)
  have new: "NetMachine_new (auth_mSocket auth) (mNextMachineID s) (auth_mAcctId auth) (auth_mAcctName auth) ?s
      = (Inr (next_machine s), snd (SetBind (auth_mSocket auth) (new_machine_object auth address s)))"
    using sock assms(4) by (simp add: NetMachine_new_def Let_def m p new_machine_object_def login_machine_def)
  have "next_machine s \<in> set (mMachines (enrolled auth address s))" by simp
  then have tell: "TCPSend (next_machine s) accept_event (enrolled auth address s)
      = (None, told (next_machine s) accept_event (enrolled auth address s))"
    by (intro TCPSend_inv net_inv_enrolled i so)
  have "linked (snd (SetBind (auth_mSocket auth) (new_machine_object auth address s)))"
    using net_invD(1)[OF i] by (simp add: new_machine_object_def SetParent_def) (simp add: linked_def)
  then show ?thesis
    using tell by (simp add: AcceptAuth_def op_then_def ID new and_then_def enrolled_def Let_def)
qed

lemma net_inv_object:
  assumes "net_inv s" "next_machine s = m"
  shows "net_inv (SetParent so d (set_machine m k
           (s\<lparr>mNextMachineID := mNextMachineID s + 1, next_machine := Suc m\<rparr>)))" (is "net_inv ?t")
proof -
  have old: "n < m \<and> nm_mID (machines s n) < mNextMachineID s" if "n \<in> set (mMachines s)" for n
    using net_invD(4)[OF assms(1) that] assms(2) by (simp add: listed_ok_def)
  have same: "machines ?t n = machines s n" if "n \<in> set (mMachines s)" for n
    using old[OF that] by (simp add: SetParent_def)
  have ok: "\<forall>n \<in> set (mMachines s). listed_ok ?t n"
  proof
    fix n assume n: "n \<in> set (mMachines s)"
    have "next_machine ?t = Suc m" "mNextMachineID ?t = mNextMachineID s + 1" "next_socket ?t = next_socket s"
      by (simp_all add: SetParent_def)
    then show "listed_ok ?t n"
      using net_invD(4)[OF assms(1) n] assms(2) unfolding listed_ok_def same[OF n] by auto
  qed
  have inj: "inj_on (\<lambda>n. nm_mID (machines ?t n)) (set (mMachines s))"
    using net_invD(3)[OF assms(1)] same by (subst inj_on_cong[where g = "\<lambda>n. nm_mID (machines s n)"]) auto
  have fr: "linked ?t = linked s" "mMachines ?t = mMachines s" "mAuth ?t = mAuth s"
    "next_socket ?t = next_socket s" "mNextMachineID ?t = mNextMachineID s + 1"
    "accepts ?t = accepts s" "accepts_cons ?t = accepts_cons s" "threads ?t = threads s"
    "threads_cons ?t = threads_cons s" "so_mSocket (sockets ?t i) = so_mSocket (sockets s i)" for i
    by (simp_all add: SetParent_def linked_def)
  show ?thesis
    unfolding net_inv_def fr by (intro conjI inj ok) (use assms(1) in \<open>auto simp: net_inv_def\<close>)
qed

lemma AcceptAuth_safe:
  assumes i: "net_inv s" and so: "auth_mSocket auth < next_socket s"
  shows "net_inv (snd (AcceptAuth auth s)) \<and> events (snd (AcceptAuth auth s)) NetRef = events s NetRef \<and>
     mReceivedEvents (snd (AcceptAuth auth s)) = mReceivedEvents s"
proof (cases "mNextMachineID s = INT_LIMIT")
  case True
  then show ?thesis using i by (simp add: AcceptAuth_def op_then_def GetNextMachineID_def)
next
  case False
  show ?thesis
  proof (cases "net_peer (sockets s (auth_mSocket auth))")
    case None
    let ?k = "\<lparr>nm_mTcpSocket = Some (auth_mSocket auth), nm_mID = mNextMachineID s,
       nm_mAcctID = auth_mAcctId auth, nm_mAcctName = auth_mAcctName auth, nm_mAddress = [],
       nm_mMoveCpt = 0, nm_mDeleting = False, nm_mPlayer = None\<rparr>"
    let ?t = "SetParent (auth_mSocket auth) (DevMachine (next_machine s)) (set_machine (next_machine s) ?k
       (s\<lparr>mNextMachineID := mNextMachineID s + 1, next_machine := Suc (next_machine s)\<rparr>))"
    have "snd (AcceptAuth auth s) = ?t"
      using False None net_invD(5)[OF i so]
      by (simp add: AcceptAuth_def op_then_def GetNextMachineID_def NetMachine_new_def Let_def SetParent_def)
    moreover have "events ?t NetRef = events s NetRef" "mReceivedEvents ?t = mReceivedEvents s"
      by (simp_all add: SetParent_def events_def)
    ultimately show ?thesis using net_inv_object[OF i refl] by simp
  next
    case (Some address)
    then show ?thesis
      using net_inv_told[OF net_inv_enrolled[OF i so]] AcceptAuth_ok[OF i so False Some]
      by (simp add: events_told)
  qed
qed

lemma safe_ProcessAuth [safe_intros]: "safe (ProcessAuth ent)"
proof (rule safeI)
  fix s assume i: "net_inv s"
  show "net_inv (snd (ProcessAuth ent s)) \<and> events (snd (ProcessAuth ent s)) NetRef = events s NetRef \<and>
     mReceivedEvents (snd (ProcessAuth ent s)) = mReceivedEvents s"
    using i net_invD(6)[OF i] safeD[OF safe_refuse i] AcceptAuth_safe[OF i]
    by (cases "find_i ent ''ACCEPTED''"; cases "find_i ent ''ID''"; cases "find_i ent ''ACCT_ID''")
      (auto simp: ProcessAuth_def RejectAuth_def split: option.split)
qed

section \<open>Broadcasts\<close>

lemma broadcast_ok:
  "net_inv s \<Longrightarrow> fst (broadcast p ent i s) = None \<and> net_inv (snd (broadcast p ent i s)) \<and>
     events (snd (broadcast p ent i s)) NetRef = events s NetRef \<and>
     mReceivedEvents (snd (broadcast p ent i s)) = mReceivedEvents s \<and>
     set (mMachines (snd (broadcast p ent i s))) \<subseteq> set (mMachines s)"
proof (induction p ent i s rule: broadcast.induct)
  case (1 p ent i s)
  let ?m = "mMachines s ! i"
  show ?case
  proof (cases "i < length (mMachines s)")
    case True
    then have m: "?m \<in> set (mMachines s)" by simp
    show ?thesis
    proof (cases "p ?m s")
      case True
      note t = TCPSend_inv[OF 1(3) m, of ent]
      have "broadcast p ent i s = broadcast p ent (i + 1) (told ?m ent s)"
        using \<open>i < length (mMachines s)\<close> True by (subst broadcast.simps) (simp add: t)
      then show ?thesis
        using 1(1)[OF \<open>i < length (mMachines s)\<close> refl True t[symmetric] refl] net_inv_told[OF 1(3)]
          set_mMachines_told[of ?m ent s]
        by (auto simp: events_told)
    next
      case False
      then have "broadcast p ent i s = broadcast p ent (i + 1) s"
        using \<open>i < length (mMachines s)\<close> by (subst broadcast.simps) simp
      then show ?thesis using 1(2)[OF \<open>i < length (mMachines s)\<close> refl False] 1(3) by simp
    qed
  next
    case False
    then show ?thesis using 1(3) by (subst (1 2 3 4 5) broadcast.simps) simp
  qed
qed

lemma safe_broadcast [safe_intros]: "safe (broadcast p ent i)"
  using broadcast_ok by (auto intro!: safeI)

section \<open>Moves\<close>

lemma set_machine_twice [simp]: "set_machine m k (set_machine m k' s) = set_machine m k s"
  by (simp add: set_machine_def)

lemma set_machine_PushEvent: "set_machine m k (PushEvent r e s) = PushEvent r e (set_machine m k s)"
  by (simp add: set_machine_def PushEvent_def set_events_def set_engine_def events_def)

text \<open>The event \<open>SaveMove\<close> sends for a player.\<close>

definition position_event :: "Player \<Rightarrow> EngineEvent" where
  "position_event p = put_i ''PLAYER_ID'' (mID p) (GetPos p)"

lemma SaveMove_eq:
  "linked s \<Longrightarrow> SaveMove m s =
     (None, set_machine m ((machines s m)\<lparr>nm_mMoveCpt := 0\<rparr>)
       (case nm_mPlayer (machines s m) of None \<Rightarrow> s | Some p \<Rightarrow> PushEvent DataBaseRef (position_event p) s))"
  by (simp add: SaveMove_def and_then_def position_event_def GetPlayerID_def split: option.split)

lemma count_move_eq:
  assumes "linked s"
  shows "count_move m s =
     (let k = machines s m
      in if nm_mMoveCpt k < 49 then (None, set_machine m (k\<lparr>nm_mMoveCpt := nm_mMoveCpt k + 1\<rparr>) s)
         else (None, set_machine m (k\<lparr>nm_mMoveCpt := 0\<rparr>)
           (case nm_mPlayer k of None \<Rightarrow> s | Some p \<Rightarrow> PushEvent DataBaseRef (position_event p) s)))"
  using assms
  by (auto simp: count_move_def Let_def SaveMove_eq set_machine_PushEvent split: option.split)

lemma count_move_inv:
  assumes "net_inv s"
  shows "fst (count_move m s) = None" "net_inv (snd (count_move m s))"
    "events (snd (count_move m s)) NetRef = events s NetRef"
    "mReceivedEvents (snd (count_move m s)) = mReceivedEvents s"
    "mMachines (snd (count_move m s)) = mMachines s"
  using assms net_invD(1)[OF assms]
  by (auto simp: count_move_eq Let_def split: option.split intro!: net_inv_set_machine)

lemma Machine_Move_inv:
  assumes "net_inv s"
  shows "net_inv (snd (Machine_Move m ent s))"
    "events (snd (Machine_Move m ent s)) NetRef = events s NetRef"
    "mReceivedEvents (snd (Machine_Move m ent s)) = mReceivedEvents s"
proof -
  have "net_inv (snd (Machine_Move m ent s)) \<and> events (snd (Machine_Move m ent s)) NetRef = events s NetRef \<and>
    mReceivedEvents (snd (Machine_Move m ent s)) = mReceivedEvents s"
  proof (cases "nm_mPlayer (machines s m)")
    case None
    then show ?thesis using assms by (simp add: Machine_Move_def)
  next
    case (Some p)
    show ?thesis
    proof (cases "Move ent p")
      case (Inr p')
      let ?t = "set_machine m ((machines s m)\<lparr>nm_mPlayer := Some p'\<rparr>) s"
      show ?thesis
      proof (cases "nm_mMoveCpt (machines s m) < 50")
        case True
        then have "net_inv ?t" using assms by (intro net_inv_set_machine) simp_all
        then show ?thesis
          using assms Some Inr count_move_inv[of ?t m] by (simp add: Machine_Move_def and_then_def)
      next
        case False
        have "linked ?t" using net_invD(1)[OF assms] by simp
        then show ?thesis
          using assms Some Inr False
          by (auto simp: Machine_Move_def and_then_def count_move_eq Let_def set_machine_PushEvent
              intro!: net_inv_set_machine)
      qed
    qed (use assms Some in \<open>simp add: Machine_Move_def\<close>)
  qed
  then show "net_inv (snd (Machine_Move m ent s))"
    "events (snd (Machine_Move m ent s)) NetRef = events s NetRef"
    "mReceivedEvents (snd (Machine_Move m ent s)) = mReceivedEvents s" by simp_all
qed

lemma safe_Machine_Move [safe_intros]: "safe (Machine_Move m ent)"
  by (rule safeI) (simp add: Machine_Move_inv)

section \<open>All handlers\<close>

lemma safe_dyn: "(\<And>s. net_inv s \<Longrightarrow> safe (f s)) \<Longrightarrow> safe (\<lambda>s. f s s)"
  by (rule safeI) (auto dest: safeD)

lemma safe_net_method: "safe (net_method v ent)"
  by (cases v) (simp_all add: net_method_def ProcessEnvironmentInfo_def ProcessNpcProp_def
      ProcessPlayerProp_def ProcessCharactersList_def safe_intros)

lemma safe_dispatch: "(\<And>v. safe (f v ent)) \<Longrightarrow> safe (dispatch tab f ent)"
  by (rule safeI) (auto simp: dispatch_def Let_def dest: safeD)

lemma safe_DelPlayer: "safe (ProcessReceivedDelPlayer ent)"
proof (rule safeI)
  fix s assume i: "net_inv s"
  have "safe (and_then (SendMessageToDataBase NetRef e) (broadcast p e 0))" for e p
    by (intro safe_intros)
  from safeD[OF this i]
  show "net_inv (snd (ProcessReceivedDelPlayer ent s)) \<and>
    events (snd (ProcessReceivedDelPlayer ent s)) NetRef = events s NetRef \<and>
    mReceivedEvents (snd (ProcessReceivedDelPlayer ent s)) = mReceivedEvents s"
    using i by (cases "find_s ent ''PLAYER_NICK''")
      (auto simp: ProcessReceivedDelPlayer_def Let_def split: option.split)
qed

lemma safe_PlayerPos: "safe (ProcessReceivedPlayerPos ent)"
proof (rule safeI)
  fix s assume i: "net_inv s"
  have "safe (and_then (Machine_Move m ent) (\<lambda>s. broadcast p (e s) 0 s))" for m p and e :: "NetEngine \<Rightarrow> EngineEvent"
    by (rule safe_and_then[OF safe_Machine_Move safe_dyn[where f = "\<lambda>s. broadcast p (e s) 0"]])
      (rule safe_broadcast)
  from safeD[OF this i]
  show "net_inv (snd (ProcessReceivedPlayerPos ent s)) \<and>
    events (snd (ProcessReceivedPlayerPos ent s)) NetRef = events s NetRef \<and>
    mReceivedEvents (snd (ProcessReceivedPlayerPos ent s)) = mReceivedEvents s"
    using i by (cases "find_i ent ''ID''")
      (auto simp: ProcessReceivedPlayerPos_def split: option.split)
qed

lemma safe_Ping: "safe (ProcessReceivedPing ent)"
proof (rule safeI)
  fix s assume i: "net_inv s"
  show "net_inv (snd (ProcessReceivedPing ent s)) \<and>
    events (snd (ProcessReceivedPing ent s)) NetRef = events s NetRef \<and>
    mReceivedEvents (snd (ProcessReceivedPing ent s)) = mReceivedEvents s"
    using i safe_tell[OF i]
    by (cases "find_i ent ''STATE''"; cases "find_i ent ''ID''")
      (auto simp: ProcessReceivedPing_def GetMachineFromID_def[symmetric] machine_from_listed split: option.split)
qed

lemma safe_recv_method:
  assumes "safe (command ent)" "safe (console_command ent)"
  shows "safe (recv_method command console_command v ent)"
proof -
  have "ProcessReceivedChatEvent command ent =
      with_res (need ''MESSAGE'' (find_s ent ''MESSAGE'')) (\<lambda>message.
        case message of
          [] \<Rightarrow> fail_with (Throw ''out_of_range'')
        | c # _ \<Rightarrow> if c = CHR ''.'' then command ent else broadcast (\<lambda>n s. True) ent 0)"
    by (rule ext) (simp add: ProcessReceivedChatEvent_def)
  moreover have "safe (case message of
          [] \<Rightarrow> fail_with (Throw ''out_of_range'')
        | c # _ \<Rightarrow> if c = CHR ''.'' then command ent else broadcast (\<lambda>n s. True) ent 0)" for message
    using assms(1) by (cases message) (simp_all add: safe_intros)
  ultimately have "safe (ProcessReceivedChatEvent command ent)" by (simp add: safe_with_res)
  moreover have "ProcessReceivedCharactersList ent =
      with_res (need ''REQUEST'' (find_i ent ''REQUEST''))
        (\<lambda>r. if r \<noteq> 1 then done_with else SendMessageToDataBase NetRef ent)"
    by (rule ext) (simp add: ProcessReceivedCharactersList_def)
  then have "safe (ProcessReceivedCharactersList ent)" by (simp add: safe_with_res safe_intros)
  ultimately show ?thesis using assms(2)
    by (cases v) (simp_all add: recv_method_def ProcessReceivedLoad_def ProcessReceivedCreateCharacter_def
        ProcessReceivedDeleteCharacter_def ProcessReceivedPlayerProp_def ProcessReceivedNpcProp_def
        safe_intros safe_DelPlayer safe_PlayerPos safe_Ping)
qed

end
