(* ===== verification/NetProps.thy ===== *)
theory NetProps
imports NetInvariant
begin

text \<open>
  What the network engine does, on top of its invariant: its loops come back, what a client
  sends is not stamped with its identity, a broadcast reaches whom it reaches, and a login ends
  with a machine on the list or a refusal, whoever wrote the answer.
\<close>

section \<open>The loops\<close>

text \<open>
  The repository declares and calls \<open>ProcessReceivedCommand\<close> and \<open>ProcessReceivedConsoleCommand\<close> and does not define them, so
  that nothing is known of what they do. An engine is \<open>quiet\<close> as long as no event that would call one of them is
  waiting; what is proved of a quiet engine holds whatever the two methods are.
\<close>

definition quiet :: "NetEngine \<Rightarrow> bool" where
  "quiet s \<longleftrightarrow> (\<forall>e \<in> set (mReceivedEvents s). \<not> runs_command e)"

definition net_quiet :: "NetEngine \<Rightarrow> bool" where
  "net_quiet s \<longleftrightarrow> net_inv s \<and> quiet s"

lemma safe_ProcessEvent: "safe (ProcessEvent net_method e)"
  unfolding ProcessEvent_def by (intro safe_dispatch safe_net_method)

lemma safe_ProcessReceivedEvent:
  assumes "\<not> runs_command ent"
  shows "safe (ProcessReceivedEvent command console_command ent)"
proof -
  have "safe (ProcessReceivedEvent (\<lambda>_. done_with) (\<lambda>_. done_with) ent)"
    unfolding ProcessReceivedEvent_def by (intro safe_dispatch safe_recv_method safe_done)
  then show ?thesis using ProcessReceivedEvent_other[OF assms] by metis
qed

interpretation net_loop: event_loop "\<lambda>s :: NetEngine. events s NetRef" "set_events NetRef"
  "ProcessEvent net_method" net_quiet
proof
  fix s :: NetEngine and e q
  assume s: "net_quiet s" "events s NetRef = e # q"
  then have "net_inv (set_events NetRef q s)" by (simp add: net_quiet_def)
  from safeD[OF safe_ProcessEvent this, of e] s
  show "net_quiet (snd (ProcessEvent net_method e (set_events NetRef q s)))"
    "events (snd (ProcessEvent net_method e (set_events NetRef q s))) NetRef = q"
    by (simp_all add: net_quiet_def quiet_def)
qed

interpretation recv_loop: event_loop mReceivedEvents "\<lambda>q s. s\<lparr>mReceivedEvents := q\<rparr>"
  "ProcessReceivedEvent command console_command" net_quiet
proof
  fix s :: NetEngine and e q
  let ?s = "s\<lparr>mReceivedEvents := q\<rparr>"
  assume s: "net_quiet s" "mReceivedEvents s = e # q"
  then have "net_inv ?s" "\<not> runs_command e" by (simp_all add: net_quiet_def quiet_def)
  from safeD[OF safe_ProcessReceivedEvent[OF this(2)] this(1), of command console_command] s
  show "net_quiet (snd (ProcessReceivedEvent command console_command e ?s))"
    "mReceivedEvents (snd (ProcessReceivedEvent command console_command e ?s)) = q"
    by (simp_all add: net_quiet_def quiet_def)
qed

lemma received_loop_net_queue:
  "net_quiet s \<Longrightarrow> mReceivedEvents s = q \<Longrightarrow>
     events (snd (run_events (\<lambda>q s. s\<lparr>mReceivedEvents := q\<rparr>) (ProcessReceivedEvent command cc) q s)) NetRef
       = events s NetRef"
proof (induction q arbitrary: s)
  case (Cons e q)
  let ?s = "s\<lparr>mReceivedEvents := q\<rparr>"
  have i: "net_inv ?s" "\<not> runs_command e" using Cons.prems by (simp_all add: net_quiet_def quiet_def)
  have "events (snd (ProcessReceivedEvent command cc e ?s)) NetRef = events s NetRef"
    using safeD(2)[OF safe_ProcessReceivedEvent[OF i(2)] i(1)] by (simp add: events_def)
  then show ?case
    using Cons.IH[OF recv_loop.inv_handle[OF Cons.prems, of command cc] recv_loop.queue_handle[OF Cons.prems, of command cc]]
    by (auto split: prod.splits option.splits)
qed simp

lemma Frame_run:
  assumes "net_quiet s"
  shows "\<exists>r s'. Frame command console_command s = Some (r, s') \<and> net_quiet s' \<and>
     (r = None \<longrightarrow> events s' NetRef = [] \<and> mReceivedEvents s' = [])"
proof -
  obtain r1 s1 where 1: "ProcessQueue net_method NetRef s = Some (r1, s1)" "net_quiet s1"
      "r1 = None \<longrightarrow> events s1 NetRef = []"
    using net_loop.loop_returns[OF assms] unfolding ProcessQueue_def by (auto split: option.splits)
  show ?thesis
  proof (cases r1)
    case (Some f)
    then show ?thesis using 1 by (simp add: Frame_def)
  next
    case None
    let ?r = "run_events (\<lambda>q s. s\<lparr>mReceivedEvents := q\<rparr>) (ProcessReceivedEvent command console_command)
       (mReceivedEvents s1) s1"
    have "Frame command console_command s = Some ?r"
      using None 1(1) recv_loop.drain_run[OF 1(2)] by (simp add: Frame_def ProcessReceivedQueue_def)
    moreover have "net_quiet (snd ?r)" by (rule recv_loop.run_inv[OF 1(2) refl])
    moreover have "fst ?r = None \<longrightarrow> mReceivedEvents (snd ?r) = []"
      using recv_loop.run_empty[OF 1(2) refl] by blast
    moreover have "events (snd ?r) NetRef = []"
      using received_loop_net_queue[OF 1(2) refl] None 1(3) by simp
    ultimately show ?thesis by (metis prod.collapse)
  qed
qed

lemma Frame_shared_run:
  assumes "net_quiet s" and arrive: "\<And>k s. net_quiet s \<Longrightarrow> net_quiet (arrive k s)"
    and no_more: "\<And>k s. n \<le> k \<Longrightarrow> events (arrive k s) NetRef = events s NetRef \<and> mReceivedEvents (arrive k s) = mReceivedEvents s"
  shows "\<exists>r s'. Frame_shared arrive command console_command s = Some (r, s') \<and> net_quiet s' \<and> (r = None \<longrightarrow> mReceivedEvents s' = [])"
proof -
  obtain r1 k s1 where 1: "drain_shared arrive (\<lambda>s. events s NetRef) (set_events NetRef) (ProcessEvent net_method) 0 s = Some (r1, k, s1)"
    "net_quiet s1"
    using net_loop.shared_returns[where arrive = arrive and n = n and k = 0, OF assms(1) arrive] no_more by blast
  obtain r2 j s2 where 2: "drain_shared arrive mReceivedEvents (\<lambda>q s. s\<lparr>mReceivedEvents := q\<rparr>)
      (ProcessReceivedEvent command console_command) k s1 = Some (r2, j, s2)" "net_quiet s2" "r2 = None \<longrightarrow> mReceivedEvents s2 = []"
    using recv_loop.shared_returns[where arrive = arrive and n = n and k = k and command = command and console_command = console_command,
        OF 1(2) arrive] no_more by blast
  show ?thesis using 1 2 by (cases r1) (auto simp: Frame_shared_def)
qed

text \<open>C1. A frame of the network engine always comes back, whether its handlers fail or not, with the invariant kept,
  as long as no event that waits or arrives is a command (these call methods that are not defined). While the other threads push events,
  it may go on; when they push no more, it handles what is left and ends: the events from the clients have all been
  handled then, unless a handler failed. When nothing is pushed meanwhile, both queues are empty.\<close>

theorem Frame_returns:
  assumes "net_inv s" "\<forall>e \<in> set (mReceivedEvents s). \<not> runs_command e"
    and arrive: "\<And>k s. net_inv s \<Longrightarrow> net_inv (arrive k s)"
      "\<And>k s. \<forall>e \<in> set (mReceivedEvents s). \<not> runs_command e \<Longrightarrow> \<forall>e \<in> set (mReceivedEvents (arrive k s)). \<not> runs_command e"
    and no_more: "\<And>k s. n \<le> k \<Longrightarrow> events (arrive k s) NetRef = events s NetRef \<and> mReceivedEvents (arrive k s) = mReceivedEvents s"
  shows "(\<exists>r s'. Frame_shared arrive command console_command s = Some (r, s') \<and> net_inv s' \<and> (r = None \<longrightarrow> mReceivedEvents s' = [])) \<and>
     (\<exists>r s'. Frame command console_command s = Some (r, s') \<and> net_inv s' \<and>
        (r = None \<longrightarrow> events s' NetRef = [] \<and> mReceivedEvents s' = []))"
proof -
  have "net_quiet s" using assms(1,2) by (simp add: net_quiet_def quiet_def)
  moreover have "net_quiet (arrive k t)" if "net_quiet t" for k t
    using that arrive unfolding net_quiet_def quiet_def by blast
  ultimately show ?thesis
    using Frame_run[of s command console_command] Frame_shared_run[where arrive = arrive and n = n and s = s and command = command and console_command = console_command] no_more
    unfolding net_quiet_def by blast
qed

text \<open>An engine that was linked and has an event of each kind to work on.\<close>

definition busy_net :: NetEngine where
  "busy_net = PushEvent NetRef (put_i ''ID'' 3 (event_of NPC_PROP))
     (Engine_PushReceivedEvent (put_s ''MESSAGE'' ''hello'' (event_of CHAT_EVENT))
       (link_engines ((net_memory header_text)\<lparr>mNextMachineID := 1\<rparr>)))"

lemma net_inv_memory: "net_inv (link_engines ((net_memory text)\<lparr>mNextMachineID := 1\<rparr>))"
proof -
  let ?s = "link_engines ((net_memory text)\<lparr>mNextMachineID := 1\<rparr>)"
  have "mMachines ?s = []" "next_socket ?s = 0" "mAuth ?s = []" "mNextMachineID ?s = 1"
    "accepts ?s = []" "accepts_cons ?s = []" "threads ?s = []" "threads_cons ?s = []"
    by (simp_all add: link_engines_def net_memory_def)
  then show ?thesis by (simp add: net_inv_def)
qed

lemma busy_quiet: "net_inv busy_net" "\<forall>e \<in> set (mReceivedEvents busy_net). \<not> runs_command e"
proof -
  show "net_inv busy_net"
    using net_inv_memory[of header_text] by (simp add: busy_net_def Engine_PushReceivedEvent_def)
  have "mReceivedEvents busy_net = [put_s ''MESSAGE'' ''hello'' (event_of CHAT_EVENT)]"
    by (simp add: busy_net_def Engine_PushReceivedEvent_def link_engines_def net_memory_def)
  then show "\<forall>e \<in> set (mReceivedEvents busy_net). \<not> runs_command e" by (simp add: runs_command_def)
qed

text \<open>A line of chat arrives while the frame has just begun.\<close>

definition late_chat :: "nat \<Rightarrow> NetEngine \<Rightarrow> NetEngine" where
  "late_chat k s = (if k = 1 then Engine_PushReceivedEvent (put_s ''MESSAGE'' ''hello'' (event_of CHAT_EVENT)) s else s)"

lemma late_chat_arrives:
  "net_inv s \<Longrightarrow> net_inv (late_chat k s)"
  "\<forall>e \<in> set (mReceivedEvents s). \<not> runs_command e \<Longrightarrow> \<forall>e \<in> set (mReceivedEvents (late_chat k s)). \<not> runs_command e"
  "2 \<le> k \<Longrightarrow> events (late_chat k s) NetRef = events s NetRef \<and> mReceivedEvents (late_chat k s) = mReceivedEvents s"
  by (simp_all add: late_chat_def Engine_PushReceivedEvent_def runs_command_def)

theorem Frame_returns_witness:
  "\<exists>r s'. Frame_shared late_chat (\<lambda>_. done_with) (\<lambda>_. done_with) busy_net = Some (r, s') \<and> net_inv s' \<and>
     (r = None \<longrightarrow> mReceivedEvents s' = [])"
  using Frame_returns[OF busy_quiet late_chat_arrives, where k1 = "\<lambda>k _. k"] by blast

section \<open>What arrives\<close>

lemma rebind_received [simp]: "mReceivedEvents (snd (rebind so s)) = mReceivedEvents s"
  by (rule rebind_frame)

text \<open>C12. The numbers of a machine do not get into the events it receives: they are written into the wrong object. What waits
  for the engine after a receive is the event the client wrote, with the \<open>ID\<close> and the \<open>ACCT_ID\<close> the client wrote, or none. A
  ping with a number is answered to the machine of that number, whoever sent it, and a ping without a number fails an assert:
  one such message of a client ends the process of the server.\<close>

theorem received_unstamped:
  assumes "so_mParent (sockets s so) = DevMachine m" "decode bytes = Some d" "bytes \<noteq> []"
  shows "\<exists>e. mReceivedEvents (snd (AsyncRead push_received decode so 0 bytes s)) = mReceivedEvents s @ [e] \<and>
     mType e = mType d \<and> find_i e ''ID'' = find_i d ''ID'' \<and> find_i e ''ACCT_ID'' = find_i d ''ACCT_ID'' \<and>
     (mType d = PING \<and> find_i d ''STATE'' = Some 0 \<and> find_i d ''ID'' = Some (nm_mID (machines t n)) \<and> net_inv t \<and>
        n \<in> set (mMachines t) \<longrightarrow>
        ProcessReceivedEvent command console_command e t = TCPSend n (put_i ''STATE'' 1 e) t) \<and>
     (mType d = PING \<and> find_i d ''ID'' = None \<longrightarrow>
        (\<exists>w. ProcessReceivedEvent command console_command e t = (Some (Abort w), t)))"
proof -
  let ?e = "received_copy m s d"
  have e: "mType ?e = mType d" "find_i ?e ''ID'' = find_i d ''ID''" "find_i ?e ''ACCT_ID'' = find_i d ''ACCT_ID''"
    "find_i ?e ''STATE'' = find_i d ''STATE''"
    by (simp_all add: received_copy_def Let_def)
  have ping: "ProcessReceivedEvent command console_command ?e = ProcessReceivedPing ?e" if "mType d = PING"
    using that e(1) by (intro ext) (simp add: ProcessReceivedEvent_def dispatch_def ProcessReceivedEvent_tab_def recv_method_def)
  have first: "List.find (\<lambda>k. nm_mID (machines t k) = nm_mID (machines t n)) (mMachines t) = Some n"
    if "net_inv t" "n \<in> set (mMachines t)"
  proof (cases "List.find (\<lambda>k. nm_mID (machines t k) = nm_mID (machines t n)) (mMachines t)")
    case None
    then show ?thesis using that by (auto simp: find_None_iff)
  next
    case (Some k)
    then show ?thesis using find_Some_in_set[OF Some] inj_onD[OF net_invD(3)[OF that(1)], of k n] that(2) by auto
  qed
  have "mReceivedEvents (snd (AsyncRead push_received decode so 0 bytes s)) = mReceivedEvents s @ [?e]"
    using assms by (simp add: AsyncRead_def push_received_def Machine_PushReceivedEvent_def Engine_PushReceivedEvent_def)
  moreover have "ProcessReceivedPing ?e t = TCPSend n (put_i ''STATE'' 1 ?e) t"
    if "find_i d ''STATE'' = Some 0" "find_i d ''ID'' = Some (nm_mID (machines t n))" "net_inv t" "n \<in> set (mMachines t)"
    using that e first by (simp add: ProcessReceivedPing_def need_def)
  moreover have "\<exists>w. ProcessReceivedPing ?e t = (Some (Abort w), t)" if "find_i d ''ID'' = None"
    using that e by (cases "find_i d ''STATE''") (simp_all add: ProcessReceivedPing_def need_def)
  ultimately show ?thesis using e ping by (intro exI[of _ ?e]) simp
qed

definition bare_ping :: EngineEvent where
  "bare_ping = put_i ''STATE'' 0 (event_of PING)"

theorem received_unstamped_witness:
  "let s = set_machine 5 ((machines (net_memory header_text) 5)\<lparr>nm_mID := 8, nm_mAcctID := 4\<rparr>)
             (SetParent 0 (DevMachine 5) (net_memory header_text))
   in \<exists>e w. mReceivedEvents (snd (AsyncRead push_received (\<lambda>_. Some bare_ping) 0 0 ''x'' s)) = [e] \<and>
     find_i e ''ID'' = None \<and>
     ProcessReceivedEvent (\<lambda>_. done_with) (\<lambda>_. done_with) e s = (Some (Abort w), s)"
proof -
  let ?s = "set_machine 5 ((machines (net_memory header_text) 5)\<lparr>nm_mID := 8, nm_mAcctID := 4\<rparr>)
             (SetParent 0 (DevMachine 5) (net_memory header_text))"
  have "so_mParent (sockets ?s 0) = DevMachine 5" by (simp add: SetParent_def)
  moreover have "mReceivedEvents ?s = []" by (simp add: SetParent_def net_memory_def)
  moreover have "mType bare_ping = PING" "find_i bare_ping ''ID'' = None" by (simp_all add: bare_ping_def)
  ultimately show ?thesis
    using received_unstamped[of ?s 0 5 "\<lambda>_. Some bare_ping" "''x''" bare_ping ?s 0 "\<lambda>_. done_with" "\<lambda>_. done_with"]
    unfolding Let_def by force
qed

text \<open>A receive keeps the invariant, whatever came.\<close>

lemma safe_AsyncRead_inv:
  assumes "net_inv s" "so_mSocket (sockets s so)"
  shows "net_inv (snd (AsyncRead push_received decode so error bytes s))"
proof -
  have re: "net_inv (snd (rebind so t)) = net_inv t" for t
    by (auto simp: rebind_def op_then_def SetBind_def Let_def net_inv_set_socket)
  have "net_inv (push_received d e s) = net_inv s" for d e
    by (cases d) (simp_all add: push_received_def Machine_PushReceivedEvent_def
        Console_PushReceivedEvent_def Engine_PushReceivedEvent_def)
  then show ?thesis using assms by (simp add: AsyncRead_def re split: option.split)
qed

section \<open>Broadcasts\<close>

text \<open>
  The machines a broadcast turns to, of those that are left from an index on: after one whose
  send failed the next one is passed over, because it has moved to the index just done.
\<close>

fun visited :: "(nat \<Rightarrow> bool) \<Rightarrow> (nat \<Rightarrow> bool) \<Rightarrow> nat list \<Rightarrow> nat list" where
  "visited p ok [] = []"
| "visited p ok (m # ms) =
     (if p m then m # (if ok m then visited p ok ms else visited p ok (tl ms)) else visited p ok ms)"

definition tell_all :: "EngineEvent \<Rightarrow> nat list \<Rightarrow> NetEngine \<Rightarrow> NetEngine" where
  "tell_all ent ms s = fold (\<lambda>m. told m ent) ms s"

lemma visited_subset: "set (visited p ok ms) \<subseteq> {m \<in> set ms. p m}"
proof (induction p ok ms rule: visited.induct)
  case (2 p ok m ms)
  have "set (tl ms) \<subseteq> set ms" by (cases ms) auto
  with 2 show ?case by (auto split: if_splits)
qed simp

lemma visited_all: "(\<And>m. m \<in> set ms \<Longrightarrow> p m \<Longrightarrow> ok m) \<Longrightarrow> visited p ok ms = filter p ms"
  by (induction ms) auto

lemma machine_sends_told [simp]: "machine_sends (told n e s) m = machine_sends s m"
proof -
  have "machine_socket (told n e s) m = machine_socket s m"
    by (simp add: machine_socket_def told_def)
  moreover have "sends (told n e s) so = sends s so" for so
    by (auto simp: told_def sends_def)
  ultimately show ?thesis by (simp add: machine_sends_def)
qed

lemma drop_erase: "i < length xs \<Longrightarrow> distinct xs \<Longrightarrow>
    drop (Suc i) (remove1 (xs ! i) xs) = tl (drop (Suc i) xs)"
proof -
  assume a: "i < length xs" "distinct xs"
  then have "remove1 (xs ! i) xs = erase_at i xs" by (simp add: erase_at_eq_remove1)
  then show ?thesis using a by (simp add: erase_at_def drop_Suc tl_drop[symmetric] drop_tl)
qed

lemma broadcast_visited:
  assumes stable: "\<And>m n e t. p' m (told n e t) = p' m t"
  shows "net_inv s \<Longrightarrow> broadcast p' ent i s =
     (None, tell_all ent (visited (\<lambda>m. p' m s) (machine_sends s) (drop i (mMachines s))) s)"
proof (induction "length (mMachines s) - i" arbitrary: i s rule: less_induct)
  case less
  let ?ok = "machine_sends s" and ?p = "\<lambda>m. p' m s"
  show ?case
  proof (cases "i < length (mMachines s)")
    case False
    then show ?thesis by (subst broadcast.simps) (simp add: tell_all_def)
  next
    case True
    let ?m = "mMachines s ! i"
    have d: "drop i (mMachines s) = ?m # drop (Suc i) (mMachines s)"
      using True by (simp add: Cons_nth_drop_Suc)
    show ?thesis
    proof (cases "?p ?m")
      case False
      then show ?thesis using True less(1)[of s "Suc i"] less(2) d
        by (subst broadcast.simps) simp
    next
      case p: True
      have m: "?m \<in> set (mMachines s)" using True by simp
      let ?s = "told ?m ent s"
      note t = TCPSend_inv[OF less(2) m, of ent]
      have i': "net_inv ?s" by (rule net_inv_told[OF less(2)])
      have "length (mMachines ?s) \<le> length (mMachines s)"
        by (simp add: mMachines_told length_remove1)
      then have "length (mMachines ?s) - Suc i < length (mMachines s) - i"
        using True by arith
      note IH = less(1)[OF this i']
      have same: "machine_sends ?s = ?ok" by (rule ext) simp
      have rest: "drop (Suc i) (mMachines ?s) =
          (if ?ok ?m then drop (Suc i) (mMachines s) else tl (drop (Suc i) (mMachines s)))"
        using drop_erase[OF True net_invD(2)[OF less(2)]] by (simp add: mMachines_told)
      have "broadcast p' ent i s = broadcast p' ent (Suc i) ?s"
        using True p by (subst broadcast.simps) (simp add: t)
      then show ?thesis
        using IH p d rest same by (simp add: tell_all_def stable)
    qed
  qed
qed

lemma chat_visited:
  assumes "net_inv s" "find_s ent ''MESSAGE'' = Some (c # text)" "c \<noteq> CHR ''.''"
  shows "ProcessReceivedChatEvent command ent s =
     (None, tell_all ent (visited (\<lambda>_. True) (machine_sends s) (mMachines s)) s)"
  using broadcast_visited[of "\<lambda>_ _. True" s ent 0] assms
  by (simp add: ProcessReceivedChatEvent_def)

text \<open>C14. A message to everyone, such as a line of chat, goes out in the order of the list to each
  machine the engine turns to, and the ones whose connection fails leave the list; the
  machine after one that fails is not turned to at all.\<close>

theorem chat_broadcast:
  assumes "net_inv s" "find_s ent ''MESSAGE'' = Some (c # text)" "c \<noteq> CHR ''.''"
  shows "ProcessReceivedChatEvent command ent s =
     (None, tell_all ent (visited (\<lambda>_. True) (machine_sends s) (mMachines s)) s)"
  by (rule chat_visited[OF assms])

lemma filter_single: "distinct xs \<Longrightarrow> x \<in> set xs \<Longrightarrow> filter (\<lambda>y. y = x) xs = [x]"
  by (induction xs) (auto simp: filter_empty_conv)

lemma tell_all_sent:
  assumes "\<And>m. m \<in> set ms \<Longrightarrow> machine_sends s m"
  shows "mMachines (tell_all ent ms s) = mMachines s \<and>
     so_sent (sockets (tell_all ent ms s) so) = so_sent (sockets s so) @
       map (\<lambda>m. take (the (net_takes (sockets s so))) (archive_text s (EngineEvent_save ent)))
         (filter (\<lambda>m. machine_socket s m = so) ms)"
  using assms
proof (induction ms arbitrary: s)
  case (Cons m ms)
  let ?s = "deliver (machine_socket s m) ent s"
  have t: "told m ent s = ?s" using Cons.prems by (simp add: told_def)
  have ms: "machine_socket ?s n = machine_socket s n" for n by (simp add: machine_socket_def)
  have "machine_sends ?s n" if "n \<in> set ms" for n
    using Cons.prems that by (simp add: machine_sends_def ms)
  from Cons.IH[OF this] show ?case by (simp add: tell_all_def t ms)
qed (simp add: tell_all_def)

text \<open>When every connection works, a line of chat reaches every connected machine exactly once,
  the sender's included, and nobody leaves.\<close>

theorem chat_reaches_all:
  assumes "net_inv s" "find_s ent ''MESSAGE'' = Some (c # text)" "c \<noteq> CHR ''.''"
    and "\<forall>m \<in> set (mMachines s). machine_sends s m"
    and "inj_on (machine_socket s) (set (mMachines s))"
    and "m \<in> set (mMachines s)" "so = machine_socket s m"
    and "length (archive_text s (EngineEvent_save ent)) \<le> the (net_takes (sockets s so))"
  shows "\<exists>s'. ProcessReceivedChatEvent command ent s = (None, s') \<and> mMachines s' = mMachines s \<and>
     so_sent (sockets s' so) = so_sent (sockets s so) @ [archive_text s (EngineEvent_save ent)]"
proof -
  have v: "visited (\<lambda>_. True) (machine_sends s) (mMachines s) = mMachines s"
    using assms(4) by (subst visited_all) auto
  have "filter (\<lambda>n. machine_socket s n = so) (mMachines s) = [m]"
  proof -
    have "filter (\<lambda>n. machine_socket s n = so) (mMachines s) = filter (\<lambda>n. n = m) (mMachines s)"
      using assms(5,6,7) by (intro filter_cong refl) (auto dest: inj_onD)
    also have "\<dots> = [m]" by (rule filter_single) (use net_invD(2)[OF assms(1)] assms(6) in simp_all)
    finally show ?thesis .
  qed
  then show ?thesis
    using chat_visited[OF assms(1,2,3)] tell_all_sent[of "mMachines s" s ent so] assms(4,8) v
    by simp
qed

section \<open>An engine with three machines, for examples\<close>

definition demo_socket :: "bool \<Rightarrow> nat \<Rightarrow> TcpSocket" where
  "demo_socket ok m = (TcpSocket_new (DevMachine m))\<lparr>so_is_open := True, net_peer := Some ''10.0.0.7'',
     net_takes := (if ok then Some 100 else None)\<rparr>"

definition demo_machine :: "nat \<Rightarrow> NetMachine" where
  "demo_machine m =
     \<lparr>nm_mTcpSocket = Some m, nm_mID = int m + 1, nm_mAcctID = int m + 10, nm_mAcctName = ''acct'',
      nm_mAddress = ''10.0.0.7'', nm_mMoveCpt = 0, nm_mDeleting = False, nm_mPlayer = None\<rparr>"

definition demo_net :: "(nat \<Rightarrow> bool) \<Rightarrow> NetEngine" where
  "demo_net ok = link_engines ((net_memory header_text)\<lparr>
     sockets := (\<lambda>i. demo_socket (ok i) i), next_socket := 4,
     machines := demo_machine, next_machine := 3, mMachines := [0, 1, 2], mNextMachineID := 4,
     mAuth := [(7, \<lparr>auth_mAcctName = ''bob'', auth_mAcctId = 0, auth_mSocket = 3\<rparr>)], auth_id := 7\<rparr>)"

lemma demo_frame [simp]:
  "mMachines (demo_net ok) = [0, 1, 2]" "machines (demo_net ok) = demo_machine"
  "sockets (demo_net ok) i = demo_socket (ok i) i" "next_socket (demo_net ok) = 4"
  "next_machine (demo_net ok) = 3" "mNextMachineID (demo_net ok) = 4" "mIsRunning (demo_net ok)"
  "mAuth (demo_net ok) = [(7, \<lparr>auth_mAcctName = ''bob'', auth_mAcctId = 0, auth_mSocket = 3\<rparr>)]"
  "auth_id (demo_net ok) = 7" "mReceivedEvents (demo_net ok) = []" "archive_text (demo_net ok) = header_text"
  "linked (demo_net ok)" "events (demo_net ok) r = []"
  by (simp_all add: demo_net_def link_engines_def net_memory_def linked_def attach_defs events_def
      Engine_new_def split: engine_ref.split)

lemma demo_inv [simp]: "net_inv (demo_net ok)"
proof -
  have "accepts (demo_net ok) = []" "accepts_cons (demo_net ok) = []" "threads (demo_net ok) = []"
    "threads_cons (demo_net ok) = []"
    by (simp_all add: demo_net_def link_engines_def net_memory_def)
  then show ?thesis
    by (simp add: net_inv_def listed_ok_def demo_machine_def inj_on_def demo_socket_def TcpSocket_new_def map_wf_def)
qed

lemma demo_sends [simp]: "machine_sends (demo_net ok) m = ok m"
  by (simp add: machine_sends_def machine_socket_def sends_def demo_machine_def demo_socket_def)

definition hello :: EngineEvent where
  "hello = put_s ''MESSAGE'' ''hello'' (event_of CHAT_EVENT)"

text \<open>The connection of the second machine is broken: the second leaves, the third is not told.\<close>

theorem chat_broadcast_witness:
  "ProcessReceivedChatEvent (\<lambda>_. done_with) hello (demo_net (\<lambda>i. i \<noteq> 1))
     = (None, tell_all hello [0, 1] (demo_net (\<lambda>i. i \<noteq> 1)))"
  using chat_broadcast[of "demo_net (\<lambda>i. i \<noteq> 1)" hello "CHR ''h''" "''ello''" "\<lambda>_. done_with"]
  by (simp add: hello_def)

theorem chat_reaches_all_witness:
  "\<exists>s'. ProcessReceivedChatEvent (\<lambda>_. done_with) hello (demo_net (\<lambda>_. True)) = (None, s') \<and>
     mMachines s' = [0, 1, 2] \<and> so_sent (sockets s' 2) = [header_text []]"
  using chat_reaches_all[of "demo_net (\<lambda>_. True)" hello "CHR ''h''" "''ello''" 2 2 "\<lambda>_. done_with"]
  by (simp add: hello_def machine_socket_def demo_machine_def inj_on_def demo_socket_def header_text_def TcpSocket_new_def)

section \<open>Logging in\<close>

text \<open>The event a connection starts with: what was received, or what the memory held.\<close>

definition first_event :: "(string \<Rightarrow> EngineEvent option) \<Rightarrow> EngineEvent \<Rightarrow> string option \<Rightarrow> EngineEvent" where
  "first_event decode memory buffer =
     (case buffer of None \<Rightarrow> memory
      | Some b \<Rightarrow> (case decode b of None \<Rightarrow> memory | Some e \<Rightarrow> e))"

lemma SyncReceive_eq:
  "so_mSocket (sockets s so) \<Longrightarrow>
     SyncReceive decode memory so buffer s = (Inr (first_event decode memory buffer), snd (SetBind so s))"
  by (auto simp: SyncReceive_def SetBind_def first_event_def Let_def)

lemma refuse_eq:
  assumes "usable s so"
  shows "\<exists>s'. refuse so reason s = (None, s') \<and> \<not> so_is_open (sockets s' so) \<and>
     mMachines s' = mMachines s \<and> machines s' = machines s \<and> mAuth s' = mAuth s \<and> engines s' = engines s"
  using assms
  by (auto simp: refuse_def op_then_def SendEvent_usable Close_def usable_def split: if_splits)

lemma first_message_run:
  assumes i: "net_inv s" and so: "so < next_socket s"
    and ne: "ne = first_event decode memory buffer"
    and fresh: "map_find (mAuth s) (auth_id s + 1) = None"
  shows "\<exists>s'. ServerThreadTCPReceive decode memory acct_memory so buffer s = (None, s') \<and>
     mMachines s' = mMachines s \<and>
     (if mType ne = MSG_NICK \<and> at_s ne ''ACCT_NAME'' \<noteq> []
      then events s' DataBaseRef = events s DataBaseRef @
             [auth_request (auth_id s + 1) (at_s ne ''ACCT_NAME'') (at_s ne ''PASS'')] \<and>
           map_find (mAuth s') (auth_id s + 1) = Some \<lparr>auth_mAcctName = at_s ne ''ACCT_NAME'',
             auth_mAcctId = acct_memory, auth_mSocket = so\<rparr>
      else events s' DataBaseRef = events s DataBaseRef \<and> mAuth s' = mAuth s \<and>
           \<not> so_is_open (sockets s' so))"
proof -
  let ?t = "snd (SetBind so s)"
  have sock: "so_mSocket (sockets s so)" by (rule net_invD(5)[OF i so])
  note r = SyncReceive_eq[OF sock, of decode memory buffer, folded ne]
  have u: "usable ?t so" using so sock by (simp add: usable_def)
  have l: "linked (f ?t)" if "\<And>x. engines (f x) = engines x" for f
    using net_invD(1)[OF i] that by (simp add: linked_def)
  show ?thesis
  proof (cases "mType ne = MSG_NICK \<and> at_s ne ''ACCT_NAME'' \<noteq> []")
    case True
    let ?u = "?t\<lparr>auth_id := auth_id s + 1, mAuth := map_insert (auth_id s + 1)
       \<lparr>auth_mAcctName = at_s ne ''ACCT_NAME'', auth_mAcctId = acct_memory, auth_mSocket = so\<rparr> (mAuth s)\<rparr>"
    have "linked ?u" using net_invD(1)[OF i] by (simp add: linked_def)
    moreover have "events ?u DataBaseRef = events s DataBaseRef" by (simp add: events_def)
    ultimately show ?thesis
      using True fresh by (simp add: ServerThreadTCPReceive_def op_then_def r)
  next
    case False
    define reason where "reason = (if mType ne \<noteq> MSG_NICK then ''You must give your nick before anything''
        else ''Player's name cannot be empty'')"
    have "ServerThreadTCPReceive decode memory acct_memory so buffer s = refuse so reason ?t"
      using False by (simp add: ServerThreadTCPReceive_def op_then_def r reason_def)
    then show ?thesis using refuse_eq[OF u, of reason] False
      by (auto simp: events_def simp del: SetBind_bus)
  qed
qed

text \<open>C6. A new connection is refused and closed unless its first message is a nick with a name;
  then the data base is asked once, under a number that remembers the name and the socket, as long as the
  number is not one of a pending login already (the numbers wrap around).
  In no case is there a machine yet.\<close>

theorem first_message:
  assumes i: "net_inv s" and so: "so < next_socket s"
    and ne: "ne = first_event decode memory buffer"
    and fresh: "map_find (mAuth s) (auth_id s + 1) = None"
  shows "\<exists>s'. ServerThreadTCPReceive decode memory acct_memory so buffer s = (None, s') \<and>
     mMachines s' = mMachines s \<and>
     (if mType ne = MSG_NICK \<and> at_s ne ''ACCT_NAME'' \<noteq> []
      then events s' DataBaseRef = events s DataBaseRef @
             [auth_request (auth_id s + 1) (at_s ne ''ACCT_NAME'') (at_s ne ''PASS'')] \<and>
           map_find (mAuth s') (auth_id s + 1) = Some \<lparr>auth_mAcctName = at_s ne ''ACCT_NAME'',
             auth_mAcctId = acct_memory, auth_mSocket = so\<rparr>
      else events s' DataBaseRef = events s DataBaseRef \<and> mAuth s' = mAuth s \<and>
           \<not> so_is_open (sockets s' so))"
  by (rule first_message_run[OF assms])

definition nick_bob :: EngineEvent where
  "nick_bob = put_s ''PASS'' ''secret'' (put_s ''ACCT_NAME'' ''bob'' (event_of MSG_NICK))"

theorem first_message_witness:
  "\<exists>s'. ServerThreadTCPReceive (\<lambda>_. Some nick_bob) (event_of AUTH) 0 3 (Some ''bytes'') (demo_net (\<lambda>_. True)) = (None, s') \<and>
     mMachines s' = [0, 1, 2] \<and> events s' DataBaseRef = [auth_request 8 ''bob'' ''secret''] \<and>
     map_find (mAuth s') 8 = Some \<lparr>auth_mAcctName = ''bob'', auth_mAcctId = 0, auth_mSocket = 3\<rparr>"
  using first_message[of "demo_net (\<lambda>_. True)" 3 nick_bob "\<lambda>_. Some nick_bob" "event_of AUTH" "Some ''bytes''" 0]
  by (simp add: first_event_def nick_bob_def at_s_def)

end
