(* ===== verification/NetLogin.thy ===== *)
theory NetLogin
imports NetProps
begin

text \<open>
  The answers to a login: the ones the data base gives, and the ones a client makes up.
\<close>

section \<open>The answer to a login\<close>

text \<open>C4. The answer to a pending login is taken as it says. A negative one closes the connection
  and adds no machine. A positive one puts one new machine on the list, with a number no
  machine had, the name of the login and the account of the answer, tells the data base that
  the account is online, and takes the socket over. When the new machine cannot be sent its answer it leaves
  the list at once; when the other end of the connection is gone already, asking for its address throws and the list stays as
  it was. In every case the login stays pending, so
  that a second answer is taken too. An answer to no login changes nothing.\<close>

theorem auth_answer:
  assumes i: "net_inv s" and ans: "find_i ent ''ACCEPTED'' = Some accepted" "find_i ent ''ID'' = Some ID"
    "find_i ent ''ACCT_ID'' = Some acct"
    and env: "mNextMachineID s \<noteq> INT_LIMIT"
    and r: "ProcessAuth ent s = (r, s')"
  shows "case map_find (mAuth s) (word_of_int ID) of
      None \<Rightarrow> r = None \<and> s' = s
    | Some auth \<Rightarrow>
        map_find (mAuth s') (word_of_int ID) = Some auth \<and>
        (if accepted = 0
         then r = None \<and> mMachines s' = mMachines s \<and> \<not> so_is_open (sockets s' (auth_mSocket auth))
         else if net_peer (sockets s (auth_mSocket auth)) = None
         then r = Some (Throw ''remote_endpoint'') \<and> mMachines s' = mMachines s
         else r = None \<and>
           (let n = next_machine s
            in nm_mID (machines s' n) = mNextMachineID s \<and> nm_mAcctID (machines s' n) = acct \<and>
               nm_mAcctName (machines s' n) = auth_mAcctName auth \<and>
               (\<forall>m \<in> set (mMachines s). nm_mID (machines s m) \<noteq> nm_mID (machines s' n)) \<and>
               so_mParent (sockets s' (auth_mSocket auth)) = DevMachine n \<and>
               put_i ''ACCT_ID'' acct (event_of WELCOME) \<in> set (events s' DataBaseRef) \<and>
               mMachines s' = mMachines s @ (if sends s (auth_mSocket auth) then [n] else [])))"
proof (cases "map_find (mAuth s) (word_of_int ID)")
  case None
  then show ?thesis using r ans by (simp add: ProcessAuth_def)
next
  case (Some auth)
  let ?so = "auth_mSocket auth" and ?n = "next_machine s" and ?auth = "auth\<lparr>auth_mAcctId := acct\<rparr>"
  have so: "?so < next_socket s" by (rule net_invD(6)[OF i Some])
  show ?thesis
  proof (cases "accepted = 0")
    case True
    have "usable s ?so" using so net_invD(5)[OF i so] by (simp add: usable_def)
    from refuse_eq[OF this, of "''Wrong password''"] show ?thesis
      using True r ans Some by (auto simp: ProcessAuth_def RejectAuth_def)
  next
    case False
    have acc: "AcceptAuth ?auth s = (r, s')" using r ans Some False by (simp add: ProcessAuth_def)
    show ?thesis
    proof (cases "net_peer (sockets s ?so)")
      case None
      then show ?thesis using acc Some False env net_invD(5)[OF i so]
        by (auto simp: AcceptAuth_def op_then_def GetNextMachineID_def NetMachine_new_def Let_def SetParent_def)
    next
      case (Some address)
      let ?e = "enrolled ?auth address s"
      have s': "r = None" "s' = told ?n accept_event ?e"
        using acc AcceptAuth_ok[OF i, of ?auth address] so env Some by auto
      have ms: "machine_socket ?e ?n = ?so" by (simp add: machine_socket_def login_machine_def)
      have snd: "machine_sends ?e ?n = sends s ?so" by (simp add: machine_sends_def ms sends_def)
      have fresh: "?n \<notin> set (mMachines s)" using net_invD(4)[OF i, of ?n] by (auto simp: listed_ok_def)
      have ids: "\<forall>m \<in> set (mMachines s). nm_mID (machines s m) \<noteq> mNextMachineID s"
        using net_invD(4)[OF i] by (force simp: listed_ok_def)
      have mach: "nm_mID (machines s' ?n) = mNextMachineID s" "nm_mAcctID (machines s' ?n) = acct"
        "nm_mAcctName (machines s' ?n) = auth_mAcctName auth"
        by (simp_all add: s'(2) told_def login_machine_def)
      have "mMachines s' = mMachines s @ (if sends s ?so then [?n] else [])"
        using fresh by (simp add: s'(2) mMachines_told snd remove1_append)
      moreover have "so_mParent (sockets s' ?so) = DevMachine ?n" by (simp add: s'(2))
      moreover have "put_i ''ACCT_ID'' acct (event_of WELCOME) \<in> set (events s' DataBaseRef)"
        by (simp add: s'(2) events_told)
      moreover have "mAuth s' = mAuth s" by (simp add: s'(2))
      ultimately show ?thesis
        using False Some \<open>map_find (mAuth s) (word_of_int ID) = Some auth\<close> s'(1) mach ids
        by (simp add: Let_def)
    qed
  qed
qed

definition accepted_7 :: EngineEvent where
  "accepted_7 = put_i ''ACCT_ID'' 42 (put_i ''ACCEPTED'' 1 (put_i ''ID'' 7 (event_of AUTH)))"

theorem auth_answer_witness:
  "let s' = snd (ProcessAuth accepted_7 (demo_net (\<lambda>_. True)))
   in mMachines s' = [0, 1, 2, 3] \<and> nm_mAcctID (machines s' 3) = 42 \<and> nm_mID (machines s' 3) = 4"
proof -
  obtain r s' where "ProcessAuth accepted_7 (demo_net (\<lambda>_. True)) = (r, s')"
    by (cases "ProcessAuth accepted_7 (demo_net (\<lambda>_. True))")
  with auth_answer[OF demo_inv, of accepted_7 1 7 42 "\<lambda>_. True" r s']
  show ?thesis
    by (simp add: accepted_7_def INT_LIMIT_def Let_def demo_socket_def sends_def)
qed

section \<open>Answers a client makes up\<close>

text \<open>C7. The table for the events of clients sends \<open>AUTH\<close> to the handler of the data base's answers.
  A client whose connection still belongs to the engine, because it has not logged in, can
  therefore log any pending connection in to any account by sending the answer itself: no
  password is looked at and the data base is not asked.\<close>

theorem forged_login:
  assumes i: "net_inv s" and owner: "so_mParent (sockets s attacker) = DevEngine"
    and sent: "bytes \<noteq> []" "decode bytes = Some e" "mType e = AUTH" "find_i e ''ACCEPTED'' = Some 1"
      "find_i e ''ID'' = Some ID" "find_i e ''ACCT_ID'' = Some victim"
    and pending: "map_find (mAuth s) (word_of_int ID) = Some auth" "mReceivedEvents s = []"
      "net_peer (sockets s (auth_mSocket auth)) = Some address" "sends s (auth_mSocket auth)"
      "mNextMachineID s \<noteq> INT_LIMIT" "so_mSocket (sockets s attacker)"
  shows "let s1 = snd (AsyncRead push_received decode attacker 0 bytes s);
             s2 = snd (ProcessReceivedEvent command console_command (hd (mReceivedEvents s1)) (s1\<lparr>mReceivedEvents := []\<rparr>))
         in \<exists>m \<in> set (mMachines s2). nm_mAcctID (machines s2 m) = victim \<and>
              nm_mTcpSocket (machines s2 m) = Some (auth_mSocket auth)"
proof -
  let ?s1 = "snd (AsyncRead push_received decode attacker 0 bytes s)"
  let ?n = "next_machine s" and ?so = "auth_mSocket auth"
  define t where "t = ?s1\<lparr>mReceivedEvents := []\<rparr>"
  let ?auth = "auth\<lparr>auth_mAcctId := victim\<rparr>"
  have eq: "AsyncRead push_received decode attacker 0 bytes s = rebind attacker (Engine_PushReceivedEvent e s)"
    using sent(1,2) owner by (simp add: AsyncRead_def push_received_def)
  have fr: "mAuth t = mAuth s" "next_machine t = next_machine s" "next_socket t = next_socket s"
    "mIsRunning t = mIsRunning s" "mNextMachineID t = mNextMachineID s"
    "net_peer (sockets t k) = net_peer (sockets s k)" "so_is_open (sockets t k) = so_is_open (sockets s k)"
    "net_takes (sockets t k) = net_takes (sockets s k)" "mReceivedEvents ?s1 = [e]" for k
    using pending(2) by (simp_all add: t_def eq rebind_def op_then_def SetBind_def Let_def Engine_PushReceivedEvent_def)
  have it: "net_inv t" using safe_AsyncRead_inv[OF i pending(6)] by (simp add: t_def)
  have so: "?so < next_socket s" by (rule net_invD(6)[OF i pending(1)])
  have "ProcessReceivedEvent command console_command e t = ProcessAuth e t"
    using sent(3) by (simp add: ProcessReceivedEvent_def dispatch_def ProcessReceivedEvent_tab_def
        nth_Cons' recv_method_def)
  also have "\<dots> = AcceptAuth ?auth t"
    using sent pending(1) by (simp add: ProcessAuth_def fr)
  also have "\<dots> = (None, told ?n accept_event (enrolled ?auth address t))"
    using AcceptAuth_ok[OF it, of ?auth address] so pending(3,5) by (simp add: fr)
  finally have s2: "snd (ProcessReceivedEvent command console_command e t) = told ?n accept_event (enrolled ?auth address t)"
    by simp
  have "machine_sends (enrolled ?auth address t) ?n"
    using pending(4) by (simp add: machine_sends_def machine_socket_def login_machine_def sends_def fr)
  then have l: "?n \<in> set (mMachines (told ?n accept_event (enrolled ?auth address t)))"
    "machines (told ?n accept_event (enrolled ?auth address t)) ?n = login_machine ?auth address t"
    by (simp_all add: told_def fr)
  show ?thesis
    unfolding Let_def fr(9) list.sel t_def[symmetric] s2
    by (rule bexI[OF _ l(1)]) (simp add: l(2) login_machine_def)
qed

theorem forged_login_witness:
  "let s = SetParent 3 DevEngine (demo_net (\<lambda>_. True));
       s1 = snd (AsyncRead push_received (\<lambda>_. Some accepted_7) 3 0 ''bytes'' s);
       s2 = snd (ProcessReceivedEvent (\<lambda>_. done_with) (\<lambda>_. done_with) (hd (mReceivedEvents s1))
              (s1\<lparr>mReceivedEvents := []\<rparr>))
   in \<exists>m \<in> set (mMachines s2). nm_mAcctID (machines s2 m) = 42 \<and> nm_mTcpSocket (machines s2 m) = Some 3"
proof -
  let ?s = "SetParent 3 DevEngine (demo_net (\<lambda>_. True))"
  have i: "net_inv ?s" by (simp add: SetParent_def net_inv_set_socket)
  show ?thesis
    using forged_login[OF i, of 3 "''bytes''" "\<lambda>_. Some accepted_7" accepted_7 7 42
      "\<lparr>auth_mAcctName = ''bob'', auth_mAcctId = 0, auth_mSocket = 3\<rparr>" "''10.0.0.7''"
      "\<lambda>_. done_with" "\<lambda>_. done_with"]
    by (simp add: SetParent_def accepted_7_def demo_socket_def TcpSocket_new_def sends_def INT_LIMIT_def)
qed

end
