(* ===== verification/NetSteps.thy ===== *)
theory NetSteps
imports NetLogin
begin

text \<open>
  The network engine at work: its threads, the completions of the input and output service, the
  frames of the engine and the other engines, as steps that interleave freely. Every state the
  engine reaches before it handles a command (what these do is not in the repository) has the invariant, and in none of them has a machine a player, because
  nothing in the repository calls \<open>SetPlayer\<close>.
\<close>

section \<open>No machine has a player\<close>

definition no_players :: "NetEngine \<Rightarrow> bool" where
  "no_players s \<longleftrightarrow> (\<forall>m. nm_mPlayer (machines s m) = None)"

definition keeps :: "NetEngine act \<Rightarrow> bool" where
  "keeps a \<longleftrightarrow> (\<forall>s. net_inv s \<and> no_players s \<longrightarrow> no_players (snd (a s)))"

lemma no_players_frame [simp]:
  "no_players (PushEvent r e s) = no_players s"
  "no_players (deliver so e s) = no_players s"
  "no_players (removed m s) = no_players s"
  "no_players (told m e s) = no_players s"
  "no_players (set_socket so k s) = no_players s"
  "no_players (snd (SetBind so s)) = no_players s"
  "no_players (Close so s) = no_players s"
  "no_players (set_events r q s) = no_players s"
  "no_players (s\<lparr>mReceivedEvents := w\<rparr>) = no_players s"
  "no_players (mMachines_update f s) = no_players s"
  by (auto simp: no_players_def told_def)

lemma no_players_set_machine: "no_players s \<Longrightarrow> nm_mPlayer k = None \<Longrightarrow> no_players (set_machine m k s)"
  by (simp add: no_players_def)

lemma no_playersD: "no_players s \<Longrightarrow> nm_mPlayer (machines s m) = None"
  by (simp add: no_players_def)

lemma keeps_combine:
  assumes "safe a" "keeps a" "keeps b"
  shows "keeps (and_then a b)"
  unfolding keeps_def
proof (intro allI impI)
  fix s assume s: "net_inv s \<and> no_players s"
  obtain r s' where a: "a s = (r, s')" by (cases "a s")
  have "net_inv s'" using safeD(1)[OF assms(1)] s a by (metis snd_conv)
  moreover have "no_players s'" using assms(2) s a unfolding keeps_def by (metis snd_conv)
  ultimately show "no_players (snd (and_then a b s))"
    using assms(3) by (cases r) (simp_all add: a keeps_def)
qed

lemma keeps_send: "keeps (SendMessageToDataBase NetRef e)"
  by (simp add: keeps_def net_invD(1))

lemma keeps_forward: "keeps (forward_to_machine ent)"
  by (auto simp: keeps_def forward_to_machine_def with_res_def TCPSend_inv machine_from_listed
      split: sum.split option.split)

lemma SaveMove_idle:
  "linked s \<Longrightarrow> no_players s \<Longrightarrow> SaveMove m s = (None, set_machine m ((machines s m)\<lparr>nm_mMoveCpt := 0\<rparr>) s)"
  by (simp add: SaveMove_eq no_playersD)

lemma keeps_ProcessRemoveMachine: "keeps (ProcessRemoveMachine ent)"
  unfolding keeps_def
proof (intro allI impI)
  fix s assume s: "net_inv s \<and> no_players s"
  then have "linked s" "no_players s" by (auto dest: net_invD)
  then show "no_players (snd (ProcessRemoveMachine ent s))"
    by (cases "find_i ent ''ID''")
      (auto simp: ProcessRemoveMachine_def and_then_def SaveMove_idle no_playersD
        intro!: no_players_set_machine split: option.split)
qed

lemma AcceptAuth_idle:
  assumes "net_inv s" "auth_mSocket auth < next_socket s" "no_players s"
  shows "no_players (snd (AcceptAuth auth s))"
proof -
  have e: "no_players (enrolled auth address s)" for address
    using assms(3) by (simp add: no_players_def login_machine_def)
  show ?thesis
  proof (cases "mNextMachineID s = INT_LIMIT \<or> net_peer (sockets s (auth_mSocket auth)) = None")
    case True
    then show ?thesis using assms
      by (auto simp: AcceptAuth_def op_then_def GetNextMachineID_def NetMachine_new_def Let_def
          SetParent_def no_players_def)
  next
    case False
    then show ?thesis using AcceptAuth_ok[OF assms(1,2)] e by auto
  qed
qed

lemma keeps_refuse: "keeps (refuse so reason)"
  using SendEvent_snd by (auto simp: keeps_def refuse_def op_then_def split: prod.split sum.split)
    (metis no_players_frame(2) snd_conv)+

lemma keeps_ProcessAuth: "keeps (ProcessAuth ent)"
  unfolding keeps_def
proof (intro allI impI)
  fix s assume s: "net_inv s \<and> no_players s"
  have "no_players (snd (RejectAuth auth s))" for auth
    using keeps_refuse s by (simp add: RejectAuth_def keeps_def)
  then show "no_players (snd (ProcessAuth ent s))"
    using s net_invD(6)[of s]
    by (cases "find_i ent ''ACCEPTED''"; cases "find_i ent ''ID''"; cases "find_i ent ''ACCT_ID''")
      (auto simp: ProcessAuth_def AcceptAuth_idle split: option.split)
qed

lemma broadcast_idle: "net_inv s \<Longrightarrow> no_players s \<Longrightarrow> no_players (snd (broadcast p ent i s))"
proof (induction p ent i s rule: broadcast.induct)
  case (1 p ent i s)
  show ?case
  proof (cases "i < length (mMachines s) \<and> p (mMachines s ! i) s")
    case True
    then have t: "TCPSend (mMachines s ! i) ent s = (None, told (mMachines s ! i) ent s)"
      using 1(3) by (intro TCPSend_inv) simp_all
    have "broadcast p ent i s = broadcast p ent (i + 1) (told (mMachines s ! i) ent s)"
      using True by (subst broadcast.simps) (simp add: t)
    then show ?thesis
      using 1(1)[OF conjunct1[OF True] refl conjunct2[OF True] t[symmetric] refl] 1(3,4)
      by (simp add: net_inv_told)
  next
    case False
    then show ?thesis using 1(2-4) by (subst broadcast.simps) auto
  qed
qed

lemma keeps_net_method: "keeps (net_method v ent)"
proof -
  have "keeps done_with" by (simp add: keeps_def)
  then show ?thesis
    by (cases v) (simp_all add: net_method_def ProcessEnvironmentInfo_def ProcessNpcProp_def
        ProcessPlayerProp_def ProcessCharactersList_def keeps_forward keeps_ProcessRemoveMachine keeps_ProcessAuth)
qed

lemma keeps_dispatch: "(\<And>v. keeps (f v ent)) \<Longrightarrow> keeps (dispatch tab f ent)"
  by (simp add: keeps_def dispatch_def Let_def)

lemma keeps_recv_method:
  assumes "keeps (command ent)" "keeps (console_command ent)"
  shows "keeps (recv_method command console_command v ent)"
proof -
  have d: "keeps done_with" by (simp add: keeps_def)
  have "keeps (ProcessReceivedChatEvent command ent)"
    using assms(1) by (auto simp: keeps_def ProcessReceivedChatEvent_def with_res_def broadcast_idle
        split: sum.split list.split)
  moreover have "keeps (ProcessReceivedCharactersList ent)"
    using keeps_send by (auto simp: keeps_def ProcessReceivedCharactersList_def with_res_def split: sum.split)
  moreover have "keeps (ProcessReceivedDelPlayer ent)"
    by (auto simp: keeps_def ProcessReceivedDelPlayer_def with_res_def Let_def and_then_def net_invD(1)
        broadcast_idle split: sum.split option.split)
  moreover have "keeps (ProcessReceivedPlayerPos ent)"
    by (auto simp: keeps_def ProcessReceivedPlayerPos_def with_res_def no_playersD split: sum.split option.split)
  moreover have "keeps (ProcessReceivedPing ent)"
    by (auto simp: keeps_def ProcessReceivedPing_def with_res_def GetMachineFromID_def[symmetric]
        machine_from_listed TCPSend_inv split: sum.split option.split)
  ultimately show ?thesis using assms(2) d keeps_send
    by (cases v) (simp_all add: recv_method_def ProcessReceivedLoad_def ProcessReceivedCreateCharacter_def
        ProcessReceivedDeleteCharacter_def ProcessReceivedPlayerProp_def ProcessReceivedNpcProp_def keeps_ProcessAuth)
qed

section \<open>Steps\<close>

text \<open>
  A connection is accepted on the socket that waits for it; the thread of an accepted socket
  runs; a receive completes; the outside of a socket changes; the engine takes an event from
  one of its queues and handles it to the end; another engine pushes an event or takes one.
  Steps in which a handler fails are left out: they end the server or the thread. There is no step that handles a
  command, as the repository does not say what it does: what is reached is what comes before the first one is handled.
\<close>

inductive net_step ::
  "(string \<Rightarrow> EngineEvent option) \<Rightarrow> (EngineEvent \<Rightarrow> NetEngine act) \<Rightarrow> (EngineEvent \<Rightarrow> NetEngine act)
     \<Rightarrow> NetEngine \<Rightarrow> NetEngine \<Rightarrow> bool"
  for decode command console_command where
  accept: "so \<in> set (accepts s) \<Longrightarrow>
     HandleAcceptTcp 0 so (set_socket so ((sockets s so)\<lparr>so_is_open := True, net_peer := peer, net_takes := w\<rparr>)
        (s\<lparr>accepts := remove1 so (accepts s)\<rparr>)) = (None, s') \<Longrightarrow>
     net_step decode command console_command s s'"
| accept_console: "so \<in> set (accepts_cons s) \<Longrightarrow>
     HandleAcceptTcpCons 0 so (set_socket so ((sockets s so)\<lparr>so_is_open := True, net_peer := peer, net_takes := w\<rparr>)
        (s\<lparr>accepts_cons := remove1 so (accepts_cons s)\<rparr>)) = (None, s') \<Longrightarrow>
     net_step decode command console_command s s'"
| thread: "so \<in> set (threads s) \<Longrightarrow>
     ServerThreadTCPReceive decode memory acct so buffer (s\<lparr>threads := remove1 so (threads s)\<rparr>) = (None, s') \<Longrightarrow>
     net_step decode command console_command s s'"
| thread_console: "so \<in> set (threads_cons s) \<Longrightarrow>
     ServerThreadTcpReceiveCons so (s\<lparr>threads_cons := remove1 so (threads_cons s)\<rparr>) = (None, s') \<Longrightarrow>
     net_step decode command console_command s s'"
| receive: "so < next_socket s \<Longrightarrow> 0 < so_receives (sockets s so) \<Longrightarrow>
     AsyncRead push_received decode so error bytes
       (set_socket so ((sockets s so)\<lparr>so_receives := so_receives (sockets s so) - 1\<rparr>) s) = (None, s') \<Longrightarrow>
     net_step decode command console_command s s'"
| outside: "so < next_socket s \<Longrightarrow>
     net_step decode command console_command s
       (set_socket so ((sockets s so)\<lparr>net_peer := peer, net_takes := w, net_receive_throws := b\<rparr>) s)"
| handle: "events s NetRef = ent # q \<Longrightarrow>
     ProcessEvent net_method ent (set_events NetRef q s) = (None, s') \<Longrightarrow>
     net_step decode command console_command s s'"
| handle_received: "mReceivedEvents s = ent # q \<Longrightarrow> \<not> runs_command ent \<Longrightarrow>
     ProcessReceivedEvent command console_command ent (s\<lparr>mReceivedEvents := q\<rparr>) = (None, s') \<Longrightarrow>
     net_step decode command console_command s s'"
| pushed: "net_step decode command console_command s (PushEvent r ent s)"
| taken: "r \<noteq> NetRef \<Longrightarrow> events s r = ent # q \<Longrightarrow>
     net_step decode command console_command s (set_events r q s)"

text \<open>The engine as the constructor leaves it when it could listen, once linked.\<close>

definition net_start :: "(item list \<Rightarrow> string) \<Rightarrow> (string \<Rightarrow> string option) \<Rightarrow> int \<Rightarrow> NetEngine \<Rightarrow> bool" where
  "net_start text files junk s \<longleftrightarrow>
     (\<exists>s0. NetEngine_new text files junk (\<lambda>_. ListenOpen) (net_memory text) = (None, s0) \<and> s = link_engines s0)"

inductive net_reachable ::
  "(string \<Rightarrow> EngineEvent option) \<Rightarrow> (EngineEvent \<Rightarrow> NetEngine act) \<Rightarrow> (EngineEvent \<Rightarrow> NetEngine act)
     \<Rightarrow> NetEngine \<Rightarrow> bool"
  for decode command console_command where
  start: "net_start text files junk s \<Longrightarrow> net_reachable decode command console_command s"
| step: "net_reachable decode command console_command s \<Longrightarrow>
     net_step decode command console_command s s' \<Longrightarrow> net_reachable decode command console_command s'"

section \<open>The steps keep the invariant\<close>

definition idle_inv :: "NetEngine \<Rightarrow> bool" where
  "idle_inv s \<longleftrightarrow> net_inv s \<and> no_players s"

lemma net_inv_new_socket:
  assumes "net_inv s" "no_players s"
  shows "net_inv (snd (new_socket s))" "no_players (snd (new_socket s))"
    "fst (new_socket s) < next_socket (snd (new_socket s))"
proof -
  have fr: "engines (snd (new_socket s)) = engines s" "mMachines (snd (new_socket s)) = mMachines s"
    "machines (snd (new_socket s)) = machines s" "next_machine (snd (new_socket s)) = next_machine s"
    "mNextMachineID (snd (new_socket s)) = mNextMachineID s" "mAuth (snd (new_socket s)) = mAuth s"
    "accepts (snd (new_socket s)) = accepts s" "accepts_cons (snd (new_socket s)) = accepts_cons s"
    "threads (snd (new_socket s)) = threads s" "threads_cons (snd (new_socket s)) = threads_cons s"
    "next_socket (snd (new_socket s)) = Suc (next_socket s)" "fst (new_socket s) = next_socket s"
    by (simp_all add: new_socket_def)
  have l: "linked (snd (new_socket s)) = linked s" by (simp add: linked_def fr)
  have so: "so_mSocket (sockets (snd (new_socket s)) so)" if "so < Suc (next_socket s)" for so
    using that net_invD(5)[OF assms(1), of so] by (auto simp: new_socket_def TcpSocket_new_def)
  show "net_inv (snd (new_socket s))"
    using assms(1) so unfolding net_inv_def fr l listed_ok_def
    by (auto intro: less_SucI simp: subset_iff)
  show "no_players (snd (new_socket s))" using assms(2) by (simp add: no_players_def fr)
  show "fst (new_socket s) < next_socket (snd (new_socket s))" by (simp add: fr)
qed

text \<open>Updates of the members the invariant only bounds, or does not look at.\<close>

lemma idle_pending:
  assumes "idle_inv s" "set a \<subseteq> {..<next_socket s}"
  shows "idle_inv (s\<lparr>accepts := a\<rparr>)" "idle_inv (s\<lparr>accepts_cons := a\<rparr>)"
    "idle_inv (s\<lparr>threads := a\<rparr>)" "idle_inv (s\<lparr>threads_cons := a\<rparr>)"
  using assms by (auto simp: idle_inv_def net_inv_def listed_ok_def linked_def no_players_def)

lemma idle_ignored [simp]:
  "idle_inv (s\<lparr>mTcpSocket := q\<rparr>) = idle_inv s"
  "idle_inv (s\<lparr>mTcpSocketCons := q\<rparr>) = idle_inv s"
  "idle_inv (s\<lparr>mConsoles := cs\<rparr>) = idle_inv s"
  "idle_inv (s\<lparr>consoles := cm\<rparr>) = idle_inv s"
  "idle_inv (s\<lparr>next_console := nc\<rparr>) = idle_inv s"
  "idle_inv (s\<lparr>mNextConsoleID := ni\<rparr>) = idle_inv s"
  "idle_inv (s\<lparr>auth_id := ai\<rparr>) = idle_inv s"
  "idle_inv (s\<lparr>mReceivedEvents := w\<rparr>) = idle_inv s"
  by (simp_all add: idle_inv_def net_inv_def listed_ok_def linked_def no_players_def)

lemma idle_effects [simp]:
  "idle_inv (PushEvent r e s) = idle_inv s"
  "idle_inv (set_events r evs s) = idle_inv s"
  "idle_inv (snd (SetBind so s)) = idle_inv s"
  "idle_inv (deliver so e s) = idle_inv s"
  "idle_inv (Close so s) = idle_inv s"
proof -
  have sb: "net_inv (snd (SetBind so s)) = net_inv s"
    by (auto simp: SetBind_def Let_def net_inv_set_socket)
  show "idle_inv (snd (SetBind so s)) = idle_inv s" by (simp add: idle_inv_def sb)
qed (simp_all add: idle_inv_def)

lemma pending_subset: "net_inv s \<Longrightarrow>
    set (accepts s) \<subseteq> {..<next_socket s} \<and> set (accepts_cons s) \<subseteq> {..<next_socket s} \<and>
    set (threads s) \<subseteq> {..<next_socket s} \<and> set (threads_cons s) \<subseteq> {..<next_socket s}"
  by (auto simp: net_inv_def)

lemma idle_set_socket: "so_mSocket k = so_mSocket (sockets s so) \<Longrightarrow> idle_inv (set_socket so k s) = idle_inv s"
  by (simp add: idle_inv_def net_inv_set_socket)

lemma idle_new_socket: "idle_inv s \<Longrightarrow> idle_inv (snd (new_socket s))"
  using net_inv_new_socket by (simp add: idle_inv_def)

lemma idle_bounds:
  assumes "idle_inv s"
  shows "set (accepts s) \<subseteq> {..<next_socket s}" "set (accepts_cons s) \<subseteq> {..<next_socket s}"
    "set (threads s) \<subseteq> {..<next_socket s}" "set (threads_cons s) \<subseteq> {..<next_socket s}"
  using assms pending_subset by (auto simp: idle_inv_def)

lemma new_socket_bounds [simp]:
  "next_socket (snd (new_socket s)) = Suc (next_socket s)" "fst (new_socket s) = next_socket s"
  "accepts (snd (new_socket s)) = accepts s" "accepts_cons (snd (new_socket s)) = accepts_cons s"
  by (simp_all add: new_socket_def)

lemma idle_HandleAcceptTcp:
  assumes "idle_inv s" "so < next_socket s"
  shows "idle_inv (snd (HandleAcceptTcp error so s))"
proof -
  let ?s1 = "s\<lparr>threads := threads s @ [so]\<rparr>"
  have 1: "idle_inv ?s1" using assms idle_bounds(3)[OF assms(1)] by (intro idle_pending) auto
  have 2: "idle_inv ((snd (new_socket ?s1))\<lparr>mTcpSocket := p\<rparr>)" for p
    using idle_new_socket[OF 1] by simp
  have "set (accepts s @ [next_socket s]) \<subseteq> {..<Suc (next_socket s)}"
    using idle_bounds(1)[OF assms(1)] by (auto intro: less_SucI)
  then show ?thesis using assms(1) idle_pending(1)[OF 2]
    by (simp add: HandleAcceptTcp_def Let_def)
qed

lemma idle_HandleAcceptTcpCons:
  assumes "idle_inv s" "so < next_socket s"
  shows "idle_inv (snd (HandleAcceptTcpCons error so s))"
proof -
  let ?s1 = "s\<lparr>threads_cons := threads_cons s @ [so]\<rparr>"
  have 1: "idle_inv ?s1" using assms idle_bounds(4)[OF assms(1)] by (intro idle_pending) auto
  have 2: "idle_inv ((snd (new_socket ?s1))\<lparr>mTcpSocketCons := p\<rparr>)" for p
    using idle_new_socket[OF 1] by simp
  have "set (accepts_cons s @ [next_socket s]) \<subseteq> {..<Suc (next_socket s)}"
    using idle_bounds(2)[OF assms(1)] by (auto intro: less_SucI)
  then show ?thesis using assms(1) idle_pending(2)[OF 2]
    by (simp add: HandleAcceptTcpCons_def Let_def)
qed

lemma idle_refuse: "idle_inv s \<Longrightarrow> idle_inv (snd (refuse so reason s))"
  using safeD(1)[OF safe_refuse] keeps_refuse by (auto simp: idle_inv_def keeps_def)

lemma map_insert_set: "e \<in> set (map_insert k v m) \<Longrightarrow> e \<in> set m \<or> e = (k, v)"
proof -
  have "e \<in> set (map_put k v m) \<Longrightarrow> e \<in> set m \<or> e = (k, v)" by (induction m) (auto split: if_splits)
  then show "e \<in> set (map_insert k v m) \<Longrightarrow> e \<in> set m \<or> e = (k, v)"
    by (auto simp: map_insert_def split: if_splits)
qed

lemma idle_mAuth:
  assumes "idle_inv s" "auth_mSocket a < next_socket s"
  shows "idle_inv (s\<lparr>mAuth := map_insert i a (mAuth s)\<rparr>)"
  using assms by (auto simp: idle_inv_def net_inv_def listed_ok_def linked_def no_players_def dest!: map_insert_set)

lemma idle_linked: "idle_inv s \<Longrightarrow> linked s"
  by (auto simp: idle_inv_def dest: net_invD(1))

lemma idle_ServerThread:
  assumes "idle_inv s" "so < next_socket s"
  shows "idle_inv (snd (ServerThreadTCPReceive decode memory acct so buffer s))"
proof -
  let ?t = "snd (SetBind so s)" and ?ne = "first_event decode memory buffer"
  have sock: "so_mSocket (sockets s so)"
    using assms by (auto simp: idle_inv_def dest: net_invD(5))
  have t: "idle_inv ?t" using assms(1) by simp
  let ?a = "\<lparr>auth_mAcctName = at_s ?ne ''ACCT_NAME'', auth_mAcctId = acct, auth_mSocket = so\<rparr>"
  let ?u = "?t\<lparr>auth_id := auth_id s + 1\<rparr>"
  have u: "idle_inv (?u\<lparr>mAuth := map_insert (auth_id s + 1) ?a (mAuth ?u)\<rparr>)"
    using t assms(2) by (intro idle_mAuth) simp_all
  show ?thesis
    using idle_refuse[OF t] u idle_linked[OF u]
    by (simp add: ServerThreadTCPReceive_def op_then_def SyncReceive_eq[OF sock])
qed

lemma idle_ServerThreadCons:
  assumes "idle_inv s" "so < next_socket s"
  shows "idle_inv (snd (ServerThreadTcpReceiveCons so s))"
proof -
  have snd: "idle_inv (snd (Console_TCPSend c e s)) = idle_inv s" for c e s
    using SendEvent_snd
    by (auto simp: Console_TCPSend_def op_then_def split: option.split prod.split sum.split)
      (metis idle_effects(4) snd_conv)+
  have cons: "idle_inv (set_console c k s) = idle_inv s" for c k s by (simp add: set_console_def)
  have par: "idle_inv (SetParent so d s) = idle_inv s" for d s
    by (simp add: SetParent_def idle_set_socket)
  show ?thesis using assms(1)
    by (auto simp: ServerThreadTcpReceiveCons_def op_then_def GetNextConsoleID_def NetConsole_new_def Let_def
        snd cons par split: option.split)
qed

lemma idle_AsyncRead:
  assumes "idle_inv s" "so < next_socket s"
  shows "idle_inv (snd (AsyncRead push_received decode so error bytes s))"
proof -
  have "so_mSocket (sockets s so)" using assms by (auto simp: idle_inv_def dest: net_invD(5))
  moreover have "no_players (snd (rebind k t)) = no_players t" for k t
    by (auto simp: rebind_def op_then_def SetBind_def Let_def)
  moreover have "no_players (push_received d e s) = no_players s" for d e
    by (cases d) (simp_all add: push_received_def Machine_PushReceivedEvent_def
        Console_PushReceivedEvent_def Engine_PushReceivedEvent_def)
  ultimately show ?thesis using assms(1) safe_AsyncRead_inv
    by (auto simp: idle_inv_def AsyncRead_def split: option.split)
qed

lemma idle_act: "safe a \<Longrightarrow> keeps a \<Longrightarrow> idle_inv s \<Longrightarrow> idle_inv (snd (a s))"
  by (auto simp: idle_inv_def keeps_def dest: safeD)

lemma idle_ProcessEvent: "idle_inv s \<Longrightarrow> idle_inv (snd (ProcessEvent net_method ent s))"
  unfolding ProcessEvent_def
  by (intro idle_act safe_dispatch keeps_dispatch safe_net_method keeps_net_method)

lemma idle_ProcessReceivedEvent:
  assumes "\<not> runs_command ent" "idle_inv s"
  shows "idle_inv (snd (ProcessReceivedEvent command cc ent s))"
proof -
  have "keeps done_with" by (simp add: keeps_def)
  then have "idle_inv (snd (ProcessReceivedEvent (\<lambda>_. done_with) (\<lambda>_. done_with) ent s))"
    unfolding ProcessReceivedEvent_def using assms(2)
    by (intro idle_act safe_dispatch keeps_dispatch safe_recv_method keeps_recv_method safe_done)
  then show ?thesis using ProcessReceivedEvent_other[OF assms(1)] by metis
qed

lemma remove1_bounds: "set xs \<subseteq> A \<Longrightarrow> set (remove1 x xs) \<subseteq> A"
  using set_remove1_subset by fast

lemma idle_step:
  assumes "net_step decode command cc s s'" "idle_inv s"
  shows "idle_inv s'"
  using assms
proof cases
  case (accept so w peer)
  let ?t = "set_socket so ((sockets s so)\<lparr>so_is_open := True, net_peer := peer, net_takes := w\<rparr>)
        (s\<lparr>accepts := remove1 so (accepts s)\<rparr>)"
  have "idle_inv ?t"
    using idle_pending(1)[OF assms(2) remove1_bounds[OF idle_bounds(1)[OF assms(2)]]] by (simp add: idle_set_socket)
  moreover have "so < next_socket ?t" using accept(1) idle_bounds(1)[OF assms(2)] by auto
  ultimately show ?thesis using idle_HandleAcceptTcp[of ?t so 0] accept(2) by simp
next
  case (accept_console so w peer)
  let ?t = "set_socket so ((sockets s so)\<lparr>so_is_open := True, net_peer := peer, net_takes := w\<rparr>)
        (s\<lparr>accepts_cons := remove1 so (accepts_cons s)\<rparr>)"
  have "idle_inv ?t"
    using idle_pending(2)[OF assms(2) remove1_bounds[OF idle_bounds(2)[OF assms(2)]]] by (simp add: idle_set_socket)
  moreover have "so < next_socket ?t" using accept_console(1) idle_bounds(2)[OF assms(2)] by auto
  ultimately show ?thesis using idle_HandleAcceptTcpCons[of ?t so 0] accept_console(2) by simp
next
  case (thread so memory acct buffer)
  let ?t = "s\<lparr>threads := remove1 so (threads s)\<rparr>"
  have "idle_inv ?t" by (intro idle_pending assms(2) remove1_bounds idle_bounds)
  moreover have "so < next_socket ?t" using thread(1) idle_bounds(3)[OF assms(2)] by auto
  ultimately show ?thesis using idle_ServerThread[of ?t so decode memory acct buffer] thread(2) by simp
next
  case (thread_console so)
  let ?t = "s\<lparr>threads_cons := remove1 so (threads_cons s)\<rparr>"
  have "idle_inv ?t" by (intro idle_pending assms(2) remove1_bounds idle_bounds)
  moreover have "so < next_socket ?t" using thread_console(1) idle_bounds(4)[OF assms(2)] by auto
  ultimately show ?thesis using idle_ServerThreadCons[of ?t so] thread_console(2) by simp
next
  case (receive so error bytes)
  let ?t = "set_socket so ((sockets s so)\<lparr>so_receives := so_receives (sockets s so) - 1\<rparr>) s"
  have "idle_inv ?t" using assms(2) by (simp add: idle_set_socket)
  then show ?thesis using idle_AsyncRead[of ?t so decode error bytes] receive by simp
next
  case (outside so b w peer)
  then show ?thesis using assms(2) by (simp add: idle_set_socket)
next
  case (handle ent q)
  then show ?thesis using idle_ProcessEvent[of "set_events NetRef q s" ent] assms(2) by simp
next
  case (handle_received ent q)
  then show ?thesis
    using idle_ProcessReceivedEvent[of ent "s\<lparr>mReceivedEvents := q\<rparr>" command cc] assms(2) by simp
qed (use assms(2) in simp_all)

lemma idle_start:
  assumes "net_start text files junk s"
  shows "idle_inv s"
proof -
  let ?s1 = "(net_memory text)\<lparr>mTcpAcceptorCons := Null, mTcpAcceptor := Null, mIsRunning := True,
                 mNextConsoleID := 1, mNextMachineID := 1, engines := (\<lambda>_. Engine_new)(NetRef := Engine_new)\<rparr>"
  obtain s0 where s0: "NetEngine_new text files junk (\<lambda>_. ListenOpen) (net_memory text) = (None, s0)"
    "s = link_engines s0"
    using assms by (auto simp: net_start_def)
  have e: "engines (net_memory text) = (\<lambda>_. Engine_new)" by (simp add: net_memory_def)
  have "mMachines s = [] \<and> mAuth s = [] \<and> mNextMachineID s = 1 \<and> no_players s \<and>
     (\<forall>so < next_socket s. so_mSocket (sockets s so)) \<and>
     set (accepts s) \<union> set (accepts_cons s) \<union> set (threads s) \<union> set (threads_cons s) \<subseteq> {..<next_socket s}"
    using s0(1)
    by (cases "ConfigFileParser_open files ''./Config/network.conf'' ''='' ''#'' ''EndConfigFile''")
      (auto simp: s0(2) NetEngine_new_def e GetConfigData_def open_console_acceptor_def open_acceptor_def
        new_socket_def Let_def and_then_def link_engines_def net_memory_def no_players_def TcpSocket_new_def
        less_Suc_eq split: fault.splits if_splits)
  then show ?thesis
    using s0(2) by (simp add: idle_inv_def net_inv_def)
qed

lemma idle_reachable:
  assumes "net_reachable decode command cc s"
  shows "idle_inv s"
  using assms by induction (auto intro: idle_start idle_step)

text \<open>C2. Whatever bytes the clients send and however the threads interleave, in every state the network
  engine reaches before it handles a command (a line of chat that starts with a dot, or one of a console, whose methods
  the repository does not define) the machines on its list are distinct, allocated, not being deleted, and
  have distinct numbers between one and the next number to be given, by which they are found.\<close>

theorem reachable_machines:
  assumes "net_reachable decode command console_command s"
  shows "distinct (mMachines s) \<and> inj_on (\<lambda>m. nm_mID (machines s m)) (set (mMachines s)) \<and>
     (\<forall>m \<in> set (mMachines s). m < next_machine s \<and> \<not> nm_mDeleting (machines s m) \<and>
        1 \<le> nm_mID (machines s m) \<and> nm_mID (machines s m) < mNextMachineID s \<and>
        GetMachineFromID (nm_mID (machines s m)) s = Some m)"
proof -
  have i: "net_inv s" using idle_reachable[OF assms] by (simp add: idle_inv_def)
  have "GetMachineFromID (nm_mID (machines s m)) s = Some m" if m: "m \<in> set (mMachines s)" for m
  proof (cases "GetMachineFromID (nm_mID (machines s m)) s")
    case None
    then show ?thesis using m by (auto simp: GetMachineFromID_def find_None_iff)
  next
    case (Some n)
    then have "n \<in> set (mMachines s)" "nm_mID (machines s n) = nm_mID (machines s m)"
      using machine_from_listed(1) by blast+
    then show ?thesis using Some net_invD(3)[OF i] m by (auto dest: inj_onD)
  qed
  then show ?thesis using net_invD(2,3)[OF i] net_invD(4)[OF i] by (auto simp: listed_ok_def)
qed

text \<open>C39. Nothing that the repository defines gives a machine its player. In every state reached before a command is
  handled (whose methods it does not define) a position a client sends with a number is dropped: no machine is told and nothing is saved.\<close>

theorem positions_dropped:
  assumes "net_reachable decode command console_command s" "find_i ent ''ID'' = Some ID"
  shows "ProcessReceivedPlayerPos ent s = (None, s) \<and> (\<forall>m. GetNickName m s = [] \<and> GetPlayerID m s = 1)"
proof -
  have "no_players s" using idle_reachable[OF assms(1)] by (simp add: idle_inv_def)
  then show ?thesis using assms(2)
    by (auto simp: ProcessReceivedPlayerPos_def no_playersD GetNickName_def GetPlayerID_def split: option.split)
qed

section \<open>Examples of reached states\<close>

definition network_conf :: "string \<Rightarrow> string option" where
  "network_conf name = (if name = ''./Config/network.conf'' then Some ''port_tcp_server_connection = 9000'' else None)"

definition started :: NetEngine where
  "started = link_engines (snd (NetEngine_new header_text network_conf 0 (\<lambda>_. ListenOpen) (net_memory header_text)))"

lemma NetEngine_new_returns: "fst (NetEngine_new text files junk (\<lambda>_. ListenOpen) s) = None"
  by (cases "ConfigFileParser_open files ''./Config/network.conf'' ''='' ''#'' ''EndConfigFile''")
    (auto simp: NetEngine_new_def GetConfigData_def open_console_acceptor_def open_acceptor_def
      Let_def and_then_def ConfigFileParser_open_def file_not_found_def split: fault.splits option.splits)

lemma started_reachable: "net_reachable decode command cc started"
proof -
  have "net_start header_text network_conf 0 started"
    using NetEngine_new_returns unfolding net_start_def started_def by (metis prod.collapse)
  then show ?thesis by (rule net_reachable.start)
qed

text \<open>
  A client logs in: its connection is accepted, it sends its nick, the data base answers that it accepts, and the engine
  handles the answer.
\<close>

lemma login_steps:
  assumes r: "net_reachable (\<lambda>_. Some nick_bob) command cc s" and so: "so \<in> set (accepts s)" "distinct (accepts s)"
    and s: "events s NetRef = []" "map_find (mAuth s) (auth_id s + 1) = None" "mNextMachineID s \<noteq> INT_LIMIT" "mIsRunning s"
  shows "\<exists>t t'. net_reachable (\<lambda>_. Some nick_bob) command cc t \<and> net_step (\<lambda>_. Some nick_bob) command cc t t' \<and>
     mMachines t = mMachines s \<and> mMachines t' = mMachines s @ [next_machine s] \<and>
     mNextMachineID t = mNextMachineID s \<and> nm_mID (machines t' (next_machine s)) = mNextMachineID s"
proof -
  let ?dec = "\<lambda>_ :: string. Some nick_bob" and ?ID = "auth_id s + 1"
  have i: "idle_inv s" by (rule idle_reachable[OF r])
  let ?s0 = "set_socket so ((sockets s so)\<lparr>so_is_open := True, net_peer := Some ''10.0.0.7'', net_takes := Some 100\<rparr>)
      (s\<lparr>accepts := remove1 so (accepts s)\<rparr>)"
  define s1 where "s1 = snd (HandleAcceptTcp 0 so ?s0)"
  have sl: "so < next_socket s" using so(1) idle_bounds(1)[OF i] by auto
  have h: "HandleAcceptTcp 0 so ?s0 = (None, s1)" by (simp add: s1_def HandleAcceptTcp_def Let_def)
  have r1: "net_reachable ?dec command cc s1"
    by (rule net_reachable.step[OF r net_step.accept[where peer = "Some ''10.0.0.7''" and w = "Some 100", OF so(1) h]])
  have f1: "so \<in> set (threads s1)" "events s1 NetRef = []" "mAuth s1 = mAuth s" "auth_id s1 = auth_id s"
    "mNextMachineID s1 = mNextMachineID s" "mIsRunning s1" "mMachines s1 = mMachines s" "next_machine s1 = next_machine s"
    "so_is_open (sockets s1 so)" "net_peer (sockets s1 so) = Some ''10.0.0.7''" "net_takes (sockets s1 so) = Some 100"
    using s sl by (simp_all add: s1_def HandleAcceptTcp_def Let_def new_socket_def events_def)
  let ?t = "s1\<lparr>threads := remove1 so (threads s1)\<rparr>"
  have it: "idle_inv ?t" using idle_reachable[OF r1] by (intro idle_pending remove1_bounds idle_bounds)
  then have ni: "net_inv ?t" by (simp add: idle_inv_def)
  have st: "so < next_socket ?t" using f1(1) idle_bounds(3)[OF idle_reachable[OF r1]] by auto
  have nb: "mType nick_bob = MSG_NICK" "at_s nick_bob ''ACCT_NAME'' = ''bob''" by (simp_all add: nick_bob_def at_s_def)
  define s2 where "s2 = snd (ServerThreadTCPReceive ?dec nick_bob 0 so (Some ''bytes'') ?t)"
  have fresh: "map_find (mAuth ?t) (auth_id ?t + 1) = None" using s(2) by (simp add: f1)
  define a where "a = \<lparr>auth_mAcctName = ''bob'', auth_mAcctId = 0, auth_mSocket = so\<rparr>"
  from first_message_run[where decode = ?dec and memory = nick_bob and buffer = "Some ''bytes''" and acct_memory = 0, OF ni st refl fresh]
  have a: "ServerThreadTCPReceive ?dec nick_bob 0 so (Some ''bytes'') ?t = (None, s2)" "auth_mSocket a = so"
      "map_find (mAuth s2) ?ID = Some a" "mMachines s2 = mMachines s"
    using nb by (auto simp: a_def s2_def first_event_def f1)
  have r2: "net_reachable ?dec command cc s2"
    by (rule net_reachable.step[OF r1 net_step.thread[OF f1(1) a(1)]])
  have f2: "events s2 NetRef = []" "mNextMachineID s2 = mNextMachineID s" "mIsRunning s2" "next_machine s2 = next_machine s"
    "so_is_open (sockets s2 so)" "net_peer (sockets s2 so) = Some ''10.0.0.7''" "net_takes (sockets s2 so) = Some 100"
    using net_invD(1)[OF ni] net_invD(5)[OF ni st] f1 nb
    by (auto simp: s2_def ServerThreadTCPReceive_def op_then_def SyncReceive_eq first_event_def and_then_def linked_def
        SendMessageToDataBase_def push_to_def) (simp_all add: events_def)
  let ?ans = "put_i ''ACCT_ID'' 42 (put_i ''ACCEPTED'' 1 (put_i ''ID'' (sint ?ID) (event_of AUTH)))"
  let ?s3 = "PushEvent NetRef ?ans s2"
  have r3: "net_reachable ?dec command cc ?s3" by (rule net_reachable.step[OF r2 net_step.pushed])
  have n3: "net_inv (set_events NetRef [] ?s3)" using idle_reachable[OF r3] by (simp add: idle_inv_def)
  let ?a = "a\<lparr>auth_mAcctId := 42\<rparr>"
  let ?s4 = "told (next_machine s) accept_event (enrolled ?a ''10.0.0.7'' (set_events NetRef [] ?s3))"
  have "so < next_socket (set_events NetRef [] ?s3)" using net_invD(6)[OF n3, of ?ID a] a(2,3) by simp
  then have acc: "AcceptAuth ?a (set_events NetRef [] ?s3) = (None, ?s4)"
    using AcceptAuth_ok[OF n3, of ?a "''10.0.0.7''"] a(2) f2 s(3) by simp
  have "ProcessEvent net_method ?ans (set_events NetRef [] ?s3) = (None, ?s4)"
    using acc a(3) by (simp add: ProcessEvent_slot net_method_def ProcessAuth_def)
  then have step: "net_step ?dec command cc ?s3 ?s4"
    using f2(1) by (intro net_step.handle[where ent = ?ans and q = "[]"]) simp_all
  have sends: "machine_sends (enrolled ?a ''10.0.0.7'' (set_events NetRef [] ?s3)) (next_machine s)"
    using f2 a(2) by (simp add: machine_sends_def machine_socket_def login_machine_def sends_def)
  then have m4: "mMachines ?s4 = mMachines s @ [next_machine s]" "nm_mID (machines ?s4 (next_machine s)) = mNextMachineID s"
    using a(4) f2 by (simp_all add: told_def login_machine_def)
  show ?thesis using r3 step m4 a(4) f2(2) by (intro exI[of _ ?s3] exI[of _ ?s4]) simp
qed

lemma started_frame:
  "\<exists>so. accepts started = [so]" "events started NetRef = []" "mAuth started = []" "mNextMachineID started = 1"
  "mIsRunning started" "mMachines started = []" "next_machine started = 0"
proof -
  have open_conf: "\<exists>c. ConfigFileParser_open network_conf ''./Config/network.conf'' ''='' ''#'' ''EndConfigFile'' = Inr c"
    by (simp add: ConfigFileParser_open_def network_conf_def)
  have e: "engines (net_memory header_text) = (\<lambda>_. Engine_new)" by (simp add: net_memory_def)
  have "(\<exists>so. accepts started = [so]) \<and> events started NetRef = [] \<and> mAuth started = [] \<and> mNextMachineID started = 1 \<and>
     mIsRunning started \<and> mMachines started = [] \<and> next_machine started = 0"
    using open_conf
    by (auto simp: started_def NetEngine_new_def e GetConfigData_def open_console_acceptor_def open_acceptor_def
        new_socket_def Let_def and_then_def link_engines_def net_memory_def events_def attach_defs Engine_new_def)
  then show "\<exists>so. accepts started = [so]" "events started NetRef = []" "mAuth started = []" "mNextMachineID started = 1"
    "mIsRunning started" "mMachines started = []" "next_machine started = 0" by simp_all
qed

lemma first_login:
  "\<exists>s s'. net_reachable (\<lambda>_. Some nick_bob) command cc s \<and> net_step (\<lambda>_. Some nick_bob) command cc s s' \<and>
     mMachines s = [] \<and> mNextMachineID s = 1 \<and> mMachines s' = [0] \<and> nm_mID (machines s' 0) = 1"
proof -
  obtain so where so: "accepts started = [so]" using started_frame(1) by blast
  have "so \<in> set (accepts started)" "distinct (accepts started)" by (simp_all add: so)
  from login_steps[OF started_reachable this started_frame(2) _ _ started_frame(5), of command cc]
  show ?thesis by (auto simp: started_frame INT_LIMIT_def map_find_def)
qed

text \<open>The state after the first login.\<close>

theorem reachable_machines_witness:
  "\<exists>s. net_reachable (\<lambda>_. Some nick_bob) (\<lambda>_. done_with) (\<lambda>_. done_with) s \<and> mMachines s = [0] \<and> GetMachineFromID 1 s = Some 0"
proof -
  obtain s s' where s: "net_reachable (\<lambda>_. Some nick_bob) (\<lambda>_. done_with) (\<lambda>_. done_with) s"
    "net_step (\<lambda>_. Some nick_bob) (\<lambda>_. done_with) (\<lambda>_. done_with) s s'" "mMachines s' = [0]" "nm_mID (machines s' 0) = 1"
    using first_login by blast
  have r: "net_reachable (\<lambda>_. Some nick_bob) (\<lambda>_. done_with) (\<lambda>_. done_with) s'" by (rule net_reachable.step[OF s(1,2)])
  from reachable_machines[OF r] s(3,4) have "GetMachineFromID 1 s' = Some 0" by simp
  then show ?thesis using r s(3) by blast
qed

theorem positions_dropped_witness:
  "\<exists>s. mMachines s = [0] \<and> nm_mID (machines s 0) = 1 \<and>
     ProcessReceivedPlayerPos (put_i ''ID'' 1 (event_of PLAYER_POS)) s = (None, s)"
proof -
  obtain s s' where s: "net_reachable (\<lambda>_. Some nick_bob) (\<lambda>_. done_with) (\<lambda>_. done_with) s"
    "net_step (\<lambda>_. Some nick_bob) (\<lambda>_. done_with) (\<lambda>_. done_with) s s'" "mMachines s' = [0]" "nm_mID (machines s' 0) = 1"
    using first_login by blast
  from positions_dropped[OF net_reachable.step[OF s(1,2)], of "put_i ''ID'' 1 (event_of PLAYER_POS)" 1] s(3,4)
  show ?thesis by auto
qed

section \<open>Disconnecting\<close>

lemma Disconnect_ok:
  assumes i: "net_inv s" and m: "m \<in> set (mMachines s)"
  shows "\<exists>s'. Disconnect m ent s = (None, s') \<and> net_inv s' \<and> mMachines s' = remove1 m (mMachines s) \<and>
     (\<forall>n. GetNickName n s' = GetNickName n s)"
proof -
  obtain t where t: "(if nm_mPlayer (machines s m) \<noteq> None then SaveMove m else done_with) s = (None, t)"
    "net_inv t" "mMachines t = mMachines s" "\<forall>n. nm_mPlayer (machines t n) = nm_mPlayer (machines s n)"
  proof (cases "nm_mPlayer (machines s m)")
    case None
    then show ?thesis using that i by simp
  next
    case (Some p)
    have sv: "SaveMove m s = (None, set_machine m ((machines s m)\<lparr>nm_mMoveCpt := 0\<rparr>) (PushEvent DataBaseRef (position_event p) s))"
      using net_invD(1)[OF i] Some by (simp add: SaveMove_eq)
    show ?thesis
      using that[OF _ safeD(1)[OF safe_SaveMove i, of m]] Some by (simp add: sv)
  qed
  have mt: "m \<in> set (mMachines t)" using m t(3) by simp
  have tell: "TCPSend m ent t = (None, told m ent t)" by (rule TCPSend_inv[OF t(2) mt])
  have nick: "GetNickName n (told m ent t) = GetNickName n s" "GetNickName n (removed m (told m ent t)) = GetNickName n s" for n
    using t(4) by (simp_all add: GetNickName_def told_def)
  show ?thesis
  proof (cases "machine_sends t m")
    case True
    have "m \<in> set (mMachines (told m ent t))" "\<not> nm_mDeleting (machines (told m ent t) m)"
      using mt True net_invD(4)[OF t(2) mt] by (simp_all add: told_def listed_ok_def)
    then have "RemoveMachine m (told m ent t) = (None, removed m (told m ent t))"
      using net_invD(1)[OF t(2)] by (intro RemoveMachine_listed) simp_all
    then have "Disconnect m ent s = (None, removed m (told m ent t))"
      using t(1) tell by (simp add: Disconnect_def and_then_def)
    then show ?thesis using True t nick net_inv_removed[OF net_inv_told[OF t(2)]] by (simp add: mMachines_told)
  next
    case False
    then have "RemoveMachine m (told m ent t) = (None, told m ent t)"
      by (intro RemoveMachine_gone) (simp add: told_def)
    then have "Disconnect m ent s = (None, told m ent t)"
      using t(1) tell by (simp add: Disconnect_def and_then_def)
    then show ?thesis using False t nick net_inv_told[OF t(2)] by (simp add: mMachines_told)
  qed
qed

text \<open>Disconnecting every machine of a nick ends, and no machine has the nick afterwards.\<close>

theorem DisconnectAcct_ends:
  assumes "net_inv s"
  shows "\<exists>s'. DisconnectAcct name s = Some (None, s') \<and>
     mMachines s' = filter (\<lambda>m. \<not> HasNick m name s) (mMachines s)"
proof -
  have "\<exists>a s'. disconnect_all name a0 s = Some (a, None, s') \<and> net_inv s' \<and>
     mMachines s' = filter (\<lambda>m. \<not> HasNick m name s) (mMachines s)" if "net_inv s" for a0 s
    using that
  proof (induction "length (mMachines s)" arbitrary: a0 s rule: less_induct)
    case less
    show ?case
    proof (cases "GetMachineFromPlayerName name s")
      case None
      then have "filter (\<lambda>m. \<not> HasNick m name s) (mMachines s) = mMachines s"
        by (auto simp: GetMachineFromPlayerName_def find_None_iff intro: filter_True)
      then show ?thesis using None less(2) by (subst disconnect_all.simps) simp
    next
      case (Some m)
      then have m: "m \<in> set (mMachines s)" "HasNick m name s" using machine_from_listed(2) by blast+
      obtain s1 where s1: "Disconnect m deco_event s = (None, s1)" "net_inv s1"
        "mMachines s1 = remove1 m (mMachines s)" "\<forall>n. GetNickName n s1 = GetNickName n s"
        using Disconnect_ok[OF less(2) m(1)] by blast
      have "length (mMachines s1) < length (mMachines s)"
        using m(1) s1(3) length_pos_if_in_set[OF m(1)] by (simp add: length_remove1)
      from less(1)[OF this s1(2), of "nm_mAcctID (machines s m)"]
      obtain a s' where "disconnect_all name (nm_mAcctID (machines s m)) s1 = Some (a, None, s')" "net_inv s'"
        "mMachines s' = filter (\<lambda>m. \<not> HasNick m name s) (remove1 m (mMachines s))"
        using s1(3,4) by (auto simp: HasNick_def)
      moreover have "filter (\<lambda>m. \<not> HasNick m name s) (remove1 m (mMachines s)) = filter (\<lambda>m. \<not> HasNick m name s) (mMachines s)"
        using m(2) by (simp add: filter_remove1)
      ultimately show ?thesis using Some s1(1) by (subst disconnect_all.simps) simp
    qed
  qed
  from this[OF assms, of "-1"] obtain a s' where s': "disconnect_all name (-1) s = Some (a, None, s')" "net_inv s'"
     "mMachines s' = filter (\<lambda>m. \<not> HasNick m name s) (mMachines s)" by blast
  then show ?thesis using net_invD(1)[OF s'(2)] by (simp add: DisconnectAcct_def)
qed

theorem DisconnectAcct_ends_witness:
  "\<exists>s'. DisconnectAcct [] (demo_net (\<lambda>i. i \<noteq> 1)) = Some (None, s') \<and> mMachines s' = []"
  using DisconnectAcct_ends[OF demo_inv, of "[]" "\<lambda>i. i \<noteq> 1"]
  by (simp add: HasNick_def GetNickName_def demo_machine_def)

text \<open>The destructor of the network engine has no meaning as soon as one machine is connected:
  disconnecting it takes it off the vector the loop walks through, and the iterator is used
  again.\<close>

theorem delete_with_machines:
  assumes "net_inv s" "mMachines s = m # ms" "mConsoles s = []"
  shows "fst (NetEngine_delete s) = Some (Undefined ''invalidated iterator'')"
proof -
  obtain s' where s': "Disconnect m (event_of REFUSED) s = (None, s')" "mMachines s' = ms"
    using Disconnect_ok[OF assms(1), of m "event_of REFUSED"] assms(2) by auto
  have "delete_machines 0 s = (Some (Undefined ''invalidated iterator''), s')"
    using s' assms(2) by (subst delete_machines.simps) simp
  then show ?thesis by (simp add: NetEngine_delete_def assms(3) and_then_def)
qed

theorem delete_with_machines_witness:
  "fst (NetEngine_delete (demo_net (\<lambda>_. True))) = Some (Undefined ''invalidated iterator'')"
proof (rule delete_with_machines)
  show "mMachines (demo_net (\<lambda>_. True)) = 0 # [1, 2]" by simp
  show "mConsoles (demo_net (\<lambda>_. True)) = []" by (simp add: demo_net_def link_engines_def net_memory_def)
qed simp

section \<open>Moves\<close>

text \<open>For a machine that has a player, a position event moves the player and counts; the first
  forty-nine moves tell the data base nothing, and the fiftieth sends the position just moved
  to, with the player's number, and starts the count again.\<close>

theorem fiftieth_move:
  assumes "net_inv s" "m \<in> set (mMachines s)" "nm_mPlayer (machines s m) = Some p"
    and "mType ent = PLAYER_POS" "Move ent p = Inr p'"
  shows "\<exists>s'. Machine_Move m ent s = (None, s') \<and> nm_mPlayer (machines s' m) = Some p' \<and>
     nm_mMoveCpt (machines s' m) < 50 \<and>
     (if nm_mMoveCpt (machines s m) < 49
      then nm_mMoveCpt (machines s' m) = nm_mMoveCpt (machines s m) + 1 \<and>
           events s' DataBaseRef = events s DataBaseRef
      else nm_mMoveCpt (machines s' m) = 0 \<and>
           events s' DataBaseRef = events s DataBaseRef @ [put_i ''PLAYER_ID'' (mID p') (GetPos p')])"
proof -
  let ?t = "set_machine m ((machines s m)\<lparr>nm_mPlayer := Some p'\<rparr>) s"
  have "linked ?t" using net_invD(1)[OF assms(1)] by simp
  moreover have "nm_mMoveCpt (machines s m) < 50"
    using net_invD(4)[OF assms(1,2)] by (simp add: listed_ok_def)
  ultimately show ?thesis using assms(3-5)
    by (simp add: Machine_Move_def and_then_def count_move_eq Let_def position_event_def)
qed

definition demo_player :: Player where
  "demo_player = \<lparr>mID = 5, mModel = ''elf'', mNickName = ''Nim'', mLevel = 1, mMapID = 1, mPosX = 0, mPosY = 0,
     mPosZ = 0, mOW = 0, mOX = 0, mOY = 0, mOZ = 0, mVX = 0, mVY = 0, mVZ = 0, mPV = 10, mPVMax = 10\<rparr>"

definition move_there :: EngineEvent where
  "move_there = (GetPos (demo_player\<lparr>mPosX := 0x3F800000\<rparr>))\<lparr>mType := PLAYER_POS\<rparr>"

theorem fiftieth_move_witness:
  "let s = set_machine 1 ((demo_machine 1)\<lparr>nm_mPlayer := Some demo_player, nm_mMoveCpt := 49\<rparr>) (demo_net (\<lambda>_. True))
   in \<exists>s'. Machine_Move 1 move_there s = (None, s') \<and> nm_mMoveCpt (machines s' 1) = 0 \<and>
     events s' DataBaseRef =
       [put_i ''PLAYER_ID'' 5 (GetPos (demo_player\<lparr>mPosX := 0x3F800000\<rparr>))]"
proof -
  let ?s = "set_machine 1 ((demo_machine 1)\<lparr>nm_mPlayer := Some demo_player, nm_mMoveCpt := 49\<rparr>) (demo_net (\<lambda>_. True))"
  have "net_inv ?s" by (rule net_inv_set_machine) (simp_all add: demo_machine_def)
  moreover have "Move move_there demo_player = Inr (demo_player\<lparr>mPosX := 0x3F800000\<rparr>)"
    by (simp add: Move_def move_there_def GetPos_def demo_player_def find_f_def put_f_def event_of_def)
  ultimately show ?thesis
    using fiftieth_move[of ?s 1 demo_player move_there "demo_player\<lparr>mPosX := 0x3F800000\<rparr>"]
    by (simp add: Let_def move_there_def demo_machine_def) (auto simp: demo_player_def)
qed

end
