(* ===== verification/MongoClient.thy ===== *)
theory MongoClient
imports StdMap CFloat
begin

text \<open>
  The part of \<open>ThirdPartiesLibs/mongo-cxx-driver-v2.2\<close> the data base layer reads its answers
  with: BSON objects and the typed access to their fields (\<open>bson/bson-inl.h\<close>,
  \<open>bson/bsonelement.h\<close>), and cursors (\<open>client/dbclientcursor.cpp\<close>). What the server answers is
  not part of it: a cursor is made of the batches the server sends.
\<close>

section \<open>BSON\<close>

datatype bson =
    BDouble float64
  | BString string
  | BInt int
  | BLong int
  | BBool bool
  | BOID string

text \<open>The fields of an object in their order; a name may occur more than once.\<close>

type_synonym bson_obj = "(string \<times> bson) list"

definition NUL :: char where
  "NUL = CHR 0x00"

definition c_str :: "string \<Rightarrow> string" where
  "c_str s = takeWhile (\<lambda>c. c \<noteq> NUL) s"

definition INT_MIN32 :: int where
  "INT_MIN32 = - (2 ^ 31)"

text \<open>
  The first field of a name, or the end-of-object element. \<open>getIntField\<close> takes the number as a
  double and cuts that to an int.
\<close>

definition getField :: "bson_obj \<Rightarrow> string \<Rightarrow> bson option" where
  "getField b name = map_option snd (List.find (\<lambda>f. fst f = name) b)"

definition getIntField :: "bson_obj \<Rightarrow> string \<Rightarrow> int res" where
  "getIntField b name =
     (case getField b name of
        Some (BInt n) \<Rightarrow> Inr n
      | Some (BDouble d) \<Rightarrow> double_to_int d
      | Some (BLong n) \<Rightarrow>
          if INT_MIN32 \<le> n \<and> n < 2 ^ 31 then Inr n else Inl (Undefined ''double out of the range of int'')
      | _ \<Rightarrow> Inr INT_MIN32)"

definition getBoolField :: "bson_obj \<Rightarrow> string \<Rightarrow> bool" where
  "getBoolField b name = (case getField b name of Some (BBool v) \<Rightarrow> v | _ \<Rightarrow> False)"

definition getStringField :: "bson_obj \<Rightarrow> string \<Rightarrow> string" where
  "getStringField b name = (case getField b name of Some (BString v) \<Rightarrow> c_str v | _ \<Rightarrow> [])"

text \<open>\<open>getField(name).Double()\<close>: any other type, and a missing field, is an exception.\<close>

definition Double :: "bson option \<Rightarrow> float64 res" where
  "Double e = (case e of Some (BDouble d) \<Rightarrow> Inr d | _ \<Rightarrow> Inl (Throw ''13111''))"

lemma getIntField_not_thrown: "getIntField b name \<noteq> Inl (Throw x)"
  using conversions_not_thrown(2)
  by (auto simp: getIntField_def split: option.split bson.split)

lemma getField_Cons [simp]:
  "getField [] name = None"
  "getField ((n, v) # b) name = (if n = name then Some v else getField b name)"
  by (simp_all add: getField_def)

section \<open>Cursors\<close>

text \<open>
  The objects left of the batch at hand, and the batches the server has yet to send. A query
  that fails gives a null cursor.
\<close>

record cursor =
  batch_left :: "bson_obj list"
  batches_later :: "bson_obj list list"

definition cursor_more :: "cursor option \<Rightarrow> (bool \<times> cursor option) res" where
  "cursor_more c =
     (case c of
        None \<Rightarrow> Inl (Throw ''13348'')
      | Some k \<Rightarrow>
          if batch_left k \<noteq> [] then Inr (True, c)
          else case batches_later k of
                 [] \<Rightarrow> Inr (False, c)
               | b # bs \<Rightarrow> Inr (b \<noteq> [], Some \<lparr>batch_left = b, batches_later = bs\<rparr>))"

definition cursor_next :: "cursor option \<Rightarrow> (bson_obj \<times> cursor option) res" where
  "cursor_next c =
     (case c of
        None \<Rightarrow> Inl (Undefined ''null cursor'')
      | Some k \<Rightarrow>
          (case batch_left k of
             [] \<Rightarrow> Inl (Throw ''13422'')
           | o' # os \<Rightarrow> Inr (o', Some (k\<lparr>batch_left := os\<rparr>))))"

text \<open>
  \<open>while (cursor->more()) { b = cursor->next(); ... }\<close>: the objects a loop sees. An empty batch
  ends it, whatever the server would have sent after it.
\<close>

definition cursor_size :: "cursor option \<Rightarrow> nat" where
  "cursor_size c = (case c of None \<Rightarrow> 0
     | Some k \<Rightarrow> length (batch_left k) + length (concat (batches_later k)) + length (batches_later k))"

function cursor_loop :: "(bson_obj \<Rightarrow> 'a \<Rightarrow> 'a res) \<Rightarrow> cursor option \<Rightarrow> 'a \<Rightarrow> 'a res" where
  "cursor_loop body c acc =
     (case cursor_more c of
        Inl f \<Rightarrow> Inl f
      | Inr (b, c1) \<Rightarrow>
          if \<not> b then Inr acc
          else (case cursor_next c1 of
                  Inl f \<Rightarrow> Inl f
                | Inr (o', c2) \<Rightarrow>
                    (case body o' acc of Inl f \<Rightarrow> Inl f | Inr acc' \<Rightarrow> cursor_loop body c2 acc')))"
  by pat_completeness auto
termination
  by (relation "measure (\<lambda>(body, c, acc). cursor_size c)")
    (auto simp: cursor_more_def cursor_next_def cursor_size_def split: option.splits list.splits if_splits)

declare cursor_loop.simps [simp del]

fun take_batches :: "bson_obj list list \<Rightarrow> bson_obj list" where
  "take_batches [] = []"
| "take_batches (b # bs) = (if b = [] then [] else b @ take_batches bs)"

definition cursor_docs :: "cursor \<Rightarrow> bson_obj list" where
  "cursor_docs k = batch_left k @ take_batches (batches_later k)"

fun each_doc :: "(bson_obj \<Rightarrow> 'a \<Rightarrow> 'a res) \<Rightarrow> bson_obj list \<Rightarrow> 'a \<Rightarrow> 'a res" where
  "each_doc body [] acc = Inr acc"
| "each_doc body (d # ds) acc = (case body d acc of Inl f \<Rightarrow> Inl f | Inr acc' \<Rightarrow> each_doc body ds acc')"

lemma cursor_loop_null: "cursor_loop body None acc = Inl (Throw ''13348'')"
  by (subst cursor_loop.simps) (simp add: cursor_more_def)

text \<open>The loop sees the objects of the cursor, each once and in order.\<close>

lemma cursor_loop_docs: "cursor_loop body (Some k) acc = each_doc body (cursor_docs k) acc"
proof (induction "cursor_size (Some k)" arbitrary: k acc rule: less_induct)
  case less
  show ?case
  proof (cases "batch_left k")
    case (Cons d ds)
    then have "cursor_size (Some (k\<lparr>batch_left := ds\<rparr>)) < cursor_size (Some k)"
      by (simp add: cursor_size_def)
    from less[OF this] show ?thesis using Cons
      by (subst cursor_loop.simps)
        (simp add: cursor_more_def cursor_next_def cursor_docs_def split: sum.split)
  next
    case Nil
    show ?thesis
    proof (cases "batches_later k")
      case later: (Cons b bs)
      show ?thesis
      proof (cases b)
        case (Cons d ds)
        then have "cursor_size (Some \<lparr>batch_left = ds, batches_later = bs\<rparr>) < cursor_size (Some k)"
          using Nil later by (simp add: cursor_size_def)
        from less[OF this] show ?thesis using Nil later Cons
          by (subst cursor_loop.simps)
            (simp add: cursor_more_def cursor_next_def cursor_docs_def split: sum.split)
      qed (use Nil later in \<open>subst cursor_loop.simps, simp add: cursor_more_def cursor_docs_def\<close>)
    qed (use Nil in \<open>subst cursor_loop.simps, simp add: cursor_more_def cursor_docs_def\<close>)
  qed
qed

end
