(* ===== verification/SDataBase.thy ===== *)
theory SDataBase
imports SCharacter MongoClient
begin

text \<open>
  \<open>DataBase/SDataBase.h\<close>, the interface the data base engine works with, and
  \<open>DataBase/SDataBaseMongo.{h,cpp}\<close>, its implementation on a Mongo connection. The server on
  the other side of the connection is a record of functions on a store of its own.
\<close>

section \<open>The interface\<close>

text \<open>
  The virtual methods, as functions of the object. A reading method gives a result or fails,
  a writing one also gives the new state. \<open>GetPlayer\<close> returns what it assigns to its reference
  argument beside the player.
\<close>

record 'm DataBase =
  db_Open :: "'m \<Rightarrow> bool \<times> 'm"
  db_Close :: "'m \<Rightarrow> bool \<times> 'm"
  db_Ping :: "'m \<Rightarrow> bool res"
  db_VerifyPass :: "'m \<Rightarrow> string \<Rightarrow> string \<Rightarrow> bool res"
  db_IsAccountConnected :: "'m \<Rightarrow> string \<Rightarrow> bool res"
  db_ChangePlayerState :: "int \<Rightarrow> bool \<Rightarrow> 'm act"
  db_ChangeAccountState :: "int \<Rightarrow> bool \<Rightarrow> 'm act"
  db_GetAccountIDByName :: "'m \<Rightarrow> string \<Rightarrow> int res"
  db_GetPersonIDByNickName :: "'m \<Rightarrow> string \<Rightarrow> int res"
  db_GetCharactersList :: "'m \<Rightarrow> int \<Rightarrow> EngineEvent res"
  db_CreateCharacter :: "int \<Rightarrow> string \<Rightarrow> 'm act"
  db_DeleteCharacter :: "int \<Rightarrow> 'm act"
  db_GetPlayer :: "'m \<Rightarrow> int \<Rightarrow> int \<Rightarrow> (Player \<times> bool) res"
  db_GetNPC :: "'m \<Rightarrow> int \<Rightarrow> NPC res"
  db_MajPos :: "float32 \<Rightarrow> float32 \<Rightarrow> float32 \<Rightarrow> float32 \<Rightarrow> float32 \<Rightarrow> float32 \<Rightarrow> float32 \<Rightarrow> int \<Rightarrow> 'm act"
  db_GetPlayerPos :: "'m \<Rightarrow> int \<Rightarrow> EngineEvent res"
  db_GetNPCPos :: "'m \<Rightarrow> int \<Rightarrow> EngineEvent res"
  db_NPCInfo :: "'m \<Rightarrow> int \<Rightarrow> EngineEvent list res"

section \<open>The server and the connection\<close>

text \<open>
  What a server does to its store. A query may fail on the connection, which is an exception
  or a null cursor; the other requests are sent and not answered.
\<close>

record 'd mongod =
  srv_connects :: "'d \<Rightarrow> bool"
  srv_failed :: "'d \<Rightarrow> bool"
  srv_query :: "'d \<Rightarrow> string \<Rightarrow> bson_obj \<Rightarrow> cursor option res"
  srv_update :: "string \<Rightarrow> bson_obj \<Rightarrow> bson_obj \<Rightarrow> 'd act"
  srv_insert :: "string \<Rightarrow> bson_obj \<Rightarrow> 'd act"
  srv_remove :: "string \<Rightarrow> bson_obj \<Rightarrow> 'd act"
  srv_new_oid :: "'d \<Rightarrow> string"

record 'd DataBaseMongo =
  mConnection :: bool
  mIsDBOk :: bool
  mongo_store :: 'd

definition DataBaseMongo_new :: "'d \<Rightarrow> 'd DataBaseMongo" where
  "DataBaseMongo_new d = \<lparr>mConnection = False, mIsDBOk = False, mongo_store = d\<rparr>"

definition Mongo_Open :: "'d mongod \<Rightarrow> 'd DataBaseMongo \<Rightarrow> bool \<times> 'd DataBaseMongo" where
  "Mongo_Open V M =
     (if \<not> mIsDBOk M then
        if srv_connects V (mongo_store M) then (True, M\<lparr>mConnection := True, mIsDBOk := True\<rparr>)
        else (False, M\<lparr>mConnection := True\<rparr>)
      else (True, M))"

definition Mongo_Close :: "'d DataBaseMongo \<Rightarrow> bool \<times> 'd DataBaseMongo" where
  "Mongo_Close M = (True, M)"

text \<open>\<open>mConnection->\<close> followed by a request: without a connection object it has no meaning.\<close>

definition null_connection :: fault where
  "null_connection = Undefined ''null connection''"

definition query :: "'d mongod \<Rightarrow> 'd DataBaseMongo \<Rightarrow> string \<Rightarrow> bson_obj \<Rightarrow> cursor option res" where
  "query V M ns q = (if mConnection M then srv_query V (mongo_store M) ns q else Inl null_connection)"

definition request :: "'d act \<Rightarrow> 'd DataBaseMongo act" where
  "request r M =
     (if mConnection M
      then (case r (mongo_store M) of (f, d) \<Rightarrow> (f, M\<lparr>mongo_store := d\<rparr>))
      else (Some null_connection, M))"

definition Mongo_Ping :: "'d mongod \<Rightarrow> 'd DataBaseMongo \<Rightarrow> bool res" where
  "Mongo_Ping V M =
     (if mConnection M then Inr (\<not> srv_failed V (mongo_store M)) else Inl null_connection)"

text \<open>The first object a query gives: \<open>cursor->next()\<close> straight after the query.\<close>

definition first_doc :: "'d mongod \<Rightarrow> 'd DataBaseMongo \<Rightarrow> string \<Rightarrow> bson_obj \<Rightarrow> bson_obj res" where
  "first_doc V M ns q =
     run_then (query V M ns q) (\<lambda>c. run_then (cursor_next c) (\<lambda>r. Inr (fst r)))"

definition accounts :: string where "accounts = ''Sung.accounts''"
definition character :: string where "character = ''Sung.character''"
definition characters :: string where "characters = ''Sung.characters''"
definition npcs :: string where "npcs = ''Sung.npc''"

section \<open>Accounts\<close>

definition Mongo_VerifyPass :: "'d mongod \<Rightarrow> 'd DataBaseMongo \<Rightarrow> string \<Rightarrow> string \<Rightarrow> bool res" where
  "Mongo_VerifyPass V M nickName password =
     run_then (first_doc V M accounts [(''name'', BString nickName)])
       (\<lambda>p. Inr (password = getStringField p ''password''))"

definition Mongo_IsAccountConnected :: "'d mongod \<Rightarrow> 'd DataBaseMongo \<Rightarrow> string \<Rightarrow> bool res" where
  "Mongo_IsAccountConnected V M nickName =
     run_then (first_doc V M accounts [(''name'', BString nickName)])
       (\<lambda>p. Inr (getBoolField p ''online''))"

definition Mongo_ChangeAccountState :: "'d mongod \<Rightarrow> int \<Rightarrow> bool \<Rightarrow> 'd DataBaseMongo act" where
  "Mongo_ChangeAccountState V ID online =
     request (srv_update V accounts [(''id'', BInt ID)] [(''online'', BBool online)])"

definition Mongo_ChangePlayerState :: "'d mongod \<Rightarrow> int \<Rightarrow> bool \<Rightarrow> 'd DataBaseMongo act" where
  "Mongo_ChangePlayerState V ID online =
     request (srv_update V character [(''id'', BInt ID)] [(''online'', BBool online)])"

definition Mongo_GetAccountIDByName :: "'d mongod \<Rightarrow> 'd DataBaseMongo \<Rightarrow> string \<Rightarrow> int res" where
  "Mongo_GetAccountIDByName V M name =
     run_then (first_doc V M accounts [(''name'', BString name)]) (\<lambda>p. getIntField p ''id'')"

definition Mongo_GetPersonIDByNickName :: "'d mongod \<Rightarrow> 'd DataBaseMongo \<Rightarrow> string \<Rightarrow> int res" where
  "Mongo_GetPersonIDByNickName V M nickName =
     run_then (first_doc V M character [(''name'', BString nickName)]) (\<lambda>p. getIntField p ''id'')"

section \<open>Characters\<close>

text \<open>The loop that lists characters numbers them from zero: the counter goes with the event.\<close>

definition list_character :: "bson_obj \<Rightarrow> EngineEvent \<times> int \<Rightarrow> (EngineEvent \<times> int) res" where
  "list_character p ei =
     run_then (getIntField p ''id'')
       (\<lambda>n. Inr (put_i (''ID'' @ show_int (snd ei)) n (fst ei), snd ei + 1))"

definition Mongo_GetCharactersList :: "'d mongod \<Rightarrow> 'd DataBaseMongo \<Rightarrow> int \<Rightarrow> EngineEvent res" where
  "Mongo_GetCharactersList V M acctID =
     run_then (query V M character [(''acctid'', BInt acctID)]) (\<lambda>cursor.
     run_then (cursor_loop list_character cursor (put_i ''REQUEST'' 0 (event_of CHARACTERS_LIST), 0))
       (\<lambda>ei. Inr (fst ei)))"

definition Mongo_CreateCharacter :: "'d mongod \<Rightarrow> int \<Rightarrow> string \<Rightarrow> 'd DataBaseMongo act" where
  "Mongo_CreateCharacter V acctID nickName M =
     request (srv_insert V character
       [(''_id'', BOID (srv_new_oid V (mongo_store M))), (''acctid'', BInt acctID),
        (''name'', BString nickName)]) M"

definition Mongo_DeleteCharacter :: "'d mongod \<Rightarrow> int \<Rightarrow> 'd DataBaseMongo act" where
  "Mongo_DeleteCharacter V ID = request (srv_remove V character [(''id'', BInt ID)])"

text \<open>\<open>b.getField(name).Double()\<close> handed to a setter that takes a float.\<close>

definition float_field :: "bson_obj \<Rightarrow> string \<Rightarrow> float32 res" where
  "float_field b name = run_then (Double (getField b name)) (\<lambda>d. Inr (double_to_float d))"

definition set_int :: "bson_obj \<Rightarrow> string \<Rightarrow> (int \<Rightarrow> 'c \<Rightarrow> 'c) \<Rightarrow> 'c \<Rightarrow> 'c res" where
  "set_int b name setter c = run_then (getIntField b name) (\<lambda>n. Inr (setter n c))"

definition set_float :: "bson_obj \<Rightarrow> string \<Rightarrow> (float32 \<Rightarrow> 'c \<Rightarrow> 'c) \<Rightarrow> 'c \<Rightarrow> 'c res" where
  "set_float b name setter c = run_then (float_field b name) (\<lambda>x. Inr (setter x c))"

text \<open>A list of assignments that may fail, in order.\<close>

fun run_all :: "('c \<Rightarrow> 'c res) list \<Rightarrow> 'c \<Rightarrow> 'c res" where
  "run_all [] c = Inr c"
| "run_all (f # fs) c = run_then (f c) (run_all fs)"

text \<open>
  \<open>GetPlayer\<close>: the character of a number, and whether it belongs to the account. The memory of
  the new player is an argument, as for the constructors.
\<close>

definition Mongo_GetPlayer ::
  "Character \<Rightarrow> 'd mongod \<Rightarrow> 'd DataBaseMongo \<Rightarrow> int \<Rightarrow> int \<Rightarrow> (Player \<times> bool) res" where
  "Mongo_GetPlayer memory V M ID acctId =
     run_then (first_doc V M character [(''id'', BInt ID)]) (\<lambda>b.
     run_then (getIntField b ''acctid'') (\<lambda>owner.
     run_then (getIntField b ''id'') (\<lambda>n.
     run_then (run_all
         [\<lambda>p. Inr (SetNickName (getStringField b ''name'') p),
          set_int b ''level'' SetLevel, set_int b ''map_id'' SetMapID,
          set_float b ''pos_x'' SetPosX, set_float b ''pos_y'' SetPosY, set_float b ''pos_z'' SetPosZ,
          set_float b ''o_w'' SetOW, set_float b ''o_x'' SetOX, set_float b ''o_y'' SetOY,
          set_float b ''o_z'' SetOZ,
          \<lambda>p. Inr (SetModel (getStringField b ''mesh'') p),
          set_int b ''pv'' SetPV, set_int b ''pv_max'' SetPVMax]
         (Player_of_ID memory n))
       (\<lambda>p. Inr (Player_copy p, owner = acctId)))))"

definition Mongo_GetNPC :: "Character \<Rightarrow> 'd mongod \<Rightarrow> 'd DataBaseMongo \<Rightarrow> int \<Rightarrow> NPC res" where
  "Mongo_GetNPC memory V M ID =
     run_then (first_doc V M npcs [(''id'', BInt ID)]) (\<lambda>b.
     run_then (getIntField b ''id'') (\<lambda>n.
     run_then (run_all
         [\<lambda>p. Inr (SetNickName (getStringField b ''name'') p),
          set_int b ''level'' SetLevel, set_int b ''map_id'' SetMapID,
          set_float b ''pos_x'' SetPosX, set_float b ''pos_y'' SetPosY, set_float b ''pos_z'' SetPosZ,
          set_float b ''o_w'' SetOW, set_float b ''o_y'' SetOX, set_float b ''o_y'' SetOY,
          set_float b ''o_z'' SetOZ,
          \<lambda>p. Inr (SetModel (getStringField b ''mesh'') p),
          set_int b ''pv'' SetPV, set_int b ''pv_max'' SetPVMax]
         (NPC_of_ID memory n))
       (\<lambda>p. Inr (NPC_copy p))))"

section \<open>Positions\<close>

definition position_doc ::
  "float32 \<Rightarrow> float32 \<Rightarrow> float32 \<Rightarrow> float32 \<Rightarrow> float32 \<Rightarrow> float32 \<Rightarrow> float32 \<Rightarrow> bson_obj" where
  "position_doc x y z w ox oy oz =
     [(''pos_x'', BDouble (float_to_double x)), (''pos_y'', BDouble (float_to_double y)),
      (''pos_z'', BDouble (float_to_double z)), (''o_w'', BDouble (float_to_double w)),
      (''o_x'', BDouble (float_to_double ox)), (''o_y'', BDouble (float_to_double oy)),
      (''o_z'', BDouble (float_to_double oz))]"

definition Mongo_MajPos ::
  "'d mongod \<Rightarrow> float32 \<Rightarrow> float32 \<Rightarrow> float32 \<Rightarrow> float32 \<Rightarrow> float32 \<Rightarrow> float32 \<Rightarrow> float32 \<Rightarrow> int
     \<Rightarrow> 'd DataBaseMongo act" where
  "Mongo_MajPos V pPosX pPosY pPosZ pOW pOX pOY pOZ pId =
     request (srv_update V characters [(''id'', BInt pId)] (position_doc pPosX pPosY pPosZ pOW pOX pOY pOZ))"

text \<open>Both readers of positions fill in an event of the same type, from two collections.\<close>

definition read_position :: "int \<Rightarrow> bson_obj \<Rightarrow> EngineEvent \<Rightarrow> EngineEvent res" where
  "read_position ID b e =
     run_all
       [set_float b ''pos_x'' (put_f ''POS_X''), set_float b ''pos_y'' (put_f ''POS_Y''),
        set_float b ''pos_z'' (put_f ''POS_Z''), set_float b ''o_w'' (put_f ''O_W''),
        set_float b ''o_x'' (put_f ''O_X''), set_float b ''o_y'' (put_f ''O_Y''),
        set_float b ''o_z'' (put_f ''O_Z'')]
       (put_i ''NPC_ID'' ID e)"

definition get_position :: "string \<Rightarrow> 'd mongod \<Rightarrow> 'd DataBaseMongo \<Rightarrow> int \<Rightarrow> EngineEvent res" where
  "get_position ns V M ID =
     run_then (query V M ns [(''id'', BInt ID)])
       (\<lambda>cursor. cursor_loop (read_position ID) cursor (put_i ''NPC_ID'' 0 (event_of NPC_POS)))"

definition Mongo_GetPlayerPos :: "'d mongod \<Rightarrow> 'd DataBaseMongo \<Rightarrow> int \<Rightarrow> EngineEvent res" where
  "Mongo_GetPlayerPos = get_position character"

definition Mongo_GetNPCPos :: "'d mongod \<Rightarrow> 'd DataBaseMongo \<Rightarrow> int \<Rightarrow> EngineEvent res" where
  "Mongo_GetNPCPos = get_position npcs"

text \<open>
  \<open>NPCInfo\<close>: one event for each NPC of a map, with its archive. \<open>text\<close> is boost's text archive.
\<close>

definition npc_info ::
  "(item list \<Rightarrow> string) \<Rightarrow> Character \<Rightarrow> 'd mongod \<Rightarrow> 'd DataBaseMongo \<Rightarrow> int \<Rightarrow> bson_obj
     \<Rightarrow> EngineEvent list \<Rightarrow> EngineEvent list res" where
  "npc_info text memory V M mapID b l =
     run_then (getIntField b ''id'') (\<lambda>n.
     run_then (Mongo_GetNPC memory V M n) (\<lambda>npc.
       Inr (l @ [put_s ''NPC_PROP'' (text (NPC_save npc)) (put_i ''MAP_ID'' mapID (event_of NPC_PROP))])))"

definition Mongo_NPCInfo ::
  "(item list \<Rightarrow> string) \<Rightarrow> Character \<Rightarrow> 'd mongod \<Rightarrow> 'd DataBaseMongo \<Rightarrow> int \<Rightarrow> EngineEvent list res" where
  "Mongo_NPCInfo text memory V M mapID =
     run_then (query V M npcs [(''map_id'', BInt mapID)])
       (\<lambda>cursor. cursor_loop (npc_info text memory V M mapID) cursor [])"

definition DataBaseMongo ::
  "(item list \<Rightarrow> string) \<Rightarrow> Character \<Rightarrow> 'd mongod \<Rightarrow> 'd DataBaseMongo DataBase" where
  "DataBaseMongo text memory V =
     \<lparr>db_Open = Mongo_Open V, db_Close = Mongo_Close, db_Ping = Mongo_Ping V,
      db_VerifyPass = Mongo_VerifyPass V, db_IsAccountConnected = Mongo_IsAccountConnected V,
      db_ChangePlayerState = Mongo_ChangePlayerState V, db_ChangeAccountState = Mongo_ChangeAccountState V,
      db_GetAccountIDByName = Mongo_GetAccountIDByName V,
      db_GetPersonIDByNickName = Mongo_GetPersonIDByNickName V,
      db_GetCharactersList = Mongo_GetCharactersList V, db_CreateCharacter = Mongo_CreateCharacter V,
      db_DeleteCharacter = Mongo_DeleteCharacter V, db_GetPlayer = Mongo_GetPlayer memory V,
      db_GetNPC = Mongo_GetNPC memory V, db_MajPos = Mongo_MajPos V,
      db_GetPlayerPos = Mongo_GetPlayerPos V, db_GetNPCPos = Mongo_GetNPCPos V,
      db_NPCInfo = Mongo_NPCInfo text memory V\<rparr>"


section \<open>The contract of the interface\<close>

text \<open>
  What the data base engine relies on, whatever the implementation: an account whose password
  was verified is found again by its name, a list of characters and a description of an NPC
  have the types and members the engine answers with, and none of them names a machine yet.
\<close>

locale data_base =
  fixes B :: "'m DataBase"
  assumes verified_found: "db_VerifyPass B m name pass = Inr v \<Longrightarrow> db_GetAccountIDByName B m name \<noteq> Inl (Throw x)"
    and list_event: "db_GetCharactersList B m acctID = Inr e \<Longrightarrow>
          mType e = CHARACTERS_LIST \<and> find_i e ''REQUEST'' = Some 0 \<and> find_i e ''ID'' = None"
    and npc_event: "db_NPCInfo B m mapID = Inr es \<Longrightarrow> e \<in> set es \<Longrightarrow>
          mType e = NPC_PROP \<and> find_i e ''MAP_ID'' = Some mapID \<and> find_s e ''NPC_PROP'' \<noteq> None"

lemma each_doc_invariant:
  assumes "\<And>d a a'. P a \<Longrightarrow> body d a = Inr a' \<Longrightarrow> P a'" and "P acc" and "each_doc body ds acc = Inr r"
  shows "P r"
  using assms(2,3) by (induction ds arbitrary: acc) (auto split: sum.splits dest: assms(1))

lemma cursor_loop_invariant:
  assumes "\<And>d a a'. P a \<Longrightarrow> body d a = Inr a' \<Longrightarrow> P a'" and "P acc" and "cursor_loop body c acc = Inr r"
  shows "P r"
  using assms(3) by (cases c)
    (auto simp: cursor_loop_null cursor_loop_docs intro: each_doc_invariant[where P = P, OF assms(1,2)])

lemma show_int_not_Nil [simp]: "show_int n \<noteq> []" "[] \<noteq> show_int n"
  by (simp_all add: show_int_def show_nat_nonempty show_nat_nonempty[symmetric])

lemma Mongo_list_event:
  assumes "Mongo_GetCharactersList V M acctID = Inr e"
  shows "mType e = CHARACTERS_LIST \<and> find_i e ''REQUEST'' = Some 0 \<and> find_i e ''ID'' = None"
proof -
  let ?P = "\<lambda>ei :: EngineEvent \<times> int. mType (fst ei) = CHARACTERS_LIST \<and>
    find_i (fst ei) ''REQUEST'' = Some 0 \<and> find_i (fst ei) ''ID'' = None"
  obtain c ei where c: "cursor_loop list_character c (put_i ''REQUEST'' 0 (event_of CHARACTERS_LIST), 0) = Inr ei"
    and e: "e = fst ei"
    using assms by (auto simp: Mongo_GetCharactersList_def run_then_Inr_iff)
  have "?P ei"
    by (rule cursor_loop_invariant[where P = ?P, OF _ _ c])
      (auto simp: list_character_def run_then_Inr_iff)
  then show ?thesis using e by simp
qed

lemma Mongo_npc_event:
  assumes "Mongo_NPCInfo text memory V M mapID = Inr es" "e \<in> set es"
  shows "mType e = NPC_PROP \<and> find_i e ''MAP_ID'' = Some mapID \<and> find_s e ''NPC_PROP'' \<noteq> None"
proof -
  let ?Q = "\<lambda>e. mType e = NPC_PROP \<and> find_i e ''MAP_ID'' = Some mapID \<and> find_s e ''NPC_PROP'' \<noteq> None"
  obtain c where c: "cursor_loop (npc_info text memory V M mapID) c [] = Inr es"
    using assms(1) by (auto simp: Mongo_NPCInfo_def run_then_Inr_iff)
  have "\<forall>e \<in> set es. ?Q e"
    by (rule cursor_loop_invariant[where P = "\<lambda>es. \<forall>e \<in> set es. ?Q e", OF _ _ c])
      (auto simp: npc_info_def run_then_Inr_iff)
  then show ?thesis using assms(2) by blast
qed

text \<open>\<open>DataBaseMongo\<close> keeps the contract on any server.\<close>

interpretation mongo: data_base "DataBaseMongo archive memory V"
  for archive memory and V :: "'d mongod"
proof
  fix m :: "'d DataBaseMongo" and name pass v x
  assume "db_VerifyPass (DataBaseMongo archive memory V) m name pass = Inr v"
  then show "db_GetAccountIDByName (DataBaseMongo archive memory V) m name \<noteq> Inl (Throw x)"
    using getIntField_not_thrown
    by (auto simp: DataBaseMongo_def Mongo_VerifyPass_def Mongo_GetAccountIDByName_def run_then_Inr_iff)
next
  fix m :: "'d DataBaseMongo" and acctID e
  assume "db_GetCharactersList (DataBaseMongo archive memory V) m acctID = Inr e"
  then show "mType e = CHARACTERS_LIST \<and> find_i e ''REQUEST'' = Some 0 \<and> find_i e ''ID'' = None"
    by (intro Mongo_list_event[of V m acctID]) (simp add: DataBaseMongo_def)
next
  fix m :: "'d DataBaseMongo" and mapID es e
  assume "db_NPCInfo (DataBaseMongo archive memory V) m mapID = Inr es" "e \<in> set es"
  then show "mType e = NPC_PROP \<and> find_i e ''MAP_ID'' = Some mapID \<and> find_s e ''NPC_PROP'' \<noteq> None"
    by (intro Mongo_npc_event[of archive memory V m mapID es]) (simp_all add: DataBaseMongo_def)
qed

end
