(* ===== verification/SDataBaseEngine.thy ===== *)
theory SDataBaseEngine
imports SDataBase SEngine
begin

text \<open>
  \<open>Engine/SDataBaseEngine.{h,cpp}\<close>: the engine that answers the questions of the network engine
  from the data base. Its state is the data base object and the engines with their queues; the
  data base is reached through its interface only.
\<close>

section \<open>Starting and stopping\<close>

type_synonym ('m, 'a) db_state = "'m \<times> 'a bus_scheme"

definition DataBaseEngine_new :: "'m DataBase \<Rightarrow> 'm \<Rightarrow> 'a bus_scheme \<Rightarrow> ('m, 'a) db_state" where
  "DataBaseEngine_new B db s = (snd (db_Open B db), set_engine DataBaseRef Engine_new s)"

definition DataBaseEngine_delete :: "'m DataBase \<Rightarrow> ('m, 'a) db_state \<Rightarrow> 'm" where
  "DataBaseEngine_delete B s = snd (db_Close B (fst s))"

section \<open>The handlers\<close>

text \<open>A request to the data base, and a message to the network engine.\<close>

definition to_db :: "'m act \<Rightarrow> ('m, 'a) db_state act" where
  "to_db r s = (case r (fst s) of (f, m) \<Rightarrow> (f, (m, snd s)))"

definition to_net :: "EngineEvent \<Rightarrow> ('m, 'a) db_state act" where
  "to_net e s = (case SendMessageToNetwork DataBaseRef e (snd s) of (f, b) \<Rightarrow> (f, (fst s, b)))"

definition db_GetNPCByID :: "'m DataBase \<Rightarrow> int \<Rightarrow> ('m, 'a) db_state \<Rightarrow> NPC res" where
  "db_GetNPCByID B ID s = db_GetNPC B (fst s) ID"

definition db_GetPlayerByID :: "'m DataBase \<Rightarrow> int \<Rightarrow> int \<Rightarrow> ('m, 'a) db_state \<Rightarrow> (Player \<times> bool) res" where
  "db_GetPlayerByID B ID acctID s = db_GetPlayer B (fst s) ID acctID"

definition db_GetPlayerPosition :: "'m DataBase \<Rightarrow> int \<Rightarrow> ('m, 'a) db_state \<Rightarrow> EngineEvent res" where
  "db_GetPlayerPosition B ID s = db_GetPlayerPos B (fst s) ID"

definition db_GetNpcPosition :: "'m DataBase \<Rightarrow> int \<Rightarrow> ('m, 'a) db_state \<Rightarrow> EngineEvent res" where
  "db_GetNpcPosition B ID s = db_GetNPCPos B (fst s) ID"

fun send_each :: "int \<Rightarrow> EngineEvent list \<Rightarrow> ('m, 'a) db_state act" where
  "send_each machineID [] s = (None, s)"
| "send_each machineID (e # es) s =
     and_then (to_net (put_i ''ID'' machineID e)) (send_each machineID es) s"

definition SendNPCInfo :: "'m DataBase \<Rightarrow> int \<Rightarrow> int \<Rightarrow> ('m, 'a) db_state act" where
  "SendNPCInfo B machineID mapID s = with_res (db_NPCInfo B (fst s) mapID) (send_each machineID) s"

definition db_ProcessEnvironmentInfo :: "'m DataBase \<Rightarrow> EngineEvent \<Rightarrow> ('m, 'a) db_state act" where
  "db_ProcessEnvironmentInfo B ent =
     with_res (need ''ID'' (find_i ent ''ID'')) (\<lambda>ID.
     with_res (need ''MAP_ID'' (find_i ent ''MAP_ID'')) (\<lambda>map_id. SendNPCInfo B ID map_id))"

definition db_ProcessNpcProp ::
  "(item list \<Rightarrow> string) \<Rightarrow> 'm DataBase \<Rightarrow> EngineEvent \<Rightarrow> ('m, 'a) db_state act" where
  "db_ProcessNpcProp text B ent =
     with_res (need ''NPC_ID_REQ'' (find_i ent ''NPC_ID_REQ'')) (\<lambda>npcID.
     with_res (need ''ID'' (find_i ent ''ID'')) (\<lambda>ID s.
     with_res (db_GetNPCByID B npcID s) (\<lambda>n.
       to_net (put_i ''NPC_ID'' (mID n) (put_i ''ID'' ID
         (put_s ''NPC_PROP'' (text (NPC_save n)) (event_of NPC_PROP))))) s))"

definition db_ProcessPlayerProp ::
  "(item list \<Rightarrow> string) \<Rightarrow> 'm DataBase \<Rightarrow> EngineEvent \<Rightarrow> ('m, 'a) db_state act" where
  "db_ProcessPlayerProp text B ent =
     with_res (need ''CHARACTER_ID'' (find_i ent ''CHARACTER_ID'')) (\<lambda>playerID.
     with_res (need ''ID'' (find_i ent ''ID'')) (\<lambda>ID.
     with_res (need ''ACCT_ID'' (find_i ent ''ACCT_ID'')) (\<lambda>acctId s.
     with_res (db_GetPlayerByID B playerID acctId s) (\<lambda>(p, internal).
       to_net (put_i ''INTERNAL'' (if internal then 1 else 0) (put_i ''ID'' ID
         (put_s ''PLAYER_PROP'' (text (Player_save p)) (event_of PLAYER_PROP))))) s)))"

definition db_ProcessCharactersList :: "'m DataBase \<Rightarrow> EngineEvent \<Rightarrow> ('m, 'a) db_state act" where
  "db_ProcessCharactersList B ent =
     with_res (need ''ACCT_ID'' (find_i ent ''ACCT_ID'')) (\<lambda>acctId.
     with_res (need ''ID'' (find_i ent ''ID'')) (\<lambda>ID s.
     with_res (db_GetCharactersList B (fst s) acctId) (\<lambda>l. to_net (put_i ''ID'' ID l)) s))"

definition db_ProcessAuth :: "'m DataBase \<Rightarrow> EngineEvent \<Rightarrow> ('m, 'a) db_state act" where
  "db_ProcessAuth B ent =
     with_res (need ''ID'' (find_i ent ''ID'')) (\<lambda>ID.
     with_res (need ''ACCT_NAME'' (find_s ent ''ACCT_NAME'')) (\<lambda>acctName.
     with_res (need ''PASS'' (find_s ent ''PASS'')) (\<lambda>pass s.
       let auth = put_s ''ACCT_NAME'' acctName (put_i ''ID'' ID (event_of AUTH))
       in with_res (db_VerifyPass B (fst s) acctName pass) (\<lambda>verified s.
            if verified then
              with_res (db_GetAccountIDByName B (fst s) acctName)
                (\<lambda>acctId. to_net (put_i ''ACCT_ID'' acctId (put_i ''ACCEPTED'' 1 auth))) s
            else to_net (put_i ''ACCEPTED'' 0 auth) s) s)))"

definition db_ProcessNewPlayer :: "'m DataBase \<Rightarrow> EngineEvent \<Rightarrow> ('m, 'a) db_state act" where
  "db_ProcessNewPlayer B ent =
     with_res (need ''PLAYER_ID'' (find_i ent ''PLAYER_ID'')) (\<lambda>ID. to_db (db_ChangePlayerState B ID True))"

definition db_ProcessDelPlayer :: "'m DataBase \<Rightarrow> EngineEvent \<Rightarrow> ('m, 'a) db_state act" where
  "db_ProcessDelPlayer B ent =
     with_res (need ''PLAYER_ID'' (find_i ent ''PLAYER_ID'')) (\<lambda>ID. to_db (db_ChangePlayerState B ID False))"

definition db_ProcessWelcome :: "'m DataBase \<Rightarrow> EngineEvent \<Rightarrow> ('m, 'a) db_state act" where
  "db_ProcessWelcome B ent =
     with_res (need ''ACCT_ID'' (find_i ent ''ACCT_ID'')) (\<lambda>ID. to_db (db_ChangeAccountState B ID True))"

definition db_ProcessRemoveMachine :: "'m DataBase \<Rightarrow> EngineEvent \<Rightarrow> ('m, 'a) db_state act" where
  "db_ProcessRemoveMachine B ent =
     with_res (need ''ACCT_ID'' (find_i ent ''ACCT_ID'')) (\<lambda>ID. to_db (db_ChangeAccountState B ID False))"

definition db_ProcessCreateCharacter :: "'m DataBase \<Rightarrow> EngineEvent \<Rightarrow> ('m, 'a) db_state act" where
  "db_ProcessCreateCharacter B ent =
     with_res (need ''ACCT_ID'' (find_i ent ''ACCT_ID'')) (\<lambda>acctId.
     with_res (need ''PLAYER_NICK'' (find_s ent ''PLAYER_NICK'')) (\<lambda>playerNick.
       to_db (db_CreateCharacter B acctId playerNick)))"

definition db_ProcessDeleteCharacter :: "'m DataBase \<Rightarrow> EngineEvent \<Rightarrow> ('m, 'a) db_state act" where
  "db_ProcessDeleteCharacter B ent =
     with_res (need ''PLAYER_NICK'' (find_s ent ''PLAYER_NICK'')) (\<lambda>playerNick s.
     with_res (db_GetPersonIDByNickName B (fst s) playerNick) (\<lambda>ID. to_db (db_DeleteCharacter B ID)) s)"

definition db_ProcessPlayerPos :: "'m DataBase \<Rightarrow> EngineEvent \<Rightarrow> ('m, 'a) db_state act" where
  "db_ProcessPlayerPos B ent =
     with_res (need ''POS_X'' (find_f ent ''POS_X'')) (\<lambda>posX.
     with_res (need ''POS_Y'' (find_f ent ''POS_Y'')) (\<lambda>posY.
     with_res (need ''POS_Z'' (find_f ent ''POS_Z'')) (\<lambda>posZ.
     with_res (need ''O_W'' (find_f ent ''O_W'')) (\<lambda>oW.
     with_res (need ''O_X'' (find_f ent ''O_X'')) (\<lambda>oX.
     with_res (need ''O_Y'' (find_f ent ''O_Y'')) (\<lambda>oY.
     with_res (need ''O_Z'' (find_f ent ''O_Z'')) (\<lambda>oZ.
     with_res (need ''PLAYER_ID'' (find_i ent ''PLAYER_ID'')) (\<lambda>playerID.
       to_db (db_MajPos B posX posY posZ oW oX oY oZ playerID)))))))))"

definition db_ProcessPing :: "'m DataBase \<Rightarrow> EngineEvent \<Rightarrow> ('m, 'a) db_state act" where
  "db_ProcessPing B ent s = with_res (db_Ping B (fst s)) (\<lambda>_. done_with) s"

text \<open>The virtual methods of the data base engine; the others do nothing.\<close>

definition db_method ::
  "(item list \<Rightarrow> string) \<Rightarrow> 'm DataBase \<Rightarrow> slot \<Rightarrow> EngineEvent \<Rightarrow> ('m, 'a) db_state act" where
  "db_method text B v ent =
     (case v of
        vNewPlayer \<Rightarrow> db_ProcessNewPlayer B ent
      | vDelPlayer \<Rightarrow> db_ProcessDelPlayer B ent
      | vWelcome \<Rightarrow> db_ProcessWelcome B ent
      | vRemoveMachine \<Rightarrow> db_ProcessRemoveMachine B ent
      | vCharactersList \<Rightarrow> db_ProcessCharactersList B ent
      | vCreateCharacter \<Rightarrow> db_ProcessCreateCharacter B ent
      | vDeleteCharacter \<Rightarrow> db_ProcessDeleteCharacter B ent
      | vPlayerPos \<Rightarrow> db_ProcessPlayerPos B ent
      | vPlayerProp \<Rightarrow> db_ProcessPlayerProp text B ent
      | vNpcProp \<Rightarrow> db_ProcessNpcProp text B ent
      | vPing \<Rightarrow> db_ProcessPing B ent
      | vEnvironmentInfo \<Rightarrow> db_ProcessEnvironmentInfo B ent
      | vAuth \<Rightarrow> db_ProcessAuth B ent
      | _ \<Rightarrow> done_with)"

definition db_queue :: "('m, 'a) db_state \<Rightarrow> EngineEvent list" where
  "db_queue s = events (snd s) DataBaseRef"

definition set_db_queue :: "EngineEvent list \<Rightarrow> ('m, 'a) db_state \<Rightarrow> ('m, 'a) db_state" where
  "set_db_queue q s = (fst s, set_events DataBaseRef q (snd s))"

definition db_Frame ::
  "(item list \<Rightarrow> string) \<Rightarrow> 'm DataBase \<Rightarrow> ('m, 'a) db_state \<Rightarrow> (fault option \<times> ('m, 'a) db_state) option" where
  "db_Frame text B = drain db_queue set_db_queue (ProcessEvent (db_method text B))"


section \<open>What the handlers keep\<close>

lemmas db_handler_defs = db_ProcessNewPlayer_def db_ProcessDelPlayer_def db_ProcessWelcome_def
  db_ProcessRemoveMachine_def db_ProcessCharactersList_def db_ProcessCreateCharacter_def
  db_ProcessDeleteCharacter_def db_ProcessPlayerPos_def db_ProcessPlayerProp_def
  db_ProcessNpcProp_def db_ProcessPing_def db_ProcessEnvironmentInfo_def db_ProcessAuth_def

lemmas db_lookup_defs = db_GetNPCByID_def db_GetPlayerByID_def db_GetPlayerPosition_def db_GetNpcPosition_def

lemma to_net_linked [db_simps]:
  "linked (snd s) \<Longrightarrow> to_net e s = (None, (fst s, PushEvent NetRef e (snd s)))"
  by (simp add: to_net_def)

lemma snd_to_db [db_simps]: "snd (snd (to_db r s)) = snd s"
  by (simp add: to_db_def split: prod.split)

lemma to_db_None: "fst (r (fst s)) = None \<Longrightarrow> to_db r s = (None, (snd (r (fst s)), snd s))"
  by (auto simp: to_db_def split: prod.split)

text \<open>Events appended to the queue of the network engine.\<close>

definition answered :: "EngineEvent list \<Rightarrow> 'a bus_scheme \<Rightarrow> 'a bus_scheme" where
  "answered es b = set_events NetRef (events b NetRef @ es) b"

lemma answered_simps [simp]:
  "linked (answered es b) = linked b" "answered [] b = b"
  "events (answered es b) r = (if r = NetRef then events b NetRef @ es else events b r)"
  "answered es (answered ds b) = answered (ds @ es) b" "PushEvent NetRef e b = answered [e] b"
  by (simp_all add: answered_def PushEvent_def)

declare answered_simps(5) [simp del]

lemma answered_nil: "\<exists>es. b = answered es b"
  using answered_simps(2)[of b] by metis

lemma answered_set_db [simp]: "answered es (set_events DataBaseRef q b) = set_events DataBaseRef q (answered es b)"
  by (cases b) (auto simp: answered_def set_events_def set_engine_def events_def)

text \<open>A handler that only asks the data base and only writes to the network engine.\<close>

definition answers :: "('m, 'a) db_state act \<Rightarrow> bool" where
  "answers h \<longleftrightarrow> (\<forall>s. linked (snd s) \<longrightarrow> (\<exists>es. snd (snd (h s)) = answered es (snd s)))"

lemma answersD:
  assumes "answers h" "linked (snd s)"
  shows "linked (snd (snd (h s)))" "db_queue (snd (h s)) = db_queue s"
    "\<exists>es. snd (snd (h s)) = answered es (snd s)"
  using assms unfolding answers_def db_queue_def by (metis answered_simps(1), metis answered_simps(3) engine_ref.distinct(1), blast)

lemma answersI: "(\<And>s. linked (snd s) \<Longrightarrow> snd (snd (h s)) = answered (es s) (snd s)) \<Longrightarrow> answers h"
  unfolding answers_def by blast

lemma db_queue_set: "db_queue (set_db_queue q s) = q" "linked (snd (set_db_queue q s)) = linked (snd s)"
  "fst (set_db_queue q s) = fst s" "snd (set_db_queue q s) = set_events DataBaseRef q (snd s)"
  by (simp_all add: db_queue_def set_db_queue_def)

lemma answers_done [simp]: "answers (done_with :: ('m, 'a) db_state act)" and answers_fail: "answers (fail_with f)"
  by (rule answersI[where es = "\<lambda>_. []"], simp)+

lemma answers_to_db: "answers (to_db r)"
  by (rule answersI[where es = "\<lambda>_. []"]) (simp add: db_simps)

lemma answers_to_net: "answers (to_net e)"
  by (rule answersI[where es = "\<lambda>_. [e]"]) (simp add: db_simps answered_simps(5))

lemma answers_with_res: "(\<And>a. answers (k a)) \<Longrightarrow> answers (with_res r k)"
  using answered_nil by (auto simp: answers_def with_res_def split: sum.split)

lemma answers_at_res: "(\<And>a. answers (k a)) \<Longrightarrow> answers (\<lambda>s. with_res (r s) k s)"
  using answered_nil by (auto simp: answers_def with_res_def split: sum.split)

lemma answers_and_then:
  assumes "answers m" "answers k"
  shows "answers (and_then m k)"
  unfolding answers_def
proof (intro allI impI)
  fix s :: "('a, 'b) db_state"
  assume l: "linked (snd s)"
  obtain f s1 where m: "m s = (f, s1)" by (cases "m s")
  obtain es where 1: "snd s1 = answered es (snd s)" using answersD(3)[OF assms(1) l] m by auto
  show "\<exists>es. snd (snd (and_then m k s)) = answered es (snd s)"
  proof (cases f)
    case None
    have "linked (snd s1)" using l 1 by simp
    from answersD(3)[OF assms(2) this] show ?thesis using None m 1 by auto
  next
    case (Some x)
    then show ?thesis using 1 m by auto
  qed
qed

lemma answers_send_each: "answers (send_each ID es)"
proof (induction es)
  case Nil
  have "send_each ID [] = done_with" by (rule ext) simp
  then show ?case using answers_done by metis
next
  case (Cons e es)
  have "send_each ID (e # es) = and_then (to_net (put_i ''ID'' ID e)) (send_each ID es)"
    by (rule ext) simp
  then show ?case by (simp add: answers_and_then answers_to_net Cons.IH)
qed

lemma answers_if: "answers h \<Longrightarrow> answers k \<Longrightarrow> answers (if b then h else k)"
  by simp


lemma answers_case: "(\<And>p b. answers (f p b)) \<Longrightarrow> answers (case pb of (p, b) \<Rightarrow> f p b)"
  by (cases pb) simp

lemma db_method_answers: "answers (db_method text B v ent)"
proof -
  note rules = answers_done answers_to_db answers_to_net answers_with_res answers_send_each answers_at_res
    answers_if answers_case
  have "answers (db_ProcessPlayerPos B ent)" "answers (db_ProcessNewPlayer B ent)"
    "answers (db_ProcessDelPlayer B ent)" "answers (db_ProcessWelcome B ent)"
    "answers (db_ProcessRemoveMachine B ent)" "answers (db_ProcessCreateCharacter B ent)"
    "answers (db_ProcessPing B ent)" "answers (db_ProcessEnvironmentInfo B ent)"
    "answers (db_ProcessNpcProp text B ent)" "answers (db_ProcessPlayerProp text B ent)"
    "answers (db_ProcessCharactersList B ent)" "answers (db_ProcessDeleteCharacter B ent)"
    unfolding db_handler_defs[abs_def] SendNPCInfo_def[abs_def] by (intro rules)+
  moreover have "answers (db_ProcessAuth B ent)"
  proof -
    have "answers (\<lambda>s. if v then with_res (db_GetAccountIDByName B (fst s) n) (\<lambda>a. to_net (e a)) s
       else to_net e' s)" for v n e e'
      by (cases v) (simp_all add: answers_to_net answers_at_res)
    then show ?thesis unfolding db_ProcessAuth_def Let_def by (intro rules)
  qed
  ultimately show ?thesis
    by (cases v) (simp_all add: db_method_def)
qed

lemma answers_ProcessEvent:
  assumes "\<And>v. answers (f v ent)"
  shows "answers (ProcessEvent f ent)"
  by (rule ProcessEvent_cases[of f ent]) (simp_all add: assms answers_fail)

lemmas db_event_answers = answers_ProcessEvent[OF db_method_answers]

text \<open>The loop of the data base engine comes back, since no handler writes to its own queue.\<close>

interpretation db_loop: event_loop db_queue set_db_queue "ProcessEvent (db_method archive B)"
    "\<lambda>s. linked (snd s)" for archive B
  by unfold_locales (simp_all add: answersD(1,2)[OF db_event_answers] db_queue_set)

end
