(* ===== verification/MongoServer.thy ===== *)
theory MongoServer
imports SDataBase
begin

text \<open>
  What the Mongo server is documented to do with the requests the program sends, as a property
  of the parameter \<open>V\<close> of \<open>SDataBase\<close>: a query gives the documents of a collection that match,
  an update without operators replaces the first of them but for its \<open>_id\<close>, an insert appends
  one, a remove takes all of them away. \<open>mem_server\<close>, a server in memory, has the property.
\<close>

section \<open>Documents and requests\<close>

definition replacement :: "bson_obj \<Rightarrow> bson_obj \<Rightarrow> bson_obj" where
  "replacement old new =
     filter (\<lambda>f. fst f = ''_id'') old @ filter (\<lambda>f. fst f \<noteq> ''_id'') new"

fun replace_first :: "(bson_obj \<Rightarrow> bool) \<Rightarrow> bson_obj \<Rightarrow> bson_obj list \<Rightarrow> bson_obj list" where
  "replace_first p new [] = []"
| "replace_first p new (d # ds) =
     (if p d then replacement d new # ds else d # replace_first p new ds)"

text \<open>An update whose first member starts with \<open>$\<close> means something else.\<close>

definition operator_free :: "bson_obj \<Rightarrow> bool" where
  "operator_free u \<longleftrightarrow> (\<forall>f \<in> set u. \<not> starts_with (fst f) ''$'')"

text \<open>
  Which documents match: a string is matched by the same string, an int by the same int, and a
  missing field by neither. How an int compares to the other numbers is left open.
\<close>

definition documented_matches :: "(bson_obj \<Rightarrow> bson_obj \<Rightarrow> bool) \<Rightarrow> bool" where
  "documented_matches sat \<longleftrightarrow>
     (\<forall>f s d. sat [(f, BString s)] d \<longleftrightarrow> getField d f = Some (BString s)) \<and>
     (\<forall>f n m d. getField d f = Some (BInt m) \<longrightarrow> sat [(f, BInt n)] d = (m = n)) \<and>
     (\<forall>f n d. getField d f = None \<longrightarrow> \<not> sat [(f, BInt n)] d)"

definition documented_query ::
  "'d mongod \<Rightarrow> ('d \<Rightarrow> string \<Rightarrow> bson_obj list) \<Rightarrow> (bson_obj \<Rightarrow> bson_obj \<Rightarrow> bool) \<Rightarrow> bool" where
  "documented_query V docs sat \<longleftrightarrow>
     (\<forall>d ns q. \<exists>k. srv_query V d ns q = Inr (Some k) \<and> cursor_docs k = filter (sat q) (docs d ns) \<and>
        (batch_left k = [] \<longrightarrow> cursor_docs k = []))"

definition documented_update ::
  "'d mongod \<Rightarrow> ('d \<Rightarrow> string \<Rightarrow> bson_obj list) \<Rightarrow> (bson_obj \<Rightarrow> bson_obj \<Rightarrow> bool) \<Rightarrow> bool" where
  "documented_update V docs sat \<longleftrightarrow>
     (\<forall>d ns q u. operator_free u \<longrightarrow> fst (srv_update V ns q u d) = None \<and>
        docs (snd (srv_update V ns q u d)) = (docs d)(ns := replace_first (sat q) u (docs d ns))) \<and>
     (\<forall>d ns b. fst (srv_insert V ns b d) = None \<and>
        docs (snd (srv_insert V ns b d)) = (docs d)(ns := docs d ns @ [b])) \<and>
     (\<forall>d ns q. fst (srv_remove V ns q d) = None \<and>
        docs (snd (srv_remove V ns q d)) = (docs d)(ns := filter (\<lambda>b. \<not> sat q b) (docs d ns)))"

definition documented ::
  "'d mongod \<Rightarrow> ('d \<Rightarrow> string \<Rightarrow> bson_obj list) \<Rightarrow> (bson_obj \<Rightarrow> bson_obj \<Rightarrow> bool) \<Rightarrow> bool" where
  "documented V docs sat \<longleftrightarrow>
     documented_matches sat \<and> documented_query V docs sat \<and> documented_update V docs sat"

section \<open>A server in memory\<close>

definition mem_matches :: "bson_obj \<Rightarrow> bson_obj \<Rightarrow> bool" where
  "mem_matches q d \<longleftrightarrow> (\<forall>f \<in> set q. getField d (fst f) = Some (snd f))"

definition mem_server :: "(string \<Rightarrow> bson_obj list) mongod" where
  "mem_server =
     \<lparr>srv_connects = (\<lambda>d. True), srv_failed = (\<lambda>d. False),
      srv_query = (\<lambda>d ns q. Inr (Some \<lparr>batch_left = filter (mem_matches q) (d ns), batches_later = []\<rparr>)),
      srv_update = (\<lambda>ns q u d. (None, d(ns := replace_first (mem_matches q) u (d ns)))),
      srv_insert = (\<lambda>ns b d. (None, d(ns := d ns @ [b]))),
      srv_remove = (\<lambda>ns q d. (None, d(ns := filter (\<lambda>b. \<not> mem_matches q b) (d ns)))),
      srv_new_oid = (\<lambda>d. ''000000000001'')\<rparr>"

lemma documented_mem_server: "documented mem_server (\<lambda>d. d) mem_matches"
  by (auto simp: documented_def documented_matches_def documented_query_def documented_update_def
      mem_server_def mem_matches_def cursor_docs_def)

section \<open>Requests on a documented server\<close>

lemma documentedD:
  assumes "documented V docs sat"
  shows "sat [(f, BString s)] d \<longleftrightarrow> getField d f = Some (BString s)"
    "getField d f = Some (BInt m) \<Longrightarrow> sat [(f, BInt n)] d \<longleftrightarrow> m = n"
    "getField d f = None \<Longrightarrow> \<not> sat [(f, BInt n)] d"
  using assms unfolding documented_def documented_matches_def by blast+

lemma first_doc_documented:
  assumes "documented V docs sat" "mConnection M"
  shows "first_doc V M ns q =
     (case filter (sat q) (docs (mongo_store M) ns) of [] \<Rightarrow> Inl (Throw ''13422'') | b # _ \<Rightarrow> Inr b)"
proof -
  obtain k where k: "srv_query V (mongo_store M) ns q = Inr (Some k)"
    "cursor_docs k = filter (sat q) (docs (mongo_store M) ns)" "batch_left k = [] \<longrightarrow> cursor_docs k = []"
    using assms(1) unfolding documented_def documented_query_def by blast
  show ?thesis
  proof (cases "batch_left k")
    case Nil
    then have "filter (sat q) (docs (mongo_store M) ns) = []" using k by simp
    then show ?thesis using Nil k(1) assms(2) by (simp add: first_doc_def query_def cursor_next_def)
  next
    case (Cons b bs)
    then have "filter (sat q) (docs (mongo_store M) ns) = b # bs @ take_batches (batches_later k)"
      using k(2) by (simp add: cursor_docs_def)
    then show ?thesis using Cons k(1) assms(2) by (simp add: first_doc_def query_def cursor_next_def)
  qed
qed

lemma loop_documented:
  assumes "documented V docs sat" "mConnection M"
  shows "run_then (query V M ns q) (\<lambda>c. cursor_loop body c acc) =
     each_doc body (filter (sat q) (docs (mongo_store M) ns)) acc"
proof -
  obtain k where "srv_query V (mongo_store M) ns q = Inr (Some k)"
    "cursor_docs k = filter (sat q) (docs (mongo_store M) ns)"
    using assms(1) unfolding documented_def documented_query_def by blast
  then show ?thesis using assms(2) by (simp add: query_def cursor_loop_docs)
qed

lemma request_documented:
  assumes "documented V docs sat" "mConnection M"
  shows "operator_free u \<Longrightarrow> fst (request (srv_update V ns q u) M) = None"
    "operator_free u \<Longrightarrow> docs (mongo_store (snd (request (srv_update V ns q u) M))) =
       (docs (mongo_store M))(ns := replace_first (sat q) u (docs (mongo_store M) ns))"
    "fst (request (srv_insert V ns b) M) = None"
    "docs (mongo_store (snd (request (srv_insert V ns b) M))) =
       (docs (mongo_store M))(ns := docs (mongo_store M) ns @ [b])"
    "fst (request (srv_remove V ns q) M) = None"
    "docs (mongo_store (snd (request (srv_remove V ns q) M))) =
       (docs (mongo_store M))(ns := filter (\<lambda>b. \<not> sat q b) (docs (mongo_store M) ns))"
    "mConnection (snd (request r M)) = mConnection M" "mIsDBOk (snd (request r M)) = mIsDBOk M"
  using assms unfolding documented_def documented_update_def
  by (auto simp: request_def split: prod.split) (metis fst_conv snd_conv)+

lemma replace_first_none: "filter p ds = [] \<Longrightarrow> replace_first p new ds = ds"
  by (induction ds) (auto split: if_splits)

lemma replace_first_at:
  "filter p pre = [] \<Longrightarrow> p d \<Longrightarrow> replace_first p new (pre @ d # post) = pre @ replacement d new # post"
  by (induction pre) (auto split: if_splits)

lemma getField_append: "getField (a @ b) f = (case getField a f of None \<Rightarrow> getField b f | r \<Rightarrow> r)"
  by (induction a) (auto split: option.split)

lemma getField_filter_not_id: "f \<noteq> ''_id'' \<Longrightarrow> getField (filter (\<lambda>g. fst g \<noteq> ''_id'') b) f = getField b f"
  by (induction b) auto

lemma getField_filter_id: "f \<noteq> ''_id'' \<Longrightarrow> getField (filter (\<lambda>g. fst g = ''_id'') b) f = None"
  by (induction b) auto

text \<open>Nothing but \<open>_id\<close> survives a replacement.\<close>

lemma getField_replacement: "f \<noteq> ''_id'' \<Longrightarrow> getField (replacement old new) f = getField new f"
  by (simp add: replacement_def getField_append getField_filter_id getField_filter_not_id)

end
