(* ===== verification/DataBaseProps.thy ===== *)
theory DataBaseProps
imports SDataBaseEngine MongoServer
begin

text \<open>
  What the data base engine does with the questions of the network engine, on any server and
  on one that behaves as documented: logins, lists of characters, NPCs and positions.
\<close>

section \<open>The loop\<close>

lemma db_run_state:
  fixes s :: "('m, 'a) db_state"
  assumes "linked (snd s)"
  shows "\<exists>es rest. snd (snd (run_events set_db_queue (ProcessEvent (db_method archive B)) q s))
      = set_events DataBaseRef rest (answered es (snd s))"
  using assms
proof (induction q arbitrary: s)
  case Nil
  have "snd s = set_events DataBaseRef (events (snd s) DataBaseRef) (answered [] (snd s))" by simp
  then show ?case by (metis run_events.simps(1) snd_conv)
next
  case (Cons e q)
  let ?s = "set_db_queue q s"
  have l: "linked (snd ?s)" using Cons.prems by (simp add: db_queue_set)
  obtain r s1 where h: "ProcessEvent (db_method archive B) e ?s = (r, s1)"
    by (cases "ProcessEvent (db_method archive B) e ?s")
  have "\<exists>es. snd (snd (ProcessEvent (db_method archive B) e ?s)) = answered es (snd ?s)"
    by (rule answersD[OF db_event_answers l])
  then obtain es where s1: "snd s1 = set_events DataBaseRef q (answered es (snd s))"
    using h by (auto simp: db_queue_set)
  show ?case
  proof (cases r)
    case None
    have "linked (snd s1)" using s1 Cons.prems by simp
    from Cons.IH[OF this] show ?thesis using h None s1 by auto
  next
    case (Some f)
    then show ?thesis using h s1 by auto
  qed
qed

lemma db_Frame_run:
  assumes "linked (snd s)"
  shows "\<exists>r s' es rest. db_Frame archive B s = Some (r, s') \<and>
     snd s' = set_events DataBaseRef rest (answered es (snd s)) \<and> (r = None \<longrightarrow> rest = []) \<and>
     (r \<noteq> None \<longrightarrow> (\<exists>pre e. db_queue s = pre @ e # rest))"
proof -
  let ?r = "run_events set_db_queue (ProcessEvent (db_method archive B)) (db_queue s) s"
  obtain es rest where state: "snd (snd ?r) = set_events DataBaseRef rest (answered es (snd s))"
    using db_run_state[OF assms] by blast
  then have "db_queue (snd ?r) = rest" by (simp add: db_queue_def)
  then show ?thesis
    using db_loop.drain_run[OF assms, of archive B] state db_loop.run_empty[OF assms refl, of archive B]
      db_loop.run_rest[OF assms refl, of archive B]
    by (intro exI[of _ "fst ?r"] exI[of _ "snd ?r"] exI[of _ es] exI[of _ rest]) (auto simp: db_Frame_def)
qed

text \<open>A frame of the data base engine comes back, on any data base and any queue. Either all
  of its events were handled, or one failed and the events behind it are kept. In the engines
  nothing changes but the two queues: answers go to the end of that of the network engine.\<close>

theorem db_Frame_returns:
  assumes "linked (snd s)"
  shows "\<exists>r s' es rest. db_Frame archive B s = Some (r, s') \<and>
     snd s' = set_events DataBaseRef rest (set_events NetRef (events (snd s) NetRef @ es) (snd s)) \<and>
     (r = None \<longrightarrow> rest = []) \<and> (r \<noteq> None \<longrightarrow> (\<exists>pre e. db_queue s = pre @ e # rest))"
  using db_Frame_run[OF assms, of archive B] unfolding answered_def .

definition demo_bus :: "EngineEvent list \<Rightarrow> bus" where
  "demo_bus q = set_events DataBaseRef q (link_engines \<lparr>engines = (\<lambda>_. Engine_new)\<rparr>)"

lemma linked_demo_bus [simp]: "linked (demo_bus q)"
  "events (demo_bus q) r = (if r = DataBaseRef then q else [])"
  by (simp_all add: demo_bus_def) (simp add: events_def Engine_new_def)

definition demo_db :: "(string \<Rightarrow> bson_obj list) \<Rightarrow> (string \<Rightarrow> bson_obj list) DataBaseMongo" where
  "demo_db d = \<lparr>mConnection = True, mIsDBOk = True, mongo_store = d\<rparr>"

lemma demo_db_sel [simp]: "mConnection (demo_db d)" "mongo_store (demo_db d) = d"
  by (simp_all add: demo_db_def)

definition demo_memory :: Character where
  "demo_memory = \<lparr>mID = -1, mModel = ''?'', mNickName = ''?'', mLevel = 7, mMapID = 7, mPosX = 1, mPosY = 1,
     mPosZ = 1, mOW = 1, mOX = 1, mOY = 1, mOZ = 1, mVX = 1, mVY = 1, mVZ = 1, mPV = 7, mPVMax = 7\<rparr>"

theorem db_Frame_returns_witness:
  "\<exists>r s'. db_Frame (\<lambda>_. []) (DataBaseMongo (\<lambda>_. []) demo_memory mem_server)
       (demo_db (\<lambda>_. []), demo_bus [event_of PING]) = Some (r, s') \<and> linked (snd s')"
  using db_Frame_returns[of "(demo_db (\<lambda>_. []), demo_bus [event_of PING])" "\<lambda>_. []"
      "DataBaseMongo (\<lambda>_. []) demo_memory mem_server"] by fastforce

section \<open>Logins\<close>

lemma DataBaseMongo_methods [db_simps]:
  "db_VerifyPass (DataBaseMongo archive memory V) = Mongo_VerifyPass V"
  "db_GetAccountIDByName (DataBaseMongo archive memory V) = Mongo_GetAccountIDByName V"
  "db_GetPersonIDByNickName (DataBaseMongo archive memory V) = Mongo_GetPersonIDByNickName V"
  "db_ChangeAccountState (DataBaseMongo archive memory V) = Mongo_ChangeAccountState V"
  "db_ChangePlayerState (DataBaseMongo archive memory V) = Mongo_ChangePlayerState V"
  "db_GetCharactersList (DataBaseMongo archive memory V) = Mongo_GetCharactersList V"
  "db_CreateCharacter (DataBaseMongo archive memory V) = Mongo_CreateCharacter V"
  "db_DeleteCharacter (DataBaseMongo archive memory V) = Mongo_DeleteCharacter V"
  "db_MajPos (DataBaseMongo archive memory V) = Mongo_MajPos V"
  "db_NPCInfo (DataBaseMongo archive memory V) = Mongo_NPCInfo archive memory V"
  by (simp_all add: DataBaseMongo_def)

lemma VerifyPass_documented:
  assumes "documented V docs sat" "mConnection M"
  shows "Mongo_VerifyPass V M n p =
     (case filter (\<lambda>d. getField d ''name'' = Some (BString n)) (docs (mongo_store M) accounts) of
        [] \<Rightarrow> Inl (Throw ''13422'')
      | b # _ \<Rightarrow> Inr (p = getStringField b ''password''))"
proof -
  have "sat [(''name'', BString n)] = (\<lambda>d. getField d ''name'' = Some (BString n))"
    using documentedD(1)[OF assms(1)] by (intro ext) simp
  then show ?thesis
    by (simp add: Mongo_VerifyPass_def first_doc_documented[OF assms] split: list.split)
qed

lemma AccountID_documented:
  assumes "documented V docs sat" "mConnection M"
  shows "Mongo_GetAccountIDByName V M n =
     (case filter (\<lambda>d. getField d ''name'' = Some (BString n)) (docs (mongo_store M) accounts) of
        [] \<Rightarrow> Inl (Throw ''13422'')
      | b # _ \<Rightarrow> getIntField b ''id'')"
proof -
  have "sat [(''name'', BString n)] = (\<lambda>d. getField d ''name'' = Some (BString n))"
    using documentedD(1)[OF assms(1)] by (intro ext) simp
  then show ?thesis
    by (simp add: Mongo_GetAccountIDByName_def first_doc_documented[OF assms] split: list.split)
qed

text \<open>The answer to a login, from the account found.\<close>

definition auth_answer_event :: "int \<Rightarrow> string \<Rightarrow> int option \<Rightarrow> EngineEvent" where
  "auth_answer_event ID name acct =
     (let auth = put_s ''ACCT_NAME'' name (put_i ''ID'' ID (event_of AUTH))
      in case acct of
           None \<Rightarrow> put_i ''ACCEPTED'' 0 auth
         | Some n \<Rightarrow> put_i ''ACCT_ID'' n (put_i ''ACCEPTED'' 1 auth))"

definition asks_auth :: "EngineEvent \<Rightarrow> int \<Rightarrow> string \<Rightarrow> string \<Rightarrow> bool" where
  "asks_auth e ID name pass \<longleftrightarrow> mType e = AUTH \<and> find_i e ''ID'' = Some ID \<and>
     find_s e ''ACCT_NAME'' = Some name \<and> find_s e ''PASS'' = Some pass"

lemma login_decided_at:
  assumes "documented V docs sat" "mConnection (fst s)" "linked (snd s)" "asks_auth e ID name pass"
  shows "ProcessEvent (db_method archive (DataBaseMongo archive memory V)) e s =
     (case filter (\<lambda>d. getField d ''name'' = Some (BString name)) (docs (mongo_store (fst s)) accounts) of
        [] \<Rightarrow> (Some (Throw ''13422''), s)
      | b # _ \<Rightarrow>
          if pass = getStringField b ''password''
          then (case getIntField b ''id'' of
                  Inl f \<Rightarrow> (Some f, s)
                | Inr n \<Rightarrow> (None, (fst s, PushEvent NetRef (auth_answer_event ID name (Some n)) (snd s))))
          else (None, (fst s, PushEvent NetRef (auth_answer_event ID name None) (snd s))))"
  using assms(3,4)
  by (simp add: asks_auth_def ProcessEvent_slot db_method_def db_ProcessAuth_def db_simps Let_def
      VerifyPass_documented[OF assms(1,2)] AccountID_documented[OF assms(1,2)] auth_answer_event_def
      split: list.split sum.split)

text \<open>C5. On a documented server every login is answered once, to the number that asked: accepted
  with the number of the account when the password is the one of the first account of that
  name, and refused when it is not. Nothing of the data base changes. A name without an
  account is not refused: the exception of the empty cursor leaves the handler and nothing is
  answered.\<close>

theorem login_decided:
  assumes "documented V docs sat" "mConnection (fst s)" "linked (snd s)" "asks_auth e ID name pass"
  shows "ProcessEvent (db_method archive (DataBaseMongo archive memory V)) e s =
     (case filter (\<lambda>d. getField d ''name'' = Some (BString name)) (docs (mongo_store (fst s)) accounts) of
        [] \<Rightarrow> (Some (Throw ''13422''), s)
      | b # _ \<Rightarrow>
          if pass = getStringField b ''password''
          then (case getIntField b ''id'' of
                  Inl f \<Rightarrow> (Some f, s)
                | Inr n \<Rightarrow> (None, (fst s, PushEvent NetRef (auth_answer_event ID name (Some n)) (snd s))))
          else (None, (fst s, PushEvent NetRef (auth_answer_event ID name None) (snd s))))"
  using login_decided_at[OF assms] .

definition bob_account :: bson_obj where
  "bob_account = [(''_id'', BOID ''000000000000''), (''id'', BInt 42), (''name'', BString ''bob''),
     (''password'', BString ''secret'')]"

definition bob_asks :: EngineEvent where
  "bob_asks = put_s ''PASS'' ''secret'' (put_s ''ACCT_NAME'' ''bob'' (put_i ''ID'' 7 (event_of AUTH)))"

theorem login_decided_witness:
  "ProcessEvent (db_method (\<lambda>_. []) (DataBaseMongo (\<lambda>_. []) demo_memory mem_server)) bob_asks
     (demo_db ((\<lambda>_. [])(accounts := [bob_account])), demo_bus []) =
   (None, (demo_db ((\<lambda>_. [])(accounts := [bob_account])),
      PushEvent NetRef (auth_answer_event 7 ''bob'' (Some 42)) (demo_bus [])))"
proof -
  have "asks_auth bob_asks 7 ''bob'' ''secret''" by (simp add: asks_auth_def bob_asks_def)
  from login_decided[OF documented_mem_server _ _ this,
      of "(demo_db ((\<lambda>_. [])(accounts := [bob_account])), demo_bus [])" "\<lambda>_. []" demo_memory]
  show ?thesis by (simp add: bob_account_def getStringField_def getIntField_def c_str_def NUL_def)
qed


text \<open>What marking an account as online or offline does to the stored documents.\<close>

lemma account_replaced:
  assumes doc: "documented V docs sat" and con: "mConnection M"
    and acc: "docs (mongo_store M) accounts = pre @ a # post" "getField a ''id'' = Some (BInt acct)"
      "\<forall>d \<in> set pre. \<not> sat [(''id'', BInt acct)] d"
  shows "fst (Mongo_ChangeAccountState V acct on M) = None"
    "mConnection (snd (Mongo_ChangeAccountState V acct on M))"
    "docs (mongo_store (snd (Mongo_ChangeAccountState V acct on M))) accounts =
       pre @ replacement a [(''online'', BBool on)] # post"
proof -
  have "operator_free [(''online'', BBool on)]" by (simp add: operator_free_def)
  note req = request_documented(1,2)[OF doc con this] request_documented(7)[OF doc con]
  have "sat [(''id'', BInt acct)] a" using documentedD(2)[OF doc acc(2)] by simp
  with req acc con show "fst (Mongo_ChangeAccountState V acct on M) = None"
    "mConnection (snd (Mongo_ChangeAccountState V acct on M))"
    "docs (mongo_store (snd (Mongo_ChangeAccountState V acct on M))) accounts =
       pre @ replacement a [(''online'', BBool on)] # post"
    by (simp_all add: Mongo_ChangeAccountState_def replace_first_at filter_empty_conv)
qed

lemma replaced_unnamed:
  assumes "\<forall>d \<in> set (pre @ post). getField d ''name'' \<noteq> Some (BString name)"
  shows "filter (\<lambda>d. getField d ''name'' = Some (BString name)) (pre @ replacement a [(''online'', BBool on)] # post) = []"
  using assms by (auto simp: filter_empty_conv getField_replacement)

text \<open>C13. An update without an operator replaces the document. When an account is marked as online
  after its login, or as offline after it, the document that is stored in its place has the \<open>_id\<close> of the old one, the
  member \<open>online\<close>, true or false, and nothing else: the name and the password are gone, the account is found under no name
  any more, and the next login to it, with whatever password, stops the loop of the data base
  engine with an exception.\<close>

theorem login_erases_account:
  assumes doc: "documented V docs sat" and con: "mConnection (fst s)" and l: "linked (snd s)"
    and acc: "docs (mongo_store (fst s)) accounts = pre @ a # post"
    and a: "getField a ''id'' = Some (BInt acct)" "getField a ''name'' = Some (BString name)"
    and others: "\<forall>d \<in> set (pre @ post). getField d ''name'' \<noteq> Some (BString name)"
      "\<forall>d \<in> set pre. \<not> sat [(''id'', BInt acct)] d"
    and e: "mType e \<in> {WELCOME, REMOVE_MACHINE}" "find_i e ''ACCT_ID'' = Some acct"
    and e': "asks_auth e' ID name pass" and q: "db_queue s = [e, e']"
  shows "Mongo_VerifyPass V (fst s) name pass = Inr (pass = getStringField a ''password'') \<and>
     (\<exists>s'. db_Frame archive (DataBaseMongo archive memory V) s = Some (Some (Throw ''13422''), s') \<and>
        events (snd s') NetRef = events (snd s) NetRef \<and>
        (\<exists>b. docs (mongo_store (fst s')) accounts = pre @ b # post \<and>
           b = filter (\<lambda>f. fst f = ''_id'') a @ [(''online'', BBool (mType e = WELCOME))] \<and>
           getField b ''name'' = None \<and> getField b ''password'' = None))"
proof -
  let ?B = "DataBaseMongo archive memory V" and ?on = "mType e = WELCOME"
  let ?M = "snd (Mongo_ChangeAccountState V acct ?on (fst s))"
  let ?S = "(?M, set_events DataBaseRef [] (snd s))"
  note st = account_replaced[OF doc con acc a(1) others(2), where on = ?on]
  note gone = replaced_unnamed[OF others(1), of a ?on]
  have "ProcessEvent (db_method archive ?B) e (set_db_queue [e'] s) =
      (None, (?M, set_events DataBaseRef [e'] (snd s)))"
    using e st(1) by (auto simp: ProcessEvent_slot db_method_def db_ProcessWelcome_def
        db_ProcessRemoveMachine_def db_simps to_db_None set_db_queue_def)
  moreover have "ProcessEvent (db_method archive ?B) e' ?S = (Some (Throw ''13422''), ?S)"
    using login_decided_at[OF doc _ _ e', of ?S archive memory] l st gone by simp
  ultimately have "db_Frame archive ?B s = Some (Some (Throw ''13422''), ?S)"
    using db_loop.drain_run[OF l, of archive ?B]
    by (simp add: db_Frame_def q set_db_queue_def)
  moreover have "Mongo_VerifyPass V (fst s) name pass = Inr (pass = getStringField a ''password'')"
    using others(1) a(2) by (simp add: VerifyPass_documented[OF doc con] acc filter_empty_conv[THEN iffD2])
  moreover have "replacement a [(''online'', BBool ?on)] = filter (\<lambda>f. fst f = ''_id'') a @ [(''online'', BBool ?on)]"
    by (simp add: replacement_def)
  moreover have "getField (replacement a [(''online'', BBool ?on)]) ''name'' = None"
    "getField (replacement a [(''online'', BBool ?on)]) ''password'' = None" by (simp_all add: getField_replacement)
  ultimately show ?thesis using st(3) by auto
qed

theorem login_erases_account_witness:
  "\<exists>s'. db_Frame (\<lambda>_. []) (DataBaseMongo (\<lambda>_. []) demo_memory mem_server)
     (demo_db ((\<lambda>_. [])(accounts := [bob_account])),
      demo_bus [put_i ''ACCT_ID'' 42 (event_of WELCOME), bob_asks]) = Some (Some (Throw ''13422''), s')"
proof -
  have "asks_auth bob_asks 7 ''bob'' ''secret''" by (simp add: asks_auth_def bob_asks_def)
  from login_erases_account[OF documented_mem_server _ _ _ _ _ _ _ _ _ this,
      of "(demo_db ((\<lambda>_. [])(accounts := [bob_account])),
      demo_bus [put_i ''ACCT_ID'' 42 (event_of WELCOME), bob_asks])" "[]" bob_account "[]" 42
      "put_i ''ACCT_ID'' 42 (event_of WELCOME)" "\<lambda>_. []" demo_memory]
  show ?thesis by (auto simp: bob_account_def db_queue_def)
qed


section \<open>Characters\<close>

lemma show_int_inject [simp]: "show_int a = show_int b \<longleftrightarrow> a = b"
proof
  assume eq: "show_int a = show_int b"
  let ?lo = "min a b" and ?hi = "max a b"
  have "read_int ?lo ?hi (show_int a @ []) = read_int ?lo ?hi (show_int b @ [])" using eq by simp
  then show "a = b"
    using read_show_int[of ?lo a ?hi "[]"] read_show_int[of ?lo b ?hi "[]"] by simp
qed simp

lemma each_list_character:
  assumes "\<forall>d \<in> set ds. \<exists>n. getIntField d ''id'' = Inr n"
  shows "\<exists>e'. each_doc list_character ds (e, k) = Inr (e', k + int (length ds)) \<and> mType e' = mType e \<and>
     (\<forall>i < length ds. \<exists>n. getIntField (ds ! i) ''id'' = Inr n \<and>
        find_i e' (''ID'' @ show_int (k + int i)) = Some n) \<and>
     (\<forall>key. (\<forall>i < length ds. key \<noteq> ''ID'' @ show_int (k + int i)) \<longrightarrow> find_i e' key = find_i e key)"
  using assms
proof (induction ds arbitrary: e k)
  case (Cons d ds)
  obtain n where n: "getIntField d ''id'' = Inr n" using Cons.prems by auto
  let ?e = "put_i (''ID'' @ show_int k) n e"
  obtain e' where e': "each_doc list_character ds (?e, k + 1) = Inr (e', k + 1 + int (length ds))"
    "mType e' = mType e"
    "\<forall>i < length ds. \<exists>n. getIntField (ds ! i) ''id'' = Inr n \<and>
       find_i e' (''ID'' @ show_int (k + 1 + int i)) = Some n"
    "\<forall>key. (\<forall>i < length ds. key \<noteq> ''ID'' @ show_int (k + 1 + int i)) \<longrightarrow> find_i e' key = find_i ?e key"
    using Cons.IH[of ?e "k + 1"] Cons.prems by auto
  have "each_doc list_character (d # ds) (e, k) = Inr (e', k + int (length (d # ds)))"
    using e'(1) n by (simp add: list_character_def add_ac)
  moreover have "\<exists>n. getIntField ((d # ds) ! i) ''id'' = Inr n \<and>
      find_i e' (''ID'' @ show_int (k + int i)) = Some n" if "i < length (d # ds)" for i
  proof (cases i)
    case 0
    then show ?thesis using n e'(4) by auto
  next
    case (Suc j)
    then show ?thesis using e'(3) that by (auto simp: add_ac)
  qed
  moreover have "find_i e' key = find_i e key"
    if key: "\<forall>i < length (d # ds). key \<noteq> ''ID'' @ show_int (k + int i)" for key
  proof -
    have "key \<noteq> ''ID'' @ show_int (k + 1 + int i)" if "i < length ds" for i
      using key[rule_format, of "Suc i"] that by (simp add: add_ac)
    moreover have "key \<noteq> ''ID'' @ show_int k" using key[rule_format, of 0] by simp
    ultimately show ?thesis using e'(4) by simp
  qed
  ultimately show ?case using e'(2) by blast
qed simp

text \<open>C15. The list of the characters of an account goes back to the machine that asked, with the
  numbers of the characters found in their order under \<open>ID0\<close>, \<open>ID1\<close>, \dots, one for each and
  none after the last; nothing of the data base changes. Every character of the account must have a
  number that can be read.\<close>

theorem characters_listed:
  assumes "documented V docs sat" "mConnection (fst s)" "linked (snd s)"
    and e: "mType e = CHARACTERS_LIST" "find_i e ''ID'' = Some machine" "find_i e ''ACCT_ID'' = Some acct"
    and ds: "ds = filter (sat [(''acctid'', BInt acct)]) (docs (mongo_store (fst s)) character)"
    and ids: "\<forall>d \<in> set ds. \<exists>n. getIntField d ''id'' = Inr n"
  shows "\<exists>ans. ProcessEvent (db_method archive (DataBaseMongo archive memory V)) e s =
       (None, (fst s, PushEvent NetRef ans (snd s))) \<and>
     mType ans = CHARACTERS_LIST \<and> find_i ans ''ID'' = Some machine \<and> find_i ans ''REQUEST'' = Some 0 \<and>
     (\<forall>i < length ds. \<exists>n. getIntField (ds ! i) ''id'' = Inr n \<and> find_i ans (''ID'' @ show_int (int i)) = Some n) \<and>
     find_i ans (''ID'' @ show_int (int (length ds))) = None"
proof -
  let ?e0 = "put_i ''REQUEST'' 0 (event_of CHARACTERS_LIST)"
  obtain e' where e': "each_doc list_character ds (?e0, 0) = Inr (e', 0 + int (length ds))"
    "\<forall>i < length ds. \<exists>n. getIntField (ds ! i) ''id'' = Inr n \<and> find_i e' (''ID'' @ show_int (0 + int i)) = Some n"
    "\<forall>key. (\<forall>i < length ds. key \<noteq> ''ID'' @ show_int (0 + int i)) \<longrightarrow> find_i e' key = find_i ?e0 key"
    using each_list_character[OF ids, of ?e0 0] by blast
  have "run_then (query V (fst s) character [(''acctid'', BInt acct)])
      (\<lambda>c. cursor_loop list_character c (?e0, 0)) = Inr (e', int (length ds))"
    using e'(1) by (simp add: loop_documented[OF assms(1,2)] ds)
  then have l: "Mongo_GetCharactersList V (fst s) acct = Inr e'"
    by (auto simp: Mongo_GetCharactersList_def run_then_Inr_iff)
  have "mType e' = CHARACTERS_LIST \<and> find_i e' ''REQUEST'' = Some 0"
    using Mongo_list_event[OF l] by simp
  moreover have "find_i e' (''ID'' @ show_int (int (length ds))) = None" using e'(3) by auto
  ultimately show ?thesis using e e'(2) l assms(3)
    by (intro exI[of _ "put_i ''ID'' machine e'"])
      (simp add: ProcessEvent_slot db_method_def db_ProcessCharactersList_def db_simps)
qed

theorem characters_listed_witness:
  "\<exists>ans. ProcessEvent (db_method (\<lambda>_. []) (DataBaseMongo (\<lambda>_. []) demo_memory mem_server))
       (put_i ''ACCT_ID'' 42 (put_i ''ID'' 3 (event_of CHARACTERS_LIST)))
       (demo_db ((\<lambda>_. [])(character := [[(''acctid'', BInt 42), (''id'', BInt 5)]])), demo_bus []) =
     (None, (demo_db ((\<lambda>_. [])(character := [[(''acctid'', BInt 42), (''id'', BInt 5)]])),
        PushEvent NetRef ans (demo_bus []))) \<and> find_i ans (''ID'' @ show_int 0) = Some 5"
  using characters_listed[OF documented_mem_server, of
      "(demo_db ((\<lambda>_. [])(character := [[(''acctid'', BInt 42), (''id'', BInt 5)]])), demo_bus [])"
      "put_i ''ACCT_ID'' 42 (put_i ''ID'' 3 (event_of CHARACTERS_LIST))" 3 42
      "[[(''acctid'', BInt 42), (''id'', BInt 5)]]" "\<lambda>_. []" demo_memory]
  by (fastforce simp: mem_matches_def getIntField_def)


text \<open>An event handled by the engine on a Mongo data base.\<close>

definition mongo_step ::
  "(item list \<Rightarrow> string) \<Rightarrow> Character \<Rightarrow> 'd mongod \<Rightarrow> EngineEvent \<Rightarrow> ('d DataBaseMongo, 'a) db_state act" where
  "mongo_step archive memory V = ProcessEvent (db_method archive (DataBaseMongo archive memory V))"

text \<open>C38. A character made by \<open>CreateCharacter\<close> is stored without a number. When no other has its
  name it is looked up by it to the number the driver gives for a missing one, the least int,
  and a request to delete it by its name succeeds and leaves it in the collection.\<close>

theorem created_character_stays:
  assumes doc: "documented V docs sat" and con: "mConnection (fst s)"
    and e: "mType e = CREATE_CHARACTER" "find_i e ''ACCT_ID'' = Some acct" "find_s e ''PLAYER_NICK'' = Some nick"
    and e': "mType e' = DELETE_CHARACTER" "find_s e' ''PLAYER_NICK'' = Some nick"
    and new: "\<forall>d \<in> set (docs (mongo_store (fst s)) character). getField d ''name'' \<noteq> Some (BString nick)"
  shows "\<exists>c s1 s2. mongo_step archive memory V e s = (None, s1) \<and> mongo_step archive memory V e' s1 = (None, s2) \<and>
     docs (mongo_store (fst s1)) character = docs (mongo_store (fst s)) character @ [c] \<and>
     getField c ''name'' = Some (BString nick) \<and> getField c ''acctid'' = Some (BInt acct) \<and>
     Mongo_GetPersonIDByNickName V (fst s1) nick = Inr INT_MIN32 \<and>
     c \<in> set (docs (mongo_store (fst s2)) character)"
proof -
  let ?c = "[(''_id'', BOID (srv_new_oid V (mongo_store (fst s)))), (''acctid'', BInt acct), (''name'', BString nick)]"
  let ?M1 = "snd (Mongo_CreateCharacter V acct nick (fst s))"
  let ?M2 = "snd (Mongo_DeleteCharacter V INT_MIN32 ?M1)"
  note req = request_documented[OF doc con]
  have c1: "fst (Mongo_CreateCharacter V acct nick (fst s)) = None"
    "docs (mongo_store ?M1) character = docs (mongo_store (fst s)) character @ [?c]" "mConnection ?M1"
    using con by (simp_all add: Mongo_CreateCharacter_def req)
  have sat: "sat [(''name'', BString nick)] = (\<lambda>d. getField d ''name'' = Some (BString nick))"
    using documentedD(1)[OF doc] by (intro ext) simp
  have ID: "Mongo_GetPersonIDByNickName V ?M1 nick = Inr INT_MIN32"
    using new by (simp add: Mongo_GetPersonIDByNickName_def first_doc_documented[OF doc c1(3)] c1(2) sat
        filter_False getIntField_def)
  have "fst (Mongo_DeleteCharacter V INT_MIN32 ?M1) = None" "?c \<in> set (docs (mongo_store ?M2) character)"
    using documentedD(3)[OF doc, of ?c "''id''" INT_MIN32]
    by (simp_all add: Mongo_DeleteCharacter_def request_documented[OF doc c1(3)] c1(2))
  moreover have "mongo_step archive memory V e s = (None, (?M1, snd s))"
    using e c1(1) by (simp add: mongo_step_def ProcessEvent_slot db_method_def db_ProcessCreateCharacter_def db_simps
        to_db_None)
  moreover have "mongo_step archive memory V e' (?M1, snd s) = (None, (?M2, snd s))"
    using e' ID calculation(1) by (simp add: mongo_step_def ProcessEvent_slot db_method_def db_ProcessDeleteCharacter_def
        db_simps to_db_None)
  ultimately show ?thesis using c1(2) ID by (intro exI[of _ ?c] exI[of _ "(?M1, snd s)"] exI[of _ "(?M2, snd s)"]) simp
qed

theorem created_character_stays_witness:
  "\<exists>c. c \<in> set (mongo_store (fst (snd (mongo_step (\<lambda>_. []) demo_memory mem_server
       (put_s ''PLAYER_NICK'' ''bob'' (event_of DELETE_CHARACTER))
       (snd (mongo_step (\<lambda>_. []) demo_memory mem_server
          (put_i ''ACCT_ID'' 42 (put_s ''PLAYER_NICK'' ''bob'' (event_of CREATE_CHARACTER)))
          (demo_db (\<lambda>_. []), demo_bus [])))))) character)"
  using created_character_stays[OF documented_mem_server, of "(demo_db (\<lambda>_. []), demo_bus [])"
      "put_i ''ACCT_ID'' 42 (put_s ''PLAYER_NICK'' ''bob'' (event_of CREATE_CHARACTER))" 42 "''bob''"
      "put_s ''PLAYER_NICK'' ''bob'' (event_of DELETE_CHARACTER)" "\<lambda>_. []" demo_memory]
  by auto

section \<open>NPCs and positions\<close>

lemma run_all_append: "run_all (fs @ gs) c = run_then (run_all fs c) (run_all gs)"
  by (induction fs arbitrary: c) (auto simp: run_then_def split: sum.split)

lemmas set_defs = SetNickName_def SetLevel_def SetMapID_def SetPosX_def SetPosY_def SetPosZ_def SetOW_def
  SetOX_def SetOY_def SetOZ_def SetModel_def SetPV_def SetPVMax_def set_int_def set_float_def
  Player_copy_def NPC_copy_def

text \<open>The character read from the data base has the place, the points and the name of its
  document, and belongs to the account when the document says so.\<close>

theorem player_read:
  assumes "Mongo_GetPlayer memory V M ID acct = Inr (p, internal)"
  shows "\<exists>b. first_doc V M character [(''id'', BInt ID)] = Inr b \<and> getIntField b ''id'' = Inr (mID p) \<and>
     (\<exists>owner. getIntField b ''acctid'' = Inr owner \<and> internal = (owner = acct)) \<and>
     map (float_field b) [''pos_x'', ''pos_y'', ''pos_z'', ''o_w'', ''o_x'', ''o_y'', ''o_z''] =
       map Inr [mPosX p, mPosY p, mPosZ p, mOW p, mOX p, mOY p, mOZ p] \<and>
     map (getIntField b) [''level'', ''map_id'', ''pv'', ''pv_max''] =
       map Inr [mLevel p, mMapID p, mPV p, mPVMax p] \<and>
     mNickName p = getStringField b ''name'' \<and> mModel p = getStringField b ''mesh''"
  using assms by (auto simp: Mongo_GetPlayer_def run_then_Inr_iff set_defs Player_of_ID_def)

text \<open>An NPC has the members of its document too, but for one: its \<open>OX\<close> is read from the field
  of \<open>OY\<close>, so that the two are always the same.\<close>

theorem npc_read:
  assumes "Mongo_GetNPC memory V M ID = Inr n"
  shows "mOX n = mOY n \<and>
     (\<exists>b. first_doc V M npcs [(''id'', BInt ID)] = Inr b \<and> getIntField b ''id'' = Inr (mID n) \<and>
        map (float_field b) [''pos_x'', ''pos_y'', ''pos_z'', ''o_w'', ''o_y'', ''o_y'', ''o_z''] =
          map Inr [mPosX n, mPosY n, mPosZ n, mOW n, mOX n, mOY n, mOZ n] \<and>
        map (getIntField b) [''level'', ''map_id'', ''pv'', ''pv_max''] =
          map Inr [mLevel n, mMapID n, mPV n, mPVMax n] \<and>
        mNickName n = getStringField b ''name'' \<and> mModel n = getStringField b ''mesh'')"
  using assms by (auto simp: Mongo_GetNPC_def run_then_Inr_iff set_defs NPC_of_ID_def)

definition bob_place :: bson_obj where
  "bob_place = [(''id'', BInt 5), (''acctid'', BInt 42), (''name'', BString ''bob''),
     (''pos_x'', BDouble 0), (''pos_y'', BDouble 0), (''pos_z'', BDouble 0), (''o_w'', BDouble 0),
     (''o_x'', BDouble 0x3FF0000000000000), (''o_y'', BDouble 0), (''o_z'', BDouble 0)]"

lemma bob_place_name: "getStringField bob_place ''name'' = ''bob''"
  by (simp add: bob_place_def getStringField_def c_str_def NUL_def)

lemma bob_place_found:
  "first_doc mem_server (demo_db (\<lambda>_. [bob_place])) ns [(''id'', BInt 5)] = Inr bob_place"
  by (simp add: first_doc_documented[OF documented_mem_server] mem_matches_def bob_place_def)

theorem player_read_witness:
  "\<exists>p. Mongo_GetPlayer demo_memory mem_server (demo_db (\<lambda>_. [bob_place])) 5 42 = Inr (p, True) \<and>
     float_field bob_place ''o_x'' = Inr (mOX p) \<and> mNickName p = ''bob''"
proof -
  obtain p where p: "Mongo_GetPlayer demo_memory mem_server (demo_db (\<lambda>_. [bob_place])) 5 42 = Inr (p, True)"
    by (simp add: Mongo_GetPlayer_def bob_place_found) (simp add: bob_place_def getIntField_def float_field_def
        set_int_def set_float_def Double_def)
  from player_read[OF p] show ?thesis
    by (intro exI[of _ p]) (auto simp: p bob_place_found bob_place_name)
qed

theorem npc_read_witness:
  "\<exists>n. Mongo_GetNPC demo_memory mem_server (demo_db (\<lambda>_. [bob_place])) 5 = Inr n \<and>
     float_field bob_place ''o_y'' = Inr (mOX n) \<and> mOX n = mOY n"
proof -
  obtain n where n: "Mongo_GetNPC demo_memory mem_server (demo_db (\<lambda>_. [bob_place])) 5 = Inr n"
    by (simp add: Mongo_GetNPC_def bob_place_found) (simp add: bob_place_def getIntField_def float_field_def
        set_int_def set_float_def Double_def)
  from npc_read[OF n] show ?thesis
    by (intro exI[of _ n]) (auto simp: n bob_place_found)
qed


lemma float_field_widened: "\<not> f_isnan x \<Longrightarrow> getField b k = Some (BDouble (float_to_double x)) \<Longrightarrow> float_field b k = Inr x"
  by (simp add: float_field_def Double_def narrow_widen)

lemma read_position_doc:
  assumes "\<forall>v \<in> {x, y, z, w, ox, oy, oz}. \<not> f_isnan v"
    and "\<And>f. f \<noteq> ''_id'' \<Longrightarrow> getField b f = getField (position_doc x y z w ox oy oz) f"
  shows "\<exists>e'. read_position ID b e = Inr e' \<and> find_i e' ''NPC_ID'' = Some ID \<and> mType e' = mType e \<and>
     map (find_f e') place_keys = map Some [x, y, z, w, ox, oy, oz]"
proof -
  have "float_field b ''pos_x'' = Inr x" "float_field b ''pos_y'' = Inr y" "float_field b ''pos_z'' = Inr z"
    "float_field b ''o_w'' = Inr w" "float_field b ''o_x'' = Inr ox" "float_field b ''o_y'' = Inr oy"
    "float_field b ''o_z'' = Inr oz"
    using assms(1) by (auto intro!: float_field_widened simp: assms(2) position_doc_def)
  then show ?thesis by (simp add: read_position_def set_float_def place_keys_def)
qed

text \<open>C37. A position event whose floats are none of them NaN stores the exact floats it holds, in the document of the player in the
  collection \<open>characters\<close>: reading the document that is written gives them back. But players
  are read from \<open>character\<close>, so the positions the engine reads are those from before; and the
  document written has lost its number, so that no later position event finds it.\<close>

theorem saved_position:
  assumes doc: "documented V docs sat" and con: "mConnection (fst s)"
    and e: "mType e = PLAYER_POS" "find_i e ''PLAYER_ID'' = Some ID"
      "map (find_f e) place_keys = map Some [x, y, z, w, ox, oy, oz]"
    and nan: "\<forall>v \<in> {x, y, z, w, ox, oy, oz}. \<not> f_isnan v"
    and stored: "docs (mongo_store (fst s)) characters = pre @ a # post" "getField a ''id'' = Some (BInt ID)"
      "\<forall>d \<in> set pre. \<not> sat [(''id'', BInt ID)] d"
  shows "\<exists>s' b. mongo_step archive memory V e s = (None, s') \<and> snd s' = snd s \<and>
     docs (mongo_store (fst s')) characters = pre @ b # post \<and>
     (\<forall>old. \<exists>e'. read_position ID b old = Inr e' \<and> map (find_f e') place_keys = map (find_f e) place_keys) \<and>
     (\<forall>n. Mongo_GetPlayerPos V (fst s') n = Mongo_GetPlayerPos V (fst s) n) \<and>
     getField b ''id'' = None \<and> \<not> sat [(''id'', BInt ID)] b"
proof -
  let ?u = "position_doc x y z w ox oy oz" and ?q = "[(''id'', BInt ID)]"
  let ?M = "snd (Mongo_MajPos V x y z w ox oy oz ID (fst s))" and ?b = "replacement a ?u"
  have free: "operator_free ?u" by (simp add: operator_free_def position_doc_def)
  note req = request_documented[OF doc con]
  have sat: "sat ?q a" using documentedD(2)[OF doc stored(2)] by simp
  have m: "fst (Mongo_MajPos V x y z w ox oy oz ID (fst s)) = None" "mConnection ?M"
    "docs (mongo_store ?M) = (docs (mongo_store (fst s)))(characters := pre @ ?b # post)"
    using req(1,2)[OF free] req(7) con stored(1,3) sat
    by (simp_all add: Mongo_MajPos_def replace_first_at filter_empty_conv)
  have "mongo_step archive memory V e s = (None, (?M, snd s))"
    using e m(1) by (simp add: mongo_step_def ProcessEvent_slot db_method_def db_ProcessPlayerPos_def db_simps
        to_db_None place_keys_def)
  moreover have "\<exists>e'. read_position ID ?b old = Inr e' \<and> map (find_f e') place_keys = map (find_f e) place_keys" for old
    using read_position_doc[OF nan, of ?b ID old] getField_replacement[of _ a ?u] e(3) by metis
  moreover have "Mongo_GetPlayerPos V ?M n = Mongo_GetPlayerPos V (fst s) n" for n
    by (simp add: Mongo_GetPlayerPos_def get_position_def loop_documented[OF doc m(2)]
        loop_documented[OF doc con] m(3)) (simp add: character_def characters_def)
  moreover have "getField ?b ''id'' = None" by (simp add: getField_replacement position_doc_def)
  ultimately show ?thesis using m(3) documentedD(3)[OF doc, of ?b "''id''" ID]
    by (intro exI[of _ "(?M, snd s)"] exI[of _ ?b]) auto
qed

definition bob_moves :: EngineEvent where
  "bob_moves = put_i ''PLAYER_ID'' 5 ((GetPos \<lparr>mID = 5, mModel = [], mNickName = [], mLevel = 0, mMapID = 0,
     mPosX = 0x3F800000, mPosY = 0, mPosZ = 0, mOW = 0, mOX = 0, mOY = 0, mOZ = 0, mVX = 0, mVY = 0, mVZ = 0,
     mPV = 0, mPVMax = 0\<rparr>)\<lparr>mType := PLAYER_POS\<rparr>)"

lemma bob_moves_sel:
  "mType bob_moves = PLAYER_POS" "find_i bob_moves ''PLAYER_ID'' = Some 5"
  "map (find_f bob_moves) place_keys = map Some [0x3F800000, 0, 0, 0, 0, 0, 0]"
proof -
  have "find_f (e\<lparr>mType := t\<rparr>) k = find_f e k" "find_i (e\<lparr>mType := t\<rparr>) k = find_i e k" for e t k
    by (simp_all add: find_f_def find_i_def)
  then show "find_i bob_moves ''PLAYER_ID'' = Some 5"
    "map (find_f bob_moves) place_keys = map Some [0x3F800000, 0, 0, 0, 0, 0, 0]"
    by (simp_all add: bob_moves_def GetPos_def place_keys_def)
  show "mType bob_moves = PLAYER_POS" by (simp add: bob_moves_def put_i_def)
qed

theorem saved_position_witness:
  "\<exists>s' b. mongo_step (\<lambda>_. []) demo_memory mem_server bob_moves (demo_db (\<lambda>_. [bob_place]), demo_bus []) = (None, s') \<and>
     mongo_store (fst s') characters = [b] \<and> getField b ''id'' = None \<and>
     Mongo_GetPlayerPos mem_server (fst s') 5 = Mongo_GetPlayerPos mem_server (demo_db (\<lambda>_. [bob_place])) 5"
proof -
  have nan: "\<forall>v \<in> {0x3F800000, 0, 0, 0, 0, 0, 0}. \<not> f_isnan v"
    by (simp add: f_isnan_def f_exp_def f_man_def)
  have place: "getField bob_place ''id'' = Some (BInt 5)" by (simp add: bob_place_def)
  show ?thesis
    using saved_position[where s = "(demo_db (\<lambda>_. [bob_place]), demo_bus [])" and pre = "[]" and post = "[]",
        OF documented_mem_server _ bob_moves_sel nan _ place] by fastforce
qed

lemma npc_info_ok:
  assumes "getIntField d ''id'' = Inr ID" "Mongo_GetNPC memory V M ID = Inr n"
  shows "npc_info archive memory V M mapID d l =
     Inr (l @ [put_s ''NPC_PROP'' (archive (NPC_save n)) (put_i ''MAP_ID'' mapID (event_of NPC_PROP))])"
  using assms by (simp add: npc_info_def)

lemma each_npc_info:
  assumes "each_doc (npc_info archive memory V M mapID) ds l = Inr es"
  shows "\<exists>ys. es = l @ ys \<and> length ys = length ds \<and>
     (\<forall>i < length ds. \<exists>ID n. getIntField (ds ! i) ''id'' = Inr ID \<and> Mongo_GetNPC memory V M ID = Inr n \<and>
        find_s (ys ! i) ''NPC_PROP'' = Some (archive (NPC_save n)))"
  using assms
proof (induction ds arbitrary: l)
  case (Cons d ds)
  obtain ID n where d: "getIntField d ''id'' = Inr ID" "Mongo_GetNPC memory V M ID = Inr n"
    using Cons.prems by (auto simp: npc_info_def run_then_def split: sum.splits)
  let ?e = "put_s ''NPC_PROP'' (archive (NPC_save n)) (put_i ''MAP_ID'' mapID (event_of NPC_PROP))"
  have "each_doc (npc_info archive memory V M mapID) ds (l @ [?e]) = Inr es"
    using Cons.prems npc_info_ok[OF d] by simp
  then obtain ys where ys: "es = (l @ [?e]) @ ys" "length ys = length ds"
    "\<forall>i < length ds. \<exists>ID n. getIntField (ds ! i) ''id'' = Inr ID \<and> Mongo_GetNPC memory V M ID = Inr n \<and>
        find_s (ys ! i) ''NPC_PROP'' = Some (archive (NPC_save n))"
    using Cons.IH by blast
  show ?case
    using ys d by (intro exI[of _ "?e # ys"]) (auto simp: nth_Cons' gr0_conv_Suc less_Suc_eq_0_disj)
qed simp

lemma send_each_linked:
  "linked (snd s) \<Longrightarrow> send_each machine es s = (None, (fst s, foldl (\<lambda>b e. PushEvent NetRef (put_i ''ID'' machine e) b) (snd s) es))"
  by (induction es arbitrary: s) (simp_all add: db_simps)

lemma events_pushed:
  "events (foldl (\<lambda>b e. PushEvent r (f e) b) b es) r = events b r @ map f es"
  by (induction es arbitrary: b) simp_all

text \<open>A machine that asks for its surroundings gets one event for each NPC of the map, in the
  order of the data base, each addressed to the machine and with the archive of the NPC of that
  document; when one of them cannot be read, nothing is sent at all.\<close>

theorem surroundings_sent:
  assumes doc: "documented V docs sat" and con: "mConnection (fst s)" and l: "linked (snd s)"
    and e: "mType e = ENVIRONMENT_INFO" "find_i e ''ID'' = Some machine" "find_i e ''MAP_ID'' = Some mapID"
    and ds: "ds = filter (sat [(''map_id'', BInt mapID)]) (docs (mongo_store (fst s)) npcs)"
    and r: "mongo_step archive memory V e s = (r, s')"
  shows "fst s' = fst s \<and>
    (case r of
       Some f \<Rightarrow> s' = s
     | None \<Rightarrow> \<exists>es. events (snd s') NetRef = events (snd s) NetRef @ es \<and> length es = length ds \<and>
         (\<forall>i < length ds. \<exists>ID n. getIntField (ds ! i) ''id'' = Inr ID \<and> Mongo_GetNPC memory V (fst s) ID = Inr n \<and>
            mType (es ! i) = NPC_PROP \<and> find_i (es ! i) ''ID'' = Some machine \<and>
            find_i (es ! i) ''MAP_ID'' = Some mapID \<and> find_s (es ! i) ''NPC_PROP'' = Some (archive (NPC_save n))))"
proof -
  have step: "mongo_step archive memory V e s = with_res (Mongo_NPCInfo archive memory V (fst s) mapID) (send_each machine) s"
    using e by (simp add: mongo_step_def ProcessEvent_slot db_method_def db_ProcessEnvironmentInfo_def SendNPCInfo_def
        db_simps)
  show ?thesis
  proof (cases "Mongo_NPCInfo archive memory V (fst s) mapID")
    case (Inl f)
    then show ?thesis using r by (auto simp: step)
  next
    case (Inr es)
    then have "each_doc (npc_info archive memory V (fst s) mapID) ds [] = Inr es"
      by (simp add: Mongo_NPCInfo_def loop_documented[OF doc con] ds)
    then have es: "length es = length ds" "\<forall>i < length ds. \<exists>ID n. getIntField (ds ! i) ''id'' = Inr ID \<and>
        Mongo_GetNPC memory V (fst s) ID = Inr n \<and> find_s (es ! i) ''NPC_PROP'' = Some (archive (NPC_save n))"
      using each_npc_info by fastforce+
    have t: "mType (es ! i) = NPC_PROP \<and> find_i (es ! i) ''MAP_ID'' = Some mapID" if "i < length ds" for i
      using mongo.npc_event[of archive memory V "fst s" mapID es "es ! i"] Inr that es(1) by (simp add: db_simps)
    have "r = None" "fst s' = fst s" "events (snd s') NetRef = events (snd s) NetRef @ map (put_i ''ID'' machine) es"
      using r l Inr by (auto simp: step send_each_linked events_pushed)
    then show ?thesis using es t by (intro conjI) (auto intro!: exI[of _ "map (put_i ''ID'' machine) es"])
  qed
qed

theorem surroundings_sent_witness:
  "\<exists>s'. mongo_step (\<lambda>_. []) demo_memory mem_server
     (put_i ''MAP_ID'' 1 (put_i ''ID'' 3 (event_of ENVIRONMENT_INFO))) (demo_db (\<lambda>_. [(''map_id'', BInt 1) # bob_place]), demo_bus [])
       = (None, s') \<and> length (events (snd s') NetRef) = 1"
proof -
  let ?e = "put_i ''MAP_ID'' 1 (put_i ''ID'' 3 (event_of ENVIRONMENT_INFO))"
    and ?s = "(demo_db (\<lambda>_. [(''map_id'', BInt 1) # bob_place]), demo_bus [])"
  have ds: "[(''map_id'', BInt 1) # bob_place] = filter (mem_matches [(''map_id'', BInt 1)]) (mongo_store (fst ?s) npcs)"
    by (simp add: mem_matches_def)
  have "fst (mongo_step (\<lambda>_. []) demo_memory mem_server ?e ?s) = None"
    by (simp add: mongo_step_def ProcessEvent_slot db_method_def db_ProcessEnvironmentInfo_def SendNPCInfo_def
        db_simps Mongo_NPCInfo_def loop_documented[OF documented_mem_server] npc_info_def Mongo_GetNPC_def
        first_doc_documented[OF documented_mem_server] mem_matches_def send_each_linked)
      (simp add: bob_place_def getIntField_def float_field_def set_int_def set_float_def Double_def to_net_linked)
  then obtain s' where s': "mongo_step (\<lambda>_. []) demo_memory mem_server ?e ?s = (None, s')"
    by (metis prod.collapse)
  from surroundings_sent[OF documented_mem_server _ _ _ _ _ ds s'] show ?thesis using s' by auto
qed

end
