(* ===== verification/MongoBuffer.thy ===== *)
theory MongoBuffer
imports MongoClient
begin

text \<open>
  The buffers of the MongoDB driver (\<open>bson/util/builder.h\<close>), the bytes of numbers in them, and
  hexadecimal text (\<open>util/hex.h\<close>). A byte is a character; numbers are little endian, as the
  machine the driver is built for has them.
\<close>

section \<open>Numbers as bytes\<close>

primrec le :: "nat \<Rightarrow> nat \<Rightarrow> string" where
  "le 0 n = []"
| "le (Suc k) n = char_of n # le k (n div 256)"

primrec le_nat :: "string \<Rightarrow> nat" where
  "le_nat [] = 0"
| "le_nat (c # cs) = of_char c + 256 * le_nat cs"

lemma length_le [simp]: "length (le k n) = k"
  by (induction k arbitrary: n) simp_all

lemma le_nat_le: "le_nat (le k n) = n mod 256 ^ k"
  by (induction k arbitrary: n) (simp_all add: mod_mult2_eq)

lemma le_nat_bound: "le_nat cs < 256 ^ length cs"
proof (induction cs)
  case (Cons c cs)
  have "of_char c < (256 :: nat)" by (rule nat_of_char_less_256)
  then have "of_char c + 256 * le_nat cs < 256 * (le_nat cs + 1)" by simp
  also have "\<dots> \<le> 256 * 256 ^ length cs" using Cons by (intro mult_le_mono) auto
  finally show ?case by simp
qed simp

text \<open>A signed number of \<open>k\<close> bytes.\<close>

definition le_int :: "nat \<Rightarrow> int \<Rightarrow> string" where
  "le_int k n = le k (nat (n mod 256 ^ k))"

definition int_le :: "string \<Rightarrow> int" where
  "int_le cs =
     (let n = int (le_nat cs); m = 256 ^ length cs
      in if 2 * n < m then n else n - m)"

lemma length_le_int [simp]: "length (le_int k n) = k"
  by (simp add: le_int_def)

lemma int_le_le_int:
  assumes "- (256 ^ k) \<le> 2 * n" "2 * n < 256 ^ k"
  shows "int_le (le_int k n) = n"
proof -
  let ?m = "256 ^ k :: int"
  have u: "int (le_nat (le_int k n)) = n mod ?m"
    by (simp add: le_int_def le_nat_le nat_mod_as_int)
  show ?thesis
  proof (cases "0 \<le> n")
    case True
    then have "n mod ?m = n" using assms(2) by (intro mod_pos_pos_trivial) auto
    then show ?thesis using u assms(2) by (simp add: int_le_def Let_def)
  next
    case False
    have "(n + ?m) mod ?m = n + ?m" using False assms by (intro mod_pos_pos_trivial) auto
    then have "n mod ?m = n + ?m" by simp
    then show ?thesis using u assms(1) by (simp add: int_le_def Let_def)
  qed
qed

section \<open>Buffers\<close>

definition BufferMaxSize :: nat where
  "BufferMaxSize = 64 * 1024 * 1024"

record BufBuilder =
  bb_data :: string
  bb_size :: nat

definition BufBuilder_new :: "nat \<Rightarrow> BufBuilder" where
  "BufBuilder_new initsize = \<lparr>bb_data = [], bb_size = initsize\<rparr>"

text \<open>\<open>while (a < l) a = a * 2;\<close>\<close>

function double_until :: "nat \<Rightarrow> nat \<Rightarrow> nat" where
  "double_until a l = (if 0 < a \<and> a < l then double_until (2 * a) l else a)"
  by pat_completeness auto
termination by (relation "measure (\<lambda>(a, l). l - a)") auto

declare double_until.simps [simp del]

lemma double_until_power:
  "a = 2 ^ i \<Longrightarrow> i \<le> k \<Longrightarrow> l \<le> 2 ^ k \<Longrightarrow> double_until a l \<le> 2 ^ k"
proof (induction a l arbitrary: i rule: double_until.induct)
  case (1 a l)
  show ?case
  proof (cases "a < l")
    case True
    then have "(2 :: nat) ^ i < 2 ^ k" using 1(2,4) by (metis order.strict_trans2)
    then have "i < k" by (rule power_less_imp_less_exp[rotated]) simp
    then have "Suc i \<le> k" by simp
    then have "double_until (2 * a) l \<le> 2 ^ k" using 1(2,4) True by (intro 1(1)[of "Suc i"]) simp_all
    then show ?thesis using True by (subst double_until.simps) simp
  next
    case False
    then show ?thesis using 1(2,3) by (subst double_until.simps) simp
  qed
qed

text \<open>
  \<open>grow\<close>: room for what is written next, or the exception of a buffer past 64 megabytes. Past a
  gigabyte the doubling leaves the ints.
\<close>

definition grow_reallocate :: "nat \<Rightarrow> nat res" where
  "grow_reallocate l =
     (if 2 ^ 30 < l then Inl (Undefined ''integer overflow'')
      else let a = double_until 64 l in if BufferMaxSize < a then Inl (Throw ''13548'') else Inr a)"

definition grow :: "nat \<Rightarrow> BufBuilder \<Rightarrow> nat res" where
  "grow n b =
     (let l = length (bb_data b) + n in if bb_size b < l then grow_reallocate l else Inr (bb_size b))"

definition appendBuf :: "string \<Rightarrow> BufBuilder \<Rightarrow> BufBuilder res" where
  "appendBuf src b =
     run_then (grow (length src) b) (\<lambda>size. Inr \<lparr>bb_data = bb_data b @ src, bb_size = size\<rparr>)"

definition skip :: "(nat \<Rightarrow> char) \<Rightarrow> nat \<Rightarrow> BufBuilder \<Rightarrow> BufBuilder res" where
  "skip memory n = appendBuf (map memory [0..<n])"

definition appendNum_char :: "int \<Rightarrow> BufBuilder \<Rightarrow> BufBuilder res" where
  "appendNum_char j = appendBuf (le_int 1 j)"

definition appendNum_int :: "int \<Rightarrow> BufBuilder \<Rightarrow> BufBuilder res" where
  "appendNum_int j = appendBuf (le_int 4 j)"

definition appendNum_long :: "int \<Rightarrow> BufBuilder \<Rightarrow> BufBuilder res" where
  "appendNum_long j = appendBuf (le_int 8 j)"

definition appendNum_double :: "float64 \<Rightarrow> BufBuilder \<Rightarrow> BufBuilder res" where
  "appendNum_double j = appendBuf (le 8 (unat j))"

definition appendStr :: "string \<Rightarrow> BufBuilder \<Rightarrow> BufBuilder res" where
  "appendStr str = appendBuf (str @ [NUL])"

lemmas append_defs = skip_def appendNum_char_def appendNum_int_def appendNum_long_def
  appendNum_double_def appendStr_def

lemma appendBuf_data: "appendBuf src b = Inr b' \<Longrightarrow> bb_data b' = bb_data b @ src"
  by (auto simp: appendBuf_def run_then_Inr_iff)

text \<open>
  Appending fails with the one exception or by the overflow, and never while what is written
  fits into the limit.
\<close>

lemma appendBuf_fails: "appendBuf src b = Inl f \<Longrightarrow> f = Throw ''13548'' \<or> f = Undefined ''integer overflow''"
  by (auto simp: appendBuf_def grow_def Let_def run_then_Inl_iff grow_reallocate_def split: if_splits)

lemma appendBuf_fits:
  assumes "length (bb_data b) + length src \<le> BufferMaxSize"
  shows "\<exists>b'. appendBuf src b = Inr b' \<and> bb_data b' = bb_data b @ src"
proof -
  have "double_until 64 (length (bb_data b) + length src) \<le> 2 ^ 26"
    using assms by (intro double_until_power[of _ 6]) (simp_all add: BufferMaxSize_def)
  then show ?thesis using assms by (simp add: appendBuf_def grow_def Let_def grow_reallocate_def BufferMaxSize_def)
qed

section \<open>Hexadecimal text\<close>

definition fromHex1 :: "char \<Rightarrow> nat res" where
  "fromHex1 c =
     (let n = of_char c
      in if 48 \<le> n \<and> n \<le> 57 then Inr (n - 48)
         else if 97 \<le> n \<and> n \<le> 102 then Inr (n - 97 + 10)
         else if 65 \<le> n \<and> n \<le> 70 then Inr (n - 65 + 10)
         else Inl (Throw ''assertion''))"

definition fromHex :: "char \<Rightarrow> char \<Rightarrow> char res" where
  "fromHex hi lo = run_then (fromHex1 hi) (\<lambda>h. run_then (fromHex1 lo) (\<lambda>l. Inr (char_of (16 * h + l))))"

definition toHex :: "string \<Rightarrow> string" where
  "toHex raw = concat (map (\<lambda>c. [''0123456789ABCDEF'' ! (of_char c div 16), ''0123456789ABCDEF'' ! (of_char c mod 16)]) raw)"

definition toHexLower :: "string \<Rightarrow> string" where
  "toHexLower raw = concat (map (\<lambda>c. [''0123456789abcdef'' ! (of_char c div 16), ''0123456789abcdef'' ! (of_char c mod 16)]) raw)"

lemma fromHex1_digits:
  assumes "n < 16"
  shows "fromHex1 (''0123456789ABCDEF'' ! n) = Inr n" "fromHex1 (''0123456789abcdef'' ! n) = Inr n"
proof -
  have "list_all (\<lambda>n. fromHex1 (''0123456789ABCDEF'' ! n) = Inr n \<and> fromHex1 (''0123456789abcdef'' ! n) = Inr n) [0..<16]"
    by code_simp
  then show "fromHex1 (''0123456789ABCDEF'' ! n) = Inr n" "fromHex1 (''0123456789abcdef'' ! n) = Inr n"
    using assms by (simp_all add: list_all_iff)
qed

text \<open>Reading two digits gives the byte they were written for, in either case.\<close>

lemma fromHex_digits:
  "fromHex (''0123456789ABCDEF'' ! (of_char c div 16)) (''0123456789ABCDEF'' ! (of_char c mod 16)) = Inr c"
  "fromHex (''0123456789abcdef'' ! (of_char c div 16)) (''0123456789abcdef'' ! (of_char c mod 16)) = Inr c"
proof -
  have "of_char c < (256 :: nat)" by (rule nat_of_char_less_256)
  then have "of_char c div 16 < (16 :: nat)" by linarith
  then show "fromHex (''0123456789ABCDEF'' ! (of_char c div 16)) (''0123456789ABCDEF'' ! (of_char c mod 16)) = Inr c"
    "fromHex (''0123456789abcdef'' ! (of_char c div 16)) (''0123456789abcdef'' ! (of_char c mod 16)) = Inr c"
    by (simp_all add: fromHex_def fromHex1_digits)
qed

end
