(* ===== verification/MongoElement.thy ===== *)
theory MongoElement
imports MongoBuffer
begin

text \<open>
  BSON as bytes: the types (\<open>bson/bsontypes.h\<close>), the elements of an object and the readings of
  their values (\<open>bson/bsonelement.h\<close>, \<open>bson/bson-inl.h\<close>), and the iterator over an object
  (\<open>bson/bsonobjiterator.h\<close>). A pointer into an object is the bytes of the object with a position;
  reading outside of them is \<open>Undefined\<close>. What the C++ classes cache is computed again.
\<close>

section \<open>Types\<close>

datatype BSONType =
    MinKey | EOO | NumberDouble | StringType | ObjectType | ArrayType | BinData | UndefinedType | jstOID
  | BoolType | DateType | jstNULL | RegEx | DBRef | Code | Symbol | CodeWScope | NumberInt | Timestamp
  | NumberLong | MaxKey | BadType int

fun bson_type_value :: "BSONType \<Rightarrow> int" where
  "bson_type_value MinKey = -1"
| "bson_type_value EOO = 0"
| "bson_type_value NumberDouble = 1"
| "bson_type_value StringType = 2"
| "bson_type_value ObjectType = 3"
| "bson_type_value ArrayType = 4"
| "bson_type_value BinData = 5"
| "bson_type_value UndefinedType = 6"
| "bson_type_value jstOID = 7"
| "bson_type_value BoolType = 8"
| "bson_type_value DateType = 9"
| "bson_type_value jstNULL = 10"
| "bson_type_value RegEx = 11"
| "bson_type_value DBRef = 12"
| "bson_type_value Code = 13"
| "bson_type_value Symbol = 14"
| "bson_type_value CodeWScope = 15"
| "bson_type_value NumberInt = 16"
| "bson_type_value Timestamp = 17"
| "bson_type_value NumberLong = 18"
| "bson_type_value MaxKey = 127"
| "bson_type_value (BadType n) = n"

definition bson_types :: "BSONType list" where
  "bson_types = [MinKey, EOO, NumberDouble, StringType, ObjectType, ArrayType, BinData, UndefinedType, jstOID,
     BoolType, DateType, jstNULL, RegEx, DBRef, Code, Symbol, CodeWScope, NumberInt, Timestamp, NumberLong, MaxKey]"

definition bson_type_of :: "int \<Rightarrow> BSONType" where
  "bson_type_of n = (case List.find (\<lambda>t. bson_type_value t = n) bson_types of Some t \<Rightarrow> t | None \<Rightarrow> BadType n)"

lemma bson_type_of_value: "(\<forall>n. t \<noteq> BadType n) \<Longrightarrow> bson_type_of (bson_type_value t) = t"
  by (cases t) (simp_all add: bson_type_of_def bson_types_def)

section \<open>Reading memory\<close>

type_synonym pointer_in = "string \<times> int"

definition read_at :: "pointer_in \<Rightarrow> nat \<Rightarrow> string res" where
  "read_at p n =
     (let bytes = drop (nat (snd p)) (fst p)
      in if 0 \<le> snd p \<and> n \<le> length bytes then Inr (take n bytes) else Inl (Undefined ''read outside of the object''))"

definition strlen_at :: "pointer_in \<Rightarrow> nat res" where
  "strlen_at p =
     (let bytes = drop (nat (snd p)) (fst p)
      in if 0 \<le> snd p \<and> NUL \<in> set bytes then Inr (length (c_str bytes)) else Inl (Undefined ''read outside of the object''))"

definition cstr_at :: "pointer_in \<Rightarrow> string res" where
  "cstr_at p = run_then (strlen_at p) (read_at p)"

definition plus_ptr :: "pointer_in \<Rightarrow> int \<Rightarrow> pointer_in" where
  "plus_ptr p n = (fst p, snd p + n)"

definition int_at :: "pointer_in \<Rightarrow> nat \<Rightarrow> int res" where
  "int_at p k = run_then (read_at p k) (\<lambda>bytes. Inr (int_le bytes))"

text \<open>A sum of ints that leaves their range has no meaning.\<close>

definition int_sum :: "int \<Rightarrow> int res" where
  "int_sum n = (if INT_MIN32 \<le> n \<and> n < 2 ^ 31 then Inr n else Inl (Undefined ''integer overflow''))"

section \<open>Elements\<close>

type_synonym BSONElement = pointer_in

definition el_type :: "BSONElement \<Rightarrow> BSONType res" where
  "el_type e = run_then (int_at e 1) (\<lambda>n. Inr (bson_type_of n))"

text \<open>The end-of-object element has no name, and its own byte is all of it.\<close>

definition fieldName :: "BSONElement \<Rightarrow> string res" where
  "fieldName e = run_then (el_type e) (\<lambda>t. if t = EOO then Inr [] else cstr_at (plus_ptr e 1))"

definition fieldNameSize :: "BSONElement \<Rightarrow> int res" where
  "fieldNameSize e = run_then (el_type e) (\<lambda>t.
     if t = EOO then Inr 0 else run_then (strlen_at (plus_ptr e 1)) (\<lambda>n. Inr (int n + 1)))"

definition el_value :: "BSONElement \<Rightarrow> pointer_in res" where
  "el_value e = run_then (fieldNameSize e) (\<lambda>n. Inr (plus_ptr e (n + 1)))"

definition valuestrsize :: "BSONElement \<Rightarrow> int res" where
  "valuestrsize e = run_then (el_value e) (\<lambda>v. int_at v 4)"

definition el_objsize :: "BSONElement \<Rightarrow> int res" where
  "el_objsize e = run_then (el_value e) (\<lambda>v. int_at v 4)"

definition valuestr :: "BSONElement \<Rightarrow> pointer_in res" where
  "valuestr e = run_then (el_value e) (\<lambda>v. Inr (plus_ptr v 4))"

text \<open>The bytes of a value, by its type: the switch of \<open>size\<close>.\<close>

definition value_size :: "BSONType \<Rightarrow> BSONElement \<Rightarrow> int res" where
  "value_size t e =
     (case t of
        EOO \<Rightarrow> Inr 0 | UndefinedType \<Rightarrow> Inr 0 | jstNULL \<Rightarrow> Inr 0 | MaxKey \<Rightarrow> Inr 0 | MinKey \<Rightarrow> Inr 0
      | BoolType \<Rightarrow> Inr 1
      | NumberInt \<Rightarrow> Inr 4
      | Timestamp \<Rightarrow> Inr 8 | DateType \<Rightarrow> Inr 8 | NumberDouble \<Rightarrow> Inr 8 | NumberLong \<Rightarrow> Inr 8
      | jstOID \<Rightarrow> Inr 12
      | Symbol \<Rightarrow> run_then (valuestrsize e) (\<lambda>n. int_sum (n + 4))
      | Code \<Rightarrow> run_then (valuestrsize e) (\<lambda>n. int_sum (n + 4))
      | StringType \<Rightarrow> run_then (valuestrsize e) (\<lambda>n. int_sum (n + 4))
      | DBRef \<Rightarrow> run_then (valuestrsize e) (\<lambda>n. int_sum (n + 4 + 12))
      | CodeWScope \<Rightarrow> el_objsize e
      | ObjectType \<Rightarrow> el_objsize e
      | ArrayType \<Rightarrow> el_objsize e
      | BinData \<Rightarrow> run_then (valuestrsize e) (\<lambda>n. int_sum (n + 4 + 1))
      | RegEx \<Rightarrow>
          run_then (el_value e) (\<lambda>p.
          run_then (strlen_at p) (\<lambda>len1.
          run_then (strlen_at (plus_ptr p (int len1 + 1))) (\<lambda>len2. int_sum (int len1 + 1 + int len2 + 1))))
      | BadType n \<Rightarrow> Inl (Throw ''10320''))"

definition el_size :: "BSONElement \<Rightarrow> int res" where
  "el_size e = run_then (el_type e) (\<lambda>t.
     if t = EOO then Inr 1
     else run_then (value_size t e) (\<lambda>x. run_then (fieldNameSize e) (\<lambda>n. int_sum (x + n + 1))))"

definition valuesize :: "BSONElement \<Rightarrow> int res" where
  "valuesize e = run_then (el_size e) (\<lambda>s. run_then (fieldNameSize e) (\<lambda>n. Inr (s - n - 1)))"

section \<open>Values\<close>

definition isNumber :: "BSONType \<Rightarrow> bool" where
  "isNumber t \<longleftrightarrow> t = NumberLong \<or> t = NumberDouble \<or> t = NumberInt"

definition isSimpleType :: "BSONType \<Rightarrow> bool" where
  "isSimpleType t \<longleftrightarrow>
     t \<in> {NumberLong, NumberDouble, NumberInt, StringType, BoolType, DateType, jstOID}"

definition isABSONObj :: "BSONType \<Rightarrow> bool" where
  "isABSONObj t \<longleftrightarrow> t = ObjectType \<or> t = ArrayType"

definition canonicalType :: "BSONType \<Rightarrow> int res" where
  "canonicalType t =
     (case t of
        MinKey \<Rightarrow> Inr (-1) | MaxKey \<Rightarrow> Inr 127
      | EOO \<Rightarrow> Inr 0 | UndefinedType \<Rightarrow> Inr 0
      | jstNULL \<Rightarrow> Inr 5
      | NumberDouble \<Rightarrow> Inr 10 | NumberInt \<Rightarrow> Inr 10 | NumberLong \<Rightarrow> Inr 10
      | StringType \<Rightarrow> Inr 15 | Symbol \<Rightarrow> Inr 15
      | ObjectType \<Rightarrow> Inr 20 | ArrayType \<Rightarrow> Inr 25 | BinData \<Rightarrow> Inr 30 | jstOID \<Rightarrow> Inr 35
      | BoolType \<Rightarrow> Inr 40 | DateType \<Rightarrow> Inr 45 | Timestamp \<Rightarrow> Inr 45
      | RegEx \<Rightarrow> Inr 50 | DBRef \<Rightarrow> Inr 55 | Code \<Rightarrow> Inr 60 | CodeWScope \<Rightarrow> Inr 65
      | BadType n \<Rightarrow> Inl (Throw ''assertion''))"

text \<open>The double nearest to an integer, ties to even.\<close>

definition int_to_double :: "int \<Rightarrow> float64" where
  "int_to_double n =
     (let s = (if n < 0 then 1 else 0); a = nat \<bar>n\<bar>; k = top_bit a
      in if a = 0 then pack64 s 0 0
         else if k \<le> 52 then pack64 s (1023 + k) ((a - 2 ^ k) * 2 ^ (52 - k))
         else word_of_nat (s * 2 ^ 63 + (1023 + k) * 2 ^ 52 + (round_even a (k - 52) - 2 ^ 52)))"

definition el_double :: "BSONElement \<Rightarrow> float64 res" where
  "el_double e = run_then (el_value e) (\<lambda>v. run_then (read_at v 8) (\<lambda>b. Inr (word_of_nat (le_nat b))))"

definition el_int :: "BSONElement \<Rightarrow> int res" where
  "el_int e = run_then (el_value e) (\<lambda>v. int_at v 4)"

definition el_long :: "BSONElement \<Rightarrow> int res" where
  "el_long e = run_then (el_value e) (\<lambda>v. int_at v 8)"

definition numberDouble :: "BSONElement \<Rightarrow> float64 res" where
  "numberDouble e = run_then (el_type e) (\<lambda>t.
     if t = NumberDouble then el_double e
     else if t = NumberInt then run_then (el_int e) (\<lambda>n. Inr (int_to_double n))
     else if t = NumberLong then run_then (el_long e) (\<lambda>n. Inr (int_to_double n))
     else Inr 0)"

definition el_boolean :: "BSONElement \<Rightarrow> bool res" where
  "el_boolean e = run_then (el_value e) (\<lambda>v. run_then (int_at v 1) (\<lambda>n. Inr (n \<noteq> 0)))"

definition trueValue :: "BSONElement \<Rightarrow> bool res" where
  "trueValue e = run_then (el_type e) (\<lambda>t.
     if t = NumberLong then run_then (el_long e) (\<lambda>n. Inr (n \<noteq> 0))
     else if t = NumberDouble then run_then (el_double e) (\<lambda>d. Inr (unat d mod 2 ^ 63 \<noteq> 0))
     else if t = NumberInt then run_then (el_int e) (\<lambda>n. Inr (n \<noteq> 0))
     else if t = BoolType then el_boolean e
     else Inr (t \<noteq> EOO \<and> t \<noteq> jstNULL \<and> t \<noteq> UndefinedType))"

text \<open>\<open>str\<close>: the bytes of a string with the zeros in it, without the one at its end.\<close>

definition el_str :: "BSONElement \<Rightarrow> string res" where
  "el_str e = run_then (el_type e) (\<lambda>t.
     if t = StringType then
       run_then (valuestrsize e) (\<lambda>n. run_then (valuestr e) (\<lambda>p.
         if n < 1 then Inl (Throw ''length_error'') else read_at p (nat (n - 1))))
     else Inr [])"

text \<open>\<open>chk\<close>: the accessors that insist on a type.\<close>

definition chk :: "BSONType \<Rightarrow> BSONElement \<Rightarrow> unit res" where
  "chk t e = run_then (el_type e) (\<lambda>u. if u = t then Inr () else Inl (Throw ''13111''))"

definition el_Double :: "BSONElement \<Rightarrow> float64 res" where
  "el_Double e = run_then (chk NumberDouble e) (\<lambda>_. el_double e)"

section \<open>Objects and their iterator\<close>

text \<open>An object is its bytes, the four of its size first.\<close>

type_synonym BSONObj = string

definition objsize :: "BSONObj \<Rightarrow> int res" where
  "objsize b = int_at (b, 0) 4"

text \<open>A default constructed element points to a zero of its own.\<close>

definition no_element :: BSONElement where
  "no_element = ([NUL], 0)"

text \<open>The positions count from the start of the object; a null pointer is a place outside of it.\<close>

record BSONObjIterator =
  it_pos :: int
  it_theend :: int

definition BSONObjIterator_new :: "BSONObj \<Rightarrow> BSONObjIterator res" where
  "BSONObjIterator_new b =
     run_then (objsize b) (\<lambda>sz.
       if sz = 0 then Inr \<lparr>it_pos = -1, it_theend = -1\<rparr> else Inr \<lparr>it_pos = 4, it_theend = sz - 1\<rparr>)"

definition it_more :: "BSONObjIterator \<Rightarrow> bool" where
  "it_more i \<longleftrightarrow> it_pos i < it_theend i"

definition it_moreWithEOO :: "BSONObjIterator \<Rightarrow> bool" where
  "it_moreWithEOO i \<longleftrightarrow> it_pos i \<le> it_theend i"

definition it_next :: "BSONObj \<Rightarrow> BSONObjIterator \<Rightarrow> (BSONElement \<times> BSONObjIterator) res" where
  "it_next b i =
     (if it_pos i \<le> it_theend i then
        run_then (el_size (b, it_pos i)) (\<lambda>n. Inr ((b, it_pos i), i\<lparr>it_pos := it_pos i + n\<rparr>))
      else Inl (Throw ''assertion''))"

text \<open>
  The loops over an object. In bytes that are no object the sizes may be negative and the loop
  need not end.
\<close>

partial_function (option) find_loop :: "(BSONElement \<Rightarrow> bool res) \<Rightarrow> BSONObj \<Rightarrow> BSONObjIterator \<Rightarrow> BSONElement res option"
where
  "find_loop p b i =
     (if \<not> it_more i then Some (Inr no_element)
      else case it_next b i of
             Inl f \<Rightarrow> Some (Inl f)
           | Inr (e, i') \<Rightarrow>
               (case p e of
                  Inl f \<Rightarrow> Some (Inl f)
                | Inr found \<Rightarrow> if found then Some (Inr e) else find_loop p b i'))"

definition getField_at :: "BSONObj \<Rightarrow> string \<Rightarrow> BSONElement res option" where
  "getField_at b name =
     (case BSONObjIterator_new b of
        Inl f \<Rightarrow> Some (Inl f)
      | Inr i \<Rightarrow> find_loop (\<lambda>e. run_then (fieldName e) (\<lambda>n. Inr (n = c_str name))) b i)"

definition then_element :: "BSONElement res option \<Rightarrow> (BSONElement \<Rightarrow> 'a res) \<Rightarrow> 'a res option" where
  "then_element r k = map_option (\<lambda>e. run_then e k) r"

definition getIntField_at :: "BSONObj \<Rightarrow> string \<Rightarrow> int res option" where
  "getIntField_at b name = then_element (getField_at b name) (\<lambda>e.
     run_then (el_type e) (\<lambda>t.
       if isNumber t then run_then (numberDouble e) double_to_int else Inr INT_MIN32))"

definition getBoolField_at :: "BSONObj \<Rightarrow> string \<Rightarrow> bool res option" where
  "getBoolField_at b name = then_element (getField_at b name) (\<lambda>e.
     run_then (el_type e) (\<lambda>t. if t = BoolType then el_boolean e else Inr False))"

definition getStringField_at :: "BSONObj \<Rightarrow> string \<Rightarrow> string res option" where
  "getStringField_at b name = then_element (getField_at b name) (\<lambda>e.
     run_then (el_type e) (\<lambda>t. if t = StringType then run_then (valuestr e) cstr_at else Inr []))"

definition getObjectID :: "BSONObj \<Rightarrow> BSONElement option res option" where
  "getObjectID b = then_element (getField_at b ''_id'') (\<lambda>f.
     run_then (el_type f) (\<lambda>t. Inr (if t \<noteq> EOO then Some f else None)))"

partial_function (option) elems_loop :: "bool \<Rightarrow> BSONObj \<Rightarrow> BSONObjIterator \<Rightarrow> BSONElement list \<Rightarrow> BSONElement list res option"
where
  "elems_loop with_eoo b i acc =
     (if (if with_eoo then \<not> it_moreWithEOO i else \<not> it_more i) then Some (Inr acc)
      else case it_next b i of
             Inl f \<Rightarrow> Some (Inl f)
           | Inr (e, i') \<Rightarrow>
               (case el_type e of
                  Inl f \<Rightarrow> Some (Inl f)
                | Inr t \<Rightarrow> if with_eoo \<and> t = EOO then Some (Inr acc)
                          else elems_loop with_eoo b i' (acc @ [e])))"

definition elems :: "BSONObj \<Rightarrow> BSONElement list res option" where
  "elems b =
     (case BSONObjIterator_new b of Inl f \<Rightarrow> Some (Inl f) | Inr i \<Rightarrow> elems_loop False b i [])"

definition nFields :: "BSONObj \<Rightarrow> nat res option" where
  "nFields b =
     (case BSONObjIterator_new b of
        Inl f \<Rightarrow> Some (Inl f)
      | Inr i \<Rightarrow> map_option (\<lambda>r. run_then r (\<lambda>es. Inr (length es))) (elems_loop True b i []))"

definition isValid :: "BSONObj \<Rightarrow> bool res" where
  "isValid b = run_then (objsize b) (\<lambda>x. Inr (0 < x \<and> x \<le> 16 * 1024 * 1024 + 16 * 1024))"

end
