(* ===== verification/MongoBuilder.thy ===== *)
theory MongoBuilder
imports MongoElement
begin

text \<open>
  \<open>bson/bsonobjbuilder.h\<close> and \<open>bson/bsonmisc.h\<close>: the builder the data base layer writes its queries
  and documents with. Each \<open>append\<close> puts a type, a name and a value at the end of a buffer; \<open>obj\<close>
  closes the object and writes its size in front.
\<close>

section \<open>The builder\<close>

text \<open>A builder that owns its buffer. The stream's field name is null between two fields.\<close>

record BSONObjBuilder =
  bob_b :: BufBuilder
  bob_offset :: nat
  bob_fieldName :: "string option"
  bob_doneCalled :: bool

type_synonym appends = "BSONObjBuilder \<Rightarrow> BSONObjBuilder res"

definition BSONObjBuilder_new :: "(nat \<Rightarrow> char) \<Rightarrow> nat \<Rightarrow> BSONObjBuilder res" where
  "BSONObjBuilder_new memory initsize =
     run_then (appendNum_int 0 (BufBuilder_new (initsize + 4))) (\<lambda>b.
     run_then (skip memory 4 b) (\<lambda>b.
       Inr \<lparr>bob_b = b, bob_offset = 4, bob_fieldName = None, bob_doneCalled = False\<rparr>))"

text \<open>One piece after the other.\<close>

definition put :: "(BufBuilder \<Rightarrow> BufBuilder res) \<Rightarrow> appends" where
  "put ap b = run_then (ap (bob_b b)) (\<lambda>buf. Inr (b\<lparr>bob_b := buf\<rparr>))"

fun put_all :: "(BufBuilder \<Rightarrow> BufBuilder res) list \<Rightarrow> appends" where
  "put_all [] b = Inr b"
| "put_all (ap # aps) b = run_then (put ap b) (put_all aps)"

abbreviation type_byte :: "BSONType \<Rightarrow> BufBuilder \<Rightarrow> BufBuilder res" where
  "type_byte t \<equiv> appendNum_char (bson_type_value t)"

section \<open>Appending values\<close>

definition append_bool :: "string \<Rightarrow> bool \<Rightarrow> appends" where
  "append_bool f val = put_all [type_byte BoolType, appendStr f, appendNum_char (if val then 1 else 0)]"

definition append_int :: "string \<Rightarrow> int \<Rightarrow> appends" where
  "append_int f n = put_all [type_byte NumberInt, appendStr f, appendNum_int n]"

definition append_long :: "string \<Rightarrow> int \<Rightarrow> appends" where
  "append_long f n = put_all [type_byte NumberLong, appendStr f, appendNum_long n]"

definition appendIntOrLL :: "string \<Rightarrow> int \<Rightarrow> appends" where
  "appendIntOrLL f n b =
     (if n = - (2 ^ 63) then Inl (Undefined ''integer overflow'')
      else if \<bar>n\<bar> < (2 ^ 31 - 1) div 2 then append_int f n b else append_long f n b)"

definition append_double :: "string \<Rightarrow> float64 \<Rightarrow> appends" where
  "append_double f n = put_all [type_byte NumberDouble, appendStr f, appendNum_double n]"

definition appendNumber_long :: "string \<Rightarrow> int \<Rightarrow> appends" where
  "appendNumber_long f n b =
     (if n = - (2 ^ 63) then Inl (Undefined ''integer overflow'')
      else if \<bar>n\<bar> < 2 ^ 30 then append_int f n b
      else if \<bar>n\<bar> < 2 ^ 40 then append_double f (int_to_double n) b
      else append_long f n b)"

definition append_OID :: "string \<Rightarrow> string \<Rightarrow> appends" where
  "append_OID f oid = put_all [type_byte jstOID, appendStr f, appendBuf (take 12 oid)]"

definition genOID :: "string \<Rightarrow> appends" where
  "genOID oid = append_OID ''_id'' oid"

text \<open>The size counts the zero at the end, and the zeros inside are kept.\<close>

definition append_string :: "string \<Rightarrow> string \<Rightarrow> appends" where
  "append_string f str = put_all
     [type_byte StringType, appendStr f, appendNum_int (int (length str) + 1), appendBuf (str @ [NUL])]"

definition append_cstr :: "string \<Rightarrow> string \<Rightarrow> appends" where
  "append_cstr f str = append_string f (c_str str)"

definition appendSymbol :: "string \<Rightarrow> string \<Rightarrow> appends" where
  "appendSymbol f str = put_all
     [type_byte Symbol, appendStr f, appendNum_int (int (length str) + 1), appendStr str]"

definition appendCode :: "string \<Rightarrow> string \<Rightarrow> appends" where
  "appendCode f str = put_all
     [type_byte Code, appendStr f, appendNum_int (int (length str) + 1), appendStr str]"

definition appendDate :: "string \<Rightarrow> int \<Rightarrow> appends" where
  "appendDate f dt = put_all [type_byte DateType, appendStr f, appendNum_long dt]"

definition appendTimeT :: "string \<Rightarrow> int \<Rightarrow> appends" where
  "appendTimeT f dt = put_all [type_byte DateType, appendStr f, appendNum_long (dt * 1000)]"

definition appendTimestamp :: "string \<Rightarrow> int \<Rightarrow> appends" where
  "appendTimestamp f val = put_all [type_byte Timestamp, appendStr f, appendNum_long val]"

definition appendRegex :: "string \<Rightarrow> string \<Rightarrow> string \<Rightarrow> appends" where
  "appendRegex f regex options = put_all [type_byte RegEx, appendStr f, appendStr regex, appendStr options]"

definition appendNull :: "string \<Rightarrow> appends" where
  "appendNull f = put_all [type_byte jstNULL, appendStr f]"

definition appendUndefined :: "string \<Rightarrow> appends" where
  "appendUndefined f = put_all [type_byte UndefinedType, appendStr f]"

definition appendMinKey :: "string \<Rightarrow> appends" where
  "appendMinKey f = put_all [type_byte MinKey, appendStr f]"

definition appendMaxKey :: "string \<Rightarrow> appends" where
  "appendMaxKey f = put_all [type_byte MaxKey, appendStr f]"

definition appendDBRef :: "string \<Rightarrow> string \<Rightarrow> string \<Rightarrow> appends" where
  "appendDBRef f ns oid = put_all
     [type_byte DBRef, appendStr f, appendNum_int (int (length ns) + 1), appendStr ns, appendBuf (take 12 oid)]"

definition appendBinData :: "string \<Rightarrow> int \<Rightarrow> string \<Rightarrow> appends" where
  "appendBinData f kind data = put_all
     [type_byte BinData, appendStr f, appendNum_int (int (length data)), appendNum_char kind, appendBuf data]"

definition appendBinDataArrayDeprecated :: "string \<Rightarrow> string \<Rightarrow> appends" where
  "appendBinDataArrayDeprecated f data = put_all
     [type_byte BinData, appendStr f, appendNum_int (int (length data) + 4), appendNum_char 2,
      appendNum_int (int (length data)), appendBuf data]"

text \<open>The bytes of an object are those its size says.\<close>

definition with_object :: "BSONObj \<Rightarrow> (string \<Rightarrow> appends) \<Rightarrow> appends" where
  "with_object obj ap b =
     run_then (objsize obj) (\<lambda>n.
       if n < 0 then Inl (Undefined ''negative size'')
       else run_then (read_at (obj, 0) (nat n)) (\<lambda>bytes. ap bytes b))"

definition append_object :: "string \<Rightarrow> BSONObj \<Rightarrow> appends" where
  "append_object f obj = with_object obj (\<lambda>bytes. put_all [type_byte ObjectType, appendStr f, appendBuf bytes])"

definition appendArray :: "string \<Rightarrow> BSONObj \<Rightarrow> appends" where
  "appendArray f obj = with_object obj (\<lambda>bytes. put_all [type_byte ArrayType, appendStr f, appendBuf bytes])"

definition appendCodeWScope :: "string \<Rightarrow> string \<Rightarrow> BSONObj \<Rightarrow> appends" where
  "appendCodeWScope f code scope = with_object scope (\<lambda>bytes. put_all
     [type_byte CodeWScope, appendStr f, appendNum_int (4 + 4 + int (length code) + 1 + int (length bytes)),
      appendNum_int (int (length code) + 1), appendStr code, appendBuf bytes])"

definition appendWhere :: "string \<Rightarrow> BSONObj \<Rightarrow> appends" where
  "appendWhere code scope = appendCodeWScope ''$where'' code scope"

text \<open>An element of another object, as it is or under a new name.\<close>

definition read_size :: "pointer_in \<Rightarrow> int \<Rightarrow> string res" where
  "read_size p n = (if n < 0 then Inl (Undefined ''negative size'') else read_at p (nat n))"

definition append_element :: "BSONElement \<Rightarrow> appends" where
  "append_element e b =
     run_then (el_type e) (\<lambda>t.
       if t = EOO then Inl (Throw ''assertion'')
       else run_then (el_size e) (\<lambda>n. run_then (read_size e n) (\<lambda>bytes. put (appendBuf bytes) b)))"

definition appendAs :: "BSONElement \<Rightarrow> string \<Rightarrow> appends" where
  "appendAs e f b =
     run_then (el_type e) (\<lambda>t.
       if t = EOO then Inl (Throw ''assertion'')
       else run_then (el_value e) (\<lambda>v. run_then (valuesize e) (\<lambda>n. run_then (read_size v n) (\<lambda>bytes.
         put_all [type_byte t, appendStr f, appendBuf bytes] b))))"

fun append_elements :: "BSONElement list \<Rightarrow> appends" where
  "append_elements [] b = Inr b"
| "append_elements (e # es) b = run_then (append_element e b) (append_elements es)"

definition appendElements :: "BSONObj \<Rightarrow> BSONObjBuilder \<Rightarrow> BSONObjBuilder res option" where
  "appendElements x b =
     (case BSONObjIterator_new x of
        Inl f \<Rightarrow> Some (Inl f)
      | Inr i \<Rightarrow> map_option (\<lambda>r. run_then r (\<lambda>es. append_elements es b)) (elems_loop True x i []))"

section \<open>Closing the object\<close>

text \<open>\<open>_done\<close>: the end of the object, and its size at its start.\<close>

definition bob_done :: appends where
  "bob_done b =
     (if bob_doneCalled b then Inr b
      else run_then (put (type_byte EOO) (b\<lparr>bob_doneCalled := True, bob_fieldName := None\<rparr>)) (\<lambda>b.
        let bytes = bb_data (bob_b b); off = bob_offset b; size = int (length bytes) - int off
        in Inr (b\<lparr>bob_b := (bob_b b)\<lparr>bb_data := take off bytes @ le_int 4 size @ drop (off + 4) bytes\<rparr>\<rparr>)))"

definition bob_obj :: "BSONObjBuilder \<Rightarrow> BSONObj res" where
  "bob_obj b = run_then (bob_done b) (\<lambda>b. Inr (drop (bob_offset b) (bb_data (bob_b b))))"

text \<open>A chain of calls on a builder, and the object it gives.\<close>

fun append_chain :: "appends list \<Rightarrow> appends" where
  "append_chain [] b = Inr b"
| "append_chain (ap # aps) b = run_then (ap b) (append_chain aps)"

definition built :: "(nat \<Rightarrow> char) \<Rightarrow> nat \<Rightarrow> appends list \<Rightarrow> BSONObj res" where
  "built memory initsize aps =
     run_then (BSONObjBuilder_new memory initsize) (\<lambda>b. run_then (append_chain aps b) bob_obj)"

section \<open>\<open>BSON(\"name\" << value << ...)\<close>\<close>

definition stream_field :: "string \<Rightarrow> appends" where
  "stream_field name b = Inr (b\<lparr>bob_fieldName := Some name\<rparr>)"

definition stream_value :: "(string \<Rightarrow> appends) \<Rightarrow> appends" where
  "stream_value ap b =
     (case bob_fieldName b of
        None \<Rightarrow> Inl (Undefined ''null field name'')
      | Some f \<Rightarrow> run_then (ap (c_str f) b) (\<lambda>b. Inr (b\<lparr>bob_fieldName := None\<rparr>)))"

fun stream_all :: "(string \<times> (string \<Rightarrow> appends)) list \<Rightarrow> appends" where
  "stream_all [] b = Inr b"
| "stream_all ((f, ap) # fs) b =
     run_then (stream_field f b) (\<lambda>b. run_then (stream_value ap b) (stream_all fs))"

definition BSON :: "(nat \<Rightarrow> char) \<Rightarrow> (string \<times> (string \<Rightarrow> appends)) list \<Rightarrow> BSONObj res" where
  "BSON memory fs =
     run_then (BSONObjBuilder_new memory 64) (\<lambda>b. run_then (stream_all fs b) bob_obj)"

end
