(* ===== verification/MongoWire.thy ===== *)
theory MongoWire
imports MongoBuilder
begin

text \<open>
  What the driver writes it reads back. The elements an object is made of, their sizes and their
  readings wherever they stand in it; the loops over an object; and the fields of
  \<open>MongoClient\<close>, of which the bytes that the builder writes are an implementation.
\<close>

section \<open>Reading at a known place\<close>

lemma read_at_app:
  assumes "snd p = int (length pre)" "fst p = pre @ bytes"
  shows "read_at p n = (if n \<le> length bytes then Inr (take n bytes) else Inl (Undefined ''read outside of the object''))"
  using assms by (simp add: read_at_def Let_def)

lemma strlen_at_app:
  assumes "snd p = int (length pre)" "fst p = pre @ s @ NUL # post" "NUL \<notin> set s"
  shows "strlen_at p = Inr (length s)"
proof -
  have "takeWhile (\<lambda>c. c \<noteq> NUL) (s @ NUL # post) = s" using assms(3) by (subst takeWhile_append2) auto
  then show ?thesis using assms by (simp add: strlen_at_def Let_def c_str_def)
qed

lemma cstr_at_app:
  assumes "snd p = int (length pre)" "fst p = pre @ s @ NUL # post" "NUL \<notin> set s"
  shows "cstr_at p = Inr s"
  using strlen_at_app[OF assms] read_at_app[OF assms(1,2)] by (simp add: cstr_at_def)

lemma int_at_app:
  assumes "snd p = int (length pre)" "fst p = pre @ bytes @ post" "length bytes = k"
  shows "int_at p k = Inr (int_le bytes)"
  using read_at_app[OF assms(1,2)] assms(3) by (simp add: int_at_def)

section \<open>Elements in place\<close>

text \<open>An element as it is written: its type, its name and the bytes of its value.\<close>

type_synonym raw = "BSONType \<times> string \<times> string"

definition raw_bytes :: "raw \<Rightarrow> string" where
  "raw_bytes r = (case r of (t, f, v) \<Rightarrow> le_int 1 (bson_type_value t) @ f @ [NUL] @ v)"

text \<open>The bytes of a value that announce their number.\<close>

definition counted :: "int \<Rightarrow> string \<Rightarrow> bool" where
  "counted extra v \<longleftrightarrow> 4 \<le> length v \<and> int_le (take 4 v) + extra = int (length v)"

definition well_sized :: "BSONType \<Rightarrow> string \<Rightarrow> bool" where
  "well_sized t v \<longleftrightarrow>
     (case t of
        UndefinedType \<Rightarrow> v = [] | jstNULL \<Rightarrow> v = [] | MaxKey \<Rightarrow> v = [] | MinKey \<Rightarrow> v = []
      | BoolType \<Rightarrow> length v = 1 | NumberInt \<Rightarrow> length v = 4
      | Timestamp \<Rightarrow> length v = 8 | DateType \<Rightarrow> length v = 8 | NumberDouble \<Rightarrow> length v = 8 | NumberLong \<Rightarrow> length v = 8
      | jstOID \<Rightarrow> length v = 12
      | Symbol \<Rightarrow> counted 4 v | Code \<Rightarrow> counted 4 v | StringType \<Rightarrow> counted 4 v
      | DBRef \<Rightarrow> counted 16 v
      | CodeWScope \<Rightarrow> counted 0 v | ObjectType \<Rightarrow> counted 0 v | ArrayType \<Rightarrow> counted 0 v
      | BinData \<Rightarrow> counted 5 v
      | RegEx \<Rightarrow> (\<exists>p q. v = p @ NUL # q @ [NUL] \<and> NUL \<notin> set p \<and> NUL \<notin> set q)
      | _ \<Rightarrow> False)"

definition raw_ok :: "raw \<Rightarrow> bool" where
  "raw_ok r \<longleftrightarrow> (case r of (t, f, v) \<Rightarrow> NUL \<notin> set f \<and> well_sized t v \<and> length (raw_bytes r) < 2 ^ 31)"

definition at_raw :: "BSONElement \<Rightarrow> raw \<Rightarrow> bool" where
  "at_raw e r \<longleftrightarrow> (\<exists>pre post. fst e = pre @ raw_bytes r @ post \<and> snd e = int (length pre))"

lemma le_int_1: "-128 \<le> n \<Longrightarrow> n \<le> 127 \<Longrightarrow> int_le (le_int 1 n) = n"
  by (rule int_le_le_int) simp_all

lemma bson_type_value_range:
  "well_sized t v \<Longrightarrow> -128 \<le> bson_type_value t \<and> bson_type_value t \<le> 127 \<and> t \<noteq> EOO \<and> (\<forall>n. t \<noteq> BadType n)"
  by (cases t) (simp_all add: well_sized_def)

lemma el_header:
  assumes "at_raw e (t, f, v)" "raw_ok (t, f, v)"
  shows "el_type e = Inr t" "fieldName e = Inr f" "fieldNameSize e = Inr (int (length f) + 1)"
    "\<exists>pre post. el_value e = Inr (pre @ v @ post, int (length pre))"
proof -
  obtain pre post where e: "fst e = pre @ raw_bytes (t, f, v) @ post" "snd e = int (length pre)"
    using assms(1) by (auto simp: at_raw_def)
  let ?b = "le_int 1 (bson_type_value t)"
  note r = bson_type_value_range[of t v]
  have ok: "NUL \<notin> set f" "well_sized t v" using assms(2) by (simp_all add: raw_ok_def)
  have "int_le ?b = bson_type_value t" using r ok(2) by (intro le_int_1) auto
  moreover have "int_at e 1 = Inr (int_le ?b)"
    by (rule int_at_app[OF e(2), of _ "f @ [NUL] @ v @ post"]) (simp_all add: e(1) raw_bytes_def)
  ultimately show t: "el_type e = Inr t"
    using r ok(2) by (simp add: el_type_def bson_type_of_value)
  have p: "snd (plus_ptr e 1) = int (length (pre @ ?b))" "fst (plus_ptr e 1) = (pre @ ?b) @ f @ NUL # v @ post"
    by (simp_all add: plus_ptr_def e raw_bytes_def)
  show "fieldName e = Inr f" using t r ok cstr_at_app[OF p ok(1)] by (simp add: fieldName_def)
  show n: "fieldNameSize e = Inr (int (length f) + 1)"
    using t r ok strlen_at_app[OF p ok(1)] by (simp add: fieldNameSize_def)
  have "fst e = (pre @ ?b @ f @ [NUL]) @ v @ post" "snd e + (int (length f) + 1 + 1) = int (length (pre @ ?b @ f @ [NUL]))"
    by (simp_all add: e raw_bytes_def)
  then show "\<exists>pre post. el_value e = Inr (pre @ v @ post, int (length pre))"
    unfolding el_value_def n plus_ptr_def by (metis run_then_simps(2))
qed

text \<open>A reading at the start of the value.\<close>

lemma value_int:
  assumes "at_raw e (t, f, v)" "raw_ok (t, f, v)" "k \<le> length v"
  shows "run_then (el_value e) (\<lambda>p. int_at p k) = Inr (int_le (take k v))"
    "run_then (el_value e) (\<lambda>p. read_at p k) = Inr (take k v)"
proof -
  obtain pre post where p: "el_value e = Inr (pre @ v @ post, int (length pre))"
    using el_header(4)[OF assms(1,2)] by blast
  have "v @ post = take k v @ drop k v @ post" by simp
  then show "run_then (el_value e) (\<lambda>p. int_at p k) = Inr (int_le (take k v))"
    unfolding p run_then_simps using assms(3)
    by (intro int_at_app[where pre = pre and post = "drop k v @ post"]) simp_all
  show "run_then (el_value e) (\<lambda>p. read_at p k) = Inr (take k v)"
    using assms(3) read_at_app[of "(pre @ v @ post, int (length pre))" pre "v @ post" k] by (simp add: p)
qed

lemma regex_size:
  assumes "at_raw e (t, f, v)" "raw_ok (t, f, v)" "v = p @ NUL # q @ [NUL]" "NUL \<notin> set p" "NUL \<notin> set q"
  shows "run_then (el_value e) (\<lambda>p. run_then (strlen_at p) (\<lambda>len1.
      run_then (strlen_at (plus_ptr p (int len1 + 1))) (\<lambda>len2. int_sum (int len1 + 1 + int len2 + 1))))
    = int_sum (int (length v))"
proof -
  obtain pre post where v: "el_value e = Inr (pre @ v @ post, int (length pre))"
    using el_header(4)[OF assms(1,2)] by blast
  have "strlen_at (pre @ v @ post, int (length pre)) = Inr (length p)"
    using assms(4) by (intro strlen_at_app[where pre = pre and post = "q @ NUL # post"]) (simp_all add: assms(3))
  moreover have "strlen_at (plus_ptr (pre @ v @ post, int (length pre)) (int (length p) + 1)) = Inr (length q)"
    using assms(5) by (intro strlen_at_app[where pre = "pre @ p @ [NUL]" and post = post])
      (simp_all add: assms(3) plus_ptr_def)
  ultimately show ?thesis by (simp add: v assms(3) algebra_simps)
qed

lemma int_sum_nat [simp]: "n < 2 ^ 31 \<Longrightarrow> int_sum (int n) = Inr (int n)"
  by (simp add: int_sum_def INT_MIN32_def)

lemma value_size_at:
  assumes "at_raw e (t, f, v)" "raw_ok (t, f, v)"
  shows "value_size t e = Inr (int (length v))"
proof -
  have ok: "well_sized t v" and len: "length v < 2 ^ 31"
    using assms(2) by (simp_all add: raw_ok_def raw_bytes_def)
  have c: "4 \<le> length v \<Longrightarrow> valuestrsize e = Inr (int_le (take 4 v)) \<and> el_objsize e = Inr (int_le (take 4 v))"
    using value_int(1)[OF assms] by (simp add: valuestrsize_def el_objsize_def)
  have x: "counted n v \<Longrightarrow> int_le (take 4 v) = int (length v) - n" for n by (simp add: counted_def)
  show ?thesis
  proof (cases "t = RegEx")
    case True
    then obtain p q where "v = p @ NUL # q @ [NUL]" "NUL \<notin> set p" "NUL \<notin> set q"
      using ok by (auto simp: well_sized_def)
    from regex_size[OF assms this] show ?thesis using True len by (simp add: value_size_def)
  next
    case False
    then show ?thesis using ok c len x
      by (cases t) (simp_all add: well_sized_def value_size_def counted_def int_sum_def INT_MIN32_def)
  qed
qed

text \<open>An element takes the bytes it was written with.\<close>

lemma el_size_at:
  assumes "at_raw e r" "raw_ok r"
  shows "el_size e = Inr (int (length (raw_bytes r)))"
proof -
  obtain t f v where r: "r = (t, f, v)" by (cases r)
  note h = el_header(1,3)[OF assms(1,2)[unfolded r]] and vs = value_size_at[OF assms(1,2)[unfolded r]]
  have "t \<noteq> EOO" using assms(2) bson_type_value_range by (auto simp: r raw_ok_def)
  moreover have "int (length v) + (int (length f) + 1) + 1 = int (length (raw_bytes r))" by (simp add: r raw_bytes_def)
  moreover have "length (raw_bytes r) < 2 ^ 31" using assms(2) by (simp add: r raw_ok_def)
  ultimately show ?thesis by (simp add: el_size_def h vs del: of_nat_add of_nat_Suc)
qed

section \<open>Objects\<close>

definition obj_bytes :: "raw list \<Rightarrow> BSONObj" where
  "obj_bytes rs = (let body = concat (map raw_bytes rs) in le_int 4 (int (length body) + 5) @ body @ [NUL])"

definition obj_ok :: "raw list \<Rightarrow> bool" where
  "obj_ok rs \<longleftrightarrow> (\<forall>r \<in> set rs. raw_ok r) \<and> length (concat (map raw_bytes rs)) + 5 < 2 ^ 31"

lemma length_obj_bytes [simp]: "length (obj_bytes rs) = length (concat (map raw_bytes rs)) + 5"
  by (simp add: obj_bytes_def Let_def)

lemma objsize_obj_bytes: "obj_ok rs \<Longrightarrow> objsize (obj_bytes rs) = Inr (int (length (obj_bytes rs)))"
  unfolding objsize_def
  by (subst int_at_app[where pre = "[]" and bytes = "le_int 4 (int (length (concat (map raw_bytes rs))) + 5)"
        and post = "concat (map raw_bytes rs) @ [NUL]"])
    (auto simp: obj_bytes_def Let_def obj_ok_def int_le_le_int)

lemma raw_bytes_not_Nil [simp]: "raw_bytes r \<noteq> []"
  by (auto simp: raw_bytes_def split: prod.split)

text \<open>The next element of an iterator that stands before the elements \<open>r # rs\<close>.\<close>

lemma it_next_at:
  assumes "b = pre @ raw_bytes r @ concat (map raw_bytes rs) @ [NUL]" "it_pos i = int (length pre)"
    "it_theend i = int (length b) - 1" "raw_ok r"
  shows "it_next b i = Inr ((b, int (length pre)), i\<lparr>it_pos := int (length (pre @ raw_bytes r))\<rparr>)"
    "it_more i" "at_raw (b, int (length pre)) r"
proof -
  show at: "at_raw (b, int (length pre)) r" by (auto simp: at_raw_def assms(1))
  have "0 < length (raw_bytes r)" by simp
  then show "it_more i" using assms by (simp add: it_more_def del: length_greater_0_conv)
  show "it_next b i = Inr ((b, int (length pre)), i\<lparr>it_pos := int (length (pre @ raw_bytes r))\<rparr>)"
    using el_size_at[OF at assms(4)] assms by (simp add: it_next_def)
qed

lemma find_loop_run:
  assumes "b = pre @ concat (map raw_bytes rs) @ [NUL]" "it_pos i = int (length pre)"
    "it_theend i = int (length b) - 1" "\<forall>r \<in> set rs. raw_ok r"
    and p: "\<And>e r. r \<in> set rs \<Longrightarrow> at_raw e r \<Longrightarrow> p e = Inr (P r)"
  shows "\<exists>e. find_loop p b i = Some (Inr e) \<and>
     (case List.find P rs of None \<Rightarrow> e = no_element | Some r \<Rightarrow> at_raw e r)"
  using assms
proof (induction rs arbitrary: pre i)
  case Nil
  then have "\<not> it_more i" by (simp add: it_more_def)
  then show ?case by (subst find_loop.simps) simp
next
  case (Cons r rs)
  have b: "b = pre @ raw_bytes r @ concat (map raw_bytes rs) @ [NUL]" using Cons.prems(1) by simp
  note n = it_next_at[OF b Cons.prems(2,3)]
  have ok: "raw_ok r" using Cons.prems(4) by simp
  have "p (b, int (length pre)) = Inr (P r)" using Cons.prems(5)[OF _ n(3)[OF ok]] by simp
  moreover have "\<exists>e. find_loop p b (i\<lparr>it_pos := int (length (pre @ raw_bytes r))\<rparr>) = Some (Inr e) \<and>
     (case List.find P rs of None \<Rightarrow> e = no_element | Some r \<Rightarrow> at_raw e r)"
    using Cons.prems by (intro Cons.IH[where pre = "pre @ raw_bytes r"]) simp_all
  ultimately show ?case
    using n(1,2)[OF ok] n(3)[OF ok] by (subst find_loop.simps) auto
qed

section \<open>Integers as doubles\<close>

lemma double_to_int_pack64:
  assumes "s < 2" "k \<le> 52" "2 ^ k \<le> a" "a < 2 ^ Suc k"
  shows "double_to_int (pack64 s (1023 + k) ((a - 2 ^ k) * 2 ^ (52 - k))) =
     (let v = (if s = 0 then int a else - int a)
      in if k < 32 \<and> - (2 ^ 31) \<le> v \<and> v < 2 ^ 31 then Inr v
         else Inl (Undefined ''double out of the range of int''))"
proof -
  have p: "(2 :: nat) ^ k * 2 ^ (52 - k) = 2 ^ 52" using assms(2) by (simp add: power_add[symmetric])
  have m: "(a - 2 ^ k) * 2 ^ (52 - k) + 2 ^ 52 = a * 2 ^ (52 - k)"
    using assms(3) p by (metis add_mult_distrib le_add_diff_inverse2)
  have "a * 2 ^ (52 - k) < 2 ^ Suc k * 2 ^ (52 - k)" using assms(4) by simp
  moreover have "(2 :: nat) ^ Suc k * 2 ^ (52 - k) = 2 ^ 52 + 2 ^ 52" using p by simp
  ultimately have lt: "(a - 2 ^ k) * 2 ^ (52 - k) < 2 ^ 52" using m by linarith
  have e: "1023 + k < 2 ^ 11" using assms(2) by simp
  note f = fields_pack64[OF assms(1) e lt]
  have "a * 2 ^ (52 - k) * 2 ^ k div 2 ^ 52 = a" using p by (simp add: mult.assoc mult.commute[of "2 ^ (52 - k)"])
  then show ?thesis unfolding double_to_int_def f Let_def m by simp
qed

lemma large_int_to_double:
  assumes "52 < k" "k \<le> 63" "q \<le> 2 ^ 53" "2 ^ 52 \<le> q" "s < 2"
  shows "double_to_int (word_of_nat (s * 2 ^ 63 + (1023 + k) * 2 ^ 52 + (q - 2 ^ 52))) =
     Inl (Undefined ''double out of the range of int'')"
proof -
  let ?x = "s * 2 ^ 63 + (1023 + k) * 2 ^ 52 + (q - 2 ^ 52)" and ?w = "word_of_nat (s * 2 ^ 63 + (1023 + k) * 2 ^ 52 + (q - 2 ^ 52)) :: float64"
  have "(1023 + k) * 2 ^ 52 \<le> 1086 * 2 ^ 52" using assms(2) by simp
  moreover have "q - 2 ^ 52 \<le> 2 ^ 52" using assms(3) by simp
  ultimately have y: "(1023 + k) * 2 ^ 52 + (q - 2 ^ 52) \<le> 1087 * 2 ^ 52" by simp
  have "s \<le> 1" using assms(5) by simp
  then have "?x < 2 ^ 64" using y by simp
  then have u: "unat ?w = ?x" by (subst unat_of_nat) (simp del: of_nat_add of_nat_mult)
  have "?x = (s * 2 ^ 11 + (1023 + k) + (q - 2 ^ 52) div 2 ^ 52) * 2 ^ 52 + (q - 2 ^ 52) mod 2 ^ 52"
    by (simp add: add_mult_distrib div_mult_mod_eq[of "q - 2 ^ 52" "2 ^ 52"])
  then have "?x div 2 ^ 52 = s * 2 ^ 11 + ((1023 + k) + (q - 2 ^ 52) div 2 ^ 52)"
    by (simp only:) (subst div_mult_self3, simp_all)
  moreover have "(q - 2 ^ 52) div 2 ^ 52 \<le> 1" using div_le_mono[OF \<open>q - 2 ^ 52 \<le> 2 ^ 52\<close>, of "2 ^ 52"] by simp
  ultimately have "unat ?w div 2 ^ 52 mod 2 ^ 11 = (1023 + k) + (q - 2 ^ 52) div 2 ^ 52"
    using assms(2) unfolding u by simp
  then have "\<not> unat ?w div 2 ^ 52 mod 2 ^ 11 < 1055" using assms(1) by simp
  then show ?thesis unfolding double_to_int_def Let_def by simp
qed

lemma round_even_near: "n div 2 ^ k \<le> round_even n k" "round_even n k \<le> Suc (n div 2 ^ k)"
  by (simp_all add: round_even_def Let_def)

text \<open>The int of the double of an integer is the integer, when it is an int at all.\<close>

lemma double_to_int_of_int:
  assumes "- (2 ^ 63) \<le> n" "n < 2 ^ 63"
  shows "double_to_int (int_to_double n) =
     (if INT_MIN32 \<le> n \<and> n < 2 ^ 31 then Inr n else Inl (Undefined ''double out of the range of int''))"
proof -
  let ?s = "if n < 0 then 1 else 0 :: nat" and ?a = "nat \<bar>n\<bar>"
  let ?k = "top_bit ?a"
  show ?thesis
  proof (cases "?a = 0")
    case True
    then have "n = 0" by simp
    then show ?thesis using fields_pack64[of 0 0 0]
      by (simp add: int_to_double_def double_to_int_def INT_MIN32_def)
  next
    case False
    note b = top_bit_bounds[of ?a]
    have "?a \<le> 2 ^ 63" using assms by (simp add: nat_le_iff)
    moreover have le: "2 ^ ?k \<le> ?a" and gt: "?a < 2 ^ Suc ?k" using b False by auto
    ultimately have "(2 :: nat) ^ ?k \<le> 2 ^ 63" by (meson order_trans)
    then have k: "?k \<le> 63" by (subst (asm) power_increasing_iff) simp_all
    show ?thesis
    proof (cases "?k \<le> 52")
      case True
      have v: "(if ?s = 0 then int ?a else - int ?a) = n" by simp
      have "?k < 32" if "INT_MIN32 \<le> n" "n < 2 ^ 31"
      proof -
        have "?a \<le> 2 ^ 31" using that by (simp add: INT_MIN32_def nat_le_iff)
        then have "(2 :: nat) ^ ?k \<le> 2 ^ 31" using le by (meson order_trans)
        then have "?k \<le> 31" by (subst (asm) power_increasing_iff) simp_all
        then show ?thesis by simp
      qed
      moreover have "int_to_double n = pack64 ?s (1023 + ?k) ((?a - 2 ^ ?k) * 2 ^ (52 - ?k))"
        using True False by (simp add: int_to_double_def Let_def)
      ultimately show ?thesis
        using double_to_int_pack64[of ?s ?k ?a] True b False unfolding v Let_def INT_MIN32_def by auto
    next
      case large: False
      let ?q = "round_even ?a (?k - 52)"
      have p: "(2 :: nat) ^ ?k = 2 ^ 52 * 2 ^ (?k - 52)" "(2 :: nat) ^ Suc ?k = 2 ^ 53 * 2 ^ (?k - 52)"
        using large power_add[of "2 :: nat" 52 "?k - 52"] power_add[of "2 :: nat" 53 "?k - 52"] by simp_all
      have "2 ^ 52 \<le> ?a div 2 ^ (?k - 52)"
        using le unfolding p(1) by (subst less_eq_div_iff_mult_less_eq) simp_all
      moreover have "?a div 2 ^ (?k - 52) < 2 ^ 53"
        using gt unfolding p(2) by (subst div_less_iff_less_mult) simp_all
      ultimately have q: "2 ^ 52 \<le> ?q" "?q \<le> 2 ^ 53"
        using round_even_near[of ?a "?k - 52"] by linarith+
      have "int_to_double n = word_of_nat (?s * 2 ^ 63 + (1023 + ?k) * 2 ^ 52 + (?q - 2 ^ 52))"
        using large False by (simp add: int_to_double_def Let_def)
      moreover have "double_to_int (word_of_nat (?s * 2 ^ 63 + (1023 + ?k) * 2 ^ 52 + (?q - 2 ^ 52))) =
          Inl (Undefined ''double out of the range of int'')"
        using large k q by (intro large_int_to_double) auto
      moreover have "\<not> (INT_MIN32 \<le> n \<and> n < 2 ^ 31)"
      proof
        assume "INT_MIN32 \<le> n \<and> n < 2 ^ 31"
        then have "?a \<le> 2 ^ 31" by (auto simp: INT_MIN32_def nat_le_iff abs_le_iff)
        then have "(2 :: nat) ^ ?k \<le> 2 ^ 31" using le by (meson order_trans)
        then have "?k \<le> 31" by (subst (asm) power_increasing_iff) simp_all
        then show False using large by simp
      qed
      ultimately show ?thesis by simp
    qed
  qed
qed

section \<open>The fields of the abstract documents\<close>

fun enc_value :: "bson \<Rightarrow> BSONType \<times> string" where
  "enc_value (BDouble d) = (NumberDouble, le 8 (unat d))"
| "enc_value (BString s) = (StringType, le_int 4 (int (length s) + 1) @ s @ [NUL])"
| "enc_value (BInt n) = (NumberInt, le_int 4 n)"
| "enc_value (BLong n) = (NumberLong, le_int 8 n)"
| "enc_value (BBool b) = (BoolType, le_int 1 (if b then 1 else 0))"
| "enc_value (BOID oid) = (jstOID, oid)"

fun bson_fits :: "bson \<Rightarrow> bool" where
  "bson_fits (BInt n) \<longleftrightarrow> INT_MIN32 \<le> n \<and> n < 2 ^ 31"
| "bson_fits (BLong n) \<longleftrightarrow> - (2 ^ 63) \<le> n \<and> n < 2 ^ 63"
| "bson_fits (BOID oid) \<longleftrightarrow> length oid = 12"
| "bson_fits _ \<longleftrightarrow> True"

definition raw_of :: "string \<times> bson \<Rightarrow> raw" where
  "raw_of p = (fst (enc_value (snd p)), fst p, snd (enc_value (snd p)))"

text \<open>A document the driver can hold: names without zeros, values of their types, and a size that is an int.\<close>

definition doc_fits :: "bson_obj \<Rightarrow> bool" where
  "doc_fits b \<longleftrightarrow> (\<forall>(f, v) \<in> set b. NUL \<notin> set f \<and> bson_fits v) \<and>
     length (concat (map (raw_bytes \<circ> raw_of) b)) + 5 < 2 ^ 31"

lemma raw_of_sized: "bson_fits v \<Longrightarrow> length (snd (enc_value v)) < 2 ^ 31 \<Longrightarrow> well_sized (fst (enc_value v)) (snd (enc_value v))"
  by (cases v) (auto simp: well_sized_def counted_def int_le_le_int)

lemma doc_fits_ok:
  assumes "doc_fits b"
  shows "obj_ok (map raw_of b)"
proof -
  have len: "length (raw_bytes (raw_of p)) < 2 ^ 31" if "p \<in> set b" for p
  proof -
    have "length (raw_bytes (raw_of p)) \<le> length (concat (map (raw_bytes \<circ> raw_of) b))"
      using that by (induction b) auto
    then show ?thesis using assms by (simp add: doc_fits_def)
  qed
  have "raw_ok (raw_of p)" if "p \<in> set b" for p
  proof -
    obtain f v where p: "p = (f, v)" by (cases p)
    have "NUL \<notin> set f" "bson_fits v" using assms that by (auto simp: doc_fits_def p)
    moreover have "length (snd (enc_value v)) < 2 ^ 31"
      using len[OF that] by (simp add: p raw_of_def raw_bytes_def)
    ultimately show ?thesis using raw_of_sized len[OF that] by (simp add: raw_ok_def raw_of_def p)
  qed
  then show ?thesis using assms by (auto simp: obj_ok_def doc_fits_def)
qed

end
