(* ===== verification/MongoFields.thy ===== *)
theory MongoFields
imports MongoWire
begin

text \<open>
  The fields of \<open>MongoClient\<close> are what the driver reads from the bytes of a document, and the
  bytes are what its builder writes.
\<close>

section \<open>Reading a field\<close>

lemma c_str_app [simp]: "c_str (s @ NUL # post) = c_str s"
  by (induction s) (simp_all add: c_str_def)

lemma c_str_length: "length (c_str s) \<le> length s"
  by (simp add: c_str_def length_takeWhile_le)

lemma take_c_str: "take (length (c_str s)) (s @ post) = c_str s"
  by (induction s) (simp_all add: c_str_def)

lemma cstr_at_prefix:
  assumes "snd p = int (length pre)" "fst p = pre @ s @ NUL # post"
  shows "cstr_at p = Inr (c_str s)"
proof -
  have "strlen_at p = Inr (length (c_str s))" using assms by (simp add: strlen_at_def Let_def)
  moreover have "read_at p (length (c_str s)) = Inr (c_str s)"
    using read_at_app[OF assms, of "length (c_str s)"] c_str_length[of s] take_c_str[of s "NUL # post"] by simp
  ultimately show ?thesis by (simp add: cstr_at_def)
qed

lemma c_str_idem [simp]: "NUL \<notin> set s \<Longrightarrow> c_str s = s"
  unfolding c_str_def by (rule takeWhile_eq_all_conv[THEN iffD2]) auto

lemma find_raw_of:
  "List.find (\<lambda>r. fst (snd r) = name) (map raw_of b) = map_option (\<lambda>v. raw_of (name, v)) (getField b name)"
  by (induction b) (auto simp: raw_of_def getField_def)

lemma getField_mem: "getField b name = Some v \<Longrightarrow> (name, v) \<in> set b"
  by (induction b) (auto split: if_splits)

text \<open>The element found is the first of its name.\<close>

lemma getField_at_obj:
  assumes "doc_fits b" "NUL \<notin> set name"
  shows "\<exists>e. getField_at (obj_bytes (map raw_of b)) name = Some (Inr e) \<and>
     (case getField b name of None \<Rightarrow> e = no_element
      | Some v \<Rightarrow> at_raw e (raw_of (name, v)) \<and> raw_ok (raw_of (name, v)) \<and> bson_fits v)"
proof -
  let ?rs = "map raw_of b" and ?b = "obj_bytes (map raw_of b)"
  have ok: "obj_ok ?rs" by (rule doc_fits_ok[OF assms(1)])
  have "BSONObjIterator_new ?b = Inr \<lparr>it_pos = 4, it_theend = int (length ?b) - 1\<rparr>"
    using objsize_obj_bytes[OF ok] by (simp add: BSONObjIterator_new_def)
  moreover obtain e where
    "find_loop (\<lambda>e. run_then (fieldName e) (\<lambda>n. Inr (n = c_str name))) ?b \<lparr>it_pos = 4, it_theend = int (length ?b) - 1\<rparr> = Some (Inr e)"
    "case List.find (\<lambda>r. fst (snd r) = name) ?rs of None \<Rightarrow> e = no_element | Some r \<Rightarrow> at_raw e r"
  proof -
    have "run_then (fieldName e) (\<lambda>n. Inr (n = c_str name)) = Inr (fst (snd r) = name)"
      if "r \<in> set ?rs" "at_raw e r" for e r
    proof -
      obtain t f v where r: "r = (t, f, v)" by (cases r)
      have "raw_ok r" using ok that(1) unfolding obj_ok_def by blast
      then show ?thesis using el_header(2)[of e t f v] that(2) assms(2) by (simp add: r)
    qed
    note p = this
    have oks: "\<forall>r \<in> set ?rs. raw_ok r" using ok unfolding obj_ok_def by blast
    have b: "?b = le_int 4 (int (length (concat (map raw_bytes ?rs))) + 5) @ concat (map raw_bytes ?rs) @ [NUL]"
      unfolding obj_bytes_def Let_def by (rule refl)
    have "\<exists>e. find_loop (\<lambda>e. run_then (fieldName e) (\<lambda>n. Inr (n = c_str name))) ?b
          \<lparr>it_pos = 4, it_theend = int (length ?b) - 1\<rparr> = Some (Inr e) \<and>
        (case List.find (\<lambda>r. fst (snd r) = name) ?rs of None \<Rightarrow> e = no_element | Some r \<Rightarrow> at_raw e r)"
      by (rule find_loop_run[OF b _ _ oks p]) simp_all
    then show thesis using that by blast
  qed
  moreover have "raw_ok (raw_of (name, v)) \<and> bson_fits v" if "getField b name = Some v" for v
  proof -
    have m: "(name, v) \<in> set b" by (rule getField_mem[OF that])
    then have "raw_of (name, v) \<in> set ?rs" by simp
    then show ?thesis using ok m assms(1) by (auto simp: obj_ok_def doc_fits_def)
  qed
  ultimately show ?thesis by (simp add: getField_at_def find_raw_of split: option.splits)
qed

section \<open>Reading a value\<close>

lemma no_element_type [simp]: "el_type no_element = Inr EOO"
  by (simp add: no_element_def el_type_def int_at_def read_at_def int_le_def Let_def NUL_def bson_type_of_def bson_types_def)

lemma raw_of_value:
  assumes "at_raw e (raw_of (f, v))" "raw_ok (raw_of (f, v))"
  shows "el_type e = Inr (fst (enc_value v))"
    "k \<le> length (snd (enc_value v)) \<Longrightarrow> run_then (el_value e) (\<lambda>p. int_at p k) = Inr (int_le (take k (snd (enc_value v))))"
    "k \<le> length (snd (enc_value v)) \<Longrightarrow> run_then (el_value e) (\<lambda>p. read_at p k) = Inr (take k (snd (enc_value v)))"
  using el_header(1)[of e "fst (enc_value v)" f "snd (enc_value v)"]
    value_int[of e "fst (enc_value v)" f "snd (enc_value v)" k] assms by (simp_all add: raw_of_def)

lemma word_of_le [simp]: "word_of_nat (le_nat (le 8 (unat d))) = (d :: float64)"
proof -
  have "unat d < 256 ^ 8" using unsigned_less[of d] by simp
  then show ?thesis by (simp add: le_nat_le)
qed

lemma el_double_of:
  assumes "at_raw e (raw_of (f, BDouble d))" "raw_ok (raw_of (f, BDouble d))"
  shows "el_double e = Inr d"
proof -
  have "el_double e = run_then (run_then (el_value e) (\<lambda>p. read_at p 8)) (\<lambda>b. Inr (word_of_nat (le_nat b)))"
    by (cases "el_value e") (simp_all add: el_double_def)
  then show ?thesis using raw_of_value(3)[OF assms, of 8] by simp
qed

lemma el_int_of:
  "at_raw e (raw_of (f, BInt n)) \<Longrightarrow> raw_ok (raw_of (f, BInt n)) \<Longrightarrow> bson_fits (BInt n) \<Longrightarrow> el_int e = Inr n"
  using raw_of_value(2)[of e f "BInt n" 4] by (simp add: el_int_def int_le_le_int INT_MIN32_def)

lemma el_long_of:
  "at_raw e (raw_of (f, BLong n)) \<Longrightarrow> raw_ok (raw_of (f, BLong n)) \<Longrightarrow> bson_fits (BLong n) \<Longrightarrow> el_long e = Inr n"
  using raw_of_value(2)[of e f "BLong n" 8] by (simp add: el_long_def int_le_le_int)

lemma el_boolean_of:
  assumes "at_raw e (raw_of (f, BBool b))" "raw_ok (raw_of (f, BBool b))"
  shows "el_boolean e = Inr b"
proof -
  have "el_boolean e = run_then (run_then (el_value e) (\<lambda>p. int_at p 1)) (\<lambda>n. Inr (n \<noteq> 0))"
    by (cases "el_value e") (simp_all add: el_boolean_def)
  then show ?thesis using raw_of_value(2)[OF assms, of 1] le_int_1[of 0] le_int_1[of 1] by simp
qed

lemma valuestr_of:
  assumes "at_raw e (raw_of (f, BString s))" "raw_ok (raw_of (f, BString s))"
  shows "run_then (valuestr e) cstr_at = Inr (c_str s)"
proof -
  let ?n = "le_int 4 (int (length s) + 1)"
  obtain pre post where p: "el_value e = Inr (pre @ (?n @ s @ [NUL]) @ post, int (length pre))"
    using el_header(4)[of e StringType f "?n @ s @ [NUL]"] assms by (auto simp: raw_of_def)
  have "cstr_at (plus_ptr (pre @ (?n @ s @ [NUL]) @ post, int (length pre)) 4) = Inr (c_str s)"
    by (rule cstr_at_prefix[where pre = "pre @ ?n" and post = post]) (simp_all add: plus_ptr_def)
  then show ?thesis by (simp add: valuestr_def p)
qed

lemma double_to_int_long:
  "bson_fits (BLong n) \<Longrightarrow> double_to_int (int_to_double n) =
     (if INT_MIN32 \<le> n \<and> n < 2 ^ 31 then Inr n else Inl (Undefined ''double out of the range of int''))"
  by (rule double_to_int_of_int) simp_all

lemma double_to_int_int: "bson_fits (BInt n) \<Longrightarrow> double_to_int (int_to_double n) = Inr n"
  by (subst double_to_int_of_int) (simp_all add: INT_MIN32_def)

text \<open>A reading of the element found, for every value it may have.\<close>

lemma then_element_of:
  assumes "doc_fits b" "NUL \<notin> set name" "k no_element = g None"
    and "\<And>e v. at_raw e (raw_of (name, v)) \<Longrightarrow> raw_ok (raw_of (name, v)) \<Longrightarrow> bson_fits v \<Longrightarrow> k e = g (Some v)"
  shows "then_element (getField_at (obj_bytes (map raw_of b)) name) k = Some (g (getField b name))"
proof -
  obtain e where "getField_at (obj_bytes (map raw_of b)) name = Some (Inr e)"
    and e: "case getField b name of None \<Rightarrow> e = no_element
      | Some v \<Rightarrow> at_raw e (raw_of (name, v)) \<and> raw_ok (raw_of (name, v)) \<and> bson_fits v"
    using getField_at_obj[OF assms(1,2)] by blast
  then show ?thesis using assms(3,4) by (cases "getField b name") (simp_all add: then_element_def)
qed

lemma getIntField_bytes:
  assumes "doc_fits b" "NUL \<notin> set name"
  shows "getIntField_at (obj_bytes (map raw_of b)) name = Some (getIntField b name)"
  unfolding getIntField_at_def getIntField_def
proof (rule then_element_of[OF assms, where g = "\<lambda>e. case e of Some (BInt n) \<Rightarrow> Inr n | Some (BDouble d) \<Rightarrow> double_to_int d
    | Some (BLong n) \<Rightarrow> if INT_MIN32 \<le> n \<and> n < 2 ^ 31 then Inr n else Inl (Undefined ''double out of the range of int'')
    | _ \<Rightarrow> Inr INT_MIN32"])
  fix e v
  assume e: "at_raw e (raw_of (name, v))" "raw_ok (raw_of (name, v))" "bson_fits v"
  show "run_then (el_type e) (\<lambda>t. if isNumber t then run_then (numberDouble e) double_to_int else Inr INT_MIN32) =
      (case Some v of Some (BInt n) \<Rightarrow> Inr n | Some (BDouble d) \<Rightarrow> double_to_int d
       | Some (BLong n) \<Rightarrow> if INT_MIN32 \<le> n \<and> n < 2 ^ 31 then Inr n else Inl (Undefined ''double out of the range of int'')
       | _ \<Rightarrow> Inr INT_MIN32)"
    using raw_of_value(1)[OF e(1,2)] e el_double_of[of e name] el_int_of[of e name] el_long_of[of e name]
      double_to_int_int double_to_int_long
    by (cases v) (simp_all add: isNumber_def numberDouble_def del: bson_fits.simps)
qed (simp add: isNumber_def)

lemma getBoolField_bytes:
  assumes "doc_fits b" "NUL \<notin> set name"
  shows "getBoolField_at (obj_bytes (map raw_of b)) name = Some (Inr (getBoolField b name))"
  unfolding getBoolField_at_def getBoolField_def
proof (rule then_element_of[OF assms, where g = "\<lambda>e. Inr (case e of Some (BBool v) \<Rightarrow> v | _ \<Rightarrow> False)"])
  fix e v
  assume e: "at_raw e (raw_of (name, v))" "raw_ok (raw_of (name, v))" "bson_fits v"
  show "run_then (el_type e) (\<lambda>t. if t = BoolType then el_boolean e else Inr False) =
      Inr (case Some v of Some (BBool v) \<Rightarrow> v | _ \<Rightarrow> False)"
    using raw_of_value(1)[OF e(1,2)] e el_boolean_of[of e name] by (cases v) simp_all
qed simp

lemma getStringField_bytes:
  assumes "doc_fits b" "NUL \<notin> set name"
  shows "getStringField_at (obj_bytes (map raw_of b)) name = Some (Inr (getStringField b name))"
  unfolding getStringField_at_def getStringField_def
proof (rule then_element_of[OF assms, where g = "\<lambda>e. Inr (case e of Some (BString v) \<Rightarrow> c_str v | _ \<Rightarrow> [])"])
  fix e v
  assume e: "at_raw e (raw_of (name, v))" "raw_ok (raw_of (name, v))" "bson_fits v"
  show "run_then (el_type e) (\<lambda>t. if t = StringType then run_then (valuestr e) cstr_at else Inr []) =
      Inr (case Some v of Some (BString v) \<Rightarrow> c_str v | _ \<Rightarrow> [])"
    using raw_of_value(1)[OF e(1,2)] e valuestr_of[of e name] by (cases v) simp_all
qed simp

lemma Double_bytes:
  assumes "doc_fits b" "NUL \<notin> set name"
  shows "then_element (getField_at (obj_bytes (map raw_of b)) name) el_Double = Some (Double (getField b name))"
proof (rule then_element_of[OF assms, where g = Double])
  fix e v
  assume e: "at_raw e (raw_of (name, v))" "raw_ok (raw_of (name, v))" "bson_fits v"
  show "el_Double e = Double (Some v)"
    using raw_of_value(1)[OF e(1,2)] e el_double_of[of e name] by (cases v) (simp_all add: el_Double_def chk_def Double_def)
qed (simp add: el_Double_def chk_def Double_def)

section \<open>Writing\<close>

text \<open>What puts the given bytes behind those of the buffer, as long as its limit allows.\<close>

definition writes :: "appends \<Rightarrow> string \<Rightarrow> bool" where
  "writes ap w \<longleftrightarrow> (\<forall>b. length (bb_data (bob_b b)) + length w \<le> BufferMaxSize \<longrightarrow>
     (\<exists>b'. ap b = Inr b' \<and> bb_data (bob_b b') = bb_data (bob_b b) @ w \<and> bob_offset b' = bob_offset b \<and>
        bob_doneCalled b' = bob_doneCalled b \<and> bob_fieldName b' = bob_fieldName b))"

lemma writesE:
  assumes "writes ap w" "length (bb_data (bob_b b)) + length w \<le> BufferMaxSize"
  obtains b' where "ap b = Inr b'" "bb_data (bob_b b') = bb_data (bob_b b) @ w" "bob_offset b' = bob_offset b"
    "bob_doneCalled b' = bob_doneCalled b" "bob_fieldName b' = bob_fieldName b"
  using assms unfolding writes_def by blast

lemma writes_put [intro]: "writes (put (appendBuf s)) s"
  unfolding writes_def put_def
proof (intro allI impI)
  fix b :: BSONObjBuilder
  assume "length (bb_data (bob_b b)) + length s \<le> BufferMaxSize"
  from appendBuf_fits[OF this] show "\<exists>b'. run_then (appendBuf s (bob_b b)) (\<lambda>buf. Inr (b\<lparr>bob_b := buf\<rparr>)) = Inr b' \<and>
      bb_data (bob_b b') = bb_data (bob_b b) @ s \<and> bob_offset b' = bob_offset b \<and>
      bob_doneCalled b' = bob_doneCalled b \<and> bob_fieldName b' = bob_fieldName b" by auto
qed

lemma writes_then:
  assumes "writes ap u" "writes ap' w"
  shows "writes (\<lambda>b. run_then (ap b) ap') (u @ w)"
  unfolding writes_def
proof (intro allI impI)
  fix b :: BSONObjBuilder
  assume fits: "length (bb_data (bob_b b)) + length (u @ w) \<le> BufferMaxSize"
  then have "length (bb_data (bob_b b)) + length u \<le> BufferMaxSize" by simp
  from writesE[OF assms(1) this] obtain c where c: "ap b = Inr c" "bb_data (bob_b c) = bb_data (bob_b b) @ u"
    "bob_offset c = bob_offset b" "bob_doneCalled c = bob_doneCalled b" "bob_fieldName c = bob_fieldName b" .
  then have "length (bb_data (bob_b c)) + length w \<le> BufferMaxSize" using fits by simp
  from writesE[OF assms(2) this] obtain d where "ap' c = Inr d" "bb_data (bob_b d) = bb_data (bob_b c) @ w"
    "bob_offset d = bob_offset c" "bob_doneCalled d = bob_doneCalled c" "bob_fieldName d = bob_fieldName c" .
  then show "\<exists>b'. run_then (ap b) ap' = Inr b' \<and> bb_data (bob_b b') = bb_data (bob_b b) @ u @ w \<and>
      bob_offset b' = bob_offset b \<and> bob_doneCalled b' = bob_doneCalled b \<and> bob_fieldName b' = bob_fieldName b"
    using c by simp
qed

lemma writes_Nil [intro]: "writes Inr []"
  by (simp add: writes_def)

lemma writes_put_all: "writes (put_all (map appendBuf ws)) (concat ws)"
proof (induction ws)
  case Nil
  have "put_all [] = Inr" by (rule ext) simp
  then show ?case by (simp add: writes_Nil)
next
  case (Cons w ws)
  have "put_all (map appendBuf (w # ws)) = (\<lambda>b. run_then (put (appendBuf w) b) (put_all (map appendBuf ws)))"
    by (rule ext) simp
  then show ?case using writes_then[OF writes_put Cons.IH, of w] by simp
qed

text \<open>The overload that a value of the model stands for.\<close>

fun append_value :: "string \<Rightarrow> bson \<Rightarrow> appends" where
  "append_value f (BDouble d) = append_double f d"
| "append_value f (BString s) = append_string f s"
| "append_value f (BInt n) = append_int f n"
| "append_value f (BLong n) = append_long f n"
| "append_value f (BBool v) = append_bool f v"
| "append_value f (BOID oid) = append_OID f oid"

lemma append_value_writes:
  assumes "bson_fits v"
  shows "writes (append_value f v) (raw_bytes (raw_of (f, v)))"
proof -
  obtain ws where "append_value f v = put_all (map appendBuf ws)" "concat ws = raw_bytes (raw_of (f, v))"
  proof (rule that)
    let ?t = "le_int 1 (bson_type_value (fst (enc_value v)))" and ?f = "f @ [NUL]"
    let ?ws = "case v of BString s \<Rightarrow> [?t, ?f, le_int 4 (int (length s) + 1), s @ [NUL]] | _ \<Rightarrow> [?t, ?f, snd (enc_value v)]"
    show "append_value f v = put_all (map appendBuf ?ws)"
      using assms by (cases v) (simp_all add: append_double_def append_string_def append_int_def append_long_def
        append_bool_def append_OID_def append_defs[abs_def])
    show "concat ?ws = raw_bytes (raw_of (f, v))"
      by (cases v) (simp_all add: raw_of_def raw_bytes_def)
  qed
  then show ?thesis using writes_put_all[of ws] by simp
qed

section \<open>Documents\<close>

abbreviation stream_of :: "bson_obj \<Rightarrow> (string \<times> (string \<Rightarrow> appends)) list" where
  "stream_of d \<equiv> map (\<lambda>p. (fst p, \<lambda>f. append_value f (snd p))) d"

lemma stream_all_writes:
  assumes "\<forall>(f, v) \<in> set d. NUL \<notin> set f \<and> bson_fits v" "bob_fieldName b = None"
    "length (bb_data (bob_b b)) + length (concat (map (raw_bytes \<circ> raw_of) d)) \<le> BufferMaxSize"
  shows "\<exists>b'. stream_all (stream_of d) b = Inr b' \<and>
     bb_data (bob_b b') = bb_data (bob_b b) @ concat (map (raw_bytes \<circ> raw_of) d) \<and>
     bob_offset b' = bob_offset b \<and> bob_doneCalled b' = bob_doneCalled b \<and> bob_fieldName b' = None"
  using assms
proof (induction d arbitrary: b)
  case (Cons p d)
  obtain f v where p: "p = (f, v)" by (cases p)
  then have fv: "c_str f = f" "bson_fits v" using Cons.prems(1) by auto
  let ?b = "b\<lparr>bob_fieldName := Some f\<rparr>"
  have "length (bb_data (bob_b ?b)) + length (raw_bytes (raw_of (f, v))) \<le> BufferMaxSize"
    using Cons.prems(3) by (simp add: p)
  from writesE[OF append_value_writes[OF fv(2)] this] obtain c where
    c: "append_value f v ?b = Inr c" "bb_data (bob_b c) = bb_data (bob_b ?b) @ raw_bytes (raw_of (f, v))"
    "bob_offset c = bob_offset ?b" "bob_doneCalled c = bob_doneCalled ?b" .
  let ?c = "c\<lparr>bob_fieldName := None\<rparr>"
  have step: "stream_all (stream_of (p # d)) b = stream_all (stream_of d) ?c"
    by (simp add: p stream_field_def stream_value_def fv(1) c(1))
  have "length (bb_data (bob_b ?c)) + length (concat (map (raw_bytes \<circ> raw_of) d)) \<le> BufferMaxSize"
    using Cons.prems(3) c unfolding p list.map concat.simps length_append o_apply by simp
  then have "\<exists>b'. stream_all (stream_of d) ?c = Inr b' \<and>
     bb_data (bob_b b') = bb_data (bob_b ?c) @ concat (map (raw_bytes \<circ> raw_of) d) \<and>
     bob_offset b' = bob_offset ?c \<and> bob_doneCalled b' = bob_doneCalled ?c \<and> bob_fieldName b' = None"
    using Cons.prems(1) by (intro Cons.IH) (auto simp: o_def)
  then show ?case unfolding step using c by (simp add: p o_def)
qed simp

lemma BSONObjBuilder_new_data:
  assumes "4 \<le> initsize"
  shows "\<exists>b. BSONObjBuilder_new memory initsize = Inr b \<and> bb_data (bob_b b) = le_int 4 0 @ map memory [0..<4] \<and>
     bob_offset b = 4 \<and> bob_fieldName b = None \<and> \<not> bob_doneCalled b"
  using assms by (simp add: BSONObjBuilder_new_def BufBuilder_new_def append_defs appendBuf_def grow_def Let_def)

lemma bob_obj_data:
  assumes "bb_data (bob_b b) = pre @ room @ body" "length pre = bob_offset b" "length room = 4" "\<not> bob_doneCalled b"
    "length (bb_data (bob_b b)) + 1 \<le> BufferMaxSize"
  shows "bob_obj b = Inr (le_int 4 (int (length body) + 5) @ body @ [NUL])"
proof -
  let ?b = "b\<lparr>bob_doneCalled := True, bob_fieldName := None\<rparr>"
  have eoo: "type_byte EOO = appendBuf [NUL]"
    by (rule ext) (simp add: append_defs le_int_def NUL_def char_of_def)
  obtain c where c: "put (type_byte EOO) ?b = Inr c" "bb_data (bob_b c) = bb_data (bob_b ?b) @ [NUL]"
    "bob_offset c = bob_offset ?b"
    unfolding eoo by (rule writesE[OF writes_put[of "[NUL]"], where b = ?b]) (use assms(5) in simp_all)
  have "take (bob_offset c) (bb_data (bob_b c)) = pre" "drop (bob_offset c + 4) (bb_data (bob_b c)) = body @ [NUL]"
    using c assms(1-3) by simp_all
  moreover have "int (length (bb_data (bob_b c))) - int (bob_offset c) = int (length body) + 5"
    using c assms(1-3) by simp
  ultimately have "bob_done b = Inr (c\<lparr>bob_b := (bob_b c)\<lparr>bb_data := pre @ le_int 4 (int (length body) + 5) @ body @ [NUL]\<rparr>\<rparr>)"
    using assms(4) c(1) by (simp add: bob_done_def Let_def)
  then show ?thesis using c(3) assms(2) by (simp add: bob_obj_def)
qed

lemma append_chain_writes:
  assumes "list_all2 (\<lambda>ap r. writes ap (raw_bytes r)) aps rs"
  shows "writes (append_chain aps) (concat (map raw_bytes rs))"
  using assms
proof (induction rule: list_all2_induct)
  case Nil
  have "append_chain [] = Inr" by (rule ext) simp
  then show ?case by (simp add: writes_Nil)
next
  case (Cons ap aps r rs)
  have "append_chain (ap # aps) = (\<lambda>b. run_then (ap b) (append_chain aps))" by (rule ext) simp
  then show ?case using writes_then[OF Cons.hyps(1) Cons.IH] by simp
qed

text \<open>The object a chain of calls gives.\<close>

lemma built_bytes:
  assumes "list_all2 (\<lambda>ap r. writes ap (raw_bytes r)) aps rs" "length (obj_bytes rs) + 4 \<le> BufferMaxSize"
    "4 \<le> initsize"
  shows "built memory initsize aps = Inr (obj_bytes rs)"
proof -
  let ?body = "concat (map raw_bytes rs)"
  obtain b where b: "BSONObjBuilder_new memory initsize = Inr b" "bb_data (bob_b b) = le_int 4 0 @ map memory [0..<4]"
    "bob_offset b = 4" "bob_fieldName b = None" "\<not> bob_doneCalled b"
    using BSONObjBuilder_new_data[OF assms(3)] by blast
  then have "length (bb_data (bob_b b)) + length ?body \<le> BufferMaxSize" using assms(2) by simp
  from writesE[OF append_chain_writes[OF assms(1)] this] obtain c where
    c: "append_chain aps b = Inr c" "bb_data (bob_b c) = bb_data (bob_b b) @ ?body"
    "bob_offset c = bob_offset b" "bob_doneCalled c = bob_doneCalled b" by blast
  have "bob_obj c = Inr (le_int 4 (int (length ?body) + 5) @ ?body @ [NUL])"
    by (rule bob_obj_data[where pre = "le_int 4 0" and room = "map memory [0..<4]"]) (use b c assms(2) in simp_all)
  then show ?thesis by (simp add: built_def b(1) c(1) obj_bytes_def Let_def)
qed

text \<open>A document that fits the largest buffer is written.\<close>

definition doc_written :: "bson_obj \<Rightarrow> bool" where
  "doc_written d \<longleftrightarrow> doc_fits d \<and> length (obj_bytes (map raw_of d)) + 4 \<le> BufferMaxSize"

lemma BSON_bytes:
  assumes "doc_written d"
  shows "BSON memory (stream_of d) = Inr (obj_bytes (map raw_of d))"
proof -
  let ?body = "concat (map (raw_bytes \<circ> raw_of) d)"
  have fits: "\<forall>(f, v) \<in> set d. NUL \<notin> set f \<and> bson_fits v" and room: "length ?body + 9 \<le> BufferMaxSize"
    using assms by (auto simp: doc_written_def doc_fits_def)
  obtain b where b: "BSONObjBuilder_new memory 64 = Inr b" "bb_data (bob_b b) = le_int 4 0 @ map memory [0..<4]"
    "bob_offset b = 4" "bob_fieldName b = None" "\<not> bob_doneCalled b"
    using BSONObjBuilder_new_data[of 64 memory] by auto
  then have "length (bb_data (bob_b b)) + length ?body \<le> BufferMaxSize" using room by simp
  from stream_all_writes[OF fits b(4) this] obtain c where
    c: "stream_all (stream_of d) b = Inr c" "bb_data (bob_b c) = bb_data (bob_b b) @ ?body"
    "bob_offset c = bob_offset b" "bob_doneCalled c = bob_doneCalled b" by blast
  have "bob_obj c = Inr (le_int 4 (int (length ?body) + 5) @ ?body @ [NUL])"
    by (rule bob_obj_data[where pre = "le_int 4 0" and room = "map memory [0..<4]"]) (use b c room in simp_all)
  then show ?thesis by (simp add: BSON_def b(1) c(1) obj_bytes_def Let_def)
qed

section \<open>Going over the elements\<close>

lemma raw_ok_not_EOO: "raw_ok r \<Longrightarrow> at_raw e r \<Longrightarrow> \<exists>t. el_type e = Inr t \<and> t \<noteq> EOO"
  using bson_type_value_range el_header(1)[of e] by (cases r) (auto simp: raw_ok_def)

lemma el_type_end:
  assumes "b = pre @ [NUL]"
  shows "el_type (b, int (length pre)) = Inr EOO"
proof -
  have "int_at (b, int (length pre)) 1 = Inr (int_le [NUL])"
    by (rule int_at_app[where pre = pre and post = "[]"]) (simp_all add: assms)
  then show ?thesis by (simp add: el_type_def int_le_def Let_def NUL_def bson_type_of_def bson_types_def)
qed

text \<open>Either loop sees every element once and in order.\<close>

lemma elems_loop_run:
  assumes "b = pre @ concat (map raw_bytes rs) @ [NUL]" "it_pos i = int (length pre)"
    "it_theend i = int (length b) - 1" "\<forall>r \<in> set rs. raw_ok r"
  shows "\<exists>es. elems_loop eoo b i acc = Some (Inr (acc @ es)) \<and> list_all2 at_raw es rs"
  using assms
proof (induction rs arbitrary: pre i acc)
  case Nil
  then have "b = pre @ [NUL]" by simp
  note t = el_type_end[OF this]
  then have "it_next b i = Inr ((b, int (length pre)), i\<lparr>it_pos := int (length pre) + 1\<rparr>)"
    using Nil.prems by (simp add: it_next_def el_size_def)
  then show ?case using t Nil.prems
    by (subst elems_loop.simps) (simp add: it_more_def it_moreWithEOO_def)
next
  case (Cons r rs)
  have b: "b = pre @ raw_bytes r @ concat (map raw_bytes rs) @ [NUL]" using Cons.prems(1) by simp
  have ok: "raw_ok r" using Cons.prems(4) by simp
  note n = it_next_at[OF b Cons.prems(2,3) ok]
  then have m: "it_moreWithEOO i" by (simp add: it_more_def it_moreWithEOO_def)
  obtain t where t: "el_type (b, int (length pre)) = Inr t" "t \<noteq> EOO" using raw_ok_not_EOO[OF ok n(3)] by blast
  let ?i = "i\<lparr>it_pos := int (length (pre @ raw_bytes r))\<rparr>"
  have "\<exists>es. elems_loop eoo b ?i (acc @ [(b, int (length pre))]) = Some (Inr ((acc @ [(b, int (length pre))]) @ es)) \<and>
      list_all2 at_raw es rs"
    using Cons.prems by (intro Cons.IH[where pre = "pre @ raw_bytes r"]) simp_all
  then obtain es where "elems_loop eoo b ?i (acc @ [(b, int (length pre))]) = Some (Inr (acc @ (b, int (length pre)) # es))"
    "list_all2 at_raw es rs" by auto
  then show ?case using n t m
    by (subst elems_loop.simps) (auto intro!: exI[of _ "(b, int (length pre)) # es"])
qed

lemma elems_of_bytes:
  assumes "obj_ok rs"
  shows "\<exists>i es. BSONObjIterator_new (obj_bytes rs) = Inr i \<and>
    elems_loop eoo (obj_bytes rs) i [] = Some (Inr es) \<and> list_all2 at_raw es rs"
proof -
  let ?b = "obj_bytes rs" and ?i = "\<lparr>it_pos = 4, it_theend = int (length (obj_bytes rs)) - 1\<rparr>"
  have oks: "\<forall>r \<in> set rs. raw_ok r" using assms unfolding obj_ok_def by blast
  have b: "?b = le_int 4 (int (length (concat (map raw_bytes rs))) + 5) @ concat (map raw_bytes rs) @ [NUL]"
    unfolding obj_bytes_def Let_def by (rule refl)
  have "\<exists>es. elems_loop eoo ?b ?i [] = Some (Inr ([] @ es)) \<and> list_all2 at_raw es rs"
    by (rule elems_loop_run[OF b _ _ oks]) simp_all
  moreover have "BSONObjIterator_new ?b = Inr ?i"
    using objsize_obj_bytes[OF assms] by (simp add: BSONObjIterator_new_def)
  ultimately show ?thesis by auto
qed

lemma nFields_bytes:
  assumes "obj_ok rs"
  shows "nFields (obj_bytes rs) = Some (Inr (length rs))"
proof -
  obtain i es where "BSONObjIterator_new (obj_bytes rs) = Inr i" "elems_loop True (obj_bytes rs) i [] = Some (Inr es)"
    "list_all2 at_raw es rs" using elems_of_bytes[OF assms] by blast
  then show ?thesis by (simp add: nFields_def list_all2_lengthD)
qed

text \<open>An element of another object is appended as it is there.\<close>

lemma append_element_writes:
  assumes "at_raw e r" "raw_ok r"
  shows "writes (append_element e) (raw_bytes r)"
proof -
  obtain t where t: "el_type e = Inr t" "t \<noteq> EOO" using raw_ok_not_EOO[OF assms(2,1)] by blast
  obtain pre post where e: "fst e = pre @ raw_bytes r @ post" "snd e = int (length pre)"
    using assms(1) by (auto simp: at_raw_def)
  have "append_element e = put (appendBuf (raw_bytes r))"
    using el_size_at[OF assms] read_at_app[OF e(2,1), of "length (raw_bytes r)"] t
    by (intro ext) (simp add: append_element_def read_size_def)
  then show ?thesis using writes_put by simp
qed

lemma append_elements_writes:
  assumes "list_all2 at_raw es rs" "\<forall>r \<in> set rs. raw_ok r"
  shows "writes (append_elements es) (concat (map raw_bytes rs))"
  using assms
proof (induction rule: list_all2_induct)
  case Nil
  have "append_elements [] = Inr" by (rule ext) simp
  then show ?case by (simp add: writes_Nil)
next
  case (Cons e es r rs)
  have "append_elements (e # es) = (\<lambda>b. run_then (append_element e b) (append_elements es))" by (rule ext) simp
  moreover have "raw_ok r" "writes (append_elements es) (concat (map raw_bytes rs))" using Cons by simp_all
  ultimately show ?case using writes_then[OF append_element_writes[OF Cons.hyps(1)]] by simp
qed

text \<open>C17.
  A document streamed into the driver's builder is read back: the object written has as many
  fields as were streamed, and every reading of a field gives what the model's document gives: the
  number cut to an int, the flag, the string up to its first zero and the double that insists on
  its type, of the first field of the name, or their defaults and exception when there is none.
  Any document of well-typed fields that fits the largest buffer can be written.
\<close>

theorem document_round_trip:
  assumes "doc_written d"
  shows "\<exists>bytes. BSON memory (stream_of d) = Inr bytes \<and> nFields bytes = Some (Inr (length d)) \<and>
    (\<forall>name. NUL \<notin> set name \<longrightarrow>
       getIntField_at bytes name = Some (getIntField d name) \<and>
       getBoolField_at bytes name = Some (Inr (getBoolField d name)) \<and>
       getStringField_at bytes name = Some (Inr (getStringField d name)) \<and>
       then_element (getField_at bytes name) el_Double = Some (Double (getField d name)))"
proof -
  have d: "doc_fits d" using assms by (simp add: doc_written_def)
  have "nFields (obj_bytes (map raw_of d)) = Some (Inr (length d))"
    using nFields_bytes[OF doc_fits_ok[OF d]] by simp
  then show ?thesis
    using BSON_bytes[OF assms] getIntField_bytes[OF d] getBoolField_bytes[OF d] getStringField_bytes[OF d] Double_bytes[OF d]
    by blast
qed

lemma document_round_trip_witness:
  "\<exists>bytes. BSON (\<lambda>_. CHR ''x'') (stream_of [(''Name'', BString ''Ann''), (''Money'', BInt (-5))]) = Inr bytes \<and>
     getIntField_at bytes ''Money'' = Some (Inr (-5))"
proof -
  let ?d = "[(''Name'', BString ''Ann''), (''Money'', BInt (-5))]"
  have "doc_written ?d"
    by (simp add: doc_written_def doc_fits_def NUL_def raw_bytes_def raw_of_def INT_MIN32_def BufferMaxSize_def)
  from document_round_trip[OF this, of "\<lambda>_. CHR ''x''"] obtain bytes where
    "BSON (\<lambda>_. CHR ''x'') (stream_of ?d) = Inr bytes"
    "\<forall>name. NUL \<notin> set name \<longrightarrow> getIntField_at bytes name = Some (getIntField ?d name)" by blast
  moreover from this(2)[rule_format, of "''Money''"] have "getIntField_at bytes ''Money'' = Some (Inr (-5))"
    by (simp add: NUL_def getIntField_def)
  ultimately show ?thesis by blast
qed

text \<open>Appending all elements of an object to an empty builder gives that object again, byte for
  byte, whatever types of the driver its elements have.
\<close>

theorem appendElements_copies:
  assumes "obj_ok rs" "length (obj_bytes rs) + 4 \<le> BufferMaxSize"
  shows "\<exists>b b'. BSONObjBuilder_new memory 64 = Inr b \<and> appendElements (obj_bytes rs) b = Some (Inr b') \<and>
    bob_obj b' = Inr (obj_bytes rs)"
proof -
  let ?body = "concat (map raw_bytes rs)"
  obtain b where b: "BSONObjBuilder_new memory 64 = Inr b" "bb_data (bob_b b) = le_int 4 0 @ map memory [0..<4]"
    "bob_offset b = 4" "bob_fieldName b = None" "\<not> bob_doneCalled b"
    using BSONObjBuilder_new_data[of 64 memory] by auto
  obtain i es where es: "BSONObjIterator_new (obj_bytes rs) = Inr i" "elems_loop True (obj_bytes rs) i [] = Some (Inr es)"
    "list_all2 at_raw es rs" using elems_of_bytes[OF assms(1)] by blast
  have "\<forall>r \<in> set rs. raw_ok r" using assms(1) unfolding obj_ok_def by blast
  moreover have "length (bb_data (bob_b b)) + length ?body \<le> BufferMaxSize" using assms(2) b(2) by simp
  ultimately obtain c where c: "append_elements es b = Inr c" "bb_data (bob_b c) = bb_data (bob_b b) @ ?body"
    "bob_offset c = bob_offset b" "bob_doneCalled c = bob_doneCalled b"
    using writesE[OF append_elements_writes[OF es(3)]] by metis
  have "bob_obj c = Inr (le_int 4 (int (length ?body) + 5) @ ?body @ [NUL])"
    by (rule bob_obj_data[where pre = "le_int 4 0" and room = "map memory [0..<4]"]) (use b c assms(2) in simp_all)
  then have "bob_obj c = Inr (obj_bytes rs)" unfolding obj_bytes_def Let_def .
  moreover have "appendElements (obj_bytes rs) b = Some (Inr c)" by (simp add: appendElements_def es(1,2) c(1))
  ultimately show ?thesis using b(1) by blast
qed

lemma appendElements_copies_witness:
  "\<exists>b b'. BSONObjBuilder_new (\<lambda>_. CHR ''x'') 64 = Inr b \<and>
    appendElements (obj_bytes [(jstNULL, ''a'', []), (RegEx, ''b'', ''x.'' @ [NUL] @ ''i'' @ [NUL])]) b = Some (Inr b') \<and>
    bob_obj b' = Inr (obj_bytes [(jstNULL, ''a'', []), (RegEx, ''b'', ''x.'' @ [NUL] @ ''i'' @ [NUL])])"
proof (rule appendElements_copies)
  have "well_sized RegEx (''x.'' @ [NUL] @ ''i'' @ [NUL])"
    unfolding well_sized_def by (simp add: NUL_def) (intro exI[of _ "''x.''"] exI[of _ "''i''"], simp)
  then show "obj_ok [(jstNULL, ''a'', []), (RegEx, ''b'', ''x.'' @ [NUL] @ ''i'' @ [NUL])]"
    by (simp add: obj_ok_def raw_ok_def raw_bytes_def well_sized_def[of jstNULL] NUL_def)
qed (simp add: BufferMaxSize_def raw_bytes_def)

end
