(* ===== verification/MongoOID.thy ===== *)
theory MongoOID
imports MongoBuffer
begin

text \<open>
  Object ids (\<open>bson/oid.h\<close>, \<open>bson/oid.cpp\<close>): twelve bytes, of the seconds and a counter in big endian
  order and the machine between them. The clock, the nonces and the process number are arguments.
\<close>

unbundle bit_operations_syntax

section \<open>The machine and the process\<close>

type_synonym OID = string

type_synonym MachineAndPid = string

definition ourPid :: "nat \<Rightarrow> nat" where
  "ourPid pid = pid mod 2 ^ 16"

definition xor16 :: "string \<Rightarrow> nat \<Rightarrow> string" where
  "xor16 bytes n = le 2 (le_nat bytes XOR (n mod 2 ^ 16))"

text \<open>The process number into the last two bytes, what is above its sixteen bits into the machine's number.\<close>

definition foldInPid :: "nat \<Rightarrow> MachineAndPid \<Rightarrow> MachineAndPid" where
  "foldInPid pid x =
     (let p = ourPid pid
      in take 1 x @ xor16 (take 2 (drop 1 x)) (p div 2 ^ 16) @ xor16 (drop 3 x) p)"

text \<open>\<open>ourMachine\<close> and \<open>ourMachineAndPid\<close>.\<close>

record OIDs =
  ourMachine :: MachineAndPid
  ourMachineAndPid :: MachineAndPid
  oid_inc :: nat
  oid_sequence :: nat

definition genMachineAndPid :: "nat list \<Rightarrow> nat \<Rightarrow> OIDs \<Rightarrow> (MachineAndPid \<times> OIDs) res" where
  "genMachineAndPid nonces pid g =
     (if nonces ! 0 = nonces ! 1 \<and> nonces ! 1 = nonces ! 2 then Inl (Throw ''assertion'')
      else let x = take 5 (le 8 (nonces ! 3)) in Inr (foldInPid pid x, g\<lparr>ourMachine := x\<rparr>))"

definition regenMachineId :: "nat list \<Rightarrow> nat \<Rightarrow> OIDs \<Rightarrow> OIDs res" where
  "regenMachineId nonces pid g =
     run_then (genMachineAndPid nonces pid g) (\<lambda>(x, g). Inr (g\<lparr>ourMachineAndPid := x\<rparr>))"

definition getMachineId :: "OIDs \<Rightarrow> nat" where
  "getMachineId g = le_nat (take 3 (ourMachineAndPid g))"

text \<open>
  The comparison of two objects compares the arrays of their machine numbers, and so their
  addresses: an object differs from every other.
\<close>

definition MachineAndPid_neq :: "nat \<times> MachineAndPid \<Rightarrow> nat \<times> MachineAndPid \<Rightarrow> bool" where
  "MachineAndPid_neq l r \<longleftrightarrow> drop 3 (snd l) \<noteq> drop 3 (snd r) \<or> fst l \<noteq> fst r"

definition justForked :: "nat list \<Rightarrow> nat \<Rightarrow> OIDs \<Rightarrow> OIDs res" where
  "justForked nonces pid g =
     (let x = foldInPid pid (ourMachine g)
      in run_then (genMachineAndPid nonces pid g) (\<lambda>(y, g).
           if MachineAndPid_neq (0, x) (1, y) then Inr (g\<lparr>ourMachineAndPid := x\<rparr>) else Inl (Throw ''assertion'')))"

section \<open>Making ids\<close>

definition be :: "nat \<Rightarrow> nat \<Rightarrow> string" where
  "be k n = rev (le k n)"

definition OID_null :: OID where
  "OID_null = replicate 12 NUL"

definition OID_init :: "nat \<Rightarrow> OIDs \<Rightarrow> OID \<times> OIDs" where
  "OID_init now g =
     (be 4 (now mod 2 ^ 32) @ ourMachineAndPid g @ be 3 (oid_inc g), g\<lparr>oid_inc := (oid_inc g + 1) mod 2 ^ 32\<rparr>)"

definition OID_gen :: "nat \<Rightarrow> OIDs \<Rightarrow> OID \<times> OIDs" where
  "OID_gen = OID_init"

definition OID_initSequential :: "nat \<Rightarrow> OIDs \<Rightarrow> OID \<times> OIDs" where
  "OID_initSequential now g =
     (be 4 (now mod 2 ^ 32) @ be 8 (oid_sequence g), g\<lparr>oid_sequence := (oid_sequence g + 1) mod 2 ^ 64\<rparr>)"

text \<open>From hexadecimal text: the digits are read by pairs.\<close>

fun from_hex_pairs :: "string \<Rightarrow> string res" where
  "from_hex_pairs (hi # lo # cs) = run_then (fromHex hi lo) (\<lambda>c. run_then (from_hex_pairs cs) (\<lambda>r. Inr (c # r)))"
| "from_hex_pairs _ = Inr []"

definition OID_of_string :: "string \<Rightarrow> OID res" where
  "OID_of_string s = (if length s = 24 then from_hex_pairs s else Inl (Throw ''assertion''))"

text \<open>The least and the greatest id of a date.\<close>

definition OID_of_date :: "nat \<Rightarrow> bool \<Rightarrow> OID" where
  "OID_of_date millis max' = be 4 ((millis div 1000) mod 2 ^ 32) @ replicate 8 (if max' then char_of (255 :: nat) else NUL)"

section \<open>Reading ids\<close>

definition asTimeT :: "OID \<Rightarrow> int" where
  "asTimeT oid = int_le (rev (take 4 oid))"

definition asDateT :: "OID \<Rightarrow> int" where
  "asDateT oid = asTimeT oid * 1000 mod 2 ^ 64"

definition OID_str :: "OID \<Rightarrow> string" where
  "OID_str = toHexLower"

text \<open>\<open>memcmp\<close>: only its sign is of use.\<close>

fun memcmp :: "string \<Rightarrow> string \<Rightarrow> int" where
  "memcmp (a # as) (b # bs) =
     (if of_char a < (of_char b :: nat) then -1 else if of_char b < (of_char a :: nat) then 1 else memcmp as bs)"
| "memcmp _ _ = 0"

definition OID_compare :: "OID \<Rightarrow> OID \<Rightarrow> int" where
  "OID_compare l r = memcmp (take 12 l) (take 12 r)"

definition OID_less :: "OID \<Rightarrow> OID \<Rightarrow> bool" where
  "OID_less l r \<longleftrightarrow> OID_compare l r < 0"

definition OID_less_eq :: "OID \<Rightarrow> OID \<Rightarrow> bool" where
  "OID_less_eq l r \<longleftrightarrow> OID_compare l r \<le> 0"

definition OID_eq :: "OID \<Rightarrow> OID \<Rightarrow> bool" where
  "OID_eq l r \<longleftrightarrow> int_le (take 8 l) = int_le (take 8 r) \<and> le_nat (drop 8 l) = le_nat (drop 8 r)"

definition OID_isSet :: "OID \<Rightarrow> bool" where
  "OID_isSet oid \<longleftrightarrow> int_le (take 8 oid) \<noteq> 0 \<or> le_nat (drop 8 oid) \<noteq> 0"

section \<open>Text and order\<close>

lemma length_toHexLower: "length (toHexLower raw) = 2 * length raw"
  by (induction raw) (simp_all add: toHexLower_def)

lemma from_hex_pairs_toHexLower: "from_hex_pairs (toHexLower raw) = Inr raw"
  by (induction raw) (simp_all add: toHexLower_def fromHex_digits)

lemma OID_of_str: "length oid = 12 \<Longrightarrow> OID_of_string (OID_str oid) = Inr oid"
  by (simp add: OID_of_string_def OID_str_def length_toHexLower from_hex_pairs_toHexLower)

lemma length_be [simp]: "length (be k n) = k"
  by (simp add: be_def)

lemma be_Suc: "be (Suc k) n = be k (n div 256) @ [char_of n]"
  by (simp add: be_def)

lemma memcmp_same [simp]: "memcmp (p @ xs) (p @ ys) = memcmp xs ys"
  by (induction p) simp_all

text \<open>Big endian numbers compare as their bytes do.\<close>

lemma memcmp_be: "m < n \<Longrightarrow> n < 256 ^ k \<Longrightarrow> memcmp (be k m @ xs) (be k n @ ys) = -1"
proof (induction k arbitrary: m n xs ys)
  case (Suc k)
  have n: "n div 256 < 256 ^ k" using Suc.prems(2) by (simp add: less_mult_imp_div_less mult.commute)
  show ?case
  proof (cases "m div 256 < n div 256")
    case True
    show ?thesis using Suc.IH[OF True n] by (simp add: be_Suc)
  next
    case False
    then have e: "m div 256 = n div 256" using Suc.prems(1) by (simp add: div_le_mono le_antisym)
    moreover have "m mod 256 < n mod 256"
      using Suc.prems(1) e by (metis div_mult_mod_eq nat_add_left_cancel_less)
    ultimately show ?thesis by (simp add: be_Suc)
  qed
qed simp

lemma le_nat_be: "le_nat (rev (be k n)) = n mod 256 ^ k"
  by (simp add: be_def le_nat_le)

text \<open>The seconds can be read back, and a later id is the greater one.\<close>

lemma asTimeT_init:
  assumes "now < 2 ^ 31"
  shows "asTimeT (fst (OID_init now g)) = int now"
proof -
  have "take 4 (fst (OID_init now g)) = be 4 (now mod 2 ^ 32)" by (simp add: OID_init_def)
  then have "le_nat (rev (take 4 (fst (OID_init now g)))) = now" using assms by (simp add: le_nat_be)
  then show ?thesis using assms by (simp add: asTimeT_def int_le_def OID_init_def)
qed

lemma OID_init_ordered:
  assumes "length (ourMachineAndPid g) = 5" "ourMachineAndPid g' = ourMachineAndPid g" "now' < 2 ^ 32"
    "now < now' \<or> now = now' \<and> oid_inc g < oid_inc g' \<and> oid_inc g' < 2 ^ 24"
  shows "OID_less (fst (OID_init now g)) (fst (OID_init now' g'))"
  using assms memcmp_be[of now now' 4] memcmp_be[of "oid_inc g" "oid_inc g'" 3 "[]" "[]"]
  by (auto simp: OID_less_def OID_compare_def OID_init_def)

lemma mod_add_inj:
  assumes "(c + i) mod m = (c + j) mod m" "i < m" "j < (m :: nat)"
  shows "i = j"
proof (rule ccontr)
  have *: "\<not> a < b" if "(c + a) mod m = (c + b) mod m" "b < m" for a b
  proof
    assume "a < b"
    then have "m dvd (c + b) - (c + a)" using that(1) mod_eq_dvd_iff_nat[of "c + a" "c + b" m] by simp
    then show False using \<open>a < b\<close> that(2) by (auto dest: dvd_imp_le)
  qed
  assume "i \<noteq> j"
  then show False using *[of i j] *[of j i] assms by auto
qed

text \<open>The ids a process makes.\<close>

fun OID_gens :: "nat list \<Rightarrow> OIDs \<Rightarrow> OID list" where
  "OID_gens [] g = []"
| "OID_gens (now # nows) g = fst (OID_gen now g) # OID_gens nows (snd (OID_gen now g))"

lemma OID_gens_inc:
  "map (drop 9) (OID_gens nows g) = map (\<lambda>i. be 3 ((oid_inc g + i) mod 2 ^ 32)) [0..<length nows]"
  if "length (ourMachineAndPid g) = 5" "oid_inc g < 2 ^ 32"
  using that
proof (induction nows arbitrary: g)
  case (Cons now nows)
  let ?g = "g\<lparr>oid_inc := (oid_inc g + 1) mod 2 ^ 32\<rparr>"
  have s: "OID_gen now g = (be 4 (now mod 2 ^ 32) @ ourMachineAndPid g @ be 3 (oid_inc g), ?g)"
    by (simp add: OID_gen_def OID_init_def)
  have "map (drop 9) (OID_gens nows ?g) = map (\<lambda>i. be 3 ((oid_inc ?g + i) mod 2 ^ 32)) [0..<length nows]"
    using Cons.prems by (intro Cons.IH) simp_all
  moreover have "(oid_inc ?g + i) mod 2 ^ 32 = (oid_inc g + Suc i) mod 2 ^ 32" for i
    by (simp add: mod_simps)
  ultimately show ?case using Cons.prems by (simp add: s map_upt_Suc del: upt_Suc)
qed simp

text \<open>The ids a process makes are pairwise different, whatever the clock does, as long as there are
  no more than two to the twenty-fourth of them.
\<close>

theorem ids_distinct:
  assumes "length (ourMachineAndPid g) = 5" "oid_inc g < 2 ^ 32" "length nows \<le> 2 ^ 24"
  shows "distinct (OID_gens nows g)"
proof -
  have "inj_on (\<lambda>i. be 3 ((oid_inc g + i) mod 2 ^ 32)) {0..<length nows}"
  proof (rule inj_onI)
    fix i j
    assume ij: "i \<in> {0..<length nows}" "j \<in> {0..<length nows}"
      and "be 3 ((oid_inc g + i) mod 2 ^ 32) = be 3 ((oid_inc g + j) mod 2 ^ 32)"
    then have "le_nat (rev (be 3 ((oid_inc g + i) mod 2 ^ 32))) = le_nat (rev (be 3 ((oid_inc g + j) mod 2 ^ 32)))" by simp
    then have "(oid_inc g + i) mod 2 ^ 32 mod 2 ^ 24 = (oid_inc g + j) mod 2 ^ 32 mod 2 ^ 24" unfolding le_nat_be by simp
    then have "(oid_inc g + i) mod 2 ^ 24 = (oid_inc g + j) mod 2 ^ 24" by (simp add: mod_mod_cancel)
    moreover have "i < 2 ^ 24" "j < 2 ^ 24" using ij assms(3) by simp_all
    ultimately show "i = j" by (rule mod_add_inj)
  qed
  then have "distinct (map (drop 9) (OID_gens nows g))"
    unfolding OID_gens_inc[OF assms(1,2)] by (simp add: distinct_map)
  then show ?thesis by (simp add: distinct_map)
qed

lemma ids_distinct_witness:
  "distinct (OID_gens [1000, 1000, 1001] \<lparr>ourMachine = ''abcde'', ourMachineAndPid = ''abcde'', oid_inc = 2 ^ 32 - 1, oid_sequence = 0\<rparr>)"
  by (rule ids_distinct) simp_all

end
