(* ===== verification/DataBaseBytes.thy ===== *)
theory DataBaseBytes
imports MongoFields MongoOID MongoServer
begin

text \<open>
  The objects that \<open>DataBase/SDataBaseMongo.cpp\<close> hands to the driver, as the calls on the driver's
  builder it makes, and that their bytes are the documents \<open>SDataBase\<close> has for them.
\<close>

section \<open>The builders of the data base layer\<close>

text \<open>\<open>p.genOID().append("acctid", acctID).append("name", nickName)\<close>, on a builder of the default size.\<close>

definition CreateCharacter_object :: "(nat \<Rightarrow> char) \<Rightarrow> OID \<Rightarrow> int \<Rightarrow> string \<Rightarrow> BSONObj res" where
  "CreateCharacter_object memory oid acctID nickName =
     built memory 512 [genOID oid, append_int ''acctid'' acctID, append_string ''name'' nickName]"

text \<open>\<open>BSON("pos_x" << pPosX << ...)\<close>: a float is appended as a double.\<close>

definition MajPos_object ::
  "(nat \<Rightarrow> char) \<Rightarrow> float32 \<Rightarrow> float32 \<Rightarrow> float32 \<Rightarrow> float32 \<Rightarrow> float32 \<Rightarrow> float32 \<Rightarrow> float32 \<Rightarrow> BSONObj res" where
  "MajPos_object memory pPosX pPosY pPosZ pOW pOX pOY pOZ =
     (let put_float = (\<lambda>x f. append_double f (float_to_double x))
      in BSON memory [(''pos_x'', put_float pPosX), (''pos_y'', put_float pPosY), (''pos_z'', put_float pPosZ),
           (''o_w'', put_float pOW), (''o_x'', put_float pOX), (''o_y'', put_float pOY), (''o_z'', put_float pOZ)])"

section \<open>Their bytes\<close>

definition character_doc :: "OID \<Rightarrow> int \<Rightarrow> string \<Rightarrow> bson_obj" where
  "character_doc oid acctID nickName =
     [(''_id'', BOID oid), (''acctid'', BInt acctID), (''name'', BString nickName)]"

lemma character_doc_written:
  assumes "length oid = 12" "INT_MIN32 \<le> acctID" "acctID < 2 ^ 31" "length nickName + 50 \<le> BufferMaxSize"
  shows "doc_written (character_doc oid acctID nickName)"
  using assms by (simp add: doc_written_def doc_fits_def character_doc_def raw_of_def raw_bytes_def NUL_def BufferMaxSize_def)

lemma CreateCharacter_bytes:
  assumes "doc_written (character_doc oid acctID nickName)"
  shows "CreateCharacter_object memory oid acctID nickName = Inr (obj_bytes (map raw_of (character_doc oid acctID nickName)))"
proof -
  have v: "bson_fits (BOID oid)" "bson_fits (BInt acctID)" "bson_fits (BString nickName)"
    using assms by (simp_all add: doc_written_def doc_fits_def character_doc_def)
  have "list_all2 (\<lambda>ap r. writes ap (raw_bytes r))
     [genOID oid, append_int ''acctid'' acctID, append_string ''name'' nickName] (map raw_of (character_doc oid acctID nickName))"
    using append_value_writes[OF v(1), of "''_id''"] append_value_writes[OF v(2), of "''acctid''"]
      append_value_writes[OF v(3), of "''name''"]
    by (simp add: character_doc_def genOID_def)
  from built_bytes[OF this] show ?thesis using assms by (simp add: CreateCharacter_object_def doc_written_def)
qed

lemma MajPos_bytes:
  "MajPos_object memory x y z w ox oy oz = Inr (obj_bytes (map raw_of (position_doc x y z w ox oy oz)))"
proof -
  let ?d = "position_doc x y z w ox oy oz"
  have "doc_written ?d"
    by (simp add: doc_written_def doc_fits_def position_doc_def raw_of_def raw_bytes_def NUL_def BufferMaxSize_def)
  from BSON_bytes[OF this, of memory] show ?thesis by (simp add: MajPos_object_def position_doc_def)
qed

text \<open>C16.
  The character that \<open>CreateCharacter\<close> inserts is, as bytes, the object its calls on the builder make, with the
  twelve bytes of a new id, for every name that fits the largest buffer: a
  reader of these bytes finds three fields, the number of the account and the name up to its first zero,
  and under id, which \<open>DeleteCharacter\<close> and \<open>GetPlayer\<close> look for, the least int, the sign that there is no such field.
\<close>

theorem created_character_bytes:
  assumes "length (srv_new_oid V (mongo_store M)) = 12" "INT_MIN32 \<le> acctID" "acctID < 2 ^ 31"
    "length nickName + 50 \<le> BufferMaxSize"
  shows "\<exists>bytes. CreateCharacter_object memory (srv_new_oid V (mongo_store M)) acctID nickName = Inr bytes \<and>
     Mongo_CreateCharacter V acctID nickName M =
       request (srv_insert V character (character_doc (srv_new_oid V (mongo_store M)) acctID nickName)) M \<and>
     bytes = obj_bytes (map raw_of (character_doc (srv_new_oid V (mongo_store M)) acctID nickName)) \<and>
     nFields bytes = Some (Inr 3) \<and> getIntField_at bytes ''acctid'' = Some (Inr acctID) \<and>
     getStringField_at bytes ''name'' = Some (Inr (c_str nickName)) \<and>
     getIntField_at bytes ''id'' = Some (Inr INT_MIN32)"
proof -
  let ?d = "character_doc (srv_new_oid V (mongo_store M)) acctID nickName"
  have w: "doc_written ?d" by (rule character_doc_written[OF assms])
  then have d: "doc_fits ?d" by (simp add: doc_written_def)
  have "nFields (obj_bytes (map raw_of ?d)) = Some (Inr 3)"
    using nFields_bytes[OF doc_fits_ok[OF d]] by (simp add: character_doc_def)
  moreover have "Mongo_CreateCharacter V acctID nickName M = request (srv_insert V character ?d) M"
    by (simp add: Mongo_CreateCharacter_def character_doc_def)
  ultimately show ?thesis
    using CreateCharacter_bytes[OF w, of memory] getIntField_bytes[OF d, of "''acctid''"] getIntField_bytes[OF d, of "''id''"]
      getStringField_bytes[OF d, of "''name''"]
    by (simp add: NUL_def getIntField_def getStringField_def character_doc_def)
qed

lemma created_character_bytes_witness:
  "\<exists>bytes. CreateCharacter_object (\<lambda>_. CHR ''x'') ''000000000001'' 42 ''Ann'' = Inr bytes \<and>
     getIntField_at bytes ''acctid'' = Some (Inr 42) \<and> getIntField_at bytes ''id'' = Some (Inr INT_MIN32)"
  using created_character_bytes[of mem_server "DataBaseMongo_new (\<lambda>_. [])" 42 "''Ann''" "\<lambda>_. CHR ''x''"]
  by (auto simp: mem_server_def BufferMaxSize_def INT_MIN32_def)

text \<open>A position travels through the bytes of the driver unchanged: the object that \<open>MajPos\<close> builds from seven
  floats has them under the names \<open>GetPlayerPos\<close> reads, each the float it was unless it is no number.
\<close>

theorem position_bytes:
  assumes "(name, v) \<in> set [(''pos_x'', x), (''pos_y'', y), (''pos_z'', z), (''o_w'', w), (''o_x'', ox), (''o_y'', oy), (''o_z'', oz)]"
    "\<not> f_isnan v"
  shows "\<exists>bytes. MajPos_object memory x y z w ox oy oz = Inr bytes \<and>
     map_option (\<lambda>r. run_then r (\<lambda>d. Inr (double_to_float d))) (then_element (getField_at bytes name) el_Double) = Some (Inr v)"
proof -
  let ?d = "position_doc x y z w ox oy oz"
  have d: "doc_fits ?d" by (simp add: doc_fits_def position_doc_def raw_of_def raw_bytes_def NUL_def)
  have n: "NUL \<notin> set name" using assms(1) by (auto simp: NUL_def)
  have "Double (getField ?d name) = Inr (float_to_double v)" using assms(1) by (auto simp: position_doc_def Double_def)
  then show ?thesis using MajPos_bytes[of memory x y z w ox oy oz] Double_bytes[OF d n] narrow_widen[OF assms(2)] by simp
qed

lemma position_bytes_witness:
  "\<exists>bytes. MajPos_object (\<lambda>_. CHR ''x'') 0x3F800000 0 0 0 0 0 0 = Inr bytes \<and>
     map_option (\<lambda>r. run_then r (\<lambda>d. Inr (double_to_float d))) (then_element (getField_at bytes ''pos_x'') el_Double) =
       Some (Inr 0x3F800000)"
  by (rule position_bytes) (simp_all add: f_isnan_def f_man_def f_exp_def)

end
