(* ===== verification/MongoMessage.thy ===== *)
theory MongoMessage
imports MongoFields
begin

text \<open>
  The messages of the driver: the requests that \<open>client/dbclient.cpp\<close> writes and the readers of
  \<open>db/dbmessage.h\<close>, over \<open>Message\<close> and \<open>MsgData\<close> of \<open>util/net/message.h\<close>, and that the one reads what the
  other wrote.
\<close>

unbundle bit_operations_syntax

section \<open>Messages\<close>

datatype Operations = opReply | dbMsg | dbUpdate | dbInsert | dbQuery | dbGetMore | dbDelete | dbKillCursors

fun op_value :: "Operations \<Rightarrow> int" where
  "op_value opReply = 1"
| "op_value dbMsg = 1000"
| "op_value dbUpdate = 2001"
| "op_value dbInsert = 2002"
| "op_value dbQuery = 2004"
| "op_value dbGetMore = 2005"
| "op_value dbDelete = 2006"
| "op_value dbKillCursors = 2007"

definition all_ops :: "Operations list" where
  "all_ops = [opReply, dbMsg, dbUpdate, dbInsert, dbQuery, dbGetMore, dbDelete, dbKillCursors]"

definition op_of :: "int \<Rightarrow> Operations option" where
  "op_of n = List.find (\<lambda>x. op_value x = n) all_ops"

definition opToString :: "int \<Rightarrow> string res" where
  "opToString n =
     (if n = 0 then Inr ''none''
      else case op_of n of
        Some opReply \<Rightarrow> Inr ''reply'' | Some dbMsg \<Rightarrow> Inr ''msg'' | Some dbUpdate \<Rightarrow> Inr ''update''
      | Some dbInsert \<Rightarrow> Inr ''insert'' | Some dbQuery \<Rightarrow> Inr ''query'' | Some dbGetMore \<Rightarrow> Inr ''getmore''
      | Some dbDelete \<Rightarrow> Inr ''remove'' | Some dbKillCursors \<Rightarrow> Inr ''killcursors''
      | None \<Rightarrow> Inl (Throw ''16141''))"

definition opIsWrite :: "int \<Rightarrow> bool res" where
  "opIsWrite n =
     (if n = 0 then Inr False
      else case op_of n of
        None \<Rightarrow> Inl (Throw ''assertion'')
      | Some x \<Rightarrow> Inr (x \<in> {dbUpdate, dbInsert, dbDelete}))"

record MsgData =
  md_len :: int
  md_id :: int
  md_responseTo :: int
  md_operation :: int
  md_flags :: int
  md_version :: int
  md_data :: string

definition MsgDataHeaderSize :: nat where
  "MsgDataHeaderSize = 16"

definition dataLen :: "MsgData \<Rightarrow> int" where
  "dataLen d = md_len d - int MsgDataHeaderSize"

definition dataAsInt :: "MsgData \<Rightarrow> int res" where
  "dataAsInt d = int_at (md_data d, 0) 4"

definition setOperation :: "int \<Rightarrow> MsgData \<Rightarrow> MsgData" where
  "setOperation n d = d\<lparr>md_flags := 0, md_version := 0, md_operation := n\<rparr>"

definition md_valid :: "MsgData \<Rightarrow> bool" where
  "md_valid d \<longleftrightarrow> \<not> (md_len d \<le> 0 \<or> md_len d > 4 * (16 * 1024 * 1024 + 16 * 1024)) \<and>
     \<not> (md_operation d < 0 \<or> md_operation d > 30000)"

definition getCursor :: "MsgData \<Rightarrow> int res" where
  "getCursor d =
     (if 0 < md_responseTo d \<and> md_operation d = op_value opReply then int_at (md_data d, 4) 8
      else Inl (Throw ''assertion''))"

text \<open>A message of one buffer, or an empty one.\<close>

type_synonym Message = "MsgData option"

text \<open>\<open>malloc\<close> leaves the header as the memory had it.\<close>

definition setData :: "MsgData \<Rightarrow> Operations \<Rightarrow> string \<Rightarrow> Message \<Rightarrow> Message res" where
  "setData memory operation msgdata m =
     (if m \<noteq> None then Inl (Throw ''assertion'')
      else Inr (Some (setOperation (op_value operation)
             (memory\<lparr>md_data := msgdata, md_len := int (length msgdata + MsgDataHeaderSize)\<rparr>))))"

definition header :: "Message \<Rightarrow> MsgData res" where
  "header m = (case m of None \<Rightarrow> Inl (Throw ''assertion'') | Some d \<Rightarrow> Inr d)"

definition singleData :: "Message \<Rightarrow> MsgData res" where
  "singleData m = (case m of None \<Rightarrow> Inl (Throw ''13273'') | Some d \<Rightarrow> Inr d)"

section \<open>Requests\<close>

fun buf_all :: "(BufBuilder \<Rightarrow> BufBuilder res) list \<Rightarrow> BufBuilder \<Rightarrow> BufBuilder res" where
  "buf_all [] b = Inr b"
| "buf_all (ap # aps) b = run_then (ap b) (buf_all aps)"

definition appendSelfToBufBuilder :: "BSONObj \<Rightarrow> BufBuilder \<Rightarrow> BufBuilder res" where
  "appendSelfToBufBuilder obj b =
     run_then (objsize obj) (\<lambda>n.
       if n = 0 then Inl (Throw ''assertion'')
       else run_then (read_size (obj, 0) n) (\<lambda>bytes. appendBuf bytes b))"

text \<open>A request: what goes into a buffer of the default size, as the data of a message.\<close>

definition send_buffer :: "MsgData \<Rightarrow> Operations \<Rightarrow> (BufBuilder \<Rightarrow> BufBuilder res) list \<Rightarrow> Message res" where
  "send_buffer memory operation aps =
     run_then (buf_all aps (BufBuilder_new 512)) (\<lambda>b. setData memory operation (bb_data b) None)"

definition InsertOption_ContinueOnError :: int where "InsertOption_ContinueOnError = 1"
definition WriteOption_FromWriteback :: int where "WriteOption_FromWriteback = - (2 ^ 31)"
definition Reserved_InsertOption_ContinueOnError :: int where "Reserved_InsertOption_ContinueOnError = 1"
definition Reserved_FromWriteback :: int where "Reserved_FromWriteback = 2"
definition UpdateOption_Upsert :: int where "UpdateOption_Upsert = 1"
definition UpdateOption_Multi :: int where "UpdateOption_Multi = 2"
definition RemoveOption_JustOne :: int where "RemoveOption_JustOne = 1"

abbreviation has_flag :: "int \<Rightarrow> int \<Rightarrow> bool" where
  "has_flag flags f \<equiv> flags AND f \<noteq> 0"

definition insert_message :: "MsgData \<Rightarrow> string \<Rightarrow> BSONObj \<Rightarrow> int \<Rightarrow> Message res" where
  "insert_message memory ns obj flags =
     (let r1 = (if has_flag flags InsertOption_ContinueOnError then 0 OR Reserved_InsertOption_ContinueOnError else 0);
          r2 = (if has_flag flags WriteOption_FromWriteback then r1 OR Reserved_FromWriteback else r1)
      in send_buffer memory dbInsert [appendNum_int r2, appendStr ns, appendSelfToBufBuilder obj])"

definition insert_all_message :: "MsgData \<Rightarrow> string \<Rightarrow> BSONObj list \<Rightarrow> int \<Rightarrow> Message res" where
  "insert_all_message memory ns v flags =
     (let r1 = (if has_flag flags InsertOption_ContinueOnError then 0 OR Reserved_InsertOption_ContinueOnError else 0);
          r2 = (if has_flag flags WriteOption_FromWriteback then r1 OR Reserved_FromWriteback else r1)
      in send_buffer memory dbInsert ([appendNum_int r2, appendStr ns] @ map appendSelfToBufBuilder v))"

text \<open>\<open>remove\<close> puts the option of the flags into the reserved field, where the reader knows another bit.\<close>

definition remove_message :: "MsgData \<Rightarrow> string \<Rightarrow> BSONObj \<Rightarrow> int \<Rightarrow> Message res" where
  "remove_message memory ns obj flags =
     (let back = has_flag flags WriteOption_FromWriteback;
          reservedFlags = (if back then 0 OR WriteOption_FromWriteback else 0);
          flags' = (if back then flags XOR WriteOption_FromWriteback else flags)
      in send_buffer memory dbDelete
           [appendNum_int reservedFlags, appendStr ns, appendNum_int flags', appendSelfToBufBuilder obj])"

definition remove_one_message :: "MsgData \<Rightarrow> string \<Rightarrow> BSONObj \<Rightarrow> bool \<Rightarrow> Message res" where
  "remove_one_message memory ns obj justOne =
     remove_message memory ns obj (if justOne then 0 OR RemoveOption_JustOne else 0)"

definition update_message :: "MsgData \<Rightarrow> string \<Rightarrow> BSONObj \<Rightarrow> BSONObj \<Rightarrow> int \<Rightarrow> Message res" where
  "update_message memory ns q obj flags =
     (let back = has_flag flags WriteOption_FromWriteback;
          reservedFlags = (if back then 0 OR Reserved_FromWriteback else 0);
          flags' = (if back then flags XOR WriteOption_FromWriteback else flags)
      in send_buffer memory dbUpdate
           [appendNum_int reservedFlags, appendStr ns, appendNum_int flags',
            appendSelfToBufBuilder q, appendSelfToBufBuilder obj])"

definition update_one_message :: "MsgData \<Rightarrow> string \<Rightarrow> BSONObj \<Rightarrow> BSONObj \<Rightarrow> bool \<Rightarrow> bool \<Rightarrow> Message res" where
  "update_one_message memory ns q obj upsert multi =
     (let f1 = (if upsert then 0 OR UpdateOption_Upsert else 0);
          f2 = (if multi then f1 OR UpdateOption_Multi else f1)
      in update_message memory ns q obj f2)"

definition assembleRequest ::
  "MsgData \<Rightarrow> string \<Rightarrow> BSONObj \<Rightarrow> int \<Rightarrow> int \<Rightarrow> BSONObj option \<Rightarrow> int \<Rightarrow> Message res" where
  "assembleRequest memory ns q nToReturn nToSkip fieldsToReturn queryOptions =
     send_buffer memory dbQuery
       ([appendNum_int queryOptions, appendStr ns, appendNum_int nToSkip, appendNum_int nToReturn,
         appendSelfToBufBuilder q] @
        (case fieldsToReturn of None \<Rightarrow> [] | Some f \<Rightarrow> [appendSelfToBufBuilder f]))"

definition killCursor_message :: "MsgData \<Rightarrow> int \<Rightarrow> Message res" where
  "killCursor_message memory cursorId =
     send_buffer memory dbKillCursors [appendNum_int 0, appendNum_int 1, appendNum_long cursorId]"

section \<open>Reading a request\<close>

text \<open>The positions count from the data of the message; the next object may be null.\<close>

record DbMessage =
  dm_bytes :: string
  dm_theEnd :: int
  dm_nextjsobj :: "int option"
  dm_mark :: "int option"

definition DbMessage_new :: "Message \<Rightarrow> DbMessage res" where
  "DbMessage_new m =
     run_then (singleData m) (\<lambda>d.
       Inr \<lparr>dm_bytes = md_data d, dm_theEnd = dataLen d, dm_nextjsobj = Some 4, dm_mark = None\<rparr>)"

definition reservedField :: "DbMessage \<Rightarrow> int res" where
  "reservedField d = int_at (dm_bytes d, 0) 4"

definition getns :: "DbMessage \<Rightarrow> string res" where
  "getns d = cstr_at (dm_bytes d, 4)"

definition afterNS :: "DbMessage \<Rightarrow> pointer_in res" where
  "afterNS d = run_then (strlen_at (dm_bytes d, 4)) (\<lambda>n. Inr (dm_bytes d, 4 + int n + 1))"

definition getInt :: "int \<Rightarrow> DbMessage \<Rightarrow> int res" where
  "getInt num d = run_then (afterNS d) (\<lambda>p. int_at (plus_ptr p (4 * num)) 4)"

definition getQueryNToReturn :: "DbMessage \<Rightarrow> int res" where
  "getQueryNToReturn = getInt 1"

definition getInt64 :: "int \<Rightarrow> DbMessage \<Rightarrow> int res" where
  "getInt64 offsetBytes d = run_then (afterNS d) (\<lambda>p. int_at (plus_ptr p offsetBytes) 8)"

definition null_object :: fault where
  "null_object = Undefined ''null pointer''"

text \<open>Where the next pull starts: the first one skips the name of the collection.\<close>

definition pull_from :: "DbMessage \<Rightarrow> pointer_in res" where
  "pull_from d =
     (case dm_nextjsobj d of
        None \<Rightarrow> Inl null_object
      | Some p \<Rightarrow> if p = 4 then afterNS d else Inr (dm_bytes d, p))"

definition pull :: "nat \<Rightarrow> DbMessage \<Rightarrow> (int \<times> DbMessage) res" where
  "pull k d =
     run_then (pull_from d) (\<lambda>p. run_then (int_at p k) (\<lambda>n.
       Inr (n, d\<lparr>dm_nextjsobj := Some (snd p + int k)\<rparr>)))"

definition pullInt :: "DbMessage \<Rightarrow> (int \<times> DbMessage) res" where
  "pullInt = pull 4"

definition resetPull :: "DbMessage \<Rightarrow> DbMessage" where
  "resetPull d = d\<lparr>dm_nextjsobj := Some 4\<rparr>"

definition moreJSObjs :: "DbMessage \<Rightarrow> bool" where
  "moreJSObjs d \<longleftrightarrow> dm_nextjsobj d \<noteq> None"

text \<open>\<open>BSONObj js(p)\<close>: the object starts there, and its size has to be one.\<close>

definition BSONObj_at :: "pointer_in \<Rightarrow> BSONObj res" where
  "BSONObj_at p =
     run_then (int_at p 4) (\<lambda>n.
       if 0 < n \<and> n \<le> 16 * 1024 * 1024 + 16 * 1024 then Inr (take (nat n) (drop (nat (snd p)) (fst p)))
       else Inl (Throw ''10334''))"

text \<open>
  \<open>nextJsObj\<close>, without \<open>--objcheck\<close>. When the first object is read the bytes have to go beyond the
  name. The size is compared with the whole message, not with what is left of it.
\<close>

definition nextJsObj :: "DbMessage \<Rightarrow> (BSONObj \<times> DbMessage) res" where
  "nextJsObj d =
     run_then (pull_from d) (\<lambda>p.
       if dm_nextjsobj d = Some 4 \<and> \<not> snd p < dm_theEnd d then Inl (Throw ''13066'')
       else if \<not> 3 < dm_theEnd d - snd p then Inl (Throw ''10304'')
       else run_then (BSONObj_at p) (\<lambda>js. run_then (int_at p 4) (\<lambda>size.
         if \<not> 3 < size then Inl (Throw ''10305'')
         else if \<not> size < dm_theEnd d - 4 then Inl (Throw ''10306'')
         else let q = snd p + size
              in Inr (js, d\<lparr>dm_nextjsobj := (if dm_theEnd d \<le> q then None else Some q)\<rparr>))))"

definition markSet :: "DbMessage \<Rightarrow> DbMessage" where
  "markSet d = d\<lparr>dm_mark := dm_nextjsobj d\<rparr>"

definition markReset :: "DbMessage \<Rightarrow> DbMessage res" where
  "markReset d =
     (case dm_mark d of
        None \<Rightarrow> Inl (Throw ''assertion'')
      | Some m \<Rightarrow> Inr (d\<lparr>dm_nextjsobj := Some m\<rparr>))"

record QueryMessage =
  qm_ns :: string
  qm_ntoskip :: int
  qm_ntoreturn :: int
  qm_queryOptions :: int
  qm_query :: BSONObj
  qm_fields :: BSONObj

text \<open>\<open>fields\<close> is the empty object unless the message has a second one.\<close>

definition empty_obj :: BSONObj where
  "empty_obj = le_int 4 5 @ [NUL]"

definition QueryMessage_new :: "DbMessage \<Rightarrow> QueryMessage res" where
  "QueryMessage_new d =
     run_then (getns d) (\<lambda>ns.
     run_then (pullInt d) (\<lambda>(ntoskip, d).
     run_then (pullInt d) (\<lambda>(ntoreturn, d).
     run_then (nextJsObj d) (\<lambda>(q, d).
     run_then (if moreJSObjs d then nextJsObj d else Inr (empty_obj, d)) (\<lambda>(fields, d).
     run_then (int_at (dm_bytes d, 0) 4) (\<lambda>queryOptions.
       Inr \<lparr>qm_ns = ns, qm_ntoskip = ntoskip, qm_ntoreturn = ntoreturn, qm_queryOptions = queryOptions,
            qm_query = q, qm_fields = fields\<rparr>))))))"

section \<open>Writing into a buffer\<close>

definition buf_writes :: "(BufBuilder \<Rightarrow> BufBuilder res) \<Rightarrow> string \<Rightarrow> bool" where
  "buf_writes ap w \<longleftrightarrow> (\<forall>b. length (bb_data b) + length w \<le> BufferMaxSize \<longrightarrow>
     (\<exists>b'. ap b = Inr b' \<and> bb_data b' = bb_data b @ w))"

lemma buf_writesE:
  assumes "buf_writes ap w" "length (bb_data b) + length w \<le> BufferMaxSize"
  obtains b' where "ap b = Inr b'" "bb_data b' = bb_data b @ w"
  using assms unfolding buf_writes_def by blast

lemma buf_writes_append:
  "buf_writes (appendBuf w) w" "buf_writes (appendNum_int n) (le_int 4 n)"
  "buf_writes (appendNum_long n) (le_int 8 n)" "buf_writes (appendStr s) (s @ [NUL])"
  using appendBuf_fits by (simp_all add: buf_writes_def append_defs)

lemma buf_all_writes:
  assumes "list_all2 buf_writes aps ws" "length (bb_data b) + length (concat ws) \<le> BufferMaxSize"
  shows "\<exists>b'. buf_all aps b = Inr b' \<and> bb_data b' = bb_data b @ concat ws"
  using assms
proof (induction arbitrary: b rule: list_all2_induct)
  case (Cons ap aps w ws)
  have "length (bb_data b) + length w \<le> BufferMaxSize" using Cons.prems by simp
  from buf_writesE[OF Cons.hyps(1) this] obtain c where c: "ap b = Inr c" "bb_data c = bb_data b @ w" .
  then have "length (bb_data c) + length (concat ws) \<le> BufferMaxSize" using Cons.prems by simp
  from Cons.IH[OF this] show ?case using c by simp
qed simp

lemma send_buffer_data:
  assumes "list_all2 buf_writes aps ws" "length (concat ws) \<le> BufferMaxSize"
  shows "\<exists>m. send_buffer memory operation aps = Inr (Some m) \<and> md_data m = concat ws \<and>
     dataLen m = int (length (concat ws)) \<and> md_operation m = op_value operation"
  using buf_all_writes[OF assms(1), of "BufBuilder_new 512"] assms(2)
  by (auto simp: send_buffer_def setData_def setOperation_def BufBuilder_new_def dataLen_def)

text \<open>An object that is as long as it says, within the size of a document.\<close>

definition whole_obj :: "BSONObj \<Rightarrow> bool" where
  "whole_obj b \<longleftrightarrow> objsize b = Inr (int (length b)) \<and> 5 \<le> length b \<and> length b \<le> 16 * 1024 * 1024 + 16 * 1024"

lemma whole_obj_bytes: "obj_ok rs \<Longrightarrow> length (obj_bytes rs) \<le> 16 * 1024 * 1024 + 16 * 1024 \<Longrightarrow> whole_obj (obj_bytes rs)"
  using objsize_obj_bytes[of rs] by (simp add: whole_obj_def)

lemma buf_writes_obj:
  assumes "whole_obj obj"
  shows "buf_writes (appendSelfToBufBuilder obj) obj"
proof -
  have "appendSelfToBufBuilder obj = appendBuf obj"
    using assms by (intro ext) (auto simp: appendSelfToBufBuilder_def whole_obj_def read_size_def read_at_def Let_def)
  then show ?thesis by (simp add: buf_writes_append)
qed

section \<open>Reading what was written\<close>

text \<open>A reader that has the bytes \<open>rest\<close> before it.\<close>

definition at_rest :: "DbMessage \<Rightarrow> string \<Rightarrow> string \<Rightarrow> bool" where
  "at_rest d pre rest \<longleftrightarrow> dm_bytes d = pre @ rest \<and> dm_theEnd d = int (length (pre @ rest)) \<and>
     pull_from d = Inr (dm_bytes d, int (length pre)) \<and> 5 \<le> length pre"

lemma DbMessage_start:
  assumes "md_data m = le_int 4 r @ ns @ NUL # rest" "dataLen m = int (length (md_data m))" "NUL \<notin> set ns"
  shows "\<exists>d. DbMessage_new (Some m) = Inr d \<and> getns d = Inr ns \<and> dm_bytes d = md_data m \<and> moreJSObjs d \<and>
     at_rest d (le_int 4 r @ ns @ [NUL]) rest"
proof -
  have p: "snd (md_data m, 4 :: int) = int (length (le_int 4 r))" "fst (md_data m, 4 :: int) = le_int 4 r @ ns @ NUL # rest"
    using assms(1) by simp_all
  show ?thesis
    using cstr_at_app[OF p assms(3)] strlen_at_app[OF p assms(3)] assms(1,2)
    by (simp add: DbMessage_new_def singleData_def getns_def at_rest_def pull_from_def afterNS_def moreJSObjs_def algebra_simps)
qed

lemma pullInt_rest:
  assumes "at_rest d pre (le_int 4 n @ rest)" "INT_MIN32 \<le> n" "n < 2 ^ 31"
  shows "\<exists>d'. pullInt d = Inr (n, d') \<and> dm_bytes d' = dm_bytes d \<and> moreJSObjs d' \<and> at_rest d' (pre @ le_int 4 n) rest"
proof -
  have "int_at (dm_bytes d, int (length pre)) 4 = Inr (int_le (le_int 4 n))"
    by (rule int_at_app[where pre = pre and post = rest]) (use assms(1) in \<open>simp_all add: at_rest_def\<close>)
  moreover have "int_le (le_int 4 n) = n" using assms(2,3) by (intro int_le_le_int) (simp_all add: INT_MIN32_def)
  ultimately show ?thesis
    using assms(1) by (cases pre) (simp_all add: pullInt_def pull_def at_rest_def pull_from_def moreJSObjs_def)
qed

lemma BSONObj_at_rest:
  assumes "whole_obj obj"
  shows "int_at (pre @ obj @ rest, int (length pre)) 4 = Inr (int (length obj))"
    "BSONObj_at (pre @ obj @ rest, int (length pre)) = Inr obj"
proof -
  have n: "objsize obj = Inr (int (length obj))" "5 \<le> length obj" using assms by (simp_all add: whole_obj_def)
  then have "int_le (take 4 obj) = int (length obj)" by (simp add: objsize_def int_at_def read_at_def Let_def)
  moreover have "int_at (pre @ obj @ rest, int (length pre)) 4 = Inr (int_le (take 4 obj))"
    by (rule int_at_app[where pre = pre and post = "drop 4 obj @ rest"]) (use n(2) in simp_all)
  ultimately show i: "int_at (pre @ obj @ rest, int (length pre)) 4 = Inr (int (length obj))" by simp
  show "BSONObj_at (pre @ obj @ rest, int (length pre)) = Inr obj"
    using assms by (auto simp: BSONObj_at_def i whole_obj_def)
qed

lemma nextJsObj_rest:
  assumes "at_rest d pre (obj @ rest)" "whole_obj obj"
  shows "\<exists>d'. nextJsObj d = Inr (obj, d') \<and> dm_bytes d' = dm_bytes d \<and> (moreJSObjs d' \<longleftrightarrow> rest \<noteq> []) \<and>
     (rest \<noteq> [] \<longrightarrow> at_rest d' (pre @ obj) rest)"
proof -
  note o = BSONObj_at_rest[OF assms(2), of pre rest]
  have "5 \<le> length obj" "length obj \<le> 16 * 1024 * 1024 + 16 * 1024" using assms(2) by (simp_all add: whole_obj_def)
  then show ?thesis using assms(1) o
    by (auto simp: nextJsObj_def at_rest_def Let_def moreJSObjs_def pull_from_def)
qed

section \<open>The requests\<close>

lemma insert_message_bytes:
  assumes "whole_obj obj" "length ns + length obj + 5 \<le> BufferMaxSize"
  shows "\<exists>m. insert_message memory ns obj 0 = Inr (Some m) \<and> md_data m = le_int 4 0 @ ns @ NUL # obj \<and>
    dataLen m = int (length (md_data m)) \<and> md_operation m = op_value dbInsert"
proof -
  have "list_all2 buf_writes [appendNum_int 0, appendStr ns, appendSelfToBufBuilder obj] [le_int 4 0, ns @ [NUL], obj]"
    using buf_writes_obj[OF assms(1)] by (simp add: buf_writes_append)
  from send_buffer_data[OF this, of memory dbInsert] show ?thesis
    using assms(2) by (auto simp: insert_message_def)
qed

lemma remove_message_bytes:
  assumes "whole_obj q" "length ns + length q + 9 \<le> BufferMaxSize"
  shows "\<exists>m. remove_one_message memory ns q justOne = Inr (Some m) \<and>
    md_data m = le_int 4 0 @ ns @ NUL # le_int 4 (if justOne then 1 else 0) @ q \<and>
    dataLen m = int (length (md_data m)) \<and> md_operation m = op_value dbDelete"
proof -
  let ?n = "if justOne then 1 else 0 :: int"
  have f: "\<not> has_flag ?n WriteOption_FromWriteback" by (simp add: WriteOption_FromWriteback_def)
  have "list_all2 buf_writes [appendNum_int 0, appendStr ns, appendNum_int ?n, appendSelfToBufBuilder q]
      [le_int 4 0, ns @ [NUL], le_int 4 ?n, q]"
    using buf_writes_obj[OF assms(1)] by (simp add: buf_writes_append)
  from send_buffer_data[OF this, of memory dbDelete] show ?thesis
    using assms(2) f by (auto simp: remove_one_message_def remove_message_def RemoveOption_JustOne_def Let_def)
qed

lemma update_message_bytes:
  assumes "whole_obj q" "whole_obj obj" "length ns + length q + length obj + 9 \<le> BufferMaxSize"
  shows "\<exists>m. update_one_message memory ns q obj upsert multi = Inr (Some m) \<and>
    md_data m = le_int 4 0 @ ns @ NUL # le_int 4 ((if upsert then 1 else 0) + (if multi then 2 else 0)) @ q @ obj \<and>
    dataLen m = int (length (md_data m)) \<and> md_operation m = op_value dbUpdate"
proof -
  let ?n = "(if upsert then 1 else 0) + (if multi then 2 else 0) :: int"
  have f: "\<not> has_flag ?n WriteOption_FromWriteback" by (simp add: WriteOption_FromWriteback_def)
  have n: "(if multi then (if upsert then 0 OR UpdateOption_Upsert else 0) OR UpdateOption_Multi
      else if upsert then 0 OR UpdateOption_Upsert else 0) = ?n"
    by (simp add: UpdateOption_Upsert_def UpdateOption_Multi_def)
  have "list_all2 buf_writes
      [appendNum_int 0, appendStr ns, appendNum_int ?n, appendSelfToBufBuilder q, appendSelfToBufBuilder obj]
      [le_int 4 0, ns @ [NUL], le_int 4 ?n, q, obj]"
    using buf_writes_obj assms by (simp add: buf_writes_append)
  from send_buffer_data[OF this, of memory dbUpdate] show ?thesis
    using assms(3) f unfolding update_one_message_def Let_def n update_message_def by auto
qed

lemma query_message_bytes:
  assumes "whole_obj q" "length ns + length q + 13 \<le> BufferMaxSize"
  shows "\<exists>m. assembleRequest memory ns q nToReturn nToSkip None opts = Inr (Some m) \<and>
    md_data m = le_int 4 opts @ ns @ NUL # le_int 4 nToSkip @ le_int 4 nToReturn @ q \<and>
    dataLen m = int (length (md_data m)) \<and> md_operation m = op_value dbQuery"
proof -
  have "list_all2 buf_writes
      [appendNum_int opts, appendStr ns, appendNum_int nToSkip, appendNum_int nToReturn, appendSelfToBufBuilder q]
      [le_int 4 opts, ns @ [NUL], le_int 4 nToSkip, le_int 4 nToReturn, q]"
    using buf_writes_obj[OF assms(1)] by (simp add: buf_writes_append)
  from send_buffer_data[OF this, of memory dbQuery] show ?thesis
    using assms(2) by (auto simp: assembleRequest_def)
qed

text \<open>What the reader of each request finds, up to the end of the message.\<close>

lemma insert_read:
  assumes "NUL \<notin> set ns" "whole_obj obj" "length ns + length obj + 5 \<le> BufferMaxSize"
  shows "\<exists>m d d'. insert_message memory ns obj 0 = Inr (Some m) \<and> md_operation m = 2002 \<and>
    DbMessage_new (Some m) = Inr d \<and> getns d = Inr ns \<and> nextJsObj d = Inr (obj, d') \<and> \<not> moreJSObjs d'"
proof -
  obtain m where m: "insert_message memory ns obj 0 = Inr (Some m)" "md_data m = le_int 4 0 @ ns @ NUL # obj"
    "dataLen m = int (length (md_data m))" "md_operation m = op_value dbInsert"
    using insert_message_bytes[OF assms(2,3)] by blast
  obtain d where d: "DbMessage_new (Some m) = Inr d" "getns d = Inr ns" "at_rest d (le_int 4 0 @ ns @ [NUL]) (obj @ [])"
    using DbMessage_start[OF m(2,3) assms(1)] by auto
  from nextJsObj_rest[OF d(3) assms(2)] show ?thesis using m d by auto
qed

lemma remove_read:
  assumes "NUL \<notin> set ns" "whole_obj q" "length ns + length q + 9 \<le> BufferMaxSize"
  shows "\<exists>m d d1 d'. remove_one_message memory ns q justOne = Inr (Some m) \<and> md_operation m = 2006 \<and>
    DbMessage_new (Some m) = Inr d \<and> getns d = Inr ns \<and>
    pullInt d = Inr (if justOne then 1 else 0, d1) \<and> nextJsObj d1 = Inr (q, d') \<and> \<not> moreJSObjs d'"
proof -
  let ?n = "if justOne then 1 else 0 :: int"
  have n: "INT_MIN32 \<le> ?n" "?n < 2 ^ 31" by (simp_all add: INT_MIN32_def)
  obtain m where m: "remove_one_message memory ns q justOne = Inr (Some m)"
    "md_data m = le_int 4 0 @ ns @ NUL # le_int 4 ?n @ q"
    "dataLen m = int (length (md_data m))" "md_operation m = op_value dbDelete"
    using remove_message_bytes[OF assms(2,3)] by blast
  obtain d where d: "DbMessage_new (Some m) = Inr d" "getns d = Inr ns" "at_rest d (le_int 4 0 @ ns @ [NUL]) (le_int 4 ?n @ q @ [])"
    using DbMessage_start[OF m(2,3) assms(1)] by auto
  obtain d1 where d1: "pullInt d = Inr (?n, d1)" "at_rest d1 ((le_int 4 0 @ ns @ [NUL]) @ le_int 4 ?n) (q @ [])"
    using pullInt_rest[OF d(3) n] by blast
  from nextJsObj_rest[OF d1(2) assms(2)] show ?thesis using m d d1(1) by auto
qed

lemma update_read:
  assumes "NUL \<notin> set ns" "whole_obj q" "whole_obj obj" "length ns + length q + length obj + 9 \<le> BufferMaxSize"
  shows "\<exists>m d d1 d2 d'. update_one_message memory ns q obj upsert multi = Inr (Some m) \<and> md_operation m = 2001 \<and>
    DbMessage_new (Some m) = Inr d \<and> getns d = Inr ns \<and>
    pullInt d = Inr ((if upsert then 1 else 0) + (if multi then 2 else 0), d1) \<and>
    nextJsObj d1 = Inr (q, d2) \<and> moreJSObjs d2 \<and> nextJsObj d2 = Inr (obj, d') \<and> \<not> moreJSObjs d'"
proof -
  let ?n = "(if upsert then 1 else 0) + (if multi then 2 else 0) :: int"
  have n: "INT_MIN32 \<le> ?n" "?n < 2 ^ 31" by (simp_all add: INT_MIN32_def)
  obtain m where m: "update_one_message memory ns q obj upsert multi = Inr (Some m)"
    "md_data m = le_int 4 0 @ ns @ NUL # le_int 4 ?n @ q @ obj"
    "dataLen m = int (length (md_data m))" "md_operation m = op_value dbUpdate"
    using update_message_bytes[OF assms(2,3,4)] by blast
  obtain d where d: "DbMessage_new (Some m) = Inr d" "getns d = Inr ns"
    "at_rest d (le_int 4 0 @ ns @ [NUL]) (le_int 4 ?n @ q @ obj @ [])"
    using DbMessage_start[OF m(2,3) assms(1)] by auto
  obtain d1 where d1: "pullInt d = Inr (?n, d1)" "at_rest d1 ((le_int 4 0 @ ns @ [NUL]) @ le_int 4 ?n) (q @ obj @ [])"
    using pullInt_rest[OF d(3) n] by blast
  have ne: "obj @ [] \<noteq> []" using assms(3) by (auto simp: whole_obj_def)
  obtain d2 where d2: "nextJsObj d1 = Inr (q, d2)" "moreJSObjs d2"
    "at_rest d2 (((le_int 4 0 @ ns @ [NUL]) @ le_int 4 ?n) @ q) (obj @ [])"
    using nextJsObj_rest[OF d1(2) assms(2)] ne by blast
  from nextJsObj_rest[OF d2(3) assms(3)] show ?thesis using m d d1(1) d2(1,2) by auto
qed

lemma query_read:
  assumes "NUL \<notin> set ns" "whole_obj q" "length ns + length q + 13 \<le> BufferMaxSize"
    and n: "\<forall>n \<in> {nToReturn, nToSkip, opts}. INT_MIN32 \<le> n \<and> n < 2 ^ 31"
  shows "\<exists>m d. assembleRequest memory ns q nToReturn nToSkip None opts = Inr (Some m) \<and> md_operation m = 2004 \<and>
    DbMessage_new (Some m) = Inr d \<and>
    QueryMessage_new d = Inr \<lparr>qm_ns = ns, qm_ntoskip = nToSkip, qm_ntoreturn = nToReturn, qm_queryOptions = opts,
      qm_query = q, qm_fields = empty_obj\<rparr>"
proof -
  obtain m where m: "assembleRequest memory ns q nToReturn nToSkip None opts = Inr (Some m)"
    "md_data m = le_int 4 opts @ ns @ NUL # le_int 4 nToSkip @ le_int 4 nToReturn @ q"
    "dataLen m = int (length (md_data m))" "md_operation m = op_value dbQuery"
    using query_message_bytes[OF assms(2,3)] by blast
  obtain d where d: "DbMessage_new (Some m) = Inr d" "getns d = Inr ns" "dm_bytes d = md_data m"
    "at_rest d (le_int 4 opts @ ns @ [NUL]) (le_int 4 nToSkip @ le_int 4 nToReturn @ q @ [])"
    using DbMessage_start[OF m(2,3) assms(1)] by auto
  obtain d1 where d1: "pullInt d = Inr (nToSkip, d1)" "dm_bytes d1 = dm_bytes d"
    "at_rest d1 ((le_int 4 opts @ ns @ [NUL]) @ le_int 4 nToSkip) (le_int 4 nToReturn @ q @ [])"
    using pullInt_rest[OF d(4)] n by auto
  obtain d2 where d2: "pullInt d1 = Inr (nToReturn, d2)" "dm_bytes d2 = dm_bytes d1"
    "at_rest d2 (((le_int 4 opts @ ns @ [NUL]) @ le_int 4 nToSkip) @ le_int 4 nToReturn) (q @ [])"
    using pullInt_rest[OF d1(3)] n by auto
  obtain d3 where d3: "nextJsObj d2 = Inr (q, d3)" "\<not> moreJSObjs d3" "dm_bytes d3 = dm_bytes d2"
    using nextJsObj_rest[OF d2(3) assms(2)] by blast
  have "int_at (md_data m, 0) 4 = Inr (int_le (le_int 4 opts))"
    by (rule int_at_app[where pre = "[]"]) (simp_all add: m(2))
  moreover have "int_le (le_int 4 opts) = opts" using n by (intro int_le_le_int) (simp_all add: INT_MIN32_def)
  ultimately show ?thesis using m d d1 d2 d3 by (simp add: QueryMessage_new_def)
qed

text \<open>C36.
  The four requests the data base layer makes are read back from their messages as they were
  made: the operation, the collection, the flags or numbers, and the objects, after which the
  message is at its end. This holds for every name without zeros and all objects of the size of
  a document that fit into one buffer.
\<close>

theorem requests_read_back:
  assumes "NUL \<notin> set ns" "whole_obj q" "whole_obj obj" "length ns + length q + length obj + 13 \<le> BufferMaxSize"
  shows "(\<exists>m d d'. insert_message memory ns obj 0 = Inr (Some m) \<and> md_operation m = 2002 \<and>
      DbMessage_new (Some m) = Inr d \<and> getns d = Inr ns \<and> nextJsObj d = Inr (obj, d') \<and> \<not> moreJSObjs d') \<and>
    (\<exists>m d d1 d'. remove_one_message memory ns q justOne = Inr (Some m) \<and> md_operation m = 2006 \<and>
      DbMessage_new (Some m) = Inr d \<and> getns d = Inr ns \<and>
      pullInt d = Inr (if justOne then 1 else 0, d1) \<and> nextJsObj d1 = Inr (q, d') \<and> \<not> moreJSObjs d') \<and>
    (\<exists>m d d1 d2 d'. update_one_message memory ns q obj upsert multi = Inr (Some m) \<and> md_operation m = 2001 \<and>
      DbMessage_new (Some m) = Inr d \<and> getns d = Inr ns \<and>
      pullInt d = Inr ((if upsert then 1 else 0) + (if multi then 2 else 0), d1) \<and>
      nextJsObj d1 = Inr (q, d2) \<and> moreJSObjs d2 \<and> nextJsObj d2 = Inr (obj, d') \<and> \<not> moreJSObjs d') \<and>
    (\<exists>m d. assembleRequest memory ns q 0 0 None 0 = Inr (Some m) \<and> md_operation m = 2004 \<and>
      DbMessage_new (Some m) = Inr d \<and>
      QueryMessage_new d = Inr \<lparr>qm_ns = ns, qm_ntoskip = 0, qm_ntoreturn = 0, qm_queryOptions = 0,
        qm_query = q, qm_fields = empty_obj\<rparr>)"
  using insert_read[OF assms(1,3), of memory] remove_read[OF assms(1,2), of memory justOne]
    update_read[OF assms(1-3), of memory upsert multi] query_read[OF assms(1,2), of 0 0 0 memory] assms(4)
  by (simp add: INT_MIN32_def)

lemma requests_read_back_witness:
  "\<exists>m d d'. insert_message (MsgData.make 0 0 0 0 0 0 []) ''Sung.character'' (obj_bytes [(jstNULL, ''a'', [])]) 0 = Inr (Some m) \<and>
     md_operation m = 2002 \<and> DbMessage_new (Some m) = Inr d \<and> getns d = Inr ''Sung.character'' \<and>
     nextJsObj d = Inr (obj_bytes [(jstNULL, ''a'', [])], d') \<and> \<not> moreJSObjs d'"
proof -
  have "whole_obj (obj_bytes [(jstNULL, ''a'', [])])"
    by (rule whole_obj_bytes) (simp_all add: obj_ok_def raw_ok_def raw_bytes_def well_sized_def NUL_def)
  from requests_read_back[OF _ this this, of "''Sung.character''"] show ?thesis
    by (simp add: NUL_def BufferMaxSize_def raw_bytes_def)
qed

end
