(* ===== verification/MongoCursor.thy ===== *)
theory MongoCursor
imports MongoMessage
begin

text \<open>
  The cursor of the driver over the bytes of the server's replies (\<open>client/dbclientcursor.cpp\<close>), the
  writer of a reply (\<open>db/dbmessage.cpp\<close>), and that the cursors of \<open>MongoClient\<close> are what it does.
\<close>

section \<open>Replies\<close>

text \<open>
  The data of a reply: flags, the number of the cursor, where it starts, how many objects it has,
  and the objects. The header is memory but for what is set.
\<close>

definition QueryResultSize :: nat where
  "QueryResultSize = 36"

definition replyToQuery :: "(nat \<Rightarrow> char) \<Rightarrow> MsgData \<Rightarrow> int \<Rightarrow> string \<Rightarrow> int \<Rightarrow> int \<Rightarrow> int \<Rightarrow> Message res" where
  "replyToQuery memory head queryResultFlags data nReturned startingFrom cursorId =
     run_then (buf_all [skip memory QueryResultSize, appendBuf data] (BufBuilder_new 32768)) (\<lambda>b.
       Inr (Some (setOperation (op_value opReply)
         (head\<lparr>md_len := int (length (bb_data b)),
               md_data := le_int 4 queryResultFlags @ le_int 8 cursorId @ le_int 4 startingFrom @ le_int 4 nReturned @
                 drop QueryResultSize (bb_data b)\<rparr>))))"

definition resultFlags_of :: "MsgData \<Rightarrow> int res" where
  "resultFlags_of = dataAsInt"

definition cursorId_of :: "MsgData \<Rightarrow> int res" where
  "cursorId_of d = int_at (md_data d, 4) 8"

definition nReturned_of :: "MsgData \<Rightarrow> int res" where
  "nReturned_of d = int_at (md_data d, 16) 4"

definition ResultFlag_CursorNotFound :: int where "ResultFlag_CursorNotFound = 1"
definition ResultFlag_ErrSet :: int where "ResultFlag_ErrSet = 2"
definition ResultFlag_ShardConfigStale :: int where "ResultFlag_ShardConfigStale = 4"
definition QueryOption_CursorTailable :: int where "QueryOption_CursorTailable = 2"

section \<open>The cursor\<close>

text \<open>The batch is the data of the last reply; its pointer counts from there.\<close>

record DBClientCursor =
  cc_ns :: string
  cc_query :: BSONObj
  cc_nToReturn :: int
  cc_haveLimit :: bool
  cc_nToSkip :: int
  cc_fieldsToReturn :: "BSONObj option"
  cc_opts :: int
  cc_batchSize :: int
  cc_putBack :: "BSONObj list"
  cc_resultFlags :: int
  cc_cursorId :: int
  cc_ownCursor :: bool
  cc_wasError :: bool
  batch_m :: string
  batch_nReturned :: int
  batch_pos :: int
  batch_data :: int

definition DBClientCursor_new ::
  "int \<Rightarrow> string \<Rightarrow> BSONObj \<Rightarrow> int \<Rightarrow> int \<Rightarrow> BSONObj option \<Rightarrow> int \<Rightarrow> int \<Rightarrow> DBClientCursor" where
  "DBClientCursor_new memory ns q nToReturn nToSkip fieldsToReturn queryOptions bs =
     \<lparr>cc_ns = ns, cc_query = q, cc_nToReturn = nToReturn,
      cc_haveLimit = (0 < nToReturn \<and> \<not> has_flag queryOptions QueryOption_CursorTailable),
      cc_nToSkip = nToSkip, cc_fieldsToReturn = fieldsToReturn, cc_opts = queryOptions,
      cc_batchSize = (if bs = 1 then 2 else bs), cc_putBack = [], cc_resultFlags = memory, cc_cursorId = 0,
      cc_ownCursor = True, cc_wasError = False,
      batch_m = [], batch_nReturned = 0, batch_pos = 0, batch_data = 0\<rparr>"

definition nextBatchSize :: "DBClientCursor \<Rightarrow> int" where
  "nextBatchSize c =
     (if cc_nToReturn c = 0 then cc_batchSize c
      else if cc_batchSize c = 0 then cc_nToReturn c
      else if cc_batchSize c < cc_nToReturn c then cc_batchSize c else cc_nToReturn c)"

definition getMore_message :: "MsgData \<Rightarrow> int \<Rightarrow> DBClientCursor \<Rightarrow> Message res" where
  "getMore_message memory n c =
     send_buffer memory dbGetMore
       [appendNum_int (cc_opts c), appendStr (cc_ns c), appendNum_int n, appendNum_long (cc_cursorId c)]"

definition assembleInit :: "MsgData \<Rightarrow> DBClientCursor \<Rightarrow> Message res" where
  "assembleInit memory c =
     (if cc_cursorId c = 0
      then assembleRequest memory (cc_ns c) (cc_query c) (nextBatchSize c) (cc_nToSkip c) (cc_fieldsToReturn c) (cc_opts c)
      else getMore_message memory (cc_nToReturn c) c)"

section \<open>What a reply does to it\<close>

text \<open>Peeking at the batch: up to so many objects of it (all, for a negative number), and neither the position nor the pointer moves.\<close>

fun peek_objects :: "nat \<Rightarrow> string \<Rightarrow> int \<Rightarrow> BSONObj list res" where
  "peek_objects 0 m d = Inr []"
| "peek_objects (Suc n) m d =
     run_then (BSONObj_at (m, d)) (\<lambda>o'. run_then (objsize o') (\<lambda>size.
       run_then (peek_objects n m (d + size)) (\<lambda>os. Inr (o' # os))))"

definition peek :: "int \<Rightarrow> DBClientCursor \<Rightarrow> BSONObj list res" where
  "peek at_most c =
     (let left = nat (batch_nReturned c - batch_pos c)
      in peek_objects (if at_most < 0 then left else min (nat at_most) left) (batch_m c) (batch_data c))"

definition peekFirst :: "DBClientCursor \<Rightarrow> BSONObj res" where
  "peekFirst c = run_then (peek 1 c) (\<lambda>v. Inr (case v of [] \<Rightarrow> empty_obj | o' # _ \<Rightarrow> o'))"

text \<open>The field of an error: the first one by this name, or any.\<close>

definition getErrField :: "BSONObj \<Rightarrow> BSONElement res option" where
  "getErrField o' =
     (case fieldName (o', 4) of
        Inl f \<Rightarrow> Some (Inl f)
      | Inr n \<Rightarrow> if n = ''$err'' then Some (Inr (o', 4)) else getField_at o' ''$err'')"

definition hasErrField :: "BSONObj \<Rightarrow> bool res option" where
  "hasErrField o' = then_element (getErrField o') (\<lambda>e. run_then (el_type e) (\<lambda>t. Inr (t \<noteq> EOO)))"

definition peekError :: "DBClientCursor \<Rightarrow> bool res option" where
  "peekError c =
     (if \<not> cc_wasError c then Some (Inr False)
      else case peek 1 c of
             Inl f \<Rightarrow> Some (Inl f)
           | Inr v \<Rightarrow>
               if length v \<noteq> 1 then Some (Inl (Throw ''assertion''))
               else map_option (\<lambda>r. run_then r (\<lambda>h. if h then Inr True else Inl (Throw ''assertion''))) (hasErrField (hd v)))"

text \<open>A stale configuration ends in an exception either way, when peeking ends.\<close>

definition stale_config :: "DBClientCursor \<Rightarrow> DBClientCursor res option" where
  "stale_config c =
     map_option (\<lambda>r. run_then r (\<lambda>h. Inl (Throw (if h then ''9996'' else ''assertion'')))) (peekError c)"

definition cursor_number :: "int \<Rightarrow> MsgData \<Rightarrow> DBClientCursor \<Rightarrow> DBClientCursor res" where
  "cursor_number flags qr c =
     run_then (cursorId_of qr) (\<lambda>n.
     run_then
       (if has_flag flags ResultFlag_CursorNotFound then
          if n \<noteq> 0 then Inl (Throw ''assertion'')
          else if \<not> has_flag (cc_opts c) QueryOption_CursorTailable then Inl (Throw ''13127'')
          else Inr (c\<lparr>cc_cursorId := 0\<rparr>)
        else Inr c) (\<lambda>c.
     Inr (if cc_cursorId c = 0 \<or> \<not> has_flag (cc_opts c) QueryOption_CursorTailable then c\<lparr>cc_cursorId := n\<rparr> else c)))"

text \<open>On a connection that belongs to no replica set \<open>checkResponse\<close> looks at nothing.\<close>

definition take_reply :: "Message \<Rightarrow> DBClientCursor \<Rightarrow> DBClientCursor res" where
  "take_reply m c =
     run_then (singleData m) (\<lambda>qr.
     run_then (resultFlags_of qr) (\<lambda>flags.
     run_then (cursor_number flags qr
         (c\<lparr>cc_resultFlags := flags, cc_wasError := cc_wasError c \<or> has_flag flags ResultFlag_ErrSet\<rparr>)) (\<lambda>c.
     run_then (nReturned_of qr) (\<lambda>n.
       Inr (c\<lparr>batch_m := md_data qr, batch_nReturned := n, batch_pos := 0, batch_data := 20\<rparr>)))))"

definition dataReceived :: "Message \<Rightarrow> DBClientCursor \<Rightarrow> DBClientCursor res option" where
  "dataReceived m c =
     (case take_reply m c of
        Inl f \<Rightarrow> Some (Inl f)
      | Inr c \<Rightarrow> if has_flag (cc_resultFlags c) ResultFlag_ShardConfigStale then stale_config c else Some (Inr c))"

section \<open>Over a connection\<close>

text \<open>
  A connection is what it does to its state with a message that waits for an answer: the answer, or
  the failure of the call, which is no message. A call that never comes back is None.
\<close>

type_synonym 's port = "MsgData \<Rightarrow> 's \<Rightarrow> (Message option res \<times> 's) option"

definition port_call :: "'s port \<Rightarrow> Message res \<Rightarrow> 's \<Rightarrow> (Message option res \<times> 's) option" where
  "port_call port m s =
     (case m of
        Inl f \<Rightarrow> Some (Inl f, s)
      | Inr None \<Rightarrow> Some (Inl (Throw ''assertion''), s)
      | Inr (Some d) \<Rightarrow> port d s)"

definition cursor_init :: "MsgData \<Rightarrow> 's port \<Rightarrow> DBClientCursor \<Rightarrow> 's \<Rightarrow> (DBClientCursor option res \<times> 's) option" where
  "cursor_init memory port c s =
     (case port_call port (assembleInit memory c) s of
        None \<Rightarrow> None
      | Some (Inl f, s) \<Rightarrow> Some (Inl f, s)
      | Some (Inr None, s) \<Rightarrow> Some (Inr None, s)
      | Some (Inr (Some m), s) \<Rightarrow>
          if m = None then Some (Inr None, s)
          else map_option (\<lambda>r. (run_then r (\<lambda>c. Inr (Some c)), s)) (dataReceived m c))"

definition requestMore :: "MsgData \<Rightarrow> 's port \<Rightarrow> DBClientCursor \<Rightarrow> 's \<Rightarrow> (DBClientCursor res \<times> 's) option" where
  "requestMore memory port c s =
     (if cc_cursorId c = 0 \<or> batch_pos c \<noteq> batch_nReturned c then Some (Inl (Throw ''assertion''), s)
      else let n = cc_nToReturn c - batch_nReturned c
           in if cc_haveLimit c \<and> n \<le> 0 then Some (Inl (Throw ''assertion''), s)
              else let c = (if cc_haveLimit c then c\<lparr>cc_nToReturn := n\<rparr> else c)
                   in case port_call port (getMore_message memory (nextBatchSize c) c) s of
                        None \<Rightarrow> None
                      | Some (Inl f, s) \<Rightarrow> Some (Inl f, s)
                      | Some (Inr None, s) \<Rightarrow> Some (Inl (Throw ''10278''), s)
                      | Some (Inr (Some m), s) \<Rightarrow> map_option (\<lambda>r. (r, s)) (dataReceived m c))"

definition cc_more :: "MsgData \<Rightarrow> 's port \<Rightarrow> DBClientCursor \<Rightarrow> 's \<Rightarrow> ((bool \<times> DBClientCursor) res \<times> 's) option" where
  "cc_more memory port c s =
     (if cc_putBack c \<noteq> [] then Some (Inr (True, c), s)
      else if cc_haveLimit c \<and> cc_nToReturn c \<le> batch_pos c then Some (Inr (False, c), s)
      else if batch_pos c < batch_nReturned c then Some (Inr (True, c), s)
      else if cc_cursorId c = 0 then Some (Inr (False, c), s)
      else map_option (\<lambda>(r, s). (run_then r (\<lambda>c. Inr (batch_pos c < batch_nReturned c, c)), s)) (requestMore memory port c s))"

definition cc_next :: "DBClientCursor \<Rightarrow> (BSONObj \<times> DBClientCursor) res" where
  "cc_next c =
     (case cc_putBack c of
        o' # os \<Rightarrow> Inr (o', c\<lparr>cc_putBack := os\<rparr>)
      | [] \<Rightarrow>
          if \<not> batch_pos c < batch_nReturned c then Inl (Throw ''13422'')
          else run_then (BSONObj_at (batch_m c, batch_data c)) (\<lambda>o'. run_then (objsize o') (\<lambda>size.
            Inr (o', c\<lparr>batch_pos := batch_pos c + 1, batch_data := batch_data c + size\<rparr>))))"

definition putBack :: "BSONObj \<Rightarrow> DBClientCursor \<Rightarrow> DBClientCursor" where
  "putBack o' c = c\<lparr>cc_putBack := o' # cc_putBack c\<rparr>"

definition objsLeftInBatch :: "DBClientCursor \<Rightarrow> int" where
  "objsLeftInBatch c = int (length (cc_putBack c)) + batch_nReturned c - batch_pos c"

text \<open>
  The message that the destructor sends, for a cursor the server still has, unless the process is
  shutting down.
\<close>

definition DBClientCursor_delete :: "MsgData \<Rightarrow> bool \<Rightarrow> DBClientCursor \<Rightarrow> Message res" where
  "DBClientCursor_delete memory inShutdown c =
     (if cc_cursorId c \<noteq> 0 \<and> cc_ownCursor c \<and> \<not> inShutdown then killCursor_message memory (cc_cursorId c) else Inr None)"

text \<open>\<open>DBClientBase::query\<close>: a cursor whose initialisation succeeded, or null.\<close>

definition client_query ::
  "int \<Rightarrow> MsgData \<Rightarrow> 's port \<Rightarrow> string \<Rightarrow> BSONObj \<Rightarrow> int \<Rightarrow> int \<Rightarrow> BSONObj option \<Rightarrow> int \<Rightarrow> int \<Rightarrow> 's
     \<Rightarrow> (DBClientCursor option res \<times> 's) option" where
  "client_query uninit memory port ns q nToReturn nToSkip fieldsToReturn queryOptions batchSize s =
     cursor_init memory port (DBClientCursor_new uninit ns q nToReturn nToSkip fieldsToReturn queryOptions batchSize) s"

text \<open>\<open>while (cursor->more()) { p = cursor->next(); ... }\<close>: the objects such a loop sees.\<close>

partial_function (option) cc_all ::
  "MsgData \<Rightarrow> 's port \<Rightarrow> DBClientCursor \<Rightarrow> 's \<Rightarrow> BSONObj list \<Rightarrow> (BSONObj list res \<times> 's) option"
where
  "cc_all memory port c s acc =
     (case cc_more memory port c s of
        None \<Rightarrow> None
      | Some (r, s) \<Rightarrow>
          (case r of
             Inl f \<Rightarrow> Some (Inl f, s)
           | Inr (b, c) \<Rightarrow>
               if \<not> b then Some (Inr acc, s)
               else case cc_next c of
                      Inl f \<Rightarrow> Some (Inl f, s)
                    | Inr (o', c) \<Rightarrow> cc_all memory port c s (acc @ [o'])))"

section \<open>The cursors of the model\<close>

text \<open>The replies a server sends for the batches of a query: the last one says that there are no more.\<close>

definition doc_bytes :: "bson_obj \<Rightarrow> string" where
  "doc_bytes d = obj_bytes (map raw_of d)"

definition batch_bytes :: "bson_obj list \<Rightarrow> string" where
  "batch_bytes ds = concat (map doc_bytes ds)"

definition reply_data :: "int \<Rightarrow> bson_obj list \<Rightarrow> string" where
  "reply_data cursorId ds =
     le_int 4 0 @ le_int 8 cursorId @ le_int 4 0 @ le_int 4 (int (length ds)) @ batch_bytes ds"

lemma replyToQuery_data:
  assumes "length (batch_bytes ds) + 36 \<le> BufferMaxSize"
  shows "\<exists>m. replyToQuery uninit head 0 (batch_bytes ds) (int (length ds)) 0 cursorId = Inr (Some m) \<and>
     md_data m = reply_data cursorId ds \<and> dataLen m = int (length (md_data m)) \<and> md_operation m = op_value opReply"
proof -
  have "list_all2 buf_writes [skip uninit QueryResultSize, appendBuf (batch_bytes ds)]
      [map uninit [0..<QueryResultSize], batch_bytes ds]"
    by (simp add: skip_def buf_writes_append)
  from buf_all_writes[OF this, of "BufBuilder_new 32768"] obtain b where
    "buf_all [skip uninit QueryResultSize, appendBuf (batch_bytes ds)] (BufBuilder_new 32768) = Inr b"
    "bb_data b = map uninit [0..<QueryResultSize] @ batch_bytes ds"
    using assms by (auto simp: BufBuilder_new_def QueryResultSize_def simp del: upt_rec_numeral)
  then show ?thesis
    by (simp add: replyToQuery_def reply_data_def setOperation_def dataLen_def MsgDataHeaderSize_def QueryResultSize_def
      del: upt_rec_numeral)
qed

text \<open>Documents of the size the driver takes, in batches that an int counts.\<close>

definition batch_ok :: "bson_obj list \<Rightarrow> bool" where
  "batch_ok ds \<longleftrightarrow> length ds < 2 ^ 31 \<and> (\<forall>d \<in> set ds. doc_fits d \<and> length (doc_bytes d) \<le> 16 * 1024 * 1024 + 16 * 1024)"

lemma batch_ok_doc: "batch_ok ds \<Longrightarrow> d \<in> set ds \<Longrightarrow> whole_obj (doc_bytes d)"
  unfolding batch_ok_def doc_bytes_def by (blast intro: whole_obj_bytes doc_fits_ok)

text \<open>A server that has the batches to come, all but the last with the number of the cursor.\<close>

definition reply_of :: "int \<Rightarrow> bson_obj list \<Rightarrow> bson_obj list list \<Rightarrow> MsgData \<Rightarrow> bool" where
  "reply_of n ds later m \<longleftrightarrow> md_data m = reply_data (if later = [] then 0 else n) ds"

fun replies_of :: "int \<Rightarrow> bson_obj list list \<Rightarrow> MsgData list \<Rightarrow> bool" where
  "replies_of n [] ms \<longleftrightarrow> True"
| "replies_of n (ds # later) ms \<longleftrightarrow>
     (case ms of [] \<Rightarrow> False | m # ms' \<Rightarrow> reply_of n ds later m \<and> replies_of n later ms')"

text \<open>A connection over which the answers come in their order.\<close>

definition in_order :: "MsgData list port" where
  "in_order m s = Some (case s of [] \<Rightarrow> (Inr None, []) | r # rs \<Rightarrow> (Inr (Some (Some r)), rs))"

definition cursor_rel :: "int \<Rightarrow> cursor \<Rightarrow> DBClientCursor \<times> MsgData list \<Rightarrow> bool" where
  "cursor_rel n k cs \<longleftrightarrow>
     (case cs of (c, ms) \<Rightarrow>
       (\<exists>pre. batch_m c = pre @ batch_bytes (batch_left k) \<and> batch_data c = int (length pre)) \<and>
       batch_nReturned c - batch_pos c = int (length (batch_left k)) \<and>
       cc_cursorId c = (if batches_later k = [] then 0 else n) \<and>
       replies_of n (batches_later k) ms \<and> (\<forall>ds \<in> set (batch_left k # batches_later k). batch_ok ds) \<and>
       cc_putBack c = [] \<and> \<not> cc_haveLimit c \<and> cc_opts c = 0 \<and> NUL \<notin> set (cc_ns c) \<and>
       length (cc_ns c) + 17 \<le> BufferMaxSize)"

lemma batch_bytes_Cons [simp]: "batch_bytes [] = []" "batch_bytes (d # ds) = doc_bytes d @ batch_bytes ds"
  by (simp_all add: batch_bytes_def)

lemma reply_read:
  assumes "md_data m = reply_data cid ds" "- (2 ^ 63) \<le> cid" "cid < 2 ^ 63" "batch_ok ds"
  shows "resultFlags_of m = Inr 0" "cursorId_of m = Inr cid" "nReturned_of m = Inr (int (length ds))"
proof -
  have d: "md_data m = le_int 4 0 @ le_int 8 cid @ le_int 4 0 @ le_int 4 (int (length ds)) @ batch_bytes ds"
    using assms(1) by (simp add: reply_data_def)
  have "int_at (md_data m, 0) 4 = Inr (int_le (le_int 4 0))"
    by (rule int_at_app[where pre = "[]"]) (simp_all add: d)
  then show "resultFlags_of m = Inr 0" by (simp add: resultFlags_of_def dataAsInt_def int_le_le_int)
  have "int_at (md_data m, 4) 8 = Inr (int_le (le_int 8 cid))"
    by (rule int_at_app[where pre = "le_int 4 0"]) (simp_all add: d)
  then show "cursorId_of m = Inr cid" using assms(2,3) by (simp add: cursorId_of_def int_le_le_int)
  have "int_at (md_data m, 16) 4 = Inr (int_le (le_int 4 (int (length ds))))"
    by (rule int_at_app[where pre = "le_int 4 0 @ le_int 8 cid @ le_int 4 0"]) (simp_all add: d)
  then show "nReturned_of m = Inr (int (length ds))" using assms(4) by (simp add: nReturned_of_def int_le_le_int batch_ok_def)
qed

lemma dataReceived_reply:
  assumes "md_data m = reply_data cid ds" "- (2 ^ 63) \<le> cid" "cid < 2 ^ 63" "batch_ok ds" "cc_opts c = 0"
  shows "dataReceived (Some m) c = Some (Inr (c\<lparr>cc_resultFlags := 0, cc_cursorId := cid, batch_m := reply_data cid ds,
    batch_nReturned := int (length ds), batch_pos := 0, batch_data := 20\<rparr>))"
  using reply_read[OF assms(1-4)] assms(1,5)
  by (simp add: dataReceived_def take_reply_def singleData_def cursor_number_def)

lemma reply_data_split:
  "\<exists>pre. reply_data cid ds = pre @ batch_bytes ds \<and> 20 = int (length pre)"
  unfolding reply_data_def
  by (rule exI[of _ "le_int 4 0 @ le_int 8 cid @ le_int 4 0 @ le_int 4 (int (length ds))"]) simp

lemma getMore_sent:
  assumes "length (cc_ns c) + 17 \<le> BufferMaxSize"
  shows "\<exists>m. getMore_message memory n c = Inr (Some m)"
proof -
  have "list_all2 buf_writes [appendNum_int (cc_opts c), appendStr (cc_ns c), appendNum_int n, appendNum_long (cc_cursorId c)]
      [le_int 4 (cc_opts c), cc_ns c @ [NUL], le_int 4 n, le_int 8 (cc_cursorId c)]"
    by (simp add: buf_writes_append)
  from send_buffer_data[OF this, of memory dbGetMore] show ?thesis
    using assms by (auto simp: getMore_message_def)
qed

text \<open>The object at the pointer, when the batch has one.\<close>

lemma cc_next_rel:
  assumes "cursor_rel n k (c, ms)"
  shows "case cursor_next (Some k) of
      Inl f \<Rightarrow> cc_next c = Inl f
    | Inr (d, k') \<Rightarrow> \<exists>c'. cc_next c = Inr (doc_bytes d, c') \<and> cursor_rel n (the k') (c', ms)"
proof (cases "batch_left k")
  case Nil
  then show ?thesis using assms by (simp add: cursor_rel_def cursor_next_def cc_next_def)
next
  case (Cons d ds)
  obtain pre where p: "batch_m c = pre @ doc_bytes d @ batch_bytes ds" "batch_data c = int (length pre)"
    using assms Cons by (auto simp: cursor_rel_def)
  have w: "whole_obj (doc_bytes d)" using assms Cons by (intro batch_ok_doc[of "d # ds"]) (auto simp: cursor_rel_def)
  let ?c = "c\<lparr>batch_pos := batch_pos c + 1, batch_data := batch_data c + int (length (doc_bytes d))\<rparr>"
  have "objsize (doc_bytes d) = Inr (int (length (doc_bytes d)))" using w by (simp add: whole_obj_def)
  then have "cc_next c = Inr (doc_bytes d, ?c)"
    using BSONObj_at_rest(2)[OF w, of pre "batch_bytes ds"] assms Cons p by (simp add: cc_next_def cursor_rel_def)
  moreover have "batch_m ?c = (pre @ doc_bytes d) @ batch_bytes ds" "batch_data ?c = int (length (pre @ doc_bytes d))"
    using p by simp_all
  then have "\<exists>pre'. batch_m ?c = pre' @ batch_bytes ds \<and> batch_data ?c = int (length pre')" by blast
  moreover have "batch_ok ds" using assms Cons by (auto simp: cursor_rel_def batch_ok_def)
  ultimately show ?thesis using assms Cons by (simp add: cursor_next_def cursor_rel_def)
qed

lemma cc_more_rel:
  assumes "cursor_rel n k (c, ms)" "n \<noteq> 0" "- (2 ^ 63) \<le> n" "n < 2 ^ 63"
  shows "\<exists>b k' c' ms'. cursor_more (Some k) = Inr (b, Some k') \<and> cc_more memory in_order c ms = Some (Inr (b, c'), ms') \<and>
    cursor_rel n k' (c', ms')"
proof (cases "batch_left k = [] \<and> batches_later k \<noteq> []")
  case False
  then show ?thesis
    using assms by (cases "batch_left k") (auto simp: cursor_rel_def cursor_more_def cc_more_def split: list.splits)
next
  case True
  then obtain ds later where l: "batches_later k = ds # later" by (cases "batches_later k") auto
  then obtain m ms' where ms: "ms = m # ms'" "md_data m = reply_data (if later = [] then 0 else n) ds" "replies_of n later ms'"
    using assms(1) by (auto simp: cursor_rel_def reply_of_def split: list.splits)
  let ?n = "if later = [] then 0 else n"
  have ok: "batch_ok ds" "\<forall>ds \<in> set later. batch_ok ds" using assms(1) l by (simp_all add: cursor_rel_def)
  have "length (cc_ns c) + 17 \<le> BufferMaxSize" using assms(1) by (simp add: cursor_rel_def)
  from getMore_sent[OF this] obtain q where q: "getMore_message memory (nextBatchSize c) c = Inr (Some q)" by blast
  let ?c = "c\<lparr>cc_resultFlags := 0, cc_cursorId := ?n, batch_m := reply_data ?n ds,
    batch_nReturned := int (length ds), batch_pos := 0, batch_data := 20\<rparr>"
  have "dataReceived (Some m) c = Some (Inr ?c)"
    using assms ok(1) by (intro dataReceived_reply[OF ms(2)]) (simp_all add: cursor_rel_def)
  then have "cc_more memory in_order c ms = Some (Inr (0 < int (length ds), ?c), ms')"
    using assms(1,2) True l q ms(1)
    by (simp add: cc_more_def requestMore_def port_call_def in_order_def cursor_rel_def Let_def)
  moreover have "cursor_rel n \<lparr>batch_left = ds, batches_later = later\<rparr> (?c, ms')"
    using assms(1) ok ms(3) reply_data_split[of ?n ds] by (simp add: cursor_rel_def)
  moreover have "cursor_more (Some k) = Inr (ds \<noteq> [], Some \<lparr>batch_left = ds, batches_later = later\<rparr>)"
    using True l by (simp add: cursor_more_def)
  ultimately show ?thesis by auto
qed

lemma cursor_more_docs:
  assumes "cursor_more (Some k) = Inr (b, Some k')"
  shows "b \<Longrightarrow> batch_left k' \<noteq> [] \<and> cursor_docs k' = cursor_docs k \<and> cursor_size (Some k') \<le> cursor_size (Some k)"
    "\<not> b \<Longrightarrow> cursor_docs k = []"
  using assms by (auto simp: cursor_more_def cursor_docs_def cursor_size_def split: if_splits list.splits)

text \<open>The loop over the bytes sees the documents of the cursor, each once and in order, and ends.\<close>

lemma cc_all_rel:
  assumes "cursor_rel n k (c, ms)" "n \<noteq> 0" "- (2 ^ 63) \<le> n" "n < 2 ^ 63"
  shows "\<exists>ms'. cc_all memory in_order c ms acc = Some (Inr (acc @ map doc_bytes (cursor_docs k)), ms')"
  using assms(1)
proof (induction "cursor_size (Some k)" arbitrary: k c ms acc rule: less_induct)
  case less
  obtain b k1 c1 ms1 where m: "cursor_more (Some k) = Inr (b, Some k1)"
    "cc_more memory in_order c ms = Some (Inr (b, c1), ms1)" "cursor_rel n k1 (c1, ms1)"
    using cc_more_rel[OF less.prems assms(2-4)] by blast
  show ?case
  proof (cases b)
    case False
    then show ?thesis using m cursor_more_docs(2)[OF m(1)] by (subst cc_all.simps) simp
  next
    case True
    note d = cursor_more_docs(1)[OF m(1) True]
    then obtain x ds where k1: "batch_left k1 = x # ds" by (cases "batch_left k1") auto
    let ?k = "k1\<lparr>batch_left := ds\<rparr>"
    obtain c2 where c2: "cc_next c1 = Inr (doc_bytes x, c2)" "cursor_rel n ?k (c2, ms1)"
      using cc_next_rel[OF m(3)] k1 by (auto simp: cursor_next_def)
    have "cursor_size (Some ?k) < cursor_size (Some k)" using d k1 by (simp add: cursor_size_def)
    from less.hyps[OF this c2(2)] obtain ms' where
      "cc_all memory in_order c2 ms1 (acc @ [doc_bytes x]) =
         Some (Inr ((acc @ [doc_bytes x]) @ map doc_bytes (cursor_docs ?k)), ms')" by blast
    moreover have "cursor_docs k = x # cursor_docs ?k" using d k1 by (simp add: cursor_docs_def)
    ultimately show ?thesis using m(2) c2(1) True by (subst cc_all.simps) simp
  qed
qed

lemma client_query_rel:
  assumes "NUL \<notin> set ns" "length ns + length q + 17 \<le> BufferMaxSize" "whole_obj q"
    "\<forall>b \<in> set (ds # later). batch_ok b" "- (2 ^ 63) \<le> n" "n < 2 ^ 63" "replies_of n (ds # later) ms"
  shows "\<exists>c ms'. client_query uninit memory in_order ns q 0 0 None 0 0 ms = Some (Inr (Some c), ms') \<and>
    cursor_rel n \<lparr>batch_left = ds, batches_later = later\<rparr> (c, ms')"
proof -
  let ?n = "if later = [] then 0 else n" and ?c = "DBClientCursor_new uninit ns q 0 0 None 0 0"
  obtain m ms' where ms: "ms = m # ms'" "md_data m = reply_data ?n ds" "replies_of n later ms'"
    using assms(7) by (auto simp: reply_of_def split: list.splits)
  obtain r where r: "assembleRequest memory ns q 0 0 None 0 = Inr (Some r)"
    using query_message_bytes[of q ns memory 0 0 0] assms(2,3) by auto
  let ?d = "?c\<lparr>cc_resultFlags := 0, cc_cursorId := ?n, batch_m := reply_data ?n ds,
    batch_nReturned := int (length ds), batch_pos := 0, batch_data := 20\<rparr>"
  have "dataReceived (Some m) ?c = Some (Inr ?d)"
    using assms by (intro dataReceived_reply[OF ms(2)]) (simp_all add: DBClientCursor_new_def)
  then have "client_query uninit memory in_order ns q 0 0 None 0 0 ms = Some (Inr (Some ?d), ms')"
    using r ms(1)
    by (simp add: client_query_def cursor_init_def assembleInit_def nextBatchSize_def port_call_def in_order_def DBClientCursor_new_def)
  moreover have "cursor_rel n \<lparr>batch_left = ds, batches_later = later\<rparr> (?d, ms')"
    using assms ms(3) reply_data_split[of ?n ds] by (simp add: cursor_rel_def DBClientCursor_new_def)
  ultimately show ?thesis by blast
qed

text \<open>C18.
  The cursor of the model is what the driver's cursor does on the bytes of the replies. A query whose
  answer comes in batches, all but the last with the number of the server's cursor, gives a
  cursor in the state of the model's; more and next then agree with the model's step by step,
  exceptions included, and the loop of the data base layer sees the documents of the model's cursor, each
  once and in their order, and ends.
\<close>

theorem cursor_bytes:
  assumes "NUL \<notin> set ns" "length ns + length q + 17 \<le> BufferMaxSize" "whole_obj q"
    "\<forall>b \<in> set (ds # later). batch_ok b" "n \<noteq> 0" "- (2 ^ 63) \<le> n" "n < 2 ^ 63" "replies_of n (ds # later) ms"
  shows "(\<exists>c ms'. client_query uninit memory in_order ns q 0 0 None 0 0 ms = Some (Inr (Some c), ms') \<and>
      cursor_rel n \<lparr>batch_left = ds, batches_later = later\<rparr> (c, ms') \<and>
      (\<exists>ms''. cc_all memory in_order c ms' [] =
         Some (Inr (map doc_bytes (cursor_docs \<lparr>batch_left = ds, batches_later = later\<rparr>)), ms''))) \<and>
    (\<forall>k c s. cursor_rel n k (c, s) \<longrightarrow>
      (\<exists>b k' c' s'. cursor_more (Some k) = Inr (b, Some k') \<and> cc_more memory in_order c s = Some (Inr (b, c'), s') \<and>
         cursor_rel n k' (c', s')) \<and>
      (case cursor_next (Some k) of
         Inl f \<Rightarrow> cc_next c = Inl f
       | Inr (d, k') \<Rightarrow> \<exists>c'. cc_next c = Inr (doc_bytes d, c') \<and> cursor_rel n (the k') (c', s)))"
proof (intro conjI allI impI)
  show "\<exists>c ms'. client_query uninit memory in_order ns q 0 0 None 0 0 ms = Some (Inr (Some c), ms') \<and>
      cursor_rel n \<lparr>batch_left = ds, batches_later = later\<rparr> (c, ms') \<and>
      (\<exists>ms''. cc_all memory in_order c ms' [] =
         Some (Inr (map doc_bytes (cursor_docs \<lparr>batch_left = ds, batches_later = later\<rparr>)), ms''))"
    using client_query_rel[OF assms(1-4,6-8), of uninit memory] cc_all_rel[OF _ assms(5-7), of _ _ _ memory "[]"] by fastforce
next
  fix k c s
  assume r: "cursor_rel n k (c, s)"
  show "\<exists>b k' c' s'. cursor_more (Some k) = Inr (b, Some k') \<and> cc_more memory in_order c s = Some (Inr (b, c'), s') \<and>
         cursor_rel n k' (c', s')"
    by (rule cc_more_rel[OF r assms(5-7)])
  show "case cursor_next (Some k) of
         Inl f \<Rightarrow> cc_next c = Inl f
       | Inr (d, k') \<Rightarrow> \<exists>c'. cc_next c = Inr (doc_bytes d, c') \<and> cursor_rel n (the k') (c', s)"
    by (rule cc_next_rel[OF r])
qed

text \<open>A query answered in two batches.\<close>

definition demo_reply :: "int \<Rightarrow> bson_obj list \<Rightarrow> MsgData" where
  "demo_reply n ds = \<lparr>md_len = 0, md_id = 0, md_responseTo = 0, md_operation = 1, md_flags = 0, md_version = 0,
     md_data = reply_data n ds\<rparr>"

lemma cursor_bytes_witness:
  "\<exists>c ms' ms''. client_query 0 (demo_reply 0 []) in_order ''Sung.npc'' (doc_bytes [(''id'', BInt 1)]) 0 0 None 0 0
      [demo_reply 7 [[(''id'', BInt 1)]], demo_reply 0 [[(''id'', BInt 2)]]] = Some (Inr (Some c), ms') \<and>
    cc_all (demo_reply 0 []) in_order c ms' [] =
      Some (Inr [doc_bytes [(''id'', BInt 1)], doc_bytes [(''id'', BInt 2)]], ms'')"
proof -
  have fits: "doc_fits [(''id'', BInt n)]" "length (doc_bytes [(''id'', BInt n)]) \<le> 100" if "n \<in> {1, 2}" for n
    using that by (auto simp: doc_fits_def doc_bytes_def raw_bytes_def raw_of_def NUL_def INT_MIN32_def)
  have ok: "batch_ok [[(''id'', BInt 1)]]" "batch_ok [[(''id'', BInt 2)]]" using fits[of 1] fits[of 2] by (simp_all add: batch_ok_def)
  have "whole_obj (doc_bytes [(''id'', BInt 1)])" by (rule batch_ok_doc[OF ok(1)]) simp
  from cursor_bytes[OF _ _ this, of "''Sung.npc''" "[[(''id'', BInt 1)]]" "[[[(''id'', BInt 2)]]]" 7
      "[demo_reply 7 [[(''id'', BInt 1)]], demo_reply 0 [[(''id'', BInt 2)]]]" 0 "demo_reply 0 []"] ok fits(2)[of 1]
  show ?thesis by (auto simp: NUL_def BufferMaxSize_def reply_of_def demo_reply_def cursor_docs_def)
qed

end
