(* ===== verification/SSchedule.thy ===== *)
theory SSchedule
imports SEngine
begin

text \<open>
  \<open>Engine/SScheduledTask.{h,cpp}\<close> and \<open>SScheduleEngine.{h,cpp}\<close>: tasks that run again and again on
  a timer, and the engine that starts them and runs them a last time. The timer is boost's
  \<open>deadline_timer\<close>, a parameter; \<open>Process\<close> is the virtual method of the task, a procedure on
  the rest of the program.
\<close>

section \<open>Timers\<close>

text \<open>
  The operations on a timer. \<open>tm_expired\<close> and \<open>tm_aborted\<close> are the moments at which the service
  calls the handler of a wait, because it expired or because it was cancelled.
\<close>

record 'k deadline_timer =
  tm_new :: "int \<Rightarrow> 'k"
  tm_expires_at :: "'k \<Rightarrow> int"
  tm_set_expiry :: "int \<Rightarrow> 'k \<Rightarrow> 'k"
  tm_async_wait :: "'k \<Rightarrow> 'k"
  tm_cancel :: "'k \<Rightarrow> 'k"
  tm_expired :: "'k \<Rightarrow> 'k"
  tm_aborted :: "'k \<Rightarrow> 'k"

text \<open>
  What the documentation of the timer says of them, with the number of waits that are pending
  and of handlers that are to be called because their wait was cancelled: setting a new expiry
  cancels the pending waits, and the handler of a cancelled wait is called too.
\<close>

definition documented_timer :: "'k deadline_timer \<Rightarrow> ('k \<Rightarrow> nat) \<Rightarrow> ('k \<Rightarrow> nat) \<Rightarrow> bool" where
  "documented_timer T waits aborted \<longleftrightarrow>
     (\<forall>r. waits (tm_new T r) = 0 \<and> aborted (tm_new T r) = 0) \<and>
     (\<forall>e k. tm_expires_at T (tm_set_expiry T e k) = e \<and> waits (tm_set_expiry T e k) = 0 \<and>
        aborted (tm_set_expiry T e k) = aborted k + waits k) \<and>
     (\<forall>k. tm_expires_at T (tm_async_wait T k) = tm_expires_at T k \<and>
        waits (tm_async_wait T k) = waits k + 1 \<and> aborted (tm_async_wait T k) = aborted k) \<and>
     (\<forall>k. tm_expires_at T (tm_cancel T k) = tm_expires_at T k \<and>
        waits (tm_cancel T k) = 0 \<and> aborted (tm_cancel T k) = aborted k + waits k) \<and>
     (\<forall>k. tm_expires_at T (tm_expired T k) = tm_expires_at T k \<and>
        waits (tm_expired T k) = waits k - 1 \<and> aborted (tm_expired T k) = aborted k) \<and>
     (\<forall>k. tm_expires_at T (tm_aborted T k) = tm_expires_at T k \<and>
        waits (tm_aborted T k) = waits k \<and> aborted (tm_aborted T k) = aborted k - 1)"

section \<open>Tasks\<close>

record 'k ScheduledTask =
  mTimer :: 'k
  mRefreshTime :: float32
  mRunAtExit :: bool
  task_mIsRunning :: bool

text \<open>The state of a task is the task and the program its \<open>Process\<close> works on.\<close>

type_synonym ('k, 'w) task_state = "'k ScheduledTask \<times> 'w"

text \<open>\<open>seconds(mRefreshTime)\<close> takes a \<open>long\<close>.\<close>

definition ScheduledTask_new :: "'k deadline_timer \<Rightarrow> float32 \<Rightarrow> bool \<Rightarrow> 'k ScheduledTask res" where
  "ScheduledTask_new T refreshTime runAtExit =
     run_then (float_to_long refreshTime) (\<lambda>r.
       Inr \<lparr>mTimer = tm_new T r, mRefreshTime = refreshTime, mRunAtExit = runAtExit, task_mIsRunning = False\<rparr>)"

definition RefreshTimer :: "'k deadline_timer \<Rightarrow> ('k, 'w) task_state act" where
  "RefreshTimer T s =
     with_res (float_to_long (mRefreshTime (fst s)))
       (\<lambda>r. effect (\<lambda>(t, w). (t\<lparr>mTimer := tm_async_wait T
          (tm_set_expiry T (tm_expires_at T (mTimer t) + r) (mTimer t))\<rparr>, w))) s"

definition Start :: "'k deadline_timer \<Rightarrow> ('k, 'w) task_state act" where
  "Start T =
     and_then (effect (\<lambda>(t, w). (t\<lparr>task_mIsRunning := True\<rparr>, w)))
       (\<lambda>s. with_res (float_to_long (mRefreshTime (fst s)))
          (\<lambda>r. effect (\<lambda>(t, w). (t\<lparr>mTimer := tm_async_wait T
             (tm_set_expiry T (tm_expires_at T (mTimer t) + r) (mTimer t))\<rparr>, w))) s)"

definition on_program :: "'w act \<Rightarrow> ('k, 'w) task_state act" where
  "on_program p s = (case p (snd s) of (f, w) \<Rightarrow> (f, (fst s, w)))"

definition Exit :: "'k deadline_timer \<Rightarrow> 'w act \<Rightarrow> ('k, 'w) task_state act" where
  "Exit T process s =
     (if task_mIsRunning (fst s) then
        and_then (effect (\<lambda>(t, w). (t\<lparr>task_mIsRunning := False, mTimer := tm_cancel T (mTimer t)\<rparr>, w)))
          (if mRunAtExit (fst s) then on_program process else done_with) s
      else done_with s)"

definition Tick :: "'k deadline_timer \<Rightarrow> 'w act \<Rightarrow> ('k, 'w) task_state act" where
  "Tick T process s =
     (if task_mIsRunning (fst s) then and_then (on_program process) (RefreshTimer T) s else done_with s)"

text \<open>The destructor: by then \<open>Process\<close> is the empty one of the base class.\<close>

definition ScheduledTask_delete :: "'k deadline_timer \<Rightarrow> ('k, 'w) task_state act" where
  "ScheduledTask_delete T = Exit T done_with"

text \<open>The service calls the handler of a wait that expired, or of one that was cancelled.\<close>

definition call_expired :: "'k deadline_timer \<Rightarrow> 'w act \<Rightarrow> ('k, 'w) task_state act" where
  "call_expired T process s = Tick T process ((fst s)\<lparr>mTimer := tm_expired T (mTimer (fst s))\<rparr>, snd s)"

definition call_aborted :: "'k deadline_timer \<Rightarrow> 'w act \<Rightarrow> ('k, 'w) task_state act" where
  "call_aborted T process s = Tick T process ((fst s)\<lparr>mTimer := tm_aborted T (mTimer (fst s))\<rparr>, snd s)"

section \<open>The engine\<close>

text \<open>
  The tasks of the engine with their \<open>Process\<close>. The constructor fills no list in this
  repository, so it starts an empty one.
\<close>

fun start_all :: "'k deadline_timer \<Rightarrow> ('w act \<times> 'k ScheduledTask) list \<Rightarrow> 'w
    \<Rightarrow> fault option \<times> ('w act \<times> 'k ScheduledTask) list" where
  "start_all T [] w = (None, [])"
| "start_all T ((p, t) # ts) w =
     (case Start T (t, w) of
        (None, t', w') \<Rightarrow> (case start_all T ts w' of (f, ts') \<Rightarrow> (f, (p, t') # ts'))
      | (Some f, t', w') \<Rightarrow> (Some f, (p, t') # ts))"

definition ScheduleEngine_new ::
  "'k deadline_timer \<Rightarrow> 'a bus_scheme \<Rightarrow>
     fault option \<times> ('a bus_scheme act \<times> 'k ScheduledTask) list \<times> 'a bus_scheme" where
  "ScheduleEngine_new T s =
     (let s' = set_engine ScheduleRef Engine_new s
      in case start_all T [] s' of (f, ts) \<Rightarrow> (f, ts, s'))"

fun exit_all :: "'k deadline_timer \<Rightarrow> ('w act \<times> 'k ScheduledTask) list \<Rightarrow> 'w act" where
  "exit_all T [] w = (None, w)"
| "exit_all T ((p, t) # ts) w =
     (case and_then (Exit T p) (ScheduledTask_delete T) (t, w) of
        (None, t', w') \<Rightarrow> exit_all T ts w'
      | (Some f, t', w') \<Rightarrow> (Some f, w'))"

definition ScheduleEngine_delete :: "'k deadline_timer \<Rightarrow> ('w act \<times> 'k ScheduledTask) list \<Rightarrow> 'w act" where
  "ScheduleEngine_delete T tasks w =
     (case exit_all T tasks w of (Some (Throw x), w') \<Rightarrow> (None, w') | r \<Rightarrow> r)"

text \<open>It overrides no handler.\<close>

definition schedule_method :: "slot \<Rightarrow> EngineEvent \<Rightarrow> 'a bus_scheme act" where
  "schedule_method v ent = done_with"

definition schedule_Frame :: "'a bus_scheme \<Rightarrow> (fault option \<times> 'a bus_scheme) option" where
  "schedule_Frame = ProcessQueue schedule_method ScheduleRef"

lemma schedule_event:
  fixes s :: "'a bus_scheme"
  shows "snd (ProcessEvent schedule_method e s) = s"
  by (rule ProcessEvent_cases[of "schedule_method :: slot \<Rightarrow> EngineEvent \<Rightarrow> 'a bus_scheme act" e])
    (simp_all add: schedule_method_def)

interpretation schedule_loop: event_loop "\<lambda>s. events s ScheduleRef" "set_events ScheduleRef"
    "ProcessEvent schedule_method" linked
  by unfold_locales (simp_all add: schedule_event)

lemma run_schedule:
  "\<exists>q'. snd (run_events (set_events ScheduleRef) (ProcessEvent schedule_method) q s) = set_events ScheduleRef q' s"
proof (induction q arbitrary: s)
  case Nil
  show ?case by (rule exI[of _ "events s ScheduleRef"]) simp
next
  case (Cons e q)
  have h: "snd (ProcessEvent schedule_method e (set_events ScheduleRef q s)) = set_events ScheduleRef q s"
    by (rule schedule_event)
  obtain q' where "snd (run_events (set_events ScheduleRef) (ProcessEvent schedule_method) q (set_events ScheduleRef q s))
      = set_events ScheduleRef q' s"
    using Cons.IH[of "set_events ScheduleRef q s"] by auto
  then show ?case using h
    by (cases "ProcessEvent schedule_method e (set_events ScheduleRef q s)") (auto split: option.split)
qed

text \<open>A frame of the schedule engine empties its queue, unless an event had no handler.\<close>

lemma schedule_Frame_run:
  assumes "linked s"
  shows "\<exists>r q. schedule_Frame s = Some (r, set_events ScheduleRef q s) \<and> (r = None \<longrightarrow> q = [])"
proof -
  let ?r = "run_events (set_events ScheduleRef) (ProcessEvent schedule_method) (events s ScheduleRef) s"
  obtain q where q: "snd ?r = set_events ScheduleRef q s" using run_schedule by blast
  then have "fst ?r = None \<longrightarrow> q = []" using schedule_loop.run_empty[OF assms refl] by simp
  then show ?thesis
    using schedule_loop.drain_run[OF assms] q
    by (intro exI[of _ "fst ?r"] exI[of _ q]) (simp add: schedule_Frame_def ProcessQueue_def prod_eq_iff)
qed


section \<open>A task and its timer\<close>

lemma documented_timerD:
  assumes "documented_timer T waits aborted"
  shows "waits (tm_new T r) = 0" "aborted (tm_new T r) = 0"
    "tm_expires_at T (tm_set_expiry T e k) = e" "waits (tm_set_expiry T e k) = 0"
    "aborted (tm_set_expiry T e k) = aborted k + waits k"
    "tm_expires_at T (tm_async_wait T k) = tm_expires_at T k" "waits (tm_async_wait T k) = waits k + 1"
    "aborted (tm_async_wait T k) = aborted k"
    "tm_expires_at T (tm_cancel T k) = tm_expires_at T k" "waits (tm_cancel T k) = 0"
    "aborted (tm_cancel T k) = aborted k + waits k"
    "tm_expires_at T (tm_expired T k) = tm_expires_at T k" "waits (tm_expired T k) = waits k - 1"
    "aborted (tm_expired T k) = aborted k"
    "tm_expires_at T (tm_aborted T k) = tm_expires_at T k" "waits (tm_aborted T k) = waits k"
    "aborted (tm_aborted T k) = aborted k - 1"
  using assms unfolding documented_timer_def by blast+

text \<open>A task that works without failing: what \<open>n\<close> calls of a handler come to.\<close>

definition calls :: "(('k, 'w) task_state act) \<Rightarrow> nat \<Rightarrow> ('k, 'w) task_state \<Rightarrow> ('k, 'w) task_state" where
  "calls h n = (\<lambda>s. snd (h s)) ^^ n"

lemma calls_simps [simp]: "calls h 0 s = s" "calls h (Suc n) s = snd (h (calls h n s))"
  by (simp_all add: calls_def)

text \<open>C40. A task that was started once has one wait pending and no cancelled one, before and after
  each time its wait expires. Its \<open>Process\<close> runs once for each, and the expiry moves on by the
  whole seconds of its period each time: a period below one second does not move it at all.\<close>

theorem task_period:
  fixes w :: 'w and g :: "'w \<Rightarrow> 'w"
  assumes T: "documented_timer T waits aborted" and r: "float_to_long refresh = Inr r"
    and new: "ScheduledTask_new T refresh atExit = Inr t"
  defines "s0 \<equiv> snd (Start T (t, w))"
  shows "fst (Start T (t, w)) = None \<and>
     (\<forall>n. let s = calls (call_expired T (effect g)) n s0
        in waits (mTimer (fst s)) = 1 \<and> aborted (mTimer (fst s)) = 0 \<and> task_mIsRunning (fst s) \<and>
           tm_expires_at T (mTimer (fst s)) = tm_expires_at T (mTimer t) + (int n + 1) * r \<and>
           snd s = (g ^^ n) w \<and> fst (call_expired T (effect g) s) = None)"
proof -
  note d = documented_timerD[OF T]
  have t: "t = \<lparr>mTimer = tm_new T r, mRefreshTime = refresh, mRunAtExit = atExit, task_mIsRunning = False\<rparr>"
    using new r by (simp add: ScheduledTask_new_def)
  have "let s = calls (call_expired T (effect g)) n s0
        in waits (mTimer (fst s)) = 1 \<and> aborted (mTimer (fst s)) = 0 \<and> task_mIsRunning (fst s) \<and>
           mRefreshTime (fst s) = refresh \<and>
           tm_expires_at T (mTimer (fst s)) = tm_expires_at T (mTimer t) + (int n + 1) * r \<and>
           snd s = (g ^^ n) w" for n
  proof (induction n)
    case 0
    then show ?case by (simp add: s0_def Start_def t r d Let_def)
  next
    case (Suc n)
    then show ?case
      by (simp add: call_expired_def Tick_def on_program_def RefreshTimer_def r d Let_def split_beta algebra_simps)
  qed
  then show ?thesis
    by (simp add: Let_def call_expired_def Tick_def on_program_def RefreshTimer_def r Start_def t split_beta)
qed

definition mem_timer :: "(int \<times> nat \<times> nat) deadline_timer" where
  "mem_timer = \<lparr>tm_new = (\<lambda>r. (r, 0, 0)), tm_expires_at = fst, tm_set_expiry = (\<lambda>e (_, p, a). (e, 0, a + p)),
     tm_async_wait = (\<lambda>(e, p, a). (e, p + 1, a)), tm_cancel = (\<lambda>(e, p, a). (e, 0, a + p)),
     tm_expired = (\<lambda>(e, p, a). (e, p - 1, a)), tm_aborted = (\<lambda>(e, p, a). (e, p, a - 1))\<rparr>"

lemma documented_mem_timer: "documented_timer mem_timer (\<lambda>k. fst (snd k)) (\<lambda>k. snd (snd k))"
  by (simp add: documented_timer_def mem_timer_def split_beta)

lemma float_to_long_values:
  "float_to_long 0x3F000000 = Inr 0" "float_to_long 0x40000000 = Inr 2"
  by (simp_all add: float_to_long_def f_exp_def f_man_def f_sign_def)

text \<open>Half a second: the task runs without its expiry ever moving.\<close>

theorem task_period_witness:
  "\<forall>n. tm_expires_at mem_timer (mTimer (fst (calls (call_expired mem_timer (effect Suc)) n
      (snd (Start mem_timer (\<lparr>mTimer = (0, 0, 0), mRefreshTime = 0x3F000000, mRunAtExit = False,
         task_mIsRunning = False\<rparr>, 0)))))) = 0"
proof -
  have "ScheduledTask_new mem_timer 0x3F000000 False = Inr \<lparr>mTimer = (0, 0, 0), mRefreshTime = 0x3F000000,
      mRunAtExit = False, task_mIsRunning = False\<rparr>"
    by (simp add: ScheduledTask_new_def float_to_long_values) (simp add: mem_timer_def)
  from task_period[OF documented_mem_timer float_to_long_values(1) this, of 0 Suc]
  show ?thesis by (simp add: Let_def) (simp add: mem_timer_def)
qed


text \<open>Once a task has exited it never runs again: its \<open>Process\<close> ran once more, and only for a
  task that asks for it, every handler still to be called and every further exit or deletion
  does nothing, and no wait is left pending.\<close>

theorem exit_is_final:
  assumes "documented_timer T waits aborted" "task_mIsRunning t"
    and s: "Exit T process (t, w) = (r, s)"
  shows "\<not> task_mIsRunning (fst s) \<and> waits (mTimer (fst s)) = 0 \<and>
     (r, snd s) = (if mRunAtExit t then process w else (None, w)) \<and>
     Tick T process s = (None, s) \<and> Exit T process s = (None, s) \<and> ScheduledTask_delete T s = (None, s) \<and>
     call_aborted T process s = (None, ((fst s)\<lparr>mTimer := tm_aborted T (mTimer (fst s))\<rparr>, snd s))"
  using assms(2) s documented_timerD(10)[OF assms(1)]
  by (auto simp: Exit_def Tick_def on_program_def ScheduledTask_delete_def call_aborted_def split: if_splits prod.splits)

definition ending_task :: "(int \<times> nat \<times> nat) ScheduledTask" where
  "ending_task = \<lparr>mTimer = (0, 1, 0), mRefreshTime = 0x40000000, mRunAtExit = True, task_mIsRunning = True\<rparr>"

theorem exit_is_final_witness:
  "let s = snd (Exit mem_timer (effect Suc) (ending_task, 0))
   in snd s = 1 \<and> Tick mem_timer (effect Suc) s = (None, s)"
proof -
  obtain r s where eq: "Exit mem_timer (effect Suc) (ending_task, 0) = (r, s)" by (meson surj_pair)
  have "task_mIsRunning ending_task" "mRunAtExit ending_task" by (simp_all add: ending_task_def)
  with exit_is_final[OF documented_mem_timer _ eq] show ?thesis by (simp add: eq)
qed

text \<open>A task that is started twice no longer waits: the second start cancels the wait of the
  first, the cancelled handler is called at once and does not look at the reason, and setting
  the expiry again cancels the wait that was left. Without any wait ever expiring there is
  always one more cancelled handler to call, and \<open>Process\<close> runs once for each.\<close>

theorem started_twice:
  fixes w :: 'w and g :: "'w \<Rightarrow> 'w"
  assumes T: "documented_timer T waits aborted" and r: "float_to_long refresh = Inr r"
    and new: "ScheduledTask_new T refresh atExit = Inr t"
  defines "s0 \<equiv> snd (Start T (snd (Start T (t, w))))"
  shows "let s = calls (call_aborted T (effect g)) n s0
     in waits (mTimer (fst s)) = 1 \<and> aborted (mTimer (fst s)) = 1 \<and> snd s = (g ^^ n) w"
proof -
  note d = documented_timerD[OF T]
  have t: "t = \<lparr>mTimer = tm_new T r, mRefreshTime = refresh, mRunAtExit = atExit, task_mIsRunning = False\<rparr>"
    using new r by (simp add: ScheduledTask_new_def)
  have "let s = calls (call_aborted T (effect g)) n s0
     in waits (mTimer (fst s)) = 1 \<and> aborted (mTimer (fst s)) = 1 \<and> task_mIsRunning (fst s) \<and>
        mRefreshTime (fst s) = refresh \<and> snd s = (g ^^ n) w"
  proof (induction n)
    case 0
    then show ?case by (simp add: s0_def Start_def t r d Let_def)
  next
    case (Suc n)
    then show ?case
      by (simp add: call_aborted_def Tick_def on_program_def RefreshTimer_def r d Let_def split_beta)
  qed
  then show ?thesis by (simp add: Let_def)
qed

theorem started_twice_witness:
  "\<forall>n. snd (calls (call_aborted mem_timer (effect Suc)) n
      (snd (Start mem_timer (snd (Start mem_timer (\<lparr>mTimer = (2, 0, 0), mRefreshTime = 0x40000000,
         mRunAtExit = False, task_mIsRunning = False\<rparr>, 0)))))) = n"
proof -
  have "ScheduledTask_new mem_timer 0x40000000 False = Inr \<lparr>mTimer = (2, 0, 0), mRefreshTime = 0x40000000,
      mRunAtExit = False, task_mIsRunning = False\<rparr>"
    by (simp add: ScheduledTask_new_def float_to_long_values) (simp add: mem_timer_def)
  from started_twice[OF documented_mem_timer float_to_long_values(2) this, of Suc _ 0]
  show ?thesis by (simp add: Let_def)
qed

section \<open>Stopping the engine\<close>

text \<open>What the tasks do when the engine is deleted, each in its turn.\<close>

fun last_runs :: "('w act \<times> 'k ScheduledTask) list \<Rightarrow> 'w act" where
  "last_runs [] w = (None, w)"
| "last_runs ((p, t) # ts) w =
     (if task_mIsRunning t \<and> mRunAtExit t then and_then p (last_runs ts) w else last_runs ts w)"

lemma exit_all_last_runs: "exit_all T tasks w = last_runs tasks w"
proof (induction tasks arbitrary: w)
  case (Cons pt ts)
  obtain p t where pt: "pt = (p, t)" by (cases pt)
  show ?case
    using Cons.IH
    by (cases "p w"; cases "fst (p w)")
      (auto simp: pt Exit_def ScheduledTask_delete_def on_program_def and_then_def split: prod.split option.split)
qed simp

text \<open>Deleting the schedule engine runs the tasks that are running and want to be run at the
  exit once more, once each and in their order, until one fails; the exceptions of a task do
  not leave the destructor.\<close>

theorem tasks_run_at_exit:
  "ScheduleEngine_delete T tasks w =
     (case last_runs tasks w of (Some (Throw x), w') \<Rightarrow> (None, w') | r \<Rightarrow> r)"
  by (simp add: ScheduleEngine_delete_def exit_all_last_runs)

end
