(* ===== verification/SGame.thy ===== *)
theory SGame
imports SNetEngine SDataBaseEngine SSchedule
begin

text \<open>
  \<open>Game/SGame.{h,cpp}\<close>: the object that makes the three engines, links them, runs their frames
  until it is told to stop, and takes them down; and \<open>explode\<close>, which cuts a string.
\<close>

section \<open>The game\<close>

text \<open>
  The engines and their queues are in \<open>game_net\<close>, with the state of the network engine. The
  state of the data base engine is its data base, that of the schedule engine its tasks.
\<close>

record ('m, 'k) Game =
  game_net :: NetEngine
  game_db :: 'm
  game_tasks :: "(NetEngine act \<times> 'k ScheduledTask) list"
  mIsStillRunning :: bool
  mNumThreads :: int
  mStartDate :: int

definition Game_new ::
  "(item list \<Rightarrow> string) \<Rightarrow> (string \<Rightarrow> string option) \<Rightarrow> int \<Rightarrow> (int \<Rightarrow> listening) \<Rightarrow> 'm DataBase \<Rightarrow> 'm \<Rightarrow>
     'k deadline_timer \<Rightarrow> int \<Rightarrow> int \<Rightarrow> ('m, 'k) Game res" where
  "Game_new archive files junk listen B db T now numThreads =
     (case NetEngine_new archive files junk listen (net_memory archive) of
        (Some f, n) \<Rightarrow> Inl f
      | (None, n) \<Rightarrow>
          (let d = DataBaseEngine_new B db n
           in case ScheduleEngine_new T (snd d) of
                (Some f, ts, s) \<Rightarrow> Inl f
              | (None, ts, s) \<Rightarrow>
                  Inr \<lparr>game_net = link_engines s, game_db = fst d, game_tasks = ts,
                    mIsStillRunning = True, mNumThreads = numThreads, mStartDate = now\<rparr>))"

text \<open>\<open>catch (std::exception &)\<close> and \<open>catch (...)\<close>: what is thrown is logged, and that is all.\<close>

definition caught :: "fault option \<times> 'g \<Rightarrow> fault option \<times> 'g" where
  "caught r = (case r of (Some (Throw x), w) \<Rightarrow> (None, w) | _ \<Rightarrow> r)"

text \<open>The destructor: the network engine goes first, and an exception of one ends the rest.\<close>

definition Game_delete :: "'m DataBase \<Rightarrow> 'k deadline_timer \<Rightarrow> ('m, 'k) Game act" where
  "Game_delete B T w = caught
     (case NetEngine_delete (game_net w) of
        (None, n) \<Rightarrow>
          (case ScheduleEngine_delete T (game_tasks w) n of
             (None, n') \<Rightarrow>
               (None, w\<lparr>game_net := n', game_tasks := [], game_db := DataBaseEngine_delete B (game_db w, n')\<rparr>)
           | (f, n') \<Rightarrow> (f, w\<lparr>game_net := n'\<rparr>))
      | (f, n) \<Rightarrow> (f, w\<lparr>game_net := n\<rparr>))"

definition Stop :: "('m, 'k) Game \<Rightarrow> ('m, 'k) Game" where
  "Stop w = w\<lparr>mIsStillRunning := False\<rparr>"

definition IsStillRunning :: "('m, 'k) Game \<Rightarrow> bool" where
  "IsStillRunning w = mIsStillRunning w"

text \<open>The text of a duration is the library's.\<close>

definition Uptime :: "(int \<Rightarrow> string) \<Rightarrow> int \<Rightarrow> ('m, 'k) Game \<Rightarrow> string" where
  "Uptime to_simple_string now w = to_simple_string (now - mStartDate w)"

section \<open>The one instance\<close>

text \<open>The static pointer: null, an object, or what is left of one that was deleted.\<close>

datatype 'g singleton = NoInstance | Live 'g | Dangling

definition GetInstance :: "'g res \<Rightarrow> 'g singleton \<Rightarrow> fault option \<times> 'g singleton" where
  "GetInstance new i =
     (case i of
        NoInstance \<Rightarrow> (case new of Inl f \<Rightarrow> (Some f, NoInstance) | Inr g \<Rightarrow> (None, Live g))
      | _ \<Rightarrow> (None, i))"

definition Destroy :: "'g act \<Rightarrow> 'g singleton \<Rightarrow> fault option \<times> 'g singleton" where
  "Destroy delete i =
     (case i of
        NoInstance \<Rightarrow> (None, NoInstance)
      | Live g \<Rightarrow> (fst (delete g), Dangling)
      | Dangling \<Rightarrow> (Some (Undefined ''deleted twice''), Dangling))"

section \<open>Frames\<close>

type_synonym 'g frame = "'g \<Rightarrow> (fault option \<times> 'g) option"

definition network_Frame ::
  "(EngineEvent \<Rightarrow> NetEngine act) \<Rightarrow> (EngineEvent \<Rightarrow> NetEngine act) \<Rightarrow> ('m, 'k) Game frame" where
  "network_Frame command console_command w =
     map_option (\<lambda>(r, n). (r, w\<lparr>game_net := n\<rparr>)) (Frame command console_command (game_net w))"

definition network_Frame_shared ::
  "(nat \<Rightarrow> NetEngine \<Rightarrow> NetEngine) \<Rightarrow> (EngineEvent \<Rightarrow> NetEngine act) \<Rightarrow> (EngineEvent \<Rightarrow> NetEngine act)
     \<Rightarrow> ('m, 'k) Game frame" where
  "network_Frame_shared arrive command console_command w =
     map_option (\<lambda>(r, n). (r, w\<lparr>game_net := n\<rparr>)) (Frame_shared arrive command console_command (game_net w))"

definition scheduler_Frame :: "('m, 'k) Game frame" where
  "scheduler_Frame w = map_option (\<lambda>(r, n). (r, w\<lparr>game_net := n\<rparr>)) (schedule_Frame (game_net w))"

definition database_Frame :: "(item list \<Rightarrow> string) \<Rightarrow> 'm DataBase \<Rightarrow> ('m, 'k) Game frame" where
  "database_Frame archive B w =
     map_option (\<lambda>(r, d). (r, w\<lparr>game_db := fst d, game_net := snd d\<rparr>)) (db_Frame archive B (game_db w, game_net w))"

text \<open>The frames that one pass of a loop calls, when nothing else happens meanwhile.\<close>

fun frames :: "'g frame list \<Rightarrow> 'g frame" where
  "frames [] w = Some (None, w)"
| "frames (f # fs) w =
     (case f w of
        Some (None, w') \<Rightarrow> frames fs w'
      | r \<Rightarrow> r)"

section \<open>Threads\<close>

text \<open>
  A thread of the game runs
  \<open>while (currentStillRunning) { ...Frame()...; currentStillRunning = mIsStillRunning; }\<close>. It has
  the frames of the body, each of which may depend on the time it is called at, and what it has
  still to run of them before it reads the flag again; \<open>None\<close> when it has ended.
\<close>

type_synonym 'g thread = "(nat \<Rightarrow> 'g frame) list \<times> (nat \<Rightarrow> 'g frame) list option"

definition thread_start :: "(nat \<Rightarrow> 'g frame) list \<Rightarrow> 'g thread" where
  "thread_start fs = (fs, Some [])"

text \<open>
  One step of a thread at the time \<open>k\<close>: it reads the flag, or it calls the next frame. What is
  thrown is caught outside of the loop and ends the thread.
\<close>

definition thread_turn ::
  "nat \<Rightarrow> ('m, 'k) Game thread \<Rightarrow> ('m, 'k) Game \<Rightarrow> (fault option \<times> ('m, 'k) Game thread \<times> ('m, 'k) Game) option" where
  "thread_turn k t w =
     (case snd t of
        None \<Rightarrow> Some (None, t, w)
      | Some [] \<Rightarrow> Some (None, (fst t, if mIsStillRunning w then Some (fst t) else None), w)
      | Some (f # rest) \<Rightarrow>
          map_option (\<lambda>r. (fst (caught r), (fst t, if fst r = None then Some rest else None), snd (caught r))) (f k w))"

text \<open>
  The threads until all have ended (\<open>join_all\<close>), or one has ended the process. Before the step
  \<open>k\<close> other threads have done \<open>other k\<close>: bytes received, connections accepted, a stop requested.
  The step is of the thread \<open>turn k\<close>, if there is one.
\<close>

partial_function (option) run_threads ::
  "(nat \<Rightarrow> ('m, 'k) Game \<Rightarrow> ('m, 'k) Game) \<Rightarrow> (nat \<Rightarrow> nat) \<Rightarrow> ('m, 'k) Game thread list \<Rightarrow> nat \<Rightarrow> ('m, 'k) Game frame"
where
  "run_threads other turn ts k w =
     (if list_all (\<lambda>t. snd t = None) ts then Some (None, w)
      else if turn k < length ts then
        (case thread_turn k (ts ! turn k) (other k w) of
           None \<Rightarrow> None
         | Some (Some f, t, w') \<Rightarrow> Some (Some f, w')
         | Some (None, t, w') \<Rightarrow> run_threads other turn (ts[turn k := t]) (k + 1) w')
      else run_threads other turn ts (k + 1) (other k w))"

text \<open>\<open>RunEngine\<close> and \<open>RunEngines\<close>, each the only thread looked at.\<close>

definition RunEngine ::
  "(nat \<Rightarrow> ('m, 'k) Game \<Rightarrow> ('m, 'k) Game) \<Rightarrow> (nat \<Rightarrow> ('m, 'k) Game frame) \<Rightarrow> ('m, 'k) Game frame" where
  "RunEngine other e = run_threads other (\<lambda>_. 0) [thread_start [e]] 0"

definition RunEngines ::
  "(nat \<Rightarrow> ('m, 'k) Game \<Rightarrow> ('m, 'k) Game) \<Rightarrow> (nat \<Rightarrow> ('m, 'k) Game frame) \<Rightarrow> (nat \<Rightarrow> ('m, 'k) Game frame)
     \<Rightarrow> ('m, 'k) Game frame" where
  "RunEngines other e e2 = run_threads other (\<lambda>_. 0) [thread_start [e, e2]] 0"

text \<open>
  \<open>Run\<close>: with threads, the default, \<open>RunEngine\<close> on the schedule engine and \<open>RunEngines\<close> on the
  two others, in the order of the steps that \<open>turn\<close> gives; else one loop over the three, in
  the thread that called it. \<open>arrive k\<close> is what other threads push while the network engine runs the
  frame of the step \<open>k\<close>.
\<close>

definition Run ::
  "(item list \<Rightarrow> string) \<Rightarrow> 'm DataBase \<Rightarrow> (EngineEvent \<Rightarrow> NetEngine act) \<Rightarrow> (EngineEvent \<Rightarrow> NetEngine act) \<Rightarrow>
     (nat \<Rightarrow> nat \<Rightarrow> NetEngine \<Rightarrow> NetEngine) \<Rightarrow> (nat \<Rightarrow> ('m, 'k) Game \<Rightarrow> ('m, 'k) Game) \<Rightarrow> (nat \<Rightarrow> nat) \<Rightarrow> ('m, 'k) Game frame" where
  "Run archive B command console_command arrive other turn w =
     (let schedule = (\<lambda>_. scheduler_Frame);
          net = (\<lambda>k. network_Frame_shared (arrive k) command console_command);
          db = (\<lambda>_. database_Frame archive B)
      in if 0 < mNumThreads w then run_threads other turn [thread_start [schedule], thread_start [net, db]] 0 w
         else run_threads other (\<lambda>_. 0) [thread_start [schedule, net, db]] 0 w)"

section \<open>Cutting strings\<close>

definition positions :: "string \<Rightarrow> char \<Rightarrow> nat list" where
  "positions pStr pSrch = filter (\<lambda>i. pStr ! i = pSrch) [0..<length pStr]"

definition explode_string :: "string \<Rightarrow> char \<Rightarrow> string list" where
  "explode_string pStr pSrch =
     (let vctPos = positions pStr pSrch
      in if 0 < length vctPos then
           take (vctPos ! 0) pStr #
           map (\<lambda>i. take (vctPos ! (i + 1) - vctPos ! i) (drop (vctPos ! i + 1) pStr)) [0..<length vctPos - 1] @
           [drop (vctPos ! (length vctPos - 1) + 1) pStr]
         else [pStr])"

end
