(* ===== verification/NetSessions.thy ===== *)
theory NetSessions
imports NetSteps
begin

text \<open>
  An abstract specification of the network engine, and a refinement. What the engine promises
  is a book of sessions: one opens under the next number and at the end of the list, one closes,
  and numbers are never used again. Every step of the engine is a sequence of such steps.
\<close>

section \<open>The book of sessions\<close>

text \<open>The next number, and for each session its number, its account and its name, in order.\<close>

type_synonym session_book = "int \<times> (int \<times> int \<times> string) list"

inductive session_step :: "session_book \<Rightarrow> session_book \<Rightarrow> bool" where
  opens: "session_step (n, ss) (n + 1, ss @ [(n, acct, name)])"
| closes: "session_step (n, pre @ x # post) (n, pre @ post)"
| skips: "session_step (n, ss) (n + 1, ss)"

inductive_cases session_stepE: "session_step b b'"

text \<open>The sessions are in the order of their numbers, all below the next one.\<close>

definition book_ok :: "session_book \<Rightarrow> bool" where
  "book_ok b \<longleftrightarrow> sorted_wrt (<) (map fst (snd b)) \<and> (\<forall>x \<in> set (snd b). fst x < fst b)"

lemma book_ok_step: "session_step b b' \<Longrightarrow> book_ok b \<Longrightarrow> book_ok b'"
  by (induction rule: session_step.induct) (force simp: book_ok_def sorted_wrt_append)+

lemma book_ok_steps: "session_step\<^sup>*\<^sup>* b b' \<Longrightarrow> book_ok b \<Longrightarrow> book_ok b'"
  by (induction rule: rtranclp_induct) (auto intro: book_ok_step)

text \<open>A session that is gone does not come back: its number stays below the next one.\<close>

lemma session_number_once:
  "session_step\<^sup>*\<^sup>* b b' \<Longrightarrow> fst b \<le> fst b' \<and> (\<forall>x \<in> set (snd b'). x \<in> set (snd b) \<or> fst b \<le> fst x)"
  by (induction rule: rtranclp_induct) (force elim: session_stepE)+

section \<open>The book of the engine\<close>

definition session_of :: "NetMachine \<Rightarrow> int \<times> int \<times> string" where
  "session_of k = (nm_mID k, nm_mAcctID k, nm_mAcctName k)"

definition sessions :: "NetEngine \<Rightarrow> session_book" where
  "sessions s = (mNextMachineID s, map (\<lambda>m. session_of (machines s m)) (mMachines s))"

lemma sessions_same [simp]:
  "sessions (PushEvent r e s) = sessions s"
  "sessions (set_events r q s) = sessions s"
  "sessions (deliver so e s) = sessions s"
  "sessions (set_socket so k s) = sessions s"
  "sessions (Close so s) = sessions s"
  "sessions (snd (SetBind so s)) = sessions s"
  "sessions (s\<lparr>mReceivedEvents := w\<rparr>) = sessions s"
  "sessions (s\<lparr>mAuth := a\<rparr>) = sessions s"
  "sessions (s\<lparr>auth_id := i\<rparr>) = sessions s"
  "sessions (SetParent so d s) = sessions s"
  by (simp_all add: sessions_def Close_def SetParent_def)

lemma sessions_set_machine:
  "session_of k = session_of (machines s m) \<Longrightarrow> sessions (set_machine m k s) = sessions s"
  by (auto simp: sessions_def)

lemma book_closes: "session_step\<^sup>*\<^sup>* (n, map f (pre @ m # post)) (n, map f (pre @ post))"
  unfolding map_append list.map by (rule r_into_rtranclp) (rule session_step.closes)

lemma sessions_removed: "session_step\<^sup>*\<^sup>* (sessions s) (sessions (removed m s))"
proof -
  have same: "session_of (machines (removed m s) n) = session_of (machines s n)" for n
    by (simp add: session_of_def)
  show ?thesis
  proof (cases "m \<in> set (mMachines s)")
    case True
    from split_list_first[OF this] obtain pre post
      where ms: "mMachines s = pre @ m # post" "m \<notin> set pre" by blast
    then have "remove1 m (mMachines s) = pre @ post" by (simp add: remove1_append)
    then show ?thesis unfolding sessions_def same removed_frame(2,9) ms(1) by (simp only: book_closes)
  next
    case False
    then show ?thesis by (simp add: sessions_def same remove1_idem del: removed_frame(3))
  qed
qed

lemma sessions_told: "session_step\<^sup>*\<^sup>* (sessions s) (sessions (told m e s))"
  by (simp add: told_def sessions_removed)

section \<open>Operations that refine it\<close>

definition refines :: "NetEngine act \<Rightarrow> bool" where
  "refines a \<longleftrightarrow> (\<forall>s. net_inv s \<longrightarrow> session_step\<^sup>*\<^sup>* (sessions s) (sessions (snd (a s))))"

lemma refinesI: "(\<And>s. net_inv s \<Longrightarrow> session_step\<^sup>*\<^sup>* (sessions s) (sessions (snd (a s)))) \<Longrightarrow> refines a"
  by (simp add: refines_def)

lemma refinesD: "refines a \<Longrightarrow> net_inv s \<Longrightarrow> session_step\<^sup>*\<^sup>* (sessions s) (sessions (snd (a s)))"
  by (simp add: refines_def)

lemma refines_same: "(\<And>s. net_inv s \<Longrightarrow> sessions (snd (a s)) = sessions s) \<Longrightarrow> refines a"
  by (simp add: refines_def)

named_theorems refines_intros \<open>operations of the network engine that refine the book of sessions\<close>

lemma refines_basic [refines_intros]: "refines done_with" "refines (fail_with f)"
  "refines (SendMessageToDataBase NetRef e)"
  by (rule refines_same, simp add: net_invD(1))+

lemma refines_and_then [refines_intros]:
  assumes "safe a" "refines a" "refines b"
  shows "refines (and_then a b)"
proof (rule refinesI)
  fix s assume i: "net_inv s"
  obtain r s' where a: "a s = (r, s')" by (cases "a s")
  show "session_step\<^sup>*\<^sup>* (sessions s) (sessions (snd (and_then a b s)))"
    using refinesD[OF assms(2) i] refinesD[OF assms(3), of s'] safeD(1)[OF assms(1) i] a
    by (cases r) (auto intro: rtranclp_trans)
qed

lemma refines_with_res [refines_intros]: "(\<And>x. refines (k x)) \<Longrightarrow> refines (with_res r k)"
  by (cases r) (auto simp: refines_def)

lemma refines_dyn: "(\<And>s. refines (f s)) \<Longrightarrow> refines (\<lambda>s. f s s)"
  by (simp add: refines_def)

lemma refines_tell: "net_inv s \<Longrightarrow> m \<in> set (mMachines s) \<Longrightarrow>
    session_step\<^sup>*\<^sup>* (sessions s) (sessions (snd (TCPSend m e s)))"
  by (simp add: TCPSend_inv sessions_told)

lemma refines_forward [refines_intros]: "refines (forward_to_machine ent)"
  by (rule refinesI)
    (auto simp: forward_to_machine_def with_res_def refines_tell machine_from_listed split: sum.split option.split)

lemma sessions_SaveMove: "linked s \<Longrightarrow> sessions (snd (SaveMove m s)) = sessions s"
  by (simp add: SaveMove_eq sessions_set_machine session_of_def split: option.split)

lemma refines_SaveMove [refines_intros]: "refines (SaveMove m)"
  by (rule refines_same) (simp add: sessions_SaveMove net_invD(1))

lemma sessions_erase:
  assumes "i < length (mMachines s)"
  shows "session_step\<^sup>*\<^sup>* (sessions s) (sessions (mMachines_update (erase_at i) s))"
  using book_closes[of "mNextMachineID s" "\<lambda>m. session_of (machines s m)" "take i (mMachines s)"
      "mMachines s ! i" "drop (Suc i) (mMachines s)"] id_take_nth_drop[OF assms]
  by (simp add: sessions_def erase_at_def del: map_append)

lemma refines_ProcessRemoveMachine [refines_intros]: "refines (ProcessRemoveMachine ent)"
proof (rule refinesI)
  fix s assume i: "net_inv s"
  note l = net_invD(1)[OF i]
  show "session_step\<^sup>*\<^sup>* (sessions s) (sessions (snd (ProcessRemoveMachine ent s)))"
  proof (cases "find_i ent ''ID''")
    case (Some ID)
    show ?thesis
    proof (cases "index_of_ID (machines s) ID (mMachines s)")
      case (Some j)
      obtain t where sv: "SaveMove (mMachines s ! j) s = (None, t)"
        using SaveMove_frame(1)[OF l] by (metis prod.collapse)
      have t: "mMachines t = mMachines s" "linked t" "sessions t = sessions s"
        using SaveMove_frame(2,5)[OF l, of "mMachines s ! j"] sessions_SaveMove[OF l, of "mMachines s ! j"]
        by (simp_all add: sv)
      then have "session_step\<^sup>*\<^sup>* (sessions (PushEvent DataBaseRef e t))
          (sessions (mMachines_update (erase_at j) (PushEvent DataBaseRef e t)))" for e
        using index_of_ID_Some[OF Some] by (intro sessions_erase) simp
      then show ?thesis
        using Some \<open>find_i ent ''ID'' = Some ID\<close> t
        by (simp add: ProcessRemoveMachine_def and_then_def sv)
    qed (simp add: ProcessRemoveMachine_def Some)
  qed (simp add: ProcessRemoveMachine_def)
qed

lemma sessions_refuse: "net_inv s \<Longrightarrow> sessions (snd (refuse so reason s)) = sessions s"
proof -
  let ?e = "put_s ''REASON'' reason (put_i ''ACCEPTED'' 0 (event_of MSG_NICK))"
  obtain r s' where "SendEvent so ?e s = (r, s')" by (cases "SendEvent so ?e s")
  then show ?thesis
    using SendEvent_snd[of so ?e s] by (cases r) (auto simp: refuse_def)
qed

text \<open>A login opens a session, which closes at once when the client cannot be told.\<close>

lemma sessions_enrolled:
  assumes "net_inv s"
  shows "session_step (sessions s) (sessions (enrolled auth address s))"
proof -
  have "m \<noteq> next_machine s" if "m \<in> set (mMachines s)" for m
    using net_invD(4)[OF assms that] by (auto simp: listed_ok_def)
  then have eq: "sessions (enrolled auth address s) = (mNextMachineID s + 1,
      map (\<lambda>m. session_of (machines s m)) (mMachines s) @
        [(mNextMachineID s, auth_mAcctId auth, auth_mAcctName auth)])"
    by (simp add: sessions_def) (simp add: login_machine_def session_of_def)
  show ?thesis unfolding eq unfolding sessions_def by (rule session_step.opens)
qed

lemma sessions_AcceptAuth:
  assumes i: "net_inv s" and so: "auth_mSocket auth < next_socket s"
  shows "session_step\<^sup>*\<^sup>* (sessions s) (sessions (snd (AcceptAuth auth s)))"
proof (cases "mNextMachineID s = INT_LIMIT")
  case True
  then show ?thesis by (simp add: AcceptAuth_def op_then_def GetNextMachineID_def)
next
  case False
  show ?thesis
  proof (cases "net_peer (sockets s (auth_mSocket auth))")
    case None
    have "m \<noteq> next_machine s" if "m \<in> set (mMachines s)" for m
      using net_invD(4)[OF i that] by (auto simp: listed_ok_def)
    then have "sessions (snd (AcceptAuth auth s)) = (mNextMachineID s + 1, snd (sessions s))"
      using False None net_invD(5)[OF i so]
      by (auto simp: AcceptAuth_def op_then_def GetNextMachineID_def NetMachine_new_def Let_def SetParent_def
          sessions_def)
    then show ?thesis using session_step.skips by (simp add: sessions_def r_into_rtranclp)
  next
    case (Some address)
    then show ?thesis
      using AcceptAuth_ok[OF i so False Some] sessions_enrolled[OF i, of auth address] sessions_told
      by (simp add: converse_rtranclp_into_rtranclp)
  qed
qed

lemma refines_ProcessAuth [refines_intros]: "refines (ProcessAuth ent)"
proof (rule refinesI)
  fix s assume i: "net_inv s"
  show "session_step\<^sup>*\<^sup>* (sessions s) (sessions (snd (ProcessAuth ent s)))"
    using net_invD(6)[OF i] sessions_AcceptAuth[OF i] sessions_refuse[OF i]
    by (cases "find_i ent ''ACCEPTED''"; cases "find_i ent ''ID''"; cases "find_i ent ''ACCT_ID''")
      (auto simp: ProcessAuth_def RejectAuth_def split: option.split)
qed

lemma sessions_broadcast:
  "net_inv s \<Longrightarrow> session_step\<^sup>*\<^sup>* (sessions s) (sessions (snd (broadcast p ent i s)))"
proof (induction p ent i s rule: broadcast.induct)
  case (1 p ent i s)
  let ?m = "mMachines s ! i"
  show ?case
  proof (cases "i < length (mMachines s) \<and> p ?m s")
    case True
    then have t: "TCPSend ?m ent s = (None, told ?m ent s)"
      using 1(3) by (intro TCPSend_inv) simp_all
    have "broadcast p ent i s = broadcast p ent (i + 1) (told ?m ent s)"
      using True by (subst broadcast.simps) (simp add: t)
    then show ?thesis
      using 1(1)[OF conjunct1[OF True] refl conjunct2[OF True] t[symmetric] refl] net_inv_told[OF 1(3)]
        sessions_told[of s ?m ent] by auto
  next
    case False
    then show ?thesis using 1(2,3) by (subst broadcast.simps) auto
  qed
qed

lemma refines_broadcast [refines_intros]: "refines (broadcast p ent i)"
  by (rule refinesI) (rule sessions_broadcast)

lemma refines_Machine_Move [refines_intros]: "refines (Machine_Move m ent)"
proof (rule refines_same)
  fix s assume i: "net_inv s"
  have "sessions (snd (count_move m t)) = sessions t" if "linked t" for t
    using that by (auto simp: count_move_eq Let_def sessions_set_machine session_of_def split: option.split)
  then show "sessions (snd (Machine_Move m ent s)) = sessions s"
    using net_invD(1)[OF i]
    by (auto simp: Machine_Move_def and_then_def with_res_def sessions_set_machine session_of_def
        split: option.split sum.split)
qed

section \<open>All handlers and all steps\<close>

lemma refines_net_method: "refines (net_method v ent)"
  by (cases v) (simp_all add: net_method_def ProcessEnvironmentInfo_def ProcessNpcProp_def
      ProcessPlayerProp_def ProcessCharactersList_def refines_intros)

lemma refines_dispatch: "(\<And>v. refines (f v ent)) \<Longrightarrow> refines (dispatch tab f ent)"
  by (simp add: refines_def dispatch_def Let_def)

lemma refines_DelPlayer: "refines (ProcessReceivedDelPlayer ent)"
proof (rule refinesI)
  fix s assume i: "net_inv s"
  have "refines (and_then (SendMessageToDataBase NetRef e) (broadcast p e 0))" for e p
    by (intro refines_intros safe_intros)
  from refinesD[OF this i]
  show "session_step\<^sup>*\<^sup>* (sessions s) (sessions (snd (ProcessReceivedDelPlayer ent s)))"
    by (cases "find_s ent ''PLAYER_NICK''")
      (auto simp: ProcessReceivedDelPlayer_def Let_def split: option.split)
qed

lemma refines_PlayerPos: "refines (ProcessReceivedPlayerPos ent)"
proof (rule refinesI)
  fix s assume i: "net_inv s"
  have "refines (and_then (Machine_Move m ent) (\<lambda>s. broadcast p (e s) 0 s))" for m p and e :: "NetEngine \<Rightarrow> EngineEvent"
    by (rule refines_and_then[OF safe_Machine_Move refines_Machine_Move refines_dyn[where f = "\<lambda>s. broadcast p (e s) 0"]])
      (rule refines_broadcast)
  from refinesD[OF this i]
  show "session_step\<^sup>*\<^sup>* (sessions s) (sessions (snd (ProcessReceivedPlayerPos ent s)))"
    by (cases "find_i ent ''ID''")
      (auto simp: ProcessReceivedPlayerPos_def split: option.split)
qed

lemma refines_recv_method:
  assumes "refines (command ent)" "refines (console_command ent)"
  shows "refines (recv_method command console_command v ent)"
proof -
  have "refines (ProcessReceivedChatEvent command ent)"
    using assms(1) sessions_broadcast
    by (auto simp: refines_def ProcessReceivedChatEvent_def with_res_def split: sum.split list.split)
  moreover have "refines (ProcessReceivedCharactersList ent)"
    by (auto intro!: refines_same simp: ProcessReceivedCharactersList_def with_res_def net_invD(1) split: sum.split)
  moreover have "refines (ProcessReceivedPing ent)"
    by (rule refinesI) (auto simp: ProcessReceivedPing_def with_res_def GetMachineFromID_def[symmetric]
        machine_from_listed refines_tell split: sum.split option.split)
  ultimately show ?thesis using assms(2)
    by (cases v) (simp_all add: recv_method_def ProcessReceivedLoad_def ProcessReceivedCreateCharacter_def
        ProcessReceivedDeleteCharacter_def ProcessReceivedPlayerProp_def ProcessReceivedNpcProp_def
        refines_intros refines_DelPlayer refines_PlayerPos)
qed

lemma refines_ProcessEvent: "refines (ProcessEvent net_method ent)"
  unfolding ProcessEvent_def by (intro refines_dispatch refines_net_method)

text \<open>Of the two commands that have no definition nothing is known: the events that run one are left out.\<close>

lemma refines_ProcessReceivedEvent:
  assumes "\<not> runs_command ent"
  shows "refines (ProcessReceivedEvent command cc ent)"
proof -
  have "refines (ProcessReceivedEvent (\<lambda>_. done_with) (\<lambda>_. done_with) ent)"
    unfolding ProcessReceivedEvent_def by (intro refines_dispatch refines_recv_method refines_intros)
  then show ?thesis using ProcessReceivedEvent_other[OF assms] by metis
qed

text \<open>The threads and the completions open no session: a connection becomes one by its answer.\<close>

lemma sessions_new_socket [simp]: "sessions (snd (new_socket s)) = sessions s"
  by (simp add: new_socket_def sessions_def)

lemma sessions_ignored [simp]:
  "sessions (s\<lparr>accepts := a\<rparr>) = sessions s" "sessions (s\<lparr>accepts_cons := a\<rparr>) = sessions s"
  "sessions (s\<lparr>threads := a\<rparr>) = sessions s" "sessions (s\<lparr>threads_cons := a\<rparr>) = sessions s"
  "sessions (s\<lparr>mTcpSocket := p\<rparr>) = sessions s" "sessions (s\<lparr>mTcpSocketCons := p\<rparr>) = sessions s"
  "sessions (s\<lparr>mConsoles := cs\<rparr>) = sessions s" "sessions (s\<lparr>consoles := cm\<rparr>) = sessions s"
  "sessions (s\<lparr>next_console := i\<rparr>) = sessions s" "sessions (s\<lparr>mNextConsoleID := ni\<rparr>) = sessions s"
  by (simp_all add: sessions_def)

lemma sessions_accept:
  "sessions (snd (HandleAcceptTcp error so s)) = sessions s"
  "sessions (snd (HandleAcceptTcpCons error so s)) = sessions s"
  by (simp_all add: HandleAcceptTcp_def HandleAcceptTcpCons_def Let_def)

lemma sessions_ServerThread:
  assumes "net_inv s" "so < next_socket s"
  shows "sessions (snd (ServerThreadTCPReceive decode memory acct so buffer s)) = sessions s"
proof -
  have sock: "so_mSocket (sockets s so)" using assms by (auto dest: net_invD(5))
  have b: "net_inv (snd (SetBind so s))" using assms(1) by (auto simp: SetBind_def Let_def net_inv_set_socket)
  have l: "linked (t\<lparr>auth_id := i, mAuth := a\<rparr>) = linked t" for t i a by (simp add: linked_def)
  show ?thesis
    using net_invD(1)[OF b]
    by (simp add: ServerThreadTCPReceive_def op_then_def SyncReceive_eq[OF sock] sessions_refuse[OF b] l)
qed

lemma sessions_ServerThreadCons: "sessions (snd (ServerThreadTcpReceiveCons so s)) = sessions s"
proof -
  have snd: "sessions (snd (Console_TCPSend c e t)) = sessions t" for c e t
    using SendEvent_snd
    by (auto simp: Console_TCPSend_def op_then_def split: option.split prod.split sum.split)
      (metis sessions_same(3) snd_conv)+
  have cons: "sessions (set_console c k t) = sessions t" for c k t by (simp add: set_console_def)
  show ?thesis
    by (auto simp: ServerThreadTcpReceiveCons_def op_then_def GetNextConsoleID_def NetConsole_new_def Let_def
        snd cons split: option.split)
qed

lemma sessions_AsyncRead: "sessions (snd (AsyncRead push_received decode so error bytes s)) = sessions s"
proof -
  have "sessions (snd (rebind k t)) = sessions t" for k t
    by (auto simp: rebind_def op_then_def SetBind_def Let_def)
  moreover have "sessions (push_received d e t) = sessions t" for d e t
    by (cases d) (simp_all add: push_received_def Machine_PushReceivedEvent_def
        Console_PushReceivedEvent_def Engine_PushReceivedEvent_def)
  ultimately show ?thesis by (auto simp: AsyncRead_def split: option.split)
qed

lemma sessions_step:
  assumes "net_step decode command cc s s'" "net_inv s"
  shows "session_step\<^sup>*\<^sup>* (sessions s) (sessions s')"
  using assms(1)
proof cases
  case (accept so w peer)
  then show ?thesis using sessions_accept(1)[of 0 so] by (metis rtranclp.rtrancl_refl sessions_ignored(1) sessions_same(4) snd_conv)
next
  case (accept_console so w peer)
  then show ?thesis using sessions_accept(2)[of 0 so] by (metis rtranclp.rtrancl_refl sessions_ignored(2) sessions_same(4) snd_conv)
next
  case (thread so memory acct buffer)
  let ?t = "s\<lparr>threads := remove1 so (threads s)\<rparr>"
  have "net_inv ?t" "so < next_socket ?t"
    using assms(2) thread(1) by (auto simp: net_inv_def listed_ok_def linked_def dest: notin_set_remove1)
  from sessions_ServerThread[OF this, of decode memory acct buffer] show ?thesis using thread(2) by simp
next
  case (thread_console so)
  then show ?thesis
    using sessions_ServerThreadCons[of so "s\<lparr>threads_cons := remove1 so (threads_cons s)\<rparr>"] by simp
next
  case (receive so error bytes)
  let ?t = "set_socket so ((sockets s so)\<lparr>so_receives := so_receives (sockets s so) - 1\<rparr>) s"
  show ?thesis using sessions_AsyncRead[of decode so error bytes ?t] receive by simp
next
  case (handle ent q)
  then show ?thesis using refinesD[OF refines_ProcessEvent, of "set_events NetRef q s" ent] assms(2) by simp
next
  case (handle_received ent q)
  then show ?thesis
    using refinesD[OF refines_ProcessReceivedEvent[OF handle_received(2)], of "s\<lparr>mReceivedEvents := q\<rparr>" command cc] assms(2) by simp
qed simp_all

lemma sessions_start: "net_start text files junk s \<Longrightarrow> sessions s = (1, [])"
proof -
  assume "net_start text files junk s"
  then obtain s0 where s0: "NetEngine_new text files junk (\<lambda>_. ListenOpen) (net_memory text) = (None, s0)"
    "s = link_engines s0"
    by (auto simp: net_start_def)
  have e: "engines (net_memory text) = (\<lambda>_. Engine_new)" by (simp add: net_memory_def)
  have "mMachines s = [] \<and> mNextMachineID s = 1"
    using s0(1)
    by (cases "ConfigFileParser_open files ''./Config/network.conf'' ''='' ''#'' ''EndConfigFile''")
      (auto simp: s0(2) NetEngine_new_def e GetConfigData_def open_console_acceptor_def open_acceptor_def
        new_socket_def Let_def and_then_def link_engines_def net_memory_def split: fault.splits if_splits)
  then show ?thesis by (simp add: sessions_def)
qed

lemma sessions_reachable:
  assumes "net_reachable decode command cc s"
  shows "session_step\<^sup>*\<^sup>* (1, []) (sessions s)"
  using assms
proof induction
  case (start archive files junk s)
  then show ?case by (simp add: sessions_start)
next
  case (step s s')
  have "net_inv s"
    using idle_reachable[OF step(1)] by (simp add: idle_inv_def)
  from rtranclp_trans[OF step(3) sessions_step[OF step(2) this]] show ?case .
qed

text \<open>C3. The network engine refines the book of sessions: from its construction on, whatever bytes the
  clients send and however the threads interleave, each of its steps opens, closes or skips
  sessions, one after the other. So its list is always in the order in which the machines
  logged in, with growing numbers, and a number that was taken off it is never given again. The
  steps are those of \<open>net_step\<close>: every event of both queues is handled by one, except those
  that call the two methods without a definition, a console command and a chat line that
  begins with a dot, and those whose handler throws; nothing is assumed or claimed of a run that goes
  beyond one of these.\<close>

theorem engine_refines_sessions:
  assumes "net_reachable decode command console_command s"
    and "net_step decode command console_command s s'"
  shows "session_step\<^sup>*\<^sup>* (1, []) (sessions s) \<and> session_step\<^sup>*\<^sup>* (sessions s) (sessions s') \<and>
     sorted_wrt (<) (map (\<lambda>m. nm_mID (machines s' m)) (mMachines s')) \<and>
     (\<forall>m \<in> set (mMachines s'). session_of (machines s' m) \<notin> set (snd (sessions s)) \<longrightarrow>
        mNextMachineID s \<le> nm_mID (machines s' m))"
proof -
  have "net_inv s"
    using idle_reachable[OF assms(1)] by (simp add: idle_inv_def)
  from sessions_step[OF assms(2) this]
  have 1: "session_step\<^sup>*\<^sup>* (1, []) (sessions s)" "session_step\<^sup>*\<^sup>* (sessions s) (sessions s')"
    using sessions_reachable[OF assms(1)] by simp_all
  have "map fst (snd (sessions s')) = map (\<lambda>m. nm_mID (machines s' m)) (mMachines s')"
    by (simp add: sessions_def session_of_def)
  moreover have "book_ok (sessions s')"
    using book_ok_steps[OF rtranclp_trans[OF 1]] by (simp add: book_ok_def)
  ultimately have "sorted_wrt (<) (map (\<lambda>m. nm_mID (machines s' m)) (mMachines s'))"
    unfolding book_ok_def by simp
  moreover have "fst (session_of k) = nm_mID k" for k by (simp add: session_of_def)
  ultimately show ?thesis
    using 1 session_number_once[OF 1(2)] by (auto simp: sessions_def)
qed

text \<open>The step of the first login, which opens the session 1.\<close>

theorem engine_refines_sessions_witness:
  "\<exists>s s'. net_step (\<lambda>_. Some nick_bob) (\<lambda>_. done_with) (\<lambda>_. done_with) s s' \<and>
     session_step\<^sup>*\<^sup>* (1, []) (sessions s) \<and> session_step\<^sup>*\<^sup>* (sessions s) (sessions s') \<and>
     snd (sessions s) = [] \<and> map fst (snd (sessions s')) = [1]"
proof -
  obtain s s' where s: "net_reachable (\<lambda>_. Some nick_bob) (\<lambda>_. done_with) (\<lambda>_. done_with) s"
    "net_step (\<lambda>_. Some nick_bob) (\<lambda>_. done_with) (\<lambda>_. done_with) s s'" "mMachines s = []"
    "mMachines s' = [0]" "nm_mID (machines s' 0) = 1"
    using first_login by blast
  from engine_refines_sessions[OF s(1,2)] s show ?thesis
    by (intro exI[of _ s] exI[of _ s']) (simp add: sessions_def session_of_def)
qed

end
