(* ===== verification/GameProps.thy ===== *)
theory GameProps
imports SGame NetLogin NetSteps DataBaseProps
begin

text \<open>
  The engines together: the threads of the game end when a stop is requested, in whatever order
  they take their turns; a login goes from the bytes of the client to the machine on the
  list in two rounds of the frames, and what it leaves behind; the pieces of \<open>explode\<close>.
\<close>

section \<open>The threads\<close>









lemma net_inv_answered [simp]: "net_inv (answered es s) = net_inv s" "mReceivedEvents (answered es s) = mReceivedEvents s"
  by (simp_all add: answered_def)




definition demo_game :: "NetEngine \<Rightarrow> bson_obj list \<Rightarrow> ((string \<Rightarrow> bson_obj list) DataBaseMongo, int \<times> nat \<times> nat) Game" where
  "demo_game n accts = \<lparr>game_net = n, game_db = demo_db ((\<lambda>_. [])(accounts := accts)), game_tasks = [],
     mIsStillRunning = True, mNumThreads = 0, mStartDate = 0\<rparr>"

lemma demo_game_sel [simp]: "game_net (demo_game n a) = n" "mIsStillRunning (demo_game n a)"
  "game_db (demo_game n a) = demo_db ((\<lambda>_. [])(accounts := a))"
  by (simp_all add: demo_game_def)


section \<open>One round of the frames\<close>

lemma scheduler_idle: "events (game_net w) ScheduleRef = [] \<Longrightarrow> scheduler_Frame w = Some (None, w)"
  by (simp add: scheduler_Frame_def schedule_Frame_def ProcessQueue_def drain.simps)

lemma network_idle:
  "events (game_net w) NetRef = [] \<Longrightarrow> mReceivedEvents (game_net w) = [] \<Longrightarrow>
     network_Frame command console_command w = Some (None, w)"
  by (simp add: network_Frame_def Frame_def ProcessQueue_def ProcessReceivedQueue_def drain.simps)

lemma network_shared_idle:
  "events (game_net w) NetRef = [] \<Longrightarrow> mReceivedEvents (game_net w) = [] \<Longrightarrow>
     network_Frame_shared (\<lambda>_ s. s) command console_command w = Some (None, w)"
  by (simp add: network_Frame_shared_def Frame_shared_def drain_shared.simps)

lemma network_one:
  assumes "events (game_net w) NetRef = [e]" "mReceivedEvents (game_net w) = []"
    and h: "ProcessEvent net_method e (set_events NetRef [] (game_net w)) = (None, n)"
    and "events n NetRef = []" "mReceivedEvents n = []"
  shows "network_Frame command console_command w = Some (None, w\<lparr>game_net := n\<rparr>)"
proof -
  have "drain (\<lambda>s. events s NetRef) (set_events NetRef) (ProcessEvent net_method) n = Some (None, n)"
    using assms(4) by (simp add: drain.simps)
  then have "ProcessQueue net_method NetRef (game_net w) = Some (None, n)"
    using assms(1) h unfolding ProcessQueue_def by (subst drain.simps) simp
  moreover have "ProcessReceivedQueue command console_command n = Some (None, n)"
    using assms(5) by (simp add: ProcessReceivedQueue_def drain.simps)
  ultimately show ?thesis by (simp add: network_Frame_def Frame_def)
qed

lemma database_one:
  assumes "events (game_net w) DataBaseRef = [e]" "linked (game_net w)"
    and h: "ProcessEvent (db_method archive B) e (game_db w, set_events DataBaseRef [] (game_net w)) = (r, d, n)"
  shows "database_Frame archive B w = Some (r, w\<lparr>game_db := d, game_net := n\<rparr>)"
proof -
  have q: "db_queue (game_db w, game_net w) = [e]" using assms(1) by (simp add: db_queue_def)
  have "db_Frame archive B (game_db w, game_net w) = Some (r, d, n)"
    using db_loop.drain_run[of "(game_db w, game_net w)" archive B] assms(2) h
    by (simp add: db_Frame_def q set_db_queue_def split: option.split)
  then show ?thesis by (simp add: database_Frame_def)
qed

text \<open>The engine whose only work is the question of a client that wants to log in.\<close>

definition asking ::
  "(string \<Rightarrow> EngineEvent option) \<Rightarrow> EngineEvent \<Rightarrow> int \<Rightarrow> nat \<Rightarrow> string option \<Rightarrow> NetEngine \<Rightarrow> string \<Rightarrow> string \<Rightarrow> bool" where
  "asking decode memory acct so buffer n name pass \<longleftrightarrow>
     net_inv n \<and> so < next_socket n \<and> (\<forall>r. events n r = []) \<and> mReceivedEvents n = [] \<and>
     map_find (mAuth n) (auth_id n + 1) = None \<and>
     mType (first_event decode memory buffer) = MSG_NICK \<and> name \<noteq> [] \<and>
     at_s (first_event decode memory buffer) ''ACCT_NAME'' = name \<and>
     at_s (first_event decode memory buffer) ''PASS'' = pass"

text \<open>What the thread of the connection leaves for the engines.\<close>

lemma asking_state:
  assumes "asking decode mem acct so buffer n name pass"
    and "m = snd (ServerThreadTCPReceive decode mem acct so buffer n)"
  shows "m = (snd (SetBind so n))\<lparr>auth_id := auth_id n + 1, mAuth := map_insert (auth_id n + 1)
       \<lparr>auth_mAcctName = name, auth_mAcctId = acct, auth_mSocket = so\<rparr> (mAuth n),
       engines := engines (PushEvent DataBaseRef (auth_request (auth_id n + 1) name pass) n)\<rparr>"
    (is "m = ?m")
    and "net_inv m" "events m r = (if r = DataBaseRef then [auth_request (auth_id n + 1) name pass] else [])"
    and "map_find (mAuth m) (auth_id n + 1) = Some \<lparr>auth_mAcctName = name, auth_mAcctId = acct, auth_mSocket = so\<rparr>"
proof -
  note a = assms(1)[unfolded asking_def]
  have sock: "so_mSocket (sockets n so)" using a net_invD(5) by blast
  let ?u = "(snd (SetBind so n))\<lparr>auth_id := auth_id n + 1, mAuth := map_insert (auth_id n + 1)
       \<lparr>auth_mAcctName = name, auth_mAcctId = acct, auth_mSocket = so\<rparr> (mAuth n)\<rparr>"
  have l: "linked ?u" using a by (simp add: linked_def net_inv_def)
  have m: "m = PushEvent DataBaseRef (auth_request (auth_id n + 1) name pass) ?u"
    using a l by (auto simp: assms(2) ServerThreadTCPReceive_def op_then_def SyncReceive_eq[OF sock])
  then show "m = ?m" by (simp add: PushEvent_def set_events_def set_engine_def events_def)
  show "map_find (mAuth m) (auth_id n + 1) = Some \<lparr>auth_mAcctName = name, auth_mAcctId = acct, auth_mSocket = so\<rparr>"
    using a by (simp add: m)
  have "events ?u x = events n x" for x by (simp add: events_def)
  then show "events m r = (if r = DataBaseRef then [auth_request (auth_id n + 1) name pass] else [])"
    using a by (simp add: m)
  show "net_inv m" using a unfolding m net_inv_PushEvent
    by (auto simp: net_inv_def listed_ok_def linked_def dest!: map_insert_set)
qed

section \<open>A login with an unknown name\<close>

lemma auth_request_asks: "asks_auth (auth_request i name pass) (sint i) name pass"
  by (simp add: asks_auth_def auth_request_def)

text \<open>
  Two threads, of which the second ends in an exception of its second frame: the first reads a
  flag that nobody clears, and goes on.
\<close>

lemma never_joined:
  assumes u: "s k u = Some (None, u)" "n k u = Some (None, u)" "d k u = Some (Some (Throw x), v)" "mIsStillRunning u"
    and v: "s k v = Some (None, v)" "mIsStillRunning v"
    and time: "\<And>j. s j = s k" "\<And>j. n j = n k" "\<And>j. d j = d k"
  shows "run_threads (\<lambda>_ w. w) turn [thread_start [s], thread_start [n, d]] j u = None"
proof -
  define J where "J ts w \<longleftrightarrow> (\<exists>r0 r1. ts = [([s], Some r0), ([n, d], r1)] \<and> (r0 = [] \<or> r0 = [s]) \<and>
      (r1 = None \<and> w = v \<or> (r1 = Some [] \<or> r1 = Some [n, d] \<or> r1 = Some [d]) \<and> w = u))" for ts and w :: "('a, 'b) Game"
  have Js: "J [([s], Some r0), ([n, d], r1)] w \<longleftrightarrow> (r0 = [] \<or> r0 = [s]) \<and>
      (r1 = None \<and> w = v \<or> (r1 = Some [] \<or> r1 = Some [n, d] \<or> r1 = Some [d]) \<and> w = u)" for r0 r1 w
    by (simp add: J_def)
  have turns: "\<exists>t w'. thread_turn j (ts ! i) w = Some (None, t, w') \<and> J (ts[i := t]) w'"
    if J: "J ts w" and i: "i < length ts" for ts w i j
  proof -
    obtain r0 r1 where ts: "ts = [([s], Some r0), ([n, d], r1)]" using J by (auto simp: J_def)
    have "i = 0 \<or> i = 1" using i by (auto simp: ts)
    then show ?thesis using J u v time[of j] unfolding ts Js
      by (elim disjE conjE) (simp_all add: thread_turn_def caught_def Js)
  qed
  have J: "J ts w \<longrightarrow> other = (\<lambda>_ w. w) \<longrightarrow> False" if "run_threads other turn ts j w = Some y" for other turn ts j w y
  proof (rule run_threads.raw_induct[where P = "\<lambda>other turn ts k w y. J ts w \<longrightarrow> other = (\<lambda>_ w. w) \<longrightarrow> False", OF _ that], intro impI)
    fix run and other :: "nat \<Rightarrow> ('a, 'b) Game \<Rightarrow> ('a, 'b) Game" and turn ts k w y
    assume IH: "\<And>other turn ts k w y. run other turn ts k w = Some y \<Longrightarrow> J ts w \<longrightarrow> other = (\<lambda>_ w. w) \<longrightarrow> False"
      and body: "(if list_all (\<lambda>t. snd t = None) ts then Some (None, w)
        else if turn k < length ts
          then case thread_turn k (ts ! turn k) (other k w) of None \<Rightarrow> None
            | Some (None, t, w') \<Rightarrow> run other turn (ts[turn k := t]) (k + 1) w'
            | Some (Some f, t, w') \<Rightarrow> Some (Some f, w')
        else run other turn ts (k + 1) (other k w)) = Some y"
      and J: "J ts w" and other: "other = (\<lambda>_ w. w)"
    have "\<not> list_all (\<lambda>t. snd t = None) ts" using J by (auto simp: J_def)
    then obtain ts' w' where "run other turn ts' (k + 1) w' = Some y" "J ts' w'"
      using body J turns[OF J, of "turn k" k] unfolding other by (cases "turn k < length ts") auto
    then show False using IH other by blast
  qed
  have "J [thread_start [s], thread_start [n, d]] u" by (simp add: J_def thread_start_def)
  with J show ?thesis by (metis not_None_eq)
qed

text \<open>C9. One client is enough to stop the server. When the name of a login has no account and nothing else
  happens meanwhile, the exception of the data base ends the loop over the network engine and
  the data base engine in the same pass: with threads, as the game is made by default, their thread is gone and \<open>Run\<close> never returns, because the thread of the
  schedule engine goes on, in whatever order the two take their turns; without threads \<open>Run\<close> returns. The flag still says that the server is running, the client is neither
  answered nor disconnected, and its login stays pending.\<close>

theorem unknown_login_stops_server:
  assumes doc: "documented V docs sat" "mConnection (game_db w)"
    and asks: "asking decode mem acct so buffer n name pass"
    and w: "game_net w = snd (ServerThreadTCPReceive decode mem acct so buffer n)" "mIsStillRunning w"
    and none: "\<forall>d \<in> set (docs (mongo_store (game_db w)) accounts). getField d ''name'' \<noteq> Some (BString name)"
    and run: "run = Run archive (DataBaseMongo archive memory V) command console_command (\<lambda>_ _ s. s) (\<lambda>_ w. w) turn w"
  shows "\<exists>w'. (mNumThreads w \<le> 0 \<longrightarrow> run = Some (None, w')) \<and> (0 < mNumThreads w \<longrightarrow> run = None) \<and>
     RunEngines (\<lambda>_ w. w) (\<lambda>_. network_Frame_shared (\<lambda>_ s. s) command console_command)
       (\<lambda>_. database_Frame archive (DataBaseMongo archive memory V)) w = Some (None, w') \<and>
     mIsStillRunning w' \<and> game_db w' = game_db w \<and>
     (\<forall>r. events (game_net w') r = []) \<and> map_find (mAuth (game_net w')) (auth_id n + 1) \<noteq> None \<and>
     (\<forall>k. so_sent (sockets (game_net w') k) = so_sent (sockets n k) \<and>
          so_is_open (sockets (game_net w') k) = so_is_open (sockets n k))"
proof -
  let ?m = "game_net w" and ?B = "DataBaseMongo archive memory V"
  let ?w = "w\<lparr>game_net := set_events DataBaseRef [] ?m\<rparr>"
  note m = asking_state[OF asks w(1)]
  have l: "linked ?m" by (rule net_invD(1)[OF m(2)])
  have "filter (\<lambda>d. getField d ''name'' = Some (BString name)) (docs (mongo_store (game_db w)) accounts) = []"
    using none by (simp add: filter_empty_conv)
  then have "ProcessEvent (db_method archive ?B) (auth_request (auth_id n + 1) name pass)
      (game_db w, set_events DataBaseRef [] ?m) =
    (Some (Throw ''13422''), game_db w, set_events DataBaseRef [] ?m)"
    using login_decided_at[OF doc(1) _ _ auth_request_asks, of "(game_db w, set_events DataBaseRef [] ?m)"] doc(2) l
    by simp
  then have db: "database_Frame archive ?B w = Some (Some (Throw ''13422''), ?w)"
    using database_one[of w _ archive ?B] m(3) l by simp
  have sch: "scheduler_Frame w = Some (None, w)" "scheduler_Frame ?w = Some (None, ?w)"
    by (rule scheduler_idle, simp add: m(3))+
  have net: "network_Frame_shared (\<lambda>_ s. s) command console_command w = Some (None, w)"
    using asks m(3) by (intro network_shared_idle) (simp_all add: m(1) asking_def)
  have "run = Some (None, ?w)" if "mNumThreads w \<le> 0"
    using that w(2) sch db net by (simp add: run Run_def run_threads.simps thread_turn_def thread_start_def caught_def)
  moreover have "run = None" if "0 < mNumThreads w"
    using that w(2) sch db net unfolding run Run_def Let_def
    by (simp add: never_joined[where k = 0 and v = ?w and x = "''13422''"])
  moreover have "RunEngines (\<lambda>_ w. w) (\<lambda>_. network_Frame_shared (\<lambda>_ s. s) command console_command)
      (\<lambda>_. database_Frame archive ?B) w = Some (None, ?w)"
    using w(2) db net by (simp add: RunEngines_def run_threads.simps thread_turn_def thread_start_def caught_def)
  moreover have "so_sent (sockets ?m k) = so_sent (sockets n k)"
    "so_is_open (sockets ?m k) = so_is_open (sockets n k)" for k by (simp_all add: m(1))
  ultimately show ?thesis using w(2) m(3,4) by (intro exI[of _ ?w]) auto
qed

definition quiet_net :: "(nat \<Rightarrow> bool) \<Rightarrow> NetEngine" where
  "quiet_net ok = (demo_net ok)\<lparr>mAuth := [], auth_id := 7\<rparr>"

lemma quiet_asking:
  "asking (\<lambda>_. Some nick_bob) (event_of AUTH) 0 3 (Some ''bytes'') (quiet_net ok) ''bob'' ''secret''"
proof -
  have "net_inv (quiet_net ok)" using demo_inv[of ok]
    by (simp add: quiet_net_def net_inv_def listed_ok_def linked_def map_wf_def)
  moreover have "events (quiet_net ok) r = []" "mReceivedEvents (quiet_net ok) = []" "next_socket (quiet_net ok) = 4"
    for r using demo_frame(13)[of ok r] unfolding events_def by (simp_all add: quiet_net_def)
  ultimately show ?thesis by (simp add: asking_def first_event_def nick_bob_def at_s_def quiet_net_def)
qed

theorem unknown_login_stops_server_witness:
  "Run (\<lambda>_. []) (DataBaseMongo (\<lambda>_. []) demo_memory mem_server) (\<lambda>_. done_with) (\<lambda>_. done_with)
     (\<lambda>_ _ s. s) (\<lambda>_ w. w) (\<lambda>k. k mod 2)
     ((demo_game (snd (ServerThreadTCPReceive (\<lambda>_. Some nick_bob) (event_of AUTH) 0 3 (Some ''bytes'')
        (quiet_net (\<lambda>_. True)))) [])\<lparr>mNumThreads := 1\<rparr>) = None"
proof -
  let ?w = "(demo_game (snd (ServerThreadTCPReceive (\<lambda>_. Some nick_bob) (event_of AUTH) 0 3 (Some ''bytes'')
        (quiet_net (\<lambda>_. True)))) [])\<lparr>mNumThreads := 1\<rparr>"
  have w: "mConnection (game_db ?w)" "mIsStillRunning ?w" "0 < mNumThreads ?w"
    "game_net ?w = snd (ServerThreadTCPReceive (\<lambda>_. Some nick_bob) (event_of AUTH) 0 3 (Some ''bytes'') (quiet_net (\<lambda>_. True)))"
    "\<forall>d \<in> set (mongo_store (game_db ?w) accounts). getField d ''name'' \<noteq> Some (BString ''bob'')" by simp_all
  from unknown_login_stops_server[OF documented_mem_server, of ?w, OF w(1) quiet_asking[of "\<lambda>_. True"] w(4,2,5) refl] w(3)
  show ?thesis by blast
qed

section \<open>A login from end to end\<close>

lemma auth_answer_finds:
  "mType (auth_answer_event i name a) = AUTH" "find_i (auth_answer_event i name a) ''ID'' = Some i"
  "find_i (auth_answer_event i name (Some acct)) ''ACCEPTED'' = Some 1"
  "find_i (auth_answer_event i name (Some acct)) ''ACCT_ID'' = Some acct"
  by (simp_all add: auth_answer_event_def Let_def split: option.split)

text \<open>The network engine takes the answer, and the client is told.\<close>

lemma answer_accepted:
  assumes inv: "net_inv s" and auth: "map_find (mAuth s) i = Some auth"
    and env: "mNextMachineID s \<noteq> INT_LIMIT" "net_peer (sockets s (auth_mSocket auth)) = Some address"
      "sends s (auth_mSocket auth)"
  shows "ProcessEvent net_method (auth_answer_event (sint i) name (Some acct)) s =
     (None, deliver (auth_mSocket auth) accept_event (enrolled (auth\<lparr>auth_mAcctId := acct\<rparr>) address s))"
proof -
  let ?auth = "auth\<lparr>auth_mAcctId := acct\<rparr>"
  have "ProcessEvent net_method (auth_answer_event (sint i) name (Some acct)) s = AcceptAuth ?auth s"
    using auth by (simp add: ProcessEvent_slot net_method_def ProcessAuth_def auth_answer_finds need_def)
  also have "\<dots> = (None, told (next_machine s) accept_event (enrolled ?auth address s))"
    using env net_invD(6)[OF inv auth] by (intro AcceptAuth_ok[OF inv]) simp_all
  finally show ?thesis
    using env(3) by (simp add: told_def machine_sends_def machine_socket_def login_machine_def sends_def)
qed

text \<open>The first round: the data base answers.\<close>

lemma login_round_one:
  assumes doc: "documented V docs sat" "mConnection (game_db w)"
    and asks: "asking decode mem acct_mem so buffer n name pass"
    and w: "game_net w = snd (ServerThreadTCPReceive decode mem acct_mem so buffer n)"
    and found: "filter (\<lambda>d. getField d ''name'' = Some (BString name)) (docs (mongo_store (game_db w)) accounts) = [a]"
      "getIntField a ''id'' = Inr acct" "pass = getStringField a ''password''"
  shows "frames [scheduler_Frame, network_Frame command console_command,
      database_Frame archive (DataBaseMongo archive memory V)] w =
    Some (None, w\<lparr>game_net := PushEvent NetRef (auth_answer_event (sint (auth_id n + 1)) name (Some acct))
       (set_events DataBaseRef [] (game_net w))\<rparr>)"
proof -
  note m = asking_state[OF asks w]
  have l: "linked (game_net w)" by (rule net_invD(1)[OF m(2)])
  have "mReceivedEvents (game_net w) = []" using asks by (simp add: m(1) asking_def)
  moreover have "ProcessEvent (db_method archive (DataBaseMongo archive memory V)) (auth_request (auth_id n + 1) name pass)
      (game_db w, set_events DataBaseRef [] (game_net w)) =
    (None, game_db w, PushEvent NetRef (auth_answer_event (sint (auth_id n + 1)) name (Some acct))
       (set_events DataBaseRef [] (game_net w)))"
    using login_decided_at[OF doc(1) _ _ auth_request_asks, of "(game_db w, set_events DataBaseRef [] (game_net w))"]
      doc(2) l found by simp
  ultimately show ?thesis
    using m(3) l by (simp add: scheduler_idle network_idle database_one)
qed

text \<open>The second: the machine is enlisted, and the data base marks the account.\<close>

lemma login_round_two:
  assumes inv: "net_inv n" and auth: "map_find (mAuth n) i = Some auth"
    and env: "mNextMachineID n \<noteq> INT_LIMIT" "net_peer (sockets n (auth_mSocket auth)) = Some address"
      "sends n (auth_mSocket auth)"
    and quiet: "mReceivedEvents n = []" "\<And>r. events n r = []"
    and w: "game_net w = PushEvent NetRef (auth_answer_event (sint i) name (Some acct)) n"
    and ok: "fst (Mongo_ChangeAccountState V acct True (game_db w)) = None"
  shows "frames [scheduler_Frame, network_Frame command console_command,
      database_Frame archive (DataBaseMongo archive memory V)] w =
    Some (None, w\<lparr>game_db := snd (Mongo_ChangeAccountState V acct True (game_db w)),
       game_net := set_events DataBaseRef [] (deliver (auth_mSocket auth) accept_event
         (enrolled (auth\<lparr>auth_mAcctId := acct\<rparr>) address (set_events NetRef [] n)))\<rparr>)"
proof -
  let ?s = "set_events NetRef [] n" and ?wel = "put_i ''ACCT_ID'' acct (event_of WELCOME)"
  let ?n = "deliver (auth_mSocket auth) accept_event (enrolled (auth\<lparr>auth_mAcctId := acct\<rparr>) address ?s)"
  have s: "set_events NetRef [] (game_net w) = ?s"
    by (simp add: w PushEvent_def)
  have "ProcessEvent net_method (auth_answer_event (sint i) name (Some acct)) ?s = (None, ?n)"
    using env by (intro answer_accepted) (simp_all add: inv auth sends_def)
  then have net: "network_Frame command console_command w = Some (None, w\<lparr>game_net := ?n\<rparr>)"
    using quiet by (intro network_one) (simp_all add: s, simp_all add: w)
  have "events ?n DataBaseRef = [?wel]" "linked ?n" using quiet net_invD(1)[OF inv] by simp_all
  moreover have "ProcessEvent (db_method archive (DataBaseMongo archive memory V)) ?wel
      (game_db w, set_events DataBaseRef [] ?n) =
    (None, snd (Mongo_ChangeAccountState V acct True (game_db w)), set_events DataBaseRef [] ?n)"
    using ok by (simp add: ProcessEvent_slot db_method_def db_ProcessWelcome_def db_simps to_db_None need_def)
  ultimately have "database_Frame archive (DataBaseMongo archive memory V) (w\<lparr>game_net := ?n\<rparr>) =
      Some (None, w\<lparr>game_db := snd (Mongo_ChangeAccountState V acct True (game_db w)),
        game_net := set_events DataBaseRef [] ?n\<rparr>)"
    by (subst database_one[where e = ?wel]) simp_all
  moreover have "scheduler_Frame w = Some (None, w)" by (rule scheduler_idle) (simp add: w quiet)
  ultimately show ?thesis using net by simp
qed

text \<open>C8. A login with the password of its account takes two rounds of the frames. In the first
  the data base answers: the account of the name, with the number of the login, waits for the
  network engine, whose list has not changed. In the second the network engine puts the machine on its list, with
  the account and the name of the login, and tells the client, and the data base marks the
  account as online. No work is left. But the document of the account has been replaced: what is stored in its place is
  its \<open>_id\<close>, if it had one, with \<open>online\<close> true and nothing else, the other accounts stay as they are, and
  every further login to it, with whatever password, throws.\<close>

theorem login_round_trip:
  assumes doc: "documented V docs sat" "mConnection (game_db w)"
    and asks: "asking decode mem acct_mem so buffer n name pass"
    and w: "game_net w = snd (ServerThreadTCPReceive decode mem acct_mem so buffer n)"
    and acc: "docs (mongo_store (game_db w)) accounts = pre @ a # post"
      "getField a ''id'' = Some (BInt acct)" "getField a ''name'' = Some (BString name)"
      "pass = getStringField a ''password''"
    and others: "\<forall>d \<in> set (pre @ post). getField d ''name'' \<noteq> Some (BString name)"
      "\<forall>d \<in> set pre. \<not> sat [(''id'', BInt acct)] d"
    and env: "mNextMachineID n \<noteq> INT_LIMIT" "net_peer (sockets n so) = Some address" "sends n so"
    and fs: "fs = [scheduler_Frame, network_Frame command console_command,
      database_Frame archive (DataBaseMongo archive memory V)]"
  shows "\<exists>w1 w2. frames fs w = Some (None, w1) \<and> frames fs w1 = Some (None, w2) \<and>
     events (game_net w1) NetRef = [auth_answer_event (sint (auth_id n + 1)) name (Some acct)] \<and>
     mMachines (game_net w1) = mMachines n \<and> game_db w1 = game_db w \<and>
     mMachines (game_net w2) = mMachines n @ [next_machine n] \<and>
     (let k = machines (game_net w2) (next_machine n)
      in nm_mAcctID k = acct \<and> nm_mAcctName k = name \<and> nm_mTcpSocket k = Some so) \<and>
     so_sent (sockets (game_net w2) so) = so_sent (sockets n so) @
       [take (the (net_takes (sockets n so))) (archive_text n (EngineEvent_save accept_event))] \<and>
     (\<forall>r. events (game_net w2) r = []) \<and>
     docs (mongo_store (game_db w2)) accounts =
       pre @ (filter (\<lambda>f. fst f = ''_id'') a @ [(''online'', BBool True)]) # post \<and>
     (\<forall>p. Mongo_VerifyPass V (game_db w) name p = Inr (p = pass)) \<and>
     (\<forall>p. Mongo_VerifyPass V (game_db w2) name p = Inl (Throw ''13422''))"
proof -
  let ?auth = "\<lparr>auth_mAcctName = name, auth_mAcctId = acct_mem, auth_mSocket = so\<rparr>"
    and ?m = "set_events DataBaseRef [] (game_net w)"
  let ?M = "snd (Mongo_ChangeAccountState V acct True (game_db w))"
    and ?n = "deliver so accept_event (enrolled (?auth\<lparr>auth_mAcctId := acct\<rparr>) address (set_events NetRef [] ?m))"
  note m = asking_state[OF asks w] and st = account_replaced[OF doc acc(1,2) others(2), where on = True]
  have found: "filter (\<lambda>d. getField d ''name'' = Some (BString name)) (docs (mongo_store (game_db w)) accounts) = [a]"
    using others(1) acc(1,3) by (simp add: filter_empty_conv[THEN iffD2])
  have id: "getIntField a ''id'' = Inr acct" using acc(2) by (simp add: getIntField_def)
  have fr: "mMachines (game_net w) = mMachines n" "next_machine (game_net w) = next_machine n"
    "mNextMachineID (game_net w) = mNextMachineID n"
    "net_peer (sockets (game_net w) so) = net_peer (sockets n so)"
    "so_sent (sockets (game_net w) so) = so_sent (sockets n so)"
    "net_takes (sockets (game_net w) so) = net_takes (sockets n so)" "sends ?m so = sends n so"
    "archive_text (game_net w) = archive_text n" "mReceivedEvents (game_net w) = []"
    using asks by (simp_all add: m(1) sends_def asking_def)
  let ?w1 = "w\<lparr>game_net := PushEvent NetRef (auth_answer_event (sint (auth_id n + 1)) name (Some acct)) ?m\<rparr>"
  have "frames fs w = Some (None, ?w1)"
    unfolding fs by (rule login_round_one[OF doc asks w found id acc(4)])
  moreover have "frames fs ?w1 = Some (None, ?w1\<lparr>game_db := ?M, game_net := set_events DataBaseRef [] ?n\<rparr>)"
    using login_round_two[of ?m "auth_id n + 1" ?auth address ?w1 name acct V command console_command archive memory]
      m(2,3,4) env st(1) fr unfolding fs by simp
  moreover have "Mongo_VerifyPass V (game_db w) name p = Inr (p = pass)" for p
    using found acc(4) by (simp add: VerifyPass_documented[OF doc])
  moreover have "Mongo_VerifyPass V ?M name p = Inl (Throw ''13422'')" for p
    using replaced_unnamed[OF others(1), of a True] st by (simp add: VerifyPass_documented[OF doc(1)])
  ultimately show ?thesis
    by (intro exI[of _ ?w1] exI[of _ "?w1\<lparr>game_db := ?M, game_net := set_events DataBaseRef [] ?n\<rparr>"])
      (simp add: fr login_machine_def m(3) st(3) replacement_def)
qed

theorem login_round_trip_witness:
  "\<exists>w1 w2. frames [scheduler_Frame, network_Frame (\<lambda>_. done_with) (\<lambda>_. done_with),
      database_Frame (\<lambda>_. []) (DataBaseMongo (\<lambda>_. []) demo_memory mem_server)]
     (demo_game (snd (ServerThreadTCPReceive (\<lambda>_. Some nick_bob) (event_of AUTH) 0 3 (Some ''bytes'')
        (quiet_net (\<lambda>_. True)))) [bob_account]) = Some (None, w1) \<and>
     frames [scheduler_Frame, network_Frame (\<lambda>_. done_with) (\<lambda>_. done_with),
      database_Frame (\<lambda>_. []) (DataBaseMongo (\<lambda>_. []) demo_memory mem_server)] w1 = Some (None, w2) \<and>
     mMachines (game_net w2) = [0, 1, 2, 3] \<and> nm_mAcctID (machines (game_net w2) 3) = 42 \<and>
     mongo_store (game_db w2) accounts = [filter (\<lambda>f. fst f = ''_id'') bob_account @ [(''online'', BBool True)]]"
proof -
  let ?w = "demo_game (snd (ServerThreadTCPReceive (\<lambda>_. Some nick_bob) (event_of AUTH) 0 3 (Some ''bytes'')
        (quiet_net (\<lambda>_. True)))) [bob_account]" and ?n = "quiet_net (\<lambda>_. True)"
  have n: "mMachines ?n = [0, 1, 2]" "next_machine ?n = 3" "mNextMachineID ?n \<noteq> INT_LIMIT"
    "net_peer (sockets ?n 3) = Some ''10.0.0.7''" "sends ?n 3"
    by (simp_all add: quiet_net_def INT_LIMIT_def demo_socket_def sends_def)
  have bob: "mongo_store (game_db ?w) accounts = [] @ bob_account # []" "mConnection (game_db ?w)"
    "getField bob_account ''id'' = Some (BInt 42)" "getField bob_account ''name'' = Some (BString ''bob'')"
    "''secret'' = getStringField bob_account ''password''"
    by (simp_all add: bob_account_def getStringField_def c_str_def NUL_def)
  have none: "\<forall>d \<in> set ([] @ []). getField d ''name'' \<noteq> Some (BString ''bob'')"
    "\<forall>d \<in> set []. \<not> mem_matches [(''id'', BInt 42)] d" by simp_all
  note asked = login_round_trip[OF documented_mem_server bob(2), OF quiet_asking[of "\<lambda>_. True"] demo_game_sel(1), OF bob(1)]
  from asked[OF bob(3), OF bob(4), OF bob(5), OF none, OF n(3-5) refl, of "\<lambda>_. done_with" "\<lambda>_. done_with"
      "\<lambda>_. []" demo_memory]
  show ?thesis unfolding n(1,2) Let_def append.simps by blast
qed

section \<open>Cutting strings\<close>

text \<open>The pieces between the separators.\<close>

fun pieces :: "string \<Rightarrow> char \<Rightarrow> string list" where
  "pieces [] c = [[]]"
| "pieces (x # xs) c =
     (if x = c then [] # pieces xs c
      else case pieces xs c of [] \<Rightarrow> [[x]] | p # ps \<Rightarrow> (x # p) # ps)"

text \<open>Every piece but the first and the last, with a separator put after it.\<close>

definition middles_closed :: "char \<Rightarrow> string list \<Rightarrow> string list" where
  "middles_closed c ps =
     (if length ps < 2 then ps else hd ps # map (\<lambda>p. p @ [c]) (butlast (tl ps)) @ [last ps])"

lemma pieces_not_Nil [simp]: "pieces xs c \<noteq> []"
  by (induction xs) (auto split: list.split)

lemma upt_Suc_map: "[0..<Suc n] = 0 # map Suc [0..<n]"
  by (simp add: upt_conv_Cons map_Suc_upt del: upt_Suc)

lemma positions_Cons: "positions (x # xs) c = (if x = c then [0] else []) @ map Suc (positions xs c)"
  by (simp add: positions_def upt_Suc_map filter_map o_def del: upt_Suc)

text \<open>What comes after the first separator, if there is one.\<close>

definition rest_cut :: "string \<Rightarrow> nat list \<Rightarrow> string list" where
  "rest_cut s ps = map (\<lambda>i. take (ps ! (i + 1) - ps ! i) (drop (ps ! i + 1) s)) [0..<length ps - 1] @
     [drop (ps ! (length ps - 1) + 1) s]"

lemma explode_cut: "explode_string s c =
    (let ps = positions s c in if ps = [] then [s] else take (ps ! 0) s # rest_cut s ps)"
  by (auto simp: explode_string_def rest_cut_def Let_def)

lemma rest_cut_Suc: "ps \<noteq> [] \<Longrightarrow> rest_cut (x # s) (map Suc ps) = rest_cut s ps"
  by (simp add: rest_cut_def)

lemma rest_cut_Cons:
  assumes "ps \<noteq> []"
  shows "rest_cut s (p # ps) = take (ps ! 0 - p) (drop (p + 1) s) # rest_cut s ps"
proof -
  have "[0..<length (p # ps) - 1] = 0 # map Suc [0..<length ps - 1]"
    using assms upt_Suc_map[of "length ps - 1"] by (cases ps) simp_all
  then show ?thesis using assms by (simp add: rest_cut_def nth_Cons')
qed

lemma explode_pieces_at:
  "explode_string xs c = middles_closed c (pieces xs c)"
proof (induction xs)
  case (Cons x xs)
  let ?ps = "positions xs c"
  obtain p qs where q: "pieces xs c = p # qs" by (cases "pieces xs c") simp_all
  show ?case
  proof (cases "?ps = []")
    case True
    then have "middles_closed c (p # qs) = [xs]" using Cons by (simp add: explode_cut q)
    then have "p = xs \<and> qs = []" by (auto simp: middles_closed_def split: if_splits)
    then show ?thesis using True q
      by (auto simp: explode_cut positions_Cons rest_cut_def middles_closed_def)
  next
    case False
    then have "take (?ps ! 0) xs # rest_cut xs ?ps = middles_closed c (p # qs)"
      using Cons by (simp add: explode_cut q Let_def)
    moreover have "rest_cut xs ?ps \<noteq> []" by (simp add: rest_cut_def)
    ultimately have IH: "p = take (?ps ! 0) xs" "qs \<noteq> []"
      "rest_cut xs ?ps = map (\<lambda>p. p @ [c]) (butlast qs) @ [last qs]"
      by (auto simp: middles_closed_def split: if_splits)
    show ?thesis
    proof (cases "x = c")
      case True
      have "?ps ! 0 < length xs \<and> xs ! (?ps ! 0) = c"
        using False nth_mem[of 0 ?ps] unfolding positions_def by auto
      then have "take (Suc (?ps ! 0)) xs = p @ [c]" by (simp add: IH(1) take_Suc_conv_app_nth)
      then show ?thesis using False True q IH
        by (simp add: explode_cut positions_Cons rest_cut_Cons rest_cut_Suc middles_closed_def)
    next
      case False
      then show ?thesis using \<open>?ps \<noteq> []\<close> q IH
        by (simp add: explode_cut positions_Cons rest_cut_Suc middles_closed_def)
    qed
  qed
qed (simp add: explode_string_def positions_def middles_closed_def)

lemma pieces_join: "concat (map (\<lambda>p. p @ [c]) (butlast (pieces xs c))) @ last (pieces xs c) = xs"
proof (induction xs)
  case (Cons x xs)
  obtain p qs where "pieces xs c = p # qs" by (cases "pieces xs c") simp_all
  then show ?case using Cons by (cases qs) auto
qed simp

lemma pieces_free: "p \<in> set (pieces xs c) \<Longrightarrow> c \<notin> set p"
  by (induction xs arbitrary: p) (auto split: if_splits list.splits)

text \<open>\<open>explode\<close> cuts a string at its separators, but all pieces between two separators keep
  the second one: only the first piece and the last are what lies between the separators. The
  pieces without a separator, joined by it, are the string.\<close>

theorem explode_pieces:
  "explode_string xs c = middles_closed c (pieces xs c) \<and>
   (\<forall>p \<in> set (pieces xs c). c \<notin> set p) \<and>
   concat (map (\<lambda>p. p @ [c]) (butlast (pieces xs c))) @ last (pieces xs c) = xs"
  using explode_pieces_at pieces_free pieces_join by blast

theorem explode_pieces_witness:
  "explode_string ''a.b.c'' (CHR ''.'') = [''a'', ''b.'', ''c'']"
  using explode_pieces[of "''a.b.c''" "CHR ''.''"] by (simp add: middles_closed_def)

end
