(* ===== verification/MongoSocket.thy ===== *)
theory MongoSocket
imports MongoCursor StdString "HOL-Library.Sublist"
begin

text \<open>
  The transport of the driver: \<open>Socket\<close> of \<open>util/net/sock.cpp\<close>, \<open>MessagingPort\<close> with its
  piggy-back buffer of \<open>util/net/message_port.cpp\<close>, and that whole messages come out of a stream however
  the network cuts it, and go into one in the order in which they were handed over.
\<close>

section \<open>Exceptions\<close>

datatype SocketExceptionType =
  CLOSED | RECV_ERROR | SEND_ERROR | RECV_TIMEOUT | SEND_TIMEOUT | FAILED_STATE | CONNECT_ERROR

fun getStringType :: "SocketExceptionType \<Rightarrow> string" where
  "getStringType CLOSED = ''CLOSED''"
| "getStringType RECV_ERROR = ''RECV_ERROR''"
| "getStringType SEND_ERROR = ''SEND_ERROR''"
| "getStringType RECV_TIMEOUT = ''RECV_TIMEOUT''"
| "getStringType SEND_TIMEOUT = ''SEND_TIMEOUT''"
| "getStringType FAILED_STATE = ''FAILED_STATE''"
| "getStringType CONNECT_ERROR = ''CONNECT_ERROR''"

definition SocketException :: "SocketExceptionType \<Rightarrow> fault" where
  "SocketException t = Throw (getStringType t)"

text \<open>What a handler of \<open>SocketException\<close> catches.\<close>

definition is_socket_exception :: "fault \<Rightarrow> bool" where
  "is_socket_exception f \<longleftrightarrow>
     f \<in> set (map SocketException
       [CLOSED, RECV_ERROR, SEND_ERROR, RECV_TIMEOUT, SEND_TIMEOUT, FAILED_STATE, CONNECT_ERROR])"

lemma socket_exceptions [simp]:
  "is_socket_exception (SocketException t)" "\<not> is_socket_exception (Throw ''assertion'')"
  "\<not> is_socket_exception (Undefined u)"
  by (cases t) (simp_all add: is_socket_exception_def SocketException_def)

lemma is_socket_exceptionE:
  assumes "is_socket_exception f" obtains t where "f = SocketException t"
  using assms by (auto simp: is_socket_exception_def)

section \<open>Sockets\<close>

text \<open>
  What the operating system does is part of the state of a socket: with its n-th send of so many
  bytes, and what is going to arrive. A failure says whether it was a timeout. After the last arrival
  the peer has closed the connection.
\<close>

datatype sent = Sent nat | SendFailed bool

datatype arrival = Arrived string | RecvFailed bool

record Socket =
  sk_open :: bool
  sk_timeout :: bool
  sk_bytesOut :: int
  sk_bytesIn :: int
  sk_takes :: "nat \<Rightarrow> nat \<Rightarrow> sent"
  sk_sends :: nat
  sk_wire :: string
  sk_arrivals :: "arrival list"

definition Socket_new :: "bool \<Rightarrow> Socket" where
  "Socket_new so_timeout =
     \<lparr>sk_open = False, sk_timeout = so_timeout, sk_bytesOut = 0, sk_bytesIn = 0,
      sk_takes = (\<lambda>_ _. SendFailed False), sk_sends = 0, sk_wire = [], sk_arrivals = []\<rparr>"

definition Socket_close :: "Socket \<Rightarrow> Socket" where
  "Socket_close sk = (if sk_open sk then sk\<lparr>sk_open := False\<rparr> else sk)"

text \<open>The calls of the operating system; without a descriptor they fail.\<close>

definition os_send :: "string \<Rightarrow> Socket \<Rightarrow> sent \<times> Socket" where
  "os_send data sk =
     (if \<not> sk_open sk then (SendFailed False, sk)
      else let sk' = sk\<lparr>sk_sends := sk_sends sk + 1\<rparr>
           in case sk_takes sk (sk_sends sk) (length data) of
                SendFailed t \<Rightarrow> (SendFailed t, sk')
              | Sent k \<Rightarrow> (Sent k, sk'\<lparr>sk_wire := sk_wire sk @ take k data\<rparr>))"

definition os_recv :: "nat \<Rightarrow> Socket \<Rightarrow> (bool + string) \<times> Socket" where
  "os_recv m sk =
     (if \<not> sk_open sk then (Inl False, sk)
      else case sk_arrivals sk of
             [] \<Rightarrow> (Inr [], sk)
           | RecvFailed t # as \<Rightarrow> (Inl t, sk\<lparr>sk_arrivals := as\<rparr>)
           | Arrived s # as \<Rightarrow>
               (Inr (take m s), sk\<lparr>sk_arrivals := (if length s \<le> m then as else Arrived (drop m s) # as)\<rparr>))"

text \<open>The loop of \<open>send\<close> goes on for as long as something is left, so it may never end.\<close>

partial_function (option) Socket_send :: "string \<Rightarrow> Socket \<Rightarrow> (unit res \<times> Socket) option" where
  "Socket_send data sk =
     (if data = [] then Some (Inr (), sk)
      else case os_send data sk of
             (SendFailed timedout, sk) \<Rightarrow>
               Some (Inl (SocketException (if timedout \<and> sk_timeout sk then SEND_TIMEOUT else SEND_ERROR)), sk)
           | (Sent ret, sk) \<Rightarrow>
               (let sk = sk\<lparr>sk_bytesOut := sk_bytesOut sk + int ret\<rparr>
                in if \<not> ret \<le> length data then Some (Inl (Throw ''assertion''), sk)
                   else Socket_send (drop ret data) sk))"

text \<open>\<open>_bytesIn += x\<close>, for the -1 of an error too.\<close>

definition unsafe_recv :: "nat \<Rightarrow> Socket \<Rightarrow> (bool + string) \<times> Socket" where
  "unsafe_recv m sk =
     (case os_recv m sk of
        (Inl t, sk) \<Rightarrow> (Inl t, sk\<lparr>sk_bytesIn := sk_bytesIn sk + - 1\<rparr>)
      | (Inr s, sk) \<Rightarrow> (Inr s, sk\<lparr>sk_bytesIn := sk_bytesIn sk + int (length s)\<rparr>))"

lemma unsafe_recv_length: "unsafe_recv m sk = (Inr s, sk') \<Longrightarrow> length s \<le> m"
  by (auto simp: unsafe_recv_def os_recv_def split: if_splits list.splits arrival.splits sum.splits)

function Socket_recv :: "nat \<Rightarrow> string \<Rightarrow> Socket \<Rightarrow> string res \<times> Socket" where
  "Socket_recv len got sk =
     (if len = 0 then (Inr got, sk)
      else case unsafe_recv len sk of
             (Inl timedout, sk) \<Rightarrow>
               (Inl (SocketException (if timedout \<and> sk_timeout sk then RECV_TIMEOUT else RECV_ERROR)), sk)
           | (Inr s, sk) \<Rightarrow>
               if s = [] then (Inl (SocketException CLOSED), sk)
               else Socket_recv (len - length s) (got @ s) sk)"
  by pat_completeness auto
termination
  by (relation "measure (\<lambda>(len, got, sk). len)") (auto dest!: unsafe_recv_length[OF sym])

declare Socket_recv.simps [simp del]

section \<open>Messages as bytes\<close>

definition message_bytes :: "MsgData \<Rightarrow> string" where
  "message_bytes d =
     le_int 4 (md_len d) @ le_int 4 (md_id d) @ le_int 4 (md_responseTo d) @ le_int 2 (md_operation d) @
     le_int 1 (md_flags d) @ le_int 1 (md_version d) @ md_data d"

text \<open>As many of them as the header says.\<close>

definition header_bytes :: "MsgData \<Rightarrow> string res" where
  "header_bytes d = read_size (message_bytes d, 0) (md_len d)"

text \<open>The message in the memory after its length and what was received behind it.\<close>

definition MsgData_of :: "int \<Rightarrow> string \<Rightarrow> MsgData" where
  "MsgData_of len rest =
     \<lparr>md_len = len, md_id = int (le_nat (take 4 rest)), md_responseTo = int (le_nat (take 4 (drop 4 rest))),
      md_operation = int_le (take 2 (drop 8 rest)), md_flags = int_le (take 1 (drop 10 rest)),
      md_version = int_le (take 1 (drop 11 rest)), md_data = drop 12 rest\<rparr>"

definition doesOpGetAResponse :: "int \<Rightarrow> bool" where
  "doesOpGetAResponse n \<longleftrightarrow> n = op_value dbQuery \<or> n = op_value dbGetMore"

section \<open>The port\<close>

text \<open>
  The piggy-back buffer is the bytes between \<open>_buf\<close> and \<open>_cur\<close>; no object, no buffer. The counter of
  the messages is the process's, and goes from one port to the next.
\<close>

record MessagingPort =
  mp_sock :: Socket
  mp_piggy :: "string option"
  NextMsgId :: "32 word"

definition MessagingPort_new :: "bool \<Rightarrow> 32 word \<Rightarrow> MessagingPort" where
  "MessagingPort_new so_timeout n = \<lparr>mp_sock = Socket_new so_timeout, mp_piggy = None, NextMsgId = n\<rparr>"

definition port_shutdown :: "MessagingPort \<Rightarrow> MessagingPort" where
  "port_shutdown P = P\<lparr>mp_sock := Socket_close (mp_sock P)\<rparr>"

type_synonym 'a port_result = "('a res \<times> MessagingPort) option"

definition port_then ::
  "('a res \<times> 's) option \<Rightarrow> ('a \<Rightarrow> 's \<Rightarrow> ('b res \<times> 's) option) \<Rightarrow> ('b res \<times> 's) option" where
  "port_then m k =
     (case m of None \<Rightarrow> None | Some (Inl f, P) \<Rightarrow> Some (Inl f, P) | Some (Inr a, P) \<Rightarrow> k a P)"

lemma port_then_simps [simp]:
  "port_then None k = None" "port_then (Some (Inl f, P)) k = Some (Inl f, P)"
  "port_then (Some (Inr a, P)) k = k a P"
  by (simp_all add: port_then_def)

definition port_send :: "string \<Rightarrow> MessagingPort \<Rightarrow> unit port_result" where
  "port_send data P = map_option (\<lambda>(r, sk). (r, P\<lparr>mp_sock := sk\<rparr>)) (Socket_send data (mp_sock P))"

definition Message_send :: "Message \<Rightarrow> MessagingPort \<Rightarrow> unit port_result" where
  "Message_send m P =
     (case m of
        None \<Rightarrow> Some (Inr (), P)
      | Some d \<Rightarrow>
          if md_len d \<le> 0 then Some (Inr (), P)
          else case header_bytes d of Inl f \<Rightarrow> Some (Inl f, P) | Inr bytes \<Rightarrow> port_send bytes P)"

definition PiggyBackData_size :: nat where
  "PiggyBackData_size = 1300"

definition piggy_buf :: "MessagingPort \<Rightarrow> string" where
  "piggy_buf P = (case mp_piggy P of None \<Rightarrow> [] | Some b \<Rightarrow> b)"

definition piggy_flush :: "MessagingPort \<Rightarrow> unit port_result" where
  "piggy_flush P =
     (if piggy_buf P = [] then Some (Inr (), P)
      else port_then (port_send (piggy_buf P) P) (\<lambda>_ P. Some (Inr (), P\<lparr>mp_piggy := Some []\<rparr>)))"

definition piggy_append :: "MsgData \<Rightarrow> MessagingPort \<Rightarrow> unit port_result" where
  "piggy_append d P =
     (if \<not> md_len d \<le> int PiggyBackData_size then Some (Inl (Throw ''assertion''), P)
      else port_then
             (if int (length (piggy_buf P)) + md_len d > int PiggyBackData_size then piggy_flush P else Some (Inr (), P))
             (\<lambda>_ P. case header_bytes d of
                Inl f \<Rightarrow> Some (Inl f, P)
              | Inr bytes \<Rightarrow> Some (Inr (), P\<lparr>mp_piggy := Some (piggy_buf P @ bytes)\<rparr>)))"

text \<open>\<open>nextMessageId\<close> and who is answered, in the header of a message.\<close>

definition number_message :: "32 word \<Rightarrow> int \<Rightarrow> MsgData \<Rightarrow> MsgData" where
  "number_message n responseTo d = d\<lparr>md_id := uint n, md_responseTo := responseTo mod 2 ^ 32\<rparr>"

definition port_say :: "Message \<Rightarrow> int \<Rightarrow> MessagingPort \<Rightarrow> MsgData port_result" where
  "port_say m responseTo P =
     (case m of
        None \<Rightarrow> Some (Inl (Throw ''assertion''), P)
      | Some d \<Rightarrow>
          let d = number_message (NextMsgId P) responseTo d; P = P\<lparr>NextMsgId := NextMsgId P + 1\<rparr>
          in port_then
               (if piggy_buf P \<noteq> [] then
                  if int (length (piggy_buf P)) + md_len d > int PiggyBackData_size
                  then port_then (piggy_flush P) (\<lambda>_. Message_send (Some d))
                  else port_then (piggy_append d P) (\<lambda>_. piggy_flush)
                else Message_send (Some d) P)
               (\<lambda>_ P. Some (Inr d, P)))"

text \<open>A long message is said, and not as an answer to what it answers.\<close>

definition port_piggyBack :: "Message \<Rightarrow> int \<Rightarrow> MessagingPort \<Rightarrow> unit port_result" where
  "port_piggyBack m responseTo P =
     (case m of
        None \<Rightarrow> Some (Inl (Throw ''assertion''), P)
      | Some d \<Rightarrow>
          if md_len d > int PiggyBackData_size then port_then (port_say m (- 1) P) (\<lambda>_ P. Some (Inr (), P))
          else let d = number_message (NextMsgId P) responseTo d; P = P\<lparr>NextMsgId := NextMsgId P + 1\<rparr>;
                   P = (if mp_piggy P = None then P\<lparr>mp_piggy := Some []\<rparr> else P)
               in piggy_append d P)"

text \<open>The destructor sends what is left, whatever comes of it, and closes the socket.\<close>

definition MessagingPort_delete :: "MessagingPort \<Rightarrow> MessagingPort option" where
  "MessagingPort_delete P =
     (case mp_piggy P of
        None \<Rightarrow> Some (port_shutdown P)
      | Some _ \<Rightarrow> map_option (\<lambda>(_, P). port_shutdown (P\<lparr>mp_piggy := None\<rparr>)) (piggy_flush P))"

section \<open>Receiving\<close>

definition http_msg :: string where
  "http_msg = ''You are trying to access MongoDB on the native driver port. '' @
     ''For http diagnostic access, add 1000 to the port number'' @ [CHR 0x0A]"

definition http_answer :: string where
  "http_answer =
     (let eol = [CHR 0x0D, CHR 0x0A]
      in ''HTTP/1.0 200 OK'' @ eol @ ''Connection: close'' @ eol @ ''Content-Type: text/plain'' @ eol @
         ''Content-Length: '' @ show_nat (length http_msg) @ eol @ eol @ http_msg)"

text \<open>
  The lengths below 16 and above 48000000 are no messages: -1 asks for the order of the bytes and is
  answered, the letters of GET get a page, and anything else ends it. The message is left as it was.
\<close>

partial_function (option) recv_body :: "Message \<Rightarrow> MessagingPort \<Rightarrow> ((bool \<times> Message) res \<times> MessagingPort) option" where
  "recv_body m P =
     (case Socket_recv 4 [] (mp_sock P) of
        (Inl f, sk) \<Rightarrow> Some (Inl f, P\<lparr>mp_sock := sk\<rparr>)
      | (Inr lenbuf, sk) \<Rightarrow>
          (let P = P\<lparr>mp_sock := sk\<rparr>; len = int_le lenbuf
           in if len < 16 \<or> len > 48000000 then
                if len = - 1 then
                  (case port_send (le_int 4 0x10203040) P of
                     None \<Rightarrow> None
                   | Some (r, P) \<Rightarrow> (case r of Inl f \<Rightarrow> Some (Inl f, P) | Inr _ \<Rightarrow> recv_body m P))
                else if len = 542393671 then port_then (port_send http_answer P) (\<lambda>_ P. Some (Inr (False, m), P))
                else Some (Inr (False, m), P)
              else case Socket_recv (nat (len - 4)) [] (mp_sock P) of
                     (Inl f, sk) \<Rightarrow> Some (Inl f, P\<lparr>mp_sock := sk\<rparr>)
                   | (Inr rest, sk) \<Rightarrow>
                       Some (if m \<noteq> None then Inl (Throw ''assertion'') else Inr (True, Some (MsgData_of len rest)),
                             P\<lparr>mp_sock := sk\<rparr>)))"

text \<open>A socket exception ends it with false, and without a message.\<close>

definition port_recv :: "Message \<Rightarrow> MessagingPort \<Rightarrow> (bool \<times> Message) port_result" where
  "port_recv m P =
     (case recv_body m P of
        None \<Rightarrow> None
      | Some (Inl f, P) \<Rightarrow> Some (if is_socket_exception f then Inr (False, None) else Inl f, P)
      | Some (Inr r, P) \<Rightarrow> Some (Inr r, P))"

text \<open>An answer to something else is an assertion that fails.\<close>

definition recv_answer :: "MsgData \<Rightarrow> Message \<Rightarrow> MessagingPort \<Rightarrow> (bool \<times> Message) port_result" where
  "recv_answer toSend response P =
     port_then (port_recv response P) (\<lambda>(ok, response) P.
       Some (if \<not> ok then Inr (False, response)
             else run_then (header response) (\<lambda>h.
               if md_responseTo h = md_id toSend then Inr (True, response) else Inl (Throw ''assertion'')), P))"

definition port_call_of :: "Message \<Rightarrow> Message \<Rightarrow> MessagingPort \<Rightarrow> (bool \<times> Message) port_result" where
  "port_call_of toSend response P = port_then (port_say toSend (- 1) P) (\<lambda>sent. recv_answer sent response)"

definition port_reply :: "Message \<Rightarrow> Message \<Rightarrow> MessagingPort \<Rightarrow> unit port_result" where
  "port_reply received response P =
     (case header received of
        Inl f \<Rightarrow> Some (Inl f, P)
      | Inr h \<Rightarrow> port_then (port_say response (md_id h) P) (\<lambda>_ P. Some (Inr (), P)))"

section \<open>Bytes that arrive\<close>

text \<open>A stream that is cut into segments, none empty, and no failure.\<close>

fun steady :: "arrival list \<Rightarrow> bool" where
  "steady [] \<longleftrightarrow> True"
| "steady (Arrived s # as) \<longleftrightarrow> s \<noteq> [] \<and> steady as"
| "steady (RecvFailed t # as) \<longleftrightarrow> False"

fun arriving :: "arrival list \<Rightarrow> string" where
  "arriving [] = []"
| "arriving (Arrived s # as) = s @ arriving as"
| "arriving (RecvFailed t # as) = []"

definition ahead :: "Socket \<Rightarrow> string \<Rightarrow> bool" where
  "ahead sk w \<longleftrightarrow> sk_open sk \<and> steady (sk_arrivals sk) \<and> arriving (sk_arrivals sk) = w"

lemma ahead_update:
  "ahead (sk\<lparr>sk_arrivals := as, sk_bytesIn := n\<rparr>) w \<longleftrightarrow> sk_open sk \<and> steady as \<and> arriving as = w"
  by (simp add: ahead_def)

text \<open>Two states of a socket that differ in what has been received.\<close>

definition same_but_received :: "Socket \<Rightarrow> Socket \<Rightarrow> bool" where
  "same_but_received sk sk' \<longleftrightarrow>
     sk_open sk' = sk_open sk \<and> sk_timeout sk' = sk_timeout sk \<and> sk_bytesOut sk' = sk_bytesOut sk \<and>
     sk_takes sk' = sk_takes sk \<and> sk_sends sk' = sk_sends sk \<and> sk_wire sk' = sk_wire sk"

lemma same_but_received_refl [simp]: "same_but_received sk sk"
  by (simp add: same_but_received_def)

lemma same_but_received_trans:
  "same_but_received a b \<Longrightarrow> same_but_received b c \<Longrightarrow> same_but_received a c"
  by (auto simp: same_but_received_def)

lemma same_but_receivedD:
  assumes "same_but_received sk sk'"
  shows "sk_open sk' = sk_open sk" "sk_timeout sk' = sk_timeout sk" "sk_bytesOut sk' = sk_bytesOut sk"
    "sk_takes sk' = sk_takes sk" "sk_sends sk' = sk_sends sk" "sk_wire sk' = sk_wire sk"
  using assms by (simp_all add: same_but_received_def)

lemma unsafe_recv_ahead:
  assumes "ahead sk w" "0 < n" "w \<noteq> []"
  shows "\<exists>s sk'. unsafe_recv n sk = (Inr s, sk') \<and> s \<noteq> [] \<and> length s \<le> n \<and> (\<exists>v. w = s @ v \<and> ahead sk' v) \<and>
    same_but_received sk sk'"
proof -
  obtain s as where a: "sk_arrivals sk = Arrived s # as" "s \<noteq> []" "steady as" "w = s @ arriving as" "sk_open sk"
    using assms unfolding ahead_def by (cases "sk_arrivals sk" rule: steady.cases) auto
  let ?as = "if length s \<le> n then as else Arrived (drop n s) # as"
  let ?sk = "sk\<lparr>sk_arrivals := ?as, sk_bytesIn := sk_bytesIn sk + int (length (take n s))\<rparr>"
  have "unsafe_recv n sk = (Inr (take n s), ?sk)" using a by (simp add: unsafe_recv_def os_recv_def)
  moreover have "take n s \<noteq> [] \<and> length (take n s) \<le> n" using a(2) assms(2) by simp
  moreover have "s = take n s @ drop n s" by simp
  then have "s @ arriving as = take n s @ drop n s @ arriving as" by (metis append_assoc)
  then have "w = take n s @ arriving ?as" unfolding a(4) by simp
  moreover have "steady ?as" using a(3) by simp
  then have "ahead ?sk (arriving ?as)" using a(5) unfolding ahead_update by blast
  moreover have "same_but_received sk ?sk" by (simp add: same_but_received_def)
  ultimately show ?thesis by blast
qed

lemma Socket_recv_step:
  assumes "unsafe_recv n sk = (Inr s, sk')" "s \<noteq> []" "0 < n"
  shows "Socket_recv n got sk = Socket_recv (n - length s) (got @ s) sk'"
  using assms by (subst Socket_recv.simps) simp

lemma Socket_recv_0 [simp]: "Socket_recv 0 got sk = (Inr got, sk)"
  by (subst Socket_recv.simps) simp

lemma Socket_recv_ahead:
  assumes "ahead sk (w @ v)"
  shows "\<exists>sk'. Socket_recv (length w) got sk = (Inr (got @ w), sk') \<and> ahead sk' v \<and> same_but_received sk sk'"
  using assms
proof (induction "length w" arbitrary: w got sk rule: less_induct)
  case less
  show ?case
  proof (cases "w = []")
    case False
    then obtain s sk1 u where s: "unsafe_recv (length w) sk = (Inr s, sk1)" "s \<noteq> []" "length s \<le> length w"
      "w @ v = s @ u" "ahead sk1 u" "same_but_received sk sk1"
      using unsafe_recv_ahead[OF less.prems, of "length w"] by auto
    define w' where "w' = drop (length s) w"
    have "take (length s) (w @ v) = s" using s(4) by simp
    then have w: "w = s @ w'" using s(3) by (metis append_take_drop_id take_append diff_is_0_eq take_0 append_Nil2 w'_def)
    then have u: "u = w' @ v" using s(4) by simp
    have "length w' < length w" using w s(2) by simp
    from less.hyps[OF this, of sk1 "got @ s"] s(5) u obtain sk2 where
      "Socket_recv (length w') (got @ s) sk1 = (Inr ((got @ s) @ w'), sk2)" "ahead sk2 v" "same_but_received sk1 sk2" by auto
    then show ?thesis
      using Socket_recv_step[OF s(1,2), of got] s(2,6) w False by (auto intro: same_but_received_trans)
  qed (use less.prems in auto)
qed

text \<open>A stream that ends too early.\<close>

lemma Socket_recv_closed:
  assumes "ahead sk w" "length w < n"
  shows "\<exists>sk'. Socket_recv n got sk = (Inl (SocketException CLOSED), sk') \<and> ahead sk' [] \<and> same_but_received sk sk'"
  using assms
proof (induction "length w" arbitrary: w n got sk rule: less_induct)
  case less
  show ?case
  proof (cases "w = []")
    case True
    then have "sk_arrivals sk = []" "sk_open sk"
      using less.prems unfolding ahead_def by (cases "sk_arrivals sk" rule: steady.cases; auto)+
    then have "unsafe_recv n sk = (Inr [], sk\<lparr>sk_bytesIn := sk_bytesIn sk + 0\<rparr>)" by (simp add: unsafe_recv_def os_recv_def)
    then have "Socket_recv n got sk = (Inl (SocketException CLOSED), sk\<lparr>sk_bytesIn := sk_bytesIn sk + 0\<rparr>)"
      using less.prems by (subst Socket_recv.simps) simp
    then show ?thesis using less.prems True by simp
  next
    case False
    then obtain s sk1 u where s: "unsafe_recv n sk = (Inr s, sk1)" "s \<noteq> []" "length s \<le> n"
      "w = s @ u" "ahead sk1 u" "same_but_received sk sk1"
      using unsafe_recv_ahead[OF less.prems(1), of n] less.prems(2) by auto
    have "length u < length w" "length u < n - length s" using s(2,3,4) less.prems(2) by auto
    from less.hyps[OF this(1) s(5) this(2), of "got @ s"] obtain sk2 where
      "Socket_recv (n - length s) (got @ s) sk1 = (Inl (SocketException CLOSED), sk2)" "ahead sk2 []" "same_but_received sk1 sk2" by auto
    then show ?thesis
      using Socket_recv_step[OF s(1,2), of got] s(6) less.prems(2) by (auto intro: same_but_received_trans)
  qed
qed

section \<open>A message out of a stream\<close>

text \<open>A message that says how long it is, with its header within the widths of its fields.\<close>

definition md_whole :: "MsgData \<Rightarrow> bool" where
  "md_whole d \<longleftrightarrow> md_len d = int (length (md_data d)) + 16 \<and> md_len d \<le> 48000000 \<and>
     0 \<le> md_id d \<and> md_id d < 2 ^ 32 \<and> 0 \<le> md_responseTo d \<and> md_responseTo d < 2 ^ 32 \<and>
     - (2 ^ 15) \<le> md_operation d \<and> md_operation d < 2 ^ 15 \<and>
     - 128 \<le> md_flags d \<and> md_flags d < 128 \<and> - 128 \<le> md_version d \<and> md_version d < 128"

definition message_rest :: "MsgData \<Rightarrow> string" where
  "message_rest d = drop 4 (message_bytes d)"

lemma message_bytes_split: "message_bytes d = le_int 4 (md_len d) @ message_rest d"
  by (simp add: message_rest_def message_bytes_def)

lemma length_message_rest [simp]: "length (message_rest d) = length (md_data d) + 12"
  by (simp add: message_rest_def message_bytes_def)

lemma length_message_bytes [simp]: "length (message_bytes d) = length (md_data d) + 16"
  by (simp add: message_bytes_def)

lemma message_bytes_not_Nil [simp]: "message_bytes d \<noteq> []"
  by (metis add_is_0 length_message_bytes list.size(3) zero_neq_numeral)

lemma le_nat_le_int: "0 \<le> n \<Longrightarrow> n < 256 ^ k \<Longrightarrow> int (le_nat (le_int k n)) = n"
  by (simp add: le_int_def le_nat_le nat_mod_as_int)

lemma MsgData_of_rest: "md_whole d \<Longrightarrow> MsgData_of (md_len d) (message_rest d) = d"
  by (cases d) (simp add: MsgData_of_def message_rest_def message_bytes_def md_whole_def le_nat_le_int int_le_le_int)

lemma recv_body_whole:
  assumes "md_whole d" "ahead (mp_sock P) (message_bytes d @ w)"
  shows "\<exists>sk. recv_body None P = Some (Inr (True, Some d), P\<lparr>mp_sock := sk\<rparr>) \<and> ahead sk w \<and>
    same_but_received (mp_sock P) sk"
proof -
  have l: "16 \<le> md_len d" "md_len d \<le> 48000000" "int_le (le_int 4 (md_len d)) = md_len d"
    "nat (md_len d - 4) = length (message_rest d)"
    using assms(1) by (simp_all add: md_whole_def int_le_le_int)
  have "ahead (mp_sock P) (le_int 4 (md_len d) @ message_rest d @ w)"
    using assms(2) by (simp add: message_bytes_split)
  from Socket_recv_ahead[OF this, of "[]"] obtain sk1 where s1:
    "Socket_recv 4 [] (mp_sock P) = (Inr (le_int 4 (md_len d)), sk1)" "ahead sk1 (message_rest d @ w)"
    "same_but_received (mp_sock P) sk1" by auto
  from Socket_recv_ahead[OF s1(2), of "[]"] obtain sk2 where s2:
    "Socket_recv (length (message_rest d)) [] sk1 = (Inr (message_rest d), sk2)" "ahead sk2 w" "same_but_received sk1 sk2" by auto
  have "recv_body None P = Some (Inr (True, Some d), P\<lparr>mp_sock := sk2\<rparr>)"
    using l s1(1) s2(1) MsgData_of_rest[OF assms(1)] by (subst recv_body.simps) (simp del: length_message_rest)
  then show ?thesis using s1(3) s2(2,3) same_but_received_trans by blast
qed

lemma recv_body_cut:
  assumes "md_whole d" "ahead (mp_sock P) w" "message_bytes d = w @ v" "v \<noteq> []"
  shows "\<exists>sk. recv_body None P = Some (Inl (SocketException CLOSED), P\<lparr>mp_sock := sk\<rparr>) \<and> same_but_received (mp_sock P) sk"
proof (cases "length w < 4")
  case True
  from Socket_recv_closed[OF assms(2) this, of "[]"] obtain sk where
    "Socket_recv 4 [] (mp_sock P) = (Inl (SocketException CLOSED), sk)" "same_but_received (mp_sock P) sk" by blast
  then show ?thesis by (subst recv_body.simps) auto
next
  case False
  have l: "16 \<le> md_len d" "md_len d \<le> 48000000" "int_le (le_int 4 (md_len d)) = md_len d"
    "nat (md_len d - 4) = length (message_rest d)"
    using assms(1) by (simp_all add: md_whole_def int_le_le_int)
  define u where "u = drop 4 w"
  have "take 4 (message_bytes d) = le_int 4 (md_len d)" by (simp add: message_bytes_split)
  then have "take 4 (w @ v) = le_int 4 (md_len d)" unfolding assms(3) .
  then have w: "w = le_int 4 (md_len d) @ u"
    using False append_take_drop_id[of 4 w] by (simp add: u_def)
  then have u: "message_rest d = u @ v" using assms(3) message_bytes_split[of d] by simp
  from Socket_recv_ahead[of "mp_sock P" "le_int 4 (md_len d)" u "[]"] w assms(2) obtain sk1 where s1:
    "Socket_recv 4 [] (mp_sock P) = (Inr (le_int 4 (md_len d)), sk1)" "ahead sk1 u" "same_but_received (mp_sock P) sk1" by auto
  have "length u < length (message_rest d)" using u assms(4) by simp
  from Socket_recv_closed[OF s1(2) this, of "[]"] obtain sk2 where s2:
    "Socket_recv (length (message_rest d)) [] sk1 = (Inl (SocketException CLOSED), sk2)" "same_but_received sk1 sk2" by blast
  have "recv_body None P = Some (Inl (SocketException CLOSED), P\<lparr>mp_sock := sk2\<rparr>)"
    using l s1(1) s2(1) by (subst recv_body.simps) (simp del: length_message_rest)
  then show ?thesis using s1(3) s2(2) same_but_received_trans by blast
qed

text \<open>C20.
  Messages come out of a stream whole, however the network cuts it: when the bytes ahead of a socket
  start with those of a message, in segments of any sizes, \<open>recv\<close> takes exactly that message, with every field as
  it was written, and leaves the bytes behind it. When the peer closes the connection inside
  the message, \<open>recv\<close> says so and gives no part of it. Neither writes anything to the connection.
\<close>

theorem recv_whole_message:
  assumes "md_whole d"
  shows "(ahead (mp_sock P) (message_bytes d @ w) \<longrightarrow>
      (\<exists>sk. port_recv None P = Some (Inr (True, Some d), P\<lparr>mp_sock := sk\<rparr>) \<and> ahead sk w \<and>
        same_but_received (mp_sock P) sk)) \<and>
    (ahead (mp_sock P) w \<and> message_bytes d = w @ v \<and> v \<noteq> [] \<longrightarrow>
      (\<exists>sk. port_recv None P = Some (Inr (False, None), P\<lparr>mp_sock := sk\<rparr>) \<and> same_but_received (mp_sock P) sk))"
proof (intro conjI impI; (elim conjE)?)
  assume "ahead (mp_sock P) (message_bytes d @ w)"
  from recv_body_whole[OF assms this] obtain sk where
    "recv_body None P = Some (Inr (True, Some d), P\<lparr>mp_sock := sk\<rparr>)" "ahead sk w" "same_but_received (mp_sock P) sk" by blast
  then show "\<exists>sk. port_recv None P = Some (Inr (True, Some d), P\<lparr>mp_sock := sk\<rparr>) \<and> ahead sk w \<and>
      same_but_received (mp_sock P) sk"
    by (intro exI[of _ sk]) (simp add: port_recv_def)
next
  assume "ahead (mp_sock P) w" "message_bytes d = w @ v" "v \<noteq> []"
  from recv_body_cut[OF assms this] obtain sk where
    "recv_body None P = Some (Inl (SocketException CLOSED), P\<lparr>mp_sock := sk\<rparr>)" "same_but_received (mp_sock P) sk" by blast
  then show "\<exists>sk. port_recv None P = Some (Inr (False, None), P\<lparr>mp_sock := sk\<rparr>) \<and> same_but_received (mp_sock P) sk"
    by (intro exI[of _ sk]) (simp add: port_recv_def)
qed

text \<open>A message of two bytes, in three segments and with another byte behind it.\<close>

definition demo_md :: MsgData where
  "demo_md = \<lparr>md_len = 18, md_id = 7, md_responseTo = 2 ^ 32 - 1, md_operation = 2004, md_flags = 0, md_version = -1,
     md_data = ''ab''\<rparr>"

definition demo_port :: "arrival list \<Rightarrow> MessagingPort" where
  "demo_port as = \<lparr>mp_sock = (Socket_new False)\<lparr>sk_open := True, sk_arrivals := as\<rparr>, mp_piggy = None, NextMsgId = 0\<rparr>"

lemma recv_whole_message_witness:
  "(\<exists>sk. port_recv None (demo_port [Arrived (take 3 (message_bytes demo_md)), Arrived (take 14 (drop 3 (message_bytes demo_md))),
        Arrived ''bc'']) = Some (Inr (True, Some demo_md), (demo_port [])\<lparr>mp_sock := sk\<rparr>) \<and> ahead sk ''c'') \<and>
   (\<exists>sk. port_recv None (demo_port [Arrived (take 5 (message_bytes demo_md))]) =
      Some (Inr (False, None), (demo_port [])\<lparr>mp_sock := sk\<rparr>))"
proof
  let ?as = "[Arrived (take 3 (message_bytes demo_md)), Arrived (take 14 (drop 3 (message_bytes demo_md))), Arrived ''bc'']"
  have w: "md_whole demo_md" by (simp add: md_whole_def demo_md_def)
  have l: "length (message_bytes demo_md) = 18" by (simp add: demo_md_def)
  have "drop 17 (message_bytes demo_md) = ''b''" by (simp add: demo_md_def message_bytes_def)
  then have d: "take 3 (message_bytes demo_md) @ take 14 (drop 3 (message_bytes demo_md)) @ ''b'' = message_bytes demo_md"
    using append_take_drop_id[of 17 "message_bytes demo_md"] take_add[of 3 14 "message_bytes demo_md"] by simp
  have "ahead (mp_sock (demo_port ?as)) (message_bytes demo_md @ ''c'')"
    using l d by (auto simp: demo_port_def ahead_def Socket_new_def)
  with recv_whole_message[OF w, of "demo_port ?as" "''c''"] show
    "\<exists>sk. port_recv None (demo_port ?as) = Some (Inr (True, Some demo_md), (demo_port [])\<lparr>mp_sock := sk\<rparr>) \<and> ahead sk ''c''"
    by (auto simp: demo_port_def)
  have "ahead (mp_sock (demo_port [Arrived (take 5 (message_bytes demo_md))])) (take 5 (message_bytes demo_md))"
    by (auto simp: demo_port_def ahead_def Socket_new_def)
  moreover have "drop 5 (message_bytes demo_md) \<noteq> []" using l by simp
  ultimately show "\<exists>sk. port_recv None (demo_port [Arrived (take 5 (message_bytes demo_md))]) =
      Some (Inr (False, None), (demo_port [])\<lparr>mp_sock := sk\<rparr>)"
    using recv_whole_message[OF w, of "demo_port [Arrived (take 5 (message_bytes demo_md))]" "take 5 (message_bytes demo_md)"
        "drop 5 (message_bytes demo_md)"]
    by (auto simp: demo_port_def)
qed

section \<open>Messages into a stream\<close>

text \<open>An operating system that takes something of what it is given, and no more than that.\<close>

definition willing :: "Socket \<Rightarrow> bool" where
  "willing sk \<longleftrightarrow> sk_open sk \<and>
     (\<forall>n len. 0 < len \<longrightarrow> (case sk_takes sk n len of Sent k \<Rightarrow> 0 < k \<and> k \<le> len | SendFailed t \<Rightarrow> False))"

text \<open>Two states of a socket that differ in what has been sent.\<close>

definition same_but_sent :: "Socket \<Rightarrow> Socket \<Rightarrow> bool" where
  "same_but_sent sk sk' \<longleftrightarrow>
     sk_open sk' = sk_open sk \<and> sk_timeout sk' = sk_timeout sk \<and> sk_bytesIn sk' = sk_bytesIn sk \<and>
     sk_takes sk' = sk_takes sk \<and> sk_arrivals sk' = sk_arrivals sk"

lemma same_but_sent_refl: "same_but_sent sk sk"
  by (simp add: same_but_sent_def)

lemma same_but_sent_trans: "same_but_sent a b \<Longrightarrow> same_but_sent b c \<Longrightarrow> same_but_sent a c"
  by (simp add: same_but_sent_def)

lemma os_send_willing:
  assumes "willing sk" "data \<noteq> []"
  obtains k sk' where "os_send data sk = (Sent k, sk')" "0 < k" "k \<le> length data" "willing sk'"
    "sk_wire sk' = sk_wire sk @ take k data" "same_but_sent sk sk'" "sk_bytesOut sk' = sk_bytesOut sk"
proof -
  obtain k where k: "sk_takes sk (sk_sends sk) (length data) = Sent k" "0 < k" "k \<le> length data"
    using assms unfolding willing_def by (cases "sk_takes sk (sk_sends sk) (length data)") (fastforce split: sent.splits)+
  let ?sk = "sk\<lparr>sk_sends := sk_sends sk + 1, sk_wire := sk_wire sk @ take k data\<rparr>"
  have "os_send data sk = (Sent k, ?sk)" using k assms by (simp add: os_send_def willing_def)
  moreover have "willing ?sk" using assms by (simp add: willing_def)
  ultimately show thesis using k by (intro that[of k ?sk]) (simp_all add: same_but_sent_def)
qed

lemma Socket_send_willing:
  assumes "willing sk"
  shows "\<exists>sk'. Socket_send data sk = Some (Inr (), sk') \<and> sk_wire sk' = sk_wire sk @ data \<and> willing sk' \<and>
    same_but_sent sk sk' \<and> sk_bytesOut sk' = sk_bytesOut sk + int (length data)"
  using assms
proof (induction "length data" arbitrary: data sk rule: less_induct)
  case less
  show ?case
  proof (cases "data = []")
    case False
    obtain k sk1 where k: "os_send data sk = (Sent k, sk1)" "0 < k" "k \<le> length data" "willing sk1"
      "sk_wire sk1 = sk_wire sk @ take k data" "same_but_sent sk sk1" "sk_bytesOut sk1 = sk_bytesOut sk"
      using os_send_willing[OF less.prems False] by metis
    let ?sk1 = "sk1\<lparr>sk_bytesOut := sk_bytesOut sk1 + int k\<rparr>"
    have "length (drop k data) < length data" "willing ?sk1" using k False by (simp_all add: willing_def)
    from less.hyps[OF this] obtain sk2 where s: "Socket_send (drop k data) ?sk1 = Some (Inr (), sk2)"
      "sk_wire sk2 = sk_wire ?sk1 @ drop k data" "willing sk2" "same_but_sent ?sk1 sk2"
      "sk_bytesOut sk2 = sk_bytesOut ?sk1 + int (length (drop k data))" by blast
    have "Socket_send data sk = Some (Inr (), sk2)"
      using k s(1) False by (subst Socket_send.simps) (simp add: Let_def)
    moreover have "same_but_sent sk sk2" using k(6) s(4) by (simp add: same_but_sent_def)
    ultimately show ?thesis using k s(2,3,5) by (intro exI[of _ sk2]) simp
  qed (use less.prems in \<open>simp add: Socket_send.simps same_but_sent_refl\<close>)
qed

text \<open>Whatever the system does, what is on the wire is a beginning of what was to be sent, and all of it if \<open>send\<close> returned.\<close>

definition sent_some :: "string \<Rightarrow> string \<Rightarrow> 'a res \<Rightarrow> string \<Rightarrow> bool" where
  "sent_some w data r w' \<longleftrightarrow> (case r of Inr _ \<Rightarrow> w' = w @ data | Inl _ \<Rightarrow> prefix w' (w @ data) \<and> prefix w w')"

lemma os_send_wire:
  "os_send data sk = (x, sk') \<Longrightarrow> sk_wire sk' = sk_wire sk @ (case x of Sent k \<Rightarrow> take k data | SendFailed t \<Rightarrow> [])"
  by (auto simp: os_send_def Let_def split: if_splits sent.splits)

lemma Socket_send_wire:
  assumes "Socket_send data sk = Some (r, sk')"
  shows "sent_some (sk_wire sk) data r (sk_wire sk')"
proof -
  define Q where "Q = (\<lambda>data (sk :: Socket) (z :: unit res \<times> Socket). sent_some (sk_wire sk) data (fst z) (sk_wire (snd z)))"
  have "Q data sk (r, sk')"
  proof (rule Socket_send.raw_induct[OF _ assms])
    fix send data sk z
    assume IH: "\<And>data sk z. send data sk = Some z \<Longrightarrow> Q data sk z"
    assume step: "(if data = [] then Some (Inr (), sk)
      else case os_send data sk of
             (SendFailed timedout, sk) \<Rightarrow>
               Some (Inl (SocketException (if timedout \<and> sk_timeout sk then SEND_TIMEOUT else SEND_ERROR)), sk)
           | (Sent ret, sk) \<Rightarrow>
               (let sk = sk\<lparr>sk_bytesOut := sk_bytesOut sk + int ret\<rparr>
                in if \<not> ret \<le> length data then Some (Inl (Throw ''assertion''), sk)
                   else send (drop ret data) sk)) = Some z"
    obtain x sk1 where o: "os_send data sk = (x, sk1)" by fastforce
    note w = os_send_wire[OF o]
    show "Q data sk z"
    proof (cases "data \<noteq> [] \<and> (\<exists>k. x = Sent k \<and> k \<le> length data)")
      case True
      then obtain k where k: "x = Sent k" "k \<le> length data" "data \<noteq> []" by blast
      then have "send (drop k data) (sk1\<lparr>sk_bytesOut := sk_bytesOut sk1 + int k\<rparr>) = Some z"
        using step o by (simp add: Let_def)
      from IH[OF this] show ?thesis
        using w k(1) by (auto simp: Q_def sent_some_def split: sum.splits dest: append_prefixD)
    next
      case False
      then show ?thesis
        using step o w by (cases x) (auto simp: Q_def sent_some_def Let_def split: if_splits)
    qed
  qed
  then show ?thesis by (simp add: Q_def)
qed

text \<open>What is on the wire or waits in the piggy-back buffer, in the order in which it goes out.\<close>

definition outbox :: "MessagingPort \<Rightarrow> string" where
  "outbox P = sk_wire (mp_sock P) @ piggy_buf P"

text \<open>
  An operation hands over \<open>w\<close>: if it returns, all of it is behind what was in the outbox, and if it ends in an
  exception, the wire has a beginning of that; over a willing system it returns.
\<close>

definition hands :: "MessagingPort \<Rightarrow> string \<Rightarrow> ('a \<Rightarrow> MessagingPort \<Rightarrow> bool) \<Rightarrow> 'a port_result \<Rightarrow> bool" where
  "hands P w post f \<longleftrightarrow>
     (\<forall>r P'. f = Some (r, P') \<longrightarrow>
        (case r of
           Inl _ \<Rightarrow> prefix (sk_wire (mp_sock P')) (outbox P @ w)
         | Inr a \<Rightarrow> outbox P' = outbox P @ w \<and> post a P')) \<and>
     (willing (mp_sock P) \<longrightarrow>
        (\<exists>a P'. f = Some (Inr a, P') \<and> willing (mp_sock P') \<and> same_but_sent (mp_sock P) (mp_sock P')))"

lemma handsI:
  assumes "\<And>g P'. f = Some (Inl g, P') \<Longrightarrow> prefix (sk_wire (mp_sock P')) (outbox P @ w)"
    "\<And>a P'. f = Some (Inr a, P') \<Longrightarrow> outbox P' = outbox P @ w \<and> post a P'"
    "willing (mp_sock P) \<Longrightarrow> \<exists>a P'. f = Some (Inr a, P') \<and> willing (mp_sock P') \<and> same_but_sent (mp_sock P) (mp_sock P')"
  shows "hands P w post f"
  using assms unfolding hands_def by (auto split: sum.splits)

lemma hands_then:
  assumes "hands P w post m" "\<And>a P'. post a P' \<Longrightarrow> hands P' v post' (k a P')"
  shows "hands P (w @ v) post' (port_then m k)"
proof (rule handsI)
  fix g P'
  assume "port_then m k = Some (Inl g, P')"
  then consider "m = Some (Inl g, P')" | a P1 where "m = Some (Inr a, P1)" "k a P1 = Some (Inl g, P')"
    unfolding port_then_def by (auto split: option.splits sum.splits prod.splits)
  then show "prefix (sk_wire (mp_sock P')) (outbox P @ w @ v)"
  proof cases
    case 1
    then have "prefix (sk_wire (mp_sock P')) (outbox P @ w)" using assms(1) unfolding hands_def by fastforce
    then show ?thesis by (metis append_assoc prefix_prefix)
  next
    case 2
    then have "outbox P1 = outbox P @ w" "post a P1" using assms(1) unfolding hands_def by fastforce+
    then show ?thesis using assms(2)[of a P1] 2 unfolding hands_def by fastforce
  qed
next
  fix a P'
  assume "port_then m k = Some (Inr a, P')"
  then obtain b P1 where b: "m = Some (Inr b, P1)" "k b P1 = Some (Inr a, P')"
    unfolding port_then_def by (auto split: option.splits sum.splits prod.splits)
  then have "outbox P1 = outbox P @ w" "post b P1" using assms(1) unfolding hands_def by fastforce+
  then show "outbox P' = outbox P @ w @ v \<and> post' a P'"
    using assms(2)[of b P1] b unfolding hands_def by fastforce
next
  assume "willing (mp_sock P)"
  then obtain b P1 where b: "m = Some (Inr b, P1)" "willing (mp_sock P1)" "same_but_sent (mp_sock P) (mp_sock P1)"
    using assms(1) unfolding hands_def by blast
  then have "post b P1" using assms(1) unfolding hands_def by fastforce
  from assms(2)[OF this] b(2) obtain a P2 where
    "k b P1 = Some (Inr a, P2)" "willing (mp_sock P2)" "same_but_sent (mp_sock P1) (mp_sock P2)"
    unfolding hands_def by blast
  then show "\<exists>a P'. port_then m k = Some (Inr a, P') \<and> willing (mp_sock P') \<and> same_but_sent (mp_sock P) (mp_sock P')"
    using b same_but_sent_trans by (intro exI[of _ a] exI[of _ P2]) (auto simp: port_then_def)
qed

lemma hands_return: "post a P \<Longrightarrow> hands P [] post (Some (Inr a, P))"
  by (rule handsI) (auto simp: same_but_sent_refl)

lemma hands_mono: "hands P w post f \<Longrightarrow> (\<And>a P'. post a P' \<Longrightarrow> post' a P') \<Longrightarrow> hands P w post' f"
  by (rule handsI) (fastforce simp: hands_def)+

lemma hands_then_return:
  assumes "hands P w post m" "\<And>a P'. post a P' \<Longrightarrow> post' (g a) P'"
  shows "hands P w post' (port_then m (\<lambda>a P. Some (Inr (g a), P)))"
  using hands_then[OF assms(1), of "[]" post' "\<lambda>a P. Some (Inr (g a), P)"] assms(2) by (simp add: hands_return)

lemma hands_from:
  assumes "mp_sock P1 = mp_sock P" "mp_piggy P1 = mp_piggy P" "hands P1 w post f"
  shows "hands P w post f"
proof -
  have "outbox P1 = outbox P" using assms(1,2) by (simp add: outbox_def piggy_buf_def)
  with assms(3) show ?thesis unfolding hands_def assms(1) by metis
qed

text \<open>The state of the port, but for the bytes.\<close>

definition emptied :: "32 word \<Rightarrow> 'a \<Rightarrow> MessagingPort \<Rightarrow> bool" where
  "emptied n a P \<longleftrightarrow> piggy_buf P = [] \<and> NextMsgId P = n"

lemma port_send_hands:
  assumes "emptied n () P"
  shows "hands P data (emptied n) (port_send data P)"
proof (rule handsI)
  fix g P'
  assume "port_send data P = Some (Inl g, P')"
  then obtain sk where "Socket_send data (mp_sock P) = Some (Inl g, sk)" "P' = P\<lparr>mp_sock := sk\<rparr>"
    by (auto simp: port_send_def)
  then show "prefix (sk_wire (mp_sock P')) (outbox P @ data)"
    using Socket_send_wire[of data "mp_sock P" "Inl g" sk] assms by (simp add: sent_some_def outbox_def emptied_def)
next
  fix a P'
  assume "port_send data P = Some (Inr a, P')"
  then obtain sk where "Socket_send data (mp_sock P) = Some (Inr a, sk)" "P' = P\<lparr>mp_sock := sk\<rparr>"
    by (auto simp: port_send_def)
  then show "outbox P' = outbox P @ data \<and> emptied n a P'"
    using Socket_send_wire[of data "mp_sock P" "Inr a" sk] assms
    by (simp add: sent_some_def outbox_def emptied_def piggy_buf_def)
next
  assume "willing (mp_sock P)"
  from Socket_send_willing[OF this, of data] show
    "\<exists>a P'. port_send data P = Some (Inr a, P') \<and> willing (mp_sock P') \<and> same_but_sent (mp_sock P) (mp_sock P')"
    by (auto simp: port_send_def)
qed

lemma piggy_flush_hands:
  assumes "NextMsgId P = n"
  shows "hands P [] (emptied n) (piggy_flush P)"
proof (cases "piggy_buf P = []")
  case True
  then show ?thesis using assms by (simp add: piggy_flush_def hands_return emptied_def)
next
  case False
  show ?thesis
  proof (rule handsI)
    fix g P'
    assume "piggy_flush P = Some (Inl g, P')"
    then obtain sk where "Socket_send (piggy_buf P) (mp_sock P) = Some (Inl g, sk)" "P' = P\<lparr>mp_sock := sk\<rparr>"
      using False by (auto simp: port_send_def piggy_flush_def port_then_def split: option.splits sum.splits)
    then show "prefix (sk_wire (mp_sock P')) (outbox P @ [])"
      using Socket_send_wire[of "piggy_buf P" "mp_sock P" "Inl g" sk] by (simp add: sent_some_def outbox_def)
  next
    fix a P'
    assume "piggy_flush P = Some (Inr a, P')"
    then obtain sk where "Socket_send (piggy_buf P) (mp_sock P) = Some (Inr (), sk)" "P' = P\<lparr>mp_sock := sk, mp_piggy := Some []\<rparr>"
      using False by (auto simp: port_send_def piggy_flush_def port_then_def split: option.splits sum.splits)
    then show "outbox P' = outbox P @ [] \<and> emptied n a P'"
      using Socket_send_wire[of "piggy_buf P" "mp_sock P" "Inr ()" sk] assms
      by (simp add: sent_some_def outbox_def emptied_def piggy_buf_def)
  next
    assume "willing (mp_sock P)"
    from Socket_send_willing[OF this, of "piggy_buf P"] show
      "\<exists>a P'. piggy_flush P = Some (Inr a, P') \<and> willing (mp_sock P') \<and> same_but_sent (mp_sock P) (mp_sock P')"
      using False by (auto simp: port_send_def piggy_flush_def)
  qed
qed

text \<open>A message that the header measures right.\<close>

definition measured :: "MsgData \<Rightarrow> bool" where
  "measured d \<longleftrightarrow> md_len d = int (length (md_data d)) + 16"

lemma header_bytes_measured: "measured d \<Longrightarrow> header_bytes d = Inr (message_bytes d)"
  by (simp add: measured_def header_bytes_def read_size_def read_at_def)

lemma number_message_measured [simp]: "measured (number_message n k d) = measured d"
  by (simp add: measured_def number_message_def)

lemma Message_send_hands:
  assumes "measured d" "emptied n () P"
  shows "hands P (message_bytes d) (emptied n) (Message_send (Some d) P)"
  using port_send_hands[OF assms(2)] assms(1) by (simp add: Message_send_def header_bytes_measured) (simp add: measured_def)

definition piggy_ok :: "32 word \<Rightarrow> 'a \<Rightarrow> MessagingPort \<Rightarrow> bool" where
  "piggy_ok n a P \<longleftrightarrow> length (piggy_buf P) \<le> PiggyBackData_size \<and> NextMsgId P = n"

lemma emptied_ok: "emptied n a P \<Longrightarrow> piggy_ok n b P"
  by (simp add: emptied_def piggy_ok_def)

lemma piggy_append_hands:
  assumes "measured d" "md_len d \<le> int PiggyBackData_size" "piggy_ok n () P"
  shows "hands P (message_bytes d) (piggy_ok n) (piggy_append d P)"
proof -
  let ?room = "\<lambda>P. int (length (piggy_buf P)) + md_len d \<le> int PiggyBackData_size"
  have "hands P [] (\<lambda>a P. ?room P \<and> NextMsgId P = n)
    (if int (length (piggy_buf P)) + md_len d > int PiggyBackData_size then piggy_flush P else Some (Inr (), P))"
    using assms piggy_flush_hands[of P n]
    by (auto simp: piggy_ok_def emptied_def elim!: hands_mono intro!: hands_return)
  moreover have "hands P (message_bytes d) (piggy_ok n) (Some (Inr (), P\<lparr>mp_piggy := Some (piggy_buf P @ message_bytes d)\<rparr>))"
    if "?room P \<and> NextMsgId P = n" for P
    using that assms(1)
    by (intro handsI) (auto simp: outbox_def piggy_ok_def piggy_buf_def same_but_sent_refl measured_def)
  ultimately have "hands P ([] @ message_bytes d) (piggy_ok n)
    (port_then (if int (length (piggy_buf P)) + md_len d > int PiggyBackData_size then piggy_flush P else Some (Inr (), P))
      (\<lambda>_ P. Some (Inr (), P\<lparr>mp_piggy := Some (piggy_buf P @ message_bytes d)\<rparr>)))"
    by (rule hands_then) auto
  then show ?thesis using assms(1,2) by (simp add: piggy_append_def header_bytes_measured)
qed

lemma port_say_hands:
  assumes "measured d" "piggy_ok n () P"
  shows "hands P (message_bytes (number_message n k d)) (\<lambda>a P. emptied (n + 1) a P \<and> a = number_message n k d) (port_say (Some d) k P)"
proof -
  let ?d = "number_message n k d" and ?P = "P\<lparr>NextMsgId := n + 1\<rparr>"
  have n: "NextMsgId P = n" "NextMsgId ?P = n + 1" "md_len ?d = md_len d" using assms by (simp_all add: piggy_ok_def number_message_def)
  have m: "measured ?d" using assms by simp
  have "hands ?P (message_bytes ?d) (emptied (n + 1))
    (if piggy_buf ?P \<noteq> [] then
       if int (length (piggy_buf ?P)) + md_len ?d > int PiggyBackData_size
       then port_then (piggy_flush ?P) (\<lambda>_. Message_send (Some ?d))
       else port_then (piggy_append ?d ?P) (\<lambda>_. piggy_flush)
     else Message_send (Some ?d) ?P)" (is "hands ?P ?w ?e ?f")
  proof (cases "piggy_buf ?P = []")
    case True
    then show ?thesis using Message_send_hands[OF m, of "n + 1" ?P] n by (simp add: emptied_def)
  next
    case False
    show ?thesis
    proof (cases "int (length (piggy_buf ?P)) + md_len ?d > int PiggyBackData_size")
      case True
      have "hands ?P ([] @ ?w) ?e (port_then (piggy_flush ?P) (\<lambda>_. Message_send (Some ?d)))"
        using piggy_flush_hands[OF n(2)] Message_send_hands[OF m] by (rule hands_then) (simp add: emptied_def)
      then show ?thesis using True False by simp
    next
      case fits: False
      then have "md_len ?d \<le> int PiggyBackData_size" by simp
      moreover have "piggy_ok (n + 1) () ?P" using assms(2) by (simp add: piggy_ok_def piggy_buf_def)
      ultimately have "hands ?P (?w @ []) ?e (port_then (piggy_append ?d ?P) (\<lambda>_. piggy_flush))"
        using m by (intro hands_then[OF piggy_append_hands]) (auto intro!: piggy_flush_hands simp: piggy_ok_def)
      then show ?thesis using fits False by simp
    qed
  qed
  from hands_then_return[OF this, of "\<lambda>a P. emptied (n + 1) a P \<and> a = ?d" "\<lambda>_. ?d"] have
    "hands ?P ?w (\<lambda>a P. emptied (n + 1) a P \<and> a = ?d) (port_then ?f (\<lambda>_ P. Some (Inr ?d, P)))" by (simp add: emptied_def)
  then have "hands P ?w (\<lambda>a P. emptied (n + 1) a P \<and> a = ?d) (port_then ?f (\<lambda>_ P. Some (Inr ?d, P)))"
    by (rule hands_from[rotated 2]) simp_all
  then show ?thesis unfolding port_say_def option.case Let_def n(1) .
qed

lemma port_piggyBack_hands:
  assumes "measured d" "piggy_ok n () P"
  shows "hands P (message_bytes (number_message n (- 1) d)) (piggy_ok (n + 1)) (port_piggyBack (Some d) (- 1) P)"
proof (cases "md_len d > int PiggyBackData_size")
  case True
  from hands_then_return[OF port_say_hands[OF assms, of "- 1"], of "piggy_ok (n + 1)" "\<lambda>_. ()"] show ?thesis
    using True by (simp add: port_piggyBack_def emptied_ok)
next
  case False
  let ?d = "number_message n (- 1) d" and ?Q = "P\<lparr>NextMsgId := n + 1\<rparr>"
  let ?P = "if mp_piggy ?Q = None then ?Q\<lparr>mp_piggy := Some []\<rparr> else ?Q"
  have n: "NextMsgId P = n" using assms(2) by (simp add: piggy_ok_def)
  have b: "piggy_buf ?P = piggy_buf P" "mp_sock ?P = mp_sock P" "NextMsgId ?P = n + 1" by (simp_all add: piggy_buf_def)
  have "md_len ?d \<le> int PiggyBackData_size" using False by (simp add: number_message_def)
  moreover have "piggy_ok (n + 1) () ?P" using assms(2) b unfolding piggy_ok_def by simp
  ultimately have "hands ?P (message_bytes ?d) (piggy_ok (n + 1)) (piggy_append ?d ?P)"
    using assms(1) by (intro piggy_append_hands) simp_all
  then have "hands P (message_bytes ?d) (piggy_ok (n + 1)) (piggy_append ?d ?P)"
    unfolding hands_def outbox_def b .
  moreover have "port_piggyBack (Some d) (- 1) P = piggy_append ?d ?P"
    using False unfolding port_piggyBack_def option.case Let_def n by (simp only: if_False)
  ultimately show ?thesis by simp
qed

section \<open>The order of the messages\<close>

datatype port_op = Say MsgData | PiggyBack MsgData

fun port_do :: "port_op list \<Rightarrow> MessagingPort \<Rightarrow> unit port_result" where
  "port_do [] P = Some (Inr (), P)"
| "port_do (Say d # os) P = port_then (port_say (Some d) (- 1) P) (\<lambda>_. port_do os)"
| "port_do (PiggyBack d # os) P = port_then (port_piggyBack (Some d) (- 1) P) (\<lambda>_. port_do os)"

fun op_message :: "port_op \<Rightarrow> MsgData" where
  "op_message (Say d) = d"
| "op_message (PiggyBack d) = d"

text \<open>The bytes of the messages, numbered from \<open>n\<close>.\<close>

fun handed :: "32 word \<Rightarrow> port_op list \<Rightarrow> string" where
  "handed n [] = []"
| "handed n (x # os) = message_bytes (number_message n (- 1) (op_message x)) @ handed (n + 1) os"

definition ends_with_say :: "port_op list \<Rightarrow> bool" where
  "ends_with_say os \<longleftrightarrow> os \<noteq> [] \<and> (case last os of Say d \<Rightarrow> True | PiggyBack d \<Rightarrow> False)"

lemma port_do_Nil: "port_do [] = (\<lambda>P. Some (Inr (), P))"
  by (rule ext) simp

lemma port_op_hands:
  assumes "measured (op_message x)" "piggy_ok n () P"
  shows "hands P (message_bytes (number_message n (- 1) (op_message x)))
    (\<lambda>a P. piggy_ok (n + 1) () P \<and> (ends_with_say [x] \<longrightarrow> piggy_buf P = [])) (port_do [x] P)"
proof (cases x)
  case (Say d)
  from hands_then_return[OF port_say_hands[OF _ assms(2), of d "- 1"],
      of "\<lambda>a P. piggy_ok (n + 1) () P \<and> (ends_with_say [x] \<longrightarrow> piggy_buf P = [])" "\<lambda>_. ()"]
  show ?thesis using assms(1) Say by (simp add: emptied_def piggy_ok_def port_do_Nil)
next
  case (PiggyBack d)
  from hands_then_return[OF port_piggyBack_hands[OF _ assms(2), of d],
      of "\<lambda>a P. piggy_ok (n + 1) () P \<and> (ends_with_say [x] \<longrightarrow> piggy_buf P = [])" "\<lambda>_. ()"]
  show ?thesis using assms(1) PiggyBack by (simp add: ends_with_say_def piggy_ok_def port_do_Nil)
qed

lemma port_do_Cons: "port_do (x # os) P = port_then (port_do [x] P) (\<lambda>_. port_do os)"
  by (cases x) (auto simp: port_then_def split: option.splits sum.splits prod.splits)

lemma port_do_hands:
  assumes "\<forall>x \<in> set os. measured (op_message x)" "piggy_ok n () P" "flushed \<longrightarrow> piggy_buf P = []"
  shows "hands P (handed n os)
    (\<lambda>a P. length (piggy_buf P) \<le> PiggyBackData_size \<and> ((if os = [] then flushed else ends_with_say os) \<longrightarrow> piggy_buf P = []))
    (port_do os P)"
  using assms
proof (induction os arbitrary: n P flushed)
  case Nil
  then show ?case by (intro handsI) (auto simp: piggy_ok_def same_but_sent_refl)
next
  case (Cons x os)
  let ?w = "message_bytes (number_message n (- 1) (op_message x))"
  have "hands P (?w @ handed (n + 1) os)
    (\<lambda>a P. length (piggy_buf P) \<le> PiggyBackData_size \<and>
       ((if os = [] then ends_with_say [x] else ends_with_say os) \<longrightarrow> piggy_buf P = []))
    (port_then (port_do [x] P) (\<lambda>_. port_do os))"
  proof (rule hands_then[OF port_op_hands])
    show "measured (op_message x)" "piggy_ok n () P" using Cons.prems by simp_all
    fix P'
    assume "piggy_ok (n + 1) () P' \<and> (ends_with_say [x] \<longrightarrow> piggy_buf P' = [])"
    then show "hands P' (handed (n + 1) os)
      (\<lambda>a P. length (piggy_buf P) \<le> PiggyBackData_size \<and>
         ((if os = [] then ends_with_say [x] else ends_with_say os) \<longrightarrow> piggy_buf P = [])) (port_do os P')"
      using Cons.prems(1) by (intro Cons.IH) auto
  qed
  moreover have "(if os = [] then ends_with_say [x] else ends_with_say os) = ends_with_say (x # os)"
    by (simp add: ends_with_say_def)
  ultimately show ?case unfolding port_do_Cons[of x os] by simp
qed

text \<open>C21.
  Messages leave in the order in which they are handed over, each once and whole, whether they are said or
  piggy-backed: when a sequence of both returns, the wire and behind it the piggy-back buffer hold what they held
  and then the messages with consecutive numbers; the buffer never has more than its 1300
  bytes, and none after a message was said. Over a system that takes some byte with every send the
  sequence does return, and receives nothing. Whatever the system does, an exception leaves a beginning of
  these bytes on the wire.
\<close>

theorem in_handed_order:
  assumes "\<forall>x \<in> set os. measured (op_message x)" "length (piggy_buf P) \<le> PiggyBackData_size"
  shows "(\<forall>a P'. port_do os P = Some (Inr a, P') \<longrightarrow>
      outbox P' = outbox P @ handed (NextMsgId P) os \<and> length (piggy_buf P') \<le> PiggyBackData_size \<and>
      (ends_with_say os \<longrightarrow> piggy_buf P' = [])) \<and>
    (\<forall>f P'. port_do os P = Some (Inl f, P') \<longrightarrow> prefix (sk_wire (mp_sock P')) (outbox P @ handed (NextMsgId P) os)) \<and>
    (willing (mp_sock P) \<longrightarrow>
      (\<exists>P'. port_do os P = Some (Inr (), P') \<and> willing (mp_sock P') \<and> same_but_sent (mp_sock P) (mp_sock P')))"
proof -
  have "piggy_ok (NextMsgId P) () P" using assms(2) by (simp add: piggy_ok_def)
  note h = port_do_hands[OF assms(1) this, of False]
  have e: "os = [] \<Longrightarrow> \<not> ends_with_say os" by (simp add: ends_with_say_def)
  from h show ?thesis unfolding hands_def using e by (fastforce split: if_splits)
qed

text \<open>A system that takes one byte at a time.\<close>

definition demo_sender :: MessagingPort where
  "demo_sender = \<lparr>mp_sock = (Socket_new False)\<lparr>sk_open := True, sk_takes := (\<lambda>_ _. Sent 1)\<rparr>, mp_piggy = None, NextMsgId = -1\<rparr>"

lemma in_handed_order_witness:
  "\<exists>P'. port_do [PiggyBack demo_md, Say demo_md] demo_sender = Some (Inr (), P') \<and> piggy_buf P' = [] \<and>
     sk_wire (mp_sock P') = message_bytes (number_message (- 1) (- 1) demo_md) @ message_bytes (number_message 0 (- 1) demo_md)"
proof -
  let ?os = "[PiggyBack demo_md, Say demo_md]"
  have m: "\<forall>x \<in> set ?os. measured (op_message x)" by (simp add: measured_def demo_md_def)
  have b: "outbox demo_sender = []" "length (piggy_buf demo_sender) \<le> PiggyBackData_size" "NextMsgId demo_sender = -1"
    by (simp_all add: outbox_def piggy_buf_def demo_sender_def Socket_new_def)
  have w: "willing (mp_sock demo_sender)" by (simp add: demo_sender_def willing_def)
  have e: "ends_with_say ?os" by (simp add: ends_with_say_def)
  note t = in_handed_order[OF m b(2)]
  from t w obtain P' where P: "port_do ?os demo_sender = Some (Inr (), P')" by blast
  with t e have "outbox P' = outbox demo_sender @ handed (NextMsgId demo_sender) ?os" "piggy_buf P' = []" by blast+
  then have "piggy_buf P' = []" "sk_wire (mp_sock P') = handed (- 1) ?os" unfolding b by (simp_all add: outbox_def)
  moreover have "handed (- 1) ?os = message_bytes (number_message (- 1) (- 1) demo_md) @ message_bytes (number_message 0 (- 1) demo_md)" by simp
  ultimately show ?thesis using P by (intro exI[of _ P']) simp
qed

end
