(* ===== verification/MongoConnection.thy ===== *)
theory MongoConnection
imports MongoSocket
begin

text \<open>
  The connection of the driver: \<open>DBClientConnection\<close> of \<open>client/dbclient.cpp\<close> and
  \<open>client/dbclientinterface.h\<close> over a port, and \<open>HostAndPort\<close> of \<open>util/net/hostandport.h\<close>. A query over a
  connection is the query over the answers in their order, and a connection that failed stays failed.
\<close>

section \<open>Hosts and ports\<close>

record HostAndPort =
  hp_host :: string
  hp_port :: int

definition DefaultDBPort :: int where
  "DefaultDBPort = 27017"

definition hasPort :: "HostAndPort \<Rightarrow> bool" where
  "hasPort h \<longleftrightarrow> 0 \<le> hp_port h"

definition port_of :: "HostAndPort \<Rightarrow> int" where
  "port_of h = (if hasPort h then hp_port h else DefaultDBPort)"

definition HostAndPort_empty :: "HostAndPort \<Rightarrow> bool" where
  "HostAndPort_empty h \<longleftrightarrow> hp_host h = [] \<and> hp_port h < 0"

definition HostAndPort_with :: "string \<Rightarrow> int \<Rightarrow> HostAndPort res" where
  "HostAndPort_with h p =
     (if starts_with h ''#'' then Inl (Throw ''assertion'') else Inr \<lparr>hp_host = h, hp_port = p\<rparr>)"

text \<open>\<open>atoi\<close>: no digits are 0, and a number that is no int has no meaning.\<close>

definition atoi :: "string \<Rightarrow> int res" where
  "atoi s =
     (case read_int INT_MIN INT_MAX s of
        Some (n, _) \<Rightarrow> Inr n
      | None \<Rightarrow>
          let t = dropWhile is_space s;
              u = (if t \<noteq> [] \<and> hd t \<in> set ''+-'' then tl t else t)
          in if takeWhile is_digit u = [] then Inr 0 else Inl (Undefined ''atoi''))"

definition after_last :: "char \<Rightarrow> string \<Rightarrow> string" where
  "after_last c s = rev (takeWhile (\<lambda>x. x \<noteq> c) (rev s))"

definition before_last :: "char \<Rightarrow> string \<Rightarrow> string" where
  "before_last c s = rev (tl (dropWhile (\<lambda>x. x \<noteq> c) (rev s)))"

definition HostAndPort_init :: "string \<Rightarrow> HostAndPort res" where
  "HostAndPort_init s =
     (let p = c_str s
      in if p = [] then Inl (Throw ''13110'')
         else if CHR '':'' \<in> set p then
           run_then (atoi (after_last CHR '':'' p)) (\<lambda>port.
             if 0 < port then Inr \<lparr>hp_host = before_last CHR '':'' p, hp_port = port\<rparr> else Inl (Throw ''13095''))
         else Inr \<lparr>hp_host = p, hp_port = - 1\<rparr>)"

definition HostAndPort_str :: "bool \<Rightarrow> HostAndPort \<Rightarrow> string" where
  "HostAndPort_str includePort h =
     (if \<not> includePort then hp_host h
      else hp_host h @ (if port_of h \<noteq> - 1 then '':'' @ show_int (port_of h) else []))"

definition isLocalHost :: "HostAndPort \<Rightarrow> bool" where
  "isLocalHost h \<longleftrightarrow> hp_host h = ''localhost'' \<or> starts_with (hp_host h) ''127.'' \<or> hp_host h = ''::1'' \<or>
     hp_host h = ''anonymous unix socket'' \<or> starts_with (hp_host h) ''/''"

definition HostAndPort_eq :: "HostAndPort \<Rightarrow> HostAndPort \<Rightarrow> bool" where
  "HostAndPort_eq h r \<longleftrightarrow> hp_host h = hp_host r \<and> port_of h = port_of r"

definition HostAndPort_less :: "HostAndPort \<Rightarrow> HostAndPort \<Rightarrow> bool" where
  "HostAndPort_less h r \<longleftrightarrow>
     (if lexordp (<) (map (of_char :: char \<Rightarrow> nat) (hp_host h)) (map of_char (hp_host r)) then True
      else hp_host h = hp_host r \<and> port_of h < port_of r)"

section \<open>The connection\<close>

text \<open>
  What becomes of an attempt to connect, with what the system will do for the socket; the clock,
  the attempts and which hosts have an address are the environment's, call by call.
\<close>

datatype connecting =
    NoSocket
  | ConnectTimedOut
  | ConnectError
  | Connected "nat \<Rightarrow> nat \<Rightarrow> sent" "arrival list"

definition Socket_connect :: "connecting \<Rightarrow> Socket \<Rightarrow> bool \<times> Socket" where
  "Socket_connect x sk =
     (case x of
        NoSocket \<Rightarrow> (False, sk\<lparr>sk_open := False\<rparr>)
      | ConnectTimedOut \<Rightarrow> (False, Socket_close (sk\<lparr>sk_open := True\<rparr>))
      | ConnectError \<Rightarrow> (False, Socket_close (sk\<lparr>sk_open := True\<rparr>))
      | Connected takes as \<Rightarrow> (True, sk\<lparr>sk_open := True, sk_takes := takes, sk_arrivals := as\<rparr>))"

record DBClientConnection =
  dc_p :: "MessagingPort option"
  dc_failed :: bool
  dc_autoReconnect :: bool
  dc_lastReconnectTry :: int
  dc_server :: HostAndPort
  dc_serverString :: string
  dc_so_timeout :: bool
  dc_msgId :: "32 word"
  dc_clock :: "nat \<Rightarrow> int"
  dc_looks :: nat
  dc_attempts :: "nat \<Rightarrow> connecting"
  dc_connects :: nat
  dc_addressed :: "string \<Rightarrow> bool"

definition DBClientConnection_new ::
  "bool \<Rightarrow> bool \<Rightarrow> 32 word \<Rightarrow> (nat \<Rightarrow> int) \<Rightarrow> (nat \<Rightarrow> connecting) \<Rightarrow> (string \<Rightarrow> bool) \<Rightarrow> DBClientConnection" where
  "DBClientConnection_new autoReconnect so_timeout n clock attempts addressed =
     \<lparr>dc_p = None, dc_failed = False, dc_autoReconnect = autoReconnect, dc_lastReconnectTry = 0,
      dc_server = \<lparr>hp_host = [], hp_port = - 1\<rparr>, dc_serverString = [], dc_so_timeout = so_timeout, dc_msgId = n,
      dc_clock = clock, dc_looks = 0, dc_attempts = attempts, dc_connects = 0, dc_addressed = addressed\<rparr>"

definition isFailed :: "DBClientConnection \<Rightarrow> bool" where
  "isFailed D = dc_failed D"

definition time_of :: "DBClientConnection \<Rightarrow> int \<times> DBClientConnection" where
  "time_of D = (dc_clock D (dc_looks D), D\<lparr>dc_looks := dc_looks D + 1\<rparr>)"

text \<open>The new port is made, then the old one is destroyed, which sends what was piggy-backed on it.\<close>

definition reset_port :: "DBClientConnection \<Rightarrow> DBClientConnection option" where
  "reset_port D =
     (case dc_p D of
        None \<Rightarrow> Some (D\<lparr>dc_p := Some (MessagingPort_new (dc_so_timeout D) (dc_msgId D))\<rparr>)
      | Some P \<Rightarrow>
          map_option (\<lambda>P. D\<lparr>dc_p := Some (MessagingPort_new (dc_so_timeout D) (NextMsgId P))\<rparr>) (MessagingPort_delete P))"

text \<open>A host without an address is no failure of the connection.\<close>

definition connect_to :: "DBClientConnection \<Rightarrow> (bool \<times> DBClientConnection) option" where
  "connect_to D =
     map_option (\<lambda>D.
       if hp_host (dc_server D) = [] \<or> \<not> dc_addressed D (hp_host (dc_server D)) then (False, D)
       else let (ok, sk) = Socket_connect (dc_attempts D (dc_connects D)) (mp_sock (the (dc_p D)));
                D = D\<lparr>dc_connects := dc_connects D + 1, dc_p := map_option (\<lambda>P. P\<lparr>mp_sock := sk\<rparr>) (dc_p D)\<rparr>
            in if \<not> ok then (False, D\<lparr>dc_failed := True\<rparr>) else (True, D))
     (reset_port (D\<lparr>dc_serverString := HostAndPort_str True (dc_server D)\<rparr>))"

definition conn_connect :: "HostAndPort \<Rightarrow> DBClientConnection \<Rightarrow> (bool \<times> DBClientConnection) option" where
  "conn_connect server D = connect_to (D\<lparr>dc_server := server, dc_serverString := HostAndPort_str True server\<rparr>)"

definition conn_connect_throwing :: "string \<Rightarrow> DBClientConnection \<Rightarrow> (unit res \<times> DBClientConnection) option" where
  "conn_connect_throwing serverHostname D =
     (case HostAndPort_init serverHostname of
        Inl f \<Rightarrow> Some (Inl f, D)
      | Inr h \<Rightarrow> map_option (\<lambda>(ok, D). (if ok then Inr () else Inl (Throw ''9000''), D)) (conn_connect h D))"

text \<open>Nobody logs in over a connection of the program, so there is nobody to log in again.\<close>

definition checkConnection :: "DBClientConnection \<Rightarrow> (unit res \<times> DBClientConnection) option" where
  "checkConnection D =
     (if \<not> dc_failed D then Some (Inr (), D)
      else let (t, D') = (if dc_lastReconnectTry D \<noteq> 0 then time_of D else (0, D))
           in if dc_lastReconnectTry D \<noteq> 0 \<and> t - dc_lastReconnectTry D < 2 then Some (Inl (SocketException FAILED_STATE), D')
              else if \<not> dc_autoReconnect D then Some (Inl (SocketException FAILED_STATE), D')
              else let (t, D) = time_of D'
                   in map_option (\<lambda>(ok, D).
                        if ok then (Inr (), D) else (Inl (SocketException CONNECT_ERROR), D\<lparr>dc_failed := True\<rparr>))
                      (connect_to (D\<lparr>dc_lastReconnectTry := t, dc_failed := False\<rparr>)))"

text \<open>\<open>port()\<close> and what is done with it, in the state of the connection.\<close>

definition on_port :: "(MessagingPort \<Rightarrow> 'a port_result) \<Rightarrow> DBClientConnection \<Rightarrow> ('a res \<times> DBClientConnection) option" where
  "on_port f D =
     (case dc_p D of
        None \<Rightarrow> Some (Inl (Throw ''assertion''), D)
      | Some P \<Rightarrow> map_option (\<lambda>(r, P). (r, D\<lparr>dc_p := Some P\<rparr>)) (f P))"

text \<open>The handler of \<open>say\<close> and \<open>call\<close>.\<close>

definition mark_failed :: "('a res \<times> DBClientConnection) option \<Rightarrow> ('a res \<times> DBClientConnection) option" where
  "mark_failed x =
     map_option (\<lambda>(r, D).
       (r, case r of Inl f \<Rightarrow> if is_socket_exception f then D\<lparr>dc_failed := True\<rparr> else D | Inr _ \<Rightarrow> D)) x"

definition conn_say :: "Message \<Rightarrow> DBClientConnection \<Rightarrow> (unit res \<times> DBClientConnection) option" where
  "conn_say toSend D =
     port_then (checkConnection D) (\<lambda>_ D.
       port_then (mark_failed (on_port (port_say toSend (- 1)) D)) (\<lambda>_ D. Some (Inr (), D)))"

definition conn_sayPiggyBack :: "Message \<Rightarrow> DBClientConnection \<Rightarrow> (unit res \<times> DBClientConnection) option" where
  "conn_sayPiggyBack toSend D = on_port (port_piggyBack toSend (- 1)) D"

definition conn_recv :: "Message \<Rightarrow> DBClientConnection \<Rightarrow> ((bool \<times> Message) res \<times> DBClientConnection) option" where
  "conn_recv m D = on_port (port_recv m) D"

text \<open>No message is the false of a call, the message else what the response became.\<close>

definition conn_call :: "Message \<Rightarrow> Message \<Rightarrow> bool \<Rightarrow> DBClientConnection \<Rightarrow> (Message option res \<times> DBClientConnection) option" where
  "conn_call toSend response assertOk D =
     port_then (checkConnection D) (\<lambda>_ D.
       port_then (mark_failed (on_port (port_call_of toSend response) D)) (\<lambda>(ok, response) D.
         Some (if ok then (Inr (Some response), D)
               else (if assertOk then Inl (Throw ''10278'') else Inr None, D\<lparr>dc_failed := True\<rparr>))))"

definition conn_killCursor :: "MsgData \<Rightarrow> bool \<Rightarrow> int \<Rightarrow> DBClientConnection \<Rightarrow> (unit res \<times> DBClientConnection) option" where
  "conn_killCursor memory lazyKillCursor cursorId D =
     (case killCursor_message memory cursorId of
        Inl f \<Rightarrow> Some (Inl f, D)
      | Inr m \<Rightarrow> if lazyKillCursor then conn_sayPiggyBack m D else conn_say m D)"

text \<open>A connection as the cursors use it.\<close>

definition conn_port :: "DBClientConnection port" where
  "conn_port d D = conn_call (Some d) None False D"

definition conn_query ::
  "int \<Rightarrow> MsgData \<Rightarrow> string \<Rightarrow> BSONObj \<Rightarrow> int \<Rightarrow> int \<Rightarrow> BSONObj option \<Rightarrow> int \<Rightarrow> int \<Rightarrow> DBClientConnection
     \<Rightarrow> (DBClientCursor option res \<times> DBClientConnection) option" where
  "conn_query uninit memory ns q nToReturn nToSkip fieldsToReturn queryOptions batchSize D =
     port_then (checkConnection D) (\<lambda>_.
       client_query uninit memory conn_port ns q nToReturn nToSkip fieldsToReturn queryOptions batchSize)"

text \<open>The destructor of a cursor keeps its exceptions to itself.\<close>

definition cursor_gone :: "MsgData \<Rightarrow> bool \<Rightarrow> bool \<Rightarrow> DBClientCursor \<Rightarrow> DBClientConnection \<Rightarrow> DBClientConnection option" where
  "cursor_gone memory inShutdown lazyKillCursor c D =
     (case DBClientCursor_delete memory inShutdown c of
        Inr (Some m) \<Rightarrow> map_option snd (if lazyKillCursor then conn_sayPiggyBack (Some m) D else conn_say (Some m) D)
      | _ \<Rightarrow> Some D)"

section \<open>A connection that failed\<close>

text \<open>What can be asked of a connection, and whether an answer or an exception came.\<close>

datatype conn_op =
    ConnSay Message
  | ConnCall Message bool
  | ConnQuery MsgData string BSONObj
  | ConnPiggyBack Message
  | ConnRecv

definition drop_value :: "('a res \<times> 's) option \<Rightarrow> (unit res \<times> 's) option" where
  "drop_value x = map_option (\<lambda>(r, s). (run_then r (\<lambda>_. Inr ()), s)) x"

fun conn_do :: "conn_op \<Rightarrow> DBClientConnection \<Rightarrow> (unit res \<times> DBClientConnection) option" where
  "conn_do (ConnSay m) D = conn_say m D"
| "conn_do (ConnCall m assertOk) D = drop_value (conn_call m None assertOk D)"
| "conn_do (ConnQuery memory ns q) D = drop_value (conn_query 0 memory ns q 0 0 None 0 0 D)"
| "conn_do (ConnPiggyBack m) D = conn_sayPiggyBack m D"
| "conn_do ConnRecv D = drop_value (conn_recv None D)"

fun asks_server :: "conn_op \<Rightarrow> bool" where
  "asks_server (ConnPiggyBack m) = False"
| "asks_server ConnRecv = False"
| "asks_server _ = True"

text \<open>A run of them: every one with its outcome.\<close>

fun conn_run :: "conn_op list \<Rightarrow> DBClientConnection \<Rightarrow> ((conn_op \<times> unit res) list \<times> DBClientConnection) option" where
  "conn_run [] D = Some ([], D)"
| "conn_run (x # xs) D =
     (case conn_do x D of
        None \<Rightarrow> None
      | Some (r, D) \<Rightarrow> map_option (\<lambda>(rs, D). ((x, r) # rs, D)) (conn_run xs D))"

definition dead :: "DBClientConnection \<Rightarrow> bool" where
  "dead D \<longleftrightarrow> dc_failed D \<and> \<not> dc_autoReconnect D \<and> dc_lastReconnectTry D = 0"

lemma dead_check: "dead D \<Longrightarrow> checkConnection D = Some (Inl (SocketException FAILED_STATE), D)"
  by (simp add: dead_def checkConnection_def)

lemma dead_asks: "dead D \<Longrightarrow> asks_server x \<Longrightarrow> conn_do x D = Some (Inl (SocketException FAILED_STATE), D)"
  by (cases x) (simp_all add: conn_say_def conn_call_def conn_query_def dead_check drop_value_def)

lemma on_port_state:
  "on_port f D = Some (r, D') \<Longrightarrow> dc_failed D' = dc_failed D \<and> dc_autoReconnect D' = dc_autoReconnect D \<and>
     dc_lastReconnectTry D' = dc_lastReconnectTry D"
  by (auto simp: on_port_def split: option.splits)

lemma dead_step:
  assumes "dead D" "conn_do x D = Some (r, D')"
  shows "dead D'" "asks_server x \<Longrightarrow> r = Inl (SocketException FAILED_STATE)"
proof -
  show "asks_server x \<Longrightarrow> r = Inl (SocketException FAILED_STATE)" using dead_asks[OF assms(1)] assms(2) by auto
  show "dead D'"
  proof (cases "asks_server x")
    case True
    then show ?thesis using dead_asks[OF assms(1)] assms by auto
  next
    case False
    then show ?thesis
    proof (cases x)
      case (ConnPiggyBack m)
      then have "on_port (port_piggyBack m (- 1)) D = Some (r, D')" using assms(2) by (simp add: conn_sayPiggyBack_def)
      from on_port_state[OF this] show ?thesis using assms(1) by (simp add: dead_def)
    next
      case ConnRecv
      then obtain s where "on_port (port_recv None) D = Some (s, D')"
        using assms(2) by (auto simp: conn_recv_def drop_value_def)
      from on_port_state[OF this] show ?thesis using assms(1) by (simp add: dead_def)
    qed simp_all
  qed
qed

lemma dead_run:
  "dead D \<Longrightarrow> conn_run xs D = Some (rs, D') \<Longrightarrow>
     dead D' \<and> (\<forall>(x, r) \<in> set rs. asks_server x \<longrightarrow> r = Inl (SocketException FAILED_STATE))"
proof (induction xs arbitrary: D rs)
  case (Cons x xs)
  obtain r D1 rs' where r: "conn_do x D = Some (r, D1)" "conn_run xs D1 = Some (rs', D')" "rs = (x, r) # rs'"
    using Cons.prems(2) by (auto split: option.splits prod.splits)
  with Cons.IH[OF dead_step(1)[OF Cons.prems(1) r(1)] r(2)] dead_step(2)[OF Cons.prems(1) r(1)] show ?case by auto
qed auto

text \<open>A request that fails for the connection leaves it dead.\<close>

lemma mark_failed_state:
  assumes "mark_failed (on_port f D) = Some (r, D')" "\<not> dc_autoReconnect D" "dc_lastReconnectTry D = 0"
  shows "\<not> dc_autoReconnect D' \<and> dc_lastReconnectTry D' = 0" "r = Inl g \<Longrightarrow> is_socket_exception g \<Longrightarrow> dead D'"
proof -
  obtain D1 where d: "on_port f D = Some (r, D1)"
    "D' = (case r of Inl g \<Rightarrow> if is_socket_exception g then D1\<lparr>dc_failed := True\<rparr> else D1 | Inr _ \<Rightarrow> D1)"
    using assms(1) by (auto simp: mark_failed_def)
  then show "\<not> dc_autoReconnect D' \<and> dc_lastReconnectTry D' = 0" "r = Inl g \<Longrightarrow> is_socket_exception g \<Longrightarrow> dead D'"
    using on_port_state[OF d(1)] assms(2,3) by (auto simp: dead_def split: sum.splits)
qed

lemma checkConnection_alive:
  assumes "\<not> dc_autoReconnect D" "dc_lastReconnectTry D = 0"
  obtains "dead D" | "checkConnection D = Some (Inr (), D)"
  using assms by (cases "dc_failed D") (auto simp: dead_def checkConnection_def)

lemma failed_say:
  assumes "\<not> dc_autoReconnect D" "dc_lastReconnectTry D = 0" "conn_say m D = Some (Inl f, D')" "is_socket_exception f"
  shows "dead D'"
  using assms(1,2)
proof (cases rule: checkConnection_alive)
  case 1
  then show ?thesis using dead_asks[of D "ConnSay m"] assms(3) by auto
next
  case 2
  then have "mark_failed (on_port (port_say m (- 1)) D) = Some (Inl f, D')"
    using assms(3) by (auto simp: conn_say_def port_then_def split: option.splits sum.splits)
  then show ?thesis using mark_failed_state(2) assms by blast
qed

text \<open>A call that gets no answer, whether it is asked to throw then (as \<open>requestMore\<close> does) or to say so.\<close>

lemma unanswered_call:
  assumes "\<not> dc_autoReconnect D" "dc_lastReconnectTry D = 0" "conn_call m None assertOk D = Some (r, D')"
    "on_port (port_call_of m None) D = Some (Inr (False, x), D0)"
  shows "dead D'" "dc_failed D \<or> r = (if assertOk then Inl (Throw ''10278'') else Inr None)"
proof -
  have "dead D' \<and> (dc_failed D \<or> r = (if assertOk then Inl (Throw ''10278'') else Inr None))"
    using assms(1,2)
  proof (cases rule: checkConnection_alive)
    case 1
    then show ?thesis using assms(3) by (auto simp: conn_call_def dead_check dead_def)
  next
    case 2
    have m: "mark_failed (on_port (port_call_of m None) D) = Some (Inr (False, x), D0)"
      using assms(4) by (simp add: mark_failed_def)
    with 2 have "r = (if assertOk then Inl (Throw ''10278'') else Inr None)" "D' = D0\<lparr>dc_failed := True\<rparr>"
      using assms(3) by (auto simp: conn_call_def)
    then show ?thesis using mark_failed_state[OF m assms(1,2)] by (auto simp: dead_def isFailed_def)
  qed
  then show "dead D'" "dc_failed D \<or> r = (if assertOk then Inl (Throw ''10278'') else Inr None)" by blast+
qed

lemma failed_call:
  assumes "\<not> dc_autoReconnect D" "dc_lastReconnectTry D = 0" "conn_call m None assertOk D = Some (r, D')"
    "r = Inr None \<or> (\<exists>f. r = Inl f \<and> is_socket_exception f) \<or> r = Inl (Throw ''10278'') \<and> isFailed D'"
  shows "dead D'"
  using assms(1,2)
proof (cases rule: checkConnection_alive)
  case 1
  then show ?thesis using assms(3) by (auto simp: conn_call_def dead_check)
next
  case 2
  then have c: "port_then (mark_failed (on_port (port_call_of m None) D)) (\<lambda>(ok, response) D.
      Some (if ok then (Inr (Some response), D)
            else (if assertOk then Inl (Throw ''10278'') else Inr None, D\<lparr>dc_failed := True\<rparr>))) = Some (r, D')"
    using assms(3) by (simp add: conn_call_def)
  then obtain x D1 where x: "mark_failed (on_port (port_call_of m None) D) = Some (x, D1)"
    by (cases "mark_failed (on_port (port_call_of m None) D)") auto
  note s = mark_failed_state[OF x assms(1,2)]
  show ?thesis
  proof (cases x)
    case (Inl g)
    then show ?thesis using c x s assms(4) by (auto simp: dead_def isFailed_def)
  next
    case (Inr a)
    then show ?thesis using c x s assms(4) by (auto simp: dead_def isFailed_def split: prod.splits if_splits)
  qed
qed

text \<open>C22.
  A connection as the program makes it, which does not reconnect by itself, is lost for good: when a message
  cannot be sent, or a call gets no answer (it says so, or throws 10278 when it is asked to, or ends in a socket
  exception), the connection counts as failed, so a ping says no. From then
  on, whatever is asked of it and whatever the system would do, every message, call and query ends at
  once in the exception of a failed state and changes nothing, not a byte is sent, and the connection
  still counts as failed after any number of them.
\<close>

theorem lost_for_good:
  assumes "\<not> dc_autoReconnect D" "dc_lastReconnectTry D = 0"
    "conn_say m D = Some (Inl f, D1) \<and> is_socket_exception f \<or> conn_call m None b D = Some (Inr None, D1) \<or>
     conn_call m None b D = Some (Inl f, D1) \<and> is_socket_exception f \<or>
     conn_call m None b D = Some (r, D1) \<and> on_port (port_call_of m None) D = Some (Inr (False, x), D0)"
  shows "isFailed D1 \<and>
    (on_port (port_call_of m None) D = Some (Inr (False, x), D0) \<and> conn_call m None True D = Some (r, D1) \<and> \<not> dc_failed D \<longrightarrow>
      r = Inl (Throw ''10278'')) \<and>
    (\<forall>xs rs D2. conn_run xs D1 = Some (rs, D2) \<longrightarrow>
       isFailed D2 \<and> (\<forall>(x, r) \<in> set rs. asks_server x \<longrightarrow> r = Inl (SocketException FAILED_STATE))) \<and>
    (\<forall>xs x rs D2. conn_run xs D1 = Some (rs, D2) \<and> asks_server x \<longrightarrow>
       conn_do x D2 = Some (Inl (SocketException FAILED_STATE), D2))"
proof -
  have d: "dead D1"
    using assms(3) failed_say[OF assms(1,2)] failed_call[OF assms(1,2)] unanswered_call(1)[OF assms(1,2)] by blast
  have "isFailed D1" "r = Inl (Throw ''10278'')"
    if "on_port (port_call_of m None) D = Some (Inr (False, x), D0)" "conn_call m None True D = Some (r, D1)" "\<not> dc_failed D"
    using unanswered_call(2)[OF assms(1,2) that(2,1)] that(3) d by (simp_all add: isFailed_def dead_def)
  then show ?thesis using dead_run[OF d] dead_asks d unfolding isFailed_def dead_def by fastforce
qed

text \<open>The server closes the connection before it answers.\<close>

definition demo_connection :: DBClientConnection where
  "demo_connection = (DBClientConnection_new False False 0 (\<lambda>_. 0)
     (\<lambda>_. Connected (\<lambda>_ len. Sent len) []) (\<lambda>_. True))
     \<lparr>dc_p := Some ((MessagingPort_new False 0)\<lparr>mp_sock := (Socket_new False)\<lparr>sk_open := True, sk_takes := (\<lambda>_ len. Sent len)\<rparr>\<rparr>)\<rparr>"

lemma lost_for_good_witness:
  "\<exists>D1. conn_call (Some demo_md) None False demo_connection = Some (Inr None, D1) \<and>
     (\<forall>xs x rs D2. conn_run xs D1 = Some (rs, D2) \<and> asks_server x \<longrightarrow>
        conn_do x D2 = Some (Inl (SocketException FAILED_STATE), D2))"
proof -
  have n: "\<not> dc_autoReconnect demo_connection" "dc_lastReconnectTry demo_connection = 0"
    by (simp_all add: demo_connection_def DBClientConnection_new_def)
  obtain P where P: "dc_p demo_connection = Some P" "willing (mp_sock P)" "ahead (mp_sock P) []" "piggy_ok 0 () P"
    by (simp add: demo_connection_def MessagingPort_new_def willing_def ahead_def Socket_new_def piggy_ok_def piggy_buf_def)
  have w: "measured demo_md" "md_whole demo_md" by (simp_all add: measured_def md_whole_def demo_md_def)
  obtain a P1 where s: "port_say (Some demo_md) (- 1) P = Some (Inr a, P1)" "same_but_sent (mp_sock P) (mp_sock P1)"
    using port_say_hands[OF w(1) P(4), of "- 1"] P(2) unfolding hands_def by blast
  then have "ahead (mp_sock P1) []" using P(3) by (simp add: ahead_def same_but_sent_def)
  from recv_body_cut[OF w(2) this, of "message_bytes demo_md"] obtain sk where
    "recv_body None P1 = Some (Inl (SocketException CLOSED), P1\<lparr>mp_sock := sk\<rparr>)" by auto
  then have r: "port_call_of (Some demo_md) None P = Some (Inr (False, None), P1\<lparr>mp_sock := sk\<rparr>)"
    using s(1) by (simp add: port_call_of_def recv_answer_def port_recv_def)
  have "\<not> dc_failed demo_connection" by (simp add: demo_connection_def DBClientConnection_new_def)
  then obtain D1 where c: "conn_call (Some demo_md) None False demo_connection = Some (Inr None, D1)"
    using P(1) r by (simp add: conn_call_def checkConnection_def on_port_def mark_failed_def)
  with lost_for_good[OF n] show ?thesis by blast
qed

section \<open>Cursors over a connection\<close>

lemma send_buffer_measured: "send_buffer memory operation aps = Inr (Some d) \<Longrightarrow> measured d"
  by (auto simp: send_buffer_def setData_def setOperation_def measured_def MsgDataHeaderSize_def run_then_def
      split: sum.splits)

lemma request_measured:
  "\<forall>d. getMore_message memory n c = Inr (Some d) \<longrightarrow> measured d" "\<forall>d. assembleInit memory c = Inr (Some d) \<longrightarrow> measured d"
  by (auto simp: getMore_message_def assembleInit_def assembleRequest_def dest: send_buffer_measured split: if_splits)

text \<open>
  A port that does for a cursor what another one does, as long as that one answers: what a cursor comes to
  over the one, it comes to over the other.
\<close>

locale port_simulation =
  fixes R :: "'s \<Rightarrow> 't \<Rightarrow> bool" and p :: "'s port" and q :: "'t port"
  assumes answered: "\<lbrakk>R s t; measured d; q d t = Some (Inr (Some x), t')\<rbrakk> \<Longrightarrow> \<exists>s'. p d s = Some (Inr (Some x), s') \<and> R s' t'"
begin

lemma port_call_sim:
  assumes "R s t" "port_call q m t = Some (Inr (Some x), t')" "\<forall>d. m = Inr (Some d) \<longrightarrow> measured d"
  shows "\<exists>s'. port_call p m s = Some (Inr (Some x), s') \<and> R s' t'"
  using assms answered by (auto simp: port_call_def split: sum.splits option.splits)

lemma requestMore_sim:
  assumes "R s t" "requestMore memory q c t = Some (Inr c', t')"
  shows "\<exists>s'. requestMore memory p c s = Some (Inr c', s') \<and> R s' t'"
proof -
  let ?n = "cc_nToReturn c - batch_nReturned c"
  let ?c = "if cc_haveLimit c then c\<lparr>cc_nToReturn := ?n\<rparr> else c"
  let ?m = "getMore_message memory (nextBatchSize ?c) ?c"
  have g: "\<not> (cc_cursorId c = 0 \<or> batch_pos c \<noteq> batch_nReturned c)" "\<not> (cc_haveLimit c \<and> ?n \<le> 0)"
    using assms(2) by (auto simp: requestMore_def Let_def split: if_splits)
  have e: "requestMore memory port c u =
      (case port_call port ?m u of
         None \<Rightarrow> None
       | Some (Inl f, s) \<Rightarrow> Some (Inl f, s)
       | Some (Inr None, s) \<Rightarrow> Some (Inl (Throw ''10278''), s)
       | Some (Inr (Some m), s) \<Rightarrow> map_option (\<lambda>r. (r, s)) (dataReceived m ?c))" for port :: "'x port" and u
    using g unfolding requestMore_def Let_def by (simp only: if_False)
  obtain m where m: "port_call q ?m t = Some (Inr (Some m), t')" "dataReceived m ?c = Some (Inr c')"
    using assms(2) unfolding e by (auto split: option.splits sum.splits prod.splits)
  from port_call_sim[OF assms(1) m(1) request_measured(1)] obtain s' where "port_call p ?m s = Some (Inr (Some m), s')" "R s' t'" by blast
  then show ?thesis using m(2) unfolding e by simp
qed

lemma cc_more_sim:
  assumes "R s t" "cc_more memory q c t = Some (Inr x, t')"
  shows "\<exists>s'. cc_more memory p c s = Some (Inr x, s') \<and> R s' t'"
proof (cases "cc_putBack c \<noteq> [] \<or> cc_haveLimit c \<and> cc_nToReturn c \<le> batch_pos c \<or> batch_pos c < batch_nReturned c \<or> cc_cursorId c = 0")
  case True
  then show ?thesis using assms(1,2) by (auto simp: cc_more_def split: if_splits)
next
  case False
  then have e: "cc_more memory port c u =
      map_option (\<lambda>(r, s). (run_then r (\<lambda>c. Inr (batch_pos c < batch_nReturned c, c)), s)) (requestMore memory port c u)"
    for port :: "'x port" and u by (auto simp: cc_more_def)
  obtain c' where c: "requestMore memory q c t = Some (Inr c', t')" "x = (batch_pos c' < batch_nReturned c', c')"
    using assms(2) unfolding e by (auto simp: run_then_Inr_iff)
  from requestMore_sim[OF assms(1) c(1)] c(2) show ?thesis unfolding e by auto
qed

lemma cc_all_sim:
  assumes "cc_all memory q c t acc = Some (Inr os, t')" "R s t"
  shows "\<exists>s'. cc_all memory p c s acc = Some (Inr os, s') \<and> R s' t'"
proof -
  define Q where "Q = (\<lambda>(mem :: MsgData) (port :: 't port) c t acc (z :: BSONObj list res \<times> 't).
    port = q \<longrightarrow> mem = memory \<longrightarrow> (\<forall>s os. R s t \<longrightarrow> fst z = Inr os \<longrightarrow> (\<exists>s'. cc_all memory p c s acc = Some (Inr os, s') \<and> R s' (snd z))))"
  have "Q memory q c t acc (Inr os, t')"
  proof (rule cc_all.raw_induct[OF _ assms(1)])
    fix f mem and port :: "'t port" and c t acc z
    assume IH: "\<And>mem port c t acc z. f mem port c t acc = Some z \<Longrightarrow> Q mem port c t acc z"
    assume step: "(case cc_more mem port c t of
        None \<Rightarrow> None
      | Some (r, s) \<Rightarrow>
          (case r of
             Inl f \<Rightarrow> Some (Inl f, s)
           | Inr (b, c) \<Rightarrow>
               if \<not> b then Some (Inr acc, s)
               else case cc_next c of
                      Inl f \<Rightarrow> Some (Inl f, s)
                    | Inr (o', c) \<Rightarrow> f mem port c s (acc @ [o']))) = Some z"
    show "Q mem port c t acc z"
      unfolding Q_def
    proof (intro impI allI)
      fix s os
      assume eq: "port = q" "mem = memory" and r: "R s t" and z: "fst z = Inr os"
      obtain b c1 t1 where m: "cc_more memory q c t = Some (Inr (b, c1), t1)"
        using step eq z by (auto split: option.splits sum.splits)
      from cc_more_sim[OF r m] obtain s1 where m': "cc_more memory p c s = Some (Inr (b, c1), s1)" "R s1 t1" by blast
      show "\<exists>s'. cc_all memory p c s acc = Some (Inr os, s') \<and> R s' (snd z)"
      proof (cases b)
        case False
        then show ?thesis using step eq z m m' by (subst cc_all.simps) auto
      next
        case True
        then obtain o' c2 where n: "cc_next c1 = Inr (o', c2)" "f memory q c2 t1 (acc @ [o']) = Some z"
          using step eq z m by (auto split: sum.splits)
        from IH[OF n(2)] m'(2) z obtain s' where "cc_all memory p c2 s1 (acc @ [o']) = Some (Inr os, s')" "R s' (snd z)"
          unfolding Q_def by blast
        then show ?thesis using m'(1) n(1) True by (subst cc_all.simps) auto
      qed
    qed
  qed
  then show ?thesis using assms(2) by (simp add: Q_def)
qed

lemma client_query_sim:
  assumes "client_query uninit memory q ns qu n1 n2 fs opts bs t = Some (Inr (Some c), t')" "R s t"
  shows "\<exists>s'. client_query uninit memory p ns qu n1 n2 fs opts bs s = Some (Inr (Some c), s') \<and> R s' t'"
proof -
  let ?c = "DBClientCursor_new uninit ns qu n1 n2 fs opts bs"
  obtain m where m: "port_call q (assembleInit memory ?c) t = Some (Inr (Some m), t')" "m \<noteq> None"
    "dataReceived m ?c = Some (Inr c)"
    using assms(1)
    by (auto simp: client_query_def cursor_init_def run_then_Inr_iff split: option.splits sum.splits prod.splits if_splits)
  from port_call_sim[OF assms(2) m(1) request_measured(2)] obtain s' where
    "port_call p (assembleInit memory ?c) s = Some (Inr (Some m), s')" "R s' t'" by blast
  then show ?thesis using m(2,3) by (simp add: client_query_def cursor_init_def)
qed

end

text \<open>The answers to the messages from the n-th on.\<close>

fun answering :: "32 word \<Rightarrow> MsgData list \<Rightarrow> bool" where
  "answering n [] \<longleftrightarrow> True"
| "answering n (m # ms) \<longleftrightarrow> md_whole m \<and> md_responseTo m = uint n \<and> answering (n + 1) ms"

text \<open>A connection on which these answers, and nothing else, are going to arrive.\<close>

definition answers_ahead :: "DBClientConnection \<Rightarrow> MsgData list \<Rightarrow> bool" where
  "answers_ahead D ms \<longleftrightarrow> \<not> dc_failed D \<and>
     (case dc_p D of
        None \<Rightarrow> False
      | Some P \<Rightarrow> willing (mp_sock P) \<and> length (piggy_buf P) \<le> PiggyBackData_size \<and>
          ahead (mp_sock P) (concat (map message_bytes ms)) \<and> answering (NextMsgId P) ms)"

lemma port_call_answered:
  assumes "measured d" "willing (mp_sock P)" "length (piggy_buf P) \<le> PiggyBackData_size"
    "ahead (mp_sock P) (message_bytes m @ w)" "md_whole m" "md_responseTo m = uint (NextMsgId P)"
  shows "\<exists>P'. port_call_of (Some d) None P = Some (Inr (True, Some m), P') \<and> willing (mp_sock P') \<and>
    ahead (mp_sock P') w \<and> piggy_buf P' = [] \<and> NextMsgId P' = NextMsgId P + 1"
proof -
  let ?n = "NextMsgId P" and ?d = "number_message (NextMsgId P) (- 1) d"
  have "piggy_ok ?n () P" using assms(3) by (simp add: piggy_ok_def)
  note h = port_say_hands[OF assms(1) this, of "- 1"]
  then obtain a P1 where s: "port_say (Some d) (- 1) P = Some (Inr a, P1)" "willing (mp_sock P1)"
    "same_but_sent (mp_sock P) (mp_sock P1)"
    using assms(2) unfolding hands_def by blast
  then have e: "emptied (?n + 1) a P1" "a = ?d" using h unfolding hands_def by fastforce+
  have "ahead (mp_sock P1) (message_bytes m @ w)" using assms(4) s(3) by (simp add: ahead_def same_but_sent_def)
  from recv_body_whole[OF assms(5) this] obtain sk where r:
    "recv_body None P1 = Some (Inr (True, Some m), P1\<lparr>mp_sock := sk\<rparr>)" "ahead sk w" "same_but_received (mp_sock P1) sk" by blast
  have "md_responseTo m = md_id ?d" using assms(6) by (simp add: number_message_def)
  then have "port_call_of (Some d) None P = Some (Inr (True, Some m), P1\<lparr>mp_sock := sk\<rparr>)"
    using s(1) r(1) e(2) by (simp add: port_call_of_def recv_answer_def port_recv_def header_def)
  moreover have "willing sk" using s(2) r(3) by (simp add: willing_def same_but_received_def)
  ultimately show ?thesis using r(2) e(1)
    by (intro exI[of _ "P1\<lparr>mp_sock := sk\<rparr>"]) (simp add: emptied_def piggy_buf_def)
qed

lemma conn_port_answered:
  assumes "answers_ahead D (m # ms)" "measured d"
  shows "\<exists>D'. conn_port d D = Some (Inr (Some (Some m)), D') \<and> answers_ahead D' ms"
proof -
  obtain P where P: "dc_p D = Some P" "\<not> dc_failed D" "willing (mp_sock P)" "length (piggy_buf P) \<le> PiggyBackData_size"
    "ahead (mp_sock P) (message_bytes m @ concat (map message_bytes ms))" "md_whole m"
    "md_responseTo m = uint (NextMsgId P)" "answering (NextMsgId P + 1) ms"
    using assms(1) by (auto simp: answers_ahead_def split: option.splits)
  from port_call_answered[OF assms(2) P(3-7)] obtain P' where c:
    "port_call_of (Some d) None P = Some (Inr (True, Some m), P')" "willing (mp_sock P')"
    "ahead (mp_sock P') (concat (map message_bytes ms))" "piggy_buf P' = []" "NextMsgId P' = NextMsgId P + 1" by blast
  have "conn_port d D = Some (Inr (Some (Some m)), D\<lparr>dc_p := Some P'\<rparr>)"
    using P(1,2) c(1) by (simp add: conn_port_def conn_call_def checkConnection_def on_port_def mark_failed_def)
  then show ?thesis using P(2,8) c by (intro exI[of _ "D\<lparr>dc_p := Some P'\<rparr>"]) (simp add: answers_ahead_def)
qed

interpretation wire: port_simulation answers_ahead conn_port in_order
  by unfold_locales (auto simp: in_order_def dest: conn_port_answered split: list.splits)

text \<open>C19.
  A query works over a real connection: when the system takes some of what it is given, and the bytes that
  arrive, cut into segments anyhow, are the replies to the messages the connection sends, batch by batch, the query
  gives a cursor, and the loop over it sees the documents of the batches, each once and in their
  order, ends, and leaves the connection good.
\<close>

theorem query_over_connection:
  assumes "NUL \<notin> set ns" "length ns + length q + 17 \<le> BufferMaxSize" "whole_obj q"
    "\<forall>b \<in> set (ds # later). batch_ok b" "n \<noteq> 0" "- (2 ^ 63) \<le> n" "n < 2 ^ 63" "replies_of n (ds # later) ms"
    "answers_ahead D ms"
  shows "\<exists>c D1 D2. conn_query uninit memory ns q 0 0 None 0 0 D = Some (Inr (Some c), D1) \<and>
    cc_all memory conn_port c D1 [] =
      Some (Inr (map doc_bytes (cursor_docs \<lparr>batch_left = ds, batches_later = later\<rparr>)), D2) \<and> \<not> isFailed D2"
proof -
  obtain c ms1 where c: "client_query uninit memory in_order ns q 0 0 None 0 0 ms = Some (Inr (Some c), ms1)"
    "cursor_rel n \<lparr>batch_left = ds, batches_later = later\<rparr> (c, ms1)"
    using client_query_rel[OF assms(1-4,6-8)] by blast
  obtain ms2 where l: "cc_all memory in_order c ms1 [] =
      Some (Inr ([] @ map doc_bytes (cursor_docs \<lparr>batch_left = ds, batches_later = later\<rparr>)), ms2)"
    using cc_all_rel[OF c(2) assms(5-7)] by blast
  obtain D1 where D1: "client_query uninit memory conn_port ns q 0 0 None 0 0 D = Some (Inr (Some c), D1)" "answers_ahead D1 ms1"
    using wire.client_query_sim[OF c(1) assms(9)] by blast
  obtain D2 where D2: "cc_all memory conn_port c D1 [] =
      Some (Inr ([] @ map doc_bytes (cursor_docs \<lparr>batch_left = ds, batches_later = later\<rparr>)), D2)" "answers_ahead D2 ms2"
    using wire.cc_all_sim[OF l D1(2)] by blast
  have "\<not> dc_failed D" using assms(9) by (simp add: answers_ahead_def)
  then have "conn_query uninit memory ns q 0 0 None 0 0 D = Some (Inr (Some c), D1)"
    using D1(1) by (simp add: conn_query_def checkConnection_def)
  moreover have "\<not> isFailed D2" using D2(2) by (simp add: answers_ahead_def isFailed_def)
  ultimately show ?thesis using D2(1) by auto
qed

text \<open>Two batches, whose bytes arrive in two segments cut at any place.\<close>

definition demo_answer :: "int \<Rightarrow> int \<Rightarrow> bson_obj list \<Rightarrow> MsgData" where
  "demo_answer k n ds = \<lparr>md_len = int (length (reply_data n ds)) + 16, md_id = 77, md_responseTo = k, md_operation = 1,
     md_flags = 0, md_version = 0, md_data = reply_data n ds\<rparr>"

definition demo_answers :: "MsgData list" where
  "demo_answers = [demo_answer 0 7 [[(''id'', BInt 1)]], demo_answer 1 0 [[(''id'', BInt 2)]]]"

definition demo_server :: "nat \<Rightarrow> DBClientConnection" where
  "demo_server k =
     (let w = concat (map message_bytes demo_answers)
      in demo_connection\<lparr>dc_p := Some ((MessagingPort_new False 0)\<lparr>mp_sock :=
           (Socket_new False)\<lparr>sk_open := True, sk_takes := (\<lambda>_ _. Sent 1), sk_arrivals := [Arrived (take k w), Arrived (drop k w)]\<rparr>\<rparr>)\<rparr>)"

lemma query_over_connection_witness:
  "\<exists>c D1 D2. conn_query 0 (demo_answer 0 0 []) ''Sung.npc'' (doc_bytes [(''id'', BInt 1)]) 0 0 None 0 0 (demo_server 50) =
      Some (Inr (Some c), D1) \<and>
    cc_all (demo_answer 0 0 []) conn_port c D1 [] =
      Some (Inr [doc_bytes [(''id'', BInt 1)], doc_bytes [(''id'', BInt 2)]], D2) \<and> \<not> isFailed D2"
proof -
  have fits: "doc_fits [(''id'', BInt n)]" "length (doc_bytes [(''id'', BInt n)]) \<le> 100" if "n \<in> {1, 2}" for n
    using that by (auto simp: doc_fits_def doc_bytes_def raw_bytes_def raw_of_def NUL_def INT_MIN32_def)
  have ok: "batch_ok [[(''id'', BInt 1)]]" "batch_ok [[(''id'', BInt 2)]]" using fits[of 1] fits[of 2] by (simp_all add: batch_ok_def)
  have q: "whole_obj (doc_bytes [(''id'', BInt 1)])" by (rule batch_ok_doc[OF ok(1)]) simp
  have w: "md_whole m" if "m \<in> set demo_answers" for m
    using that fits(2)[of 1] fits(2)[of 2]
    by (auto simp: demo_answers_def demo_answer_def md_whole_def reply_data_def)
  let ?w = "concat (map message_bytes demo_answers)"
  have "length ?w > 50" by (simp add: demo_answers_def demo_answer_def reply_data_def)
  then have "ahead ((Socket_new False)\<lparr>sk_open := True, sk_takes := (\<lambda>_ _. Sent 1),
      sk_arrivals := [Arrived (take 50 ?w), Arrived (drop 50 ?w)]\<rparr>) ?w"
    unfolding ahead_def by (cases ?w) auto
  then have a: "answers_ahead (demo_server 50) demo_answers"
    using w unfolding answers_ahead_def demo_server_def Let_def
    by (simp add: demo_connection_def DBClientConnection_new_def MessagingPort_new_def willing_def piggy_buf_def
      demo_answers_def) (simp add: demo_answer_def)
  have r: "replies_of 7 [[[(''id'', BInt 1)]], [[(''id'', BInt 2)]]] demo_answers"
    by (simp add: demo_answers_def reply_of_def demo_answer_def)
  from query_over_connection[OF _ _ q _ _ _ _ r a, of "''Sung.npc''" 0 "demo_answer 0 0 []"] ok fits(2)[of 1]
  show ?thesis by (auto simp: NUL_def BufferMaxSize_def cursor_docs_def)
qed

section \<open>The text of a host and its port\<close>

lemma last_colon:
  assumes "c \<notin> set t"
  shows "after_last c (h @ c # t) = t" "before_last c (h @ c # t) = h"
proof -
  have r: "rev (h @ c # t) = rev t @ c # rev h" by simp
  have "takeWhile (\<lambda>x. x \<noteq> c) (rev t @ c # rev h) = rev t" "dropWhile (\<lambda>x. x \<noteq> c) (rev t @ c # rev h) = c # rev h"
    using assms by (auto simp: takeWhile_append dropWhile_append)
  then show "after_last c (h @ c # t) = t" "before_last c (h @ c # t) = h"
    unfolding after_last_def before_last_def r by simp_all
qed

lemma show_nat_clean: "set (show_nat n) \<inter> {CHR '':'', NUL} = {}"
  using show_nat_digits[of n] by (auto simp: is_digit_def NUL_def)

text \<open>A host and port survive being written and read, with the default port written out: for a host
  with at least one character and no NUL, colons of an address included, and a port above 0 or none, the text
  reads back as the same host and port.
\<close>

theorem HostAndPort_round_trip:
  assumes "hp_host h \<noteq> []" "NUL \<notin> set (hp_host h)" "hp_port h \<noteq> 0" "hp_port h \<le> INT_MAX"
  shows "\<exists>r. HostAndPort_init (HostAndPort_str True h) = Inr r \<and> HostAndPort_eq r h \<and> hasPort r"
proof -
  have p: "0 < port_of h" "port_of h \<le> INT_MAX"
    using assms(3,4) by (auto simp: port_of_def hasPort_def DefaultDBPort_def INT_MAX_def)
  let ?t = "show_nat (nat (port_of h))"
  have s: "HostAndPort_str True h = hp_host h @ CHR '':'' # ?t" using p(1) by (simp add: HostAndPort_str_def show_int_def)
  have "NUL \<notin> set (HostAndPort_str True h)" using assms(2) show_nat_clean s by (auto simp: NUL_def)
  then have c: "c_str (HostAndPort_str True h) = hp_host h @ CHR '':'' # ?t" using s by simp
  have "read_int INT_MIN INT_MAX ?t = Some (port_of h, [])"
    using read_show_int[of INT_MIN "port_of h" INT_MAX "[]"] p by (simp add: show_int_def INT_MIN_def)
  then have "atoi ?t = Inr (port_of h)" by (simp add: atoi_def)
  moreover have "CHR '':'' \<notin> set ?t" using show_nat_clean by blast
  ultimately have "HostAndPort_init (HostAndPort_str True h) = Inr \<lparr>hp_host = hp_host h, hp_port = port_of h\<rparr>"
    using p(1) last_colon[of "CHR '':''" ?t "hp_host h"] by (simp add: HostAndPort_init_def c Let_def)
  then show ?thesis using p(1) by (simp add: HostAndPort_eq_def port_of_def hasPort_def)
qed

lemma HostAndPort_round_trip_witness:
  "HostAndPort_init (HostAndPort_str True \<lparr>hp_host = ''::1'', hp_port = - 1\<rparr>) = Inr \<lparr>hp_host = ''::1'', hp_port = 27017\<rparr>"
proof -
  have "\<exists>r. HostAndPort_init (HostAndPort_str True \<lparr>hp_host = ''::1'', hp_port = - 1\<rparr>) = Inr r \<and>
      HostAndPort_eq r \<lparr>hp_host = ''::1'', hp_port = - 1\<rparr> \<and> hasPort r"
    by (rule HostAndPort_round_trip) (simp_all add: NUL_def INT_MAX_def)
  then obtain r :: HostAndPort where r: "HostAndPort_init (HostAndPort_str True \<lparr>hp_host = ''::1'', hp_port = - 1\<rparr>) = Inr r"
    "hp_host r = ''::1''" "hp_port r = 27017"
    by (auto simp: HostAndPort_eq_def port_of_def hasPort_def DefaultDBPort_def split: if_splits)
  have "r = \<lparr>hp_host = ''::1'', hp_port = 27017\<rparr>" using r(2,3) by (cases r) simp
  then show ?thesis using r(1) by simp
qed

end
