(* ===== verification/MongoValid.thy ===== *)
theory MongoValid
imports MongoFields
begin

text \<open>
  The check of the driver that bytes are a document (\<open>BSONObj::valid\<close> of \<open>db/jsobj.cpp\<close>, with
  \<open>validate\<close> and \<open>size\<close> of \<open>bson/bson-inl.h\<close>), a type system for the bytes of documents, and that what is
  typed is accepted.
\<close>

section \<open>Elements within a length\<close>

text \<open>A NUL among the next \<open>n\<close> bytes, or -1.\<close>

primrec strnlen_loop :: "nat \<Rightarrow> int \<Rightarrow> pointer_in \<Rightarrow> int res" where
  "strnlen_loop 0 i s = Inr (- 1)"
| "strnlen_loop (Suc k) i s =
     run_then (read_at (plus_ptr s i) 1) (\<lambda>c. if c = [NUL] then Inr i else strnlen_loop k (i + 1) s)"

definition strnlen :: "pointer_in \<Rightarrow> int \<Rightarrow> int res" where
  "strnlen s n = strnlen_loop (nat n) 0 s"

text \<open>The constructor with a length; without one it is -1.\<close>

definition BSONElement_in :: "BSONElement \<Rightarrow> int \<Rightarrow> unit res" where
  "BSONElement_in e maxLen =
     run_then (el_type e) (\<lambda>t.
       if t = EOO \<or> maxLen = - 1 then Inr ()
       else run_then (strnlen (plus_ptr e 1) (maxLen - 1)) (\<lambda>n. if n = - 1 then Inl (Throw ''10333'') else Inr ()))"

text \<open>
  A regular expression counts what \<open>strnlen\<close> says: without an end its length is -1, as a \<open>size_t\<close>, and the sums
  are the unsigned ones.
\<close>

definition regex_size_in_place :: "int \<Rightarrow> int \<Rightarrow> BSONElement \<Rightarrow> int res" where
  "regex_size_in_place maxLen remain e =
     run_then (el_value e) (\<lambda>p.
     run_then (if maxLen = - 1 then run_then (strlen_at p) (\<lambda>n. Inr (int n)) else strnlen p remain) (\<lambda>len1.
     run_then (if maxLen = - 1 then run_then (strlen_at (plus_ptr p (len1 + 1))) (\<lambda>n. Inr (int n))
               else let x = remain - len1 - 1
                    in if \<not> (0 \<le> x \<and> x \<le> 0x7fffffff) then Inl (Throw ''assertion'')
                       else strnlen (plus_ptr p (len1 + 1)) x) (\<lambda>len2.
       int_sum (len1 + 1 + len2 + 1))))"

definition enough :: "string \<Rightarrow> int \<Rightarrow> int \<Rightarrow> int res \<Rightarrow> int res" where
  "enough code maxLen remain x = (if maxLen = - 1 \<or> 3 < remain then x else Inl (Throw code))"

definition value_size_in :: "int \<Rightarrow> BSONType \<Rightarrow> BSONElement \<Rightarrow> int res" where
  "value_size_in maxLen t e =
     run_then (fieldNameSize e) (\<lambda>n. let remain = maxLen - n - 1 in
       case t of
         EOO \<Rightarrow> Inr 0 | UndefinedType \<Rightarrow> Inr 0 | jstNULL \<Rightarrow> Inr 0 | MaxKey \<Rightarrow> Inr 0 | MinKey \<Rightarrow> Inr 0
       | BoolType \<Rightarrow> Inr 1
       | NumberInt \<Rightarrow> Inr 4
       | Timestamp \<Rightarrow> Inr 8 | DateType \<Rightarrow> Inr 8 | NumberDouble \<Rightarrow> Inr 8 | NumberLong \<Rightarrow> Inr 8
       | jstOID \<Rightarrow> Inr 12
       | Symbol \<Rightarrow> enough ''10313'' maxLen remain (run_then (valuestrsize e) (\<lambda>n. int_sum (n + 4)))
       | Code \<Rightarrow> enough ''10313'' maxLen remain (run_then (valuestrsize e) (\<lambda>n. int_sum (n + 4)))
       | StringType \<Rightarrow> enough ''10313'' maxLen remain (run_then (valuestrsize e) (\<lambda>n. int_sum (n + 4)))
       | CodeWScope \<Rightarrow> enough ''10314'' maxLen remain (el_objsize e)
       | DBRef \<Rightarrow> enough ''10315'' maxLen remain (run_then (valuestrsize e) (\<lambda>n. int_sum (n + 4 + 12)))
       | ObjectType \<Rightarrow> enough ''10316'' maxLen remain (el_objsize e)
       | ArrayType \<Rightarrow> enough ''10316'' maxLen remain (el_objsize e)
       | BinData \<Rightarrow> enough ''10317'' maxLen remain (run_then (valuestrsize e) (\<lambda>n. int_sum (n + 4 + 1)))
       | RegEx \<Rightarrow> regex_size_in_place maxLen remain e
       | BadType n \<Rightarrow> Inl (Throw ''13655''))"

definition el_size_in :: "int \<Rightarrow> BSONElement \<Rightarrow> int res" where
  "el_size_in maxLen e = run_then (el_type e) (\<lambda>t.
     if t = EOO then Inr 1
     else run_then (value_size_in maxLen t e) (\<lambda>x. run_then (fieldNameSize e) (\<lambda>n. int_sum (x + n + 1))))"

definition it_next_in :: "bool \<Rightarrow> string \<Rightarrow> BSONObjIterator \<Rightarrow> (BSONElement \<times> BSONObjIterator) res" where
  "it_next_in checkEnd mem i =
     (if it_pos i \<le> it_theend i then
        let e = (mem, it_pos i); maxLen = (if checkEnd then it_theend i + 1 - it_pos i else - 1)
        in run_then (BSONElement_in e maxLen) (\<lambda>_.
           run_then (el_size_in maxLen e) (\<lambda>n. Inr (e, i\<lparr>it_pos := it_pos i + n\<rparr>)))
      else Inl (Throw ''assertion''))"

section \<open>Validation\<close>

definition BSONObjMaxInternalSize :: int where
  "BSONObjMaxInternalSize = 16 * 1024 * 1024 + 16 * 1024"

definition validate_string :: "BSONElement \<Rightarrow> unit res" where
  "validate_string e =
     run_then (valuestrsize e) (\<lambda>n.
     let x = n mod 2 ^ 32; lenOk = (0 < x \<and> x < BSONObjMaxInternalSize)
     in if \<not> lenOk then Inl (Throw ''10321'')
        else run_then (valuestr e) (\<lambda>s. run_then (read_at (plus_ptr s (x - 1)) 1) (\<lambda>c.
          if c = [NUL] then Inr () else run_then (strnlen s x) (\<lambda>_. Inl (Throw ''10321'')))))"

definition massert :: "string \<Rightarrow> bool \<Rightarrow> unit res" where
  "massert code b = (if b then Inr () else Inl (Throw code))"

definition validate_CodeWScope :: "BSONElement \<Rightarrow> unit res" where
  "validate_CodeWScope e =
     run_then (el_value e) (\<lambda>v.
     run_then (int_at v 4) (\<lambda>totalSize.
     run_then (massert ''10322'' (8 \<le> totalSize)) (\<lambda>_.
     run_then (int_at (plus_ptr v 4) 4) (\<lambda>strSizeWNull.
     run_then (int_sum (strSizeWNull + 4 + 4)) (\<lambda>n.
     run_then (massert ''10323'' (n \<le> totalSize)) (\<lambda>_.
     run_then (if 0 < strSizeWNull then
                 run_then (strnlen (plus_ptr v 8) strSizeWNull) (\<lambda>l. massert ''10324'' (strSizeWNull - 1 = l))
               else Inl (Throw ''10324'')) (\<lambda>_.
     run_then (int_sum (strSizeWNull + 4 + 4 + 4)) (\<lambda>n.
     run_then (massert ''10325'' (n \<le> totalSize)) (\<lambda>_.
     run_then (int_at (plus_ptr v (4 + 4 + strSizeWNull)) 4) (\<lambda>objSize.
     run_then (int_sum (4 + 4 + strSizeWNull + objSize)) (\<lambda>n.
       massert ''10326'' (totalSize = n))))))))))))"

definition validate :: "BSONElement \<Rightarrow> unit res" where
  "validate e =
     run_then (el_type e) (\<lambda>t.
       if t \<in> {DBRef, Code, Symbol, StringType} then validate_string e
       else if t = CodeWScope then validate_CodeWScope e
       else Inr ())"

text \<open>The iterator over the object at a pointer, if there is one: its size is looked at, not its place.\<close>

definition iterator_at :: "pointer_in \<Rightarrow> BSONObjIterator res" where
  "iterator_at p =
     run_then (int_at p 4) (\<lambda>n.
       if 0 < n \<and> n \<le> BSONObjMaxInternalSize then Inr \<lparr>it_pos = snd p + 4, it_theend = snd p + n - 1\<rparr>
       else Inl (Throw ''10334''))"

definition embeddedObject :: "BSONElement \<Rightarrow> BSONObjIterator res" where
  "embeddedObject e =
     run_then (el_type e) (\<lambda>t. if isABSONObj t then run_then (el_value e) iterator_at else Inl (Throw ''assertion''))"

definition codeWScopeObject :: "BSONElement \<Rightarrow> BSONObjIterator res" where
  "codeWScopeObject e =
     run_then (el_type e) (\<lambda>t.
       if t = CodeWScope
       then run_then (el_value e) (\<lambda>v. run_then (int_at (plus_ptr v 4) 4) (\<lambda>n. iterator_at (plus_ptr v (4 + 4 + n))))
       else Inl (Throw ''assertion''))"

text \<open>What a round of the loop comes to: an end, the next round, or an object to be checked first.\<close>

datatype valid_round = ValidEnds bool | ValidGoes BSONObjIterator | ValidIn BSONObjIterator BSONObjIterator

definition valid_step :: "string \<Rightarrow> BSONObjIterator \<Rightarrow> valid_round res" where
  "valid_step mem i =
     run_then (it_next_in True mem i) (\<lambda>(e, i).
     run_then (validate e) (\<lambda>_.
     run_then (el_type e) (\<lambda>t.
       if t = EOO then Inr (ValidEnds (\<not> it_moreWithEOO i))
       else if isABSONObj t then run_then (embeddedObject e) (\<lambda>j. Inr (ValidIn j i))
       else if t = CodeWScope then run_then (codeWScopeObject e) (\<lambda>j. Inr (ValidIn j i))
       else Inr (ValidGoes i))))"

definition valid_caught :: "fault \<Rightarrow> bool res" where
  "valid_caught f = (case f of Throw _ \<Rightarrow> Inr False | _ \<Rightarrow> Inl f)"

partial_function (option) valid_loop :: "string \<Rightarrow> BSONObjIterator \<Rightarrow> bool res option" where
  "valid_loop mem i =
     (if \<not> it_moreWithEOO i then Some (Inr False)
      else case valid_step mem i of
             Inl f \<Rightarrow> Some (valid_caught f)
           | Inr r \<Rightarrow>
               (case r of
                  ValidEnds b \<Rightarrow> Some (Inr b)
                | ValidGoes i' \<Rightarrow> valid_loop mem i'
                | ValidIn j i' \<Rightarrow>
                    Option.bind (valid_loop mem j) (\<lambda>x.
                      case x of
                        Inl f \<Rightarrow> Some (Inl f)
                      | Inr b \<Rightarrow> if \<not> b then Some (Inr False) else valid_loop mem i')))"

definition valid :: "BSONObj \<Rightarrow> bool res option" where
  "valid b =
     (case BSONObjIterator_new b of
        Inl f \<Rightarrow> Some (valid_caught f)
      | Inr i \<Rightarrow> valid_loop b i)"

section \<open>Sizes of well-sized elements\<close>

lemma strnlen_app:
  assumes "snd p = int (length pre)" "fst p = pre @ s @ NUL # post" "NUL \<notin> set s" "int (length s) < n"
  shows "strnlen p n = Inr (int (length s))"
proof -
  have "strnlen_loop k (int j) p = Inr (int (length s))" if "j \<le> length s" "length s < j + k" for k j
    using that
  proof (induction k arbitrary: j)
    case (Suc k)
    have r: "read_at (plus_ptr p (int j)) 1 = Inr (take 1 (drop j (s @ NUL # post)))"
    proof -
      have "fst (plus_ptr p (int j)) = (pre @ take j s) @ drop j (s @ NUL # post)"
        "snd (plus_ptr p (int j)) = int (length (pre @ take j s))"
        using assms(1,2) Suc.prems by (simp_all add: plus_ptr_def)
      from read_at_app[OF this(2,1), of 1] show ?thesis using Suc.prems by simp
    qed
    show ?case
    proof (cases "j = length s")
      case True
      then show ?thesis using r by simp
    next
      case False
      then have "j < length s" using Suc.prems by simp
      then have "take 1 (drop j (s @ NUL # post)) = [s ! j]" by (simp add: take_Suc_conv_app_nth[of 0, simplified] hd_drop_conv_nth take_Suc hd_append)
      moreover have "s ! j \<noteq> NUL" using assms(3) \<open>j < length s\<close> nth_mem by metis
      moreover have "strnlen_loop k (int j + 1) p = Inr (int (length s))"
        using Suc.IH[of "Suc j"] Suc.prems \<open>j < length s\<close> by (simp add: add.commute)
      ultimately show ?thesis using r by simp
    qed
  qed simp
  from this[of 0 "nat n"] assms(4) show ?thesis by (simp add: strnlen_def)
qed

lemma BSONElement_in_at:
  assumes "at_raw e r" "raw_ok r" "int (length (raw_bytes r)) \<le> n"
  shows "BSONElement_in e n = Inr ()"
proof -
  obtain t f v where r: "r = (t, f, v)" by (cases r)
  obtain pre post where e: "fst e = pre @ raw_bytes r @ post" "snd e = int (length pre)"
    using assms(1) by (auto simp: at_raw_def)
  have "NUL \<notin> set f" "int (length f) < n - 1" using assms(2,3) by (simp_all add: r raw_ok_def raw_bytes_def)
  moreover have "snd (plus_ptr e 1) = int (length (pre @ le_int 1 (bson_type_value t)))"
    "fst (plus_ptr e 1) = (pre @ le_int 1 (bson_type_value t)) @ f @ NUL # v @ post"
    by (simp_all add: plus_ptr_def e r raw_bytes_def)
  ultimately have "strnlen (plus_ptr e 1) (n - 1) = Inr (int (length f))" by (intro strnlen_app)
  then show ?thesis using el_header(1)[OF assms(1,2)[unfolded r]] by (simp add: BSONElement_in_def)
qed

lemma regex_size_in:
  assumes "at_raw e (t, f, v)" "raw_ok (t, f, v)" "v = p @ NUL # q @ [NUL]" "NUL \<notin> set p" "NUL \<notin> set q"
    "int (length v) \<le> remain" "remain < 2 ^ 31" "n \<noteq> - 1"
  shows "regex_size_in_place n remain e = Inr (int (length v))"
proof -
  obtain pre post where v: "el_value e = Inr (pre @ v @ post, int (length pre))"
    using el_header(4)[OF assms(1,2)] by blast
  have "strnlen (pre @ v @ post, int (length pre)) remain = Inr (int (length p))"
    using assms(4,6) by (intro strnlen_app[where pre = pre and post = "q @ NUL # post"]) (simp_all add: assms(3))
  moreover have "strnlen (plus_ptr (pre @ v @ post, int (length pre)) (int (length p) + 1)) (remain - int (length p) - 1) =
      Inr (int (length q))"
    using assms(5,6) by (intro strnlen_app[where pre = "pre @ p @ [NUL]" and post = post])
      (simp_all add: assms(3) plus_ptr_def)
  moreover have "int (length p) + 1 + int (length q) + 1 = int (length v)" by (simp add: assms(3))
  moreover have "0 \<le> remain - int (length p) - 1 \<and> remain - int (length p) - 1 \<le> 0x7fffffff"
    using assms(3,6,7) by simp
  moreover have "length v < 2 ^ 31" using assms(2) by (simp add: raw_ok_def raw_bytes_def)
  ultimately show ?thesis using assms(8) by (simp add: regex_size_in_place_def v Let_def del: of_nat_add)
qed

lemma el_size_in_at:
  assumes "at_raw e r" "raw_ok r" "int (length (raw_bytes r)) \<le> n" "n < 2 ^ 31"
  shows "el_size_in n e = Inr (int (length (raw_bytes r)))"
proof -
  obtain t f v where r: "r = (t, f, v)" by (cases r)
  note h = el_header(1,3)[OF assms(1,2)[unfolded r]] and vs = value_size_at[OF assms(1,2)[unfolded r]]
  note len = value_int(1)[OF assms(1,2)[unfolded r]]
  have ok: "well_sized t v" and m: "length (raw_bytes r) < 2 ^ 31" using assms(2) by (simp_all add: r raw_ok_def)
  have t: "t \<noteq> EOO" using bson_type_value_range[OF ok] by simp
  have n: "int (length v) \<le> n - (int (length f) + 1) - 1" "n \<noteq> - 1" using assms(3) by (simp_all add: r raw_bytes_def)
  have "value_size_in n t e = Inr (int (length v))"
  proof (cases "t = RegEx")
    case True
    then obtain p q where "v = p @ NUL # q @ [NUL]" "NUL \<notin> set p" "NUL \<notin> set q" using ok by (auto simp: well_sized_def)
    from regex_size_in[OF assms(1,2)[unfolded r] this n(1) _ n(2)] show ?thesis
      using True assms(4) h by (simp add: value_size_in_def Let_def)
  next
    case False
    have "4 \<le> length v \<Longrightarrow> 3 < n - (int (length f) + 1) - 1" using n by linarith
    then have "value_size_in n t e = value_size t e"
      using ok False h t
      by (cases t) (simp_all add: value_size_in_def value_size_def well_sized_def counted_def enough_def)
    then show ?thesis using vs by simp
  qed
  moreover have "int (length v) + (int (length f) + 1) + 1 = int (length (raw_bytes r))" by (simp add: r raw_bytes_def)
  ultimately show ?thesis using h t m by (simp add: el_size_in_def del: of_nat_add of_nat_Suc)
qed

lemma it_next_in_at:
  assumes "at_raw (mem, it_pos i) r" "raw_ok r" "it_pos i + int (length (raw_bytes r)) \<le> it_theend i"
    "it_theend i + 1 - it_pos i < 2 ^ 31"
  shows "it_next_in True mem i = Inr ((mem, it_pos i), i\<lparr>it_pos := it_pos i + int (length (raw_bytes r))\<rparr>)"
  using BSONElement_in_at[OF assms(1,2), of "it_theend i + 1 - it_pos i"] el_size_in_at[OF assms(1,2) _ assms(4)] assms(3)
  by (simp add: it_next_in_def)

section \<open>Types\<close>

text \<open>
  The values of a type, the objects inside them included. A string ends with a NUL behind the number
  of its bytes, and an object is no longer than the driver takes.
\<close>

inductive typed_value :: "BSONType \<Rightarrow> string \<Rightarrow> bool" where
  typed_plain: "t \<in> {UndefinedType, jstNULL, MaxKey, MinKey, BoolType, NumberInt, Timestamp, DateType, NumberDouble,
      NumberLong, jstOID, RegEx, BinData} \<Longrightarrow> well_sized t v \<Longrightarrow> typed_value t v"
| typed_string: "t \<in> {StringType, Code, Symbol} \<Longrightarrow> int (length s) + 1 < BSONObjMaxInternalSize \<Longrightarrow>
    typed_value t (le_int 4 (int (length s) + 1) @ s @ [NUL])"
| typed_DBRef: "int (length s) + 1 < BSONObjMaxInternalSize \<Longrightarrow> length oid = 12 \<Longrightarrow>
    typed_value DBRef (le_int 4 (int (length s) + 1) @ s @ [NUL] @ oid)"
| typed_object: "t \<in> {ObjectType, ArrayType} \<Longrightarrow> \<forall>(u, f, v) \<in> set rs. NUL \<notin> set f \<and> typed_value u v \<Longrightarrow>
    int (length (obj_bytes rs)) \<le> BSONObjMaxInternalSize \<Longrightarrow> typed_value t (obj_bytes rs)"
| typed_scope: "NUL \<notin> set s \<Longrightarrow> \<forall>(u, f, v) \<in> set rs. NUL \<notin> set f \<and> typed_value u v \<Longrightarrow>
    int (length (obj_bytes rs)) \<le> BSONObjMaxInternalSize \<Longrightarrow>
    int (length s) + int (length (obj_bytes rs)) + 9 < 2 ^ 31 \<Longrightarrow>
    typed_value CodeWScope (le_int 4 (int (length s) + int (length (obj_bytes rs)) + 9) @ le_int 4 (int (length s) + 1) @
      s @ [NUL] @ obj_bytes rs)"

definition typed_fields :: "raw list \<Rightarrow> bool" where
  "typed_fields rs \<longleftrightarrow> (\<forall>(t, f, v) \<in> set rs. NUL \<notin> set f \<and> typed_value t v)"

lemma small_internal: "n \<le> BSONObjMaxInternalSize \<Longrightarrow> n < 2 ^ 31"
  by (simp add: BSONObjMaxInternalSize_def)

lemma take_obj_bytes: "take 4 (obj_bytes rs) = le_int 4 (int (length (obj_bytes rs)))"
  by (simp add: obj_bytes_def Let_def algebra_simps)

lemma typed_well_sized: "typed_value t v \<Longrightarrow> well_sized t v"
proof (induction rule: typed_value.induct)
  case (typed_string t s)
  then show ?case by (auto simp: well_sized_def counted_def int_le_le_int BSONObjMaxInternalSize_def)
next
  case (typed_DBRef s oid)
  then show ?case by (auto simp: well_sized_def counted_def int_le_le_int BSONObjMaxInternalSize_def)
next
  case (typed_object t rs)
  then have t: "t \<in> {ObjectType, ArrayType}" and "int (length (obj_bytes rs)) < 2 ^ 31" using small_internal by blast+
  then have "int_le (take 4 (obj_bytes rs)) = int (length (obj_bytes rs))"
    unfolding take_obj_bytes by (intro int_le_le_int) auto
  then show ?case using t by (auto simp: well_sized_def counted_def)
next
  case (typed_scope s rs)
  then show ?case by (auto simp: well_sized_def counted_def int_le_le_int)
qed auto

lemma typed_raw_ok:
  "typed_value t v \<Longrightarrow> NUL \<notin> set f \<Longrightarrow> length (raw_bytes (t, f, v)) < 2 ^ 31 \<Longrightarrow> raw_ok (t, f, v)"
  by (simp add: raw_ok_def typed_well_sized)

section \<open>What is typed is valid\<close>

text \<open>The readings in a value at its place.\<close>

lemma el_value_at:
  assumes "at_raw e (t, f, v)" "raw_ok (t, f, v)"
  obtains pre post where "el_value e = Inr (pre @ v @ post, int (length pre))" "fst e = pre @ v @ post"
proof -
  obtain pre post where p: "el_value e = Inr (pre @ v @ post, int (length pre))"
    using el_header(4)[OF assms] by blast
  moreover have "fst e = pre @ v @ post" using p by (auto simp: el_value_def plus_ptr_def run_then_Inr_iff)
  ultimately show thesis by (rule that)
qed

lemma int_at_inside:
  assumes "mem = pre @ u @ le_int 4 n @ w" "n \<in> {- (2 ^ 31)..<2 ^ 31}" "k = int (length u)"
  shows "int_at (plus_ptr (mem, int (length pre)) k) 4 = Inr n"
proof -
  have "int_at (plus_ptr (mem, int (length pre)) k) 4 = Inr (int_le (le_int 4 n))"
    by (rule int_at_app[where pre = "pre @ u" and post = w]) (simp_all add: plus_ptr_def assms(1,3))
  then show ?thesis using assms(2) by (simp add: int_le_le_int)
qed

lemma int_at_start:
  assumes "mem = pre @ le_int 4 n @ w" "n \<in> {- (2 ^ 31)..<2 ^ 31}"
  shows "int_at (mem, int (length pre)) 4 = Inr n"
  using int_at_inside[of mem pre "[]" n w 0] assms by (simp add: plus_ptr_def)

lemma validate_string_typed:
  assumes "at_raw e (t, f, v)" "raw_ok (t, f, v)" "v = le_int 4 (int (length s) + 1) @ s @ NUL # w"
    "int (length s) + 1 < BSONObjMaxInternalSize"
  shows "validate_string e = Inr ()"
proof -
  obtain pre post where p: "el_value e = Inr (pre @ v @ post, int (length pre))"
    using el_value_at[OF assms(1,2)] by blast
  let ?n = "int (length s) + 1"
  have n: "?n < 2 ^ 31" using small_internal[of ?n] assms(4) by simp
  then have i: "int_at (pre @ v @ post, int (length pre)) 4 = Inr ?n"
    by (intro int_at_start[where w = "s @ NUL # w @ post"]) (simp_all add: assms(3))
  have m: "?n mod 2 ^ 32 = ?n" using n by (intro mod_pos_pos_trivial) auto
  have r: "read_at (plus_ptr (plus_ptr (pre @ v @ post, int (length pre)) 4) (?n - 1)) 1 = Inr [NUL]"
    using read_at_app[of "plus_ptr (plus_ptr (pre @ v @ post, int (length pre)) 4) (?n - 1)"
        "pre @ le_int 4 ?n @ s" "NUL # w @ post" 1]
    by (simp add: plus_ptr_def assms(3))
  show ?thesis
    unfolding validate_string_def valuestrsize_def valuestr_def p run_then_simps i Let_def m r
    using assms(4) by simp
qed

lemma validate_scope_typed:
  assumes "at_raw e (CodeWScope, f, v)" "raw_ok (CodeWScope, f, v)" "NUL \<notin> set s" "k = int (length s) + 1" "n = int (length b)"
    "v = le_int 4 (k + n + 8) @ le_int 4 k @ s @ NUL # b" "b = le_int 4 n @ b'" "k + n + 8 < 2 ^ 31"
  shows "validate_CodeWScope e = Inr ()"
    "run_then (el_value e) (\<lambda>v. run_then (int_at (plus_ptr v 4) 4) (\<lambda>n. iterator_at (plus_ptr v (4 + 4 + n)))) =
       run_then (el_value e) (\<lambda>v. iterator_at (plus_ptr v (8 + k)))"
proof -
  obtain pre post where p: "el_value e = Inr (pre @ v @ post, int (length pre))"
    using el_value_at[OF assms(1,2)] by blast
  let ?v = "(pre @ v @ post, int (length pre))"
  have n: "4 \<le> n" using assms(5,7) by simp
  have k: "0 < k" using assms(4) by simp
  have r: "k + n + 8 \<in> {- (2 ^ 31)..<2 ^ 31}" "k \<in> {- (2 ^ 31)..<2 ^ 31}" "n \<in> {- (2 ^ 31)..<2 ^ 31}"
    using assms(4,8) n by auto
  have i1: "int_at ?v 4 = Inr (k + n + 8)"
    by (rule int_at_start[OF _ r(1), where w = "le_int 4 k @ s @ NUL # b @ post"]) (simp add: assms(6))
  have i2: "int_at (plus_ptr ?v 4) 4 = Inr k"
    by (rule int_at_inside[OF _ r(2), where u = "le_int 4 (k + n + 8)" and w = "s @ NUL # b @ post"]) (simp_all add: assms(6))
  have i3: "int_at (plus_ptr ?v (4 + 4 + k)) 4 = Inr n"
    by (rule int_at_inside[OF _ r(3), where u = "le_int 4 (k + n + 8) @ le_int 4 k @ s @ [NUL]" and w = "b' @ post"])
      (simp_all add: assms(4,6,7))
  have l: "strnlen (plus_ptr ?v 8) k = Inr (k - 1)"
    using strnlen_app[of "plus_ptr ?v 8" "pre @ le_int 4 (k + n + 8) @ le_int 4 k" s "b @ post" k] assms(3,4)
    by (simp add: plus_ptr_def assms(6))
  have s: "int_sum (k + 4 + 4) = Inr (k + 8)" "int_sum (k + 4 + 4 + 4) = Inr (k + 12)"
    "int_sum (4 + 4 + k + n) = Inr (k + n + 8)"
    using assms(4,8) n by (simp_all add: int_sum_def INT_MIN32_def)
  show "validate_CodeWScope e = Inr ()"
    unfolding validate_CodeWScope_def p run_then_simps i1 i2 s massert_def
    using n k by (simp add: l i3[simplified] s(3)[simplified])
  show "run_then (el_value e) (\<lambda>v. run_then (int_at (plus_ptr v 4) 4) (\<lambda>n. iterator_at (plus_ptr v (4 + 4 + n)))) =
       run_then (el_value e) (\<lambda>v. iterator_at (plus_ptr v (8 + k)))"
    unfolding p run_then_simps i2 by simp
qed

text \<open>An object in memory, and that the loop accepts it.\<close>

definition accepted :: "raw list \<Rightarrow> bool" where
  "accepted rs \<longleftrightarrow> (\<forall>pre post. valid_loop (pre @ obj_bytes rs @ post)
     \<lparr>it_pos = int (length pre) + 4, it_theend = int (length pre) + int (length (obj_bytes rs)) - 1\<rparr> = Some (Inr True))"

definition inside_accepted :: "BSONType \<Rightarrow> string \<Rightarrow> bool" where
  "inside_accepted t v \<longleftrightarrow> (\<forall>e f. at_raw e (t, f, v) \<and> raw_ok (t, f, v) \<longrightarrow>
     validate e = Inr () \<and>
     (isABSONObj t \<longrightarrow> (\<exists>j. embeddedObject e = Inr j \<and> valid_loop (fst e) j = Some (Inr True))) \<and>
     (t = CodeWScope \<longrightarrow> (\<exists>j. codeWScopeObject e = Inr j \<and> valid_loop (fst e) j = Some (Inr True))))"

lemma iterator_at_obj:
  assumes "accepted rs" "int (length (obj_bytes rs)) \<le> BSONObjMaxInternalSize" "mem = pre @ obj_bytes rs @ post"
  shows "\<exists>j. iterator_at (mem, int (length pre)) = Inr j \<and> valid_loop mem j = Some (Inr True)"
proof -
  let ?n = "int (length (obj_bytes rs))"
  have n: "0 < ?n" "?n < 2 ^ 31" using small_internal[OF assms(2)] by auto
  have "obj_bytes rs = le_int 4 ?n @ drop 4 (obj_bytes rs)"
    using take_obj_bytes[of rs] append_take_drop_id[of 4 "obj_bytes rs"] by simp
  then have "mem = pre @ le_int 4 ?n @ drop 4 (obj_bytes rs) @ post" unfolding assms(3) by (metis append_assoc)
  then have "int_at (mem, int (length pre)) 4 = Inr ?n" using n by (intro int_at_start) auto
  then have "iterator_at (mem, int (length pre)) = Inr \<lparr>it_pos = int (length pre) + 4, it_theend = int (length pre) + ?n - 1\<rparr>"
    using n(1) assms(2) by (simp add: iterator_at_def del: length_obj_bytes)
  then show ?thesis using assms(1) unfolding accepted_def assms(3) by blast
qed

lemma at_end:
  assumes "mem = pre @ NUL # post"
  shows "el_type (mem, int (length pre)) = Inr EOO"
proof -
  have "int_at (mem, int (length pre)) 1 = Inr (int_le [NUL])"
    by (rule int_at_app[where pre = pre and post = post]) (simp_all add: assms)
  then show ?thesis by (simp add: el_type_def NUL_def int_le_def bson_type_of_def bson_types_def)
qed

lemma loop_accepts:
  assumes "\<forall>(t, f, v) \<in> set rs. NUL \<notin> set f \<and> typed_value t v \<and> inside_accepted t v"
    "mem = pre @ concat (map raw_bytes rs) @ NUL # post" "it_pos i = int (length pre)"
    "it_theend i = int (length pre) + int (length (concat (map raw_bytes rs)))" "length (concat (map raw_bytes rs)) + 1 < 2 ^ 31"
  shows "valid_loop mem i = Some (Inr True)"
  using assms
proof (induction rs arbitrary: pre i)
  case Nil
  then have e: "el_type (mem, it_pos i) = Inr EOO" using at_end[of mem pre post] by simp
  have "it_next_in True mem i = Inr ((mem, it_pos i), i\<lparr>it_pos := it_pos i + 1\<rparr>)"
    using Nil.prems(3,4) e by (simp add: it_next_in_def BSONElement_in_def el_size_in_def)
  then have "valid_step mem i = Inr (ValidEnds True)"
    using e Nil.prems(3,4) by (simp add: valid_step_def validate_def it_moreWithEOO_def)
  then show ?case using Nil.prems(3,4) by (subst valid_loop.simps) (simp add: it_moreWithEOO_def)
next
  case (Cons r rs)
  obtain t f v where r: "r = (t, f, v)" by (cases r)
  have ok: "raw_ok r" using Cons.prems(1,5) by (auto simp: r intro!: typed_raw_ok)
  have at: "at_raw (mem, it_pos i) r" using Cons.prems(2,3) by (auto simp: at_raw_def)
  let ?i = "i\<lparr>it_pos := it_pos i + int (length (raw_bytes r))\<rparr>"
  have n: "it_next_in True mem i = Inr ((mem, it_pos i), ?i)"
    using Cons.prems(3-5) by (intro it_next_in_at[OF at ok]) auto
  have h: "el_type (mem, it_pos i) = Inr t" "t \<noteq> EOO"
    using el_header(1)[OF at[unfolded r] ok[unfolded r]] ok bson_type_value_range[of t v] by (auto simp: r raw_ok_def)
  have ih: "valid_loop mem ?i = Some (Inr True)"
    using Cons.prems by (intro Cons.IH[of "pre @ raw_bytes r"]) auto
  have ia: "inside_accepted t v" using Cons.prems(1) by (simp add: r)
  then have va: "validate (mem, it_pos i) = Inr ()" using at ok unfolding inside_accepted_def r by blast
  have more: "it_moreWithEOO i" using Cons.prems(3,4) by (simp add: it_moreWithEOO_def)
  consider "isABSONObj t" | "t = CodeWScope" | "\<not> isABSONObj t" "t \<noteq> CodeWScope" by blast
  then show ?case
  proof cases
    case 1
    then obtain j where j: "embeddedObject (mem, it_pos i) = Inr j" "valid_loop mem j = Some (Inr True)"
      using ia at ok unfolding inside_accepted_def r by fastforce
    then have "valid_step mem i = Inr (ValidIn j ?i)" using n va h 1 by (simp add: valid_step_def)
    then show ?thesis using j(2) ih more by (subst valid_loop.simps) simp
  next
    case 2
    then obtain j where j: "codeWScopeObject (mem, it_pos i) = Inr j" "valid_loop mem j = Some (Inr True)"
      using ia at ok unfolding inside_accepted_def r by fastforce
    then have "valid_step mem i = Inr (ValidIn j ?i)" using n va h 2 by (simp add: valid_step_def isABSONObj_def)
    then show ?thesis using j(2) ih more by (subst valid_loop.simps) simp
  next
    case 3
    then have "valid_step mem i = Inr (ValidGoes ?i)" using n va h by (simp add: valid_step_def)
    then show ?thesis using ih more by (subst valid_loop.simps) simp
  qed
qed

lemma fields_accepted:
  assumes "\<forall>(t, f, v) \<in> set rs. NUL \<notin> set f \<and> typed_value t v \<and> inside_accepted t v"
    "int (length (obj_bytes rs)) < 2 ^ 31"
  shows "accepted rs"
  unfolding accepted_def
proof (intro allI)
  fix pre post :: string
  let ?w = "concat (map raw_bytes rs)"
  let ?pre = "pre @ le_int 4 (int (length ?w) + 5)"
  have "pre @ obj_bytes rs @ post = ?pre @ ?w @ NUL # post" by (simp add: obj_bytes_def Let_def)
  then show "valid_loop (pre @ obj_bytes rs @ post)
     \<lparr>it_pos = int (length pre) + 4, it_theend = int (length pre) + int (length (obj_bytes rs)) - 1\<rparr> = Some (Inr True)"
    using assms(2) by (intro loop_accepts[OF assms(1), where pre = ?pre and post = post]) auto
qed

lemma validate_at:
  assumes "at_raw e (t, f, v)" "raw_ok (t, f, v)"
  shows "validate e =
    (if t \<in> {DBRef, Code, Symbol, StringType} then validate_string e
     else if t = CodeWScope then validate_CodeWScope e else Inr ())"
  using el_header(1)[OF assms] by (simp add: validate_def)

lemma inside_string:
  assumes "t \<in> {DBRef, Code, Symbol, StringType}" "int (length s) + 1 < BSONObjMaxInternalSize"
  shows "inside_accepted t (le_int 4 (int (length s) + 1) @ s @ NUL # w)"
  unfolding inside_accepted_def
proof (intro allI impI, elim conjE)
  fix e f
  assume h: "at_raw e (t, f, le_int 4 (int (length s) + 1) @ s @ NUL # w)" "raw_ok (t, f, le_int 4 (int (length s) + 1) @ s @ NUL # w)"
  have "\<not> isABSONObj t" "t \<noteq> CodeWScope" using assms(1) by (auto simp: isABSONObj_def)
  then show "validate e = Inr () \<and>
      (isABSONObj t \<longrightarrow> (\<exists>j. embeddedObject e = Inr j \<and> valid_loop (fst e) j = Some (Inr True))) \<and>
      (t = CodeWScope \<longrightarrow> (\<exists>j. codeWScopeObject e = Inr j \<and> valid_loop (fst e) j = Some (Inr True)))"
    using validate_at[OF h] validate_string_typed[OF h refl assms(2)] assms(1) by simp
qed

lemma typed_inside: "typed_value t v \<Longrightarrow> inside_accepted t v"
proof (induction rule: typed_value.induct)
  case (typed_plain t v)
  then have "t \<notin> {DBRef, Code, Symbol, StringType, CodeWScope}" "\<not> isABSONObj t" by (auto simp: isABSONObj_def)
  then show ?case unfolding inside_accepted_def using validate_at by fastforce
next
  case (typed_string t s)
  then show ?case using inside_string[of t s "[]"] by auto
next
  case (typed_DBRef s oid)
  then show ?case using inside_string[of DBRef s oid] by auto
next
  case (typed_object t rs)
  have acc: "accepted rs"
    using typed_object.IH typed_object.hyps small_internal by (intro fields_accepted) auto
  show ?case
    unfolding inside_accepted_def
  proof (intro allI impI, elim conjE)
    fix e f
    assume at: "at_raw e (t, f, obj_bytes rs)" and ok: "raw_ok (t, f, obj_bytes rs)"
    note h = el_header(1)[OF at ok]
    obtain pre post where p: "el_value e = Inr (pre @ obj_bytes rs @ post, int (length pre))"
      "fst e = pre @ obj_bytes rs @ post"
      using el_value_at[OF at ok] by blast
    have "isABSONObj t" "t \<notin> {DBRef, Code, Symbol, StringType, CodeWScope}"
      using typed_object.hyps(1) by (auto simp: isABSONObj_def)
    moreover obtain j where "iterator_at (pre @ obj_bytes rs @ post, int (length pre)) = Inr j"
      "valid_loop (pre @ obj_bytes rs @ post) j = Some (Inr True)"
      using iterator_at_obj[OF acc typed_object.hyps(2) refl] by blast
    ultimately show "validate e = Inr () \<and>
        (isABSONObj t \<longrightarrow> (\<exists>j. embeddedObject e = Inr j \<and> valid_loop (fst e) j = Some (Inr True))) \<and>
        (t = CodeWScope \<longrightarrow> (\<exists>j. codeWScopeObject e = Inr j \<and> valid_loop (fst e) j = Some (Inr True)))"
      using h p validate_at[OF at ok] by (simp add: embeddedObject_def)
  qed
next
  case (typed_scope s rs)
  let ?b = "obj_bytes rs"
  let ?n = "int (length ?b)" and ?k = "int (length s) + 1"
  let ?v = "le_int 4 (int (length s) + ?n + 9) @ le_int 4 ?k @ s @ [NUL] @ ?b"
  have acc: "accepted rs"
    using typed_scope.IH typed_scope.hyps small_internal by (intro fields_accepted) auto
  show ?case
    unfolding inside_accepted_def
  proof (intro allI impI, elim conjE)
    fix e f
    assume at: "at_raw e (CodeWScope, f, ?v)" and ok: "raw_ok (CodeWScope, f, ?v)"
    obtain pre post where p: "el_value e = Inr (pre @ ?v @ post, int (length pre))" "fst e = pre @ ?v @ post"
      using el_value_at[OF at ok] by blast
    have b: "?b = le_int 4 ?n @ drop 4 ?b" using take_obj_bytes[of rs] append_take_drop_id[of 4 ?b] by simp
    have v: "?v = le_int 4 (?k + ?n + 8) @ le_int 4 ?k @ s @ NUL # ?b" by (simp add: algebra_simps)
    have l: "?k + ?n + 8 < 2 ^ 31" using typed_scope.hyps by simp
    note c = validate_scope_typed[OF at ok typed_scope.hyps(1) refl refl v b l]
    let ?pre = "pre @ le_int 4 (int (length s) + ?n + 9) @ le_int 4 ?k @ s @ [NUL]"
    obtain j where j: "iterator_at (pre @ ?v @ post, int (length ?pre)) = Inr j" "valid_loop (pre @ ?v @ post) j = Some (Inr True)"
      using iterator_at_obj[OF acc typed_scope.hyps(2), of "pre @ ?v @ post" ?pre post] by auto
    have "plus_ptr (pre @ ?v @ post, int (length pre)) (8 + ?k) = (pre @ ?v @ post, int (length ?pre))"
      by (simp add: plus_ptr_def)
    then have "codeWScopeObject e = Inr j"
      using c(2) j(1) el_header(1)[OF at ok] by (simp add: codeWScopeObject_def p(1))
    then show "validate e = Inr () \<and>
        (isABSONObj CodeWScope \<longrightarrow> (\<exists>j. embeddedObject e = Inr j \<and> valid_loop (fst e) j = Some (Inr True))) \<and>
        (CodeWScope = CodeWScope \<longrightarrow> (\<exists>j. codeWScopeObject e = Inr j \<and> valid_loop (fst e) j = Some (Inr True)))"
      using j(2) c(1) validate_at[OF at ok] unfolding p(2) by (simp add: isABSONObj_def)
  qed
qed

lemma typed_valid:
  assumes "typed_fields rs" "int (length (obj_bytes rs)) < 2 ^ 31"
  shows "valid (obj_bytes rs) = Some (Inr True)"
proof -
  have "\<forall>(t, f, v) \<in> set rs. NUL \<notin> set f \<and> typed_value t v \<and> inside_accepted t v"
    using assms(1) typed_inside by (auto simp: typed_fields_def)
  then have "accepted rs" using assms(2) by (rule fields_accepted)
  then have "valid_loop ([] @ obj_bytes rs @ [])
     \<lparr>it_pos = int (length ([] :: string)) + 4, it_theend = int (length ([] :: string)) + int (length (obj_bytes rs)) - 1\<rparr> =
     Some (Inr True)"
    unfolding accepted_def by blast
  moreover have "length (concat (map raw_bytes r)) \<le> length (concat (map raw_bytes rs))" if "r = [x]" "x \<in> set rs" for r x
    using that by (induction rs arbitrary: r) auto
  then have "obj_ok rs"
    using assms typed_raw_ok unfolding obj_ok_def typed_fields_def by fastforce
  ultimately show ?thesis
    using objsize_obj_bytes[of rs] by (simp add: valid_def BSONObjIterator_new_def)
qed

text \<open>Strings of a document that the driver takes.\<close>

definition strings_fit :: "bson_obj \<Rightarrow> bool" where
  "strings_fit d \<longleftrightarrow>
     (\<forall>(f, v) \<in> set d. case v of BString s \<Rightarrow> int (length s) + 1 < BSONObjMaxInternalSize | _ \<Rightarrow> True)"

lemma document_typed: "doc_fits d \<Longrightarrow> strings_fit d \<Longrightarrow> typed_fields (map raw_of d)"
  unfolding typed_fields_def
proof (intro ballI, clarsimp)
  fix t f v g w
  assume d: "doc_fits d" "strings_fit d" "(g, w) \<in> set d" "(t, f, v) = raw_of (g, w)"
  then have r: "t = fst (enc_value w)" "f = g" "v = snd (enc_value w)" "NUL \<notin> set g" "bson_fits w"
    by (auto simp: raw_of_def doc_fits_def)
  have "typed_value t v"
  proof (cases w)
    case (BString s)
    then have "int (length s) + 1 < BSONObjMaxInternalSize" using d(2,3) by (auto simp: strings_fit_def)
    from typed_string[OF _ this, of StringType] show ?thesis using BString r(1,3) by simp
  qed (use r(1,3,5) in \<open>auto simp: well_sized_def intro!: typed_plain\<close>)
  then show "NUL \<notin> set f \<and> typed_value t v" using r by simp
qed

text \<open>C23.
  Types are what the driver's own check looks for. Bytes that are typed as a document, objects, arrays and
  code with its scope inside them included, at any depth, are accepted by \<open>valid\<close>, which ends without an
  exception and without a reading outside of them. What the builder writes for any document of well-typed
  fields whose strings are within the size of a document is typed, so it is accepted.
\<close>

theorem typed_documents_valid:
  "(\<forall>rs. typed_fields rs \<and> int (length (obj_bytes rs)) < 2 ^ 31 \<longrightarrow> valid (obj_bytes rs) = Some (Inr True)) \<and>
   (\<forall>memory d. doc_written d \<and> strings_fit d \<longrightarrow>
      (\<exists>rs. BSON memory (stream_of d) = Inr (obj_bytes rs) \<and> typed_fields rs \<and> valid (obj_bytes rs) = Some (Inr True)))"
proof (intro conjI allI impI; elim conjE)
  fix rs
  assume "typed_fields rs" "int (length (obj_bytes rs)) < 2 ^ 31"
  then show "valid (obj_bytes rs) = Some (Inr True)" by (rule typed_valid)
next
  fix memory d
  assume d: "doc_written d" "strings_fit d"
  then have f: "doc_fits d" by (simp add: doc_written_def)
  have "int (length (obj_bytes (map raw_of d))) < 2 ^ 31" using doc_fits_ok[OF f] by (simp add: obj_ok_def)
  with typed_valid[OF document_typed[OF f d(2)]] BSON_bytes[OF d(1)] document_typed[OF f d(2)]
  show "\<exists>rs. BSON memory (stream_of d) = Inr (obj_bytes rs) \<and> typed_fields rs \<and> valid (obj_bytes rs) = Some (Inr True)" by blast
qed

text \<open>An object in an object, and a document of the builder.\<close>

lemma typed_documents_valid_witness:
  "valid (obj_bytes [(ObjectType, ''a'', obj_bytes [(StringType, ''b'', le_int 4 2 @ ''x'' @ [NUL])])]) = Some (Inr True) \<and>
   (\<exists>rs. BSON (\<lambda>_. CHR ''x'') (stream_of [(''Name'', BString ''Ann'')]) = Inr (obj_bytes rs) \<and>
      valid (obj_bytes rs) = Some (Inr True))"
proof
  have s: "typed_value StringType (le_int 4 2 @ ''x'' @ [NUL])"
    using typed_string[of StringType "''x''"] by (simp add: BSONObjMaxInternalSize_def)
  have "typed_value ObjectType (obj_bytes [(StringType, ''b'', le_int 4 2 @ ''x'' @ [NUL])])"
    using s by (intro typed_object) (auto simp: NUL_def raw_bytes_def BSONObjMaxInternalSize_def)
  then have "typed_fields [(ObjectType, ''a'', obj_bytes [(StringType, ''b'', le_int 4 2 @ ''x'' @ [NUL])])]"
    by (simp add: typed_fields_def NUL_def)
  then show "valid (obj_bytes [(ObjectType, ''a'', obj_bytes [(StringType, ''b'', le_int 4 2 @ ''x'' @ [NUL])])]) = Some (Inr True)"
    using conjunct1[OF typed_documents_valid] by (auto simp: raw_bytes_def)
  have "doc_written [(''Name'', BString ''Ann'')] \<and> strings_fit [(''Name'', BString ''Ann'')]"
    by (simp add: doc_written_def doc_fits_def NUL_def raw_bytes_def raw_of_def BufferMaxSize_def strings_fit_def
      BSONObjMaxInternalSize_def)
  then show "\<exists>rs. BSON (\<lambda>_. CHR ''x'') (stream_of [(''Name'', BString ''Ann'')]) = Inr (obj_bytes rs) \<and>
      valid (obj_bytes rs) = Some (Inr True)"
    using conjunct2[OF typed_documents_valid] by blast
qed

section \<open>What is not\<close>

text \<open>An element of binary data whose length makes its size zero, and a string that is longer than what is there.\<close>

definition zero_size_bytes :: BSONObj where
  "zero_size_bytes = le_int 4 11 @ [CHR 0x05, CHR 0x00] @ le_int 4 (- 7) @ [CHR 0x00]"

definition long_string_bytes :: BSONObj where
  "long_string_bytes = le_int 4 11 @ [CHR 0x02, CHR 0x00] @ le_int 4 100 @ [CHR 0x00]"

lemma small_element:
  assumes "mem = le_int 4 11 @ [c, NUL] @ le_int 4 n @ [NUL]" "n \<in> {- (2 ^ 31)..<2 ^ 31}" "bson_type_of (int_le [c]) = t" "t \<noteq> EOO"
  shows "el_type (mem, 4) = Inr t" "fieldNameSize (mem, 4) = Inr 1" "el_value (mem, 4) = Inr (mem, 6)"
    "int_at (mem, 6) 4 = Inr n" "BSONElement_in (mem, 4) 7 = Inr ()"
    "BSONObjIterator_new mem = Inr \<lparr>it_pos = 4, it_theend = 10\<rparr>"
proof -
  have "int_at (mem, 4) 1 = Inr (int_le [c])"
    by (rule int_at_app[where pre = "le_int 4 11" and post = "NUL # le_int 4 n @ [NUL]"]) (simp_all add: assms(1))
  then show t: "el_type (mem, 4) = Inr t" using assms(3) by (simp add: el_type_def)
  have "strlen_at (plus_ptr (mem, 4) 1) = Inr 0"
    using strlen_at_app[of "plus_ptr (mem, 4) 1" "le_int 4 11 @ [c]" "[]" "le_int 4 n @ [NUL]"]
    by (simp add: plus_ptr_def assms(1))
  then show f: "fieldNameSize (mem, 4) = Inr 1" using t assms(4) by (simp add: fieldNameSize_def)
  then show "el_value (mem, 4) = Inr (mem, 6)" by (simp add: el_value_def plus_ptr_def)
  show "int_at (mem, 6) 4 = Inr n"
    using int_at_start[of mem "le_int 4 11 @ [c, NUL]" n "[NUL]"] assms(1,2) by simp
  have "strnlen (plus_ptr (mem, 4) 1) 6 = Inr 0"
    using strnlen_app[of "plus_ptr (mem, 4) 1" "le_int 4 11 @ [c]" "[]" "le_int 4 n @ [NUL]" 6]
    by (simp add: plus_ptr_def assms(1))
  then show "BSONElement_in (mem, 4) 7 = Inr ()" using t by (simp add: BSONElement_in_def)
  have "int_at (mem, 0) 4 = Inr 11"
    using int_at_start[of mem "[]" 11 "[c, NUL] @ le_int 4 n @ [NUL]"] assms(1) by simp
  then show "BSONObjIterator_new mem = Inr \<lparr>it_pos = 4, it_theend = 10\<rparr>" by (simp add: BSONObjIterator_new_def objsize_def)
qed

lemma zero_size_step:
  "valid_step zero_size_bytes \<lparr>it_pos = 4, it_theend = 10\<rparr> = Inr (ValidGoes \<lparr>it_pos = 4, it_theend = 10\<rparr>)"
proof -
  have "bson_type_of (int_le [CHR 0x05]) = BinData" by (simp add: int_le_def bson_type_of_def bson_types_def)
  note e = small_element[OF zero_size_bytes_def[folded NUL_def] _ this]
  show ?thesis
    using e
    by (simp add: valid_step_def it_next_in_def el_size_in_def value_size_in_def enough_def valuestrsize_def validate_def
      isABSONObj_def int_sum_def INT_MIN32_def)
qed

lemma long_string_step:
  "valid_step long_string_bytes \<lparr>it_pos = 4, it_theend = 10\<rparr> = Inl (Undefined ''read outside of the object'')"
proof -
  have "bson_type_of (int_le [CHR 0x02]) = StringType" by (simp add: int_le_def bson_type_of_def bson_types_def)
  note e = small_element[OF long_string_bytes_def[folded NUL_def] _ this]
  have "read_at (long_string_bytes, 109) 1 = Inl (Undefined ''read outside of the object'')"
    by (simp add: read_at_def Let_def long_string_bytes_def)
  then show ?thesis
    using e
    by (simp add: valid_step_def it_next_in_def el_size_in_def value_size_in_def enough_def valuestrsize_def validate_def
      isABSONObj_def int_sum_def INT_MIN32_def validate_string_def valuestr_def plus_ptr_def Let_def BSONObjMaxInternalSize_def)
qed

lemma zero_size_loops: "valid_loop zero_size_bytes \<lparr>it_pos = 4, it_theend = 10\<rparr> \<noteq> Some x"
proof
  define Q where "Q = (\<lambda>mem i (y :: bool res). mem \<noteq> zero_size_bytes \<or> i \<noteq> \<lparr>it_pos = 4, it_theend = 10\<rparr>)"
  assume ends: "valid_loop zero_size_bytes \<lparr>it_pos = 4, it_theend = 10\<rparr> = Some x"
  have "Q zero_size_bytes \<lparr>it_pos = 4, it_theend = 10\<rparr> x"
  proof (rule valid_loop.raw_induct[OF _ ends])
    fix f mem i y
    assume IH: "\<And>mem i y. f mem i = Some y \<Longrightarrow> Q mem i y"
      and step: "(if \<not> it_moreWithEOO i then Some (Inr False)
      else case valid_step mem i of
             Inl f \<Rightarrow> Some (valid_caught f)
           | Inr r \<Rightarrow>
               (case r of
                  ValidEnds b \<Rightarrow> Some (Inr b)
                | ValidGoes i' \<Rightarrow> f mem i'
                | ValidIn j i' \<Rightarrow>
                    Option.bind (f mem j) (\<lambda>x.
                      case x of
                        Inl f \<Rightarrow> Some (Inl f)
                      | Inr b \<Rightarrow> if \<not> b then Some (Inr False) else f mem i'))) = Some y"
    show "Q mem i y"
    proof (rule ccontr)
      assume "\<not> Q mem i y"
      then have "f zero_size_bytes \<lparr>it_pos = 4, it_theend = 10\<rparr> = Some y"
        using step zero_size_step by (simp add: Q_def it_moreWithEOO_def)
      from IH[OF this] show False by (simp add: Q_def)
    qed
  qed
  then show False by (simp add: Q_def)
qed

text \<open>C24.
  On bytes that are no document the check may be worse than wrong. With an element of binary data whose negative
  length makes its size zero, the loop stays where it is, and \<open>valid\<close> never returns; with a string
  that says it is longer than what is there, \<open>valid\<close> reads outside of the object instead of refusing it.
\<close>

theorem invalid_bytes:
  "valid zero_size_bytes = None \<and> valid long_string_bytes = Some (Inl (Undefined ''read outside of the object''))"
proof
  have "bson_type_of (int_le [CHR 0x05]) = BinData" by (simp add: int_le_def bson_type_of_def bson_types_def)
  from small_element(6)[OF zero_size_bytes_def[folded NUL_def] _ this] show "valid zero_size_bytes = None"
    using zero_size_loops by (simp add: valid_def) blast
  have "bson_type_of (int_le [CHR 0x02]) = StringType" by (simp add: int_le_def bson_type_of_def bson_types_def)
  from small_element(6)[OF long_string_bytes_def[folded NUL_def] _ this] show
    "valid long_string_bytes = Some (Inl (Undefined ''read outside of the object''))"
    using long_string_step by (simp add: valid_def valid_loop.simps it_moreWithEOO_def valid_caught_def)
qed

end
