(* ===== verification/MongoCompare.thy ===== *)
theory MongoCompare
imports MongoValid
begin

text \<open>
  The order of elements and of documents (\<open>compareElementValues\<close>, \<open>BSONElement::woCompare\<close> and
  \<open>BSONObj::equal\<close> of \<open>bson/bson-inl.h\<close>, \<open>BSONObj::woCompare\<close> and \<open>isPrefixOf\<close> of \<open>db/jsobj.cpp\<close>,
  \<open>bson/ordering.h\<close>), over objects in memory. \<open>memcmp\<close> and \<open>strcmp\<close> promise a sign and no more: here they
  give -1, 0 or 1.
\<close>

section \<open>Comparing bytes and doubles\<close>

definition bytes_cmp :: "string \<Rightarrow> string \<Rightarrow> int" where
  "bytes_cmp s u = (if s < u then - 1 else if s = u then 0 else 1)"

definition strcmp_at :: "pointer_in \<Rightarrow> pointer_in \<Rightarrow> int res" where
  "strcmp_at p q = run_then (cstr_at p) (\<lambda>s. run_then (cstr_at q) (\<lambda>u. Inr (bytes_cmp s u)))"

definition memcmp_at :: "pointer_in \<Rightarrow> pointer_in \<Rightarrow> int \<Rightarrow> int res" where
  "memcmp_at p q n = run_then (read_size p n) (\<lambda>s. run_then (read_size q n) (\<lambda>u. Inr (bytes_cmp s u)))"

text \<open>The comparison of two numbers as doubles. NaN is below all others.\<close>

definition double_cmp :: "float64 \<Rightarrow> float64 \<Rightarrow> int" where
  "double_cmp l r =
     (if double_less l r then - 1
      else if double_eq l r then 0
      else if d_isnan l then (if d_isnan r then 0 else - 1)
      else 1)"

definition sign_of :: "int \<Rightarrow> int \<Rightarrow> int" where
  "sign_of a b = (if a < b then - 1 else if a = b then 0 else 1)"

section \<open>Values\<close>

text \<open>The constructor of an object at a pointer insists on a size.\<close>

definition object_at :: "pointer_in \<Rightarrow> pointer_in res" where
  "object_at p =
     run_then (int_at p 4) (\<lambda>n.
       if 0 < n \<and> n \<le> BSONObjMaxInternalSize then Inr p else Inl (Throw ''10334''))"

definition embedded_at :: "BSONElement \<Rightarrow> pointer_in res" where
  "embedded_at e =
     run_then (el_type e) (\<lambda>t. if isABSONObj t then run_then (el_value e) object_at else Inl (Throw ''assertion''))"

definition el_date :: "BSONElement \<Rightarrow> nat res" where
  "el_date e = run_then (el_value e) (\<lambda>v. run_then (read_at v 8) (\<lambda>b. Inr (le_nat b)))"

text \<open>\<open>(long long) Date().millis\<close>\<close>

definition el_Date :: "BSONElement \<Rightarrow> int res" where
  "el_Date e = run_then (chk DateType e) (\<lambda>_. el_long e)"

definition regex :: "BSONElement \<Rightarrow> pointer_in res" where
  "regex e = run_then (el_type e) (\<lambda>t. if t = RegEx then el_value e else Inl (Throw ''assertion''))"

definition regexFlags :: "BSONElement \<Rightarrow> pointer_in res" where
  "regexFlags e = run_then (regex e) (\<lambda>p. run_then (strlen_at p) (\<lambda>n. Inr (plus_ptr p (int n + 1))))"

definition codeWScopeCode :: "BSONElement \<Rightarrow> pointer_in res" where
  "codeWScopeCode e =
     run_then (el_type e) (\<lambda>t.
       if t = CodeWScope then run_then (el_value e) (\<lambda>v. Inr (plus_ptr v (4 + 4))) else Inl (Throw ''16177''))"

definition codeWScopeScopeDataUnsafe :: "BSONElement \<Rightarrow> pointer_in res" where
  "codeWScopeScopeDataUnsafe e =
     run_then (codeWScopeCode e) (\<lambda>p. run_then (strlen_at p) (\<lambda>n. Inr (plus_ptr p (int n + 1))))"

text \<open>A comparison of values is done, or it is the one of two objects.\<close>

datatype value_cmp = CmpIs int | CmpObjs pointer_in pointer_in

definition cmp_is :: "int res \<Rightarrow> value_cmp res" where
  "cmp_is r = run_then r (\<lambda>x. Inr (CmpIs x))"

definition or_else :: "int res \<Rightarrow> int res \<Rightarrow> int res" where
  "or_else a b = run_then a (\<lambda>x. if x \<noteq> 0 then Inr x else b)"

text \<open>Two readings of the same kind, one of each element.\<close>

definition both :: "(BSONElement \<Rightarrow> 'a res) \<Rightarrow> BSONElement \<Rightarrow> BSONElement \<Rightarrow> ('a \<Rightarrow> 'a \<Rightarrow> 'b res) \<Rightarrow> 'b res" where
  "both f l r k = run_then (f l) (\<lambda>a. run_then (f r) (k a))"

definition el_canonicalType :: "BSONElement \<Rightarrow> int res" where
  "el_canonicalType e = run_then (el_type e) canonicalType"

definition cmp_strings :: "BSONElement \<Rightarrow> BSONElement \<Rightarrow> int res" where
  "cmp_strings l r =
     both valuestrsize l r (\<lambda>lsz rsz.
       or_else (both valuestr l r (\<lambda>p q. memcmp_at p q (min lsz rsz))) (int_sum (lsz - rsz)))"

definition cmp_DBRef :: "BSONElement \<Rightarrow> BSONElement \<Rightarrow> int res" where
  "cmp_DBRef l r =
     both valuesize l r (\<lambda>lsz rsz.
       or_else (int_sum (lsz - rsz)) (both el_value l r (\<lambda>p q. memcmp_at p q lsz)))"

definition cmp_BinData :: "BSONElement \<Rightarrow> BSONElement \<Rightarrow> int res" where
  "cmp_BinData l r =
     both el_objsize l r (\<lambda>lsz rsz.
       or_else (int_sum (lsz - rsz))
         (both el_value l r (\<lambda>p q. run_then (int_sum (lsz + 1)) (memcmp_at (plus_ptr p 4) (plus_ptr q 4)))))"

definition cmp_CodeWScope :: "BSONElement \<Rightarrow> BSONElement \<Rightarrow> int res" where
  "cmp_CodeWScope l r =
     both el_canonicalType l r (\<lambda>a b.
       or_else (Inr (a - b))
         (or_else (both codeWScopeCode l r strcmp_at) (both codeWScopeScopeDataUnsafe l r strcmp_at)))"

definition cmp_doubles :: "BSONElement \<Rightarrow> BSONElement \<Rightarrow> int res" where
  "cmp_doubles l r = both numberDouble l r (\<lambda>a b. Inr (double_cmp a b))"

definition compareElementValues :: "BSONElement \<Rightarrow> BSONElement \<Rightarrow> value_cmp res" where
  "compareElementValues l r =
     run_then (el_type l) (\<lambda>t. run_then (el_type r) (\<lambda>u.
       if t \<in> {EOO, UndefinedType, jstNULL, MaxKey, MinKey} then
         cmp_is (both el_canonicalType l r (\<lambda>a b. Inr (sign_of a b)))
       else if t = BoolType then
         cmp_is (both el_value l r (\<lambda>p q. run_then (int_at p 1) (\<lambda>a. run_then (int_at q 1) (\<lambda>b. Inr (a - b)))))
       else if t = Timestamp then cmp_is (both el_date l r (\<lambda>a b. Inr (sign_of (int a) (int b))))
       else if t = DateType then cmp_is (both el_Date l r (\<lambda>a b. Inr (sign_of a b)))
       else if t = NumberLong \<and> u = NumberLong then cmp_is (both el_long l r (\<lambda>a b. Inr (sign_of a b)))
       else if t = NumberInt \<and> u = NumberInt then cmp_is (both el_int l r (\<lambda>a b. Inr (sign_of a b)))
       else if isNumber t then cmp_is (cmp_doubles l r)
       else if t = jstOID then cmp_is (both el_value l r (\<lambda>p q. memcmp_at p q 12))
       else if t \<in> {Code, Symbol, StringType} then cmp_is (cmp_strings l r)
       else if isABSONObj t then both embedded_at l r (\<lambda>p q. Inr (CmpObjs p q))
       else if t = DBRef then cmp_is (cmp_DBRef l r)
       else if t = BinData then cmp_is (cmp_BinData l r)
       else if t = RegEx then cmp_is (or_else (both regex l r strcmp_at) (both regexFlags l r strcmp_at))
       else if t = CodeWScope then cmp_is (cmp_CodeWScope l r)
       else Inl (Throw ''assertion'')))"

section \<open>Elements\<close>

text \<open>\<open>BSONElement::woCompare\<close>, up to the objects inside.\<close>

definition element_cmp :: "bool \<Rightarrow> BSONElement \<Rightarrow> BSONElement \<Rightarrow> value_cmp res" where
  "element_cmp considerFieldName l r =
     both el_canonicalType l r (\<lambda>lt rt.
     both el_type l r (\<lambda>t u.
       if lt - rt \<noteq> 0 \<and> (\<not> isNumber t \<or> \<not> isNumber u) then Inr (CmpIs (lt - rt))
       else if considerFieldName then
         both fieldName l r (\<lambda>f g.
           if bytes_cmp f g \<noteq> 0 then Inr (CmpIs (bytes_cmp f g)) else compareElementValues l r)
       else compareElementValues l r))"

section \<open>Objects\<close>

text \<open>
  An object is a place in memory, an iterator over it stands in that memory. The start of a comparison: one of the
  objects is empty, or the iterators over both.
\<close>

definition isEmpty_at :: "pointer_in \<Rightarrow> bool res" where
  "isEmpty_at p = run_then (int_at p 4) (\<lambda>n. Inr (n \<le> 5))"

definition iterator_over :: "pointer_in \<Rightarrow> BSONObjIterator res" where
  "iterator_over p =
     run_then (int_at p 4) (\<lambda>sz.
       if sz = 0 then Inr \<lparr>it_pos = -1, it_theend = -1\<rparr>
       else Inr \<lparr>it_pos = snd p + 4, it_theend = snd p + sz - 1\<rparr>)"

datatype cmp_open = OpenIs int | OpenAt BSONObjIterator BSONObjIterator

definition wo_open :: "pointer_in \<Rightarrow> pointer_in \<Rightarrow> cmp_open res" where
  "wo_open p q =
     run_then (isEmpty_at p) (\<lambda>lempty. run_then (isEmpty_at q) (\<lambda>rempty.
       if lempty then Inr (OpenIs (if rempty then 0 else - 1))
       else if rempty then Inr (OpenIs 1)
       else run_then (iterator_over p) (\<lambda>i. run_then (iterator_over q) (\<lambda>j. Inr (OpenAt i j)))))"

text \<open>Both iterators go on; where an object ends, that decides.\<close>

datatype cmp_step = StepIs int | StepAt BSONElement BSONElement BSONObjIterator BSONObjIterator

definition wo_next :: "string \<Rightarrow> BSONObjIterator \<Rightarrow> string \<Rightarrow> BSONObjIterator \<Rightarrow> cmp_step res" where
  "wo_next m i n j =
     run_then (it_next m i) (\<lambda>(l, i). run_then (it_next n j) (\<lambda>(r, j).
       both el_type l r (\<lambda>t u.
         if t = EOO then Inr (StepIs (if u = EOO then 0 else - 1))
         else if u = EOO then Inr (StepIs 1)
         else Inr (StepAt l r i j))))"

partial_function (option) wo_loop :: "string \<Rightarrow> BSONObjIterator \<Rightarrow> string \<Rightarrow> BSONObjIterator \<Rightarrow> int res option" where
  "wo_loop m i n j =
     (case wo_next m i n j of
        Inl f \<Rightarrow> Some (Inl f)
      | Inr (StepIs x) \<Rightarrow> Some (Inr x)
      | Inr (StepAt l r i' j') \<Rightarrow>
          (case element_cmp True l r of
             Inl f \<Rightarrow> Some (Inl f)
           | Inr (CmpIs x) \<Rightarrow> if x \<noteq> 0 then Some (Inr x) else wo_loop m i' n j'
           | Inr (CmpObjs p q) \<Rightarrow>
               (case wo_open p q of
                  Inl f \<Rightarrow> Some (Inl f)
                | Inr (OpenIs x) \<Rightarrow> if x \<noteq> 0 then Some (Inr x) else wo_loop m i' n j'
                | Inr (OpenAt i2 j2) \<Rightarrow>
                    Option.bind (wo_loop (fst p) i2 (fst q) j2) (\<lambda>y.
                      case y of
                        Inl f \<Rightarrow> Some (Inl f)
                      | Inr x \<Rightarrow> if x \<noteq> 0 then Some (Inr x) else wo_loop m i' n j'))))"

text \<open>\<open>woCompare\<close> with its default arguments: no key, and names count.\<close>

definition woCompare :: "pointer_in \<Rightarrow> pointer_in \<Rightarrow> int res option" where
  "woCompare p q =
     (case wo_open p q of
        Inl f \<Rightarrow> Some (Inl f)
      | Inr (OpenIs x) \<Rightarrow> Some (Inr x)
      | Inr (OpenAt i j) \<Rightarrow> wo_loop (fst p) i (fst q) j)"

definition el_woCompare :: "bool \<Rightarrow> BSONElement \<Rightarrow> BSONElement \<Rightarrow> int res option" where
  "el_woCompare considerFieldName l r =
     (case element_cmp considerFieldName l r of
        Inl f \<Rightarrow> Some (Inl f)
      | Inr (CmpIs x) \<Rightarrow> Some (Inr x)
      | Inr (CmpObjs p q) \<Rightarrow> woCompare p q)"

section \<open>Descending keys\<close>

text \<open>\<open>Ordering\<close>: the bits of the fields of a key that descend. More than 32 fields are refused.\<close>

type_synonym Ordering = "32 word"

definition descending :: "Ordering \<Rightarrow> 32 word \<Rightarrow> bool" where
  "descending bits field \<longleftrightarrow> and bits field \<noteq> 0"

definition Ordering_get :: "Ordering \<Rightarrow> nat \<Rightarrow> int" where
  "Ordering_get bits i = (if and (push_bit i 1) bits \<noteq> 0 then - 1 else 1)"

partial_function (option) ordering_loop :: "string \<Rightarrow> BSONObjIterator \<Rightarrow> nat \<Rightarrow> Ordering \<Rightarrow> Ordering res option" where
  "ordering_loop m k n b =
     (case run_then (it_next m k) (\<lambda>(e, k). run_then (el_type e) (\<lambda>t. Inr (e, t, k))) of
        Inl f \<Rightarrow> Some (Inl f)
      | Inr (e, t, k') \<Rightarrow>
          if t = EOO then Some (Inr b)
          else if \<not> n \<le> 31 then Some (Inl (Throw ''13103''))
          else case numberDouble e of
                 Inl f \<Rightarrow> Some (Inl f)
               | Inr d \<Rightarrow> ordering_loop m k' (n + 1) (if double_less d 0 then or b (push_bit n 1) else b))"

definition Ordering_make :: "pointer_in \<Rightarrow> Ordering res option" where
  "Ordering_make p =
     (case iterator_over p of Inl f \<Rightarrow> Some (Inl f) | Inr k \<Rightarrow> ordering_loop (fst p) k 0 0)"

text \<open>The loop that gives some differences the other sign. The mask shifts out at the end: later fields ascend.\<close>

definition negated :: "bool \<Rightarrow> int \<Rightarrow> int res" where
  "negated down x = (if down then int_sum (- x) else Inr x)"

partial_function (option) wo_ordering_loop ::
  "bool \<Rightarrow> Ordering \<Rightarrow> string \<Rightarrow> BSONObjIterator \<Rightarrow> string \<Rightarrow> BSONObjIterator \<Rightarrow> 32 word \<Rightarrow> int res option" where
  "wo_ordering_loop considerFieldName ord m i n j field =
     (case wo_next m i n j of
        Inl f \<Rightarrow> Some (Inl f)
      | Inr (StepIs x) \<Rightarrow> Some (Inr x)
      | Inr (StepAt l r i' j') \<Rightarrow>
          Option.bind (el_woCompare considerFieldName l r) (\<lambda>y.
            case run_then y (negated (descending ord field)) of
              Inl f \<Rightarrow> Some (Inl f)
            | Inr x \<Rightarrow> if x \<noteq> 0 then Some (Inr x)
                       else wo_ordering_loop considerFieldName ord m i' n j' (push_bit 1 field)))"

definition woCompare_ordering :: "bool \<Rightarrow> Ordering \<Rightarrow> pointer_in \<Rightarrow> pointer_in \<Rightarrow> int res option" where
  "woCompare_ordering considerFieldName ord p q =
     (case wo_open p q of
        Inl f \<Rightarrow> Some (Inl f)
      | Inr (OpenIs x) \<Rightarrow> Some (Inr x)
      | Inr (OpenAt i j) \<Rightarrow> wo_ordering_loop considerFieldName ord (fst p) i (fst q) j 1)"

text \<open>\<open>idxKey\<close>: an object whose elements say with their sign which fields descend. It is read along, and its end is the
  end of what can be compared.
\<close>

definition key_next :: "bool \<Rightarrow> string \<Rightarrow> BSONObjIterator \<Rightarrow> (BSONElement \<times> BSONObjIterator) res" where
  "key_next ordered m k = (if ordered then it_next m k else Inr (no_element, k))"

definition wo_key_next ::
  "bool \<Rightarrow> string \<Rightarrow> BSONObjIterator \<Rightarrow> string \<Rightarrow> BSONObjIterator \<Rightarrow> string \<Rightarrow> BSONObjIterator \<Rightarrow>
    (cmp_step \<times> BSONElement \<times> BSONObjIterator) res"
where
  "wo_key_next ordered m i n j mk k =
     run_then (it_next m i) (\<lambda>(l, i). run_then (it_next n j) (\<lambda>(r, j). run_then (key_next ordered mk k) (\<lambda>(e, k).
       both el_type l r (\<lambda>t u.
         if t = EOO then Inr (StepIs (if u = EOO then 0 else - 1), e, k)
         else if u = EOO then Inr (StepIs 1, e, k)
         else Inr (StepAt l r i j, e, k)))))"

definition by_key :: "bool \<Rightarrow> BSONElement \<Rightarrow> int \<Rightarrow> int res" where
  "by_key ordered e x = (if ordered then run_then (numberDouble e) (\<lambda>d. negated (double_less d 0) x) else Inr x)"

partial_function (option) wo_key_loop ::
  "bool \<Rightarrow> bool \<Rightarrow> string \<Rightarrow> BSONObjIterator \<Rightarrow> string \<Rightarrow> BSONObjIterator \<Rightarrow> string \<Rightarrow> BSONObjIterator \<Rightarrow> int res option" where
  "wo_key_loop considerFieldName ordered m i n j mk k =
     (case wo_key_next ordered m i n j mk k of
        Inl f \<Rightarrow> Some (Inl f)
      | Inr (StepIs x, e, k') \<Rightarrow> Some (Inr x)
      | Inr (StepAt l r i' j', e, k') \<Rightarrow>
          Option.bind (el_woCompare considerFieldName l r) (\<lambda>y.
            case run_then y (by_key ordered e) of
              Inl f \<Rightarrow> Some (Inl f)
            | Inr x \<Rightarrow> if x \<noteq> 0 then Some (Inr x)
                       else wo_key_loop considerFieldName ordered m i' n j' mk k'))"

definition woCompare_key :: "bool \<Rightarrow> pointer_in \<Rightarrow> pointer_in \<Rightarrow> pointer_in \<Rightarrow> int res option" where
  "woCompare_key considerFieldName key p q =
     (case wo_open p q of
        Inl f \<Rightarrow> Some (Inl f)
      | Inr (OpenIs x) \<Rightarrow> Some (Inr x)
      | Inr (OpenAt i j) \<Rightarrow>
          (case run_then (isEmpty_at key) (\<lambda>none. run_then (iterator_over key) (\<lambda>k. Inr (\<not> none, k))) of
             Inl f \<Rightarrow> Some (Inl f)
           | Inr (ordered, k) \<Rightarrow> wo_key_loop considerFieldName ordered (fst p) i (fst q) j (fst key) k))"

section \<open>Equality\<close>

definition valuesEqual :: "BSONElement \<Rightarrow> BSONElement \<Rightarrow> bool res option" where
  "valuesEqual l r = map_option (\<lambda>y. run_then y (\<lambda>x. Inr (x = 0))) (el_woCompare False l r)"

definition el_equal :: "BSONElement \<Rightarrow> BSONElement \<Rightarrow> bool res option" where
  "el_equal l r = map_option (\<lambda>y. run_then y (\<lambda>x. Inr (x = 0))) (el_woCompare True l r)"

partial_function (option) equal_loop :: "string \<Rightarrow> BSONObjIterator \<Rightarrow> string \<Rightarrow> BSONObjIterator \<Rightarrow> bool res option" where
  "equal_loop m i n j =
     (case run_then (it_next m i) (\<lambda>(l, i). run_then (it_next n j) (\<lambda>(r, j).
             run_then (el_type l) (\<lambda>t. run_then (el_type r) (\<lambda>u. Inr (t, u, l, r, i, j))))) of
        Inl f \<Rightarrow> Some (Inl f)
      | Inr (t, u, l, r, i', j') \<Rightarrow>
          if t = EOO then Some (Inr (u = EOO))
          else Option.bind (el_equal l r) (\<lambda>y.
            case y of
              Inl f \<Rightarrow> Some (Inl f)
            | Inr same \<Rightarrow> if same then equal_loop m i' n j' else Some (Inr False)))"

definition obj_equal :: "pointer_in \<Rightarrow> pointer_in \<Rightarrow> bool res option" where
  "obj_equal p q =
     (case run_then (iterator_over p) (\<lambda>i. run_then (iterator_over q) (\<lambda>j. Inr (i, j))) of
        Inl f \<Rightarrow> Some (Inl f)
      | Inr (i, j) \<Rightarrow> equal_loop (fst p) i (fst q) j)"

text \<open>The bytes and no more.\<close>

definition binaryEqual :: "pointer_in \<Rightarrow> pointer_in \<Rightarrow> bool res" where
  "binaryEqual p q =
     run_then (int_at p 4) (\<lambda>os. run_then (int_at q 4) (\<lambda>rs.
       if os = rs then (if os = 0 then Inr True else run_then (memcmp_at p q os) (\<lambda>x. Inr (x = 0)))
       else Inr False))"

partial_function (option) prefix_loop :: "string \<Rightarrow> BSONObjIterator \<Rightarrow> string \<Rightarrow> BSONObjIterator \<Rightarrow> bool res option" where
  "prefix_loop m i n j =
     (if \<not> (it_more i \<and> it_more j) then Some (Inr (\<not> it_more i))
      else case run_then (it_next m i) (\<lambda>(x, i). run_then (it_next n j) (\<lambda>(y, j). Inr (x, y, i, j))) of
             Inl f \<Rightarrow> Some (Inl f)
           | Inr (x, y, i', j') \<Rightarrow>
               Option.bind (el_equal x y) (\<lambda>z.
                 case z of
                   Inl f \<Rightarrow> Some (Inl f)
                 | Inr same \<Rightarrow> if same then prefix_loop m i' n j' else Some (Inr False)))"

definition isPrefixOf :: "pointer_in \<Rightarrow> pointer_in \<Rightarrow> bool res option" where
  "isPrefixOf p q =
     (case run_then (iterator_over p) (\<lambda>i. run_then (iterator_over q) (\<lambda>j. Inr (i, j))) of
        Inl f \<Rightarrow> Some (Inl f)
      | Inr (i, j) \<Rightarrow> prefix_loop (fst p) i (fst q) j)"

end
