(* ===== verification/MongoOrder.thy ===== *)
theory MongoOrder
imports MongoCompare
begin

text \<open>
  What the comparison of documents is: an order of documents as trees, which the comparison of the bytes
  computes. The locale \<open>comparison\<close> holds the laws a function that compares has to keep, and how comparisons are put
  together.
\<close>

section \<open>Comparisons\<close>

locale comparison =
  fixes cmp :: "'a \<Rightarrow> 'a \<Rightarrow> int" and P :: "'a \<Rightarrow> bool"
  assumes opposite: "P x \<Longrightarrow> P y \<Longrightarrow> sgn (cmp y x) = - sgn (cmp x y)"
    and chain: "P x \<Longrightarrow> P y \<Longrightarrow> P z \<Longrightarrow> cmp x y \<le> 0 \<Longrightarrow> cmp y z \<le> 0 \<Longrightarrow> cmp x z \<le> 0"
begin

lemma same: "P x \<Longrightarrow> cmp x x = 0"
  using opposite[of x x] by (simp add: sgn_if split: if_splits)

lemma flip:
  assumes "P x" "P y"
  shows "cmp y x = 0 \<longleftrightarrow> cmp x y = 0" "cmp y x \<le> 0 \<longleftrightarrow> 0 \<le> cmp x y" "0 \<le> cmp y x \<longleftrightarrow> cmp x y \<le> 0"
  using opposite[OF assms] by (auto simp: sgn_if split: if_splits)

lemma equal_left:
  assumes "P x" "P y" "P z" "cmp x y = 0"
  shows "sgn (cmp x z) = sgn (cmp y z)"
proof -
  have "cmp x z \<le> 0 \<longleftrightarrow> cmp y z \<le> 0"
    using chain[of x y z] chain[of y x z] flip[of x y] assms by force
  moreover have "cmp z x \<le> 0 \<longleftrightarrow> cmp z y \<le> 0"
    using chain[of z x y] chain[of z y x] flip[of x y] assms by force
  ultimately show ?thesis using flip(2)[of x z] flip(2)[of y z] assms by (auto simp: sgn_if)
qed

lemma strict_chain:
  assumes "P x" "P y" "P z" "cmp x y < 0" "cmp y z \<le> 0"
  shows "cmp x z < 0"
proof (rule ccontr)
  assume "\<not> cmp x z < 0"
  then have "cmp z x \<le> 0" using flip(2)[of x z] assms(1,3) by simp
  then have "cmp y x \<le> 0" using chain[of y z x] assms by blast
  then show False using flip(2)[of x y] assms by simp
qed

text \<open>What comes of a chain when ties are left to \<open>d\<close>.\<close>

lemma tie_chain:
  assumes "P x" "P y" "P z" "(if cmp x y \<noteq> 0 then cmp x y else d1) \<le> 0" "(if cmp y z \<noteq> 0 then cmp y z else d2) \<le> 0"
    and "cmp x y = 0 \<Longrightarrow> cmp y z = 0 \<Longrightarrow> cmp x z = 0 \<Longrightarrow> d1 \<le> 0 \<Longrightarrow> d2 \<le> 0 \<Longrightarrow> d3 \<le> 0"
  shows "(if cmp x z \<noteq> 0 then cmp x z else d3) \<le> 0"
proof -
  consider "cmp x y < 0" "cmp y z \<le> 0" | "cmp x y = 0" "cmp y z < 0" | "cmp x y = 0" "cmp y z = 0" "d1 \<le> 0" "d2 \<le> 0"
    using assms(4,5) by (cases "cmp x y = 0"; cases "cmp y z = 0") auto
  then show ?thesis
  proof cases
    case 1
    then show ?thesis using strict_chain[OF assms(1-3)] by simp
  next
    case 2
    then show ?thesis using equal_left[OF assms(1-3)] by (simp add: sgn_if split: if_splits)
  next
    case 3
    then have "cmp x z = 0" using equal_left[OF assms(1-3)] by (simp add: sgn_if split: if_splits)
    then show ?thesis using assms(6) 3 by simp
  qed
qed

lemma tie_opposite:
  assumes "P x" "P y" "cmp x y = 0 \<Longrightarrow> sgn d2 = - sgn d1"
  shows "sgn (if cmp y x \<noteq> 0 then cmp y x else d2) = - sgn (if cmp x y \<noteq> 0 then cmp x y else d1)"
  using opposite[OF assms(1,2)] flip(1)[OF assms(1,2)] assms(3) by simp

lemma restrict: "(\<And>x. Q x \<Longrightarrow> P x) \<Longrightarrow> comparison cmp Q"
  by unfold_locales (auto intro: opposite chain)

text \<open>The other way round.\<close>

lemma reversed: "comparison (\<lambda>x y. - cmp x y) P"
proof
  show "sgn (- cmp y x) = - sgn (- cmp x y)" if "P x" "P y" for x y using opposite[OF that] by (simp add: sgn_minus)
  show "- cmp x z \<le> 0" if "P x" "P y" "P z" "- cmp x y \<le> 0" "- cmp y z \<le> 0" for x y z
    using chain[of z y x] flip(2)[of x y] flip(2)[of y z] flip(2)[of x z] that by simp
qed

lemma keyed:
  "(\<And>x y. Q x \<Longrightarrow> Q y \<Longrightarrow> cmp' x y = cmp (key x) (key y)) \<Longrightarrow> (\<And>x. Q x \<Longrightarrow> P (key x)) \<Longrightarrow> comparison cmp' Q"
  by unfold_locales (auto intro: opposite chain)

end

text \<open>First by one comparison, then by another one that only has to compare what the first takes for equal.\<close>

definition then_by :: "('a \<Rightarrow> 'a \<Rightarrow> int) \<Rightarrow> ('a \<Rightarrow> 'a \<Rightarrow> int) \<Rightarrow> 'a \<Rightarrow> 'a \<Rightarrow> int" where
  "then_by c d x y = (if c x y \<noteq> 0 then c x y else d x y)"

lemma then_by_cong [fundef_cong]:
  "x = x' \<Longrightarrow> y = y' \<Longrightarrow> c x' y' = c' x' y' \<Longrightarrow> d x' y' = d' x' y' \<Longrightarrow> then_by c d x y = then_by c' d' x' y'"
  by (simp add: then_by_def)

lemma then_by_comparison:
  assumes "comparison c P" "\<And>a. P a \<Longrightarrow> comparison d (\<lambda>x. P x \<and> c a x = 0)"
  shows "comparison (then_by c d) P"
proof
  fix x y
  assume P: "P x" "P y"
  show "sgn (then_by c d y x) = - sgn (then_by c d x y)"
    unfolding then_by_def
    using comparison.opposite[OF assms(2)[OF P(1)], of x y] comparison.same[OF assms(1)] P
    by (intro comparison.tie_opposite[OF assms(1)]) auto
next
  fix x y z
  assume P: "P x" "P y" "P z" and le: "then_by c d x y \<le> 0" "then_by c d y z \<le> 0"
  show "then_by c d x z \<le> 0"
    unfolding then_by_def
    using comparison.chain[OF assms(2)[OF P(1)], of x y z] comparison.same[OF assms(1)] P
    by (intro comparison.tie_chain[OF assms(1) P le[unfolded then_by_def]]) auto
qed

text \<open>Lists, by their first difference.\<close>

fun list_cmp :: "('a \<Rightarrow> 'a \<Rightarrow> int) \<Rightarrow> 'a list \<Rightarrow> 'a list \<Rightarrow> int" where
  "list_cmp c [] [] = 0"
| "list_cmp c [] (y # ys) = - 1"
| "list_cmp c (x # xs) [] = 1"
| "list_cmp c (x # xs) (y # ys) = (if c x y \<noteq> 0 then c x y else list_cmp c xs ys)"

lemma list_cmp_cong [fundef_cong]:
  "xs = xs' \<Longrightarrow> ys = ys' \<Longrightarrow> (\<And>x y. x \<in> set xs' \<Longrightarrow> y \<in> set ys' \<Longrightarrow> c x y = c' x y) \<Longrightarrow>
    list_cmp c xs ys = list_cmp c' xs' ys'"
  by (induction c xs' ys' arbitrary: xs ys rule: list_cmp.induct) auto

lemma list_cmp_comparison:
  assumes "comparison c P"
  shows "comparison (list_cmp c) (\<lambda>xs. \<forall>x \<in> set xs. P x)"
proof
  fix xs ys
  assume "\<forall>x \<in> set xs. P x" "\<forall>y \<in> set ys. P y"
  then show "sgn (list_cmp c ys xs) = - sgn (list_cmp c xs ys)"
  proof (induction xs ys rule: list_induct2')
    case (4 x xs y ys)
    then show ?case unfolding list_cmp.simps by (intro comparison.tie_opposite[OF assms]) simp_all
  qed simp_all
next
  fix xs ys zs
  assume "\<forall>x \<in> set xs. P x" "\<forall>y \<in> set ys. P y" "\<forall>z \<in> set zs. P z"
    "list_cmp c xs ys \<le> 0" "list_cmp c ys zs \<le> 0"
  then show "list_cmp c xs zs \<le> 0"
  proof (induction ys arbitrary: xs zs)
    case Nil
    then have "xs = []" by (cases xs) auto
    then show ?case by (cases zs) auto
  next
    case (Cons y ys)
    obtain z zs' where zs: "zs = z # zs'" using Cons.prems(5) by (cases zs) auto
    show ?case
    proof (cases xs)
      case Nil
      then show ?thesis by (simp add: zs)
    next
      case xs: (Cons x xs')
      have P: "P x" "P y" "P z" using Cons.prems(1-3)[unfolded xs zs] by simp_all
      show ?thesis
        unfolding xs zs list_cmp.simps
      proof (rule comparison.tie_chain[OF assms P Cons.prems(4,5)[unfolded xs zs list_cmp.simps]])
        assume "list_cmp c xs' ys \<le> 0" "list_cmp c ys zs' \<le> 0"
        then show "list_cmp c xs' zs' \<le> 0"
          using Cons.prems(1-3)[unfolded xs zs] by - (rule Cons.IH, simp_all)
      qed
    qed
  qed
qed

section \<open>What is compared\<close>

interpretation ints: comparison "\<lambda>a b :: int. a - b" "\<lambda>_. True"
  by unfold_locales (auto simp: sgn_if)

interpretation signs: comparison sign_of "\<lambda>_. True"
  by unfold_locales (auto simp: sign_of_def split: if_splits)

interpretation bytes: comparison bytes_cmp "\<lambda>_. True"
  by unfold_locales (auto simp: bytes_cmp_def split: if_splits)

text \<open>Doubles are compared by their places, with NaN before the first.\<close>

definition d_key :: "float64 \<Rightarrow> int" where
  "d_key d = (if d_isnan d then - (2 ^ 64) else d_place d)"

lemma d_place_bounds: "\<bar>d_place d\<bar> < 2 ^ 63"
proof -
  have "unat d mod 2 ^ 63 < 2 ^ 63" by simp
  then have "int (unat d mod 2 ^ 63) < 2 ^ 63" by (metis of_nat_less_iff of_nat_numeral of_nat_power)
  moreover have "\<bar>d_place d\<bar> = int (unat d mod 2 ^ 63)"
    unfolding d_place_def Let_def by (simp only: abs_minus_cancel abs_of_nat if_distrib[of abs] if_cancel)
  ultimately show ?thesis by (simp only:)
qed

lemma double_cmp_key: "double_cmp l r = sign_of (d_key l) (d_key r)"
  using d_place_bounds[of l] d_place_bounds[of r]
  by (cases "d_isnan l"; cases "d_isnan r") (auto simp: double_cmp_def double_less_def double_eq_def sign_of_def d_key_def)

interpretation doubles: comparison double_cmp "\<lambda>_. True"
  by (rule signs.keyed[of _ _ d_key]) (simp_all add: double_cmp_key)

section \<open>Documents as trees\<close>

text \<open>
  An object or an array is its fields; every other value is its bytes, also the scope of a piece of code, which is
  not compared as a document.
\<close>

datatype tree = Leaf BSONType string | Node BSONType "(string \<times> tree) list"

fun tree_type :: "tree \<Rightarrow> BSONType" where
  "tree_type (Leaf t v) = t"
| "tree_type (Node t fs) = t"

fun tree_value :: "tree \<Rightarrow> string" where
  "tree_value (Leaf t v) = v"
| "tree_value (Node t fs) = obj_bytes (map (\<lambda>(f, a). (tree_type a, f, tree_value a)) fs)"

definition raw_field :: "string \<times> tree \<Rightarrow> raw" where
  "raw_field p = (tree_type (snd p), fst p, tree_value (snd p))"

definition doc_bytes :: "(string \<times> tree) list \<Rightarrow> BSONObj" where
  "doc_bytes fs = obj_bytes (map raw_field fs)"

lemma tree_value_Node [simp]: "tree_value (Node t fs) = doc_bytes fs"
  by (simp add: doc_bytes_def raw_field_def case_prod_beta cong: map_cong)

declare tree_value.simps(2) [simp del]

text \<open>The trees of typed documents, with a condition on their leaves.\<close>

fun tree_ok :: "(BSONType \<Rightarrow> string \<Rightarrow> bool) \<Rightarrow> tree \<Rightarrow> bool" where
  "tree_ok P (Leaf t v) \<longleftrightarrow> \<not> isABSONObj t \<and> typed_value t v \<and> P t v"
| "tree_ok P (Node t fs) \<longleftrightarrow> isABSONObj t \<and> (\<forall>(f, a) \<in> set fs. NUL \<notin> set f \<and> tree_ok P a) \<and>
     int (length (doc_bytes fs)) \<le> BSONObjMaxInternalSize"

definition doc_ok :: "(BSONType \<Rightarrow> string \<Rightarrow> bool) \<Rightarrow> (string \<times> tree) list \<Rightarrow> bool" where
  "doc_ok P fs \<longleftrightarrow> tree_ok P (Node ObjectType fs)"

section \<open>The order of trees\<close>

lemma size_field [termination_simp]:
  "(f, a) \<in> set fs \<Longrightarrow> size a < Suc (size_list (\<lambda>x. Suc (size (snd x))) fs)"
  by (induction fs) auto

definition rank :: "BSONType \<Rightarrow> int" where
  "rank t = (case canonicalType t of Inl _ \<Rightarrow> 0 | Inr n \<Rightarrow> n)"

definition as_double :: "BSONType \<Rightarrow> string \<Rightarrow> float64" where
  "as_double t v =
     (if t = NumberDouble then word_of_nat (le_nat v) else int_to_double (int_le v))"

text \<open>Two C strings, one after the other.\<close>

definition c_pair :: "string \<Rightarrow> string list" where
  "c_pair v = [c_str v, c_str (drop (length (c_str v) + 1) v)]"

definition leaf_cmp :: "BSONType \<Rightarrow> string \<Rightarrow> BSONType \<Rightarrow> string \<Rightarrow> int" where
  "leaf_cmp t v u w =
     (if t = BoolType then int_le v - int_le w
      else if t = Timestamp then sign_of (int (le_nat v)) (int (le_nat w))
      else if t = DateType then sign_of (int_le v) (int_le w)
      else if isNumber t then
        if t = u \<and> t \<noteq> NumberDouble then sign_of (int_le v) (int_le w) else double_cmp (as_double t v) (as_double u w)
      else if t = jstOID then bytes_cmp v w
      else if t \<in> {Code, Symbol, StringType} then bytes_cmp (drop 4 v) (drop 4 w)
      else if t = DBRef then then_by (\<lambda>v w. int (length v) - int (length w)) bytes_cmp v w
      else if t = BinData then then_by (\<lambda>v w. int (length v) - int (length w)) (\<lambda>v w. bytes_cmp (drop 4 v) (drop 4 w)) v w
      else if t = RegEx then list_cmp bytes_cmp (c_pair v) (c_pair w)
      else if t = CodeWScope then list_cmp bytes_cmp (c_pair (drop 8 v)) (c_pair (drop 8 w))
      else 0)"

fun tree_cmp :: "tree \<Rightarrow> tree \<Rightarrow> int" where
  "tree_cmp (Leaf t v) (Leaf u w) = leaf_cmp t v u w"
| "tree_cmp (Node t fs) (Node u gs) =
     list_cmp (then_by (\<lambda>p q. rank (tree_type (snd p)) - rank (tree_type (snd q)))
       (then_by (\<lambda>p q. bytes_cmp (fst p) (fst q)) (\<lambda>p q. tree_cmp (snd p) (snd q)))) fs gs"
| "tree_cmp _ _ = 0"

section \<open>Small integers as doubles keep their order\<close>

definition place_of :: "nat \<Rightarrow> nat" where
  "place_of a = (1023 + top_bit a) * 2 ^ 52 + (a - 2 ^ top_bit a) * 2 ^ (52 - top_bit a)"

lemma top_bit_small: "0 < a \<Longrightarrow> a < 2 ^ 53 \<Longrightarrow> top_bit a \<le> 52"
proof -
  assume "0 < a" "a < 2 ^ 53"
  then have "(2 :: nat) ^ top_bit a < 2 ^ 53" using top_bit_bounds[of a] by linarith
  then have "top_bit a < 53" by (rule power_less_imp_less_exp[rotated]) simp
  then show "top_bit a \<le> 52" by simp
qed

lemma mantissa_small:
  assumes "0 < a" "a < 2 ^ 53"
  shows "(a - 2 ^ top_bit a) * 2 ^ (52 - top_bit a) < 2 ^ 52"
proof -
  have k: "top_bit a \<le> 52" by (rule top_bit_small[OF assms])
  have "a - 2 ^ top_bit a < 2 ^ top_bit a" using top_bit_bounds[OF assms(1)] unfolding power_Suc by linarith
  then have "(a - 2 ^ top_bit a) * 2 ^ (52 - top_bit a) < 2 ^ top_bit a * 2 ^ (52 - top_bit a)" by simp
  also have "\<dots> = 2 ^ 52" using k by (simp add: power_add[symmetric])
  finally show ?thesis .
qed

lemma place_of_mono:
  assumes "0 < a" "a < b" "b < 2 ^ 53"
  shows "place_of a < place_of b"
proof -
  have b: "0 < b" "a < 2 ^ 53" using assms by simp_all
  note ta = top_bit_bounds[OF assms(1)] and tb = top_bit_bounds[OF b(1)]
  have "(2 :: nat) ^ top_bit a < 2 ^ Suc (top_bit b)" using ta tb assms(2) by linarith
  then have "top_bit a < Suc (top_bit b)" by (rule power_less_imp_less_exp[rotated]) simp
  then consider "top_bit a = top_bit b" | "top_bit a < top_bit b" by linarith
  then show ?thesis
  proof cases
    case 1
    have "a - 2 ^ top_bit b < b - 2 ^ top_bit b" using ta assms(2) by (intro diff_less_mono) (simp_all add: 1)
    then show ?thesis by (simp add: place_of_def 1)
  next
    case 2
    then have "(1023 + top_bit a) * 2 ^ 52 + 2 ^ 52 \<le> (1023 + top_bit b) * (2 ^ 52 :: nat)" by simp
    then show ?thesis using mantissa_small[OF assms(1) b(2)] unfolding place_of_def by linarith
  qed
qed

lemma int_to_double_small:
  assumes "\<bar>n\<bar> < 2 ^ 53" "n \<noteq> 0"
  shows "d_key (int_to_double n) = sgn n * int (place_of (nat \<bar>n\<bar>))"
proof -
  let ?s = "if n < 0 then 1 else 0 :: nat" and ?a = "nat \<bar>n\<bar>"
  have a: "0 < ?a" "?a < 2 ^ 53" using assms by (simp_all add: nat_less_iff)
  note k = top_bit_small[OF a] and m = mantissa_small[OF a]
  let ?e = "1023 + top_bit ?a" and ?m = "(?a - 2 ^ top_bit ?a) * 2 ^ (52 - top_bit ?a)"
  have d: "int_to_double n = pack64 ?s ?e ?m" using a k by (simp add: int_to_double_def Let_def)
  have s: "?s < 2" and e: "?e < 2 ^ 11" using k by simp_all
  have p: "place_of ?a < 2 ^ 63"
  proof -
    have "?e * 2 ^ 52 \<le> 1075 * 2 ^ 52" using k by (intro mult_right_mono) simp_all
    then show ?thesis using m unfolding place_of_def by simp
  qed
  have u: "unat (pack64 ?s ?e ?m) = ?s * 2 ^ 63 + place_of ?a"
    using unat_pack64[OF s e m] unfolding place_of_def by (simp only: add.assoc)
  have "?e \<noteq> 2047" using k by linarith
  then have nan: "\<not> d_isnan (pack64 ?s ?e ?m)" unfolding d_isnan_def fields_pack64[OF s e m] by simp
  have "unat (pack64 ?s ?e ?m) mod 2 ^ 63 = place_of ?a" unfolding u using p by (subst mod_mult_self3) simp
  moreover have "unat (pack64 ?s ?e ?m) < 2 ^ 63 \<longleftrightarrow> 0 < n" unfolding u using p assms(2) by auto
  ultimately have "d_key (int_to_double n) = (if 0 < n then int (place_of ?a) else - int (place_of ?a))"
    using nan unfolding d d_key_def d_place_def Let_def by (simp only: if_False)
  then show ?thesis using assms(2) by (simp add: sgn_if)
qed

lemma place_of_pos: "0 < place_of a"
  by (simp add: place_of_def)

lemma int_to_double_less:
  assumes "\<bar>m\<bar> < 2 ^ 53" "\<bar>n\<bar> < 2 ^ 53" "m < n"
  shows "d_key (int_to_double m) < d_key (int_to_double n)"
proof -
  have z: "d_key (int_to_double 0) = 0"
    using unat_pack64[of 0 0 0] by (simp add: int_to_double_def d_key_def d_isnan_def d_place_def)
  consider "0 < m" | "n < 0" | "m \<le> 0" "0 \<le> n" by linarith
  then show ?thesis
  proof cases
    case 1
    then have "place_of (nat \<bar>m\<bar>) < place_of (nat \<bar>n\<bar>)" using assms by (intro place_of_mono) (auto simp: nat_less_iff)
    then show ?thesis using 1 assms int_to_double_small[of m] int_to_double_small[of n] by simp
  next
    case 2
    then have "place_of (nat \<bar>n\<bar>) < place_of (nat \<bar>m\<bar>)" using assms by (intro place_of_mono) (auto simp: nat_less_iff)
    then show ?thesis using 2 assms int_to_double_small[of m] int_to_double_small[of n] by simp
  next
    case 3
    then have "d_key (int_to_double m) \<le> 0" "0 \<le> d_key (int_to_double n)" "m = 0 \<or> d_key (int_to_double m) < 0"
      "n = 0 \<or> 0 < d_key (int_to_double n)"
      using int_to_double_small[OF assms(1)] int_to_double_small[OF assms(2)] z place_of_pos
      by (cases "m = 0"; cases "n = 0"; simp)+
    then show ?thesis using assms(3) by linarith
  qed
qed

lemma double_cmp_ints:
  assumes "\<bar>m\<bar> < 2 ^ 53" "\<bar>n\<bar> < 2 ^ 53"
  shows "double_cmp (int_to_double m) (int_to_double n) = sign_of m n"
  using int_to_double_less[OF assms] int_to_double_less[OF assms(2,1)]
  by (cases m n rule: linorder_cases) (auto simp: double_cmp_key sign_of_def)

section \<open>The order of documents\<close>

text \<open>
  Documents whose numbers are the doubles they are compared as: a long is no longer than the 53 bits of a
  double. Timestamps are left out: a date refuses to be compared with one.
\<close>

definition exact :: "BSONType \<Rightarrow> string \<Rightarrow> bool" where
  "exact t v \<longleftrightarrow> t \<noteq> Timestamp \<and> (t = NumberLong \<longrightarrow> \<bar>int_le v\<bar> < 2 ^ 53)"

lemma sized_cmp: "comparison (then_by (\<lambda>v w. int (length v) - int (length w)) (\<lambda>v w. bytes_cmp (key v) (key w))) (\<lambda>_. True)"
proof (rule then_by_comparison)
  show "comparison (\<lambda>v w. int (length v) - int (length w)) (\<lambda>_. True)"
    by (rule ints.keyed[of _ _ "\<lambda>v. int (length v)"]) simp_all
  show "comparison (\<lambda>v w. bytes_cmp (key v) (key w)) Q" for Q by (rule bytes.keyed[of _ _ key]) simp_all
qed

interpretation pairs: comparison "list_cmp bytes_cmp" "\<lambda>_. True"
  using list_cmp_comparison[OF bytes.comparison_axioms] by simp

lemma rank_typed:
  assumes "well_sized t v" "well_sized u w" "rank t = rank u" "t \<noteq> u" "t \<noteq> Timestamp" "u \<noteq> Timestamp"
  shows "isNumber t \<and> isNumber u \<or> t \<in> {StringType, Symbol} \<and> u \<in> {StringType, Symbol}"
  using assms by (cases t; cases u) (simp_all add: rank_def canonicalType_def well_sized_def isNumber_def)

lemma leaf_cmp_number:
  assumes "exact t v" "exact u w" "isNumber t" "isNumber u" "well_sized t v" "well_sized u w"
  shows "leaf_cmp t v u w = double_cmp (as_double t v) (as_double u w)"
proof -
  have small: "\<bar>int_le v\<bar> < 2 ^ 53" if "t = NumberInt" "well_sized t v" for t v
  proof -
    have "length v = 4" using that by (simp add: well_sized_def)
    then have "le_nat v < 2 ^ 32" using le_nat_bound[of v] by simp
    then show ?thesis by (simp add: int_le_def Let_def \<open>length v = 4\<close>)
  qed
  have "double_cmp (as_double t v) (as_double t w) = sign_of (int_le v) (int_le w)" if "t = u" "t \<noteq> NumberDouble"
    using assms that small[of t v] small[of t w] by (auto simp: as_double_def isNumber_def exact_def intro!: double_cmp_ints)
  then show ?thesis using assms(3) by (auto simp: leaf_cmp_def isNumber_def)
qed

definition leaf_like :: "BSONType \<Rightarrow> BSONType \<times> string \<Rightarrow> bool" where
  "leaf_like t0 p \<longleftrightarrow> (case p of (t, v) \<Rightarrow> typed_value t v \<and> exact t v \<and> \<not> isABSONObj t \<and> rank t = rank t0)"

lemma leaf_comparison:
  assumes "well_sized t0 v0" "t0 \<noteq> Timestamp"
  shows "comparison (\<lambda>p q. leaf_cmp (fst p) (snd p) (fst q) (snd q)) (leaf_like t0)"
proof -
  note r = rank_typed[OF _ assms(1)]
  have like: "well_sized t v \<and> exact t v \<and> (t = t0 \<or> isNumber t \<and> isNumber t0 \<or> t \<in> {StringType, Symbol} \<and> t0 \<in> {StringType, Symbol})"
    if "leaf_like t0 (t, v)" for t v
    using that r[of t v] assms(2) typed_well_sized[of t v] by (auto simp: leaf_like_def exact_def)
  have by_value: "comparison (\<lambda>p q. leaf_cmp (fst p) (snd p) (fst q) (snd q)) (leaf_like t0)"
    if "comparison c (\<lambda>_. True)" "\<not> isNumber t0"
      "\<And>t v u w. t = t0 \<or> t \<in> {StringType, Symbol} \<and> t0 \<in> {StringType, Symbol} \<Longrightarrow> leaf_cmp t v u w = c (key v) (key w)"
    for c :: "'k \<Rightarrow> 'k \<Rightarrow> int" and key
    by (rule comparison.keyed[OF that(1), where key = "\<lambda>p. key (snd p)"]) (use like that(2,3) in \<open>metis prod.collapse\<close>)+
  consider "isNumber t0" | "t0 \<in> {StringType, Symbol, Code}" | "t0 = BoolType" | "t0 = DateType" | "t0 = jstOID" | "t0 = DBRef"
    | "t0 = BinData" | "t0 = RegEx" | "t0 = CodeWScope"
    | "t0 \<in> {UndefinedType, jstNULL, MaxKey, MinKey, ObjectType, ArrayType}"
    using assms by (cases t0) (simp_all add: isNumber_def well_sized_def)
  then show ?thesis
  proof cases
    case 1
    show ?thesis
    proof (rule doubles.keyed[where key = "\<lambda>p. as_double (fst p) (snd p)"])
      fix p q
      assume "leaf_like t0 p" "leaf_like t0 q"
      then have "isNumber (fst p)" "isNumber (fst q)" "well_sized (fst p) (snd p)" "well_sized (fst q) (snd q)"
        "exact (fst p) (snd p)" "exact (fst q) (snd q)"
        using like[of "fst p" "snd p"] like[of "fst q" "snd q"] 1 by (auto simp: isNumber_def)
      then show "leaf_cmp (fst p) (snd p) (fst q) (snd q) =
          double_cmp (as_double (fst p) (snd p)) (as_double (fst q) (snd q))" by (intro leaf_cmp_number)
    qed simp
  next
    case 2
    show ?thesis by (rule by_value[OF bytes.comparison_axioms, of "drop 4"]) (use 2 in \<open>auto simp: leaf_cmp_def isNumber_def\<close>)
  next
    case 3
    show ?thesis by (rule by_value[OF ints.comparison_axioms, of int_le]) (use 3 in \<open>auto simp: leaf_cmp_def isNumber_def\<close>)
  next
    case 4
    show ?thesis by (rule by_value[OF signs.comparison_axioms, of int_le]) (use 4 in \<open>auto simp: leaf_cmp_def isNumber_def\<close>)
  next
    case 5
    show ?thesis by (rule by_value[OF bytes.comparison_axioms, of "\<lambda>v. v"]) (use 5 in \<open>auto simp: leaf_cmp_def isNumber_def\<close>)
  next
    case 6
    show ?thesis
      by (rule by_value[OF sized_cmp[where key = "\<lambda>v. v"], of "\<lambda>v. v"]) (use 6 in \<open>auto simp: leaf_cmp_def isNumber_def\<close>)
  next
    case 7
    show ?thesis
      by (rule by_value[OF sized_cmp[where key = "drop 4"], of "\<lambda>v. v"]) (use 7 in \<open>auto simp: leaf_cmp_def isNumber_def\<close>)
  next
    case 8
    show ?thesis by (rule by_value[OF pairs.comparison_axioms, of c_pair]) (use 8 in \<open>auto simp: leaf_cmp_def isNumber_def\<close>)
  next
    case 9
    show ?thesis
      by (rule by_value[OF pairs.comparison_axioms, of "\<lambda>v. c_pair (drop 8 v)"])
        (use 9 in \<open>auto simp: leaf_cmp_def isNumber_def\<close>)
  next
    case 10
    show ?thesis by (rule by_value[OF ints.comparison_axioms, of "\<lambda>_. 0"]) (use 10 in \<open>auto simp: leaf_cmp_def isNumber_def\<close>)
  qed
qed

text \<open>Fields are compared by the ranks of their types, then by their names, then by their values.\<close>

definition field_cmp :: "string \<times> tree \<Rightarrow> string \<times> tree \<Rightarrow> int" where
  "field_cmp = then_by (\<lambda>p q. rank (tree_type (snd p)) - rank (tree_type (snd q)))
     (then_by (\<lambda>p q. bytes_cmp (fst p) (fst q)) (\<lambda>p q. tree_cmp (snd p) (snd q)))"

definition doc_cmp :: "(string \<times> tree) list \<Rightarrow> (string \<times> tree) list \<Rightarrow> int" where
  "doc_cmp = list_cmp field_cmp"

lemma tree_cmp_Node: "tree_cmp (Node t fs) (Node u gs) = doc_cmp fs gs"
  by (simp add: doc_cmp_def field_cmp_def)

lemma field_comparison:
  assumes "\<And>r. comparison tree_cmp (\<lambda>x. S x \<and> rank (tree_type x) = r)"
  shows "comparison field_cmp (\<lambda>p. S (snd p))"
  unfolding field_cmp_def
proof (intro then_by_comparison)
  show "comparison (\<lambda>p q. rank (tree_type (snd p)) - rank (tree_type (snd q))) (\<lambda>p. S (snd p))"
    by (rule ints.keyed[where key = "\<lambda>p. rank (tree_type (snd p))"]) simp_all
next
  fix a :: "string \<times> tree"
  show "comparison (\<lambda>p q. bytes_cmp (fst p) (fst q)) (\<lambda>p. S (snd p) \<and> rank (tree_type (snd a)) - rank (tree_type (snd p)) = 0)"
    by (rule bytes.keyed[where key = fst]) simp_all
next
  fix a b :: "string \<times> tree"
  show "comparison (\<lambda>p q. tree_cmp (snd p) (snd q))
      (\<lambda>p. (S (snd p) \<and> rank (tree_type (snd a)) - rank (tree_type (snd p)) = 0) \<and> bytes_cmp (fst b) (fst p) = 0)"
    by (rule comparison.keyed[OF assms[of "rank (tree_type (snd a))"], where key = snd]) auto
qed

lemma size_in_Node: "p \<in> set fs \<Longrightarrow> size (snd p) < size (Node t fs)"
  by (induction fs) auto

fun children :: "tree \<Rightarrow> (string \<times> tree) list" where
  "children (Leaf t v) = []"
| "children (Node t fs) = fs"

lemma leaf_rank: "typed_value t v \<Longrightarrow> \<not> isABSONObj t \<Longrightarrow> isABSONObj u \<Longrightarrow> rank t \<noteq> rank u"
  by (drule typed_well_sized) (cases t; cases u; simp add: rank_def canonicalType_def isABSONObj_def well_sized_def)

lemma vacuous: "(\<And>x. \<not> P x) \<Longrightarrow> comparison c P"
  by unfold_locales auto

lemma tree_comparison: "comparison tree_cmp (\<lambda>x. (size x < n \<and> tree_ok exact x) \<and> rank (tree_type x) = r)"
proof (induction n arbitrary: r)
  case 0
  show ?case by (rule vacuous) simp
next
  case (Suc n)
  let ?D = "\<lambda>x. (size x < Suc n \<and> tree_ok exact x) \<and> rank (tree_type x) = r"
  consider (none) "\<And>x. \<not> ?D x" | (leaf) t v where "?D (Leaf t v)" | (node) t fs where "?D (Node t fs)"
    by (metis tree.exhaust)
  then show ?case
  proof cases
    case none
    then show ?thesis by (rule vacuous)
  next
    case leaf
    then have t: "typed_value t v" "\<not> isABSONObj t" "exact t v" "rank t = r" by simp_all
    have D: "\<exists>u w. x = Leaf u w \<and> leaf_like t (u, w)" if "?D x" for x
      using that leaf_rank[OF t(1,2), of "tree_type x"] t(4) by (cases x) (auto simp: leaf_like_def)
    show ?thesis
    proof (rule comparison.keyed[OF leaf_comparison[of t v], where key = "\<lambda>x. (tree_type x, tree_value x)"])
      show "well_sized t v" "t \<noteq> Timestamp" using t by (simp_all add: exact_def typed_well_sized)
      show "tree_cmp x y = leaf_cmp (fst (tree_type x, tree_value x)) (snd (tree_type x, tree_value x))
          (fst (tree_type y, tree_value y)) (snd (tree_type y, tree_value y))" if "?D x" "?D y" for x y
        using D[OF that(1)] D[OF that(2)] by auto
      show "leaf_like t (tree_type x, tree_value x)" if "?D x" for x using D[OF that] by auto
    qed
  next
    case node
    then have t: "isABSONObj t" "rank t = r" by simp_all
    have D: "\<exists>u gs. x = Node u gs \<and> (\<forall>p \<in> set gs. size (snd p) < n \<and> tree_ok exact (snd p))" if x: "?D x" for x
    proof (cases x)
      case (Leaf u w)
      then show ?thesis using x t leaf_rank[of u w t] by auto
    next
      case (Node u gs)
      have "size (snd p) < n \<and> tree_ok exact (snd p)" if "p \<in> set gs" for p
        using x Node size_in_Node[OF that, of u] that by (auto simp: case_prod_beta)
      then show ?thesis using Node by blast
    qed
    have "comparison doc_cmp (\<lambda>gs. \<forall>p \<in> set gs. size (snd p) < n \<and> tree_ok exact (snd p))"
      unfolding doc_cmp_def using list_cmp_comparison[OF field_comparison[OF Suc.IH]] .
    then show ?thesis
    proof (rule comparison.keyed[where key = children])
      show "tree_cmp x y = doc_cmp (children x) (children y)" if "?D x" "?D y" for x y
        using D[OF that(1)] D[OF that(2)] by (auto simp: tree_cmp_Node simp del: tree_cmp.simps)
      show "\<forall>p \<in> set (children x). size (snd p) < n \<and> tree_ok exact (snd p)" if "?D x" for x using D[OF that] by auto
    qed
  qed
qed

text \<open>Documents are compared by an order.\<close>

lemma comparison_bounded:
  assumes "\<And>n :: nat. comparison c (\<lambda>x. m x < n \<and> P x)"
  shows "comparison c P"
proof
  show "sgn (c y x) = - sgn (c x y)" if "P x" "P y" for x y
    using comparison.opposite[OF assms[of "Suc (max (m x) (m y))"], of x y] that by simp
  show "c x z \<le> 0" if "P x" "P y" "P z" "c x y \<le> 0" "c y z \<le> 0" for x y z
    using comparison.chain[OF assms[of "Suc (m x + m y + m z)"], of x y z] that by simp
qed

interpretation docs: comparison doc_cmp "doc_ok exact"
proof (rule comparison_bounded)
  fix n
  have "comparison tree_cmp (\<lambda>x. (size x < n \<and> tree_ok exact x) \<and> rank (tree_type x) = rank ObjectType)"
    by (rule tree_comparison)
  then show "comparison doc_cmp (\<lambda>fs. size (Node ObjectType fs) < n \<and> doc_ok exact fs)"
    by (rule comparison.keyed[where key = "Node ObjectType"]) (simp_all add: tree_cmp_Node doc_ok_def del: tree_cmp.simps)
qed

section \<open>Reading what stands at a pointer\<close>

definition holds :: "pointer_in \<Rightarrow> string \<Rightarrow> bool" where
  "holds p v \<longleftrightarrow> (\<exists>pre post. fst p = pre @ v @ post \<and> snd p = int (length pre))"

lemma holds_value:
  assumes "at_raw e (t, f, v)" "raw_ok (t, f, v)"
  obtains p where "el_value e = Inr p" "holds p v"
proof -
  obtain pre post where p: "el_value e = Inr (pre @ v @ post, int (length pre))" using el_header(4)[OF assms] by blast
  have "holds (pre @ v @ post, int (length pre)) v" unfolding holds_def fst_conv snd_conv by blast
  with p show thesis by (rule that)
qed

lemma holds_drop:
  assumes "holds p v" "n = int j" "j \<le> length v"
  shows "holds (plus_ptr p n) (drop j v)"
proof -
  obtain pre post where p: "fst p = pre @ v @ post" "snd p = int (length pre)" using assms(1) by (auto simp: holds_def)
  have "fst (plus_ptr p n) = (pre @ take j v) @ drop j v @ post" "snd (plus_ptr p n) = int (length (pre @ take j v))"
    using p assms(2,3) by (simp_all add: plus_ptr_def)
  then show ?thesis unfolding holds_def by blast
qed

lemma holds_read:
  assumes "holds p v" "k \<le> length v"
  shows "read_at p k = Inr (take k v)" "int_at p k = Inr (int_le (take k v))"
proof -
  obtain pre post where p: "fst p = pre @ v @ post" "snd p = int (length pre)" using assms(1) by (auto simp: holds_def)
  then show "read_at p k = Inr (take k v)" using read_at_app[OF p(2,1), of k] assms(2) by simp
  then show "int_at p k = Inr (int_le (take k v))" by (simp add: int_at_def)
qed

lemma read_size_holds: "holds p v \<Longrightarrow> n = int k \<Longrightarrow> k \<le> length v \<Longrightarrow> read_size p n = Inr (take k v)"
  by (simp add: read_size_def holds_read)

lemma holds_string:
  assumes "holds p v" "NUL \<in> set v"
  shows "cstr_at p = Inr (c_str v)" "strlen_at p = Inr (length (c_str v))"
proof -
  obtain pre post where p: "fst p = pre @ v @ post" "snd p = int (length pre)" using assms(1) by (auto simp: holds_def)
  obtain s w where v: "v = s @ NUL # w" "NUL \<notin> set s" using split_list_first[OF assms(2)] by blast
  have "fst p = pre @ s @ NUL # w @ post" using p v by simp
  then show "cstr_at p = Inr (c_str v)" "strlen_at p = Inr (length (c_str v))"
    using cstr_at_app[OF p(2) _ v(2)] strlen_at_app[OF p(2) _ v(2)] v by simp_all
qed

lemma c_str_shorter: "NUL \<in> set v \<Longrightarrow> length (c_str v) + 1 \<le> length v"
proof -
  assume "NUL \<in> set v"
  then obtain s w where v: "v = s @ NUL # w" "NUL \<notin> set s" using split_list_first by metis
  then show "length (c_str v) + 1 \<le> length v" by simp
qed

section \<open>Comparing bytes\<close>

lemma bytes_cmp_simps [simp]:
  "bytes_cmp s s = 0" "bytes_cmp [] (y # ys) = - 1" "bytes_cmp (x # xs) [] = 1"
  "bytes_cmp (x # xs) (y # ys) = (if x < y then - 1 else if x = y then bytes_cmp xs ys else 1)"
  by (auto simp: bytes_cmp_def)

lemma bytes_cmp_zero: "bytes_cmp s u = 0 \<longleftrightarrow> s = u"
  by (simp add: bytes_cmp_def)

lemma sgn_bytes_cmp [simp]: "sgn (bytes_cmp s u) = bytes_cmp s u"
  by (simp add: bytes_cmp_def)

text \<open>The bytes both have, then the lengths: the order of \<open>memcmp\<close> and a difference of sizes.\<close>

definition common_cmp :: "string \<Rightarrow> string \<Rightarrow> int" where
  "common_cmp s u = then_by (\<lambda>s' u'. bytes_cmp (take (min (length s) (length u)) s') (take (min (length s) (length u)) u'))
     (\<lambda>s u. int (length s) - int (length u)) s u"

lemma common_cmp_Cons: "common_cmp (x # s) (y # u) = (if x < y then - 1 else if x = y then common_cmp s u else 1)"
  by (simp add: common_cmp_def then_by_def)

lemma common_cmp_sgn: "sgn (common_cmp s u) = bytes_cmp s u"
proof (induction s u rule: list_induct2')
  case (4 x s y u)
  then show ?case unfolding common_cmp_Cons bytes_cmp_simps(4) by simp
qed (simp_all only: common_cmp_def then_by_def bytes_cmp_simps list.size min_0L min_0R take_0 if_True, simp_all add: sgn_if)

lemma memcmp_at_holds:
  "holds p v \<Longrightarrow> holds q w \<Longrightarrow> n = int k \<Longrightarrow> k \<le> length v \<Longrightarrow> k \<le> length w \<Longrightarrow>
    memcmp_at p q n = Inr (bytes_cmp (take k v) (take k w))"
  by (simp add: memcmp_at_def read_size_holds)

lemma strcmp_at_holds:
  "holds p v \<Longrightarrow> holds q w \<Longrightarrow> NUL \<in> set v \<Longrightarrow> NUL \<in> set w \<Longrightarrow> strcmp_at p q = Inr (bytes_cmp (c_str v) (c_str w))"
  by (simp add: strcmp_at_def holds_string)

section \<open>Comparing values in memory\<close>

definition placed :: "BSONElement \<Rightarrow> BSONType \<Rightarrow> string \<Rightarrow> string \<Rightarrow> pointer_in \<Rightarrow> bool" where
  "placed e t f v p \<longleftrightarrow> el_type e = Inr t \<and> fieldName e = Inr f \<and> el_value e = Inr p \<and> holds p v \<and>
     valuesize e = Inr (int (length v)) \<and> length v < 2 ^ 31 \<and> typed_value t v"

lemma at_raw_placed:
  assumes "at_raw e (t, f, v)" "raw_ok (t, f, v)" "typed_value t v"
  obtains p where "placed e t f v p"
proof -
  obtain p where p: "el_value e = Inr p" "holds p v" by (rule holds_value[OF assms(1,2)])
  note h = el_header[OF assms(1,2)]
  have len: "length (raw_bytes (t, f, v)) = length f + length v + 2" by (simp add: raw_bytes_def)
  have "valuesize e = Inr (int (length v))"
    unfolding valuesize_def el_size_at[OF assms(1,2)] len using h(3) by simp
  moreover have "length v < 2 ^ 31" using assms(2) by (simp add: raw_ok_def raw_bytes_def)
  ultimately show thesis using that h(1,2) p assms(3) by (simp add: placed_def)
qed

lemma placed_int:
  assumes "placed e t f v p" "4 \<le> length v"
  shows "valuestrsize e = Inr (int_le (take 4 v))" "el_objsize e = Inr (int_le (take 4 v))" "el_int e = Inr (int_le (take 4 v))"
    "valuestr e = Inr (plus_ptr p 4)" "holds (plus_ptr p 4) (drop 4 v)"
  using assms holds_read(2)[of p v 4] holds_drop[of p v 4 4]
  by (simp_all add: placed_def valuestrsize_def el_objsize_def el_int_def valuestr_def)

lemma int_sum_length: "m < 2 ^ 31 \<Longrightarrow> n < 2 ^ 31 \<Longrightarrow> int_sum (int m - int n) = Inr (int m - int n)"
  by (auto simp: int_sum_def INT_MIN32_def)

lemma or_else_simp: "or_else (Inr x) (Inr y) = Inr (if x \<noteq> 0 then x else y)"
  by (simp add: or_else_def)

text \<open>What the typing says of the bytes of a value.\<close>

lemma typed_string_bytes:
  assumes "typed_value t v" "t \<in> {Code, Symbol, StringType}"
  obtains s where "v = le_int 4 (int (length s) + 1) @ s @ [NUL]" "int_le (take 4 v) = int (length s) + 1"
proof -
  obtain s where s: "v = le_int 4 (int (length s) + 1) @ s @ [NUL]" "int (length s) + 1 < BSONObjMaxInternalSize"
    using assms by (cases rule: typed_value.cases) auto
  moreover have "int_le (take 4 v) = int (length s) + 1" using s by (simp add: int_le_le_int BSONObjMaxInternalSize_def)
  ultimately show thesis using that by blast
qed

text \<open>The sign is what a comparison means; its size stays within the ints.\<close>

definition same_sign :: "int \<Rightarrow> int \<Rightarrow> bool" where
  "same_sign x y \<longleftrightarrow> \<bar>x\<bar> < 2 ^ 31 \<and> sgn x = sgn y"

lemma same_sign_zero: "same_sign x y \<Longrightarrow> x = 0 \<longleftrightarrow> y = 0"
  by (metis same_sign_def sgn_0_0)

lemma same_sign_refl: "\<bar>x\<bar> < 2 ^ 31 \<Longrightarrow> same_sign x x"
  by (simp add: same_sign_def)

lemma cmp_strings_at:
  assumes "placed l t f v p" "placed r u g w q" "t \<in> {Code, Symbol, StringType}" "u \<in> {Code, Symbol, StringType}"
  shows "\<exists>x. cmp_strings l r = Inr x \<and> same_sign x (bytes_cmp (drop 4 v) (drop 4 w))"
proof -
  obtain s where s: "v = le_int 4 (int (length s) + 1) @ s @ [NUL]" "int_le (take 4 v) = int (length s) + 1"
    using typed_string_bytes assms(1,3) unfolding placed_def by metis
  obtain s' where s': "w = le_int 4 (int (length s') + 1) @ s' @ [NUL]" "int_le (take 4 w) = int (length s') + 1"
    using typed_string_bytes assms(2,4) unfolding placed_def by metis
  have v: "4 \<le> length v" "drop 4 v = s @ [NUL]" and w: "4 \<le> length w" "drop 4 w = s' @ [NUL]" using s s' by simp_all
  note P = placed_int[OF assms(1) v(1)] and Q = placed_int[OF assms(2) w(1)]
  let ?k = "min (length (s @ [NUL])) (length (s' @ [NUL]))"
  have m: "memcmp_at (plus_ptr p 4) (plus_ptr q 4) (min (int (length s) + 1) (int (length s') + 1)) =
      Inr (bytes_cmp (take ?k (s @ [NUL])) (take ?k (s' @ [NUL])))"
    by (rule memcmp_at_holds) (use P(5) Q(5) v(2) w(2) in auto)
  have "length (s @ [NUL]) < 2 ^ 31" "length (s' @ [NUL]) < 2 ^ 31" using assms(1,2) s(1) s'(1) by (simp_all add: placed_def)
  from int_sum_length[OF this] have d: "int_sum (int (length s) + 1 - (int (length s') + 1)) =
      Inr (int (length (s @ [NUL])) - int (length (s' @ [NUL])))" by (simp add: algebra_simps)
  have "cmp_strings l r = Inr (common_cmp (s @ [NUL]) (s' @ [NUL]))"
    unfolding cmp_strings_def both_def P(1,4) Q(1,4) run_then_simps s(2) s'(2) m d or_else_simp common_cmp_def then_by_def
    by (rule refl)
  moreover have "\<bar>common_cmp (s @ [NUL]) (s' @ [NUL])\<bar> < 2 ^ 31"
    using \<open>length (s @ [NUL]) < 2 ^ 31\<close> \<open>length (s' @ [NUL]) < 2 ^ 31\<close> by (auto simp: common_cmp_def then_by_def bytes_cmp_def)
  ultimately show ?thesis unfolding v w by (simp add: common_cmp_sgn same_sign_def)
qed

lemma cmp_DBRef_at:
  assumes "placed l DBRef f v p" "placed r DBRef g w q"
  shows "cmp_DBRef l r = Inr (then_by (\<lambda>v w. int (length v) - int (length w)) bytes_cmp v w)"
proof -
  have s: "int_sum (int (length v) - int (length w)) = Inr (int (length v) - int (length w))"
    using assms by (intro int_sum_length) (simp_all add: placed_def)
  show ?thesis
  proof (cases "length v = length w")
    case True
    then have "memcmp_at p q (int (length v)) = Inr (bytes_cmp v w)"
      using assms memcmp_at_holds[of p v q w _ "length v"] by (simp add: placed_def)
    then show ?thesis using assms s True by (simp add: cmp_DBRef_def both_def placed_def or_else_def then_by_def)
  next
    case False
    then show ?thesis using assms s by (simp add: cmp_DBRef_def both_def placed_def or_else_def then_by_def)
  qed
qed

lemma cmp_BinData_at:
  assumes "placed l BinData f v p" "placed r BinData g w q"
  shows "cmp_BinData l r = Inr (then_by (\<lambda>v w. int (length v) - int (length w)) (\<lambda>v w. bytes_cmp (drop 4 v) (drop 4 w)) v w)"
proof -
  have c: "counted 5 v" "counted 5 w"
    using assms typed_well_sized[of BinData] by (auto simp: placed_def well_sized_def dest!: typed_well_sized)
  then have v: "4 \<le> length v" "int_le (take 4 v) = int (length v) - 5" and w: "4 \<le> length w" "int_le (take 4 w) = int (length w) - 5"
    by (auto simp: counted_def)
  note P = placed_int[OF assms(1) v(1)] and Q = placed_int[OF assms(2) w(1)]
  have len: "length v < 2 ^ 31" "length w < 2 ^ 31" using assms by (simp_all add: placed_def)
  have s: "int_sum (int (length v) - 5 - (int (length w) - 5)) = Inr (int (length v) - int (length w))"
    using int_sum_length[OF len] by simp
  have s1: "int_sum (int (length v) - 5 + 1) = Inr (int (length v) - 4)"
    using len by (simp add: int_sum_def INT_MIN32_def)
  show ?thesis
  proof (cases "length v = length w")
    case True
    then have "memcmp_at (plus_ptr p 4) (plus_ptr q 4) (int (length v) - 4) = Inr (bytes_cmp (drop 4 v) (drop 4 w))"
      using memcmp_at_holds[OF P(5) Q(5), of _ "length v - 4"] v w by (simp add: of_nat_diff)
    then show ?thesis
      using assms True s1 by (simp add: cmp_BinData_def both_def placed_def or_else_def then_by_def P(2) Q(2) v(2) w(2)
          s[simplified] int_sum_def INT_MIN32_def)
  next
    case False
    then show ?thesis
      using s by (simp add: cmp_BinData_def both_def or_else_def then_by_def P(2) Q(2) v(2) w(2))
  qed
qed

lemma c_pair_at:
  assumes "holds p v" "NUL \<in> set v" "NUL \<in> set (drop (length (c_str v) + 1) v)" "holds q w" "NUL \<in> set w" "NUL \<in> set (drop (length (c_str w) + 1) w)"
  shows "or_else (strcmp_at p q) (strcmp_at (plus_ptr p (int (length (c_str v)) + 1)) (plus_ptr q (int (length (c_str w)) + 1))) =
    Inr (list_cmp bytes_cmp (c_pair v) (c_pair w))"
proof -
  have "holds (plus_ptr p (int (length (c_str v)) + 1)) (drop (length (c_str v) + 1) v)"
    using assms(1) c_str_shorter[OF assms(2)] by (intro holds_drop) simp_all
  moreover have "holds (plus_ptr q (int (length (c_str w)) + 1)) (drop (length (c_str w) + 1) w)"
    using assms(4) c_str_shorter[OF assms(5)] by (intro holds_drop) simp_all
  ultimately show ?thesis
    using strcmp_at_holds[OF assms(1,4,2,5)] strcmp_at_holds assms(3,6) by (simp add: or_else_simp c_pair_def)
qed

lemma regex_parts:
  assumes "placed e RegEx f v p"
  shows "regex e = Inr p" "regexFlags e = Inr (plus_ptr p (int (length (c_str v)) + 1))" "holds p v"
    "NUL \<in> set v" "NUL \<in> set (drop (length (c_str v) + 1) v)"
proof -
  have "well_sized RegEx v" using assms by (simp add: placed_def typed_well_sized)
  then obtain a b where v: "v = a @ NUL # b @ [NUL]" "NUL \<notin> set a" by (auto simp: well_sized_def)
  then have c: "c_str v = a" by simp
  show "NUL \<in> set v" "NUL \<in> set (drop (length (c_str v) + 1) v)" unfolding c by (simp_all add: v)
  then show "regex e = Inr p" "regexFlags e = Inr (plus_ptr p (int (length (c_str v)) + 1))" "holds p v"
    using assms holds_string[of p v] by (simp_all add: regex_def regexFlags_def placed_def)
qed

lemma cmp_RegEx_at:
  assumes "placed l RegEx f v p" "placed r RegEx g w q"
  shows "or_else (both regex l r strcmp_at) (both regexFlags l r strcmp_at) = Inr (list_cmp bytes_cmp (c_pair v) (c_pair w))"
  using c_pair_at[OF regex_parts(3-5)[OF assms(1)] regex_parts(3-5)[OF assms(2)]]
  by (simp add: both_def regex_parts[OF assms(1)] regex_parts[OF assms(2)])

lemma obj_bytes_NUL: "NUL \<in> set (obj_bytes rs)"
  by (simp add: obj_bytes_def Let_def)

lemma scope_parts:
  assumes "placed e CodeWScope f v p"
  shows "codeWScopeCode e = Inr (plus_ptr p 8)"
    "codeWScopeScopeDataUnsafe e = Inr (plus_ptr (plus_ptr p 8) (int (length (c_str (drop 8 v))) + 1))"
    "holds (plus_ptr p 8) (drop 8 v)" "NUL \<in> set (drop 8 v)" "NUL \<in> set (drop (length (c_str (drop 8 v)) + 1) (drop 8 v))"
proof -
  have "typed_value CodeWScope v" using assms by (simp add: placed_def)
  then obtain s rs m where "v = le_int 4 m @ le_int 4 (int (length s) + 1) @ s @ [NUL] @ obj_bytes rs" "NUL \<notin> set s"
    by (cases rule: typed_value.cases) auto
  then have v: "drop 8 v = s @ NUL # obj_bytes rs" "NUL \<notin> set s" "8 \<le> length v" by simp_all
  then have c: "c_str (drop 8 v) = s" by simp
  show N: "NUL \<in> set (drop 8 v)" "NUL \<in> set (drop (length (c_str (drop 8 v)) + 1) (drop 8 v))"
    unfolding c unfolding v(1) using obj_bytes_NUL by simp_all
  show h: "holds (plus_ptr p 8) (drop 8 v)" using assms v(3) by (intro holds_drop) (simp_all add: placed_def)
  show "codeWScopeCode e = Inr (plus_ptr p 8)"
    "codeWScopeScopeDataUnsafe e = Inr (plus_ptr (plus_ptr p 8) (int (length (c_str (drop 8 v))) + 1))"
    using assms holds_string(2)[OF h N(1)] by (simp_all add: codeWScopeCode_def codeWScopeScopeDataUnsafe_def placed_def)
qed

lemma cmp_CodeWScope_at:
  assumes "placed l CodeWScope f v p" "placed r CodeWScope g w q"
  shows "cmp_CodeWScope l r = Inr (list_cmp bytes_cmp (c_pair (drop 8 v)) (c_pair (drop 8 w)))"
proof -
  have "el_canonicalType l = Inr 65" "el_canonicalType r = Inr 65"
    using assms by (simp_all add: el_canonicalType_def canonicalType_def placed_def)
  then show ?thesis
    using c_pair_at[OF scope_parts(3-5)[OF assms(1)] scope_parts(3-5)[OF assms(2)]]
    by (simp add: cmp_CodeWScope_def both_def scope_parts(1,2)[OF assms(1)] scope_parts(1,2)[OF assms(2)] or_else_def[of "Inr 0"])
qed

lemma numberDouble_at:
  assumes "placed e t f v p" "isNumber t"
  shows "numberDouble e = Inr (as_double t v)"
proof -
  have "well_sized t v" using assms(1) by (simp add: placed_def typed_well_sized)
  then show ?thesis
    using assms holds_read[of p v 8] holds_read[of p v 4]
    by (auto simp: placed_def isNumber_def well_sized_def numberDouble_def as_double_def el_double_def el_int_def el_long_def)
qed

lemma plain_readings:
  assumes "placed e t f v p"
  shows "t = BoolType \<Longrightarrow> int_at p 1 = Inr (int_le v)" "t = Timestamp \<Longrightarrow> el_date e = Inr (le_nat v)"
    "t = DateType \<Longrightarrow> el_Date e = Inr (int_le v)" "t = NumberLong \<Longrightarrow> el_long e = Inr (int_le v)"
    "t = NumberInt \<Longrightarrow> el_int e = Inr (int_le v)" "t = DateType \<Longrightarrow> el_date e = Inr (le_nat v)"
proof -
  have w: "well_sized t v" using assms by (simp add: placed_def typed_well_sized)
  then show "t = BoolType \<Longrightarrow> int_at p 1 = Inr (int_le v)" "t = Timestamp \<Longrightarrow> el_date e = Inr (le_nat v)"
    "t = DateType \<Longrightarrow> el_Date e = Inr (int_le v)" "t = NumberLong \<Longrightarrow> el_long e = Inr (int_le v)"
    "t = NumberInt \<Longrightarrow> el_int e = Inr (int_le v)" "t = DateType \<Longrightarrow> el_date e = Inr (le_nat v)"
    using assms holds_read[of p v "length v"]
    by (simp_all add: placed_def well_sized_def el_date_def el_Date_def el_long_def el_int_def chk_def)
qed

lemma same_rank:
  assumes "well_sized t v" "well_sized u w" "rank t = rank u"
  shows "t = u \<or> isNumber t \<and> isNumber u \<or> t \<in> {StringType, Symbol} \<and> u \<in> {StringType, Symbol} \<or>
    t = Timestamp \<and> u = DateType \<or> t = DateType \<and> u = Timestamp"
  using assms by (cases t; cases u) (simp_all add: rank_def canonicalType_def well_sized_def isNumber_def)

lemma rank_placed:
  assumes "placed e t f v p"
  shows "el_canonicalType e = Inr (rank t)"
proof -
  have "well_sized t v" using assms by (simp add: placed_def typed_well_sized)
  then show ?thesis using assms
    by (cases t) (simp_all add: placed_def well_sized_def el_canonicalType_def rank_def canonicalType_def)
qed

text \<open>No date stands left of a timestamp.\<close>

definition comparable :: "BSONType \<Rightarrow> BSONType \<Rightarrow> bool" where
  "comparable t u \<longleftrightarrow> \<not> (t = DateType \<and> u = Timestamp)"

lemma bytes_small: "\<bar>bytes_cmp s u\<bar> \<le> 1" "\<bar>sign_of a b\<bar> \<le> 1" "\<bar>double_cmp c d\<bar> \<le> 1" "\<bar>list_cmp bytes_cmp ss us\<bar> \<le> 1"
proof -
  show b: "\<bar>bytes_cmp s u\<bar> \<le> 1" "\<bar>sign_of a b\<bar> \<le> 1" for s u by (simp_all add: bytes_cmp_def sign_of_def)
  then show "\<bar>double_cmp c d\<bar> \<le> 1" by (simp add: double_cmp_def)
  show "\<bar>list_cmp bytes_cmp ss us\<bar> \<le> 1" by (induction ss us rule: list_induct2') (use b in auto)
qed

lemma byte_small: "length v = 1 \<Longrightarrow> \<bar>int_le v\<bar> \<le> 128"
  using le_nat_bound[of v] by (simp add: int_le_def Let_def)

lemma leaf_cmp_small:
  assumes "t = BoolType \<Longrightarrow> well_sized BoolType v \<and> well_sized BoolType w" "length v < 2 ^ 31" "length w < 2 ^ 31"
  shows "\<bar>leaf_cmp t v u w\<bar> < 2 ^ 31"
proof -
  have "\<bar>x\<bar> \<le> 1 \<Longrightarrow> \<bar>x\<bar> < 2 ^ 31" for x :: int by simp
  note small = bytes_small[THEN this]
  have d: "\<bar>int (length v) - int (length w)\<bar> < 2 ^ 31" using assms(2,3) by auto
  show ?thesis
  proof (cases "t = BoolType")
    case True
    then have "\<bar>int_le v\<bar> \<le> 128" "\<bar>int_le w\<bar> \<le> 128" using assms(1) byte_small by (simp_all add: well_sized_def)
    then show ?thesis using True by (simp add: leaf_cmp_def)
  next
    case False
    then show ?thesis unfolding leaf_cmp_def then_by_def using small d by (simp only: if_False split: if_split) simp
  qed
qed

lemma rank_small: "\<bar>rank t - rank u\<bar> < 2 ^ 31"
proof -
  have "\<bar>rank t\<bar> \<le> 127" for t by (cases t) (simp_all add: rank_def canonicalType_def)
  from this[of t] this[of u] show ?thesis by auto
qed

lemma leaf_values:
  assumes "placed l t f v p" "placed r u g w q" "\<not> isABSONObj t" "rank t = rank u" "comparable t u"
  shows "\<exists>x. compareElementValues l r = Inr (CmpIs x) \<and> same_sign x (leaf_cmp t v u w)"
proof -
  have ws: "well_sized t v" "well_sized u w" using assms(1,2) by (simp_all add: placed_def typed_well_sized)
  have ty: "el_type l = Inr t" "el_type r = Inr u" "el_value l = Inr p" "el_value r = Inr q"
    using assms(1,2) by (simp_all add: placed_def)
  note same = same_rank[OF ws assms(4)]
  note L = plain_readings[OF assms(1)] and R = plain_readings[OF assms(2)]
  have dbl: "isNumber t \<Longrightarrow> isNumber u \<Longrightarrow> cmp_doubles l r = Inr (double_cmp (as_double t v) (as_double u w))"
    using numberDouble_at[OF assms(1)] numberDouble_at[OF assms(2)] by (simp add: cmp_doubles_def both_def)
  note simps = compareElementValues_def ty both_def cmp_is_def leaf_cmp_def isNumber_def isABSONObj_def comparable_def
  have small: "same_sign (leaf_cmp t v u w) (leaf_cmp t v u w)"
    using assms(1,2) ws same by (intro same_sign_refl leaf_cmp_small) (auto simp: placed_def isNumber_def)
  consider (num) "isNumber t" "isNumber u" | (str) "t \<in> {Code, Symbol, StringType}" "u \<in> {Code, Symbol, StringType}"
    | (time) "t = Timestamp" "u \<in> {Timestamp, DateType}" | (other) "t = u" "\<not> isNumber t" "t \<notin> {Code, Symbol, StringType, Timestamp}"
    using same assms(5) unfolding comparable_def by blast
  then show ?thesis
  proof cases
    case num
    then have "compareElementValues l r = Inr (CmpIs (leaf_cmp t v u w))"
      using dbl[OF num] L R unfolding isNumber_def by (elim disjE) (simp_all add: simps)
    then show ?thesis using small by simp
  next
    case str
    then obtain x where "cmp_strings l r = Inr x" "same_sign x (bytes_cmp (drop 4 v) (drop 4 w))"
      using cmp_strings_at[OF assms(1,2)] by blast
    moreover from this have "compareElementValues l r = Inr (CmpIs x)" "leaf_cmp t v u w = bytes_cmp (drop 4 v) (drop 4 w)"
      using str by (auto simp: simps)
    ultimately show ?thesis by simp
  next
    case time
    then have "compareElementValues l r = Inr (CmpIs (leaf_cmp t v u w))" using L R by (auto simp: simps)
    then show ?thesis using small by simp
  next
    case other
    have r: "placed r t g w q" using assms(2) other(1) by simp
    have "compareElementValues l r = Inr (CmpIs (leaf_cmp t v u w))"
      using other(2,3) ws assms(3) L R ty memcmp_at_holds[of p v q w 12 12] assms(1,2)[unfolded placed_def]
        cmp_DBRef_at[of l f v p r g w q] cmp_BinData_at[of l f v p r g w q] cmp_RegEx_at[of l f v p r g w q]
        cmp_CodeWScope_at[of l f v p r g w q] assms(1) r rank_placed[OF assms(1)] rank_placed[OF assms(2)]
      unfolding other(1)[symmetric]
      by (cases t) (simp_all add: simps well_sized_def sign_of_def)
    then show ?thesis using small by simp
  qed
qed

section \<open>Comparing objects in memory\<close>

text \<open>The loop of the code: the elements are compared, objects inside included, until two differ.\<close>

lemma wo_loop_elements:
  "wo_loop m i n j =
     (case wo_next m i n j of
        Inl f \<Rightarrow> Some (Inl f)
      | Inr (StepIs x) \<Rightarrow> Some (Inr x)
      | Inr (StepAt l r i' j') \<Rightarrow>
          Option.bind (el_woCompare True l r) (\<lambda>y.
            case y of
              Inl f \<Rightarrow> Some (Inl f)
            | Inr x \<Rightarrow> if x \<noteq> 0 then Some (Inr x) else wo_loop m i' n j'))"
  by (subst wo_loop.simps)
    (auto simp: el_woCompare_def woCompare_def split: sum.split cmp_step.split value_cmp.split cmp_open.split)

lemma tree_typed: "tree_ok P a \<Longrightarrow> typed_value (tree_type a) (tree_value a)"
proof (induction a)
  case (Node t fs)
  have "\<forall>(u, f, v) \<in> set (map raw_field fs). NUL \<notin> set f \<and> typed_value u v"
    using Node by (fastforce simp: raw_field_def)
  then show ?case
    using Node.prems typed_object[of t "map raw_field fs"] by (auto simp: doc_bytes_def isABSONObj_def)
qed simp

text \<open>An iterator that stands before fields.\<close>

definition fields_ok :: "(BSONType \<Rightarrow> string \<Rightarrow> bool) \<Rightarrow> (string \<times> tree) list \<Rightarrow> bool" where
  "fields_ok P fs \<longleftrightarrow> (\<forall>(f, a) \<in> set fs. NUL \<notin> set f \<and> tree_ok P a)"

definition body :: "(string \<times> tree) list \<Rightarrow> string" where
  "body fs = concat (map raw_bytes (map raw_field fs))"

definition stands :: "string \<Rightarrow> BSONObjIterator \<Rightarrow> (string \<times> tree) list \<Rightarrow> bool" where
  "stands m i fs \<longleftrightarrow> (\<exists>pre post. m = pre @ body fs @ NUL # post \<and> it_pos i = int (length pre) \<and>
     it_theend i = it_pos i + int (length (body fs))) \<and> length (body fs) < 2 ^ 31"

lemma stands_Nil:
  assumes "stands m i []"
  shows "\<exists>i'. it_next m i = Inr ((m, it_pos i), i')" "el_type (m, it_pos i) = Inr EOO"
proof -
  obtain pre post where m: "m = pre @ NUL # post" "it_pos i = int (length pre)" "it_theend i = it_pos i"
    using assms by (auto simp: stands_def body_def)
  then show e: "el_type (m, it_pos i) = Inr EOO" using at_end[OF m(1)] by simp
  show "\<exists>i'. it_next m i = Inr ((m, it_pos i), i')" using e m(3) by (simp add: it_next_def el_size_def)
qed

lemma stands_Cons:
  assumes "stands m i ((f, a) # fs)" "fields_ok P ((f, a) # fs)"
  obtains i' p where "it_next m i = Inr ((m, it_pos i), i')" "stands m i' fs"
    "placed (m, it_pos i) (tree_type a) f (tree_value a) p"
proof -
  let ?r = "raw_field (f, a)"
  have r: "?r = (tree_type a, f, tree_value a)" by (simp add: raw_field_def)
  have b: "body ((f, a) # fs) = raw_bytes ?r @ body fs" by (simp add: body_def)
  obtain pre post where m: "m = pre @ raw_bytes ?r @ body fs @ NUL # post" "it_pos i = int (length pre)"
    "it_theend i = it_pos i + int (length (raw_bytes ?r)) + int (length (body fs))" "length (raw_bytes ?r) + length (body fs) < 2 ^ 31"
    using assms(1) unfolding stands_def b by (auto simp: algebra_simps)
  have ty: "typed_value (tree_type a) (tree_value a)" "NUL \<notin> set f"
    using assms(2) tree_typed[of P a] by (simp_all add: fields_ok_def)
  then have ok: "raw_ok ?r" unfolding r using m(4) typed_raw_ok by (simp add: r)
  have at: "at_raw (m, it_pos i) ?r" using m(1,2) by (auto simp: at_raw_def)
  obtain p where "placed (m, it_pos i) (tree_type a) f (tree_value a) p"
    using at_raw_placed[OF at[unfolded r] ok[unfolded r] ty(1)] by blast
  moreover have "it_next m i = Inr ((m, it_pos i), i\<lparr>it_pos := it_pos i + int (length (raw_bytes ?r))\<rparr>)"
    using el_size_at[OF at ok] m(3) by (simp add: it_next_def)
  moreover have "stands m (i\<lparr>it_pos := it_pos i + int (length (raw_bytes ?r))\<rparr>) fs"
    unfolding stands_def using m by (intro conjI exI[of _ "pre @ raw_bytes ?r"] exI[of _ post]) simp_all
  ultimately show thesis by (intro that)
qed

lemma doc_ok_fields: "doc_ok P fs \<longleftrightarrow> fields_ok P fs \<and> int (length (doc_bytes fs)) \<le> BSONObjMaxInternalSize"
  by (simp add: doc_ok_def fields_ok_def isABSONObj_def)

lemma length_doc_bytes: "length (doc_bytes fs) = length (body fs) + 5"
  by (simp add: doc_bytes_def body_def)

lemma doc_at:
  assumes "holds p (doc_bytes fs)" "doc_ok P fs"
  shows "int_at p 4 = Inr (int (length (doc_bytes fs)))"
    "stands (fst p) \<lparr>it_pos = snd p + 4, it_theend = snd p + int (length (doc_bytes fs)) - 1\<rparr> fs"
proof -
  obtain pre post where p: "fst p = pre @ doc_bytes fs @ post" "snd p = int (length pre)" using assms(1) by (auto simp: holds_def)
  have n: "length (doc_bytes fs) < 2 ^ 31" using assms(2) small_internal[of "int (length (doc_bytes fs))"] by (simp add: doc_ok_fields)
  have d: "doc_bytes fs = le_int 4 (int (length (doc_bytes fs))) @ body fs @ [NUL]"
    unfolding length_doc_bytes by (simp add: doc_bytes_def body_def obj_bytes_def Let_def)
  have "take 4 (doc_bytes fs) = le_int 4 (int (length (doc_bytes fs)))"
    unfolding doc_bytes_def by (rule take_obj_bytes)
  then show "int_at p 4 = Inr (int (length (doc_bytes fs)))"
    using holds_read(2)[OF assms(1), of 4] n by (simp add: length_doc_bytes int_le_le_int)
  have "fst p = (pre @ le_int 4 (int (length (doc_bytes fs)))) @ body fs @ NUL # post" using p(1) d by simp
  then show "stands (fst p) \<lparr>it_pos = snd p + 4, it_theend = snd p + int (length (doc_bytes fs)) - 1\<rparr> fs"
    unfolding stands_def
    by (intro conjI exI[of _ "pre @ le_int 4 (int (length (doc_bytes fs)))"] exI[of _ post])
      (use p(2) n in \<open>simp_all add: length_doc_bytes\<close>)
qed

lemma body_empty: "body fs = [] \<longleftrightarrow> fs = []"
  by (cases fs) (simp_all add: body_def)

lemma wo_open_at:
  assumes "holds p (doc_bytes fs)" "doc_ok P fs" "holds q (doc_bytes gs)" "doc_ok Q gs"
  shows "fs = [] \<or> gs = [] \<Longrightarrow> wo_open p q = Inr (OpenIs (doc_cmp fs gs))"
    "fs \<noteq> [] \<Longrightarrow> gs \<noteq> [] \<Longrightarrow> \<exists>i j. wo_open p q = Inr (OpenAt i j) \<and> stands (fst p) i fs \<and> stands (fst q) j gs"
proof -
  note p = doc_at[OF assms(1,2)] and q = doc_at[OF assms(3,4)]
  have e: "isEmpty_at p = Inr (fs = [])" "isEmpty_at q = Inr (gs = [])"
    unfolding isEmpty_at_def p(1) q(1) by (simp_all add: length_doc_bytes body_empty)
  show "fs = [] \<or> gs = [] \<Longrightarrow> wo_open p q = Inr (OpenIs (doc_cmp fs gs))"
    using e by (cases fs; cases gs) (auto simp: wo_open_def doc_cmp_def)
  have "int (length (doc_bytes hs)) \<noteq> 0" for hs by (simp add: length_doc_bytes)
  then have "iterator_over p = Inr \<lparr>it_pos = snd p + 4, it_theend = snd p + int (length (doc_bytes fs)) - 1\<rparr>"
    "iterator_over q = Inr \<lparr>it_pos = snd q + 4, it_theend = snd q + int (length (doc_bytes gs)) - 1\<rparr>"
    unfolding iterator_over_def p(1) q(1) by simp_all
  then show "fs \<noteq> [] \<Longrightarrow> gs \<noteq> [] \<Longrightarrow> \<exists>i j. wo_open p q = Inr (OpenAt i j) \<and> stands (fst p) i fs \<and> stands (fst q) j gs"
    using e p(2) q(2) by (simp add: wo_open_def)
qed

definition compatible :: "(BSONType \<Rightarrow> string \<Rightarrow> bool) \<Rightarrow> (BSONType \<Rightarrow> string \<Rightarrow> bool) \<Rightarrow> bool" where
  "compatible P Q \<longleftrightarrow> (\<forall>t v u w. P t v \<and> Q u w \<longrightarrow> comparable t u)"

text \<open>The comparison of two objects in memory is the one of their trees, in its sign.\<close>

definition compares :: "(string \<times> tree) list \<Rightarrow> (string \<times> tree) list \<Rightarrow> bool" where
  "compares fs gs \<longleftrightarrow> (\<forall>p q. holds p (doc_bytes fs) \<and> holds q (doc_bytes gs) \<longrightarrow>
     (\<exists>x. woCompare p q = Some (Inr x) \<and> same_sign x (doc_cmp fs gs)))"

lemma comparesD:
  "compares fs gs \<Longrightarrow> holds p (doc_bytes fs) \<Longrightarrow> holds q (doc_bytes gs) \<Longrightarrow>
    \<exists>x. woCompare p q = Some (Inr x) \<and> same_sign x (doc_cmp fs gs)"
  unfolding compares_def by blast

lemma element_head:
  assumes "placed l t f v p" "placed r u g w q"
  shows "element_cmp cfn l r =
    (if rank t \<noteq> rank u then Inr (CmpIs (rank t - rank u))
     else if cfn \<and> bytes_cmp f g \<noteq> 0 then Inr (CmpIs (bytes_cmp f g))
     else compareElementValues l r)"
proof -
  have "isNumber t \<Longrightarrow> isNumber u \<Longrightarrow> rank t = rank u" by (auto simp: isNumber_def rank_def canonicalType_def)
  then show ?thesis
    using assms rank_placed[OF assms(1)] rank_placed[OF assms(2)] by (auto simp: element_cmp_def both_def placed_def)
qed

lemma embedded_doc:
  assumes "placed e t f (doc_bytes fs) p" "tree_ok P (Node t fs)"
  shows "embedded_at e = Inr p" "holds p (doc_bytes fs)" "el_type e = Inr t"
proof -
  show h: "holds p (doc_bytes fs)" "el_type e = Inr t" using assms(1) by (simp_all add: placed_def)
  have d: "doc_ok P fs" using assms(2) by (simp add: doc_ok_def isABSONObj_def)
  have "0 < int (length (doc_bytes fs))" by (simp add: length_doc_bytes)
  then have "object_at p = Inr p" using doc_at(1)[OF h(1) d] d unfolding object_at_def doc_ok_fields by simp
  then show "embedded_at e = Inr p" using assms by (simp add: embedded_at_def placed_def)
qed

lemma value_at:
  assumes "placed l (tree_type a) f (tree_value a) p" "placed r (tree_type b) g (tree_value b) q"
    and "tree_ok P a" "tree_ok Q b" "rank (tree_type a) = rank (tree_type b)"
    and "compatible P Q"
    and "\<forall>t fs u gs. a = Node t fs \<and> b = Node u gs \<longrightarrow> compares fs gs"
  shows "\<exists>r'. compareElementValues l r = Inr r' \<and>
    (case r' of CmpIs x \<Rightarrow> same_sign x (tree_cmp a b)
     | CmpObjs p q \<Rightarrow> \<exists>x. woCompare p q = Some (Inr x) \<and> same_sign x (tree_cmp a b))"
proof -
  consider (leaf) t v u w where "a = Leaf t v" "b = Leaf u w" | (node) t fs u gs where "a = Node t fs" "b = Node u gs"
    using leaf_rank[of "tree_type a" "tree_value a" "tree_type b"] leaf_rank[of "tree_type b" "tree_value b" "tree_type a"]
      assms(3-5) by (cases a; cases b) auto
  then show ?thesis
  proof cases
    case leaf
    have "\<exists>x. compareElementValues l r = Inr (CmpIs x) \<and> same_sign x (leaf_cmp t v u w)"
      using assms unfolding leaf compatible_def by (intro leaf_values) auto
    then show ?thesis unfolding leaf by auto
  next
    case node
    have l: "placed l t f (doc_bytes fs) p" and r: "placed r u g (doc_bytes gs) q" using assms(1,2) by (simp_all add: node)
    note L = embedded_doc[OF l assms(3)[unfolded node]] and R = embedded_doc[OF r assms(4)[unfolded node]]
    have t: "isABSONObj t" using assms(3) by (simp add: node)
    then have "compareElementValues l r = Inr (CmpObjs p q)"
      using L R by (auto simp: compareElementValues_def both_def isABSONObj_def isNumber_def)
    moreover have "compares fs gs" using assms(7) node by blast
    from comparesD[OF this L(2) R(2)] have "\<exists>x. woCompare p q = Some (Inr x) \<and> same_sign x (tree_cmp a b)"
      unfolding node tree_cmp_Node .
    ultimately show ?thesis by simp
  qed
qed

lemma element_at:
  assumes "placed l (tree_type a) f (tree_value a) p" "placed r (tree_type b) g (tree_value b) q"
    and "tree_ok P a" "tree_ok Q b"
    and "compatible P Q"
    and "\<forall>t fs u gs. a = Node t fs \<and> b = Node u gs \<longrightarrow> compares fs gs"
  shows "\<exists>x. el_woCompare True l r = Some (Inr x) \<and> same_sign x (field_cmp (f, a) (g, b))"
proof (cases "rank (tree_type a) = rank (tree_type b) \<and> bytes_cmp f g = 0")
  case True
  obtain r' where r': "compareElementValues l r = Inr r'"
    "case r' of CmpIs x \<Rightarrow> same_sign x (tree_cmp a b)
     | CmpObjs p q \<Rightarrow> \<exists>x. woCompare p q = Some (Inr x) \<and> same_sign x (tree_cmp a b)"
    using value_at[OF assms(1-4) conjunct1[OF True] assms(5,6)] by blast
  have e: "element_cmp True l r = Inr r'" using element_head[OF assms(1,2), of True] True r'(1) by simp
  have "field_cmp (f, a) (g, b) = tree_cmp a b" using True unfolding field_cmp_def then_by_def by simp
  then show ?thesis using e r'(2) by (cases r') (simp_all add: el_woCompare_def)
next
  case False
  then have "el_woCompare True l r = Some (Inr (field_cmp (f, a) (g, b)))"
    unfolding el_woCompare_def element_head[OF assms(1,2)] field_cmp_def then_by_def
    by (cases "rank (tree_type a) = rank (tree_type b)") simp_all
  moreover have "\<bar>field_cmp (f, a) (g, b)\<bar> < 2 ^ 31"
    using False rank_small bytes_small(1)[of f g] by (auto simp: field_cmp_def then_by_def)
  ultimately show ?thesis by (simp add: same_sign_refl)
qed

lemma wo_next_at:
  assumes "it_next m i = Inr (l, i')" "it_next n j = Inr (r, j')" "el_type l = Inr t" "el_type r = Inr u"
  shows "wo_next m i n j = Inr (if t = EOO then StepIs (if u = EOO then 0 else - 1) else if u = EOO then StepIs 1
    else StepAt l r i' j')"
  using assms by (simp add: wo_next_def both_def)

lemma placed_type: "placed e t f v p \<Longrightarrow> el_type e = Inr t \<and> t \<noteq> EOO"
  using bson_type_value_range[of t v] typed_well_sized[of t v] by (auto simp: placed_def)

lemma loop_compares:
  assumes "stands m i fs" "stands n j gs" "fields_ok P fs" "fields_ok Q gs"
    and "compatible P Q"
    and "\<And>f t hs g u ks. (f, Node t hs) \<in> set fs \<Longrightarrow> (g, Node u ks) \<in> set gs \<Longrightarrow> compares hs ks"
  shows "\<exists>x. wo_loop m i n j = Some (Inr x) \<and> same_sign x (doc_cmp fs gs)"
  using assms
proof (induction fs gs arbitrary: i j rule: list_induct2')
  case 1
  obtain i' j' where "it_next m i = Inr ((m, it_pos i), i')" "it_next n j = Inr ((n, it_pos j), j')"
    using stands_Nil(1) 1(1,2) by metis
  from wo_next_at[OF this stands_Nil(2)[OF 1(1)] stands_Nil(2)[OF 1(2)]] show ?case
    by (subst wo_loop_elements) (simp add: doc_cmp_def same_sign_refl)
next
  case (2 fa fs)
  obtain f a where fa: "fa = (f, a)" by (cases fa)
  obtain i' p where i: "it_next m i = Inr ((m, it_pos i), i')" and pl: "placed (m, it_pos i) (tree_type a) f (tree_value a) p"
    using stands_Cons[OF 2(1,3)[unfolded fa]] by metis
  obtain j' where "it_next n j = Inr ((n, it_pos j), j')" using stands_Nil(1)[OF 2(2)] by blast
  from wo_next_at[OF i this placed_type[OF pl, THEN conjunct1] stands_Nil(2)[OF 2(2)]] show ?case
    using placed_type[OF pl] by (subst wo_loop_elements) (simp add: doc_cmp_def same_sign_refl)
next
  case (3 gb gs)
  obtain g b where gb: "gb = (g, b)" by (cases gb)
  obtain j' p where j: "it_next n j = Inr ((n, it_pos j), j')" and pl: "placed (n, it_pos j) (tree_type b) g (tree_value b) p"
    using stands_Cons[OF 3(2,4)[unfolded gb]] by metis
  obtain i' where "it_next m i = Inr ((m, it_pos i), i')" using stands_Nil(1)[OF 3(1)] by blast
  from wo_next_at[OF this j stands_Nil(2)[OF 3(1)] placed_type[OF pl, THEN conjunct1]] show ?case
    using placed_type[OF pl] by (subst wo_loop_elements) (simp add: doc_cmp_def same_sign_refl)
next
  case (4 fa fs gb gs)
  obtain f a g b where ab: "fa = (f, a)" "gb = (g, b)" by (cases fa; cases gb)
  obtain i' p where i: "it_next m i = Inr ((m, it_pos i), i')" "stands m i' fs"
    and p: "placed (m, it_pos i) (tree_type a) f (tree_value a) p"
    using stands_Cons[OF "4.prems"(1,3)[unfolded ab]] by metis
  obtain j' q where j: "it_next n j = Inr ((n, it_pos j), j')" "stands n j' gs"
    and q: "placed (n, it_pos j) (tree_type b) g (tree_value b) q"
    using stands_Cons[OF "4.prems"(2,4)[unfolded ab]] by metis
  have ok: "tree_ok P a" "tree_ok Q b" "fields_ok P fs" "fields_ok Q gs"
    using "4.prems"(3,4) by (simp_all add: fields_ok_def ab)
  have step: "wo_next m i n j = Inr (StepAt (m, it_pos i) (n, it_pos j) i' j')"
    using wo_next_at[OF i(1) j(1) placed_type[OF p, THEN conjunct1] placed_type[OF q, THEN conjunct1]]
      placed_type[OF p] placed_type[OF q] by simp
  have "\<forall>t hs u ks. a = Node t hs \<and> b = Node u ks \<longrightarrow> compares hs ks"
    using "4.prems"(6)[of f _ _ g] unfolding ab by auto
  from element_at[OF p q ok(1,2) "4.prems"(5) this] obtain x where
    x: "el_woCompare True (m, it_pos i) (n, it_pos j) = Some (Inr x)" "same_sign x (field_cmp fa gb)" unfolding ab by blast
  note x0 = same_sign_zero[OF x(2)]
  have "\<exists>x. wo_loop m i' n j' = Some (Inr x) \<and> same_sign x (doc_cmp fs gs)"
  proof (rule "4.IH"[OF i(2) j(2) ok(3,4) "4.prems"(5)])
    show "compares hs ks" if "(f, Node t hs) \<in> set fs" "(g, Node u ks) \<in> set gs" for f t hs g u ks
      using "4.prems"(6)[of f t hs g u ks] that by simp
  qed
  then show ?case using x x0 by (subst wo_loop_elements) (auto simp: step doc_cmp_def)
qed

lemma docs_compare:
  assumes "compatible P Q" "doc_ok P fs" "doc_ok Q gs"
  shows "compares fs gs"
  using assms(2,3)
proof (induction "size (Node ObjectType fs)" arbitrary: fs gs rule: less_induct)
  case less
  show ?case
    unfolding compares_def
  proof (intro allI impI, elim conjE)
    fix p q
    assume h: "holds p (doc_bytes fs)" "holds q (doc_bytes gs)"
    note o = wo_open_at[OF h(1) less.prems(1) h(2) less.prems(2)]
    show "\<exists>x. woCompare p q = Some (Inr x) \<and> same_sign x (doc_cmp fs gs)"
    proof (cases "fs = [] \<or> gs = []")
      case True
      then have "\<bar>doc_cmp fs gs\<bar> < 2 ^ 31" by (cases fs; cases gs) (auto simp: doc_cmp_def)
      then show ?thesis using True o(1) by (simp add: woCompare_def same_sign_refl)
    next
      case False
      then obtain i j where ij: "wo_open p q = Inr (OpenAt i j)" "stands (fst p) i fs" "stands (fst q) j gs" using o(2) by blast
      have sub: "compares hs ks" if "(f, Node t hs) \<in> set fs" "(g, Node u ks) \<in> set gs" for f t hs g u ks
      proof (rule less.hyps)
        show "size (Node ObjectType hs) < size (Node ObjectType fs)"
          using size_in_Node[OF that(1), of ObjectType] by simp
        show "doc_ok P hs" "doc_ok Q ks"
          using that less.prems by (fastforce simp: doc_ok_def isABSONObj_def)+
      qed
      have "\<exists>x. wo_loop (fst p) i (fst q) j = Some (Inr x) \<and> same_sign x (doc_cmp fs gs)"
        using less.prems sub by (intro loop_compares[OF ij(2,3) _ _ assms(1)]) (auto simp: doc_ok_fields)
      then show ?thesis by (simp add: woCompare_def ij(1))
    qed
  qed
qed

end
