(* ===== verification/MongoKeys.thy ===== *)
theory MongoKeys
imports MongoOrder
begin

text \<open>
  What the comparisons of documents come to: an order where numbers are exact, the two ways to say which fields
  descend are one, equality is the comparison that finds no difference; and where the order breaks.
\<close>

section \<open>Keys\<close>

text \<open>The fields of a key that descend: the numbers below zero.\<close>

definition key_down :: "string \<times> tree \<Rightarrow> bool" where
  "key_down p \<longleftrightarrow> isNumber (tree_type (snd p)) \<and> double_less (as_double (tree_type (snd p)) (tree_value (snd p))) 0"

lemma numberDouble_placed:
  assumes "placed e (tree_type a) f (tree_value a) p"
  shows "\<exists>d. numberDouble e = Inr d \<and> double_less d 0 = key_down (f, a)"
proof (cases "isNumber (tree_type a)")
  case True
  then show ?thesis using numberDouble_at[OF assms] by (simp add: key_down_def)
next
  case False
  then have "numberDouble e = Inr 0" using assms by (auto simp: numberDouble_def isNumber_def placed_def)
  moreover have "\<not> double_less 0 0" by (simp add: double_less_def)
  ultimately show ?thesis using False by (simp add: key_down_def)
qed

definition down_bits :: "bool list \<Rightarrow> Ordering" where
  "down_bits ds = horner_sum of_bool 2 ds"

lemma bit_down_bits: "bit (down_bits ds) i \<longleftrightarrow> i < 32 \<and> i < length ds \<and> ds ! i"
  by (auto simp: down_bits_def bit_horner_sum_bit_iff)

lemma down_bits_Cons:
  "or (if d then or b (push_bit n 1) else b) (push_bit (Suc n) (down_bits ds)) = or b (push_bit n (down_bits (d # ds)))"
proof (rule bit_eqI)
  fix i
  assume "possible_bit TYPE(32 word) i"
  then have i: "i < 32" by (simp add: possible_bit_def)
  have one: "bit (push_bit n 1 :: Ordering) i \<longleftrightarrow> i = n" using i unfolding bit_push_bit_iff by (auto simp: bit_1_iff)
  have rest: "bit (push_bit (Suc n) (down_bits ds)) i \<longleftrightarrow> Suc n \<le> i \<and> i - Suc n < length ds \<and> ds ! (i - Suc n)"
    using i unfolding bit_push_bit_iff bit_down_bits by (auto simp: possible_bit_def)
  have all: "bit (push_bit n (down_bits (d # ds))) i \<longleftrightarrow> n \<le> i \<and> i - n < Suc (length ds) \<and> (d # ds) ! (i - n)"
    using i unfolding bit_push_bit_iff bit_down_bits by (auto simp: possible_bit_def)
  have head: "bit (if d then or b (push_bit n 1) else b) i \<longleftrightarrow> bit b i \<or> d \<and> i = n"
    by (cases d) (simp_all only: if_True if_False bit_or_iff one, simp_all)
  have "i - n = Suc (i - Suc n)" if "Suc n \<le> i" using that by simp
  then show "bit (or (if d then or b (push_bit n 1) else b) (push_bit (Suc n) (down_bits ds))) i =
      bit (or b (push_bit n (down_bits (d # ds)))) i"
    unfolding bit_or_iff head rest all by (cases i n rule: linorder_cases) auto
qed

lemma ordering_loop_bits:
  assumes "stands m k ks" "fields_ok P ks" "n + length ks \<le> 32"
  shows "ordering_loop m k n b = Some (Inr (or b (push_bit n (down_bits (map key_down ks)))))"
  using assms
proof (induction ks arbitrary: k n b)
  case Nil
  obtain k' where "it_next m k = Inr ((m, it_pos k), k')" using stands_Nil(1)[OF Nil(1)] by blast
  then show ?case using stands_Nil(2)[OF Nil(1)] by (subst ordering_loop.simps) (simp add: down_bits_def)
next
  case (Cons fa ks)
  obtain f a where fa: "fa = (f, a)" by (cases fa)
  obtain k' p where k: "it_next m k = Inr ((m, it_pos k), k')" "stands m k' ks"
    and p: "placed (m, it_pos k) (tree_type a) f (tree_value a) p"
    using stands_Cons[OF Cons.prems(1,2)[unfolded fa]] by metis
  obtain d where d: "numberDouble (m, it_pos k) = Inr d" "double_less d 0 = key_down fa"
    using numberDouble_placed[OF p] unfolding fa by blast
  have ks: "fields_ok P ks" "Suc n + length ks \<le> 32" using Cons.prems(2,3) by (simp_all add: fields_ok_def)
  note IH = Cons.IH[OF k(2) ks]
  show ?case
    using placed_type[OF p] d k(1) IH Cons.prems(3) down_bits_Cons[of "key_down fa" b n "map key_down ks"]
    by (subst ordering_loop.simps) simp
qed

lemma descending_bit: "descending bits (push_bit n 1) \<longleftrightarrow> bit bits n"
  by (simp add: descending_def bit_iff_and_push_bit_not_eq_0)

lemma wo_key_next_at:
  "key_next ordered mk k = Inr (e, k') \<Longrightarrow>
    wo_key_next ordered m i n j mk k = run_then (wo_next m i n j) (\<lambda>s. Inr (s, e, k'))"
  by (cases "it_next m i"; cases "it_next n j")
    (auto simp: wo_key_next_def wo_next_def both_def run_then_def split: sum.split)

lemma wo_next_cases:
  assumes "stands m i fs" "stands n j gs" "fields_ok P fs" "fields_ok Q gs"
  shows "fs = [] \<or> gs = [] \<Longrightarrow> \<exists>x. wo_next m i n j = Inr (StepIs x)"
    "fs \<noteq> [] \<Longrightarrow> gs \<noteq> [] \<Longrightarrow> \<exists>l r i' j'. wo_next m i n j = Inr (StepAt l r i' j') \<and> stands m i' (tl fs) \<and> stands n j' (tl gs)"
proof -
  have el: "\<exists>e i' t. it_next m i = Inr (e, i') \<and> el_type e = Inr t \<and> (t = EOO \<longleftrightarrow> fs = []) \<and> (fs \<noteq> [] \<longrightarrow> stands m i' (tl fs))"
    if st: "stands m i fs" and ok: "fields_ok P fs" for m i fs P
  proof (cases fs)
    case Nil
    then show ?thesis using stands_Nil[of m i] st by auto
  next
    case (Cons fa fs')
    obtain f a where fa: "fa = (f, a)" by (cases fa)
    obtain i' p where "it_next m i = Inr ((m, it_pos i), i')" "stands m i' fs'" "placed (m, it_pos i) (tree_type a) f (tree_value a) p"
      by (rule stands_Cons[OF st[unfolded Cons fa] ok[unfolded Cons fa]])
    then show ?thesis using placed_type Cons by fastforce
  qed
  show "fs = [] \<or> gs = [] \<Longrightarrow> \<exists>x. wo_next m i n j = Inr (StepIs x)"
    "fs \<noteq> [] \<Longrightarrow> gs \<noteq> [] \<Longrightarrow> \<exists>l r i' j'. wo_next m i n j = Inr (StepAt l r i' j') \<and> stands m i' (tl fs) \<and> stands n j' (tl gs)"
    using el[OF assms(1,3)] el[OF assms(2,4)] by (auto dest!: wo_next_at[of m i _ _ n j])
qed

lemma key_loop_is_ordering_loop:
  assumes "stands m i fs" "stands n j gs" "stands mk k ks" "fields_ok P fs" "fields_ok Q gs" "fields_ok R ks"
    and "min (length fs) (length gs) \<le> length ks"
    and "\<And>x. x < length ks \<Longrightarrow> bit ord (d + x) = key_down (ks ! x)"
  shows "wo_ordering_loop cfn ord m i n j (push_bit d 1) = wo_key_loop cfn True m i n j mk k"
  using assms
proof (induction ks arbitrary: fs gs i j k d)
  case Nil
  obtain k' where "key_next True mk k = Inr ((mk, it_pos k), k')" using stands_Nil(1)[OF Nil.prems(3)] by (auto simp: key_next_def)
  moreover obtain x where "wo_next m i n j = Inr (StepIs x)"
    using wo_next_cases(1)[OF Nil.prems(1,2,4,5)] Nil.prems(7) by (cases fs; cases gs) auto
  ultimately show ?case by (subst wo_ordering_loop.simps, subst wo_key_loop.simps) (simp add: wo_key_next_at)
next
  case (Cons c ks)
  obtain f a where c: "c = (f, a)" by (cases c)
  obtain k' p where k: "it_next mk k = Inr ((mk, it_pos k), k')" "stands mk k' ks"
    and p: "placed (mk, it_pos k) (tree_type a) f (tree_value a) p"
    using stands_Cons[OF Cons.prems(3,6)[unfolded c]] by metis
  obtain e where e: "numberDouble (mk, it_pos k) = Inr e" "double_less e 0 = key_down c"
    using numberDouble_placed[OF p] unfolding c by blast
  have kn: "key_next True mk k = Inr ((mk, it_pos k), k')" using k(1) by (simp add: key_next_def)
  have down: "descending ord (push_bit d 1) = key_down c"
    unfolding descending_bit using Cons.prems(8)[of 0] by simp
  show ?case
  proof (cases "fs = [] \<or> gs = []")
    case True
    then obtain x where "wo_next m i n j = Inr (StepIs x)" using wo_next_cases(1)[OF Cons.prems(1,2,4,5)] by auto
    then show ?thesis using wo_key_next_at[OF kn] by (subst wo_ordering_loop.simps, subst wo_key_loop.simps) simp
  next
    case False
    then obtain l r i' j' where step: "wo_next m i n j = Inr (StepAt l r i' j')" "stands m i' (tl fs)" "stands n j' (tl gs)"
      using wo_next_cases(2)[OF Cons.prems(1,2,4,5)] by blast
    have bits: "bit ord (Suc d + x) = key_down (ks ! x)" if "x < length ks" for x
      using Cons.prems(8)[of "Suc x"] that by simp
    have "min (length (tl fs)) (length (tl gs)) \<le> length ks" using Cons.prems(7) False by (cases fs; cases gs) auto
    moreover have "fields_ok P (tl fs)" "fields_ok Q (tl gs)" "fields_ok R ks"
      using Cons.prems(4-6) by (auto simp: fields_ok_def dest: list.set_sel(2) split: list.splits) (cases fs; cases gs; auto)+
    ultimately have "wo_ordering_loop cfn ord m i' n j' (push_bit (Suc d) 1) = wo_key_loop cfn True m i' n j' mk k'"
      using bits by (intro Cons.IH[OF step(2,3) k(2)])
    then have go: "wo_ordering_loop cfn ord m i' n j' (push_bit 1 (push_bit d 1)) = wo_key_loop cfn True m i' n j' mk k'"
      unfolding push_bit_push_bit by (simp only: add.commute[of 1] plus_1_eq_Suc)
    have sign: "by_key True (mk, it_pos k) = negated (key_down c)" by (rule ext) (simp add: by_key_def e)
    show ?thesis
      unfolding wo_ordering_loop.simps[of cfn ord m i n j "push_bit d 1"] wo_key_loop.simps[of cfn True m i n j mk k]
        wo_key_next_at[OF kn] step(1) run_then_simps down
      by (simp only: prod.case sum.case cmp_step.case sign go)
  qed
qed

section \<open>The two ways to say which fields descend\<close>

text \<open>C28. A comparison with an \<open>Ordering\<close> made from a key gives what the comparison with the key itself gives, the failures
  included, for every typed key of at most 32 fields that is not empty and not shorter than both documents, which are typed too.
\<close>

theorem Ordering_is_key:
  assumes "holds key (doc_bytes ks)" "doc_ok R ks" "ks \<noteq> []" "length ks \<le> 32"
    and "holds p (doc_bytes fs)" "doc_ok P fs" "holds q (doc_bytes gs)" "doc_ok Q gs"
    and "min (length fs) (length gs) \<le> length ks"
  shows "\<exists>ord. Ordering_make key = Some (Inr ord) \<and>
    woCompare_ordering considerFieldName ord p q = woCompare_key considerFieldName key p q"
proof -
  let ?k = "\<lparr>it_pos = snd key + 4, it_theend = snd key + int (length (doc_bytes ks)) - 1\<rparr>"
  let ?ord = "down_bits (map key_down ks)"
  note k = doc_at[OF assms(1,2)] and o = wo_open_at[OF assms(5-8)]
  have ok: "fields_ok R ks" "fields_ok P fs" "fields_ok Q gs" using assms(2,6,8) by (simp_all add: doc_ok_fields)
  have size: "int (length (doc_bytes ks)) \<noteq> 0" "\<not> int (length (doc_bytes ks)) \<le> 5"
    using assms(3) by (simp_all add: length_doc_bytes body_empty)
  have it: "iterator_over key = Inr ?k" unfolding iterator_over_def k(1) using size(1) by simp
  have make: "Ordering_make key = Some (Inr ?ord)"
    using ordering_loop_bits[OF k(2) ok(1), of 0 0] assms(4) by (simp add: Ordering_make_def it)
  have "isEmpty_at key = Inr False" using size(2) by (simp add: isEmpty_at_def k(1))
  then have open_key: "run_then (isEmpty_at key) (\<lambda>none. run_then (iterator_over key) (\<lambda>k. Inr (\<not> none, k))) = Inr (True, ?k)"
    by (simp add: it)
  have "woCompare_ordering considerFieldName ?ord p q = woCompare_key considerFieldName key p q"
  proof (cases "fs = [] \<or> gs = []")
    case True
    then show ?thesis using o(1) by (simp add: woCompare_ordering_def woCompare_key_def)
  next
    case False
    then obtain i j where ij: "wo_open p q = Inr (OpenAt i j)" "stands (fst p) i fs" "stands (fst q) j gs" using o(2) by blast
    have "wo_ordering_loop considerFieldName ?ord (fst p) i (fst q) j (push_bit 0 1) =
        wo_key_loop considerFieldName True (fst p) i (fst q) j (fst key) ?k"
      using assms(4,9) by (intro key_loop_is_ordering_loop[OF ij(2,3) k(2) ok(2,3,1)]) (simp_all add: bit_down_bits)
    then show ?thesis by (simp add: woCompare_ordering_def woCompare_key_def ij(1) open_key)
  qed
  with make show ?thesis by blast
qed

section \<open>Equality\<close>

text \<open>
  An end of an object and a nameless \<open>undefined\<close> compare as equal, so that the loop goes past the end; apart from
  such fields, equality is the comparison that finds no difference.
\<close>

definition named :: "(string \<times> tree) list \<Rightarrow> bool" where
  "named fs \<longleftrightarrow> (\<forall>(f, a) \<in> set fs. f \<noteq> [] \<or> tree_type a \<noteq> UndefinedType)"

lemma rank_EOO: "well_sized t v \<Longrightarrow> rank t = 0 \<Longrightarrow> t = UndefinedType"
  by (cases t) (simp_all add: rank_def canonicalType_def well_sized_def)

lemma not_equal_end:
  assumes "placed l t f v p" "f \<noteq> [] \<or> t \<noteq> UndefinedType" "el_type r = Inr EOO"
  shows "\<exists>x. el_woCompare True l r = Some (Inr x) \<and> x \<noteq> 0"
proof -
  have c: "el_canonicalType r = Inr 0" "fieldName r = Inr []" using assms(3) by (simp_all add: el_canonicalType_def canonicalType_def fieldName_def)
  have l: "el_type l = Inr t" "fieldName l = Inr f" using assms(1) by (simp_all add: placed_def)
  show ?thesis
  proof (cases "rank t = 0")
    case True
    then have "t = UndefinedType" using assms(1) rank_EOO[of t v] by (simp add: placed_def typed_well_sized)
    then have "f \<noteq> []" using assms(2) by simp
    then have "bytes_cmp f [] \<noteq> 0" by (simp add: bytes_cmp_zero)
    then show ?thesis
      using True by (simp add: el_woCompare_def element_cmp_def both_def rank_placed[OF assms(1)] c l assms(3))
  next
    case False
    then show ?thesis
      by (simp add: el_woCompare_def element_cmp_def both_def rank_placed[OF assms(1)] c l assms(3) isNumber_def)
  qed
qed

lemma element_compared:
  assumes "placed l (tree_type a) f (tree_value a) p" "placed r (tree_type b) g (tree_value b) q"
    and "tree_ok P a" "tree_ok Q b" "compatible P Q"
  shows "\<exists>x. el_woCompare True l r = Some (Inr x) \<and> (x = 0 \<longleftrightarrow> field_cmp (f, a) (g, b) = 0)"
proof -
  have "\<forall>t fs u gs. a = Node t fs \<and> b = Node u gs \<longrightarrow> compares fs gs"
    using assms(3,4) docs_compare[OF assms(5)] by (auto simp: doc_ok_def isABSONObj_def)
  from element_at[OF assms this] show ?thesis using same_sign_zero by blast
qed

lemma equal_loop_at:
  assumes "stands m i fs" "stands n j gs" "fields_ok P fs" "fields_ok Q gs" "compatible P Q" "named fs"
  shows "equal_loop m i n j = Some (Inr (doc_cmp fs gs = 0))"
  using assms
proof (induction fs arbitrary: gs i j)
  case Nil
  obtain i' where i: "it_next m i = Inr ((m, it_pos i), i')" using stands_Nil(1)[OF Nil.prems(1)] by blast
  show ?case
  proof (cases gs)
    case Nil': Nil
    obtain j' where "it_next n j = Inr ((n, it_pos j), j')" using stands_Nil(1) Nil.prems(2) Nil' by blast
    then show ?thesis
      using i stands_Nil(2)[OF Nil.prems(1)] stands_Nil(2)[of n j] Nil.prems(2) Nil'
      by (subst equal_loop.simps) (simp add: doc_cmp_def)
  next
    case (Cons gb gs')
    obtain g b where gb: "gb = (g, b)" by (cases gb)
    obtain j' q where "it_next n j = Inr ((n, it_pos j), j')" "placed (n, it_pos j) (tree_type b) g (tree_value b) q"
      by (rule stands_Cons[OF Nil.prems(2,4)[unfolded Cons gb]])
    then show ?thesis
      using i stands_Nil(2)[OF Nil.prems(1)] placed_type[of "(n, it_pos j)"] Cons
      by (subst equal_loop.simps) (auto simp: doc_cmp_def)
  qed
next
  case (Cons fa fs)
  obtain f a where fa: "fa = (f, a)" by (cases fa)
  obtain i' p where i: "it_next m i = Inr ((m, it_pos i), i')" "stands m i' fs"
    and p: "placed (m, it_pos i) (tree_type a) f (tree_value a) p"
    by (rule stands_Cons[OF Cons.prems(1,3)[unfolded fa]])
  note tp = placed_type[OF p]
  show ?case
  proof (cases gs)
    case Nil
    obtain j' where j: "it_next n j = Inr ((n, it_pos j), j')" using stands_Nil(1) Cons.prems(2) Nil by blast
    have e: "el_type (n, it_pos j) = Inr EOO" using stands_Nil(2) Cons.prems(2) Nil by blast
    have "f \<noteq> [] \<or> tree_type a \<noteq> UndefinedType" using Cons.prems(6) by (simp add: named_def fa)
    then obtain x where "el_woCompare True (m, it_pos i) (n, it_pos j) = Some (Inr x)" "x \<noteq> 0"
      using not_equal_end[OF p _ e] by blast
    then show ?thesis
      using tp i(1) j e Nil by (subst equal_loop.simps) (simp add: el_equal_def doc_cmp_def)
  next
    case gs: (Cons gb gs')
    obtain g b where gb: "gb = (g, b)" by (cases gb)
    obtain j' q where j: "it_next n j = Inr ((n, it_pos j), j')" "stands n j' gs'"
      and q: "placed (n, it_pos j) (tree_type b) g (tree_value b) q"
      by (rule stands_Cons[OF Cons.prems(2,4)[unfolded gs gb]])
    have ok: "tree_ok P a" "tree_ok Q b" "fields_ok P fs" "fields_ok Q gs'" "named fs"
      using Cons.prems(3,4,6) by (simp_all add: fields_ok_def named_def gs gb fa)
    obtain x where x: "el_woCompare True (m, it_pos i) (n, it_pos j) = Some (Inr x)" "x = 0 \<longleftrightarrow> field_cmp fa gb = 0"
      using element_compared[OF p q ok(1,2) Cons.prems(5)] unfolding fa gb by blast
    have "equal_loop m i' n j' = Some (Inr (doc_cmp fs gs' = 0))"
      by (rule Cons.IH[OF i(2) j(2) ok(3,4) Cons.prems(5) ok(5)])
    then show ?thesis
      using tp placed_type[OF q] i(1) j(1) x gs by (subst equal_loop.simps) (simp add: el_equal_def doc_cmp_def)
  qed
qed

lemma equal_at:
  assumes "holds p (doc_bytes fs)" "doc_ok P fs" "holds q (doc_bytes gs)" "doc_ok Q gs" "compatible P Q" "named fs"
  shows "obj_equal p q = Some (Inr (doc_cmp fs gs = 0))"
proof -
  note p = doc_at[OF assms(1,2)] and q = doc_at[OF assms(3,4)]
  have "int (length (doc_bytes hs)) \<noteq> 0" for hs by (simp add: length_doc_bytes)
  then have "iterator_over p = Inr \<lparr>it_pos = snd p + 4, it_theend = snd p + int (length (doc_bytes fs)) - 1\<rparr>"
    "iterator_over q = Inr \<lparr>it_pos = snd q + 4, it_theend = snd q + int (length (doc_bytes gs)) - 1\<rparr>"
    unfolding iterator_over_def p(1) q(1) by simp_all
  then show ?thesis
    using equal_loop_at[OF p(2) q(2) _ _ assms(5,6)] assms(2,4) by (simp add: obj_equal_def doc_ok_fields)
qed

section \<open>The order\<close>

lemma holds_start: "holds (s, 0) s"
  unfolding holds_def by (intro exI[of _ "[]"]) simp

lemma length_body_Cons: "length (body ((f, a) # fs)) = length f + length (tree_value a) + 2 + length (body fs)"
  by (simp add: body_def raw_field_def raw_bytes_def)

lemma body_Nil: "body [] = []"
  by (simp add: body_def)

lemmas doc_sizes = length_doc_bytes length_body_Cons body_Nil BSONObjMaxInternalSize_def

lemma int_leaf_ok: "P NumberInt (le_int 4 n) \<Longrightarrow> tree_ok P (Leaf NumberInt (le_int 4 n))"
  "P NumberLong (le_int 8 n) \<Longrightarrow> tree_ok P (Leaf NumberLong (le_int 8 n))"
  "P NumberDouble (le 8 k) \<Longrightarrow> tree_ok P (Leaf NumberDouble (le 8 k))"
  "P DateType (le_int 8 n) \<Longrightarrow> tree_ok P (Leaf DateType (le_int 8 n))"
  "P Timestamp (le_int 8 n) \<Longrightarrow> tree_ok P (Leaf Timestamp (le_int 8 n))"
  by (simp_all add: isABSONObj_def typed_plain well_sized_def)

text \<open>C26. Comparing two typed documents, wherever they stand in memory, ends and gives the sign of the order of their trees:
  field by field, first the rank of the types, then the names, then the values, objects inside included. Equality
  says that the comparison gives 0. No date may stand left of a timestamp; for equality the fields of the left
  document are named.
\<close>

theorem woCompare_trees:
  assumes "doc_ok P fs" "doc_ok Q gs" "compatible P Q" "holds p (doc_bytes fs)" "holds q (doc_bytes gs)"
  shows "\<exists>x. woCompare p q = Some (Inr x) \<and> sgn x = sgn (doc_cmp fs gs) \<and>
    (named fs \<longrightarrow> obj_equal p q = Some (Inr (x = 0)))"
proof -
  obtain x where x: "woCompare p q = Some (Inr x)" "same_sign x (doc_cmp fs gs)"
    using comparesD[OF docs_compare[OF assms(3,1,2)] assms(4,5)] by blast
  then show ?thesis using equal_at[OF assms(4,1,5,2,3)] same_sign_zero[OF x(2)] by (simp add: same_sign_def)
qed

lemma woCompare_trees_witness:
  "\<exists>x. woCompare (doc_bytes [(''a'', Node ObjectType [(''b'', Leaf NumberInt (le_int 4 7))])], 0)
      (doc_bytes [(''a'', Node ObjectType [(''b'', Leaf NumberLong (le_int 8 9))])], 0) = Some (Inr x) \<and> x < 0"
proof -
  let ?P = "\<lambda>t v. t \<noteq> Timestamp"
  let ?f = "[(''a'', Node ObjectType [(''b'', Leaf NumberInt (le_int 4 7))])]"
  let ?g = "[(''a'', Node ObjectType [(''b'', Leaf NumberLong (le_int 8 9))])]"
  have ok: "doc_ok ?P ?f" "doc_ok ?P ?g" "compatible ?P ?P"
    using int_leaf_ok[of ?P] by (simp_all add: doc_ok_def isABSONObj_def NUL_def compatible_def comparable_def doc_sizes)
  have "int_le (le_int 4 7) = 7" "int_le (le_int 8 9) = 9" by (rule int_le_le_int; simp)+
  then have "doc_cmp ?f ?g = - 1"
    using double_cmp_ints[of 7 9]
    by (simp add: doc_cmp_def field_cmp_def then_by_def leaf_cmp_def isNumber_def as_double_def rank_def canonicalType_def sign_of_def)
  with woCompare_trees[OF ok holds_start holds_start] show ?thesis by (auto simp: sgn_if split: if_splits)
qed

text \<open>C25. On typed documents without timestamps and with longs of at most 53 bits, comparing is an order up to what it takes for
  equal: a document equals itself, the other direction has the other sign, and a document below one below a third is
  below the third.
\<close>

theorem documents_ordered:
  assumes "doc_ok exact fs" "doc_ok exact gs" "doc_ok exact hs"
    and "holds p (doc_bytes fs)" "holds q (doc_bytes gs)" "holds r (doc_bytes hs)"
  shows "woCompare p p = Some (Inr 0) \<and>
    (\<exists>x y z w. woCompare p q = Some (Inr x) \<and> woCompare q p = Some (Inr y) \<and> woCompare q r = Some (Inr z) \<and>
       woCompare p r = Some (Inr w) \<and> sgn y = - sgn x \<and> (x \<le> 0 \<and> z \<le> 0 \<longrightarrow> w \<le> 0) \<and> (x < 0 \<and> z \<le> 0 \<longrightarrow> w < 0))"
proof -
  have "compatible exact exact" by (simp add: compatible_def comparable_def exact_def)
  then have cmp: "\<exists>x. woCompare p q = Some (Inr x) \<and> sgn x = sgn (doc_cmp fs gs)"
    if "doc_ok exact fs" "doc_ok exact gs" "holds p (doc_bytes fs)" "holds q (doc_bytes gs)" for p q fs gs
    using comparesD[OF docs_compare that(3,4)] that(1,2) unfolding same_sign_def by blast
  obtain o' where o': "woCompare p p = Some (Inr o')" "sgn o' = sgn (doc_cmp fs fs)" using cmp[OF assms(1,1,4,4)] by blast
  obtain x where x: "woCompare p q = Some (Inr x)" "sgn x = sgn (doc_cmp fs gs)" using cmp[OF assms(1,2,4,5)] by blast
  obtain y where y: "woCompare q p = Some (Inr y)" "sgn y = sgn (doc_cmp gs fs)" using cmp[OF assms(2,1,5,4)] by blast
  obtain z where z: "woCompare q r = Some (Inr z)" "sgn z = sgn (doc_cmp gs hs)" using cmp[OF assms(2,3,5,6)] by blast
  obtain w where w: "woCompare p r = Some (Inr w)" "sgn w = sgn (doc_cmp fs hs)" using cmp[OF assms(1,3,4,6)] by blast
  have s: "sgn u = sgn v \<Longrightarrow> (u \<le> 0 \<longleftrightarrow> v \<le> 0) \<and> (u < 0 \<longleftrightarrow> v < 0)" for u v :: int
    by (auto simp: sgn_if split: if_splits)
  have "o' = 0" using o'(2) docs.same[OF assms(1)] by (simp add: sgn_0_0)
  moreover have "sgn y = - sgn x" using x(2) y(2) docs.opposite[OF assms(1,2)] by simp
  ultimately show ?thesis
    using o'(1) x(1) y(1) z(1) w(1) s[OF x(2)] s[OF z(2)] s[OF w(2)] docs.chain[OF assms(1-3)] docs.strict_chain[OF assms(1-3)]
    by auto
qed

lemma documents_ordered_witness:
  "\<exists>w. woCompare (doc_bytes [(''a'', Leaf NumberInt (le_int 4 1))], 0) (doc_bytes [(''a'', Leaf NumberLong (le_int 8 3))], 0) =
    Some (Inr w) \<and> woCompare (doc_bytes [(''a'', Leaf NumberInt (le_int 4 1))], 0) (doc_bytes [(''a'', Leaf NumberInt (le_int 4 1))], 0) = Some (Inr 0)"
proof -
  have ok: "doc_ok exact [(''a'', Leaf NumberInt (le_int 4 1))]" "doc_ok exact [(''a'', Leaf NumberLong (le_int 8 3))]"
    using int_leaf_ok(1)[of exact 1] int_leaf_ok(2)[of exact 3] int_le_le_int[of 8 3]
    by (simp_all add: doc_ok_def isABSONObj_def NUL_def exact_def doc_sizes)
  from documents_ordered[OF ok(1,2,2) holds_start holds_start holds_start] show ?thesis by blast
qed

section \<open>Where the order breaks\<close>

abbreviation one :: "tree \<Rightarrow> (string \<times> tree) list" where
  "one a \<equiv> [(''x'', a)]"

definition doc_long :: "int \<Rightarrow> (string \<times> tree) list" where
  "doc_long n = one (Leaf NumberLong (le_int 8 n))"

definition doc_double :: "int \<Rightarrow> (string \<times> tree) list" where
  "doc_double n = one (Leaf NumberDouble (le 8 (unat (int_to_double n))))"

definition doc_date :: "int \<Rightarrow> (string \<times> tree) list" where
  "doc_date n = one (Leaf DateType (le_int 8 n))"

definition doc_stamp :: "int \<Rightarrow> (string \<times> tree) list" where
  "doc_stamp n = one (Leaf Timestamp (le_int 8 n))"

text \<open>The code \<open>g\<close>, with a scope in which \<open>a\<close> is a number.\<close>

definition doc_scope :: "int \<Rightarrow> (string \<times> tree) list" where
  "doc_scope n = one (Leaf CodeWScope
     (le_int 4 22 @ le_int 4 2 @ ''g'' @ [NUL] @ obj_bytes [(NumberInt, ''a'', le_int 4 n)]))"

abbreviation start :: "(string \<times> tree) list \<Rightarrow> pointer_in" where
  "start fs \<equiv> (doc_bytes fs, 0)"

lemma one_ok: "tree_ok P a \<Longrightarrow> length (tree_value a) < 1000 \<Longrightarrow> doc_ok P (one a)"
  by (simp add: doc_ok_def isABSONObj_def NUL_def doc_sizes)

lemma broken_docs:
  "doc_ok (\<lambda>t v. t \<noteq> Timestamp) (doc_long n)" "doc_ok (\<lambda>t v. t \<noteq> Timestamp) (doc_double n)"
  "doc_ok (\<lambda>t v. t \<noteq> Timestamp) (doc_date n)" "doc_ok (\<lambda>t v. t \<noteq> DateType) (doc_stamp n)"
  "doc_ok (\<lambda>t v. t \<noteq> Timestamp) (doc_scope n)"
proof -
  have "typed_value CodeWScope (le_int 4 (int (length ''g'') + int (length (obj_bytes [(NumberInt, ''a'', le_int 4 n)])) + 9) @
      le_int 4 (int (length ''g'') + 1) @ ''g'' @ [NUL] @ obj_bytes [(NumberInt, ''a'', le_int 4 n)])"
    by (rule typed_scope) (simp_all add: NUL_def typed_plain well_sized_def raw_bytes_def BSONObjMaxInternalSize_def)
  then show "doc_ok (\<lambda>t v. t \<noteq> Timestamp) (doc_scope n)"
    unfolding doc_scope_def by (intro one_ok) (simp_all add: isABSONObj_def raw_bytes_def)
qed (auto simp: doc_long_def doc_double_def doc_date_def doc_stamp_def intro!: one_ok int_leaf_ok)

lemma compare_one:
  assumes "doc_ok (\<lambda>t v. t \<noteq> Timestamp) fs" "doc_ok (\<lambda>t v. t \<noteq> Timestamp) gs"
  shows "\<exists>x. woCompare (start fs) (start gs) = Some (Inr x) \<and> sgn x = sgn (doc_cmp fs gs)"
proof -
  have "compatible (\<lambda>t v. t \<noteq> Timestamp) (\<lambda>t v. t \<noteq> Timestamp)" by (simp add: compatible_def comparable_def)
  from comparesD[OF docs_compare[OF this assms] holds_start holds_start] show ?thesis unfolding same_sign_def by blast
qed

lemma doc_cmp_one: "doc_cmp (one (Leaf t v)) (one (Leaf u w)) = then_by (\<lambda>_ _. rank t - rank u) (\<lambda>_ _. leaf_cmp t v u w) () ()"
  by (simp add: doc_cmp_def field_cmp_def then_by_def)

lemma top_bit_eq:
  assumes "2 ^ k \<le> n" "n < 2 ^ Suc k"
  shows "top_bit n = k"
proof -
  have "0 < n" using assms(1) by (metis gr0I not_le zero_less_numeral zero_less_power)
  note b = top_bit_bounds[OF this]
  have "(2 :: nat) ^ k < 2 ^ Suc (top_bit n)" "(2 :: nat) ^ top_bit n < 2 ^ Suc k" using b assms by linarith+
  then have "k < Suc (top_bit n)" "top_bit n < Suc k" by (simp_all only: power_strict_increasing_iff[of "2 :: nat"] one_less_numeral_iff semiring_norm)
  then show ?thesis by simp
qed

lemma longs_collapse: "int_to_double (2 ^ 53 + 1) = int_to_double (2 ^ 53)"
proof -
  have "top_bit (2 ^ 53) = 53" "top_bit (2 ^ 53 + 1) = 53" by (rule top_bit_eq; simp)+
  moreover have "nat \<bar>2 ^ 53 + 1\<bar> = 2 ^ 53 + 1" "nat \<bar>2 ^ 53\<bar> = 2 ^ 53" by simp_all
  ultimately show ?thesis unfolding int_to_double_def Let_def by (simp add: round_even_def)
qed

lemma doc_cmp_longs:
  "doc_cmp (doc_long (2 ^ 53 + 1)) (doc_double (2 ^ 53)) = 0" "doc_cmp (doc_double (2 ^ 53)) (doc_long (2 ^ 53)) = 0"
  "doc_cmp (doc_long (2 ^ 53 + 1)) (doc_long (2 ^ 53)) = 1"
proof -
  have n: "int_le (le_int 8 (2 ^ 53 + 1)) = 2 ^ 53 + 1" "int_le (le_int 8 (2 ^ 53)) = 2 ^ 53" by (rule int_le_le_int; simp)+
  have d: "as_double NumberLong (le_int 8 (2 ^ 53 + 1)) = int_to_double (2 ^ 53)"
    "as_double NumberLong (le_int 8 (2 ^ 53)) = int_to_double (2 ^ 53)"
    "as_double NumberDouble (le 8 (unat (int_to_double (2 ^ 53)))) = int_to_double (2 ^ 53)"
    unfolding as_double_def n longs_collapse by simp_all
  have z: "double_cmp e e = 0" for e by (simp add: double_cmp_key sign_of_def)
  show "doc_cmp (doc_long (2 ^ 53 + 1)) (doc_double (2 ^ 53)) = 0" "doc_cmp (doc_double (2 ^ 53)) (doc_long (2 ^ 53)) = 0"
    unfolding doc_long_def doc_double_def doc_cmp_one then_by_def leaf_cmp_def d z
    by (simp_all only: rank_def canonicalType_def BSONType.case sum.case) (simp_all add: isNumber_def)
  show "doc_cmp (doc_long (2 ^ 53 + 1)) (doc_long (2 ^ 53)) = 1"
    unfolding doc_long_def doc_cmp_one then_by_def leaf_cmp_def n by (simp add: isNumber_def sign_of_def)
qed

lemma stands_one:
  assumes "stands m i fs" "fields_ok P fs" "fs = one (Leaf t v)"
  obtains i' p where "it_next m i = Inr ((m, it_pos i), i')" "placed (m, it_pos i) t ''x'' v p"
  by (rule stands_Cons[OF assms(1,2)[unfolded assms(3)]]) (simp add: that)

lemma date_throws:
  "woCompare (start (doc_date a)) (start (doc_stamp b)) = Some (Inl (Throw ''13111''))"
proof -
  note d = broken_docs(3)[of a] and s = broken_docs(4)[of b]
  have ne: "doc_date a \<noteq> []" "doc_stamp b \<noteq> []" by (simp_all add: doc_date_def doc_stamp_def)
  obtain i j where ij: "wo_open (start (doc_date a)) (start (doc_stamp b)) = Inr (OpenAt i j)"
    "stands (doc_bytes (doc_date a)) i (doc_date a)" "stands (doc_bytes (doc_stamp b)) j (doc_stamp b)"
    using wo_open_at(2)[OF holds_start d holds_start s ne] by auto
  have ok: "fields_ok (\<lambda>t v. t \<noteq> Timestamp) (doc_date a)" "fields_ok (\<lambda>t v. t \<noteq> DateType) (doc_stamp b)"
    using d s by (simp_all add: doc_ok_fields)
  obtain i' p where i: "it_next (doc_bytes (doc_date a)) i = Inr ((doc_bytes (doc_date a), it_pos i), i')"
    and p: "placed (doc_bytes (doc_date a), it_pos i) DateType ''x'' (le_int 8 a) p"
    by (rule stands_one[OF ij(2) ok(1) doc_date_def])
  obtain j' q where j: "it_next (doc_bytes (doc_stamp b)) j = Inr ((doc_bytes (doc_stamp b), it_pos j), j')"
    and q: "placed (doc_bytes (doc_stamp b), it_pos j) Timestamp ''x'' (le_int 8 b) q"
    by (rule stands_one[OF ij(3) ok(2) doc_stamp_def])
  let ?l = "(doc_bytes (doc_date a), it_pos i)" and ?r = "(doc_bytes (doc_stamp b), it_pos j)"
  have t: "el_type ?l = Inr DateType" "el_type ?r = Inr Timestamp" using p q by (simp_all add: placed_def)
  have "compareElementValues ?l ?r = Inl (Throw ''13111'')"
    using t plain_readings(3)[OF p] by (simp add: compareElementValues_def cmp_is_def both_def el_Date_def[of ?r] chk_def isNumber_def)
  then have "element_cmp True ?l ?r = Inl (Throw ''13111'')"
    unfolding element_head[OF p q] by (simp add: rank_def canonicalType_def)
  then show ?thesis
    using wo_next_at[OF i j t] by (simp add: woCompare_def ij(1)) (subst wo_loop_elements, simp add: el_woCompare_def)
qed

lemma scopes_same: "doc_cmp (doc_scope m) (doc_scope n) = 0"
proof -
  have twelve: "le_int 4 12 = [CHR 0x0C, NUL, NUL, NUL]" unfolding NUL_def by code_simp
  have g: "c_str (''g'' @ NUL # rest) = ''g''" for rest by (simp add: c_str_def NUL_def)
  have "c_pair (drop 8 (le_int 4 22 @ le_int 4 2 @ ''g'' @ [NUL] @ obj_bytes [(NumberInt, ''a'', le_int 4 k)])) = [''g'', [CHR 0x0C]]" for k
  proof -
    have "drop 8 (le_int 4 22 @ le_int 4 2 @ ''g'' @ [NUL] @ obj_bytes [(NumberInt, ''a'', le_int 4 k)]) =
        ''g'' @ NUL # obj_bytes [(NumberInt, ''a'', le_int 4 k)]" by simp
    moreover have "drop (length ''g'' + 1) (''g'' @ NUL # obj_bytes [(NumberInt, ''a'', le_int 4 k)]) =
        obj_bytes [(NumberInt, ''a'', le_int 4 k)]" by simp
    moreover have "c_str (obj_bytes [(NumberInt, ''a'', le_int 4 k)]) = [CHR 0x0C]"
      by (simp add: obj_bytes_def raw_bytes_def twelve c_str_def) (simp add: NUL_def)
    ultimately show ?thesis unfolding c_pair_def by (simp only: g)
  qed
  then show ?thesis unfolding doc_scope_def doc_cmp_one then_by_def leaf_cmp_def by (simp add: isNumber_def)
qed

text \<open>C35. The comparison is no order of all documents. Two longs that differ equal the same double; a date is compared with a
  timestamp in one direction and throws in the other; and two pieces of code with different scopes are equal,
  though their bytes are not.
\<close>

theorem order_breaks:
  "woCompare (start (doc_long (2 ^ 53 + 1))) (start (doc_double (2 ^ 53))) = Some (Inr 0) \<and>
    woCompare (start (doc_double (2 ^ 53))) (start (doc_long (2 ^ 53))) = Some (Inr 0) \<and>
    (\<exists>x > 0. woCompare (start (doc_long (2 ^ 53 + 1))) (start (doc_long (2 ^ 53))) = Some (Inr x)) \<and>
    woCompare (start (doc_date 5)) (start (doc_stamp 5)) = Some (Inl (Throw ''13111'')) \<and>
    (\<exists>x. woCompare (start (doc_stamp 5)) (start (doc_date 5)) = Some (Inr x)) \<and>
    obj_equal (start (doc_scope 1)) (start (doc_scope 2)) = Some (Inr True) \<and>
    binaryEqual (start (doc_scope 1)) (start (doc_scope 2)) = Inr False"
proof (intro conjI)
  note B = broken_docs
  show "woCompare (start (doc_long (2 ^ 53 + 1))) (start (doc_double (2 ^ 53))) = Some (Inr 0)"
    using compare_one[OF B(1,2)] doc_cmp_longs(1) by (metis sgn_0_0)
  show "woCompare (start (doc_double (2 ^ 53))) (start (doc_long (2 ^ 53))) = Some (Inr 0)"
    using compare_one[OF B(2,1)] doc_cmp_longs(2) by (metis sgn_0_0)
  obtain x where "woCompare (start (doc_long (2 ^ 53 + 1))) (start (doc_long (2 ^ 53))) = Some (Inr x)" "sgn x = sgn 1"
    using compare_one[OF B(1,1)] doc_cmp_longs(3) by metis
  then show "\<exists>x > 0. woCompare (start (doc_long (2 ^ 53 + 1))) (start (doc_long (2 ^ 53))) = Some (Inr x)"
    by (auto simp: sgn_if split: if_splits)
  show "woCompare (start (doc_date 5)) (start (doc_stamp 5)) = Some (Inl (Throw ''13111''))" by (rule date_throws)
  have "compatible (\<lambda>t v. t \<noteq> DateType) (\<lambda>t v. t \<noteq> Timestamp)" by (simp add: compatible_def comparable_def)
  from comparesD[OF docs_compare[OF this B(4,3)] holds_start holds_start]
  show "\<exists>x. woCompare (start (doc_stamp 5)) (start (doc_date 5)) = Some (Inr x)" by blast
  have "compatible (\<lambda>t v. t \<noteq> Timestamp) (\<lambda>t v. t \<noteq> Timestamp)" by (simp add: compatible_def comparable_def)
  from equal_at[OF holds_start B(5) holds_start B(5) this, of 1 2]
  show "obj_equal (start (doc_scope 1)) (start (doc_scope 2)) = Some (Inr True)"
    by (simp add: scopes_same) (simp add: doc_scope_def named_def)
  have len: "length (doc_bytes (doc_scope k)) = 30" for k by (simp add: doc_scope_def doc_sizes raw_bytes_def)
  have i: "int_at (start (doc_scope k)) 4 = Inr 30" for k using doc_at(1)[OF holds_start B(5)[of k]] len[of k] by simp
  have "int_le (le_int 4 1) = 1" "int_le (le_int 4 2) = 2" by (rule int_le_le_int; simp)+
  then have "le_int 4 1 \<noteq> le_int 4 2" by force
  then have "doc_bytes (doc_scope 1) \<noteq> doc_bytes (doc_scope 2)"
    by (simp add: doc_bytes_def doc_scope_def raw_field_def raw_bytes_def obj_bytes_def)
  then show "binaryEqual (start (doc_scope 1)) (start (doc_scope 2)) = Inr False"
    using memcmp_at_holds[OF holds_start holds_start, of 30 30 "doc_bytes (doc_scope 1)" "doc_bytes (doc_scope 2)"] len
    by (simp add: binaryEqual_def i bytes_cmp_zero)
qed

lemma Ordering_is_key_witness:
  "\<exists>ord. Ordering_make (start (doc_long (- 1))) = Some (Inr ord) \<and>
    woCompare_ordering True ord (start (doc_long 3)) (start (doc_long 4)) =
    woCompare_key True (start (doc_long (- 1))) (start (doc_long 3)) (start (doc_long 4))"
  by (rule Ordering_is_key[OF holds_start broken_docs(1) _ _ holds_start broken_docs(1) holds_start broken_docs(1)])
    (simp_all add: doc_long_def)

end
