(* ===== verification/MongoDotted.thy ===== *)
theory MongoDotted
imports MongoKeys StdString
begin

text \<open>
  Names that reach into objects, the order of documents under a key, and the documents made of the fields of
  others: \<open>getFieldDotted\<close> and \<open>getObjectField\<close> of \<open>bson/bson-inl.h\<close>, and the functions of \<open>db/jsobj.cpp\<close>
  from \<open>woSortOrder\<close> to \<open>okForStorage\<close>, without the sets of elements.
\<close>

section \<open>Lookups\<close>

definition res_bind :: "'a res option \<Rightarrow> ('a \<Rightarrow> 'b res option) \<Rightarrow> 'b res option" where
  "res_bind m k = Option.bind m (\<lambda>r. case r of Inl f \<Rightarrow> Some (Inl f) | Inr a \<Rightarrow> k a)"

lemma res_bind_simps [simp]:
  "res_bind None k = None" "res_bind (Some (Inl f)) k = Some (Inl f)" "res_bind (Some (Inr a)) k = k a"
  by (simp_all add: res_bind_def)

lemma res_bind_cong [fundef_cong]:
  "m = m' \<Longrightarrow> (\<And>a. m' = Some (Inr a) \<Longrightarrow> k a = k' a) \<Longrightarrow> res_bind m k = res_bind m' k'"
  by (cases m') (auto simp: res_bind_def split: sum.split)

definition getField_in :: "pointer_in \<Rightarrow> string \<Rightarrow> BSONElement res option" where
  "getField_in p name =
     (case iterator_over p of
        Inl f \<Rightarrow> Some (Inl f)
      | Inr i \<Rightarrow> find_loop (\<lambda>e. run_then (fieldName e) (\<lambda>n. Inr (n = name))) (fst p) i)"

definition hasField :: "pointer_in \<Rightarrow> string \<Rightarrow> bool res option" where
  "hasField p name = res_bind (getField_in p name) (\<lambda>e. Some (run_then (el_type e) (\<lambda>t. Inr (t \<noteq> EOO))))"

text \<open>The object of the default constructor: five bytes of its own.\<close>

definition empty_object :: pointer_in where
  "empty_object = (obj_bytes [], 0)"

definition getObjectField :: "pointer_in \<Rightarrow> string \<Rightarrow> pointer_in res option" where
  "getObjectField p name =
     res_bind (getField_in p name) (\<lambda>e. Some (run_then (el_type e) (\<lambda>t.
       if isABSONObj t then embedded_at e else Inr empty_object)))"

text \<open>\<open>strchr(name, '.')\<close>: what stands before the first dot, and after it.\<close>

definition split_dot :: "string \<Rightarrow> (string \<times> string) option" where
  "split_dot name =
     (case dropWhile (\<lambda>c. c \<noteq> CHR ''.'') name of
        [] \<Rightarrow> None
      | _ # rest \<Rightarrow> Some (takeWhile (\<lambda>c. c \<noteq> CHR ''.'') name, rest))"

lemma split_dot_parts: "split_dot name = Some (l, r) \<Longrightarrow> name = l @ CHR ''.'' # r \<and> CHR ''.'' \<notin> set l"
proof -
  assume "split_dot name = Some (l, r)"
  then obtain c where d: "dropWhile (\<lambda>c. c \<noteq> CHR ''.'') name = c # r" and l: "l = takeWhile (\<lambda>c. c \<noteq> CHR ''.'') name"
    unfolding split_dot_def by (cases "dropWhile (\<lambda>c. c \<noteq> CHR ''.'') name") simp_all
  have "c = CHR ''.''" using hd_dropWhile[of "\<lambda>c. c \<noteq> CHR ''.''" name] d by simp
  then have "name = l @ CHR ''.'' # r" using takeWhile_dropWhile_id[of "\<lambda>c. c \<noteq> CHR ''.''" name] d l by simp
  moreover have "CHR ''.'' \<notin> set l" unfolding l using set_takeWhileD[of "CHR ''.''" "\<lambda>c. c \<noteq> CHR ''.''" name] by blast
  ultimately show "name = l @ CHR ''.'' # r \<and> CHR ''.'' \<notin> set l" by blast
qed

lemma split_dot_shorter [termination_simp]: "split_dot name = Some (l, r) \<Longrightarrow> length r < length name"
  by (drule split_dot_parts) auto

text \<open>A field of the whole name, or else one of the rest of the name in the object before the dot.\<close>

function getFieldDotted :: "pointer_in \<Rightarrow> string \<Rightarrow> BSONElement res option" where
  "getFieldDotted p name =
     res_bind (getField_in p name) (\<lambda>e.
     res_bind (Some (el_type e)) (\<lambda>t.
       if t \<noteq> EOO then Some (Inr e)
       else case split_dot name of
              None \<Rightarrow> Some (Inr e)
            | Some (left, rest) \<Rightarrow>
                res_bind (getObjectField p left) (\<lambda>sub.
                res_bind (Some (isEmpty_at sub)) (\<lambda>none.
                  if none then Some (Inr no_element) else getFieldDotted sub rest))))"
  by pat_completeness auto
termination by (relation "measure (\<lambda>(p, name). length name)") (auto simp: split_dot_shorter)

declare getFieldDotted.simps [simp del]

text \<open>The first array on the way ends the search; the rest of the name is given back.\<close>

function getFieldDottedOrArray :: "pointer_in \<Rightarrow> string \<Rightarrow> (BSONElement \<times> string) res option" where
  "getFieldDottedOrArray p name =
     (let (first, rest) = (case split_dot name of Some (left, right) \<Rightarrow> (left, right) | None \<Rightarrow> (name, []))
      in res_bind (getField_in p first) (\<lambda>sub.
         res_bind (Some (el_type sub)) (\<lambda>t.
           if t = EOO then Some (Inr (no_element, rest))
           else if t = ArrayType \<or> rest = [] then Some (Inr (sub, rest))
           else if t = ObjectType then res_bind (Some (embedded_at sub)) (\<lambda>q. getFieldDottedOrArray q rest)
           else Some (Inr (no_element, rest)))))"
  by pat_completeness auto
termination
proof (relation "measure (\<lambda>(p, name). length name)", simp, goal_cases)
  case (1 p name x first rest sub t q)
  then show ?case by (auto split: option.splits dest: split_dot_shorter)
qed

declare getFieldDottedOrArray.simps [simp del]

section \<open>The order under a key\<close>

text \<open>A field that is missing counts as null.\<close>

definition staticNull :: BSONObj where
  "staticNull = obj_bytes [(jstNULL, [], [])]"

definition field_or_null :: "bool \<Rightarrow> pointer_in \<Rightarrow> string \<Rightarrow> BSONElement res option" where
  "field_or_null useDotted p name =
     res_bind (if useDotted then getFieldDotted p name else getField_in p name) (\<lambda>e.
       Some (run_then (el_type e) (\<lambda>t. Inr (if t = EOO then (staticNull, 4) else e))))"

definition sort_field :: "bool \<Rightarrow> pointer_in \<Rightarrow> pointer_in \<Rightarrow> BSONElement \<Rightarrow> int res option" where
  "sort_field useDotted p q f =
     res_bind (Some (fieldName f)) (\<lambda>name.
     res_bind (field_or_null useDotted p name) (\<lambda>l.
     res_bind (field_or_null useDotted q name) (\<lambda>r.
     res_bind (el_woCompare False l r) (\<lambda>x.
       Some (run_then (numberDouble f) (\<lambda>d. negated (double_less d 0) x))))))"

partial_function (option) sort_loop :: "bool \<Rightarrow> pointer_in \<Rightarrow> pointer_in \<Rightarrow> string \<Rightarrow> BSONObjIterator \<Rightarrow> int res option" where
  "sort_loop useDotted p q m k =
     (case run_then (it_next m k) (\<lambda>(f, k). run_then (el_type f) (\<lambda>t. Inr (f, t, k))) of
        Inl g \<Rightarrow> Some (Inl g)
      | Inr (f, t, k') \<Rightarrow>
          if t = EOO then Some (Inr 0)
          else Option.bind (sort_field useDotted p q f) (\<lambda>y.
            case y of
              Inl g \<Rightarrow> Some (Inl g)
            | Inr x \<Rightarrow> if x \<noteq> 0 then Some (Inr x) else sort_loop useDotted p q m k'))"

definition woSortOrder :: "bool \<Rightarrow> pointer_in \<Rightarrow> pointer_in \<Rightarrow> pointer_in \<Rightarrow> int res option" where
  "woSortOrder useDotted p q key =
     res_bind (Some (isEmpty_at p)) (\<lambda>lempty.
     res_bind (Some (isEmpty_at q)) (\<lambda>rempty.
       if lempty then Some (Inr (if rempty then 0 else - 1))
       else if rempty then Some (Inr 1)
       else res_bind (Some (isEmpty_at key)) (\<lambda>none.
         if none then Some (Inl (Throw ''10060''))
         else res_bind (Some (iterator_over key)) (\<lambda>k. sort_loop useDotted p q (fst key) k))))"

section \<open>Lookups in trees\<close>

fun tree_field :: "(string \<times> tree) list \<Rightarrow> string \<Rightarrow> tree option" where
  "tree_field [] name = None"
| "tree_field ((f, a) # fs) name = (if f = name then Some a else tree_field fs name)"

function tree_dotted :: "(string \<times> tree) list \<Rightarrow> string \<Rightarrow> tree option" where
  "tree_dotted fs name =
     (case tree_field fs name of
        Some a \<Rightarrow> Some a
      | None \<Rightarrow>
          (case split_dot name of
             None \<Rightarrow> None
           | Some (left, rest) \<Rightarrow>
               (case tree_field fs left of
                  Some (Node t gs) \<Rightarrow> tree_dotted gs rest
                | _ \<Rightarrow> None)))"
  by pat_completeness auto
termination by (relation "measure (\<lambda>(fs, name). length name)") (auto simp: split_dot_shorter)

declare tree_dotted.simps [simp del]

text \<open>An element for a tree: where the tree stands in memory, or the end of an object.\<close>

definition finds :: "BSONElement \<Rightarrow> tree option \<Rightarrow> bool" where
  "finds e a \<longleftrightarrow>
     (case a of
        None \<Rightarrow> el_type e = Inr EOO
      | Some b \<Rightarrow> \<exists>f q. placed e (tree_type b) f (tree_value b) q)"

lemma finds_type:
  assumes "finds e a"
  obtains t where "el_type e = Inr t" "t = EOO \<longleftrightarrow> a = None"
proof (cases a)
  case (Some b)
  then obtain f q where "placed e (tree_type b) f (tree_value b) q" using assms by (auto simp: finds_def)
  from placed_type[OF this] show ?thesis using that Some by simp
qed (use that assms in \<open>simp add: finds_def\<close>)

lemma find_loop_at:
  assumes "stands m i fs" "fields_ok P fs"
  shows "\<exists>e. find_loop (\<lambda>e. run_then (fieldName e) (\<lambda>n. Inr (n = name))) m i = Some (Inr e) \<and> finds e (tree_field fs name)"
  using assms
proof (induction fs arbitrary: i)
  case Nil
  then have "\<not> it_more i" by (auto simp: stands_def it_more_def body_def)
  then show ?case by (subst find_loop.simps) (simp add: finds_def)
next
  case (Cons fa fs)
  obtain f a where fa: "fa = (f, a)" by (cases fa)
  obtain i' p where i: "it_next m i = Inr ((m, it_pos i), i')" "stands m i' fs"
    and p: "placed (m, it_pos i) (tree_type a) f (tree_value a) p"
    by (rule stands_Cons[OF Cons.prems[unfolded fa]])
  have more: "it_more i" using Cons.prems(1) body_empty[of "fa # fs"] by (auto simp: stands_def it_more_def)
  have name: "fieldName (m, it_pos i) = Inr f" using p by (simp add: placed_def)
  have "fields_ok P fs" using Cons.prems(2) by (simp add: fields_ok_def)
  from Cons.IH[OF i(2) this] obtain e where
    e: "find_loop (\<lambda>e. run_then (fieldName e) (\<lambda>n. Inr (n = name))) m i' = Some (Inr e)" "finds e (tree_field fs name)" by blast
  have "finds (m, it_pos i) (Some a)" using p unfolding finds_def option.case by blast
  then show ?case
    using more i(1) name e by (subst find_loop.simps) (cases "f = name"; simp add: fa)
qed

lemma iterator_at_doc:
  assumes "holds p (doc_bytes fs)" "doc_ok P fs"
  obtains i where "iterator_over p = Inr i" "stands (fst p) i fs"
proof -
  have "int (length (doc_bytes fs)) \<noteq> 0" by (simp add: length_doc_bytes)
  then show thesis using that doc_at[OF assms] by (simp add: iterator_over_def)
qed

lemma getField_in_at:
  assumes "holds p (doc_bytes fs)" "doc_ok P fs"
  shows "\<exists>e. getField_in p name = Some (Inr e) \<and> finds e (tree_field fs name)"
proof -
  obtain i where i: "iterator_over p = Inr i" "stands (fst p) i fs" by (rule iterator_at_doc[OF assms])
  have "fields_ok P fs" using assms(2) by (simp add: doc_ok_fields)
  from find_loop_at[OF i(2) this] show ?thesis by (simp add: getField_in_def i(1))
qed

lemma tree_field_ok: "doc_ok P fs \<Longrightarrow> tree_field fs name = Some a \<Longrightarrow> tree_ok P a"
  by (induction fs name rule: tree_field.induct) (auto simp: doc_ok_fields fields_ok_def length_doc_bytes length_body_Cons split: if_splits)

lemma sub_doc_ok: "tree_ok P (Node t gs) \<Longrightarrow> doc_ok P gs"
  by (simp add: doc_ok_def isABSONObj_def)

lemma isEmpty_at_doc: "holds p (doc_bytes fs) \<Longrightarrow> doc_ok P fs \<Longrightarrow> isEmpty_at p = Inr (fs = [])"
  by (simp add: isEmpty_at_def doc_at(1) length_doc_bytes body_empty)

lemma empty_object_doc: "holds empty_object (doc_bytes [])"
  by (simp add: empty_object_def holds_start doc_bytes_def)

text \<open>The object of a field, or an empty one.\<close>

definition tree_object :: "tree option \<Rightarrow> (string \<times> tree) list" where
  "tree_object a = (case a of Some (Node t gs) \<Rightarrow> gs | _ \<Rightarrow> [])"

lemma getObjectField_at:
  assumes "holds p (doc_bytes fs)" "doc_ok P fs"
  shows "\<exists>q. getObjectField p name = Some (Inr q) \<and> holds q (doc_bytes (tree_object (tree_field fs name))) \<and>
    doc_ok P (tree_object (tree_field fs name))"
proof -
  obtain e where e: "getField_in p name = Some (Inr e)" "finds e (tree_field fs name)" using getField_in_at[OF assms] by blast
  have none: "doc_ok P []" by (simp add: doc_ok_def isABSONObj_def length_doc_bytes body_Nil BSONObjMaxInternalSize_def)
  consider (none) "tree_field fs name = None" | (leaf) t v where "tree_field fs name = Some (Leaf t v)"
    | (node) t gs where "tree_field fs name = Some (Node t gs)"
    by (metis option.exhaust tree.exhaust)
  then show ?thesis
  proof cases
    case none
    then have "el_type e = Inr EOO" using e(2) by (simp add: finds_def)
    then have "getObjectField p name = Some (Inr empty_object)" using e(1) by (simp add: getObjectField_def isABSONObj_def)
    then show ?thesis using none empty_object_doc \<open>doc_ok P []\<close> by (simp add: tree_object_def)
  next
    case leaf
    then have "el_type e = Inr t" "\<not> isABSONObj t"
      using e(2) tree_field_ok[OF assms(2) leaf] by (auto simp: finds_def placed_def)
    then have "getObjectField p name = Some (Inr empty_object)" using e(1) by (simp add: getObjectField_def)
    then show ?thesis using leaf empty_object_doc none by (simp add: tree_object_def)
  next
    case node
    have ok: "tree_ok P (Node t gs)" by (rule tree_field_ok[OF assms(2) node])
    obtain f q where "placed e t f (doc_bytes gs) q" using e(2) node by (auto simp: finds_def)
    note d = embedded_doc[OF this ok]
    then have "getObjectField p name = Some (Inr q)" using e(1) ok by (simp add: getObjectField_def)
    then show ?thesis using node sub_doc_ok[OF ok] d(2) by (simp add: tree_object_def)
  qed
qed

lemma tree_dotted_Nil: "tree_dotted [] name = None"
  by (subst tree_dotted.simps) (simp split: option.split)

lemma getFieldDotted_at:
  assumes "holds p (doc_bytes fs)" "doc_ok P fs"
  shows "\<exists>e. getFieldDotted p name = Some (Inr e) \<and> finds e (tree_dotted fs name)"
  using assms
proof (induction fs name arbitrary: p rule: tree_dotted.induct)
  case (1 fs name)
  obtain e where e: "getField_in p name = Some (Inr e)" "finds e (tree_field fs name)" using getField_in_at[OF "1.prems"] by blast
  obtain t where t: "el_type e = Inr t" "t = EOO \<longleftrightarrow> tree_field fs name = None" by (rule finds_type[OF e(2)])
  show ?case
  proof (cases "tree_field fs name")
    case (Some a)
    then show ?thesis using e t by (subst getFieldDotted.simps, subst tree_dotted.simps) simp
  next
    case None
    show ?thesis
    proof (cases "split_dot name")
      case None': None
      then show ?thesis using None e t by (subst getFieldDotted.simps, subst tree_dotted.simps) simp
    next
      case (Some lr)
      obtain left rest where lr: "lr = (left, rest)" by (cases lr)
      let ?gs = "tree_object (tree_field fs left)"
      obtain q where q: "getObjectField p left = Some (Inr q)" "holds q (doc_bytes ?gs)" "doc_ok P ?gs"
        using getObjectField_at[OF "1.prems"] by blast
      have d: "tree_dotted fs name = tree_dotted ?gs rest"
        using None Some lr tree_dotted_Nil[of rest]
        by (subst tree_dotted.simps) (simp add: tree_object_def split: option.split tree.split)
      have g: "getFieldDotted p name = (if ?gs = [] then Some (Inr no_element) else getFieldDotted q rest)"
        using None Some lr e(1) t q(1) isEmpty_at_doc[OF q(2,3)] by (subst getFieldDotted.simps) simp
      show ?thesis
      proof (cases "?gs = []")
        case True
        then show ?thesis unfolding d g True by (simp add: tree_dotted_Nil finds_def)
      next
        case False
        then obtain u hs where n: "tree_field fs left = Some (Node u hs)" "?gs = hs"
          by (auto simp: tree_object_def split: option.splits tree.splits)
        have "doc_ok P hs" "holds q (doc_bytes hs)" using q(2,3) n(2) by simp_all
        from "1.IH"[OF None Some lr[symmetric] n(1) refl this(2,1)] show ?thesis unfolding d g using False n(2) by simp
      qed
    qed
  qed
qed

section \<open>The order of trees under a key\<close>

definition val_cmp :: "tree \<Rightarrow> tree \<Rightarrow> int" where
  "val_cmp = then_by (\<lambda>a b. rank (tree_type a) - rank (tree_type b)) tree_cmp"

definition tree_get :: "bool \<Rightarrow> (string \<times> tree) list \<Rightarrow> string \<Rightarrow> tree" where
  "tree_get useDotted fs name =
     (case (if useDotted then tree_dotted fs name else tree_field fs name) of None \<Rightarrow> Leaf jstNULL [] | Some a \<Rightarrow> a)"

definition key_cmp :: "bool \<Rightarrow> string \<times> tree \<Rightarrow> (string \<times> tree) list \<Rightarrow> (string \<times> tree) list \<Rightarrow> int" where
  "key_cmp useDotted k fs gs =
     (let x = val_cmp (tree_get useDotted fs (fst k)) (tree_get useDotted gs (fst k)) in if key_down k then - x else x)"

fun keys_cmp :: "bool \<Rightarrow> (string \<times> tree) list \<Rightarrow> (string \<times> tree) list \<Rightarrow> (string \<times> tree) list \<Rightarrow> int" where
  "keys_cmp useDotted [] = (\<lambda>_ _. 0)"
| "keys_cmp useDotted (k # ks) = then_by (key_cmp useDotted k) (keys_cmp useDotted ks)"

text \<open>An empty document is before all others.\<close>

definition sort_cmp :: "bool \<Rightarrow> (string \<times> tree) list \<Rightarrow> (string \<times> tree) list \<Rightarrow> (string \<times> tree) list \<Rightarrow> int" where
  "sort_cmp useDotted ks =
     then_by (\<lambda>fs gs. of_bool (fs \<noteq> []) - of_bool (gs \<noteq> [])) (\<lambda>fs gs. if fs = [] then 0 else keys_cmp useDotted ks fs gs)"

lemma null_leaf: "typed_value jstNULL []" "\<not> isABSONObj jstNULL"
  by (simp_all add: typed_plain well_sized_def isABSONObj_def)

lemma tree_dotted_ok: "doc_ok P fs \<Longrightarrow> tree_dotted fs name = Some a \<Longrightarrow> tree_ok P a"
proof (induction fs name rule: tree_dotted.induct)
  case (1 fs name)
  show ?case
  proof (cases "tree_field fs name")
    case (Some b)
    then show ?thesis using 1(2,3) tree_field_ok[of P fs name b] by (subst (asm) tree_dotted.simps) simp
  next
    case None
    then obtain left rest t gs where r: "split_dot name = Some (left, rest)" "tree_field fs left = Some (Node t gs)"
      "tree_dotted gs rest = Some a"
      using 1(3) by (subst (asm) tree_dotted.simps) (auto split: option.splits tree.splits)
    have "doc_ok P gs" using tree_field_ok[OF 1(2) r(2)] sub_doc_ok by blast
    then show ?thesis using 1(1)[OF None r(1) refl r(2) refl] r(3) by simp
  qed
qed

lemma tree_get_ok:
  assumes "doc_ok P fs" "P jstNULL []"
  shows "tree_ok P (tree_get useDotted fs name)"
proof -
  have n: "tree_ok P (Leaf jstNULL [])" using assms(2) null_leaf by simp
  show ?thesis
    using tree_dotted_ok[OF assms(1), of name] tree_field_ok[OF assms(1), of name] n
    by (simp add: tree_get_def split: option.split)
qed

lemma val_comparison: "comparison val_cmp (tree_ok exact)"
proof (rule comparison_bounded)
  fix n
  show "comparison val_cmp (\<lambda>x. size x < n \<and> tree_ok exact x)"
    unfolding val_cmp_def
  proof (rule then_by_comparison)
    show "comparison (\<lambda>a b. rank (tree_type a) - rank (tree_type b)) (\<lambda>x. size x < n \<and> tree_ok exact x)"
      by (rule ints.keyed[where key = "\<lambda>a. rank (tree_type a)"]) simp_all
    show "comparison tree_cmp (\<lambda>x. (size x < n \<and> tree_ok exact x) \<and> rank (tree_type a) - rank (tree_type x) = 0)" for a
      by (rule comparison.restrict[OF tree_comparison[of n "rank (tree_type a)"]]) auto
  qed
qed

lemma key_comparison: "comparison (key_cmp useDotted k) (doc_ok exact)"
proof -
  have v: "comparison (\<lambda>fs gs. val_cmp (tree_get useDotted fs (fst k)) (tree_get useDotted gs (fst k))) (doc_ok exact)"
    by (rule comparison.keyed[OF val_comparison, where key = "\<lambda>fs. tree_get useDotted fs (fst k)"])
      (simp_all add: tree_get_ok exact_def)
  show ?thesis
  proof (cases "key_down k")
    case True
    show ?thesis using comparison.reversed[OF v] by (simp add: key_cmp_def[abs_def] True)
  next
    case False
    show ?thesis using v by (simp add: key_cmp_def[abs_def] False)
  qed
qed

lemma keys_comparison: "comparison (keys_cmp useDotted ks) (doc_ok exact)"
proof (induction ks)
  case Nil
  show ?case by unfold_locales simp_all
next
  case (Cons k ks)
  show ?case
    unfolding keys_cmp.simps by (rule then_by_comparison[OF key_comparison comparison.restrict[OF Cons]]) simp
qed

lemma sort_comparison: "comparison (sort_cmp useDotted ks) (doc_ok exact)"
  unfolding sort_cmp_def
proof (rule then_by_comparison)
  show "comparison (\<lambda>fs gs. of_bool (fs \<noteq> []) - of_bool (gs \<noteq> [])) (doc_ok exact)"
    by (rule ints.keyed[where key = "\<lambda>fs. of_bool (fs \<noteq> [])"]) simp_all
next
  fix a :: "(string \<times> tree) list"
  show "comparison (\<lambda>fs gs. if fs = [] then 0 else keys_cmp useDotted ks fs gs)
      (\<lambda>fs. doc_ok exact fs \<and> of_bool (a \<noteq> []) - of_bool (fs \<noteq> []) = (0 :: int))"
  proof (cases "a = []")
    case True
    then show ?thesis by unfold_locales auto
  next
    case False
    then show ?thesis
      by (intro comparison.keyed[OF keys_comparison[of useDotted ks], where key = "\<lambda>fs. fs"]) auto
  qed
qed

section \<open>Sorting in memory\<close>

lemma element_value:
  assumes "placed l (tree_type a) f (tree_value a) p" "placed r (tree_type b) g (tree_value b) q"
    and "tree_ok P a" "tree_ok Q b" "compatible P Q"
  shows "\<exists>x. el_woCompare False l r = Some (Inr x) \<and> same_sign x (val_cmp a b)"
proof (cases "rank (tree_type a) = rank (tree_type b)")
  case True
  have "\<forall>t fs u gs. a = Node t fs \<and> b = Node u gs \<longrightarrow> compares fs gs"
    using assms(3,4) docs_compare[OF assms(5)] sub_doc_ok by blast
  from value_at[OF assms(1-4) True assms(5) this] obtain r' where r': "compareElementValues l r = Inr r'"
    "case r' of CmpIs x \<Rightarrow> same_sign x (tree_cmp a b)
     | CmpObjs p q \<Rightarrow> \<exists>x. woCompare p q = Some (Inr x) \<and> same_sign x (tree_cmp a b)" by blast
  have "element_cmp False l r = Inr r'" using element_head[OF assms(1,2), of False] True r'(1) by simp
  moreover have "val_cmp a b = tree_cmp a b" using True by (simp add: val_cmp_def then_by_def)
  ultimately show ?thesis using r'(2) by (cases r') (simp_all add: el_woCompare_def)
next
  case False
  then have "el_woCompare False l r = Some (Inr (val_cmp a b))"
    unfolding el_woCompare_def element_head[OF assms(1,2)] val_cmp_def then_by_def by simp
  moreover have "\<bar>val_cmp a b\<bar> < 2 ^ 31" using False rank_small by (simp add: val_cmp_def then_by_def)
  ultimately show ?thesis by (simp add: same_sign_refl)
qed

lemma null_placed: "\<exists>q. placed (staticNull, 4) jstNULL [] [] q"
proof -
  have "staticNull = le_int 4 7 @ raw_bytes (jstNULL, [], []) @ [NUL]" by (simp add: staticNull_def obj_bytes_def raw_bytes_def)
  then have "at_raw (staticNull, 4) (jstNULL, [], [])" unfolding at_raw_def by (intro exI[of _ "le_int 4 7"] exI[of _ "[NUL]"]) simp
  moreover have "raw_ok (jstNULL, [], [])" by (simp add: raw_ok_def well_sized_def raw_bytes_def)
  ultimately show ?thesis using at_raw_placed[OF _ _ null_leaf(1)] by blast
qed

lemma field_or_null_at:
  assumes "holds p (doc_bytes fs)" "doc_ok P fs"
  shows "\<exists>e f q. field_or_null useDotted p name = Some (Inr e) \<and>
    placed e (tree_type (tree_get useDotted fs name)) f (tree_value (tree_get useDotted fs name)) q"
proof -
  let ?a = "if useDotted then tree_dotted fs name else tree_field fs name"
  obtain e where e: "(if useDotted then getFieldDotted p name else getField_in p name) = Some (Inr e)" "finds e ?a"
    using getFieldDotted_at[OF assms, of name] getField_in_at[OF assms, of name] by (cases useDotted) (simp_all only: if_True if_False, blast+)
  obtain t where t: "el_type e = Inr t" "t = EOO \<longleftrightarrow> ?a = None" by (rule finds_type[OF e(2)])
  show ?thesis
  proof (cases ?a)
    case None
    then have "tree_get useDotted fs name = Leaf jstNULL []" "field_or_null useDotted p name = Some (Inr (staticNull, 4))"
      using e(1) t by (simp_all add: tree_get_def field_or_null_def)
    then show ?thesis using null_placed by (metis tree_type.simps(1) tree_value.simps(1))
  next
    case (Some a)
    then have "tree_get useDotted fs name = a" "field_or_null useDotted p name = Some (Inr e)"
      using e(1) t by (simp_all add: tree_get_def field_or_null_def)
    moreover obtain f q where "placed e (tree_type a) f (tree_value a) q" using e(2) unfolding Some finds_def by auto
    ultimately show ?thesis by blast
  qed
qed

lemma sort_field_at:
  assumes "holds p (doc_bytes fs)" "doc_ok P fs" "holds q (doc_bytes gs)" "doc_ok Q gs" "compatible P Q" "P jstNULL []" "Q jstNULL []"
    and "placed f (tree_type a) n (tree_value a) v"
  shows "\<exists>x. sort_field useDotted p q f = Some (Inr x) \<and> same_sign x (key_cmp useDotted (n, a) fs gs)"
proof -
  obtain l g u where l: "field_or_null useDotted p n = Some (Inr l)"
    "placed l (tree_type (tree_get useDotted fs n)) g (tree_value (tree_get useDotted fs n)) u"
    using field_or_null_at[OF assms(1,2)] by blast
  obtain r h w where r: "field_or_null useDotted q n = Some (Inr r)"
    "placed r (tree_type (tree_get useDotted gs n)) h (tree_value (tree_get useDotted gs n)) w"
    using field_or_null_at[OF assms(3,4)] by blast
  obtain x where x: "el_woCompare False l r = Some (Inr x)" "same_sign x (val_cmp (tree_get useDotted fs n) (tree_get useDotted gs n))"
    using element_value[OF l(2) r(2) tree_get_ok[OF assms(2,6)] tree_get_ok[OF assms(4,7)] assms(5)] by blast
  obtain d where d: "numberDouble f = Inr d" "double_less d 0 = key_down (n, a)" using numberDouble_placed[OF assms(8)] by blast
  have "int_sum (- x) = Inr (- x)" using x(2) by (simp add: same_sign_def int_sum_def INT_MIN32_def abs_less_iff)
  then have "sort_field useDotted p q f = Some (Inr (if key_down (n, a) then - x else x))"
    using assms(8) l(1) r(1) x(1) d by (simp add: sort_field_def negated_def placed_def)
  moreover have "same_sign (if key_down (n, a) then - x else x) (key_cmp useDotted (n, a) fs gs)"
    using x(2) by (simp add: key_cmp_def same_sign_def Let_def sgn_minus)
  ultimately show ?thesis by blast
qed

lemma sort_loop_at:
  assumes "holds p (doc_bytes fs)" "doc_ok P fs" "holds q (doc_bytes gs)" "doc_ok Q gs" "compatible P Q" "P jstNULL []" "Q jstNULL []"
    and "stands m k ks" "fields_ok R ks"
  shows "\<exists>x. sort_loop useDotted p q m k = Some (Inr x) \<and> same_sign x (keys_cmp useDotted ks fs gs)"
  using assms(8,9)
proof (induction ks arbitrary: k)
  case Nil
  obtain k' where "it_next m k = Inr ((m, it_pos k), k')" using stands_Nil(1)[OF Nil(1)] by blast
  then show ?case using stands_Nil(2)[OF Nil(1)] by (subst sort_loop.simps) (simp add: same_sign_refl)
next
  case (Cons c ks)
  obtain n a where c: "c = (n, a)" by (cases c)
  obtain k' v where k: "it_next m k = Inr ((m, it_pos k), k')" "stands m k' ks"
    and f: "placed (m, it_pos k) (tree_type a) n (tree_value a) v"
    by (rule stands_Cons[OF Cons.prems[unfolded c]])
  obtain x where x: "sort_field useDotted p q (m, it_pos k) = Some (Inr x)" "same_sign x (key_cmp useDotted c fs gs)"
    using sort_field_at[OF assms(1-7) f] unfolding c by blast
  have "fields_ok R ks" using Cons.prems(2) by (simp add: fields_ok_def)
  from Cons.IH[OF k(2) this] obtain y where
    y: "sort_loop useDotted p q m k' = Some (Inr y)" "same_sign y (keys_cmp useDotted ks fs gs)" by blast
  show ?case
    using placed_type[OF f] k(1) x y same_sign_zero[OF x(2)] by (subst sort_loop.simps) (simp add: then_by_def)
qed

text \<open>C27. \<open>woSortOrder\<close> under a typed key that is not empty is an order of documents (typed, without timestamps, with longs of at
  most 53 bits). It ends with a number. Of an empty document and one that is not, the empty one comes first, whatever the key
  says, a descending one too, and two empty ones are equal. Of two that are not empty the sign is the one of comparing the
  fields of the key one after the other, a missing field as null and with the other sign where the key descends. The other
  direction has the other sign, and a document sorted before one before a third is before the third.
\<close>

theorem documents_sorted:
  assumes "holds key (doc_bytes ks)" "doc_ok R ks" "ks \<noteq> []"
    and "doc_ok exact fs" "doc_ok exact gs" "doc_ok exact hs"
    and "holds p (doc_bytes fs)" "holds q (doc_bytes gs)" "holds r (doc_bytes hs)"
  shows "\<exists>x y z w. woSortOrder useDotted p q key = Some (Inr x) \<and> woSortOrder useDotted q p key = Some (Inr y) \<and>
    woSortOrder useDotted q r key = Some (Inr z) \<and> woSortOrder useDotted p r key = Some (Inr w) \<and>
    sgn x = sgn (if fs = [] \<or> gs = [] then of_bool (fs \<noteq> []) - of_bool (gs \<noteq> []) else keys_cmp useDotted ks fs gs) \<and>
    sgn y = - sgn x \<and> (x \<le> 0 \<and> z \<le> 0 \<longrightarrow> w \<le> 0)"
proof -
  have sorts: "\<exists>x. woSortOrder useDotted p q key = Some (Inr x) \<and> sgn x = sgn (sort_cmp useDotted ks fs gs)"
    if h: "holds p (doc_bytes fs)" "doc_ok exact fs" "holds q (doc_bytes gs)" "doc_ok exact gs" for p q fs gs
  proof -
    note e = isEmpty_at_doc[OF h(1,2)] isEmpty_at_doc[OF h(3,4)] isEmpty_at_doc[OF assms(1,2)]
    show ?thesis
    proof (cases "fs = [] \<or> gs = []")
      case True
      then show ?thesis using e by (auto simp: woSortOrder_def sort_cmp_def then_by_def)
    next
      case False
      obtain k where k: "iterator_over key = Inr k" "stands (fst key) k ks" by (rule iterator_at_doc[OF assms(1,2)])
      have "compatible exact exact" "exact jstNULL []" by (simp_all add: compatible_def comparable_def exact_def)
      moreover have "fields_ok R ks" using assms(2) by (simp add: doc_ok_fields)
      ultimately obtain x where "sort_loop useDotted p q (fst key) k = Some (Inr x)" "same_sign x (keys_cmp useDotted ks fs gs)"
        using sort_loop_at[OF h _ _ _ k(2)] by blast
      then show ?thesis
        using e k(1) False assms(3) by (simp add: woSortOrder_def sort_cmp_def then_by_def same_sign_def)
    qed
  qed
  obtain x where x: "woSortOrder useDotted p q key = Some (Inr x)" "sgn x = sgn (sort_cmp useDotted ks fs gs)"
    using sorts[OF assms(7,4,8,5)] by blast
  obtain y where y: "woSortOrder useDotted q p key = Some (Inr y)" "sgn y = sgn (sort_cmp useDotted ks gs fs)"
    using sorts[OF assms(8,5,7,4)] by blast
  obtain z where z: "woSortOrder useDotted q r key = Some (Inr z)" "sgn z = sgn (sort_cmp useDotted ks gs hs)"
    using sorts[OF assms(8,5,9,6)] by blast
  obtain w where w: "woSortOrder useDotted p r key = Some (Inr w)" "sgn w = sgn (sort_cmp useDotted ks fs hs)"
    using sorts[OF assms(7,4,9,6)] by blast
  have s: "sgn u = sgn v \<Longrightarrow> u \<le> 0 \<longleftrightarrow> v \<le> 0" for u v :: int by (auto simp: sgn_if split: if_splits)
  have "sgn y = - sgn x" using comparison.opposite[OF sort_comparison assms(4,5)] x(2) y(2) by simp
  moreover have "x \<le> 0 \<and> z \<le> 0 \<longrightarrow> w \<le> 0"
    using comparison.chain[OF sort_comparison assms(4-6)] s[OF x(2)] s[OF z(2)] s[OF w(2)] by blast
  moreover have "sort_cmp useDotted ks fs gs =
      (if fs = [] \<or> gs = [] then of_bool (fs \<noteq> []) - of_bool (gs \<noteq> []) else keys_cmp useDotted ks fs gs)"
    by (auto simp: sort_cmp_def then_by_def)
  ultimately show ?thesis using x y(1) z(1) w(1) by auto
qed

lemma small_long_ok: "\<bar>n\<bar> < 2 ^ 53 \<Longrightarrow> doc_ok exact (doc_long n)"
  unfolding doc_long_def by (intro one_ok int_leaf_ok) (simp_all add: exact_def int_le_le_int)

lemma documents_sorted_witness:
  "\<exists>x y. woSortOrder True (start (doc_long 1)) (start (doc_long 2)) (start (doc_long (- 1))) = Some (Inr x) \<and>
    woSortOrder True (start (doc_long 2)) (start (doc_long 1)) (start (doc_long (- 1))) = Some (Inr y) \<and> sgn y = - sgn x"
proof -
  have "doc_long (- 1) \<noteq> []" by (simp add: doc_long_def)
  from documents_sorted[where useDotted = True, OF holds_start broken_docs(1) this small_long_ok small_long_ok small_long_ok
      holds_start holds_start holds_start, of 1 2 2] show ?thesis by auto
qed

section \<open>What may be stored\<close>

definition mayEncapsulate :: "BSONType \<Rightarrow> bool" where
  "mayEncapsulate t \<longleftrightarrow> t = ObjectType \<or> t = ArrayType \<or> t = CodeWScope"

definition scope_at :: "BSONElement \<Rightarrow> pointer_in res" where
  "scope_at e =
     run_then (el_type e) (\<lambda>t.
       if t = CodeWScope
       then run_then (el_value e) (\<lambda>v. run_then (int_at (plus_ptr v 4) 4) (\<lambda>n. object_at (plus_ptr v (4 + 4 + n))))
       else Inl (Throw ''assertion''))"

datatype storage_round = StoreEnds bool | StoreGoes BSONObjIterator | StoreIn pointer_in BSONObjIterator

definition storage_step :: "string \<Rightarrow> BSONObjIterator \<Rightarrow> storage_round res" where
  "storage_step m i =
     run_then (it_next m i) (\<lambda>(e, i).
     run_then (fieldName e) (\<lambda>name.
     run_then (el_type e) (\<lambda>t.
       if CHR ''.'' \<in> set name \<or> CHR ''$'' \<in> set name then Inr (StoreEnds (name = ''$ref'' \<or> name = ''$id''))
       else if isABSONObj t then run_then (embedded_at e) (\<lambda>p. Inr (StoreIn p i))
       else if mayEncapsulate t then run_then (scope_at e) (\<lambda>p. Inr (StoreIn p i))
       else Inr (StoreGoes i))))"

partial_function (option) storage_loop :: "string \<Rightarrow> BSONObjIterator \<Rightarrow> bool res option" where
  "storage_loop m i =
     (if \<not> it_more i then Some (Inr True)
      else case storage_step m i of
             Inl f \<Rightarrow> Some (Inl f)
           | Inr (StoreEnds b) \<Rightarrow> Some (Inr b)
           | Inr (StoreGoes i') \<Rightarrow> storage_loop m i'
           | Inr (StoreIn p i') \<Rightarrow>
               (case iterator_over p of
                  Inl f \<Rightarrow> Some (Inl f)
                | Inr j \<Rightarrow>
                    Option.bind (storage_loop (fst p) j) (\<lambda>y.
                      case y of
                        Inl f \<Rightarrow> Some (Inl f)
                      | Inr ok \<Rightarrow> if \<not> ok then Some (Inr False) else storage_loop m i')))"

definition okForStorage :: "pointer_in \<Rightarrow> bool res option" where
  "okForStorage p = (case iterator_over p of Inl f \<Rightarrow> Some (Inl f) | Inr i \<Rightarrow> storage_loop (fst p) i)"

text \<open>What it says of a tree: the first name with a dot or a dollar sign decides for all that follows it.\<close>

fun storable :: "tree \<Rightarrow> bool" where
  "storable (Leaf t v) \<longleftrightarrow> True"
| "storable (Node t []) \<longleftrightarrow> True"
| "storable (Node t ((f, a) # fs)) \<longleftrightarrow>
     (if CHR ''.'' \<in> set f \<or> CHR ''$'' \<in> set f then f = ''$ref'' \<or> f = ''$id'' else storable a \<and> storable (Node t fs))"

definition no_scope :: "BSONType \<Rightarrow> string \<Rightarrow> bool" where
  "no_scope t v \<longleftrightarrow> t \<noteq> CodeWScope"

lemma storage_loop_at:
  assumes "stands m i fs" "fields_ok no_scope fs"
    and "\<And>f t hs p j. (f, Node t hs) \<in> set fs \<Longrightarrow> holds p (doc_bytes hs) \<Longrightarrow> doc_ok no_scope hs \<Longrightarrow>
      okForStorage p = Some (Inr (storable (Node t hs)))"
  shows "storage_loop m i = Some (Inr (storable (Node ObjectType fs)))"
  using assms
proof (induction fs arbitrary: i)
  case Nil
  then have "\<not> it_more i" by (auto simp: stands_def it_more_def body_def)
  then show ?case by (subst storage_loop.simps) simp
next
  case (Cons fa fs)
  obtain f a where fa: "fa = (f, a)" by (cases fa)
  obtain i' p where i: "it_next m i = Inr ((m, it_pos i), i')" "stands m i' fs"
    and p: "placed (m, it_pos i) (tree_type a) f (tree_value a) p"
    by (rule stands_Cons[OF Cons.prems(1,2)[unfolded fa]])
  have more: "it_more i" using Cons.prems(1) body_empty[of "fa # fs"] by (auto simp: stands_def it_more_def)
  have e: "fieldName (m, it_pos i) = Inr f" "el_type (m, it_pos i) = Inr (tree_type a)" using p by (simp_all add: placed_def)
  have ok: "fields_ok no_scope fs" "tree_ok no_scope a" using Cons.prems(2) by (simp_all add: fields_ok_def fa)
  have rest: "storage_loop m i' = Some (Inr (storable (Node ObjectType fs)))"
  proof (rule Cons.IH[OF i(2) ok(1)])
    show "okForStorage p = Some (Inr (storable (Node t hs)))"
      if "(f, Node t hs) \<in> set fs" "holds p (doc_bytes hs)" "doc_ok no_scope hs" for f t hs p
      using Cons.prems(3)[of f t hs p] that by simp
  qed
  note step = storage_step_def[of m i, unfolded i(1) run_then_simps prod.case e]
  show ?case
  proof (cases "CHR ''.'' \<in> set f \<or> CHR ''$'' \<in> set f")
    case True
    then show ?thesis using more step by (subst storage_loop.simps) (simp add: fa)
  next
    case False
    show ?thesis
    proof (cases a)
      case (Leaf t v)
      then have "\<not> isABSONObj t" "\<not> mayEncapsulate t" using ok(2) by (auto simp: no_scope_def mayEncapsulate_def isABSONObj_def)
      then have "storage_step m i = Inr (StoreGoes i')" unfolding step using Leaf False by simp
      then show ?thesis using more rest False Leaf by (subst storage_loop.simps) (simp add: fa)
    next
      case (Node t hs)
      note d = embedded_doc[OF p[unfolded Node tree_type.simps tree_value_Node] ok(2)[unfolded Node]]
      have ok': "doc_ok no_scope hs" using ok(2) Node sub_doc_ok by blast
      obtain j where j: "iterator_over p = Inr j" by (rule iterator_at_doc[OF d(2) ok'])
      have "okForStorage p = Some (Inr (storable (Node t hs)))" using Cons.prems(3)[of f t hs p] d(2) ok' Node fa by simp
      then have sub: "storage_loop (fst p) j = Some (Inr (storable (Node t hs)))" by (simp add: okForStorage_def j)
      have "storage_step m i = Inr (StoreIn p i')" unfolding step using d ok(2) Node False by simp
      then show ?thesis using more rest False Node j sub by (subst storage_loop.simps) (simp add: fa)
    qed
  qed
qed

text \<open>On typed documents without code with scopes the check of what may be stored ends, and says that every name up to the
  first with a dot or a dollar sign in it is in order, objects inside included; that one decides the rest, and with
  \<open>$ref\<close> or \<open>$id\<close> it accepts everything behind it.
\<close>

theorem storage_checked:
  assumes "holds p (doc_bytes fs)" "doc_ok no_scope fs"
  shows "okForStorage p = Some (Inr (storable (Node ObjectType fs)))"
  using assms
proof (induction "size (Node ObjectType fs)" arbitrary: fs p rule: less_induct)
  case less
  obtain i where i: "iterator_over p = Inr i" "stands (fst p) i fs" by (rule iterator_at_doc[OF less.prems])
  have same: "storable (Node t hs) = storable (Node u hs)" for t u hs
  proof (induction hs)
    case (Cons p hs)
    then show ?case by (cases p) (simp only: storable.simps)
  qed simp
  have "storage_loop (fst p) i = Some (Inr (storable (Node ObjectType fs)))"
  proof (rule storage_loop_at[OF i(2)])
    show "fields_ok no_scope fs" using less.prems(2) by (simp add: doc_ok_fields)
    show "okForStorage p' = Some (Inr (storable (Node t hs)))"
      if "(f, Node t hs) \<in> set fs" "holds p' (doc_bytes hs)" "doc_ok no_scope hs" for f t hs p'
      unfolding same[of t hs ObjectType] using size_in_Node[OF that(1), of ObjectType] that(2,3) by (intro less.hyps) simp_all
  qed
  then show ?case by (simp add: okForStorage_def i(1))
qed

lemma storage_checked_witness:
  "okForStorage (start [(''$ref'', Leaf jstNULL []), (''a.b'', Leaf jstNULL [])]) = Some (Inr True) \<and>
    okForStorage (start [(''a.b'', Leaf jstNULL [])]) = Some (Inr False)"
proof -
  have "doc_ok no_scope [(''$ref'', Leaf jstNULL []), (''a.b'', Leaf jstNULL [])]" "doc_ok no_scope [(''a.b'', Leaf jstNULL [])]"
    using null_leaf by (simp_all add: doc_ok_def isABSONObj_def NUL_def no_scope_def doc_sizes)
  from storage_checked[OF holds_start this(1)] storage_checked[OF holds_start this(2)] show ?thesis by simp
qed

end
