(* ===== verification/MongoNames.thy ===== *)
theory MongoNames
imports MongoDotted
begin

text \<open>
  Names and their order: \<open>LexNumCmp\<close> and the cutting of strings of \<open>util/stringutils.{h,cpp}\<close>, the comparison of
  dotted names, the operators behind a dollar sign and the names of types of \<open>db/jsobj.cpp\<close>.
\<close>

section \<open>The comparison of names\<close>

definition isNumber_char :: "char \<Rightarrow> bool" where
  "isNumber_char c \<longleftrightarrow> CHR ''0'' \<le> c \<and> c \<le> CHR ''9''"

text \<open>A \<open>char\<close> has a sign.\<close>

definition char_value :: "char \<Rightarrow> int" where
  "char_value c = int_le [c]"

text \<open>The loop over the rests of two strings. At the end of a word that starts with zeros, these do not count.\<close>

definition number_from :: "bool \<Rightarrow> string \<Rightarrow> string" where
  "number_from startWord s = (if startWord then dropWhile (\<lambda>c. c = CHR ''0'') s else s)"

lemma number_shorter [termination_simp]: "isNumber_char c \<Longrightarrow> length (dropWhile isNumber_char (number_from w (c # s))) < Suc (length s)"
  using length_dropWhile_le[of "\<lambda>c. c = CHR ''0''" s] length_dropWhile_le[of isNumber_char s]
    length_dropWhile_le[of isNumber_char "dropWhile (\<lambda>c. c = CHR ''0'') s"]
  by (simp add: number_from_def)

function lex_loop :: "bool \<Rightarrow> bool \<Rightarrow> string \<Rightarrow> string \<Rightarrow> int" where
  "lex_loop lexOnly startWord [] [] = 0"
| "lex_loop lexOnly startWord (a # s) [] = 1"
| "lex_loop lexOnly startWord [] (b # u) = - 1"
| "lex_loop lexOnly startWord (a # s) (b # u) =
     (if a = CHR ''.'' \<and> b \<noteq> CHR ''.'' then - 1
      else if b = CHR ''.'' \<and> a \<noteq> CHR ''.'' then 1
      else if a = CHR ''.'' \<and> b = CHR ''.'' then lex_loop lexOnly True s u
      else if a = CHR 0xFF \<and> b \<noteq> CHR 0xFF then 1
      else if b = CHR 0xFF \<and> a \<noteq> CHR 0xFF then - 1
      else if \<not> lexOnly \<and> isNumber_char a \<and> isNumber_char b then
        (let s1 = number_from startWord (a # s); s2 = number_from startWord (b # u);
             n1 = takeWhile isNumber_char s1; n2 = takeWhile isNumber_char s2
         in if length n1 > length n2 then 1
            else if length n2 > length n1 then - 1
            else if bytes_cmp n1 n2 \<noteq> 0 then bytes_cmp n1 n2
            else lex_loop lexOnly False (dropWhile isNumber_char s1) (dropWhile isNumber_char s2))
      else if \<not> lexOnly \<and> isNumber_char a then 1
      else if \<not> lexOnly \<and> isNumber_char b then - 1
      else if char_value a > char_value b then 1
      else if char_value b > char_value a then - 1
      else lex_loop lexOnly False s u)"
  by pat_completeness auto
termination
  by (relation "measure (\<lambda>(l, w, s, u). length s)")
    (simp_all only: in_measure prod.case wf_measure length_Cons lessI number_shorter)

definition LexNumCmp_cmp :: "bool \<Rightarrow> string \<Rightarrow> string \<Rightarrow> int" where
  "LexNumCmp_cmp lexOnly s1 s2 = lex_loop lexOnly True (c_str s1) (c_str s2)"

definition LexNumCmp_less :: "bool \<Rightarrow> string \<Rightarrow> string \<Rightarrow> bool" where
  "LexNumCmp_less lexOnly s1 s2 \<longleftrightarrow> LexNumCmp_cmp lexOnly s1 s2 < 0"

section \<open>What it compares\<close>

text \<open>A name is cut into dots, numbers, other characters and the one above all. The end comes before a dot, a dot before
  a character, a character before a number.
\<close>

datatype lex_token = Dot | Sym char | Num string | Top

function tokens :: "bool \<Rightarrow> bool \<Rightarrow> string \<Rightarrow> lex_token list" where
  "tokens lexOnly startWord [] = []"
| "tokens lexOnly startWord (c # s) =
     (if c = CHR ''.'' then Dot # tokens lexOnly True s
      else if c = CHR 0xFF then Top # tokens lexOnly False s
      else if \<not> lexOnly \<and> isNumber_char c then
        Num (takeWhile isNumber_char (number_from startWord (c # s)))
          # tokens lexOnly False (dropWhile isNumber_char (number_from startWord (c # s)))
      else Sym c # tokens lexOnly False s)"
  by pat_completeness auto
termination
  by (relation "measure (\<lambda>(l, w, s). length s)")
    (simp_all only: in_measure prod.case wf_measure length_Cons lessI number_shorter)

primrec token_rank :: "lex_token \<Rightarrow> int" where
  "token_rank Dot = 0"
| "token_rank (Sym c) = 1"
| "token_rank (Num n) = 2"
| "token_rank Top = 3"

definition number_cmp :: "string \<Rightarrow> string \<Rightarrow> int" where
  "number_cmp = then_by (\<lambda>m n. sign_of (int (length m)) (int (length n))) bytes_cmp"

definition token_cmp :: "lex_token \<Rightarrow> lex_token \<Rightarrow> int" where
  "token_cmp = then_by (\<lambda>a b. sign_of (token_rank a) (token_rank b))
     (\<lambda>a b. case (a, b) of
        (Sym c, Sym d) \<Rightarrow> sign_of (char_value c) (char_value d)
      | (Num m, Num n) \<Rightarrow> number_cmp m n
      | _ \<Rightarrow> 0)"

lemma sign_of_zero [simp]: "sign_of a b = 0 \<longleftrightarrow> a = b"
  by (simp add: sign_of_def)

lemma signed_byte_inj:
  fixes x y :: nat
  assumes "x < 256" "y < 256" "(if 2 * x < 256 then int x else int x - 256) = (if 2 * y < 256 then int y else int y - 256)"
  shows "x = y"
  using assms by (auto split: if_splits)

lemma char_value_inj [simp]: "char_value a = char_value b \<longleftrightarrow> a = b"
proof
  assume eq: "char_value a = char_value b"
  have v: "char_value c = (if 2 * (of_char c :: nat) < 256 then int (of_char c) else int (of_char c) - 256)" for c
    unfolding char_value_def int_le_def by (simp add: Let_def)
  have "of_char a = (of_char b :: nat)"
    by (rule signed_byte_inj[OF nat_of_char_less_256 nat_of_char_less_256]) (use eq in \<open>simp only: v\<close>)
  then show "a = b" by simp
qed simp

lemma number_cmp_zero: "number_cmp m n = 0 \<longleftrightarrow> m = n"
  by (auto simp: number_cmp_def then_by_def bytes_cmp_zero)

lemma token_cmp_zero [simp]: "token_cmp a b = 0 \<longleftrightarrow> a = b"
  by (cases a; cases b) (simp_all add: token_cmp_def then_by_def number_cmp_zero)

lemma number_comparison: "comparison number_cmp (\<lambda>_. True)"
  unfolding number_cmp_def
proof (rule then_by_comparison)
  show "comparison (\<lambda>m n. sign_of (int (length m)) (int (length n))) (\<lambda>_. True)"
    by (rule signs.keyed[where key = "\<lambda>m. int (length m)"]) simp_all
  show "comparison bytes_cmp (\<lambda>x. True \<and> sign_of (int (length a)) (int (length x)) = 0)" for a
    by (rule bytes.restrict) simp
qed

lemma token_comparison: "comparison token_cmp (\<lambda>_. True)"
  unfolding token_cmp_def
proof (rule then_by_comparison)
  show "comparison (\<lambda>a b. sign_of (token_rank a) (token_rank b)) (\<lambda>_. True)"
    by (rule signs.keyed[where key = token_rank]) simp_all
  show "comparison (\<lambda>a b. case (a, b) of (Sym c, Sym d) \<Rightarrow> sign_of (char_value c) (char_value d)
      | (Num m, Num n) \<Rightarrow> number_cmp m n | _ \<Rightarrow> 0) (\<lambda>x. True \<and> sign_of (token_rank a) (token_rank x) = 0)" for a
  proof (cases a)
    case (Sym c)
    show ?thesis
      by (rule signs.keyed[where key = "\<lambda>x. case x of Sym c \<Rightarrow> char_value c | _ \<Rightarrow> 0"])
        (auto simp: Sym split: lex_token.splits)
  next
    case (Num n)
    show ?thesis
      by (rule comparison.keyed[OF number_comparison, where key = "\<lambda>x. case x of Num n \<Rightarrow> n | _ \<Rightarrow> []"])
        (auto simp: Num split: lex_token.splits)
  qed (unfold_locales; auto split: lex_token.splits)+
qed

lemma token_cmp_simps:
  "token_cmp (Sym c) (Sym d) = sign_of (char_value c) (char_value d)"
  "token_cmp (Num m) (Num n) = number_cmp m n"
  "token_rank x < token_rank y \<Longrightarrow> token_cmp x y = - 1"
  "token_rank y < token_rank x \<Longrightarrow> token_cmp x y = 1"
  by (simp_all add: token_cmp_def then_by_def sign_of_def)

lemma tokens_first:
  obtains t ts where "tokens lexOnly w (c # s) = t # ts" "t = Dot \<longleftrightarrow> c = CHR ''.''" "t = Top \<longleftrightarrow> c = CHR 0xFF"
  by (cases "c = CHR ''.''"; cases "c = CHR 0xFF"; cases "\<not> lexOnly \<and> isNumber_char c") auto

lemma token_cmp_ends:
  "t \<noteq> Dot \<Longrightarrow> token_cmp Dot t = - 1" "t \<noteq> Dot \<Longrightarrow> token_cmp t Dot = 1"
  "t \<noteq> Top \<Longrightarrow> token_cmp Top t = 1" "t \<noteq> Top \<Longrightarrow> token_cmp t Top = - 1"
  by (cases t; simp add: token_cmp_simps)+

lemma number_step:
  "(if length m > length n then 1 else if length n > length m then - 1
    else if bytes_cmp m n \<noteq> 0 then bytes_cmp m n else k) = (if number_cmp m n \<noteq> 0 then number_cmp m n else k)"
  by (simp add: number_cmp_def then_by_def sign_of_def)

lemma lex_loop_tokens: "lex_loop lexOnly w s u = list_cmp token_cmp (tokens lexOnly w s) (tokens lexOnly w u)"
proof (induction lexOnly w s u rule: lex_loop.induct)
  case (4 lexOnly w a s b u)
  consider "a = CHR ''.'' \<or> b = CHR ''.''" | "a \<noteq> CHR ''.''" "b \<noteq> CHR ''.''" "a = CHR 0xFF \<or> b = CHR 0xFF"
    | "a \<noteq> CHR ''.''" "b \<noteq> CHR ''.''" "a \<noteq> CHR 0xFF" "b \<noteq> CHR 0xFF" "\<not> lexOnly" "isNumber_char a" "isNumber_char b"
    | "a \<noteq> CHR ''.''" "b \<noteq> CHR ''.''" "a \<noteq> CHR 0xFF" "b \<noteq> CHR 0xFF" "lexOnly \<or> \<not> isNumber_char a \<or> \<not> isNumber_char b"
    by blast
  then show ?case
  proof cases
    case 1
    obtain t ts where t: "tokens lexOnly w (a # s) = t # ts" "t = Dot \<longleftrightarrow> a = CHR ''.''" by (rule tokens_first)
    obtain v vs where v: "tokens lexOnly w (b # u) = v # vs" "v = Dot \<longleftrightarrow> b = CHR ''.''" by (rule tokens_first)
    show ?thesis
    proof (cases "a = b")
      case True
      then show ?thesis using 1 "4.IH"(1) by simp
    next
      case False
      then show ?thesis unfolding t(1) v(1) using 1 t(2) v(2) by (cases "a = CHR ''.''") (simp_all add: token_cmp_ends)
    qed
  next
    case 2
    obtain t ts where t: "tokens lexOnly w (a # s) = t # ts" "t = Top \<longleftrightarrow> a = CHR 0xFF" by (rule tokens_first)
    obtain v vs where v: "tokens lexOnly w (b # u) = v # vs" "v = Top \<longleftrightarrow> b = CHR 0xFF" by (rule tokens_first)
    show ?thesis
    proof (cases "a = b")
      case True
      then show ?thesis using 2 "4.IH"(3) by (simp add: isNumber_char_def)
    next
      case False
      then show ?thesis unfolding t(1) v(1) using 2 t(2) v(2) by (cases "a = CHR 0xFF") (simp_all add: token_cmp_ends)
    qed
  next
    case 3
    then show ?thesis using "4.IH"(2)
      by (simp add: token_cmp_simps Let_def number_step number_cmp_zero bytes_cmp_zero)
  next
    case 4
    then show ?thesis using "4.IH"(3) by (auto simp: token_cmp_simps sign_of_def)
  qed
qed simp_all

text \<open>So it is an order of names, in which numbers come in the order of their values.\<close>

lemma isNumber_is_digit: "isNumber_char = is_digit"
  by (rule ext) (simp add: isNumber_char_def is_digit_def)

lemma digits_val_shift: "foldl (\<lambda>n c. 10 * n + digit_val c) k ds = k * 10 ^ length ds + digits_val ds"
proof (induction ds arbitrary: k)
  case (Cons d ds)
  show ?case
    unfolding digits_val_def foldl_Cons by (subst (1 2) Cons) (simp add: algebra_simps)
qed (simp add: digits_val_def)

lemma digits_val_Cons: "digits_val (d # ds) = digit_val d * 10 ^ length ds + digits_val ds"
proof -
  have "digits_val (d # ds) = foldl (\<lambda>n c. 10 * n + digit_val c) (digit_val d) ds" by (simp add: digits_val_def)
  then show ?thesis by (simp only: digits_val_shift)
qed

lemma digit_val_bound: "is_digit d \<Longrightarrow> digit_val d < 10"
  unfolding is_digit_iff digit_val_def by linarith

lemma digit_val_less: "a < b \<Longrightarrow> is_digit a \<Longrightarrow> digit_val a + 1 \<le> digit_val b"
  unfolding is_digit_iff digit_val_def less_char_def by linarith

lemma leading_digit: "v < (p :: nat) \<Longrightarrow> a + 1 \<le> b \<Longrightarrow> a * p + v < b * p"
  using mult_le_mono1[of "a + 1" b p] by (simp add: algebra_simps)

lemma digits_val_bound: "\<forall>d \<in> set ds. is_digit d \<Longrightarrow> digits_val ds < 10 ^ length ds"
proof (induction ds)
  case (Cons d ds)
  then have "digits_val ds < 10 ^ length ds" "digit_val d + 1 \<le> 10" using digit_val_bound by fastforce+
  from leading_digit[OF this] show ?case by (simp add: digits_val_Cons)
qed (simp add: digits_val_def)

lemma digits_cmp:
  "length m = length n \<Longrightarrow> \<forall>d \<in> set m. is_digit d \<Longrightarrow> \<forall>d \<in> set n. is_digit d \<Longrightarrow>
    bytes_cmp m n = sign_of (int (digits_val m)) (int (digits_val n))"
proof (induction m n rule: list_induct2)
  case (Cons a m b n)
  let ?p = "10 ^ length n :: nat"
  have low: "digits_val m < ?p" "digits_val n < ?p"
    using Cons digits_val_bound[of m] digits_val_bound[of n] by simp_all
  consider "a < b" | "a = b" | "b < a" by fastforce
  then show ?case
  proof cases
    case 1
    then have "digits_val (a # m) < digits_val (b # n)"
      using leading_digit[OF low(1) digit_val_less[OF 1]] Cons.prems Cons.hyps unfolding digits_val_Cons by simp
    then show ?thesis using 1 by (simp add: sign_of_def bytes_cmp_def)
  next
    case 2
    then show ?thesis
      using Cons by (auto simp: digits_val_Cons sign_of_def bytes_cmp_def split: if_splits)
  next
    case 3
    then have "digits_val (b # n) < digits_val (a # m)"
      using leading_digit[OF low(2) digit_val_less[OF 3]] Cons.prems Cons.hyps unfolding digits_val_Cons by simp
    then show ?thesis using 3 order_less_asym[OF 3] by (auto simp: sign_of_def bytes_cmp_def)
  qed
qed (simp add: bytes_cmp_def sign_of_def)

text \<open>Without zeros in front, the longer number is the greater one.\<close>

lemma longer_number:
  assumes "length m < length n" "\<forall>d \<in> set m. is_digit d" "\<forall>d \<in> set n. is_digit d" "hd n \<noteq> CHR ''0''"
  shows "digits_val m < digits_val n"
proof -
  obtain d n' where n: "n = d # n'" using assms(1) by (cases n) auto
  have "is_digit d" "d \<noteq> CHR ''0''" using assms(3,4) by (simp_all add: n)
  then have "CHR ''0'' < d" by (simp add: is_digit_def order_less_le)
  from digit_val_less[OF this] have "1 \<le> digit_val d" by (simp add: is_digit_def digit_val_def)
  then have "10 ^ length n' \<le> digits_val n"
    unfolding n digits_val_Cons using mult_le_mono1[of 1 "digit_val d" "10 ^ length n'"] by linarith
  moreover have "(10 :: nat) ^ length m \<le> 10 ^ length n'" using assms(1) by (simp add: n)
  ultimately show ?thesis using digits_val_bound[OF assms(2)] by linarith
qed

lemma digits_val_zeros: "digits_val (dropWhile (\<lambda>c. c = CHR ''0'') ds) = digits_val ds"
  by (induction ds) (simp_all add: digits_val_Cons digit_val_def)

lemma number_cmp_values:
  assumes "\<forall>d \<in> set m. is_digit d" "\<forall>d \<in> set n. is_digit d"
    and "m = [] \<or> hd m \<noteq> CHR ''0''" "n = [] \<or> hd n \<noteq> CHR ''0''"
  shows "number_cmp m n = sign_of (int (digits_val m)) (int (digits_val n))"
proof -
  consider "length m < length n" | "length n < length m" | "length m = length n" by linarith
  then show ?thesis
  proof cases
    case 1
    then show ?thesis using longer_number[OF 1 assms(1,2)] assms(4) by (auto simp: number_cmp_def then_by_def sign_of_def)
  next
    case 2
    then show ?thesis using longer_number[OF 2 assms(2,1)] assms(3) by (auto simp: number_cmp_def then_by_def sign_of_def)
  next
    case 3
    then show ?thesis using digits_cmp[OF 3 assms(1,2)] by (simp add: number_cmp_def then_by_def)
  qed
qed

lemma tokens_dot: "tokens lexOnly w (x @ CHR ''.'' # r) = tokens lexOnly w x @ Dot # tokens lexOnly True r"
proof (induction lexOnly w x rule: tokens.induct)
  case (2 lexOnly w c s)
  have n: "number_from w (c # s @ CHR ''.'' # r) = number_from w (c # s) @ CHR ''.'' # r"
    using dropWhile_append3[of "\<lambda>c. c = CHR ''0''" "CHR ''.''" "c # s" r] by (simp add: number_from_def del: dropWhile.simps)
  have d: "\<not> isNumber_char (CHR ''.'')" by (simp add: isNumber_char_def)
  show ?case
    using 2 by (simp add: n takeWhile_tail[where P = isNumber_char, OF d] dropWhile_append3[where P = isNumber_char, OF d])
qed simp

lemma tokens_number: "tokens False True (show_nat n) = [Num (dropWhile (\<lambda>c. c = CHR ''0'') (show_nat n))]"
proof -
  let ?n = "dropWhile (\<lambda>c. c = CHR ''0'') (show_nat n)"
  obtain c cs where cs: "show_nat n = c # cs" using show_nat_nonempty by (cases "show_nat n") auto
  have c: "isNumber_char c" using show_nat_digits[of n] by (simp add: cs isNumber_is_digit)
  have all: "\<forall>d \<in> set ?n. isNumber_char d" using show_nat_digits set_dropWhileD by (fastforce simp: isNumber_is_digit)
  then have "takeWhile isNumber_char ?n = ?n" "dropWhile isNumber_char ?n = []" by auto
  moreover have "c \<noteq> CHR ''.''" "c \<noteq> CHR 0xFF" using c by (auto simp: isNumber_char_def)
  ultimately show ?thesis using c by (simp only: cs tokens.simps number_from_def if_True) simp
qed


interpretation names: comparison "LexNumCmp_cmp lexOnly" "\<lambda>_. True" for lexOnly
  by (rule comparison.keyed[OF list_cmp_comparison[OF token_comparison], where key = "\<lambda>s. tokens lexOnly True (c_str s)"])
    (simp_all add: LexNumCmp_cmp_def lex_loop_tokens)

lemma list_cmp_zero: "list_cmp token_cmp A B = 0 \<longleftrightarrow> A = B"
  by (induction token_cmp A B rule: list_cmp.induct) simp_all

lemma list_cmp_dot:
  assumes "Dot \<notin> set A" "Dot \<notin> set B"
  shows "list_cmp token_cmp (A @ Dot # A') (B @ Dot # B') =
      (if list_cmp token_cmp A B \<noteq> 0 then list_cmp token_cmp A B else list_cmp token_cmp A' B')"
    "list_cmp token_cmp A (B @ Dot # B') = (if list_cmp token_cmp A B \<noteq> 0 then list_cmp token_cmp A B else - 1)"
    "list_cmp token_cmp (A @ Dot # A') B = (if list_cmp token_cmp A B \<noteq> 0 then list_cmp token_cmp A B else 1)"
proof -
  show "list_cmp token_cmp (A @ Dot # A') (B @ Dot # B') =
      (if list_cmp token_cmp A B \<noteq> 0 then list_cmp token_cmp A B else list_cmp token_cmp A' B')"
    using assms by (induction token_cmp A B rule: list_cmp.induct) (auto simp: token_cmp_ends)
  show "list_cmp token_cmp A (B @ Dot # B') = (if list_cmp token_cmp A B \<noteq> 0 then list_cmp token_cmp A B else - 1)"
    using assms by (induction token_cmp A B rule: list_cmp.induct) (auto simp: token_cmp_ends)
  show "list_cmp token_cmp (A @ Dot # A') B = (if list_cmp token_cmp A B \<noteq> 0 then list_cmp token_cmp A B else 1)"
    using assms by (induction token_cmp A B rule: list_cmp.induct) (auto simp: token_cmp_ends)
qed

lemma Dot_tokens: "Dot \<in> set (tokens lexOnly w s) \<longleftrightarrow> CHR ''.'' \<in> set s"
proof (induction lexOnly w s rule: tokens.induct)
  case (2 lexOnly w c s)
  have "CHR ''.'' \<in> set (dropWhile isNumber_char (number_from w (c # s))) \<longleftrightarrow> CHR ''.'' \<in> set (c # s)"
  proof (cases "CHR ''.'' \<in> set (c # s)")
    case True
    then obtain x r where "c # s = x @ CHR ''.'' # r" by (meson split_list)
    then show ?thesis by (simp add: number_from_def dropWhile_append3 isNumber_char_def)
  next
    case False
    then show ?thesis by (auto simp: number_from_def simp del: dropWhile.simps dest!: set_dropWhileD split: if_splits)
  qed
  then show ?case using 2 by (auto simp: isNumber_char_def)
qed simp

lemma indices_ordered:
  assumes "NUL \<notin> set name"
  shows "LexNumCmp_cmp False (name @ CHR ''.'' # show_nat m) (name @ CHR ''.'' # show_nat n) = sign_of (int m) (int n)"
proof -
  have c: "c_str (name @ CHR ''.'' # show_nat n) = name @ CHR ''.'' # show_nat n" for n
    using show_nat_digits[of n] assms by (intro c_str_idem) (auto simp: is_digit_iff NUL_def)
  have d: "\<forall>d \<in> set (dropWhile (\<lambda>c. c = CHR ''0'') (show_nat n)). is_digit d" for n
    using show_nat_digits set_dropWhileD by fastforce
  have "dropWhile (\<lambda>c. c = CHR ''0'') (show_nat n) = [] \<or> hd (dropWhile (\<lambda>c. c = CHR ''0'') (show_nat n)) \<noteq> CHR ''0''" for n
    using hd_dropWhile[of "\<lambda>c. c = CHR ''0''" "show_nat n"] by blast
  from number_cmp_values[OF d d this this]
  have "list_cmp token_cmp (tokens False True (show_nat m)) (tokens False True (show_nat n)) = sign_of (int m) (int n)"
    by (simp add: tokens_number token_cmp_simps digits_val_zeros digits_val_show_nat)
  moreover have "list_cmp token_cmp (A @ B) (A @ C) = list_cmp token_cmp B C" for A B C
    by (induction A) simp_all
  ultimately show ?thesis by (simp add: LexNumCmp_cmp_def lex_loop_tokens c tokens_dot)
qed

text \<open>Within a word zeros do count.\<close>

lemma inner_zeros_count: "LexNumCmp_cmp False ''a01'' ''a1'' = 1" "LexNumCmp_cmp False ''a01'' ''a2'' = 1"
  "LexNumCmp_cmp False ''a.01'' ''a.1'' = 0"
  by (simp_all add: LexNumCmp_cmp_def isNumber_char_def number_from_def less_eq_char_def c_str_def NUL_def bytes_cmp_def)

text \<open>C31. The comparison of names \<open>LexNumCmp::cmp\<close> compares what names are cut into, first by the first difference: the end of a
  name comes before a dot, a dot before a character, a character before a number, and the character 255 after all (with
  \<open>lexOnly\<close> digits are characters). Of two numbers the one with more digits comes last, of two of the same length the one
  with the greater digits. The zeros a number starts with are left out at the start of a word, that is at the start of the
  name and behind a dot, so that array indices behind the same name come in the order of the indices; further inside a word
  they count: \<open>a01\<close> comes after \<open>a2\<close>, against the comment on \<open>LexNumCmp\<close>. It is an order of names: what compares less the
  other way compares greater, and it is transitive.
\<close>

theorem names_ordered:
  "LexNumCmp_cmp lexOnly s u = list_cmp token_cmp (tokens lexOnly True (c_str s)) (tokens lexOnly True (c_str u)) \<and>
   sgn (LexNumCmp_cmp lexOnly u s) = - sgn (LexNumCmp_cmp lexOnly s u) \<and>
   (LexNumCmp_cmp lexOnly s u = 0 \<longleftrightarrow> tokens lexOnly True (c_str s) = tokens lexOnly True (c_str u)) \<and>
   (LexNumCmp_cmp lexOnly s u \<le> 0 \<and> LexNumCmp_cmp lexOnly u v \<le> 0 \<longrightarrow> LexNumCmp_cmp lexOnly s v \<le> 0) \<and>
   (NUL \<notin> set name \<longrightarrow>
      LexNumCmp_cmp False (name @ CHR ''.'' # show_nat m) (name @ CHR ''.'' # show_nat n) = sign_of (int m) (int n)) \<and>
   LexNumCmp_cmp False ''a01'' ''a2'' = 1"
proof (intro conjI impI)
  show eq: "LexNumCmp_cmp lexOnly s u = list_cmp token_cmp (tokens lexOnly True (c_str s)) (tokens lexOnly True (c_str u))"
    by (simp add: LexNumCmp_cmp_def lex_loop_tokens)
  show "sgn (LexNumCmp_cmp lexOnly u s) = - sgn (LexNumCmp_cmp lexOnly s u)" by (rule names.opposite) simp_all
  show "LexNumCmp_cmp lexOnly s u = 0 \<longleftrightarrow> tokens lexOnly True (c_str s) = tokens lexOnly True (c_str u)"
    by (simp add: eq list_cmp_zero)
  show "LexNumCmp_cmp lexOnly s v \<le> 0" if "LexNumCmp_cmp lexOnly s u \<le> 0 \<and> LexNumCmp_cmp lexOnly u v \<le> 0"
    by (rule names.chain[where y = u, OF TrueI TrueI TrueI]) (use that in simp_all)
  show "LexNumCmp_cmp False (name @ CHR ''.'' # show_nat m) (name @ CHR ''.'' # show_nat n) = sign_of (int m) (int n)"
    if "NUL \<notin> set name"
    by (rule indices_ordered[OF that])
qed (rule inner_zeros_count(2))

lemma names_ordered_witness:
  "LexNumCmp_cmp False ''a.9'' ''a.10'' = - 1 \<and> LexNumCmp_cmp True ''a'' ''b'' \<le> 0"
proof -
  have n: "show_nat 9 = ''9''" "show_nat 10 = ''10''" by code_simp+
  have "LexNumCmp_cmp True ''a'' ''a.b'' \<le> 0 \<and> LexNumCmp_cmp True ''a.b'' ''b'' \<le> 0" by code_simp
  then show ?thesis
    using names_ordered[of True "''a''" "''a.b''" "''b''" "''a''" 9 10] by (simp add: n sign_of_def NUL_def)
qed

section \<open>Dotted names\<close>

datatype FieldCompareResult = LEFT_SUBFIELD | LEFT_BEFORE | SAME | RIGHT_BEFORE | RIGHT_SUBFIELD

text \<open>The part up to the next dot, and what is left behind it. The loop gives up after a million parts.\<close>

definition next_part :: "string \<Rightarrow> string \<times> string" where
  "next_part s = (case split_dot s of None \<Rightarrow> (s, []) | Some p \<Rightarrow> p)"

primrec dotted_loop :: "nat \<Rightarrow> bool \<Rightarrow> string \<Rightarrow> string \<Rightarrow> FieldCompareResult res" where
  "dotted_loop 0 lexOnly l r = Inl (Throw ''assertion'')"
| "dotted_loop (Suc i) lexOnly l r =
     (let (c, l') = next_part l; (d, r') = next_part r; x = LexNumCmp_cmp lexOnly c d
      in if x < 0 then Inr LEFT_BEFORE
         else if x > 0 then Inr RIGHT_BEFORE
         else if l' = [] then (if r' = [] then Inr SAME else Inr RIGHT_SUBFIELD)
         else if r' = [] then Inr LEFT_SUBFIELD
         else dotted_loop i lexOnly l' r')"

definition compareDottedFieldNames :: "bool \<Rightarrow> string \<Rightarrow> string \<Rightarrow> FieldCompareResult res" where
  "compareDottedFieldNames lexOnly l r = dotted_loop (1024 * 1024) lexOnly l r"

text \<open>The parts of a name. A name that ends with a dot has the parts of the one without it.\<close>

function dotted_parts :: "string \<Rightarrow> string list" where
  "dotted_parts s = (let (c, s') = next_part s in if s' = [] then [c] else c # dotted_parts s')"
  by pat_completeness auto
termination
  by (relation "measure length") (auto simp: next_part_def split: option.splits dest: split_dot_shorter)

declare dotted_parts.simps [simp del]

definition undotted_end :: "string \<Rightarrow> bool" where
  "undotted_end s \<longleftrightarrow> NUL \<notin> set s \<and> (s \<noteq> [] \<longrightarrow> last s \<noteq> CHR ''.'')"

lemma split_dot_None: "split_dot s = None \<longleftrightarrow> CHR ''.'' \<notin> set s"
proof -
  have "split_dot s = None \<longleftrightarrow> dropWhile (\<lambda>c. c \<noteq> CHR ''.'') s = []"
    by (cases "dropWhile (\<lambda>c. c \<noteq> CHR ''.'') s") (simp_all add: split_dot_def del: dropWhile_eq_Nil_conv)
  then show ?thesis unfolding dropWhile_eq_Nil_conv by auto
qed

text \<open>A name is one part, or a part and the rest of the name.\<close>

lemma next_part_cases:
  assumes "undotted_end s"
  obtains "next_part s = (s, [])" "CHR ''.'' \<notin> set s" "NUL \<notin> set s" "dotted_parts s = [s]"
  | c s' where "next_part s = (c, s')" "s = c @ CHR ''.'' # s'" "s' \<noteq> []" "CHR ''.'' \<notin> set c" "NUL \<notin> set c"
      "undotted_end s'" "dotted_parts s = c # dotted_parts s'"
proof (cases "split_dot s")
  case None
  then have "next_part s = (s, [])" by (simp add: next_part_def)
  then show thesis using that(1) None assms by (simp add: dotted_parts.simps[of s] split_dot_None undotted_end_def)
next
  case (Some p)
  obtain c s' where p: "split_dot s = Some (c, s')" using Some by (cases p) simp
  then have s: "s = c @ CHR ''.'' # s'" "CHR ''.'' \<notin> set c" by (simp_all add: split_dot_parts)
  have n: "next_part s = (c, s')" by (simp add: next_part_def p)
  have "s' \<noteq> []" using assms by (auto simp: undotted_end_def s(1))
  moreover from this have "dotted_parts s = c # dotted_parts s'" by (subst dotted_parts.simps) (simp add: n)
  moreover have "NUL \<notin> set c" "undotted_end s'" using assms \<open>s' \<noteq> []\<close> by (simp_all add: undotted_end_def s(1))
  ultimately show thesis using that(2)[OF n s(1)] s(2) by blast
qed

text \<open>How the result of the loop goes with a sign, and with the parts.\<close>

fun result_sign :: "FieldCompareResult \<Rightarrow> int" where
  "result_sign SAME = 0"
| "result_sign LEFT_BEFORE = - 1"
| "result_sign RIGHT_SUBFIELD = - 1"
| "result_sign RIGHT_BEFORE = 1"
| "result_sign LEFT_SUBFIELD = 1"

definition same_part :: "bool \<Rightarrow> string \<Rightarrow> string \<Rightarrow> bool" where
  "same_part lexOnly c d \<longleftrightarrow> LexNumCmp_cmp lexOnly c d = 0"

fun sub_parts :: "bool \<Rightarrow> string list \<Rightarrow> string list \<Rightarrow> bool" where
  "sub_parts lexOnly (c # cs) (d # ds) \<longleftrightarrow> same_part lexOnly c d \<and> sub_parts lexOnly cs ds"
| "sub_parts lexOnly [] ds \<longleftrightarrow> ds \<noteq> []"
| "sub_parts lexOnly (c # cs) [] \<longleftrightarrow> False"

lemma sub_parts_iff:
  "sub_parts lexOnly cs ds \<longleftrightarrow> length cs < length ds \<and> list_all2 (same_part lexOnly) cs (take (length cs) ds)"
  by (induction lexOnly cs ds rule: sub_parts.induct) auto

text \<open>Comparing names part by part is comparing them whole.\<close>

lemma LexNumCmp_tokens:
  "NUL \<notin> set s \<Longrightarrow> NUL \<notin> set u \<Longrightarrow>
    LexNumCmp_cmp lexOnly s u = list_cmp token_cmp (tokens lexOnly True s) (tokens lexOnly True u)"
  by (simp add: LexNumCmp_cmp_def lex_loop_tokens)

lemma list_cmp_unit: "list_cmp token_cmp A B \<in> {- 1, 0, 1}"
proof -
  have "token_cmp a b \<in> {- 1, 0, 1}" for a b
    by (cases a; cases b) (simp_all add: token_cmp_def then_by_def sign_of_def number_cmp_def bytes_cmp_def)
  then show ?thesis by (induction token_cmp A B rule: list_cmp.induct) auto
qed

lemma dotted_parts_nonempty: "dotted_parts s \<noteq> []"
  by (subst dotted_parts.simps) (simp add: Let_def split: prod.split)

lemma sub_parts_Nil [simp]: "\<not> sub_parts lexOnly cs []"
  by (cases cs) simp_all

lemma dotted_loop_result:
  assumes "length l < i" "undotted_end l" "undotted_end r"
  shows "\<exists>x. dotted_loop i lexOnly l r = Inr x \<and> LexNumCmp_cmp lexOnly l r = result_sign x \<and>
    (x = RIGHT_SUBFIELD \<longleftrightarrow> sub_parts lexOnly (dotted_parts l) (dotted_parts r)) \<and>
    (x = LEFT_SUBFIELD \<longleftrightarrow> sub_parts lexOnly (dotted_parts r) (dotted_parts l))"
  using assms
proof (induction i arbitrary: l r)
  case (Suc i)
  let ?cmp = "\<lambda>c d. list_cmp token_cmp (tokens lexOnly True c) (tokens lexOnly True d)"
  have unit: "?cmp c d = 0 \<or> ?cmp c d = 1 \<or> ?cmp c d = - 1" for c d using list_cmp_unit by blast
  have part: "LexNumCmp_cmp lexOnly c d = ?cmp c d" "same_part lexOnly c d \<longleftrightarrow> ?cmp c d = 0"
    "same_part lexOnly d c \<longleftrightarrow> ?cmp c d = 0" if "NUL \<notin> set c" "NUL \<notin> set d" for c d
    using that by (auto simp: LexNumCmp_tokens same_part_def list_cmp_zero)
  have whole: "LexNumCmp_cmp lexOnly l r = ?cmp l r"
    using Suc.prems(2,3) by (simp add: LexNumCmp_tokens undotted_end_def)
  note simps = tokens_dot list_cmp_dot Dot_tokens dotted_parts_nonempty
  show ?case
  proof (cases rule: next_part_cases[OF Suc.prems(2)])
    case l: 1
    show ?thesis
    proof (cases rule: next_part_cases[OF Suc.prems(3)])
      case r: 1
      note P = part[OF l(3) r(3)]
      show ?thesis unfolding whole l(4) r(4) dotted_loop.simps l(1) r(1)
        using unit[of l r] by (elim disjE) (simp_all add: P)
    next
      case r: (2 d r')
      note P = part[OF l(3) r(5)]
      show ?thesis unfolding whole l(4) r(7) dotted_loop.simps l(1) r(1)
        using unit[of l d] by (elim disjE) (simp_all add: P r(2,3,4) l(2) simps)
    qed
  next
    case l: (2 c l')
    show ?thesis
    proof (cases rule: next_part_cases[OF Suc.prems(3)])
      case r: 1
      note P = part[OF l(5) r(3)]
      show ?thesis unfolding whole l(7) r(4) dotted_loop.simps l(1) r(1)
        using unit[of c r] by (elim disjE) (simp_all add: P r(2) l(2,3,4) simps)
    next
      case r: (2 d r')
      note P = part[OF l(5) r(5)]
      have "length l' < i" using Suc.prems(1) by (simp add: l(2))
      from Suc.IH[OF this l(6) r(6)] have rest: "\<exists>x. dotted_loop i lexOnly l' r' = Inr x \<and> ?cmp l' r' = result_sign x \<and>
          (x = RIGHT_SUBFIELD \<longleftrightarrow> sub_parts lexOnly (dotted_parts l') (dotted_parts r')) \<and>
          (x = LEFT_SUBFIELD \<longleftrightarrow> sub_parts lexOnly (dotted_parts r') (dotted_parts l'))"
        using l(6) r(6) by (simp add: LexNumCmp_tokens undotted_end_def)
      show ?thesis unfolding whole l(7) r(7) dotted_loop.simps l(1) r(1)
        using unit[of c d] rest by (elim disjE) (simp_all add: P r(2,3,4) l(2,3,4) simps)
    qed
  qed
qed simp

text \<open>C32. Names compared part by part, with \<open>compareDottedFieldNames\<close>, come in the order of the whole names: for names that do not
  end with a dot and are short of a million characters, the part-wise comparison ends, says that they are the same exactly when
  \<open>LexNumCmp::cmp\<close> gives zero, that the left one comes first (before it, or the right one lies inside it) exactly
  when it is negative, and that one name lies inside another exactly when all parts of the other are those it starts with.
\<close>

theorem dotted_names_agree:
  assumes "length l < 1024 * 1024" "undotted_end l" "undotted_end r"
  shows "\<exists>x. compareDottedFieldNames lexOnly l r = Inr x \<and>
    (x = SAME \<longleftrightarrow> LexNumCmp_cmp lexOnly l r = 0) \<and>
    (x = LEFT_BEFORE \<or> x = RIGHT_SUBFIELD \<longleftrightarrow> LexNumCmp_cmp lexOnly l r < 0) \<and>
    (x = RIGHT_BEFORE \<or> x = LEFT_SUBFIELD \<longleftrightarrow> LexNumCmp_cmp lexOnly l r > 0) \<and>
    (x = RIGHT_SUBFIELD \<longleftrightarrow> length (dotted_parts l) < length (dotted_parts r) \<and>
      list_all2 (same_part lexOnly) (dotted_parts l) (take (length (dotted_parts l)) (dotted_parts r))) \<and>
    (x = LEFT_SUBFIELD \<longleftrightarrow> length (dotted_parts r) < length (dotted_parts l) \<and>
      list_all2 (same_part lexOnly) (dotted_parts r) (take (length (dotted_parts r)) (dotted_parts l)))"
proof -
  obtain x where x: "compareDottedFieldNames lexOnly l r = Inr x" "LexNumCmp_cmp lexOnly l r = result_sign x"
    "x = RIGHT_SUBFIELD \<longleftrightarrow> sub_parts lexOnly (dotted_parts l) (dotted_parts r)"
    "x = LEFT_SUBFIELD \<longleftrightarrow> sub_parts lexOnly (dotted_parts r) (dotted_parts l)"
    using dotted_loop_result[OF assms] unfolding compareDottedFieldNames_def by blast
  have "(x = SAME \<longleftrightarrow> result_sign x = 0) \<and> (x = LEFT_BEFORE \<or> x = RIGHT_SUBFIELD \<longleftrightarrow> result_sign x < 0) \<and>
      (x = RIGHT_BEFORE \<or> x = LEFT_SUBFIELD \<longleftrightarrow> result_sign x > 0)" by (cases x) simp_all
  then show ?thesis
    unfolding x(2) sub_parts_iff[symmetric] using x(1,3,4) by blast
qed

lemma dotted_names_agree_witness:
  "\<exists>x. compareDottedFieldNames False ''a.9'' ''a.10.b'' = Inr x \<and> (x = LEFT_BEFORE \<or> x = RIGHT_SUBFIELD)"
proof -
  have "LexNumCmp_cmp False ''a.9'' ''a.10.b'' < 0" by code_simp
  then show ?thesis
    using dotted_names_agree[of "''a.9''" "''a.10.b''" False] by (auto simp: undotted_end_def NUL_def)
qed


section \<open>Operators\<close>

datatype MatchType =
    Equality | LT | LTE | GTE | GT | opIN | NE | opSIZE | opALL | NIN | opEXISTS | opMOD | opTYPE | opREGEX | opOPTIONS
  | opELEM_MATCH | opNEAR | opWITHIN | opMAX_DISTANCE

fun match_value :: "MatchType \<Rightarrow> int" where
  "match_value Equality = 0"
| "match_value LT = 1"
| "match_value LTE = 3"
| "match_value GTE = 6"
| "match_value GT = 4"
| "match_value opIN = 8"
| "match_value NE = 9"
| "match_value opSIZE = 10"
| "match_value opALL = 11"
| "match_value NIN = 12"
| "match_value opEXISTS = 13"
| "match_value opMOD = 14"
| "match_value opTYPE = 15"
| "match_value opREGEX = 16"
| "match_value opOPTIONS = 17"
| "match_value opELEM_MATCH = 18"
| "match_value opNEAR = 19"
| "match_value opWITHIN = 20"
| "match_value opMAX_DISTANCE = 21"

text \<open>\<open>fn[k]\<close> of a string with a zero at its end. Characters compared one by one up to the zero are the rest of the name.\<close>

definition name_char :: "string \<Rightarrow> nat \<Rightarrow> char" where
  "name_char fn k = (if k < length fn then fn ! k else NUL)"

definition op_of_name :: "int \<Rightarrow> string \<Rightarrow> int" where
  "op_of_name def fn =
     (let c = name_char fn
      in if c 0 = CHR ''$'' \<and> c 1 \<noteq> NUL then
           if c 2 = CHR ''t'' then
             if c 1 = CHR ''g'' then
               (if c 3 = NUL then match_value GT else if c 3 = CHR ''e'' \<and> c 4 = NUL then match_value GTE else def)
             else if c 1 = CHR ''l'' then
               (if c 3 = NUL then match_value LT else if c 3 = CHR ''e'' \<and> c 4 = NUL then match_value LTE else def)
             else def
           else if c 1 = CHR ''n'' \<and> c 2 = CHR ''e'' then
             (if c 3 = NUL then match_value NE else if c 3 = CHR ''a'' \<and> c 4 = CHR ''r'' then match_value opNEAR else def)
           else if c 1 = CHR ''m'' then
             (if drop 2 fn = ''od'' then match_value opMOD
              else if drop 2 fn = ''axDistance'' then match_value opMAX_DISTANCE else def)
           else if c 1 = CHR ''t'' \<and> drop 2 fn = ''ype'' then match_value opTYPE
           else if c 1 = CHR ''i'' \<and> drop 2 fn = ''n'' then match_value opIN
           else if c 1 = CHR ''n'' \<and> drop 2 fn = ''in'' then match_value NIN
           else if c 1 = CHR ''a'' \<and> drop 2 fn = ''ll'' then match_value opALL
           else if c 1 = CHR ''s'' \<and> drop 2 fn = ''ize'' then match_value opSIZE
           else if c 1 = CHR ''e'' then
             (if drop 2 fn = ''xists'' then match_value opEXISTS
              else if drop 2 fn = ''lemMatch'' then match_value opELEM_MATCH else def)
           else if c 1 = CHR ''r'' \<and> drop 2 fn = ''egex'' then match_value opREGEX
           else if c 1 = CHR ''o'' \<and> drop 2 fn = ''ptions'' then match_value opOPTIONS
           else if c 1 = CHR ''w'' \<and> drop 2 fn = ''ithin'' then match_value opWITHIN
           else def
         else def)"

definition el_getGtLtOp :: "int \<Rightarrow> BSONElement \<Rightarrow> int res" where
  "el_getGtLtOp def e = run_then (fieldName e) (\<lambda>fn. Inr (op_of_name def fn))"

definition firstElement_at :: "pointer_in \<Rightarrow> BSONElement" where
  "firstElement_at p = plus_ptr p 4"

definition getGtLtOp :: "BSONElement \<Rightarrow> int res" where
  "getGtLtOp e =
     run_then (el_type e) (\<lambda>t.
       if t \<noteq> ObjectType then Inr (match_value Equality)
       else run_then (embedded_at e) (\<lambda>p. el_getGtLtOp 0 (firstElement_at p)))"

text \<open>The value behind a comparison operator, or the element itself.\<close>

definition appendElementHandlingGtLt :: "BSONElement \<Rightarrow> appends" where
  "appendElementHandlingGtLt e b =
     run_then (el_type e) (\<lambda>t.
       if t = ObjectType then
         run_then (embedded_at e) (\<lambda>p. run_then (fieldName (firstElement_at p)) (\<lambda>fn.
           if name_char fn 0 = CHR ''$'' \<and> name_char fn 1 \<noteq> NUL \<and> name_char fn 2 = CHR ''t'' then
             run_then (fieldName e) (\<lambda>name. appendAs (firstElement_at p) name b)
           else append_element e b))
       else append_element e b)"

text \<open>The names of the operators. Every name that starts with \<open>$near\<close> is that operator.\<close>

definition op_table :: "(string \<times> MatchType) list" where
  "op_table = [(''$gt'', GT), (''$gte'', GTE), (''$lt'', LT), (''$lte'', LTE), (''$ne'', NE), (''$mod'', opMOD),
     (''$maxDistance'', opMAX_DISTANCE), (''$type'', opTYPE), (''$in'', opIN), (''$nin'', NIN), (''$all'', opALL),
     (''$size'', opSIZE), (''$exists'', opEXISTS), (''$elemMatch'', opELEM_MATCH), (''$regex'', opREGEX),
     (''$options'', opOPTIONS), (''$within'', opWITHIN)]"

lemma name_char_at:
  assumes "NUL \<notin> set r"
  shows "name_char (a # b # c # r) 0 = a" "name_char (a # b # c # r) 1 = b" "name_char (a # b # c # r) 2 = c"
    "name_char (a # b # c # r) 3 = NUL \<longleftrightarrow> r = []"
    "name_char (a # b # c # r) 3 = CHR ''e'' \<and> name_char (a # b # c # r) 4 = NUL \<longleftrightarrow> r = ''e''"
    "name_char (a # b # c # r) 3 = CHR ''a'' \<and> name_char (a # b # c # r) 4 = CHR ''r'' \<longleftrightarrow> starts_with r ''ar''"
proof -
  show "name_char (a # b # c # r) 0 = a" "name_char (a # b # c # r) 1 = b" "name_char (a # b # c # r) 2 = c"
    by (simp_all add: name_char_def)
  show "name_char (a # b # c # r) 3 = NUL \<longleftrightarrow> r = []"
    using assms by (cases r) (auto simp: name_char_def)
  have e: "(NUL :: char) \<noteq> CHR ''e''" "(NUL :: char) \<noteq> CHR ''a''" "(NUL :: char) \<noteq> CHR ''r''" by (simp_all add: NUL_def)
  show "name_char (a # b # c # r) 3 = CHR ''e'' \<and> name_char (a # b # c # r) 4 = NUL \<longleftrightarrow> r = ''e''"
    "name_char (a # b # c # r) 3 = CHR ''a'' \<and> name_char (a # b # c # r) 4 = CHR ''r'' \<longleftrightarrow> starts_with r ''ar''"
    using assms e by (cases r; cases "tl r"; force simp add: name_char_def)+
qed

lemma op_of_name_table:
  assumes "NUL \<notin> set fn"
  shows "op_of_name def fn =
    (if starts_with fn ''$near'' then match_value opNEAR
     else case map_of op_table fn of Some m \<Rightarrow> match_value m | None \<Rightarrow> def)"
proof -
  consider "fn = []" | a where "fn = [a]" | a b where "fn = [a, b]" | a b c r where "fn = a # b # c # r"
    by (cases fn; cases "tl fn"; cases "tl (tl fn)") auto
  then show ?thesis
  proof cases
    case (4 a b c r)
    have nul: "NUL \<notin> set r" "b \<noteq> NUL" using assms by (auto simp: 4)
    show ?thesis
    proof (cases "a = CHR ''$''")
      case True
      consider "b \<in> set ''gl''" | "b \<in> set ''nmtia''" | "b \<in> set ''serow''" | "b \<notin> set ''glnmtiaserow''" by auto
      then show ?thesis
        unfolding 4 op_of_name_def Let_def name_char_at[OF nul(1)] True
        by cases (use nul(2) in \<open>auto simp: op_table_def\<close>)
    next
      case False
      then show ?thesis by (simp add: 4 op_of_name_def name_char_at[OF nul(1)] Let_def op_table_def)
    qed
  qed (simp_all add: op_of_name_def name_char_def op_table_def Let_def NUL_def)
qed

section \<open>Names of types\<close>

fun typeName :: "BSONType \<Rightarrow> string" where
  "typeName MinKey = ''MinKey''"
| "typeName EOO = ''EOO''"
| "typeName NumberDouble = ''NumberDouble''"
| "typeName StringType = ''String''"
| "typeName ObjectType = ''Object''"
| "typeName ArrayType = ''Array''"
| "typeName BinData = ''BinaryData''"
| "typeName UndefinedType = ''Undefined''"
| "typeName jstOID = ''OID''"
| "typeName BoolType = ''Bool''"
| "typeName DateType = ''Date''"
| "typeName jstNULL = ''NULL''"
| "typeName RegEx = ''RegEx''"
| "typeName DBRef = ''DBRef''"
| "typeName Code = ''Code''"
| "typeName Symbol = ''Symbol''"
| "typeName CodeWScope = ''CodeWScope''"
| "typeName NumberInt = ''NumberInt32''"
| "typeName Timestamp = ''Timestamp''"
| "typeName NumberLong = ''NumberLong64''"
| "typeName MaxKey = ''MaxKey''"
| "typeName (BadType n) = ''Invalid''"

lemma typeName_distinct: "distinct (map typeName bson_types)"
  by code_simp

section \<open>Pieces of strings\<close>

text \<open>The pieces go behind those there are. An empty string has none.\<close>

function split_pieces :: "char \<Rightarrow> string \<Rightarrow> string list" where
  "split_pieces delim s =
     (if delim \<in> set s
      then takeWhile (\<lambda>c. c \<noteq> delim) s # split_pieces delim (tl (dropWhile (\<lambda>c. c \<noteq> delim) s))
      else [s])"
  by pat_completeness auto
termination
proof (relation "measure (\<lambda>(delim, s). length s)", simp, goal_cases)
  case (1 delim s)
  then have "s \<noteq> []" by auto
  then show ?case using length_dropWhile_le[of "\<lambda>c. c \<noteq> delim" s] by (cases s) auto
qed

declare split_pieces.simps [simp del]

definition splitStringDelim :: "string \<Rightarrow> string list \<Rightarrow> char \<Rightarrow> string list" where
  "splitStringDelim str res delim = (if str = [] then res else res @ split_pieces delim str)"

fun join_pieces :: "char \<Rightarrow> string list \<Rightarrow> string" where
  "join_pieces delim [] = []"
| "join_pieces delim (s # ss) = s @ concat (map (\<lambda>s. delim # s) ss)"

definition joinStringDelim :: "string list \<Rightarrow> string \<Rightarrow> char \<Rightarrow> string" where
  "joinStringDelim strs res delim = res @ join_pieces delim strs"

lemma split_pieces_nonempty: "split_pieces delim s \<noteq> []"
  by (subst split_pieces.simps) simp

lemma join_split: "joinStringDelim (splitStringDelim str [] delim) [] delim = str"
proof -
  have "join_pieces delim (split_pieces delim s) = s" for s
  proof (induction delim s rule: split_pieces.induct)
    case (1 delim s)
    show ?case
    proof (cases "delim \<in> set s")
      case True
      obtain p ps where p: "split_pieces delim (tl (dropWhile (\<lambda>c. c \<noteq> delim) s)) = p # ps"
        using split_pieces_nonempty by (meson list.exhaust)
      have "dropWhile (\<lambda>c. c \<noteq> delim) s = delim # tl (dropWhile (\<lambda>c. c \<noteq> delim) s)"
        using True hd_dropWhile[of "\<lambda>c. c \<noteq> delim" s] by (cases "dropWhile (\<lambda>c. c \<noteq> delim) s") auto
      then show ?thesis
        using 1[OF True] True takeWhile_dropWhile_id[of "\<lambda>c. c \<noteq> delim" s] by (subst split_pieces.simps) (simp add: p)
    qed (subst split_pieces.simps, simp)
  qed
  then show ?thesis by (simp add: joinStringDelim_def splitStringDelim_def)
qed

lemma split_join:
  assumes "\<forall>s \<in> set strs. delim \<notin> set s" "strs \<noteq> [[]]"
  shows "splitStringDelim (joinStringDelim strs [] delim) [] delim = strs"
proof -
  have j: "split_pieces delim (s @ concat (map (\<lambda>s. delim # s) ss)) = s # ss"
    if "delim \<notin> set s" "\<forall>s \<in> set ss. delim \<notin> set s" for s ss
    using that
  proof (induction ss arbitrary: s)
    case Nil
    then show ?case by (subst split_pieces.simps) simp
  next
    case (Cons t ts)
    have "takeWhile (\<lambda>c. c \<noteq> delim) (s @ delim # r) = s" "dropWhile (\<lambda>c. c \<noteq> delim) (s @ delim # r) = delim # r" for r
      using Cons.prems(1) by (simp_all add: takeWhile_append dropWhile_append)
    then show ?case using Cons.IH[of t] Cons.prems(2) by (subst split_pieces.simps) simp
  qed
  show ?thesis
  proof (cases strs)
    case (Cons s ss)
    then have "join_pieces delim strs \<noteq> []" using assms(2) by (cases ss) auto
    then show ?thesis using j[of s ss] assms(1) by (simp add: joinStringDelim_def splitStringDelim_def Cons)
  qed (simp add: joinStringDelim_def splitStringDelim_def)
qed

text \<open>\<open>tolower\<close> has no meaning for a negative value but the one of the end of a file.\<close>

definition to_lower :: "char \<Rightarrow> char" where
  "to_lower c = (if CHR ''A'' \<le> c \<and> c \<le> CHR ''Z'' then char_of (of_char c + 32 :: nat) else c)"

definition tolowerString :: "string \<Rightarrow> string res" where
  "tolowerString input =
     (if \<exists>c \<in> set input. char_value c < - 1 then Inl (Undefined ''tolower of a negative value'')
      else Inr (c_str (map to_lower input)))"

end
