(* ===== verification/MongoExtract.thy ===== *)
theory MongoExtract
imports MongoDotted
begin

text \<open>
  Documents made of the fields of others (\<open>extractFields\<close>, \<open>filterFieldsUndotted\<close> and the functions near them in
  \<open>db/jsobj.cpp\<close>), what they write, and that sorting by a key is comparing what is extracted for it.
\<close>

section \<open>Going through an object\<close>

text \<open>The loop \<open>while (i.moreWithEOO()) { e = i.next(); if (e.eoo()) break; ... }\<close> over a state.\<close>

partial_function (option) fold_elems ::
  "(BSONElement \<Rightarrow> 's \<Rightarrow> 's res option) \<Rightarrow> string \<Rightarrow> BSONObjIterator \<Rightarrow> 's \<Rightarrow> 's res option"
where
  "fold_elems g m i s =
     (if \<not> it_moreWithEOO i then Some (Inr s)
      else case run_then (it_next m i) (\<lambda>(e, i). run_then (el_type e) (\<lambda>t. Inr (e, t, i))) of
             Inl f \<Rightarrow> Some (Inl f)
           | Inr (e, t, i') \<Rightarrow>
               if t = EOO then Some (Inr s)
               else Option.bind (g e s) (\<lambda>r. case r of Inl f \<Rightarrow> Some (Inl f) | Inr s' \<Rightarrow> fold_elems g m i' s'))"

definition fold_object :: "(BSONElement \<Rightarrow> 's \<Rightarrow> 's res option) \<Rightarrow> pointer_in \<Rightarrow> 's \<Rightarrow> 's res option" where
  "fold_object g p s = (case iterator_over p of Inl f \<Rightarrow> Some (Inl f) | Inr i \<Rightarrow> fold_elems g (fst p) i s)"

text \<open>A new builder, filled and closed.\<close>

definition build_with ::
  "(nat \<Rightarrow> char) \<Rightarrow> nat \<Rightarrow> (BSONObjBuilder \<Rightarrow> BSONObjBuilder res option) \<Rightarrow> BSONObj res option"
where
  "build_with memory initsize g =
     res_bind (Some (BSONObjBuilder_new memory initsize)) (\<lambda>b. res_bind (g b) (\<lambda>b. Some (bob_obj b)))"

section \<open>Objects of some fields\<close>

definition extractFieldsUnDotted :: "(nat \<Rightarrow> char) \<Rightarrow> pointer_in \<Rightarrow> pointer_in \<Rightarrow> BSONObj res option" where
  "extractFieldsUnDotted memory p pattern =
     build_with memory 512 (fold_object (\<lambda>e b.
       res_bind (Some (fieldName e)) (\<lambda>name.
       res_bind (getField_in p name) (\<lambda>x.
       res_bind (Some (el_type x)) (\<lambda>t.
         if t \<noteq> EOO then Some (appendAs x [] b) else Some (Inr b))))) pattern)"

definition extractFields :: "(nat \<Rightarrow> char) \<Rightarrow> bool \<Rightarrow> pointer_in \<Rightarrow> pointer_in \<Rightarrow> BSONObj res option" where
  "extractFields memory fillWithNull p pattern =
     build_with memory 32 (fold_object (\<lambda>e b.
       res_bind (Some (fieldName e)) (\<lambda>name.
       res_bind (getFieldDotted p name) (\<lambda>x.
       res_bind (Some (el_type x)) (\<lambda>t.
         if t \<noteq> EOO then Some (appendAs x name b)
         else if fillWithNull then Some (appendNull name b)
         else Some (Inr b))))) pattern)"

definition filterFieldsUndotted :: "(nat \<Rightarrow> char) \<Rightarrow> bool \<Rightarrow> pointer_in \<Rightarrow> pointer_in \<Rightarrow> BSONObj res option" where
  "filterFieldsUndotted memory inFilter p filt =
     build_with memory 512 (fold_object (\<lambda>e b.
       res_bind (Some (fieldName e)) (\<lambda>name.
       res_bind (getField_in filt name) (\<lambda>x.
       res_bind (Some (el_type x)) (\<lambda>t.
         if t = EOO \<and> \<not> inFilter \<or> t \<noteq> EOO \<and> inFilter then Some (append_element e b) else Some (Inr b))))) p)"

text \<open>\<open>MinKey\<close> and \<open>MaxKey\<close> as objects a client can show.\<close>

definition readable_key :: "(nat \<Rightarrow> char) \<Rightarrow> string \<Rightarrow> string \<Rightarrow> appends" where
  "readable_key memory key name b =
     run_then (BSONObjBuilder_new memory 512) (\<lambda>c. run_then (append_int key 1 c) (\<lambda>c. run_then (bob_obj c) (\<lambda>obj.
       append_object name obj b)))"

definition clientReadable :: "(nat \<Rightarrow> char) \<Rightarrow> pointer_in \<Rightarrow> BSONObj res option" where
  "clientReadable memory p =
     build_with memory 512 (fold_object (\<lambda>e b.
       res_bind (Some (el_type e)) (\<lambda>t.
         if t = MinKey then Some (run_then (fieldName e) (\<lambda>name. readable_key memory ''$minElement'' name b))
         else if t = MaxKey then Some (run_then (fieldName e) (\<lambda>name. readable_key memory ''$maxElement'' name b))
         else Some (append_element e b))) p)"

text \<open>The names of another object, one after the other, as long as there are some.\<close>

definition replaceFieldNames :: "(nat \<Rightarrow> char) \<Rightarrow> pointer_in \<Rightarrow> pointer_in \<Rightarrow> BSONObj res option" where
  "replaceFieldNames memory p names =
     res_bind (Some (iterator_over names)) (\<lambda>j.
     res_bind (Some (if it_moreWithEOO j then it_next (fst names) j else Inr ((fst empty_object, 4), j))) (\<lambda>(f, j).
       build_with memory 512 (\<lambda>b. res_bind
         (fold_object (\<lambda>e (b, f, j).
            res_bind (Some (el_type f)) (\<lambda>t.
              if t \<noteq> EOO then
                Some (run_then (fieldName f) (\<lambda>name. run_then (appendAs e name b) (\<lambda>b.
                  run_then (it_next (fst names) j) (\<lambda>(f, j). Inr (b, f, j)))))
              else Some (run_then (append_element e b) (\<lambda>b. Inr (b, f, j))))) p (b, f, j))
         (\<lambda>(b, _). Some (Inr b)))))"

section \<open>Names and places\<close>

text \<open>The names are added to those there are, with their number.\<close>

definition getFieldNames :: "pointer_in \<Rightarrow> string list \<Rightarrow> (string list \<times> nat) res option" where
  "getFieldNames p names =
     fold_object (\<lambda>e (names, n). Some (run_then (fieldName e) (\<lambda>name. Inr (List.insert name names, n + 1)))) p (names, 0)"

text \<open>An array has the names \<open>0\<close>, \<open>1\<close>, ...; the first other name ends the loop with no.\<close>

partial_function (option) array_loop :: "string \<Rightarrow> BSONObjIterator \<Rightarrow> nat \<Rightarrow> bool res option" where
  "array_loop m i n =
     (if \<not> it_moreWithEOO i then Some (Inr True)
      else case run_then (it_next m i) (\<lambda>(e, i). run_then (el_type e) (\<lambda>t. run_then (fieldName e) (\<lambda>f. Inr (t, f, i)))) of
             Inl f \<Rightarrow> Some (Inl f)
           | Inr (t, f, i') \<Rightarrow>
               if t = EOO then Some (Inr True)
               else if f \<noteq> show_nat n then Some (Inr False)
               else array_loop m i' (n + 1))"

definition couldBeArray :: "pointer_in \<Rightarrow> bool res option" where
  "couldBeArray p = (case iterator_over p of Inl f \<Rightarrow> Some (Inl f) | Inr i \<Rightarrow> array_loop (fst p) i 0)"

text \<open>The element that stands where the name stands in the key: first the place of the name, then the element there.\<close>

partial_function (option) name_place :: "string \<Rightarrow> string \<Rightarrow> BSONObjIterator \<Rightarrow> nat \<Rightarrow> nat option res option" where
  "name_place name m i n =
     (if \<not> it_moreWithEOO i then Some (Inr (Some n))
      else case run_then (it_next m i) (\<lambda>(e, i). run_then (el_type e) (\<lambda>t. run_then (fieldName e) (\<lambda>f. Inr (t, f, i)))) of
             Inl f \<Rightarrow> Some (Inl f)
           | Inr (t, f, i') \<Rightarrow>
               if t = EOO then Some (Inr None)
               else if f = name then Some (Inr (Some n))
               else name_place name m i' (n + 1))"

primrec element_in_place :: "string \<Rightarrow> nat \<Rightarrow> BSONObjIterator \<Rightarrow> BSONElement res" where
  "element_in_place m 0 i =
     (if \<not> it_moreWithEOO i then Inr no_element
      else run_then (it_next m i) (\<lambda>(e, i). run_then (el_type e) (\<lambda>t. Inr (if t = EOO then no_element else e))))"
| "element_in_place m (Suc n) i =
     (if \<not> it_moreWithEOO i then Inr no_element
      else run_then (it_next m i) (\<lambda>(e, i). run_then (el_type e) (\<lambda>t.
        if t = EOO then Inr no_element else element_in_place m n i)))"

definition getFieldUsingIndexNames :: "pointer_in \<Rightarrow> string \<Rightarrow> pointer_in \<Rightarrow> BSONElement res option" where
  "getFieldUsingIndexNames p name key =
     res_bind (Some (iterator_over key)) (\<lambda>i.
     res_bind (name_place name (fst key) i 0) (\<lambda>n.
       case n of
         None \<Rightarrow> Some (Inr no_element)
       | Some n \<Rightarrow> Some (run_then (iterator_over p) (element_in_place (fst p) n))))"

section \<open>What is written\<close>

lemma stands_raw:
  assumes "stands m i ((f, a) # fs)" "fields_ok P ((f, a) # fs)"
  shows "at_raw (m, it_pos i) (raw_field (f, a))" "raw_ok (raw_field (f, a))"
proof -
  have b: "body ((f, a) # fs) = raw_bytes (raw_field (f, a)) @ body fs" by (simp add: body_def)
  show "at_raw (m, it_pos i) (raw_field (f, a))" using assms(1) unfolding stands_def at_raw_def b by auto
  have "typed_value (tree_type a) (tree_value a)" "NUL \<notin> set f" using assms(2) tree_typed by (auto simp: fields_ok_def)
  moreover have "length (raw_bytes (raw_field (f, a))) < 2 ^ 31" using assms(1) unfolding stands_def b by simp
  ultimately show "raw_ok (raw_field (f, a))" unfolding raw_field_def fst_conv snd_conv by (intro typed_raw_ok)
qed

text \<open>A loop over an object keeps what every element keeps.\<close>

lemma fold_elems_at:
  assumes "stands m i fs" "fields_ok P fs" "I d s" "d @ fs = all"
    and step: "\<And>f a e q d rest s. all = d @ (f, a) # rest \<Longrightarrow> placed e (tree_type a) f (tree_value a) q \<Longrightarrow>
      at_raw e (raw_field (f, a)) \<Longrightarrow> raw_ok (raw_field (f, a)) \<Longrightarrow> I d s \<Longrightarrow> \<exists>s'. g e s = Some (Inr s') \<and> I (d @ [(f, a)]) s'"
  shows "\<exists>s'. fold_elems g m i s = Some (Inr s') \<and> I all s'"
  using assms(1-4)
proof (induction fs arbitrary: i d s)
  case Nil
  obtain i' where "it_next m i = Inr ((m, it_pos i), i')" using stands_Nil(1)[OF Nil.prems(1)] by blast
  then show ?case
    using stands_Nil(2)[OF Nil.prems(1)] Nil.prems(3,4) by (subst fold_elems.simps) simp
next
  case (Cons fa fs)
  obtain f a where fa: "fa = (f, a)" by (cases fa)
  obtain i' p where i: "it_next m i = Inr ((m, it_pos i), i')" "stands m i' fs"
    and p: "placed (m, it_pos i) (tree_type a) f (tree_value a) p"
    by (rule stands_Cons[OF Cons.prems(1,2)[unfolded fa]])
  note raw = stands_raw[OF Cons.prems(1,2)[unfolded fa]]
  obtain s' where s': "g (m, it_pos i) s = Some (Inr s')" "I (d @ [(f, a)]) s'"
    using step[OF _ p raw Cons.prems(3), of fs] Cons.prems(4) by (auto simp: fa)
  have more: "it_moreWithEOO i" using Cons.prems(1) by (auto simp: stands_def it_moreWithEOO_def)
  have ok: "fields_ok P fs" using Cons.prems(2) by (simp add: fields_ok_def)
  have "\<exists>s''. fold_elems g m i' s' = Some (Inr s'') \<and> I all s''"
    by (rule Cons.IH[OF i(2) ok s'(2)]) (use Cons.prems(4) fa in simp)
  then show ?case using more i(1) placed_type[OF p] s'(1) by (subst fold_elems.simps) simp
qed

lemma appendAs_writes:
  assumes "placed e t f v p"
  shows "writes (appendAs e name) (raw_bytes (t, name, v))"
proof -
  have t: "el_type e = Inr t" "t \<noteq> EOO" using placed_type[OF assms] by simp_all
  have r: "read_size p (int (length v)) = Inr v" using assms read_size_holds[of p v] by (simp add: placed_def)
  have "appendAs e name = put_all [type_byte t, appendStr name, appendBuf v]"
    by (rule ext) (use assms r t in \<open>simp add: appendAs_def placed_def\<close>)
  also have "\<dots> = put_all (map appendBuf [le_int 1 (bson_type_value t), name @ [NUL], v])"
    by (simp add: append_defs[abs_def])
  finally show ?thesis
    using writes_put_all[of "[le_int 1 (bson_type_value t), name @ [NUL], v]"] by (simp add: raw_bytes_def)
qed

lemma appendNull_writes: "writes (appendNull name) (raw_bytes (jstNULL, name, []))"
proof -
  have "appendNull name = put_all (map appendBuf [le_int 1 (bson_type_value jstNULL), name @ [NUL]])"
    by (rule ext) (simp add: appendNull_def append_defs[abs_def])
  then show ?thesis using writes_put_all[of "[le_int 1 (bson_type_value jstNULL), name @ [NUL]]"] by (simp add: raw_bytes_def)
qed

lemma body_append: "body (fs @ gs) = body fs @ body gs"
  by (simp add: body_def)

lemma doc_bytes_body: "doc_bytes fs = le_int 4 (int (length (body fs)) + 5) @ body fs @ [NUL]"
  by (simp add: doc_bytes_def obj_bytes_def body_def Let_def)

text \<open>An object built of what is written for every field of another one.\<close>

lemma build_with_at:
  assumes "holds p (doc_bytes fs)" "doc_ok P fs" "4 \<le> initsize"
    and "length (doc_bytes (concat (map W fs))) + 4 \<le> BufferMaxSize"
    and step: "\<And>f a e q. (f, a) \<in> set fs \<Longrightarrow> placed e (tree_type a) f (tree_value a) q \<Longrightarrow> at_raw e (raw_field (f, a)) \<Longrightarrow>
      raw_ok (raw_field (f, a)) \<Longrightarrow> \<exists>ap. (\<forall>b. g e b = Some (ap b)) \<and> writes ap (body (W (f, a)))"
  shows "build_with memory initsize (fold_object g p) = Some (Inr (doc_bytes (concat (map W fs))))"
proof -
  let ?I = "\<lambda>d (b :: BSONObjBuilder). bb_data (bob_b b) = le_int 4 0 @ map memory [0..<4] @ body (concat (map W d)) \<and> bob_offset b = 4 \<and>
    \<not> bob_doneCalled b"
  obtain b where b: "BSONObjBuilder_new memory initsize = Inr b" "?I [] b"
    using BSONObjBuilder_new_data[OF assms(3), of memory] by (auto simp: body_Nil)
  obtain i where i: "iterator_over p = Inr i" "stands (fst p) i fs" by (rule iterator_at_doc[OF assms(1,2)])
  have ok: "fields_ok P fs" using assms(2) by (simp add: doc_ok_fields)
  have "\<exists>b'. fold_elems g (fst p) i b = Some (Inr b') \<and> ?I fs b'"
  proof (rule fold_elems_at[where I = ?I, OF i(2) ok b(2)])
    fix f a e q d rest c
    assume all: "fs = d @ (f, a) # rest" and e: "placed e (tree_type a) f (tree_value a) q" "at_raw e (raw_field (f, a))"
      "raw_ok (raw_field (f, a))" and I: "?I d c"
    obtain ap where ap: "\<forall>b. g e b = Some (ap b)" "writes ap (body (W (f, a)))" using step[OF _ e] all by auto
    have "length (body (concat (map W fs))) + 9 \<le> BufferMaxSize" using assms(4) by (simp add: length_doc_bytes)
    then have "length (bb_data (bob_b c)) + length (body (W (f, a))) \<le> BufferMaxSize"
      using I by (simp add: all body_append)
    from writesE[OF ap(2) this] obtain c' where "ap c = Inr c'" "bb_data (bob_b c') = bb_data (bob_b c) @ body (W (f, a))"
      "bob_offset c' = bob_offset c" "bob_doneCalled c' = bob_doneCalled c" .
    then show "\<exists>c'. g e c = Some (Inr c') \<and> ?I (d @ [(f, a)]) c'" using ap(1) I by (simp add: body_append)
  qed simp
  then obtain c where c: "fold_elems g (fst p) i b = Some (Inr c)" "?I fs c" by blast
  have "length (bb_data (bob_b c)) + 1 \<le> BufferMaxSize" using c(2) assms(4) by (simp add: length_doc_bytes)
  then have "bob_obj c = Inr (doc_bytes (concat (map W fs)))"
    unfolding doc_bytes_body using c(2)
    by (intro bob_obj_data[where pre = "le_int 4 0" and room = "map memory [0..<4]"]) simp_all
  then show ?thesis by (simp add: build_with_def b(1) fold_object_def i(1) c(1))
qed

section \<open>What the functions give\<close>

definition extracted_field :: "bool \<Rightarrow> (string \<times> tree) list \<Rightarrow> string \<times> tree \<Rightarrow> (string \<times> tree) list" where
  "extracted_field fill fs k =
     (case tree_dotted fs (fst k) of Some a \<Rightarrow> [(fst k, a)] | None \<Rightarrow> if fill then [(fst k, Leaf jstNULL [])] else [])"

definition extracted :: "bool \<Rightarrow> (string \<times> tree) list \<Rightarrow> (string \<times> tree) list \<Rightarrow> (string \<times> tree) list" where
  "extracted fill fs ks = concat (map (extracted_field fill fs) ks)"

lemma body_one: "body [(f, a)] = raw_bytes (tree_type a, f, tree_value a)"
  by (simp add: body_def raw_field_def)

lemma extractFields_at:
  assumes "holds p (doc_bytes fs)" "doc_ok P fs" "holds key (doc_bytes ks)" "doc_ok R ks"
    and "length (doc_bytes (extracted fill fs ks)) + 4 \<le> BufferMaxSize"
  shows "extractFields memory fill p key = Some (Inr (doc_bytes (extracted fill fs ks)))"
  unfolding extractFields_def extracted_def
proof (rule build_with_at[OF assms(3,4)])
  fix f a e q
  assume "placed e (tree_type a) f (tree_value a) q"
  then have n: "fieldName e = Inr f" by (simp add: placed_def)
  obtain x where x: "getFieldDotted p f = Some (Inr x)" "finds x (tree_dotted fs f)" using getFieldDotted_at[OF assms(1,2)] by blast
  obtain t where t: "el_type x = Inr t" "t = EOO \<longleftrightarrow> tree_dotted fs f = None" by (rule finds_type[OF x(2)])
  let ?g = "\<lambda>b. res_bind (Some (fieldName e)) (\<lambda>name. res_bind (getFieldDotted p name) (\<lambda>x. res_bind (Some (el_type x)) (\<lambda>t.
         if t \<noteq> EOO then Some (appendAs x name b) else if fill then Some (appendNull name b) else Some (Inr b))))"
  have g: "?g b = (if t \<noteq> EOO then Some (appendAs x f b) else if fill then Some (appendNull f b) else Some (Inr b))" for b
    by (simp add: n x(1) t(1))
  show "\<exists>ap. (\<forall>b. ?g b = Some (ap b)) \<and> writes ap (body (extracted_field fill fs (f, a)))"
  proof (cases "tree_dotted fs f")
    case None
    then show ?thesis
      unfolding g using t(2) appendNull_writes[of f] writes_Nil
      by (cases fill) (auto simp: extracted_field_def body_one body_Nil)
  next
    case (Some c)
    then obtain h v where "placed x (tree_type c) h (tree_value c) v" using x(2) by (auto simp: finds_def)
    from appendAs_writes[OF this, of f] show ?thesis
      unfolding g using t(2) Some by (auto simp: extracted_field_def body_one)
  qed
qed (use assms(5) in \<open>simp_all add: extracted_def\<close>)

lemma filter_at:
  assumes "holds p (doc_bytes fs)" "doc_ok P fs" "holds q (doc_bytes gs)" "doc_ok Q gs"
  shows "filterFieldsUndotted memory inFilter p q =
    Some (Inr (doc_bytes (filter (\<lambda>(f, a). (tree_field gs f \<noteq> None) = inFilter) fs)))"
proof -
  let ?W = "\<lambda>(f, a). if (tree_field gs f \<noteq> None) = inFilter then [(f, a)] else []"
  have W: "filter (\<lambda>(f, a). (tree_field gs f \<noteq> None) = inFilter) fs = concat (map ?W fs)" by (induction fs) (auto split: if_splits)
  have "length (body (concat (map ?W hs))) \<le> length (body hs)" for hs
    by (induction hs) (auto simp: body_append body_Nil length_body_Cons)
  from this[of fs] have size: "length (doc_bytes (concat (map ?W fs))) + 4 \<le> BufferMaxSize"
    using assms(2) by (simp add: doc_ok_fields length_doc_bytes BSONObjMaxInternalSize_def BufferMaxSize_def)
  show ?thesis
    unfolding W filterFieldsUndotted_def
  proof (rule build_with_at[OF assms(1,2) _ size])
    fix f a e v
    assume e: "placed e (tree_type a) f (tree_value a) v" "at_raw e (raw_field (f, a))" "raw_ok (raw_field (f, a))"
    have n: "fieldName e = Inr f" using e(1) by (simp add: placed_def)
    obtain x where x: "getField_in q f = Some (Inr x)" "finds x (tree_field gs f)" using getField_in_at[OF assms(3,4)] by blast
    obtain t where t: "el_type x = Inr t" "t = EOO \<longleftrightarrow> tree_field gs f = None" by (rule finds_type[OF x(2)])
    let ?g = "\<lambda>b. res_bind (Some (fieldName e)) (\<lambda>name. res_bind (getField_in q name) (\<lambda>x. res_bind (Some (el_type x)) (\<lambda>t.
         if t = EOO \<and> \<not> inFilter \<or> t \<noteq> EOO \<and> inFilter then Some (append_element e b) else Some (Inr b))))"
    have g: "?g b = (if (tree_field gs f \<noteq> None) = inFilter then Some (append_element e b) else Some (Inr b))" for b
      using t(2) by (simp add: n x(1) t(1))
    show "\<exists>ap. (\<forall>b. ?g b = Some (ap b)) \<and> writes ap (body (?W (f, a)))"
      unfolding g using append_element_writes[OF e(2,3)] writes_Nil
      by (cases "(tree_field gs f \<noteq> None) = inFilter") (auto simp: body_one body_Nil raw_field_def)
  qed simp
qed

section \<open>Sorting by a key is comparing what is extracted for it\<close>

fun values_cmp :: "(string \<times> tree) list \<Rightarrow> (string \<times> tree) list \<Rightarrow> (string \<times> tree) list \<Rightarrow> int" where
  "values_cmp (k # ks) (p # fs) (q # gs) =
     (let x = val_cmp (snd p) (snd q); y = (if key_down k then - x else x) in if y \<noteq> 0 then y else values_cmp ks fs gs)"
| "values_cmp _ _ _ = 0"

lemma wo_key_loop_at:
  assumes "stands m i fs" "stands n j gs" "stands mk k ks" "fields_ok P fs" "fields_ok Q gs" "fields_ok R ks" "compatible P Q"
    and "length fs = length ks" "length gs = length ks"
  shows "\<exists>x. wo_key_loop False True m i n j mk k = Some (Inr x) \<and> sgn x = sgn (values_cmp ks fs gs)"
  using assms
proof (induction ks arbitrary: fs gs i j k)
  case Nil
  then have e: "fs = []" "gs = []" by simp_all
  obtain i' where i: "it_next m i = Inr ((m, it_pos i), i')" using stands_Nil(1) Nil.prems(1) e by blast
  obtain j' where j: "it_next n j = Inr ((n, it_pos j), j')" using stands_Nil(1) Nil.prems(2) e by blast
  obtain k' where k: "it_next mk k = Inr ((mk, it_pos k), k')" using stands_Nil(1)[OF Nil.prems(3)] by blast
  have t: "el_type (m, it_pos i) = Inr EOO" "el_type (n, it_pos j) = Inr EOO" using stands_Nil(2) Nil.prems(1,2) e by blast+
  have "wo_key_next True m i n j mk k = Inr (StepIs 0, (mk, it_pos k), k')"
    using wo_key_next_at[of True mk k "(mk, it_pos k)" k' m i n j] k wo_next_at[OF i j t] by (simp add: key_next_def)
  then show ?case by (subst wo_key_loop.simps) simp
next
  case (Cons c ks)
  obtain cn ca where c: "c = (cn, ca)" by (cases c)
  obtain f a fs' where fs: "fs = (f, a) # fs'" using Cons.prems(8) by (cases fs) auto
  obtain g b gs' where gs: "gs = (g, b) # gs'" using Cons.prems(9) by (cases gs) auto
  obtain i' p where i: "it_next m i = Inr ((m, it_pos i), i')" "stands m i' fs'"
    and p: "placed (m, it_pos i) (tree_type a) f (tree_value a) p" by (rule stands_Cons[OF Cons.prems(1,4)[unfolded fs]])
  obtain j' q where j: "it_next n j = Inr ((n, it_pos j), j')" "stands n j' gs'"
    and q: "placed (n, it_pos j) (tree_type b) g (tree_value b) q" by (rule stands_Cons[OF Cons.prems(2,5)[unfolded gs]])
  obtain k' v where k: "it_next mk k = Inr ((mk, it_pos k), k')" "stands mk k' ks"
    and v: "placed (mk, it_pos k) (tree_type ca) cn (tree_value ca) v" by (rule stands_Cons[OF Cons.prems(3,6)[unfolded c]])
  have ok: "tree_ok P a" "tree_ok Q b" "fields_ok P fs'" "fields_ok Q gs'" "fields_ok R ks"
    using Cons.prems(4-6) by (simp_all add: fields_ok_def fs gs)
  obtain d where d: "numberDouble (mk, it_pos k) = Inr d" "double_less d 0 = key_down c"
    using numberDouble_placed[OF v] unfolding c by blast
  obtain x where x: "el_woCompare False (m, it_pos i) (n, it_pos j) = Some (Inr x)" "same_sign x (val_cmp a b)"
    using element_value[OF p q ok(1,2) Cons.prems(7)] by blast
  have neg: "by_key True (mk, it_pos k) x = Inr (if key_down c then - x else x)"
    using x(2) d by (simp add: by_key_def negated_def same_sign_def int_sum_def INT_MIN32_def abs_less_iff)
  have "wo_next m i n j = Inr (StepAt (m, it_pos i) (n, it_pos j) i' j')"
    using wo_next_at[OF i(1) j(1) placed_type[OF p, THEN conjunct1] placed_type[OF q, THEN conjunct1]]
      placed_type[OF p] placed_type[OF q] by simp
  then have step: "wo_key_next True m i n j mk k = Inr (StepAt (m, it_pos i) (n, it_pos j) i' j', (mk, it_pos k), k')"
    using wo_key_next_at[of True mk k "(mk, it_pos k)" k' m i n j] k(1) by (simp add: key_next_def)
  have "length fs' = length ks" "length gs' = length ks" using Cons.prems(8,9) fs gs by simp_all
  from Cons.IH[OF i(2) j(2) k(2) ok(3-5) Cons.prems(7) this] obtain y where
    y: "wo_key_loop False True m i' n j' mk k' = Some (Inr y)" "sgn y = sgn (values_cmp ks fs' gs')" by blast
  have sx: "sgn x = sgn (val_cmp a b)" "x = 0 \<longleftrightarrow> val_cmp a b = 0" using x(2) same_sign_zero[OF x(2)] by (simp_all add: same_sign_def)
  show ?case
    unfolding wo_key_loop.simps[of False True m i n j mk k] step
    using x(1) neg y sx by (simp add: fs gs Let_def sgn_minus)
qed

lemma keys_are_values:
  "keys_cmp True ks fs gs = values_cmp ks (extracted True fs ks) (extracted True gs ks)"
proof (induction ks)
  case (Cons k ks)
  have one: "extracted_field True hs k = [(fst k, tree_get True hs (fst k))]" for hs
    by (simp add: extracted_field_def tree_get_def split: option.split)
  show ?case using Cons by (simp add: extracted_def one key_cmp_def then_by_def Let_def)
qed simp

lemma length_extracted: "length (extracted True fs ks) = length ks"
  by (induction ks) (simp_all add: extracted_def extracted_field_def split: option.split)

lemma extracted_ok:
  assumes "doc_ok P fs" "P jstNULL []" "doc_ok R ks"
  shows "fields_ok P (extracted fill fs ks)"
proof -
  have "NUL \<notin> set h \<and> tree_ok P c" if "(h, c) \<in> set (extracted_field fill fs k)" "k \<in> set ks" for h c k
  proof -
    have "NUL \<notin> set (fst k)" using assms(3) that(2) by (auto simp: doc_ok_fields fields_ok_def)
    then show ?thesis
      using that(1) tree_dotted_ok[OF assms(1), of "fst k"] assms(2) null_leaf
      by (auto simp: extracted_field_def split: option.splits if_splits)
  qed
  then show ?thesis by (auto simp: fields_ok_def extracted_def)
qed

text \<open>C29. What sorting relies on: two documents that are not empty compare under a key (with dotted names, missing fields as
  null) as the objects that \<open>extractFields\<close> makes of them for that key do, position by position, whatever
  the names. The documents and the key are typed, no date of the first document stands against a timestamp of the second
  (the comparison throws there), the key is not empty, and the two objects made are not longer than an object may be.
\<close>

theorem sorted_by_extracts:
  assumes "holds key (doc_bytes ks)" "doc_ok R ks" "ks \<noteq> []" "compatible P Q" "P jstNULL []" "Q jstNULL []"
    and "holds p (doc_bytes fs)" "doc_ok P fs" "fs \<noteq> []" "holds q (doc_bytes gs)" "doc_ok Q gs" "gs \<noteq> []"
    and "int (length (doc_bytes (extracted True fs ks))) \<le> BSONObjMaxInternalSize"
    and "int (length (doc_bytes (extracted True gs ks))) \<le> BSONObjMaxInternalSize"
  shows "\<exists>a b x y. extractFields memory True p key = Some (Inr a) \<and> extractFields memory True q key = Some (Inr b) \<and>
    woSortOrder True p q key = Some (Inr x) \<and> woCompare_key False key (a, 0) (b, 0) = Some (Inr y) \<and> sgn x = sgn y"
proof -
  let ?f = "extracted True fs ks" and ?g = "extracted True gs ks"
  have max: "int n \<le> BSONObjMaxInternalSize \<Longrightarrow> n + 4 \<le> BufferMaxSize" for n
    by (simp add: BSONObjMaxInternalSize_def BufferMaxSize_def)
  note ex = extractFields_at[OF assms(7,8,1,2) max[OF assms(13)], of memory] extractFields_at[OF assms(10,11,1,2) max[OF assms(14)], of memory]
  have ok: "doc_ok P ?f" "doc_ok Q ?g"
    using extracted_ok[OF assms(8,5,2)] extracted_ok[OF assms(11,6,2)] assms(13,14) by (simp_all add: doc_ok_fields)
  have ne: "?f \<noteq> []" "?g \<noteq> []" using length_extracted assms(3) by (metis length_0_conv)+
  obtain k where k: "iterator_over key = Inr k" "stands (fst key) k ks" by (rule iterator_at_doc[OF assms(1,2)])
  have kok: "fields_ok R ks" using assms(2) by (simp add: doc_ok_fields)
  obtain x where x: "sort_loop True p q (fst key) k = Some (Inr x)" "same_sign x (keys_cmp True ks fs gs)"
    using sort_loop_at[OF assms(7,8,10,11,4-6) k(2) kok] by blast
  have sort: "woSortOrder True p q key = Some (Inr x)"
    using x(1) k(1) assms(3,9,12) isEmpty_at_doc[OF assms(7,8)] isEmpty_at_doc[OF assms(10,11)] isEmpty_at_doc[OF assms(1,2)]
    by (simp add: woSortOrder_def)
  obtain i j where ij: "wo_open (start ?f) (start ?g) = Inr (OpenAt i j)" "stands (doc_bytes ?f) i ?f" "stands (doc_bytes ?g) j ?g"
    using wo_open_at(2)[OF holds_start ok(1) holds_start ok(2) ne] by auto
  have fok: "fields_ok P ?f" "fields_ok Q ?g" using ok by (simp_all add: doc_ok_fields)
  obtain y where y: "wo_key_loop False True (doc_bytes ?f) i (doc_bytes ?g) j (fst key) k = Some (Inr y)" "sgn y = sgn (values_cmp ks ?f ?g)"
    using wo_key_loop_at[OF ij(2,3) k(2) fok kok assms(4) length_extracted length_extracted] by blast
  have "woCompare_key False key (start ?f) (start ?g) = Some (Inr y)"
    using y(1) k(1) isEmpty_at_doc[OF assms(1,2)] assms(3) by (simp add: woCompare_key_def ij(1))
  then show ?thesis using ex sort x(2) y(2) by (simp add: keys_are_values same_sign_def)
qed

lemma sorted_by_extracts_witness:
  "\<exists>a b x y. extractFields (\<lambda>_. CHR ''x'') True (start (doc_long 1)) (start (doc_long (- 1))) = Some (Inr a) \<and>
    extractFields (\<lambda>_. CHR ''x'') True (start (doc_long 2)) (start (doc_long (- 1))) = Some (Inr b) \<and>
    woSortOrder True (start (doc_long 1)) (start (doc_long 2)) (start (doc_long (- 1))) = Some (Inr x) \<and>
    woCompare_key False (start (doc_long (- 1))) (a, 0) (b, 0) = Some (Inr y) \<and> sgn x = sgn y"
proof -
  have ne: "doc_long n \<noteq> []" for n by (simp add: doc_long_def)
  have "extracted True (doc_long m) (doc_long n) = doc_long m" for m n
    by (simp add: extracted_def extracted_field_def doc_long_def tree_dotted.simps)
  then have "int (length (doc_bytes (extracted True (doc_long m) (doc_long n)))) \<le> BSONObjMaxInternalSize" for m n
    using small_long_ok[of 0] by (simp add: doc_long_def doc_sizes)
  from sorted_by_extracts[where memory = "\<lambda>_. CHR ''x''", OF holds_start broken_docs(1) ne _ _ _ holds_start broken_docs(1) ne
      holds_start broken_docs(1) ne this this, of 1 "- 1" 2]
  show ?thesis by (simp add: compatible_def comparable_def)
qed

end
