(* ===== verification/MongoBounds.thy ===== *)
theory MongoBounds
imports MongoExtract
begin

text \<open>
  The smallest and the greatest value of a type (\<open>BSONObjBuilder::appendMinForType\<close> and \<open>appendMaxForType\<close> of
  \<open>db/jsobj.cpp\<close>), and which values of the type lie between them in the order of \<open>MongoCompare\<close>.
\<close>

section \<open>The bounds\<close>

text \<open>\<open>numeric_limits<double>::max()\<close>, and the same with the other sign.\<close>

definition max_double :: float64 where
  "max_double = 0x7FEFFFFFFFFFFFFF"

definition lowest_double :: float64 where
  "lowest_double = 0xFFEFFFFFFFFFFFFF"

text \<open>The object of the default constructor, and an id of twelve equal bytes.\<close>

definition no_fields :: BSONObj where
  "no_fields = obj_bytes []"

definition oid_of :: "char \<Rightarrow> string" where
  "oid_of c = replicate 12 c"

definition append_min :: "string \<Rightarrow> BSONType \<Rightarrow> appends" where
  "append_min f t =
     (case t of
        NumberInt \<Rightarrow> append_double f lowest_double
      | NumberDouble \<Rightarrow> append_double f lowest_double
      | NumberLong \<Rightarrow> append_double f lowest_double
      | Symbol \<Rightarrow> append_cstr f []
      | StringType \<Rightarrow> append_cstr f []
      | DateType \<Rightarrow> append_bool f True
      | Timestamp \<Rightarrow> appendTimestamp f 0
      | UndefinedType \<Rightarrow> appendUndefined f
      | MinKey \<Rightarrow> appendMinKey f
      | MaxKey \<Rightarrow> appendMaxKey f
      | jstOID \<Rightarrow> append_OID f (oid_of NUL)
      | BoolType \<Rightarrow> append_bool f False
      | jstNULL \<Rightarrow> appendNull f
      | ObjectType \<Rightarrow> append_object f no_fields
      | ArrayType \<Rightarrow> appendArray f no_fields
      | BinData \<Rightarrow> appendBinData f 0 []
      | RegEx \<Rightarrow> appendRegex f [] []
      | DBRef \<Rightarrow> appendDBRef f [] (oid_of NUL)
      | Code \<Rightarrow> appendCode f []
      | CodeWScope \<Rightarrow> appendCodeWScope f [] no_fields
      | _ \<Rightarrow> (\<lambda>b. Inl (Throw ''10061'')))"

definition appendMinForType :: "string \<Rightarrow> int \<Rightarrow> appends" where
  "appendMinForType f t = append_min f (bson_type_of t)"

text \<open>Above all values of a type with a rank of its own is the smallest one of the next rank.\<close>

definition append_max :: "string \<Rightarrow> BSONType \<Rightarrow> appends" where
  "append_max f t =
     (case t of
        NumberInt \<Rightarrow> append_double f max_double
      | NumberDouble \<Rightarrow> append_double f max_double
      | NumberLong \<Rightarrow> append_double f max_double
      | Symbol \<Rightarrow> append_min f ObjectType
      | StringType \<Rightarrow> append_min f ObjectType
      | DateType \<Rightarrow> appendDate f (2 ^ 63 - 1)
      | Timestamp \<Rightarrow> appendTimestamp f (2 ^ 64 - 1)
      | UndefinedType \<Rightarrow> appendUndefined f
      | MinKey \<Rightarrow> appendMinKey f
      | MaxKey \<Rightarrow> appendMaxKey f
      | jstOID \<Rightarrow> append_OID f (oid_of (CHR 0xFF))
      | BoolType \<Rightarrow> append_bool f True
      | jstNULL \<Rightarrow> appendNull f
      | ObjectType \<Rightarrow> append_min f ArrayType
      | ArrayType \<Rightarrow> append_min f BinData
      | BinData \<Rightarrow> append_min f jstOID
      | RegEx \<Rightarrow> append_min f DBRef
      | DBRef \<Rightarrow> append_min f Code
      | Code \<Rightarrow> append_min f CodeWScope
      | CodeWScope \<Rightarrow> append_min f MaxKey
      | _ \<Rightarrow> (\<lambda>b. Inl (Throw ''14853'')))"

definition appendMaxForType :: "string \<Rightarrow> int \<Rightarrow> appends" where
  "appendMaxForType f t = append_max f (bson_type_of t)"

section \<open>What they write\<close>

fun min_tree :: "BSONType \<Rightarrow> tree" where
  "min_tree NumberInt = Leaf NumberDouble (le 8 (unat lowest_double))"
| "min_tree NumberDouble = Leaf NumberDouble (le 8 (unat lowest_double))"
| "min_tree NumberLong = Leaf NumberDouble (le 8 (unat lowest_double))"
| "min_tree Symbol = Leaf StringType (le_int 4 1 @ [NUL])"
| "min_tree StringType = Leaf StringType (le_int 4 1 @ [NUL])"
| "min_tree DateType = Leaf BoolType (le_int 1 1)"
| "min_tree Timestamp = Leaf Timestamp (le_int 8 0)"
| "min_tree jstOID = Leaf jstOID (oid_of NUL)"
| "min_tree BoolType = Leaf BoolType (le_int 1 0)"
| "min_tree ObjectType = Node ObjectType []"
| "min_tree ArrayType = Node ArrayType []"
| "min_tree BinData = Leaf BinData (le_int 4 0 @ le_int 1 0)"
| "min_tree RegEx = Leaf RegEx [NUL, NUL]"
| "min_tree DBRef = Leaf DBRef (le_int 4 1 @ [NUL] @ oid_of NUL)"
| "min_tree Code = Leaf Code (le_int 4 1 @ [NUL])"
| "min_tree CodeWScope = Leaf CodeWScope (le_int 4 14 @ le_int 4 1 @ [NUL] @ no_fields)"
| "min_tree t = Leaf t []"

fun max_tree :: "BSONType \<Rightarrow> tree" where
  "max_tree NumberInt = Leaf NumberDouble (le 8 (unat max_double))"
| "max_tree NumberDouble = Leaf NumberDouble (le 8 (unat max_double))"
| "max_tree NumberLong = Leaf NumberDouble (le 8 (unat max_double))"
| "max_tree Symbol = min_tree ObjectType"
| "max_tree StringType = min_tree ObjectType"
| "max_tree DateType = Leaf DateType (le_int 8 (2 ^ 63 - 1))"
| "max_tree Timestamp = Leaf Timestamp (le_int 8 (2 ^ 64 - 1))"
| "max_tree jstOID = Leaf jstOID (oid_of (CHR 0xFF))"
| "max_tree BoolType = Leaf BoolType (le_int 1 1)"
| "max_tree ObjectType = min_tree ArrayType"
| "max_tree ArrayType = min_tree BinData"
| "max_tree BinData = min_tree jstOID"
| "max_tree RegEx = min_tree DBRef"
| "max_tree DBRef = min_tree Code"
| "max_tree Code = min_tree CodeWScope"
| "max_tree CodeWScope = min_tree MaxKey"
| "max_tree t = Leaf t []"

lemma writes_pieces: "ap = put_all (map appendBuf ws) \<Longrightarrow> concat ws = raw_bytes r \<Longrightarrow> writes ap (raw_bytes r)"
  using writes_put_all[of ws] by simp

lemma with_no_fields: "with_object no_fields ap = ap no_fields"
proof -
  have "objsize no_fields = Inr 5" using objsize_obj_bytes[of "[]"] by (simp add: no_fields_def obj_ok_def)
  moreover have "read_at (no_fields, 0) 5 = Inr no_fields" by (simp add: read_at_def no_fields_def Let_def)
  ultimately show ?thesis by (intro ext) (simp add: with_object_def)
qed

lemma no_fields_bytes: "doc_bytes [] = no_fields" "length no_fields = 5"
  by (simp_all add: doc_bytes_def no_fields_def)

lemma no_fields_literal: "no_fields = [CHR 0x05, NUL, NUL, NUL, NUL]"
  by code_simp

lemmas bound_defs = append_double_def append_cstr_def append_string_def append_bool_def appendTimestamp_def appendUndefined_def
  appendMinKey_def appendMaxKey_def append_OID_def appendNull_def append_object_def appendArray_def appendBinData_def
  appendRegex_def appendDBRef_def appendCode_def appendCodeWScope_def appendDate_def

definition field_pieces :: "BSONType \<Rightarrow> string \<Rightarrow> string list \<Rightarrow> string list" where
  "field_pieces t f ws = le_int 1 (bson_type_value t) # (f @ [NUL]) # ws"

lemma field_pieces_writes:
  "ap = put_all (map appendBuf (field_pieces t f ws)) \<Longrightarrow> concat ws = v \<Longrightarrow> writes ap (raw_bytes (t, f, v))"
  by (rule writes_pieces[where ws = "field_pieces t f ws"]) (simp_all add: field_pieces_def raw_bytes_def)

lemma append_min_writes:
  assumes "\<forall>n. t \<noteq> BadType n" "t \<noteq> EOO"
  shows "writes (append_min f t) (raw_bytes (raw_field (f, min_tree t)))"
proof -
  have c: "c_str [] = []" by (simp add: c_str_def)
  let ?ws = "case t of StringType \<Rightarrow> [le_int 4 1, [NUL]] | Symbol \<Rightarrow> [le_int 4 1, [NUL]] | Code \<Rightarrow> [le_int 4 1, [NUL]]
    | BinData \<Rightarrow> [le_int 4 0, le_int 1 0, []] | RegEx \<Rightarrow> [[NUL], [NUL]] | DBRef \<Rightarrow> [le_int 4 1, [NUL], oid_of NUL]
    | CodeWScope \<Rightarrow> [le_int 4 14, le_int 4 1, [NUL], no_fields]
    | UndefinedType \<Rightarrow> [] | MinKey \<Rightarrow> [] | MaxKey \<Rightarrow> [] | jstNULL \<Rightarrow> [] | _ \<Rightarrow> [tree_value (min_tree t)]"
  have "append_min f t b = put_all (map appendBuf (field_pieces (tree_type (min_tree t)) f ?ws)) b" for b
    using assms by (cases t) (simp_all add: append_min_def bound_defs[abs_def] append_defs[abs_def] field_pieces_def c
      with_no_fields no_fields_bytes oid_of_def)
  moreover have "concat ?ws = tree_value (min_tree t)"
    using assms by (cases t) simp_all
  ultimately show ?thesis using field_pieces_writes[OF ext] by (simp add: raw_field_def)
qed

lemma append_max_writes:
  assumes "\<forall>n. t \<noteq> BadType n" "t \<noteq> EOO"
  shows "writes (append_max f t) (raw_bytes (raw_field (f, max_tree t)))"
proof -
  note m = append_min_writes[of _ f]
  show ?thesis
  proof (cases "t \<in> {NumberInt, NumberDouble, NumberLong, DateType, Timestamp, UndefinedType, MinKey, MaxKey, jstOID, BoolType, jstNULL}")
    case True
    let ?ws = "if t \<in> {UndefinedType, MinKey, MaxKey, jstNULL} then [] else [tree_value (max_tree t)]"
    have "append_max f t b = put_all (map appendBuf (field_pieces (tree_type (max_tree t)) f ?ws)) b" for b
      using True by (elim insertE) (simp_all add: append_max_def bound_defs[abs_def] append_defs[abs_def] field_pieces_def oid_of_def)
    moreover have "concat ?ws = tree_value (max_tree t)" using True by auto
    ultimately show ?thesis using field_pieces_writes[OF ext] by (simp add: raw_field_def)
  next
    case False
    then show ?thesis
      using assms m[of ObjectType] m[of ArrayType] m[of BinData] m[of jstOID] m[of DBRef] m[of Code] m[of CodeWScope] m[of MaxKey]
      by (cases t) (simp_all add: append_max_def)
  qed
qed

section \<open>Which values lie between\<close>

text \<open>
  Not NaN and not infinite; a boolean that is 0 or 1; binary data of no negative size; for code with a scope, a code that is not empty or a scope whose
  size does not start with a byte below five.
\<close>

definition finite_double :: "float64 \<Rightarrow> bool" where
  "finite_double d \<longleftrightarrow> \<not> d_isnan d \<and> \<bar>d_place d\<bar> \<le> d_place max_double"

definition within :: "BSONType \<Rightarrow> string \<Rightarrow> bool" where
  "within t v \<longleftrightarrow>
     (t = NumberDouble \<longrightarrow> finite_double (word_of_nat (le_nat v))) \<and>
     (t = BoolType \<longrightarrow> int_le v \<in> {0, 1}) \<and>
     (t = BinData \<longrightarrow> 5 \<le> length v) \<and>
     (t = CodeWScope \<longrightarrow> c_str (drop 8 v) \<noteq> [] \<or> 5 \<le> (of_char (v ! 9) :: nat))"

lemma d_place_bounds_max: "d_place max_double = 0x7FEFFFFFFFFFFFFF" "d_place lowest_double = - 0x7FEFFFFFFFFFFFFF"
  "\<not> d_isnan max_double" "\<not> d_isnan lowest_double"
  by (simp_all add: d_place_def d_isnan_def max_double_def lowest_double_def)

lemma double_bounds:
  assumes "finite_double d"
  shows "double_cmp lowest_double d \<le> 0" "double_cmp d max_double \<le> 0"
  using assms d_place_bounds_max by (auto simp: finite_double_def double_cmp_def double_less_def double_eq_def)

lemma int_to_double_finite:
  assumes "\<bar>n\<bar> \<le> 2 ^ 63"
  shows "finite_double (int_to_double n)"
proof -
  let ?s = "if n < 0 then 1 else 0 :: nat" and ?a = "nat \<bar>n\<bar>"
  let ?k = "top_bit ?a"
  have fin: "finite_double (word_of_nat (?s * 2 ^ 63 + y))" if y: "y \<le> 1087 * 2 ^ 52" for y
  proof -
    let ?w = "word_of_nat (?s * 2 ^ 63 + y) :: float64"
    have "?s * 2 ^ 63 + y < 2 ^ 64" using y by simp
    then have u: "unat ?w = ?s * 2 ^ 63 + y" by (subst unat_of_nat) (simp del: of_nat_add of_nat_mult)
    have m: "unat ?w mod 2 ^ 63 = y" unfolding u using y by simp
    have "unat ?w div 2 ^ 52 = ?s * 2 ^ 11 + y div 2 ^ 52"
      unfolding u by simp
    moreover have "y div 2 ^ 52 \<le> 1087" using div_le_mono[OF y, of "2 ^ 52"] by simp
    ultimately have "unat ?w div 2 ^ 52 mod 2 ^ 11 \<noteq> 2047" by simp
    then have "\<not> d_isnan ?w" by (simp add: d_isnan_def)
    moreover have "\<bar>d_place ?w\<bar> = int y" unfolding d_place_def Let_def m by (split if_split) simp
    ultimately show ?thesis using y unfolding finite_double_def d_place_bounds_max(1) by simp
  qed
  show ?thesis
  proof (cases "?a = 0")
    case True
    then show ?thesis using fin[of 0] by (simp add: int_to_double_def pack64_def)
  next
    case False
    note b = top_bit_bounds[of ?a]
    have a: "?a \<le> 2 ^ 63" using assms by (simp add: nat_le_iff)
    then have "(2 :: nat) ^ ?k \<le> 2 ^ 63" using b False by linarith
    then have k: "?k \<le> 63" by (rule power_le_imp_le_exp[rotated]) simp
    then have e: "(1023 + ?k) * 2 ^ 52 \<le> (1086 * 2 ^ 52 :: nat)" by (intro mult_right_mono) simp_all
    show ?thesis
    proof (cases "?k \<le> 52")
      case True
      have "?a < 2 * 2 ^ ?k" using b False by simp
      then have "?a - 2 ^ ?k \<le> 2 ^ ?k" by linarith
      then have "(?a - 2 ^ ?k) * 2 ^ (52 - ?k) \<le> 2 ^ ?k * 2 ^ (52 - ?k)" by (rule mult_right_mono) simp
      also have "\<dots> = 2 ^ 52" using True by (simp add: power_add[symmetric])
      finally have "(1023 + ?k) * 2 ^ 52 + (?a - 2 ^ ?k) * 2 ^ (52 - ?k) \<le> 1087 * 2 ^ 52" using e by simp
      from fin[OF this] show ?thesis using False True by (simp add: int_to_double_def Let_def pack64_def add.assoc)
    next
      case big: False
      have "?a < 2 ^ Suc ?k" using b False by simp
      also have "Suc ?k = 53 + (?k - 52)" using big by simp
      also have "(2 :: nat) ^ (53 + (?k - 52)) = 2 ^ 53 * 2 ^ (?k - 52)" by (rule power_add)
      finally have "?a div 2 ^ (?k - 52) < 2 ^ 53" by (simp add: less_mult_imp_div_less)
      then have "round_even ?a (?k - 52) - 2 ^ 52 \<le> 2 ^ 52" using round_even_near(2)[of ?a "?k - 52"] by simp linarith
      then have "(1023 + ?k) * 2 ^ 52 + (round_even ?a (?k - 52) - 2 ^ 52) \<le> 1087 * 2 ^ 52" using e by linarith
      from fin[OF this] show ?thesis using False big by (simp add: int_to_double_def Let_def add.assoc)
    qed
  qed
qed

text \<open>The smallest strings.\<close>

lemma NUL_least: "NUL \<le> c"
  by (simp add: NUL_def less_eq_char_def)

lemma bytes_cmp_NULs: "bytes_cmp (replicate (length w) NUL) w \<le> 0"
proof (induction w)
  case (Cons c w)
  then show ?case using NUL_least[of c] by (auto simp: order_le_less)
qed simp

lemma bytes_cmp_NUL: "w \<noteq> [] \<Longrightarrow> bytes_cmp [NUL] w \<le> 0"
  using NUL_least[of "hd w"] by (cases w; cases "tl w") (auto simp: order_le_less)

lemma bytes_cmp_Nil: "bytes_cmp [] w \<le> 0"
  by (cases w) simp_all

lemma bytes_cmp_prefix [simp]: "bytes_cmp (p @ s) (p @ u) = bytes_cmp s u"
  by (induction p) simp_all

lemma bytes_cmp_top: "bytes_cmp w (replicate (length w) (CHR 0xFF)) \<le> 0"
proof (induction w)
  case (Cons c w)
  have "(of_char c :: nat) \<le> 255" using nat_of_char_less_256[of c] by linarith
  then have "c \<le> CHR 0xFF" by (simp add: less_eq_char_def)
  then show ?case using Cons by (auto simp: order_le_less)
qed simp

lemma typed_string_le:
  assumes "typed_value t v" "t \<in> {StringType, Code, Symbol}"
  shows "bytes_cmp [NUL] (drop 4 v) \<le> 0"
  using assms by (cases rule: typed_value.cases) (auto intro!: bytes_cmp_NUL)

lemma number_finite:
  assumes "typed_value t v" "isNumber t" "within t v"
  shows "finite_double (as_double t v)"
proof (cases "t = NumberDouble")
  case True
  then show ?thesis using assms by (simp add: within_def as_double_def)
next
  case False
  then have "length v = 4 \<or> length v = 8" using typed_well_sized[OF assms(1)] assms(2) by (auto simp: isNumber_def well_sized_def)
  then have "\<bar>int_le v\<bar> \<le> 2 ^ 63" using le_nat_bound[of v] by (auto simp: int_le_def Let_def)
  then show ?thesis using False by (simp add: as_double_def int_to_double_finite)
qed

lemma min_number: "word_of_nat (le_nat (le 8 (unat (d :: float64)))) = d"
  by simp

lemma min_below_leaf:
  assumes "typed_value t v" "within t v" "\<not> isABSONObj t"
  shows "val_cmp (min_tree t) (Leaf t v) \<le> 0"
proof -
  have w: "well_sized t v" by (rule typed_well_sized[OF assms(1)])
  consider "isNumber t" | "t \<in> {StringType, Code, Symbol}" | "t = DateType" | "t \<in> {UndefinedType, MinKey, MaxKey, jstNULL}"
    | "t = Timestamp" | "t = BoolType" | "t = jstOID" | "t = BinData" | "t = RegEx" | "t = DBRef" | "t = CodeWScope"
    using w assms(3) by (cases t) (simp_all add: isNumber_def isABSONObj_def well_sized_def)
  then show ?thesis
  proof cases
    case 1
    have "double_cmp lowest_double (as_double t v) \<le> 0" using double_bounds(1)[OF number_finite[OF assms(1) 1 assms(2)]] .
    then show ?thesis using 1
      by (auto simp: isNumber_def val_cmp_def then_by_def rank_def canonicalType_def leaf_cmp_def as_double_def)
  next
    case 2
    then show ?thesis using typed_string_le[OF assms(1) 2]
      by (auto simp: val_cmp_def then_by_def rank_def canonicalType_def leaf_cmp_def isNumber_def)
  next
    case 3
    then show ?thesis by (simp add: val_cmp_def then_by_def rank_def canonicalType_def)
  next
    case 4
    then show ?thesis by (auto simp: val_cmp_def then_by_def leaf_cmp_def isNumber_def)
  next
    case 5
    have "le_nat (le_int 8 0) = 0" by (simp add: le_int_def le_nat_le)
    then show ?thesis using 5 by (simp add: val_cmp_def then_by_def leaf_cmp_def sign_of_def)
  next
    case 6
    have "int_le (le_int 1 0) = 0" by (rule int_le_le_int) simp_all
    then show ?thesis using 6 assms(2) by (auto simp: val_cmp_def then_by_def leaf_cmp_def within_def)
  next
    case 7
    then have "length v = 12" using w by (simp add: well_sized_def)
    then show ?thesis using 7 bytes_cmp_NULs[of v] by (simp add: val_cmp_def then_by_def leaf_cmp_def isNumber_def oid_of_def)
  next
    case 8
    then have "5 \<le> length v" using assms(2) by (simp add: within_def)
    moreover have "le_int 1 0 = [NUL]" by (simp add: le_int_def NUL_def char_of_def)
    ultimately show ?thesis using 8 bytes_cmp_NUL[of "drop 4 v"]
      by (auto simp: val_cmp_def then_by_def leaf_cmp_def isNumber_def)
  next
    case 9
    have "list_cmp bytes_cmp (c_pair [NUL, NUL]) (c_pair v) \<le> 0"
      by (cases "c_str v"; cases "c_str (drop (Suc 0) v)") (simp_all add: c_pair_def c_str_def)
    then show ?thesis using 9 by (simp add: val_cmp_def then_by_def leaf_cmp_def isNumber_def)
  next
    case 10
    from assms(1)[unfolded 10] obtain s oid where v: "v = le_int 4 (int (length s) + 1) @ s @ [NUL] @ oid" "length oid = 12"
      by (cases rule: typed_value.cases) auto
    have "bytes_cmp (le_int 4 1 @ [NUL] @ oid_of NUL) v \<le> 0" if "s = []"
      using bytes_cmp_NULs[of oid] v that by (simp add: oid_of_def)
    then show ?thesis using v 10 by (auto simp: val_cmp_def then_by_def leaf_cmp_def isNumber_def oid_of_def)
  next
    case 11
    from assms(1)[unfolded 11] obtain n m s rs where v: "v = le_int 4 n @ le_int 4 m @ s @ [NUL] @ obj_bytes rs" "NUL \<notin> set s"
      by (cases rule: typed_value.cases) auto
    obtain c r where r: "obj_bytes rs = c # r" by (cases "obj_bytes rs") (simp_all add: obj_bytes_def Let_def le_int_def)
    have d: "drop 8 v = s @ NUL # obj_bytes rs" by (simp add: v)
    have m: "c_pair (drop 8 (le_int 4 14 @ le_int 4 1 @ [NUL] @ no_fields)) = [[], [CHR 0x05]]"
      by (simp add: c_pair_def c_str_def no_fields_literal) (simp add: NUL_def)
    have "5 \<le> (of_char c :: nat)" if "s = []"
      using assms(2) that by (simp add: within_def 11 v(1) r nth_append c_str_def)
    then have "c \<noteq> NUL \<and> CHR 0x05 \<le> c" if "s = []" using that by (auto simp: NUL_def less_eq_char_def)
    then have "list_cmp bytes_cmp [[], [CHR 0x05]] (c_pair (drop 8 v)) \<le> 0"
      unfolding d c_pair_def using v(2) bytes_cmp_Nil[of "takeWhile (\<lambda>c. c \<noteq> NUL) r"]
      by (cases s) (auto simp: r c_str_def order_le_less)
    then show ?thesis using 11 m by (simp add: val_cmp_def then_by_def leaf_cmp_def isNumber_def)
  qed
qed

lemma below_max_leaf:
  assumes "typed_value t v" "within t v" "\<not> isABSONObj t"
  shows "val_cmp (Leaf t v) (max_tree t) \<le> 0"
proof -
  have w: "well_sized t v" by (rule typed_well_sized[OF assms(1)])
  consider "isNumber t" | "t = DateType" | "t \<in> {UndefinedType, MinKey, MaxKey, jstNULL}" | "t = Timestamp" | "t = BoolType"
    | "t = jstOID" | "t \<in> {StringType, Code, Symbol, BinData, RegEx, DBRef, CodeWScope}"
    using w assms(3) by (cases t) (simp_all add: isNumber_def isABSONObj_def well_sized_def)
  then show ?thesis
  proof cases
    case 1
    have "double_cmp (as_double t v) max_double \<le> 0" using double_bounds(2)[OF number_finite[OF assms(1) 1 assms(2)]] .
    then show ?thesis using 1
      by (auto simp: isNumber_def val_cmp_def then_by_def rank_def canonicalType_def leaf_cmp_def as_double_def)
  next
    case 2
    then have "length v = 8" using w by (simp add: well_sized_def)
    then have "int_le v \<le> 2 ^ 63 - 1" using le_nat_bound[of v] by (simp add: int_le_def Let_def)
    moreover have "int_le (le_int 8 (2 ^ 63 - 1)) = 2 ^ 63 - 1" by (rule int_le_le_int) simp_all
    ultimately show ?thesis using 2 by (simp add: val_cmp_def then_by_def leaf_cmp_def sign_of_def)
  next
    case 3
    then show ?thesis by (auto simp: val_cmp_def then_by_def leaf_cmp_def isNumber_def)
  next
    case 4
    then have "length v = 8" using w by (simp add: well_sized_def)
    then have "le_nat v \<le> 2 ^ 64 - 1" using le_nat_bound[of v] by simp
    moreover have "le_nat (le_int 8 (2 ^ 64 - 1)) = 2 ^ 64 - 1" by (simp add: le_int_def le_nat_le)
    ultimately show ?thesis using 4 by (simp add: val_cmp_def then_by_def leaf_cmp_def sign_of_def)
  next
    case 5
    have "int_le (le_int 1 1) = 1" by (rule int_le_le_int) simp_all
    then show ?thesis using 5 assms(2) by (auto simp: val_cmp_def then_by_def leaf_cmp_def within_def)
  next
    case 6
    then have "length v = 12" using w by (simp add: well_sized_def)
    then show ?thesis using 6 bytes_cmp_top[of v] by (simp add: val_cmp_def then_by_def leaf_cmp_def isNumber_def oid_of_def)
  next
    case 7
    then show ?thesis by (auto simp: val_cmp_def then_by_def rank_def canonicalType_def)
  qed
qed

text \<open>An object or an array is within the bounds whatever is inside it.\<close>

fun tree_within :: "tree \<Rightarrow> bool" where
  "tree_within (Leaf t v) \<longleftrightarrow> within t v"
| "tree_within (Node t fs) \<longleftrightarrow> True"

lemma bounds_tree:
  assumes "tree_ok (\<lambda>_ _. True) a" "tree_within a"
  shows "val_cmp (min_tree (tree_type a)) a \<le> 0" "val_cmp a (max_tree (tree_type a)) \<le> 0"
proof -
  have n: "doc_cmp [] fs \<le> 0" for fs by (cases fs) (simp_all add: doc_cmp_def)
  show "val_cmp (min_tree (tree_type a)) a \<le> 0"
  proof (cases a)
    case (Leaf t v)
    then show ?thesis using min_below_leaf assms by simp
  next
    case (Node t fs)
    then show ?thesis using assms n[of fs]
      by (auto simp: val_cmp_def then_by_def isABSONObj_def tree_cmp_Node simp del: tree_cmp.simps)
  qed
  show "val_cmp a (max_tree (tree_type a)) \<le> 0"
  proof (cases a)
    case (Leaf t v)
    then show ?thesis using below_max_leaf assms by simp
  next
    case (Node t fs)
    then show ?thesis using assms by (auto simp: val_cmp_def then_by_def isABSONObj_def rank_def canonicalType_def)
  qed
qed

text \<open>The bounds are typed, and short.\<close>

lemma min_tree_ok:
  assumes "well_sized t v \<or> isABSONObj t"
  shows "tree_ok (\<lambda>u w. u = tree_type (min_tree t)) (min_tree t)" "length (tree_value (min_tree t)) \<le> 24"
proof -
  have s: "int (length ([] :: string)) + 1 < BSONObjMaxInternalSize" by (simp add: BSONObjMaxInternalSize_def)
  have z: "int_le (le_int 4 0) = 0" by (rule int_le_le_int) simp_all
  have str: "typed_value u (le_int 4 1 @ [NUL])" if "u \<in> {StringType, Code, Symbol}" for u
    using typed_string[OF that s] by simp
  have ref: "typed_value DBRef (le_int 4 1 @ [NUL] @ oid_of NUL)"
    using typed_DBRef[OF s, of "oid_of NUL"] by (simp add: oid_of_def)
  have scope: "typed_value CodeWScope (le_int 4 14 @ le_int 4 1 @ [NUL] @ no_fields)"
    using typed_scope[of "[]" "[]"] by (simp add: no_fields_def BSONObjMaxInternalSize_def)
  show "tree_ok (\<lambda>u w. u = tree_type (min_tree t)) (min_tree t)"
    using assms str[of StringType] str[of Code] ref scope z
    by (cases t) (auto simp: isABSONObj_def well_sized_def counted_def oid_of_def no_fields_bytes BSONObjMaxInternalSize_def
      intro!: typed_plain exI[of _ "[]"])
  show "length (tree_value (min_tree t)) \<le> 24"
    using assms by (cases t) (simp_all add: oid_of_def no_fields_bytes well_sized_def isABSONObj_def)
qed

lemma max_tree_ok:
  assumes "well_sized t v \<or> isABSONObj t"
  shows "tree_ok (\<lambda>u w. u = tree_type (max_tree t)) (max_tree t)" "length (tree_value (max_tree t)) \<le> 24"
proof -
  have sized: "well_sized MaxKey []" "well_sized jstOID (oid_of NUL)" "well_sized BinData (le_int 4 0 @ le_int 1 0)"
    "well_sized DBRef (le_int 4 1 @ [NUL] @ oid_of NUL)" "well_sized Code (le_int 4 1 @ [NUL])"
    "well_sized CodeWScope (le_int 4 14 @ le_int 4 1 @ [NUL] @ no_fields)"
    by (simp_all add: well_sized_def counted_def oid_of_def int_le_le_int no_fields_bytes)
  note m = min_tree_ok(1)[OF disjI1[OF sized(1)]] min_tree_ok(1)[OF disjI1[OF sized(2)]] min_tree_ok(1)[OF disjI1[OF sized(3)]]
    min_tree_ok(1)[OF disjI1[OF sized(4)]] min_tree_ok(1)[OF disjI1[OF sized(5)]] min_tree_ok(1)[OF disjI1[OF sized(6)]]
  show "tree_ok (\<lambda>u w. u = tree_type (max_tree t)) (max_tree t)"
    using assms m
    by (cases t) (auto simp: isABSONObj_def well_sized_def oid_of_def no_fields_bytes BSONObjMaxInternalSize_def intro!: typed_plain)
  show "length (tree_value (max_tree t)) \<le> 24"
    using assms by (cases t) (simp_all add: oid_of_def no_fields_bytes well_sized_def isABSONObj_def)
qed

section \<open>The bounds in memory\<close>

lemma tree_ok_mono: "tree_ok P a \<Longrightarrow> (\<And>t v. P t v \<Longrightarrow> Q t v) \<Longrightarrow> tree_ok Q a"
  by (induction P a rule: tree_ok.induct) (auto simp: case_prod_beta)

lemma doc_cmp_single: "doc_cmp [(f, a)] [(f, b)] = val_cmp a b"
  by (simp add: doc_cmp_def field_cmp_def val_cmp_def then_by_def)

lemma built_single:
  assumes "writes ap (raw_bytes (raw_field (f, a)))" "length (tree_value a) \<le> 24" "int (length f) + 64 \<le> BSONObjMaxInternalSize"
    and "4 \<le> initsize"
  shows "built memory initsize [ap] = Inr (doc_bytes [(f, a)])"
proof -
  have "length (obj_bytes [raw_field (f, a)]) + 4 \<le> BufferMaxSize"
    using assms(2,3) by (simp add: raw_field_def raw_bytes_def BSONObjMaxInternalSize_def BufferMaxSize_def)
  then show ?thesis using built_bytes[of "[ap]" "[raw_field (f, a)]"] assms(1,4) by (simp add: doc_bytes_def)
qed

lemma doc_ok_single:
  "tree_ok P a \<Longrightarrow> NUL \<notin> set f \<Longrightarrow> int (length f) + 64 \<le> BSONObjMaxInternalSize \<Longrightarrow> length (tree_value a) \<le> 24 \<Longrightarrow>
    doc_ok P [(f, a)]"
  by (simp add: doc_ok_def isABSONObj_def length_doc_bytes length_body_Cons body_Nil)

text \<open>C30. The bounds that \<open>appendMinForType\<close> and \<open>appendMaxForType\<close> write for the type of a value lie around the value: the object with
  the smallest one under some name compares less than or equal to the object with the value under that name, and that
  one to the object with the greatest one. This is for every typed object and array, whatever typed values are inside, and
  for every other typed value but: infinities and NaN, booleans other than 0 and 1, binary data of negative size, and code
  with a scope whose code is empty and whose scope has a size with a low byte below five.
\<close>

theorem bounds_of_type:
  assumes "tree_ok (\<lambda>_ _. True) a" "tree_within a" "NUL \<notin> set f" "int (length f) + 64 \<le> BSONObjMaxInternalSize"
    and "int (length (doc_bytes [(f, a)])) \<le> BSONObjMaxInternalSize" "holds p (doc_bytes [(f, a)])" "4 \<le> initsize"
  shows "\<exists>lo hi x y.
    built memory initsize [appendMinForType f (bson_type_value (tree_type a))] = Inr lo \<and>
    built memory initsize [appendMaxForType f (bson_type_value (tree_type a))] = Inr hi \<and>
    woCompare (lo, 0) p = Some (Inr x) \<and> x \<le> 0 \<and> woCompare p (hi, 0) = Some (Inr y) \<and> y \<le> 0"
proof -
  let ?t = "tree_type a" and ?lo = "min_tree (tree_type a)" and ?hi = "max_tree (tree_type a)"
  let ?L = "\<lambda>u w :: string. u = tree_type ?lo" and ?H = "\<lambda>u w :: string. u = tree_type ?hi"
  let ?P = "\<lambda>u w :: string. ?t = Timestamp \<longrightarrow> u = Timestamp"
  have sized: "well_sized ?t (tree_value a) \<or> isABSONObj ?t"
    using assms(1) typed_well_sized by (cases a) auto
  have t: "\<forall>n. ?t \<noteq> BadType n" "?t \<noteq> EOO" using sized by (auto simp: well_sized_def isABSONObj_def)
  note lo = min_tree_ok[OF sized] and hi = max_tree_ok[OF sized]
  have b: "built memory initsize [append_min f ?t] = Inr (doc_bytes [(f, ?lo)])"
    "built memory initsize [append_max f ?t] = Inr (doc_bytes [(f, ?hi)])"
    using built_single[OF append_min_writes[OF t] lo(2) assms(4,7)] built_single[OF append_max_writes[OF t] hi(2) assms(4,7)]
    by blast+
  have ok: "doc_ok ?L [(f, ?lo)]" "doc_ok ?H [(f, ?hi)]"
    using doc_ok_single[OF lo(1) assms(3,4) lo(2)] doc_ok_single[OF hi(1) assms(3,4) hi(2)] by blast+
  have "tree_ok ?P a"
  proof (cases "?t = Timestamp")
    case True
    then show ?thesis using assms(1) by (cases a) (auto simp: isABSONObj_def)
  next
    case False
    then show ?thesis by (auto intro: tree_ok_mono[OF assms(1)])
  qed
  then have doc: "doc_ok ?P [(f, a)]" using assms(3,5) by (simp add: doc_ok_def isABSONObj_def)
  have "tree_type ?lo \<noteq> DateType" "tree_type ?hi = Timestamp \<Longrightarrow> ?t = Timestamp" by (cases ?t; simp)+
  then have c: "compatible ?L ?P" "compatible ?P ?H" by (auto simp: compatible_def comparable_def)
  obtain x where x: "woCompare (doc_bytes [(f, ?lo)], 0) p = Some (Inr x)" "same_sign x (val_cmp ?lo a)"
    using comparesD[OF docs_compare[OF c(1) ok(1) doc] holds_start assms(6)] unfolding doc_cmp_single by blast
  obtain y where y: "woCompare p (doc_bytes [(f, ?hi)], 0) = Some (Inr y)" "same_sign y (val_cmp a ?hi)"
    using comparesD[OF docs_compare[OF c(2) doc ok(2)] assms(6) holds_start] unfolding doc_cmp_single by blast
  have "x \<le> 0" "y \<le> 0"
    using x(2) y(2) bounds_tree[OF assms(1,2)] by (auto simp: same_sign_def sgn_if split: if_splits)
  then show ?thesis
    using b x(1) y(1) by (simp add: appendMinForType_def appendMaxForType_def bson_type_of_value[OF t(1)])
qed

lemma bounds_of_type_witness:
  "\<exists>lo hi x y. built (\<lambda>_. NUL) 64 [appendMinForType ''a'' 2] = Inr lo \<and> built (\<lambda>_. NUL) 64 [appendMaxForType ''a'' 2] = Inr hi \<and>
    woCompare (lo, 0) (doc_bytes [(''a'', Leaf StringType (le_int 4 3 @ ''hi'' @ [NUL]))], 0) = Some (Inr x) \<and> x \<le> 0 \<and>
    woCompare (doc_bytes [(''a'', Leaf StringType (le_int 4 3 @ ''hi'' @ [NUL]))], 0) (hi, 0) = Some (Inr y) \<and> y \<le> 0"
proof -
  let ?a = "Leaf StringType (le_int 4 3 @ ''hi'' @ [NUL])"
  have "tree_within ?a" by (simp add: within_def)
  moreover have "tree_ok (\<lambda>_ _. True) ?a"
    using typed_string[of StringType "''hi''"] by (simp add: isABSONObj_def within_def BSONObjMaxInternalSize_def)
  ultimately show ?thesis
    using bounds_of_type[of ?a "''a''" "(doc_bytes [(''a'', ?a)], 0)" 64 "\<lambda>_. NUL"]
    by (simp add: holds_start doc_sizes NUL_def)
qed

section \<open>Values outside\<close>

text \<open>An infinity, and code without text whose scope has 256 bytes.\<close>

definition infinity :: "bool \<Rightarrow> tree" where
  "infinity negative = Leaf NumberDouble (le 8 (unat (if negative then 0xFFF0000000000000 else 0x7FF0000000000000 :: float64)))"

definition wide_scope :: "raw list" where
  "wide_scope = [(StringType, ''s'', le_int 4 (int (length (replicate 243 (CHR ''a''))) + 1) @ replicate 243 (CHR ''a'') @ [NUL])]"

definition scoped_code :: tree where
  "scoped_code = Leaf CodeWScope (le_int 4 (int (length ([] :: string)) + int (length (obj_bytes wide_scope)) + 9) @
     le_int 4 (int (length ([] :: string)) + 1) @ [] @ [NUL] @ obj_bytes wide_scope)"

lemma wide_scope_length: "length (obj_bytes wide_scope) = 256" "length (concat (map raw_bytes wide_scope)) = 251"
  by (simp_all add: wide_scope_def raw_bytes_def)

lemma outside_ok:
  "tree_ok (\<lambda>u w. u = NumberDouble) (infinity negative)" "tree_ok (\<lambda>u w. u = CodeWScope) scoped_code"
proof -
  show "tree_ok (\<lambda>u w. u = NumberDouble) (infinity negative)"
    by (simp add: infinity_def isABSONObj_def typed_plain well_sized_def)
  have "typed_value StringType (le_int 4 (int (length (replicate 243 (CHR ''a''))) + 1) @ replicate 243 (CHR ''a'') @ [NUL])"
    by (rule typed_string) (simp_all add: BSONObjMaxInternalSize_def)
  then have "\<forall>(u, f, v) \<in> set wide_scope. NUL \<notin> set f \<and> typed_value u v" by (simp add: wide_scope_def NUL_def)
  then have "typed_value CodeWScope (le_int 4 (int (length ([] :: string)) + int (length (obj_bytes wide_scope)) + 9) @
     le_int 4 (int (length ([] :: string)) + 1) @ [] @ [NUL] @ obj_bytes wide_scope)"
    by (intro typed_scope) (simp_all add: wide_scope_length BSONObjMaxInternalSize_def)
  then show "tree_ok (\<lambda>u w. u = CodeWScope) scoped_code" by (simp add: scoped_code_def isABSONObj_def)
qed

lemma outside_cmp:
  "val_cmp (min_tree NumberDouble) (infinity True) > 0" "val_cmp (infinity False) (max_tree NumberDouble) > 0"
  "val_cmp (min_tree CodeWScope) scoped_code > 0"
proof -
  have d: "as_double NumberDouble (le 8 (unat d)) = d" for d by (simp add: as_double_def)
  have c: "val_cmp (Leaf NumberDouble (le 8 (unat d))) (Leaf NumberDouble (le 8 (unat e))) = double_cmp d e" for d e
    by (simp add: val_cmp_def then_by_def leaf_cmp_def isNumber_def d)
  have i: "\<not> d_isnan 0xFFF0000000000000" "\<not> d_isnan 0x7FF0000000000000"
    "d_place 0xFFF0000000000000 = - 0x7FF0000000000000" "d_place 0x7FF0000000000000 = 0x7FF0000000000000"
    by (simp_all add: d_isnan_def d_place_def)
  show "val_cmp (min_tree NumberDouble) (infinity True) > 0" "val_cmp (infinity False) (max_tree NumberDouble) > 0"
    unfolding infinity_def if_True if_False min_tree.simps max_tree.simps c
    by (simp_all add: double_cmp_def double_less_def double_eq_def i d_place_bounds_max)
  have "c_str (obj_bytes wide_scope) = []"
  proof -
    have "obj_bytes wide_scope = le_int 4 256 @ drop 4 (obj_bytes wide_scope)"
      using wide_scope_length(1) take_obj_bytes[of wide_scope] append_take_drop_id[of 4 "obj_bytes wide_scope"] by simp
    moreover have "le_int 4 256 = [NUL, CHR 0x01, NUL, NUL]" by code_simp
    ultimately obtain r where "obj_bytes wide_scope = NUL # r" by (metis append_Cons)
    then show ?thesis by (simp add: c_str_def)
  qed
  then show "val_cmp (min_tree CodeWScope) scoped_code > 0"
    by (simp add: scoped_code_def val_cmp_def then_by_def leaf_cmp_def isNumber_def c_pair_def c_str_def no_fields_literal NUL_def)
qed

lemma bound_compared:
  assumes "tree_ok (\<lambda>u w. u = t) a" "tree_ok (\<lambda>u w. u = t') b" "t \<noteq> DateType"
    and "length (doc_bytes [(''a'', a)]) \<le> 1024" "length (doc_bytes [(''a'', b)]) \<le> 1024"
  shows "\<exists>x. woCompare (doc_bytes [(''a'', a)], 0) (doc_bytes [(''a'', b)], 0) = Some (Inr x) \<and> sgn x = sgn (val_cmp a b)"
proof -
  have "int (length (doc_bytes [(''a'', a)])) \<le> BSONObjMaxInternalSize" "int (length (doc_bytes [(''a'', b)])) \<le> BSONObjMaxInternalSize"
    using assms(4,5) by (simp_all add: BSONObjMaxInternalSize_def)
  then have ok: "doc_ok (\<lambda>u w. u = t) [(''a'', a)]" "doc_ok (\<lambda>u w. u = t') [(''a'', b)]"
    using assms(1,2) by (simp_all add: doc_ok_def isABSONObj_def NUL_def)
  have "compatible (\<lambda>u w. u = t) (\<lambda>u w. u = t')" using assms(3) by (simp add: compatible_def comparable_def)
  from comparesD[OF docs_compare[OF this ok] holds_start holds_start] show ?thesis
    unfolding doc_cmp_single by (auto simp: same_sign_def)
qed

text \<open>Some values lie outside of the bounds of their type, so that a search between the bounds misses them: minus infinity is
  below what \<open>appendMinForType\<close> gives for a double, infinity above what \<open>appendMaxForType\<close> gives, and code without text is below the
  smallest code with a scope when its scope has 256 bytes, as scopes are compared up to the first zero.
\<close>

theorem bounds_missed:
  "\<exists>lo hi los x y z.
    built (\<lambda>_. NUL) 64 [appendMinForType ''a'' (bson_type_value NumberDouble)] = Inr lo \<and>
    built (\<lambda>_. NUL) 64 [appendMaxForType ''a'' (bson_type_value NumberDouble)] = Inr hi \<and>
    built (\<lambda>_. NUL) 64 [appendMinForType ''a'' (bson_type_value CodeWScope)] = Inr los \<and>
    woCompare (lo, 0) (doc_bytes [(''a'', infinity True)], 0) = Some (Inr x) \<and> x > 0 \<and>
    woCompare (doc_bytes [(''a'', infinity False)], 0) (hi, 0) = Some (Inr y) \<and> y > 0 \<and>
    woCompare (los, 0) (doc_bytes [(''a'', scoped_code)], 0) = Some (Inr z) \<and> z > 0"
proof -
  have sized: "well_sized NumberDouble (le 8 0)" "well_sized CodeWScope (le_int 4 14 @ le_int 4 1 @ [NUL] @ no_fields)"
    by (simp_all add: well_sized_def counted_def int_le_le_int no_fields_bytes)
  have a: "int (length ''a'') + 64 \<le> BSONObjMaxInternalSize" "4 \<le> (64 :: nat)" by (simp_all add: BSONObjMaxInternalSize_def)
  note lo = min_tree_ok[OF disjI1[OF sized(1)]] and hi = max_tree_ok[OF disjI1[OF sized(1)]]
    and los = min_tree_ok[OF disjI1[OF sized(2)]]
  have b: "built (\<lambda>_. NUL) 64 [append_min ''a'' NumberDouble] = Inr (doc_bytes [(''a'', min_tree NumberDouble)])"
    "built (\<lambda>_. NUL) 64 [append_max ''a'' NumberDouble] = Inr (doc_bytes [(''a'', max_tree NumberDouble)])"
    "built (\<lambda>_. NUL) 64 [append_min ''a'' CodeWScope] = Inr (doc_bytes [(''a'', min_tree CodeWScope)])"
    using built_single[OF append_min_writes lo(2) a] built_single[OF append_max_writes hi(2) a]
      built_single[OF append_min_writes los(2) a] by blast+
  have len: "length (doc_bytes [(''a'', c)]) \<le> 1024" if "length (tree_value c) \<le> 300" for c
    using that by (simp add: length_doc_bytes length_body_Cons body_Nil)
  have out: "length (tree_value (infinity n)) \<le> 300" "length (tree_value scoped_code) \<le> 300" for n
    by (simp_all add: infinity_def scoped_code_def wide_scope_length)
  obtain x where x: "woCompare (doc_bytes [(''a'', min_tree NumberDouble)], 0) (doc_bytes [(''a'', infinity True)], 0) = Some (Inr x)"
    "sgn x = sgn (val_cmp (min_tree NumberDouble) (infinity True))"
    using bound_compared[OF lo(1) outside_ok(1) _ len len[OF out(1)]] lo(2) by auto
  obtain y where y: "woCompare (doc_bytes [(''a'', infinity False)], 0) (doc_bytes [(''a'', max_tree NumberDouble)], 0) = Some (Inr y)"
    "sgn y = sgn (val_cmp (infinity False) (max_tree NumberDouble))"
    using bound_compared[OF outside_ok(1) hi(1) _ len[OF out(1)] len] hi(2) by auto
  obtain z where z: "woCompare (doc_bytes [(''a'', min_tree CodeWScope)], 0) (doc_bytes [(''a'', scoped_code)], 0) = Some (Inr z)"
    "sgn z = sgn (val_cmp (min_tree CodeWScope) scoped_code)"
    using bound_compared[OF los(1) outside_ok(2) _ len len[OF out(2)]] los(2) by auto
  have "x > 0" "y > 0" "z > 0" using x(2) y(2) z(2) outside_cmp by (simp_all add: sgn_if split: if_splits)
  then show ?thesis
    using b x(1) y(1) z(1) by (simp add: appendMinForType_def appendMaxForType_def bson_type_of_value del: bson_type_value.simps)
qed

end
