(* ===== verification/MongoGather.thy ===== *)
theory MongoGather
imports MongoExtract
begin

text \<open>
  All the elements a dotted name leads to (\<open>getFieldsDotted\<close> of \<open>db/jsobj.cpp\<close>), objects with objects inside made flat
  (\<open>nested2dotted\<close>), and the comparison of names of fields (\<open>fieldsMatch\<close>).
\<close>

section \<open>The loop over the elements\<close>

text \<open>\<open>while (i.more()) g(i.next())\<close>\<close>

partial_function (option) more_loop ::
  "(BSONElement \<Rightarrow> 's \<Rightarrow> 's res option) \<Rightarrow> string \<Rightarrow> BSONObjIterator \<Rightarrow> 's \<Rightarrow> 's res option"
where
  "more_loop g m i s =
     (if \<not> it_more i then Some (Inr s)
      else case it_next m i of
             Inl f \<Rightarrow> Some (Inl f)
           | Inr (e, i') \<Rightarrow> Option.bind (g e s) (\<lambda>r. case r of Inl f \<Rightarrow> Some (Inl f) | Inr s' \<Rightarrow> more_loop g m i' s'))"

definition each_element :: "(BSONElement \<Rightarrow> 's \<Rightarrow> 's res option) \<Rightarrow> pointer_in \<Rightarrow> 's \<Rightarrow> 's res option" where
  "each_element g p s = (case iterator_over p of Inl f \<Rightarrow> Some (Inl f) | Inr i \<Rightarrow> more_loop g (fst p) i s)"

lemma each_element_cong [fundef_cong]:
  "p = p' \<Longrightarrow> s = s' \<Longrightarrow> (\<And>e s. g e s = g' e s) \<Longrightarrow> each_element g p s = each_element g' p' s'"
  by (metis ext)

lemma more_loop_at:
  assumes "stands m i fs" "fields_ok P fs" "I d s" "d @ fs = all"
    and step: "\<And>f a e q d rest s. all = d @ (f, a) # rest \<Longrightarrow> placed e (tree_type a) f (tree_value a) q \<Longrightarrow> I d s \<Longrightarrow>
      \<exists>s'. g e s = Some (Inr s') \<and> I (d @ [(f, a)]) s'"
  shows "\<exists>s'. more_loop g m i s = Some (Inr s') \<and> I all s'"
  using assms(1-4)
proof (induction fs arbitrary: i d s)
  case Nil
  then have "\<not> it_more i" by (auto simp: stands_def it_more_def body_def)
  then show ?case using Nil.prems(3,4) by (subst more_loop.simps) simp
next
  case (Cons fa fs)
  obtain f a where fa: "fa = (f, a)" by (cases fa)
  obtain i' p where i: "it_next m i = Inr ((m, it_pos i), i')" "stands m i' fs"
    and p: "placed (m, it_pos i) (tree_type a) f (tree_value a) p"
    by (rule stands_Cons[OF Cons.prems(1,2)[unfolded fa]])
  obtain s' where s': "g (m, it_pos i) s = Some (Inr s')" "I (d @ [(f, a)]) s'"
    using step[OF _ p Cons.prems(3), of fs] Cons.prems(4) by (auto simp: fa)
  have more: "it_more i" using Cons.prems(1) body_empty[of "fa # fs"] by (auto simp: stands_def it_more_def)
  have ok: "fields_ok P fs" using Cons.prems(2) by (simp add: fields_ok_def)
  have "\<exists>s''. more_loop g m i' s' = Some (Inr s'') \<and> I all s''"
    by (rule Cons.IH[OF i(2) ok s'(2)]) (use Cons.prems(4) fa in simp)
  then show ?case using more i(1) s'(1) by (subst more_loop.simps) simp
qed

lemma each_element_at:
  assumes "holds p (doc_bytes fs)" "doc_ok P fs" "I [] s"
    and step: "\<And>f a e q d rest s. fs = d @ (f, a) # rest \<Longrightarrow> placed e (tree_type a) f (tree_value a) q \<Longrightarrow> I d s \<Longrightarrow>
      \<exists>s'. g e s = Some (Inr s') \<and> I (d @ [(f, a)]) s'"
  shows "\<exists>s'. each_element g p s = Some (Inr s') \<and> I fs s'"
proof -
  obtain i where i: "iterator_over p = Inr i" "stands (fst p) i fs" by (rule iterator_at_doc[OF assms(1,2)])
  have "fields_ok P fs" using assms(2) by (simp add: doc_ok_fields)
  from more_loop_at[where I = I, OF i(2) this assms(3) _ step, of fs] show ?thesis by (simp add: each_element_def i(1))
qed

section \<open>All elements of a dotted name\<close>

text \<open>A name that starts with the index of an element of an array. \<open>isdigit\<close> is asked about characters that are no digits too.\<close>

definition starts_with_index :: "string \<Rightarrow> bool" where
  "starts_with_index next \<longleftrightarrow>
     next \<noteq> [] \<and> is_digit (hd next) \<and> (let temp = dropWhile is_digit next in temp = [] \<or> hd temp = CHR ''.'')"

text \<open>
  \<open>_getFieldsDotted\<close> is a template over the collection its elements go to: here that is what \<open>insert\<close> does to it. An array
  on the way is entered by an index, or else through all its elements.
\<close>

function getFieldsDotted ::
  "(BSONElement \<Rightarrow> 's \<Rightarrow> 's res) \<Rightarrow> bool \<Rightarrow> pointer_in \<Rightarrow> string \<Rightarrow> 's \<Rightarrow> 's res option"
where
  "getFieldsDotted ins expandLastArray p name ret =
     res_bind (getField_in p name) (\<lambda>e.
     res_bind (Some (el_type e)) (\<lambda>t.
       if t = EOO then
         case split_dot name of
           None \<Rightarrow> Some (Inr ret)
         | Some (left, next) \<Rightarrow>
             res_bind (getField_in p left) (\<lambda>e.
             res_bind (Some (el_type e)) (\<lambda>t.
               if t = ObjectType then
                 res_bind (Some (embedded_at e)) (\<lambda>q. getFieldsDotted ins expandLastArray q next ret)
               else if t = ArrayType then
                 if starts_with_index next then
                   res_bind (Some (embedded_at e)) (\<lambda>q. getFieldsDotted ins expandLastArray q next ret)
                 else
                   res_bind (Some (embedded_at e)) (\<lambda>q. each_element (\<lambda>e2 ret.
                     res_bind (Some (el_type e2)) (\<lambda>u.
                       if isABSONObj u then
                         res_bind (Some (embedded_at e2)) (\<lambda>q2. getFieldsDotted ins expandLastArray q2 next ret)
                       else Some (Inr ret))) q ret)
               else Some (Inr ret)))
       else if t = ArrayType \<and> expandLastArray then
         res_bind (Some (embedded_at e)) (\<lambda>q. each_element (\<lambda>e ret. Some (ins e ret)) q ret)
       else Some (ins e ret)))"
  by pat_completeness auto
termination
  by (relation "measure (\<lambda>(ins, x, p, name, ret). length name)") (auto simp: split_dot_shorter)

declare getFieldsDotted.simps [simp del]

text \<open>The same on trees.\<close>

function tree_fields :: "bool \<Rightarrow> (string \<times> tree) list \<Rightarrow> string \<Rightarrow> tree list" where
  "tree_fields expand fs name =
     (case tree_field fs name of
        Some (Node t gs) \<Rightarrow> if t = ArrayType \<and> expand then map snd gs else [Node t gs]
      | Some (Leaf t v) \<Rightarrow> [Leaf t v]
      | None \<Rightarrow>
          (case split_dot name of
             None \<Rightarrow> []
           | Some (left, next) \<Rightarrow>
               (case tree_field fs left of
                  Some (Node t gs) \<Rightarrow>
                    if t = ObjectType \<or> starts_with_index next then tree_fields expand gs next
                    else concat (map (\<lambda>p. case snd p of Node u hs \<Rightarrow> tree_fields expand hs next | Leaf u v \<Rightarrow> []) gs)
                | _ \<Rightarrow> [])))"
  by pat_completeness auto
termination
  by (relation "measure (\<lambda>(x, fs, name). length name)") (auto simp: split_dot_shorter)

declare tree_fields.simps [simp del]

definition gathered :: "BSONElement list \<Rightarrow> tree list \<Rightarrow> bool" where
  "gathered es as \<longleftrightarrow> list_all2 (\<lambda>e a. finds e (Some a)) es as"

lemma gathered_append: "gathered es as \<Longrightarrow> gathered es' as' \<Longrightarrow> gathered (es @ es') (as @ as')"
  unfolding gathered_def by (rule list_all2_appendI)

lemma finds_placed: "placed e (tree_type a) f (tree_value a) q \<Longrightarrow> finds e (Some a)"
  unfolding finds_def option.case by blast

abbreviation snoc :: "BSONElement \<Rightarrow> BSONElement list \<Rightarrow> BSONElement list res" where
  "snoc e es \<equiv> Inr (es @ [e])"

lemma getFieldsDotted_at:
  assumes "holds p (doc_bytes fs)" "doc_ok P fs" "gathered es as"
  shows "\<exists>es'. getFieldsDotted snoc expand p name es = Some (Inr es') \<and> gathered es' (as @ tree_fields expand fs name)"
  using assms
proof (induction expand fs name arbitrary: p es as rule: tree_fields.induct)
  case (1 expand fs name)
  obtain e where e: "getField_in p name = Some (Inr e)" "finds e (tree_field fs name)"
    using getField_in_at[OF "1.prems"(1,2)] by blast
  show ?case
  proof (cases "tree_field fs name")
    case (Some a)
    then obtain f q where pl: "placed e (tree_type a) f (tree_value a) q" using e(2) by (auto simp: finds_def)
    have ok: "tree_ok P a" by (rule tree_field_ok[OF "1.prems"(2) Some])
    have one: "gathered (es @ [e]) (as @ [a])"
      using gathered_append[OF "1.prems"(3), of "[e]" "[a]"] finds_placed[OF pl] by (simp add: gathered_def)
    show ?thesis
    proof (cases "tree_type a = ArrayType \<and> expand")
      case True
      then obtain gs where a: "a = Node ArrayType gs" using ok by (cases a) (auto simp: isABSONObj_def)
      note d = embedded_doc[OF pl[unfolded a tree_type.simps tree_value_Node] ok[unfolded a]]
      have "\<exists>s'. each_element (\<lambda>e ret. Some (snoc e ret)) q es = Some (Inr s') \<and> gathered s' (as @ map snd gs)"
      proof (rule each_element_at[OF d(2) sub_doc_ok[OF ok[unfolded a]], where I = "\<lambda>d s. gathered s (as @ map snd d)"])
        show "\<exists>s'. Some (snoc e s) = Some (Inr s') \<and> gathered s' (as @ map snd (d @ [(f, b)]))"
          if "placed e (tree_type b) f (tree_value b) q" "gathered s (as @ map snd d)" for f b e q d s
          using gathered_append[OF that(2), of "[e]" "[b]"] finds_placed[OF that(1)] by (simp add: gathered_def)
      qed (use "1.prems"(3) in simp)
      then show ?thesis using e(1) placed_type[OF pl] Some True a d(1)
        by (subst getFieldsDotted.simps, subst tree_fields.simps) simp
    next
      case False
      then have "tree_fields expand fs name = [a]" using Some
        by (subst tree_fields.simps) (cases a; auto)
      then show ?thesis using e(1) placed_type[OF pl] False one by (subst getFieldsDotted.simps) auto
    qed
  next
    case None
    then have t: "el_type e = Inr EOO" using e(2) by (simp add: finds_def)
    show ?thesis
    proof (cases "split_dot name")
      case None': None
      then show ?thesis using None e(1) t "1.prems"(3)
        by (subst getFieldsDotted.simps, subst tree_fields.simps) simp
    next
      case (Some lr)
      obtain left rest where lr: "lr = (left, rest)" by (cases lr)
      obtain l where l: "getField_in p left = Some (Inr l)" "finds l (tree_field fs left)"
        using getField_in_at[OF "1.prems"(1,2)] by blast
      consider (no) "tree_field fs left = None \<or> (\<exists>t v. tree_field fs left = Some (Leaf t v))"
        | (node) t gs where "tree_field fs left = Some (Node t gs)"
        by (metis option.exhaust tree.exhaust)
      then show ?thesis
      proof cases
        case no
        then obtain u where u: "el_type l = Inr u" "\<not> isABSONObj u"
          using l(2) tree_field_ok[OF "1.prems"(2), of left] by (fastforce simp: finds_def placed_def isABSONObj_def)
        have "tree_fields expand fs name = []" using no None Some lr by (subst tree_fields.simps) auto
        then show ?thesis using u l(1) None Some lr e(1) t "1.prems"(3)
          by (subst getFieldsDotted.simps) (simp add: isABSONObj_def)
      next
        case node
        have ok: "tree_ok P (Node t gs)" by (rule tree_field_ok[OF "1.prems"(2) node])
        obtain f q where pl: "placed l t f (doc_bytes gs) q" using l(2) node by (auto simp: finds_def)
        note d = embedded_doc[OF pl ok] and gs = sub_doc_ok[OF ok]
        have ty: "el_type l = Inr t" "t = ObjectType \<or> t = ArrayType" using placed_type[OF pl] ok by (auto simp: isABSONObj_def)
        show ?thesis
        proof (cases "t = ObjectType \<or> starts_with_index rest")
          case True
          have g: "getFieldsDotted snoc expand p name es = getFieldsDotted snoc expand q rest es"
            using True None Some lr e(1) t l(1) ty d(1) by (subst getFieldsDotted.simps) auto
          have "tree_fields expand fs name = tree_fields expand gs rest"
            using True None Some lr node by (subst tree_fields.simps) simp
          then show ?thesis unfolding g
            using "1.IH"(1)[OF None Some lr[symmetric] node refl True d(2) gs "1.prems"(3)] by simp
        next
          case False
          let ?g = "\<lambda>e2 ret. res_bind (Some (el_type e2)) (\<lambda>u. if isABSONObj u then
              res_bind (Some (embedded_at e2)) (\<lambda>q2. getFieldsDotted snoc expand q2 rest ret) else Some (Inr ret))"
          let ?S = "\<lambda>p. case snd p of Node u hs \<Rightarrow> tree_fields expand hs rest | Leaf u v \<Rightarrow> []"
          have g: "getFieldsDotted snoc expand p name es = each_element ?g q es"
            using False None Some lr e(1) t l(1) ty d(1) by (subst getFieldsDotted.simps) auto
          have "tree_fields expand fs name = concat (map ?S gs)"
            using False None Some lr node by (subst tree_fields.simps) simp
          moreover have "\<exists>es'. each_element ?g q es = Some (Inr es') \<and> gathered es' (as @ concat (map ?S gs))"
          proof (rule each_element_at[OF d(2) gs, where I = "\<lambda>d s. gathered s (as @ concat (map ?S d))"])
            fix h b e2 v d' rest' s
            assume all: "gs = d' @ (h, b) # rest'" and pb: "placed e2 (tree_type b) h (tree_value b) v"
              and I: "gathered s (as @ concat (map ?S d'))"
            have okb: "tree_ok P b" using ok by (auto simp: all)
            show "\<exists>s'. ?g e2 s = Some (Inr s') \<and> gathered s' (as @ concat (map ?S (d' @ [(h, b)])))"
            proof (cases b)
              case (Leaf u w)
              then show ?thesis using placed_type[OF pb] okb I by simp
            next
              case (Node u hs)
              note d2 = embedded_doc[OF pb[unfolded Node tree_type.simps tree_value_Node] okb[unfolded Node]]
              have "(h, b) \<in> set gs" by (simp add: all)
              from "1.IH"(2)[OF None Some lr[symmetric] node refl False this _ d2(2) sub_doc_ok[OF okb[unfolded Node]] I, of u]
              obtain s' where "getFieldsDotted snoc expand v rest s = Some (Inr s')"
                "gathered s' ((as @ concat (map ?S d')) @ tree_fields expand hs rest)" using Node by auto
              then show ?thesis using placed_type[OF pb] okb d2(1) Node by simp
            qed
          qed (use "1.prems"(3) in simp)
          ultimately show ?thesis unfolding g by simp
        qed
      qed
    qed
  qed
qed

text \<open>Documents whose arrays have indices for names.\<close>

fun indexed :: "tree \<Rightarrow> bool" where
  "indexed (Leaf t v) \<longleftrightarrow> True"
| "indexed (Node t fs) \<longleftrightarrow>
     (\<forall>(f, a) \<in> set fs. indexed a \<and> (t = ArrayType \<longrightarrow> f \<noteq> [] \<and> (\<forall>c \<in> set f. is_digit c)))"

lemma tree_field_in: "tree_field fs name = Some a \<Longrightarrow> (name, a) \<in> set fs"
  by (induction fs name rule: tree_field.induct) (auto split: if_splits)

lemma tree_field_there: "(name, a) \<in> set fs \<Longrightarrow> tree_field fs name \<noteq> None"
  by (induction fs name rule: tree_field.induct) auto

lemma index_starts:
  assumes "f \<noteq> []" "\<forall>c \<in> set f. is_digit c" "rest = f \<or> (\<exists>r. rest = f @ CHR ''.'' # r)"
  shows "starts_with_index rest"
proof -
  have "dropWhile is_digit f = []" "\<not> is_digit (CHR ''.'')" "is_digit (hd f)"
    using assms(1,2) by (simp_all add: dropWhile_eq_Nil_conv is_digit_def)
  then show ?thesis using assms(1,3) by (auto simp: starts_with_index_def dropWhile_append3)
qed

text \<open>An element that was found, or the elements of the last array.\<close>

fun expanded :: "bool \<Rightarrow> tree \<Rightarrow> tree list" where
  "expanded expand (Leaf t v) = [Leaf t v]"
| "expanded expand (Node t gs) = (if t = ArrayType \<and> expand then map snd gs else [Node t gs])"

text \<open>What a dotted lookup finds is then the only element of its name.\<close>

lemma dotted_is_gathered:
  assumes "tree_dotted fs name = Some a" "indexed (Node ObjectType fs)" "tree_ok P (Node t fs)"
  shows "tree_fields expand fs name = expanded expand a"
  using assms
proof (induction fs name arbitrary: t rule: tree_dotted.induct)
  case (1 fs name)
  show ?case
  proof (cases "tree_field fs name")
    case (Some b)
    then show ?thesis using "1.prems"(1)
      by (subst (asm) tree_dotted.simps, subst tree_fields.simps) (auto split: tree.split)
  next
    case None
    then obtain left rest u gs where n: "split_dot name = Some (left, rest)" "tree_field fs left = Some (Node u gs)"
      "tree_dotted gs rest = Some a"
      using "1.prems"(1) by (subst (asm) tree_dotted.simps) (auto split: option.splits tree.splits)
    have "\<forall>(f, a) \<in> set fs. NUL \<notin> set f \<and> tree_ok P a" using "1.prems"(3) by simp
    from bspec[OF this tree_field_in[OF n(2)]] bspec[OF "1.prems"(2)[unfolded indexed.simps] tree_field_in[OF n(2)]]
    have g: "indexed (Node u gs)" "tree_ok P (Node u gs)" by simp_all
    then have i: "indexed (Node ObjectType gs)" by auto
    have "u = ObjectType \<or> starts_with_index rest"
    proof (cases "u = ArrayType")
      case True
      obtain f b where f: "(f, b) \<in> set gs" "rest = f \<or> (\<exists>r. rest = f @ CHR ''.'' # r)"
      proof (cases "tree_field gs rest")
        case (Some b)
        then show ?thesis using that tree_field_in by blast
      next
        case none: None
        then obtain l r b where "split_dot rest = Some (l, r)" "tree_field gs l = Some b"
          using n(3) by (subst (asm) tree_dotted.simps) (auto split: option.splits)
        then show ?thesis using that[of l b] tree_field_in split_dot_parts by blast
      qed
      then show ?thesis using index_starts[OF _ _ f(2)] g(1) True by auto
    next
      case False
      then show ?thesis using g(2) by (simp add: isABSONObj_def)
    qed
    then show ?thesis
      using "1.IH"[OF None n(1) refl n(2) refl n(3) i g(2)] None n by (subst tree_fields.simps) simp
  qed
qed

text \<open>C33. \<open>getFieldsDotted\<close> hands to the collection the elements a dotted name leads to, in the order of the document, and ends: a field
  of the whole name (or the elements of the array it is, when the last array is to be expanded); or else, through the
  field before the first dot, those of the rest of the name in an object, in an array at an index, or in each object
  and array inside an array. In documents whose arrays are named by indices, when a single dotted lookup finds a field, that
  field is the one that is handed over, and no other; but where it is an array and the last array is to be expanded, as it is by
  default, its elements are handed over in its place.
\<close>

theorem fields_gathered:
  assumes "holds p (doc_bytes fs)" "doc_ok P fs"
  shows "\<exists>es e. getFieldsDotted snoc expandLastArray p name [] = Some (Inr es) \<and>
    gathered es (tree_fields expandLastArray fs name) \<and>
    getFieldDotted p name = Some (Inr e) \<and> finds e (tree_dotted fs name) \<and>
    (indexed (Node ObjectType fs) \<and> tree_dotted fs name \<noteq> None \<longrightarrow>
      tree_fields expandLastArray fs name = expanded expandLastArray (the (tree_dotted fs name)))"
proof -
  have "gathered [] []" by (simp add: gathered_def)
  from getFieldsDotted_at[OF assms this, of expandLastArray name] getFieldDotted_at[OF assms, of name] show ?thesis
    using dotted_is_gathered[of fs name _ P ObjectType] assms(2) by (auto simp: doc_ok_def)
qed

lemma fields_gathered_witness:
  "\<exists>es. getFieldsDotted snoc False (doc_bytes [(''a'', Node ArrayType [(''0'', Node ObjectType [(''b'', Leaf jstNULL [])])])], 0)
      ''a.b'' [] = Some (Inr es) \<and> gathered es [Leaf jstNULL []]"
proof -
  let ?f = "[(''a'', Node ArrayType [(''0'', Node ObjectType [(''b'', Leaf jstNULL [])])])]"
  have "doc_ok (\<lambda>_ _. True) ?f"
    using null_leaf by (simp add: doc_ok_def isABSONObj_def NUL_def doc_sizes)
  moreover have "tree_fields False ?f ''a.b'' = [Leaf jstNULL []]"
    by (simp add: tree_fields.simps split_dot_def starts_with_index_def is_digit_def)
  ultimately show ?thesis using fields_gathered[OF holds_start, of _ _ False "''a.b''"] by metis
qed

section \<open>Objects made flat\<close>

text \<open>\<open>nested2dotted\<close>: the loop over an object, with the name it is reached by in front.\<close>

partial_function (option) flat_loop ::
  "string \<Rightarrow> string \<Rightarrow> BSONObjIterator \<Rightarrow> BSONObjBuilder \<Rightarrow> BSONObjBuilder res option"
where
  "flat_loop base m it b =
     (if \<not> it_more it then Some (Inr b)
      else case run_then (it_next m it) (\<lambda>(e, it). run_then (el_type e) (\<lambda>t. run_then (fieldName e) (\<lambda>f. Inr (e, t, f, it)))) of
             Inl f \<Rightarrow> Some (Inl f)
           | Inr (e, t, f, it') \<Rightarrow>
               if t = ObjectType then
                 case run_then (embedded_at e) (\<lambda>q. run_then (iterator_over q) (\<lambda>j. Inr (q, j))) of
                   Inl f \<Rightarrow> Some (Inl f)
                 | Inr (q, j) \<Rightarrow>
                     Option.bind (flat_loop (base @ f @ ''.'') (fst q) j b) (\<lambda>r.
                       case r of Inl f \<Rightarrow> Some (Inl f) | Inr b' \<Rightarrow> flat_loop base m it' b')
               else case appendAs e (base @ f) b of Inl f \<Rightarrow> Some (Inl f) | Inr b' \<Rightarrow> flat_loop base m it' b')"

definition nested2dotted :: "BSONObjBuilder \<Rightarrow> pointer_in \<Rightarrow> string \<Rightarrow> BSONObjBuilder res option" where
  "nested2dotted b obj base =
     (case iterator_over obj of Inl f \<Rightarrow> Some (Inl f) | Inr it \<Rightarrow> flat_loop base (fst obj) it b)"

definition nested2dotted_new :: "(nat \<Rightarrow> char) \<Rightarrow> pointer_in \<Rightarrow> BSONObj res option" where
  "nested2dotted_new memory obj = build_with memory 512 (\<lambda>b. nested2dotted b obj [])"

text \<open>The fields of the flat object.\<close>

function flat :: "string \<Rightarrow> (string \<times> tree) list \<Rightarrow> (string \<times> tree) list" where
  "flat base [] = []"
| "flat base ((f, Leaf t v) # fs) = (base @ f, Leaf t v) # flat base fs"
| "flat base ((f, Node t gs) # fs) =
     (if t = ObjectType then flat (base @ f @ ''.'') gs else [(base @ f, Node t gs)]) @ flat base fs"
  by pat_completeness auto
termination by (relation "measure (\<lambda>(base, fs). size_list (size_prod (\<lambda>_. 0) size) fs)") auto

lemma appends_seq:
  assumes "\<forall>b. g b = Some (ap b)" "writes ap s" "\<forall>b. h b = Some (aq b)" "writes aq u"
  shows "\<exists>ar. (\<forall>b. Option.bind (g b) (\<lambda>r. case r of Inl f \<Rightarrow> Some (Inl f) | Inr b' \<Rightarrow> h b') = Some (ar b)) \<and> writes ar (s @ u)"
proof (intro exI conjI)
  show "\<forall>b. Option.bind (g b) (\<lambda>r. case r of Inl f \<Rightarrow> Some (Inl f) | Inr b' \<Rightarrow> h b') = Some (run_then (ap b) aq)"
    using assms(1,3) by (auto simp: run_then_def split: sum.split)
  show "writes (\<lambda>b. run_then (ap b) aq) (s @ u)" by (rule writes_then[OF assms(2,4)])
qed

lemma flat_loop_at:
  assumes "stands m i fs" "fields_ok P fs"
  shows "\<exists>ap. (\<forall>b. flat_loop base m i b = Some (ap b)) \<and> writes ap (body (flat base fs))"
  using assms
proof (induction base fs arbitrary: m i rule: flat.induct)
  case (1 base)
  then have "\<not> it_more i" by (auto simp: stands_def it_more_def body_def)
  then have "\<forall>b. flat_loop base m i b = Some (Inr b)" by (subst flat_loop.simps) simp
  then show ?case using writes_Nil by (auto simp: body_Nil)
next
  case (2 base f t v fs)
  obtain i' p where i: "it_next m i = Inr ((m, it_pos i), i')" "stands m i' fs"
    and p: "placed (m, it_pos i) (tree_type (Leaf t v)) f (tree_value (Leaf t v)) p" by (rule stands_Cons[OF "2.prems"])
  have more: "it_more i" using "2.prems"(1) body_empty[of "(f, Leaf t v) # fs"] by (auto simp: stands_def it_more_def)
  have ok: "fields_ok P fs" "t \<noteq> ObjectType" using "2.prems"(2) by (auto simp: fields_ok_def isABSONObj_def)
  obtain aq where aq: "\<forall>b. flat_loop base m i' b = Some (aq b)" "writes aq (body (flat base fs))" using "2.IH"[OF i(2) ok(1)] by blast
  have "\<forall>b. Some (appendAs (m, it_pos i) (base @ f) b) = Some (appendAs (m, it_pos i) (base @ f) b)" by simp
  from appends_seq[OF this appendAs_writes[OF p] aq]
  obtain ar where ar: "\<forall>b. (case appendAs (m, it_pos i) (base @ f) b of Inl f \<Rightarrow> Some (Inl f) | Inr b' \<Rightarrow> flat_loop base m i' b') = Some (ar b)"
    "writes ar (raw_bytes (t, base @ f, v) @ body (flat base fs))" by auto
  have "flat_loop base m i b = Some (ar b)" for b
    using ar(1) more i(1) placed_type[OF p] p ok(2) by (subst flat_loop.simps) (simp add: placed_def)
  moreover have "body (flat base ((f, Leaf t v) # fs)) = raw_bytes (t, base @ f, v) @ body (flat base fs)"
    by (simp add: body_def raw_field_def)
  ultimately show ?case using ar(2) by metis
next
  case (3 base f t gs fs)
  obtain i' p where i: "it_next m i = Inr ((m, it_pos i), i')" "stands m i' fs"
    and p: "placed (m, it_pos i) (tree_type (Node t gs)) f (tree_value (Node t gs)) p" by (rule stands_Cons[OF "3.prems"])
  have more: "it_more i" using "3.prems"(1) body_empty[of "(f, Node t gs) # fs"] by (auto simp: stands_def it_more_def)
  have ok: "fields_ok P fs" "tree_ok P (Node t gs)" using "3.prems"(2) by (auto simp: fields_ok_def)
  obtain aq where aq: "\<forall>b. flat_loop base m i' b = Some (aq b)" "writes aq (body (flat base fs))"
    using "3.IH"(2)[OF i(2) ok(1)] by blast
  show ?case
  proof (cases "t = ObjectType")
    case True
    note d = embedded_doc[OF p[unfolded tree_type.simps tree_value_Node] ok(2)]
    obtain j where j: "iterator_over p = Inr j" "stands (fst p) j gs" by (rule iterator_at_doc[OF d(2) sub_doc_ok[OF ok(2)]])
    have "fields_ok P gs" using sub_doc_ok[OF ok(2)] by (simp add: doc_ok_fields)
    then obtain ap where ap: "\<forall>b. flat_loop (base @ f @ ''.'') (fst p) j b = Some (ap b)" "writes ap (body (flat (base @ f @ ''.'') gs))"
      using "3.IH"(1)[OF True j(2)] by blast
    from appends_seq[OF ap aq] obtain ar where
      ar: "\<forall>b. Option.bind (flat_loop (base @ f @ ''.'') (fst p) j b) (\<lambda>r. case r of Inl f \<Rightarrow> Some (Inl f) | Inr b' \<Rightarrow> flat_loop base m i' b') = Some (ar b)"
      "writes ar (body (flat (base @ f @ ''.'') gs) @ body (flat base fs))" by blast
    have "flat_loop base m i b = Some (ar b)" for b
      using ar(1) more i(1) placed_type[OF p] p True d(1) j(1) by (subst flat_loop.simps) (simp add: placed_def)
    then show ?thesis using ar(2) True by (auto simp: body_append)
  next
    case False
    have "\<forall>b. Some (appendAs (m, it_pos i) (base @ f) b) = Some (appendAs (m, it_pos i) (base @ f) b)" by simp
    from appends_seq[OF this appendAs_writes[OF p] aq]
    obtain ar where ar: "\<forall>b. (case appendAs (m, it_pos i) (base @ f) b of Inl f \<Rightarrow> Some (Inl f) | Inr b' \<Rightarrow> flat_loop base m i' b') = Some (ar b)"
      "writes ar (raw_bytes (t, base @ f, doc_bytes gs) @ body (flat base fs))" by auto
    have "flat_loop base m i b = Some (ar b)" for b
      using ar(1) more i(1) placed_type[OF p] p False by (subst flat_loop.simps) (simp add: placed_def)
    moreover have "body (flat base ((f, Node t gs) # fs)) = raw_bytes (t, base @ f, doc_bytes gs) @ body (flat base fs)"
      using False by (simp add: body_def raw_field_def)
    ultimately show ?thesis using ar(2) by metis
  qed
qed

lemma nested2dotted_at:
  assumes "holds p (doc_bytes fs)" "doc_ok P fs" "length (doc_bytes (flat [] fs)) + 4 \<le> BufferMaxSize"
  shows "nested2dotted_new memory p = Some (Inr (doc_bytes (flat [] fs)))"
proof -
  obtain i where i: "iterator_over p = Inr i" "stands (fst p) i fs" by (rule iterator_at_doc[OF assms(1,2)])
  have "fields_ok P fs" using assms(2) by (simp add: doc_ok_fields)
  then obtain ap where ap: "\<forall>b. flat_loop [] (fst p) i b = Some (ap b)" "writes ap (body (flat [] fs))"
    using flat_loop_at[OF i(2)] by blast
  obtain b where b: "BSONObjBuilder_new memory 512 = Inr b" "bb_data (bob_b b) = le_int 4 0 @ map memory [0..<4]"
    "bob_offset b = 4" "\<not> bob_doneCalled b"
    using BSONObjBuilder_new_data[of 512 memory] by auto
  have "length (bb_data (bob_b b)) + length (body (flat [] fs)) \<le> BufferMaxSize" using assms(3) b(2) by (simp add: length_doc_bytes)
  from writesE[OF ap(2) this] obtain c where c: "ap b = Inr c" "bb_data (bob_b c) = bb_data (bob_b b) @ body (flat [] fs)"
    "bob_offset c = bob_offset b" "bob_doneCalled c = bob_doneCalled b" .
  have "bob_obj c = Inr (doc_bytes (flat [] fs))"
    unfolding doc_bytes_body using b c assms(3)
    by (intro bob_obj_data[where pre = "le_int 4 0" and room = "map memory [0..<4]"]) (simp_all add: length_doc_bytes)
  then show ?thesis by (simp add: nested2dotted_new_def build_with_def nested2dotted_def b(1) i(1) ap(1) c(1))
qed

section \<open>Names of a flat object\<close>

text \<open>In every object, and in those inside objects, the names have no dots and differ.\<close>

fun plain :: "tree \<Rightarrow> bool" where
  "plain (Leaf t v) \<longleftrightarrow> True"
| "plain (Node t fs) \<longleftrightarrow>
     (t = ObjectType \<longrightarrow> distinct (map fst fs) \<and> (\<forall>(f, a) \<in> set fs. CHR ''.'' \<notin> set f \<and> plain a))"

fun no_arrays :: "tree \<Rightarrow> bool" where
  "no_arrays (Leaf t v) \<longleftrightarrow> True"
| "no_arrays (Node t fs) \<longleftrightarrow> t = ObjectType \<and> (\<forall>(f, a) \<in> set fs. no_arrays a)"

definition first_name :: "string \<Rightarrow> string" where
  "first_name n = takeWhile (\<lambda>c. c \<noteq> CHR ''.'') n"

lemma split_dot_at: "CHR ''.'' \<notin> set f \<Longrightarrow> split_dot (f @ CHR ''.'' # r) = Some (f, r)"
  by (simp add: split_dot_def takeWhile_append dropWhile_append)

lemma first_name_at: "CHR ''.'' \<notin> set f \<Longrightarrow> first_name f = f" "CHR ''.'' \<notin> set f \<Longrightarrow> first_name (f @ CHR ''.'' # r) = f"
  by (auto simp: first_name_def takeWhile_append takeWhile_eq_all_conv)

lemma tree_dotted_skip:
  assumes "CHR ''.'' \<notin> set f" "first_name n \<noteq> f"
  shows "tree_dotted ((f, a) # fs) n = tree_dotted fs n"
proof -
  have "f \<noteq> n" using assms first_name_at(1) by auto
  moreover have "f \<noteq> left" if "split_dot n = Some (left, r)" for left r
    using assms split_dot_parts[OF that] first_name_at(2) by auto
  ultimately show ?thesis by (subst (1 2) tree_dotted.simps) (auto split: option.split)
qed

lemma no_dotted_field: "\<forall>(f, a) \<in> set fs. CHR ''.'' \<notin> set f \<Longrightarrow> CHR ''.'' \<in> set n \<Longrightarrow> tree_field fs n = None"
  by (induction fs n rule: tree_field.induct) auto

lemma flat_dotted:
  assumes "plain (Node ObjectType fs)" "(n, a) \<in> set (flat base fs)"
  shows "\<exists>n'. n = base @ n' \<and> first_name n' \<in> set (map fst fs) \<and> tree_dotted fs n' = Some a"
  using assms
proof (induction base fs arbitrary: n rule: flat.induct)
  case (2 base f t v fs)
  have f: "CHR ''.'' \<notin> set f" "f \<notin> set (map fst fs)" "plain (Node ObjectType fs)" using "2.prems"(1) by auto
  show ?case
  proof (cases "(n, a) \<in> set (flat base fs)")
    case True
    from "2.IH"[OF f(3) this] obtain n' where n': "n = base @ n'" "first_name n' \<in> set (map fst fs)" "tree_dotted fs n' = Some a" by blast
    then have "tree_dotted ((f, Leaf t v) # fs) n' = Some a" using tree_dotted_skip[OF f(1), of n'] f(2) by metis
    then show ?thesis using n' by auto
  next
    case False
    then have "n = base @ f" "a = Leaf t v" using "2.prems"(2) by simp_all
    then show ?thesis using f(1) by (intro exI[of _ f]) (simp add: first_name_at tree_dotted.simps[of _ f])
  qed
next
  case (3 base f t gs fs)
  have f: "CHR ''.'' \<notin> set f" "f \<notin> set (map fst fs)" "plain (Node ObjectType fs)" using "3.prems"(1) by auto
  have dots: "\<forall>(h, b) \<in> set ((f, Node t gs) # fs). CHR ''.'' \<notin> set h" using "3.prems"(1) by auto
  consider (rest) "(n, a) \<in> set (flat base fs)" | (sub) "t = ObjectType" "(n, a) \<in> set (flat (base @ f @ ''.'') gs)"
    | (here) "t \<noteq> ObjectType" "n = base @ f" "a = Node t gs"
    using "3.prems"(2) by (auto split: if_splits)
  then show ?case
  proof cases
    case rest
    from "3.IH"(2)[OF f(3) this] obtain n' where n': "n = base @ n'" "first_name n' \<in> set (map fst fs)" "tree_dotted fs n' = Some a" by blast
    then have "tree_dotted ((f, Node t gs) # fs) n' = Some a" using tree_dotted_skip[OF f(1), of n'] f(2) by metis
    then show ?thesis using n' by auto
  next
    case sub
    have "plain (Node ObjectType gs)" using "3.prems"(1) sub(1) by simp
    from "3.IH"(1)[OF sub(1) this sub(2)] obtain n' where n': "n = (base @ f @ ''.'') @ n'" "tree_dotted gs n' = Some a" by blast
    have "tree_dotted ((f, Node t gs) # fs) (f @ CHR ''.'' # n') = Some a"
      using no_dotted_field[OF dots, of "f @ CHR ''.'' # n'"] split_dot_at[OF f(1)] n'(2) by (subst tree_dotted.simps) simp
    then show ?thesis using n'(1) f(1) by (intro exI[of _ "f @ CHR ''.'' # n'"]) (simp add: first_name_at)
  next
    case here
    then show ?thesis using f(1) by (intro exI[of _ f]) (simp add: first_name_at tree_dotted.simps[of _ f])
  qed
qed simp

lemma flat_contains:
  "(f, a) \<in> set fs \<Longrightarrow> tree_type a \<noteq> ObjectType \<or> (\<exists>t v. a = Leaf t v) \<Longrightarrow> (base @ f, a) \<in> set (flat base fs)"
  "(f, Node ObjectType gs) \<in> set fs \<Longrightarrow> set (flat (base @ f @ ''.'') gs) \<subseteq> set (flat base fs)"
  by (induction base fs rule: flat.induct) auto

lemma dotted_flat:
  assumes "tree_dotted fs n = Some a" "no_arrays (Node ObjectType fs)" "tree_ok P (Node ObjectType fs)" "tree_type a \<noteq> ObjectType"
  shows "(base @ n, a) \<in> set (flat base fs)"
  using assms
proof (induction fs n arbitrary: base rule: tree_dotted.induct)
  case (1 fs n)
  show ?case
  proof (cases "tree_field fs n")
    case (Some b)
    then have "b = a" using "1.prems"(1) by (subst (asm) tree_dotted.simps) simp
    then show ?thesis using flat_contains(1)[OF tree_field_in[OF Some]] "1.prems"(4) by simp
  next
    case None
    then obtain left rest u gs where n: "split_dot n = Some (left, rest)" "tree_field fs left = Some (Node u gs)"
      "tree_dotted gs rest = Some a"
      using "1.prems"(1) by (subst (asm) tree_dotted.simps) (auto split: option.splits tree.splits)
    have "no_arrays (Node u gs)" "tree_ok P (Node u gs)"
      using bspec[OF conjunct2[OF "1.prems"(2)[unfolded no_arrays.simps]] tree_field_in[OF n(2)]]
        tree_field_ok[of P fs left] "1.prems"(3) n(2) by (simp_all add: doc_ok_def)
    then have u: "u = ObjectType" "no_arrays (Node ObjectType gs)" "tree_ok P (Node ObjectType gs)" by simp_all
    have "((base @ left @ ''.'') @ rest, a) \<in> set (flat (base @ left @ ''.'') gs)"
      by (rule "1.IH"[OF None n(1) refl n(2) refl n(3) u(2,3) "1.prems"(4)])
    moreover have "(left, Node ObjectType gs) \<in> set fs" using tree_field_in[OF n(2)] u(1) by simp
    moreover have "n = left @ CHR ''.'' # rest" using split_dot_parts[OF n(1)] by simp
    ultimately show ?thesis using flat_contains(2) by fastforce
  qed
qed

lemma flat_ok: "fields_ok P fs \<Longrightarrow> NUL \<notin> set base \<Longrightarrow> fields_ok P (flat base fs)"
  by (induction base fs rule: flat.induct) (auto simp: fields_ok_def NUL_def)

text \<open>C34. For a typed object in which names have no dots and differ in every object, and whose flat form is within the maximal size of
  an object: \<open>nested2dotted\<close> makes it flat, that is, the object it builds is the one whose fields have the dotted names of the fields that
  are no objects. Looking a dotted name up in the flat object as it is finds the field that the dotted lookup finds in the object it was made of; and in an object without arrays
  the two lookups find the same for every name that does not lead to an object.
\<close>

theorem flat_lookup:
  assumes "holds p (doc_bytes fs)" "doc_ok P fs" "plain (Node ObjectType fs)"
    and "int (length (doc_bytes (flat [] fs))) \<le> BSONObjMaxInternalSize"
  shows "\<exists>obj. nested2dotted_new memory p = Some (Inr obj) \<and> obj = doc_bytes (flat [] fs) \<and>
    (\<forall>name. \<exists>e d. getField_in (obj, 0) name = Some (Inr e) \<and> getFieldDotted p name = Some (Inr d) \<and>
      finds e (tree_field (flat [] fs) name) \<and> finds d (tree_dotted fs name) \<and>
      (tree_field (flat [] fs) name \<noteq> None \<longrightarrow> tree_field (flat [] fs) name = tree_dotted fs name) \<and>
      (no_arrays (Node ObjectType fs) \<longrightarrow> tree_dotted fs name \<noteq> None \<longrightarrow> tree_type (the (tree_dotted fs name)) \<noteq> ObjectType \<longrightarrow>
        tree_field (flat [] fs) name = tree_dotted fs name))"
proof -
  let ?flat = "flat [] fs"
  have "length (doc_bytes ?flat) + 4 \<le> BufferMaxSize" using assms(4) by (simp add: BSONObjMaxInternalSize_def BufferMaxSize_def)
  note obj = nested2dotted_at[OF assms(1,2) this]
  have ok: "doc_ok P ?flat" using assms(2,4) flat_ok[of P fs "[]"] by (simp add: doc_ok_fields)
  have found: "tree_field ?flat name \<noteq> None \<longrightarrow> tree_field ?flat name = tree_dotted fs name" for name
    using flat_dotted[OF assms(3), of name _ "[]"] tree_field_in[of ?flat name] by fastforce
  have all: "tree_field ?flat name = tree_dotted fs name"
    if plainly: "no_arrays (Node ObjectType fs)" and there: "tree_dotted fs name \<noteq> None"
      and inner: "tree_type (the (tree_dotted fs name)) \<noteq> ObjectType" for name
  proof -
    obtain a where a: "tree_dotted fs name = Some a" using there by blast
    then have "(name, a) \<in> set ?flat"
      using dotted_flat[OF a plainly, of P "[]"] assms(2) inner by (simp add: doc_ok_def)
    then show ?thesis using found tree_field_there by blast
  qed
  have "\<exists>e d. getField_in (doc_bytes ?flat, 0) name = Some (Inr e) \<and> getFieldDotted p name = Some (Inr d) \<and>
      finds e (tree_field ?flat name) \<and> finds d (tree_dotted fs name) \<and>
      (tree_field ?flat name \<noteq> None \<longrightarrow> tree_field ?flat name = tree_dotted fs name) \<and>
      (no_arrays (Node ObjectType fs) \<longrightarrow> tree_dotted fs name \<noteq> None \<longrightarrow> tree_type (the (tree_dotted fs name)) \<noteq> ObjectType \<longrightarrow>
        tree_field ?flat name = tree_dotted fs name)" for name
  proof -
    obtain e where e: "getField_in (doc_bytes ?flat, 0) name = Some (Inr e)" "finds e (tree_field ?flat name)"
      using getField_in_at[OF holds_start ok, of name] by blast
    obtain d where d: "getFieldDotted p name = Some (Inr d)" "finds d (tree_dotted fs name)"
      using getFieldDotted_at[OF assms(1,2), of name] by blast
    show ?thesis by (intro exI[of _ e] exI[of _ d] conjI e d found) (intro impI, rule all)
  qed
  then show ?thesis by (intro exI[of _ "doc_bytes ?flat"] conjI allI obj refl)
qed

lemma flat_lookup_witness:
  "nested2dotted_new (\<lambda>_. NUL) (doc_bytes [(''a'', Node ObjectType [(''b'', Leaf jstNULL [])])], 0) =
      Some (Inr (doc_bytes [(''a.b'', Leaf jstNULL [])]))"
proof -
  let ?f = "[(''a'', Node ObjectType [(''b'', Leaf jstNULL [])])]"
  have "doc_ok (\<lambda>_ _. True) ?f" "plain (Node ObjectType ?f)"
    using null_leaf by (simp_all add: doc_ok_def isABSONObj_def NUL_def doc_sizes)
  moreover have "int (length (doc_bytes (flat [] ?f))) \<le> BSONObjMaxInternalSize" by (simp add: doc_sizes)
  ultimately show ?thesis using flat_lookup[OF holds_start, of _ ?f "\<lambda>_. NUL"] by fastforce
qed

section \<open>The same names in the same order\<close>

partial_function (option) match_loop :: "string \<Rightarrow> BSONObjIterator \<Rightarrow> string \<Rightarrow> BSONObjIterator \<Rightarrow> bool res option" where
  "match_loop m l n r =
     (if it_more l \<and> it_more r then
        case run_then (it_next m l) (\<lambda>(x, l). run_then (it_next n r) (\<lambda>(y, r).
               run_then (fieldName x) (\<lambda>f. run_then (fieldName y) (\<lambda>g. Inr (f, g, l, r))))) of
          Inl f \<Rightarrow> Some (Inl f)
        | Inr (f, g, l', r') \<Rightarrow> if f \<noteq> g then Some (Inr False) else match_loop m l' n r'
      else Some (Inr (\<not> (it_more l \<or> it_more r))))"

definition fieldsMatch :: "pointer_in \<Rightarrow> pointer_in \<Rightarrow> bool res option" where
  "fieldsMatch lhs rhs =
     (case run_then (iterator_over lhs) (\<lambda>l. run_then (iterator_over rhs) (\<lambda>r. Inr (l, r))) of
        Inl f \<Rightarrow> Some (Inl f)
      | Inr (l, r) \<Rightarrow> match_loop (fst lhs) l (fst rhs) r)"

lemma fieldsMatch_at:
  assumes "holds p (doc_bytes fs)" "doc_ok P fs" "holds q (doc_bytes gs)" "doc_ok Q gs"
  shows "fieldsMatch p q = Some (Inr (map fst fs = map fst gs))"
proof -
  have more: "it_more l \<longleftrightarrow> fs \<noteq> []" if "stands m l fs" for m l and fs :: "(string \<times> tree) list"
    using that body_empty[of fs] by (auto simp: stands_def it_more_def)
  have loop: "match_loop m l n r = Some (Inr (map fst fs = map fst gs))"
    if "stands m l fs" "fields_ok P fs" "stands n r gs" "fields_ok Q gs" for m l n r fs gs
    using that
  proof (induction fs gs arbitrary: l r rule: list_induct2')
    case (4 fa fs gb gs)
    obtain f a where fa: "fa = (f, a)" by (cases fa)
    obtain g b where gb: "gb = (g, b)" by (cases gb)
    obtain l' v where l: "it_next m l = Inr ((m, it_pos l), l')" "stands m l' fs" "placed (m, it_pos l) (tree_type a) f (tree_value a) v"
      by (rule stands_Cons[OF "4.prems"(1,2)[unfolded fa]])
    obtain r' w where r: "it_next n r = Inr ((n, it_pos r), r')" "stands n r' gs" "placed (n, it_pos r) (tree_type b) g (tree_value b) w"
      by (rule stands_Cons[OF "4.prems"(3,4)[unfolded gb]])
    have "it_more l" "it_more r" using more[OF "4.prems"(1)] more[OF "4.prems"(3)] by simp_all
    moreover have "fieldName (m, it_pos l) = Inr f" "fieldName (n, it_pos r) = Inr g" using l(3) r(3) by (simp_all add: placed_def)
    ultimately show ?case
      using l(1) r(1) "4.IH"[OF l(2) _ r(2)] "4.prems"(2,4)
      by (subst match_loop.simps) (auto simp: fa gb fields_ok_def)
  qed (subst match_loop.simps, simp add: more)+
  obtain i where i: "iterator_over p = Inr i" "stands (fst p) i fs" by (rule iterator_at_doc[OF assms(1,2)])
  obtain j where j: "iterator_over q = Inr j" "stands (fst q) j gs" by (rule iterator_at_doc[OF assms(3,4)])
  show ?thesis using loop[OF i(2) _ j(2)] assms(2,4) by (simp add: fieldsMatch_def i(1) j(1) doc_ok_fields)
qed

end
