(* ===== verification/Spec2Isabelle.thy ===== *)
theory Spec2Isabelle
  imports SConvert SConfigFileParser CFloat SEngineEvent SCharacter SLog NetProps NetLogin NetSteps
    DataBaseProps DataBaseBytes MongoCursor SGame NetSessions GameProps MongoConnection MongoNames
    MongoBounds MongoGather
begin

section \<open>Sung, a game server: what is modelled and what is proved\<close>

text \<open>
  The program. \<open>src/Engine\<close>, \<open>src/Game\<close>, \<open>src/DataBase\<close> and \<open>src/Log\<close> are the server: a \<open>Game\<close> makes three
  engines (network, data base, schedule) that work off queues of events. The network engine
  accepts connections, asks the data base engine about logins, keeps a list of \<open>NetMachine\<close>s and
  handles what the clients send; the data base engine answers from MongoDB; the schedule engine
  runs tasks on timers. \<open>src/ThirdPartiesLibs\<close> holds log4cpp 1.1 and the MongoDB driver 2.2; of
  these the parts the server calls are modelled. The build is the one of \<open>Sung.vcproj\<close>: \<open>WIN32\<close> is
  defined and the asserts are active.

  The theories and the files they model:
  \<^item> \<open>Prelude\<close>: failures as values (\<open>Abort\<close> a failed assert, \<open>Throw\<close> an exception, \<open>Undefined\<close> what C++
    gives no meaning to), procedures over a state (\<open>act\<close>, \<open>op\<close>) and their sequencing.
    \<open>StdMap\<close>, \<open>StdString\<close>: \<open>std::map\<close> (locale \<open>dictionary\<close>), strings, number and line input.
    \<open>CFloat\<close>: float and double as bit patterns.
  \<^item> \<open>SConvert\<close>, \<open>SConfigFileParser\<close>: \<open>Engine/SConvert.h\<close>, \<open>Engine/SConfigFileParser.{h,cpp}\<close>.
  \<^item> \<open>SEngineEvent\<close>, \<open>SCharacter\<close>: \<open>Engine/SEngineEvent.h\<close>; \<open>Game/SCharacter\<close>, \<open>SPlayer\<close>, \<open>SNPC\<close>, \<open>SItem\<close>.
  \<^item> \<open>SEngine\<close>: \<open>Engine/SEngine.{h,cpp}\<close>. Its locale \<open>event_loop\<close> is the contract of every loop over a
    queue; the network, data base and schedule engines interpret it.
  \<^item> \<open>NetState\<close>, \<open>STcpSocket\<close>, \<open>SNetMachine\<close>, \<open>SNetConsole\<close>, \<open>SNetEngine\<close>: the files of these names in
    \<open>Engine\<close>, over one state, the record \<open>NetEngine\<close> with stores for the objects made with \<open>new\<close>.
    \<open>NetInvariant\<close>, \<open>NetProps\<close>, \<open>NetLogin\<close>, \<open>NetSteps\<close>, \<open>NetSessions\<close>: its invariant, what the operations do,
    the steps of the threads, and the refinement of an abstract book of sessions.
  \<^item> \<open>MongoClient\<close>: how the driver reads fields and cursors. \<open>SDataBase\<close>: \<open>DataBase/SDataBase.h\<close> (a record
    of methods, and the locale \<open>data_base\<close> of what clients rely on) and \<open>SDataBaseMongo.{h,cpp}\<close>.
    \<open>MongoBuffer\<close>, \<open>MongoElement\<close>, \<open>MongoBuilder\<close>, \<open>MongoOID\<close>: the driver's buffers, elements, builder and object ids
    over bytes (\<open>bson/util/builder.h\<close>, \<open>bson/bsonelement.h\<close>, \<open>bson-inl.h\<close>, \<open>bsonobjbuilder.h\<close>, \<open>oid.cpp\<close>).
    \<open>MongoWire\<close>, \<open>MongoFields\<close>: reading gives what was written, and the documents of \<open>MongoClient\<close> are
    what the bytes say; \<open>MongoMessage\<close>, \<open>MongoCursor\<close>: the requests (\<open>client/dbclient.cpp\<close>), their reader (\<open>db/dbmessage.h\<close>) and
    the cursor over the replies (\<open>client/dbclientcursor.cpp\<close>), which refines the cursor of \<open>MongoClient\<close>; \<open>DataBaseBytes\<close>: the same for the objects \<open>SDataBaseMongo.cpp\<close> builds.
    \<open>MongoSocket\<close>: sockets and ports (\<open>util/net/sock.cpp\<close>, \<open>message_port.cpp\<close>, \<open>message.cpp\<close>). \<open>MongoConnection\<close>: the connection
    (\<open>client/dbclient.cpp\<close>, \<open>dbclientinterface.h\<close>) and \<open>util/net/hostandport.h\<close>; its locale \<open>port_simulation\<close> says when a
    port does for a cursor what another does, and is interpreted on the connection and on the answers in their order.
    \<open>MongoValid\<close>: \<open>valid\<close> of \<open>db/jsobj.cpp\<close> with \<open>bson/bson-inl.h\<close>, and a type system for the bytes of documents.
    \<open>MongoCompare\<close>: the order of elements and objects (\<open>bson/bson-inl.h\<close>, \<open>db/jsobj.cpp\<close>, \<open>bson/ordering.h\<close>); \<open>MongoOrder\<close>: the
    order as one of trees, with the locale \<open>comparison\<close> of what a comparison promises, interpreted on numbers, bytes, doubles and
    documents; \<open>MongoKeys\<close>: that the code computes it, forwards and under keys. \<open>MongoDotted\<close>, \<open>MongoExtract\<close>: names that reach into
    objects, sorting by them, what may be stored, and the objects made of fields of others (\<open>db/jsobj.cpp\<close>); \<open>MongoGather\<close>: all
    elements of a dotted name, and objects made flat; \<open>MongoBounds\<close>: the least and the greatest value of a type; \<open>MongoNames\<close>: the order
    of names (\<open>util/stringutils.{h,cpp}\<close>), of dotted names, and operators (\<open>db/jsobj.cpp\<close>).
    \<open>MongoServer\<close>: the server's documented behaviour as the hypothesis \<open>documented\<close>, and a server in
    memory that has it. \<open>SDataBaseEngine\<close>: \<open>Engine/SDataBaseEngine.{h,cpp}\<close>. \<open>DataBaseProps\<close>: its properties.
  \<^item> \<open>SSchedule\<close>: \<open>Engine/SScheduledTask.{h,cpp}\<close>, \<open>SScheduleEngine.{h,cpp}\<close>.
  \<^item> \<open>Log4cpp\<close>, \<open>SLog\<close>: the categories and appenders of log4cpp; \<open>Log/SLog.{h,cpp}\<close>, \<open>SLogLayout.{h,cpp}\<close>.
  \<^item> \<open>SGame\<close>, \<open>GameProps\<close>: \<open>Game/SGame.{h,cpp}\<close>, and the properties of the engines together.
\<close>

text \<open>
  How state and operations correspond. A class is a record of its members; a constructor takes
  as an argument the memory of the members it leaves uninitialised. A virtual method table is
  an argument or a record of functions. A mutex is not a state: what it protects is one step.
  \<open>NetSteps\<close> lets the threads and completions of the network engine
  interleave freely, a handler being one step. The threads of \<open>Run\<close> (\<open>run_threads\<close>) interleave by frames and readings of the flag, in an order
  \<open>turn\<close>; other threads act before every such step (\<open>other\<close>) and whenever the frame of the network engine looks at a queue (\<open>drain_shared\<close>, \<open>Frame_shared\<close>). Parts that
  do not compile as written (members that are declared under another name, and in \<open>NetMachine::PushReceivedEvent\<close> two assignments to a
  constant parameter, which the event that is pushed does not get) are modelled as
  the rest of the code uses them.

  What the lemmas show, by group: the invariant of the network engine is kept by every handler that has a definition,
  whether it fails or not (\<open>safe\<close>, \<open>safe_intros\<close>), and holds in every state that is reached before a command is handled; each handler opens or
  closes sessions and does no more (\<open>refines\<close>); the loops over the queues end; a login, from the
  first bytes to the machine on the list; broadcasts, moves and disconnections; the reader
  and the writer of configurations are inverse; what the data base holds after
  each request; documents written and read as bytes (\<open>writes\<close>, \<open>at_raw\<close>), and what is typed is valid
  (\<open>typed_value\<close>, \<open>inside_accepted\<close>); documents compared, sorted and cut to
  the fields of a key, as trees (\<open>docs_compare\<close>, \<open>extractFields_at\<close>), gathered and made flat (\<open>getFieldsDotted_at\<close>, \<open>nested2dotted_at\<close>), with the bounds of
  their types around them; names ordered by what they are cut into (\<open>lex_loop_tokens\<close>); messages through a stream, in (\<open>ahead\<close>) and out (\<open>hands\<close>); timers and tasks; loggers. Where the code goes wrong the theorem says what it
  does: see the findings of the manifest.

  Loops and bounds. No fuel is used; the million rounds of \<open>compareDottedFieldNames\<close> are the code's own limit, and names below that length stay below it. The loops over the bytes of an object need not end when they are no object;
  that they end on objects the builder wrote is proved (\<open>find_loop_run\<close>, \<open>elems_loop_run\<close>). Loops over queues, over \<open>GetMachineFromPlayerName\<close> and the threads of
  \<open>Run\<close> are \<open>partial_function\<close>s, and that they return is proved (\<open>Frame_run\<close>, \<open>Frame_shared_run\<close>, \<open>db_Frame_run\<close>,
  \<open>DisconnectAcct_ends\<close>, \<open>threads_stop\<close>), as long as the order of the threads is fair and others push no more at some time. The loops of the reader of configurations have a measure, the
  stream, and the one that receives bytes has what is left to receive. The loop that sends goes on as long as the system takes
  nothing, and the check of bytes may never end; that they end is proved where it holds (\<open>Socket_send_willing\<close>, \<open>typed_valid\<close>). Numbers are \<open>int\<close> where the code relies on no wrap-around, with the overflow of the number of
  machines as \<open>Undefined\<close>; the number of a login is a \<open>32 word\<close>, floats and doubles are words.

  Parameters: the text that boost makes of the operands of an archive, and its reading (\<open>serialize\<close> is modelled over any archive, a record of
  the operations \<open>ar & x\<close>), what the operating
  system does to a socket (for the driver: what it takes of every send, what arrives, and what becomes of a
  connection, as fields of the state), boost's timers, the files read, the clock, and the Mongo server. The methods
  \<open>ProcessReceivedCommand\<close> and \<open>ProcessReceivedConsoleCommand\<close> are declared and called, and defined nowhere: they are arguments
  of which nothing is assumed. What is proved of the received events leaves out those that call them
  (\<open>runs_command\<close>: a console command, and a line of chat that begins with a dot).

  Not modelled: the log messages of the engines (a logger never changes what an engine does),
  the order of log4cpp's set of appenders, which is the order of their addresses (the model has the
  order of their addition), the code under \<open>#ifdef UNIX\<close>, the parts of the two libraries the server does not
  call (configurators, filters and other appenders; listening and addresses, SSL, logging in and other commands, replica
  sets, sharding, GridFS, the text of documents, \<open>addFields\<close>, \<open>dotted2nested\<close>, the collections that \<open>getFieldsDotted\<close> fills (what inserting does to one is an argument), and utilities of the driver), of which the server relies on what \<open>documented\<close> says, and the project files.
\<close>

end
